(* ===== verification/Net_Prelude.thy ===== *)
theory Net_Prelude
  imports Main "HOL-Library.Word" "HOL-Library.Monad_Syntax"
begin

text \<open>
  Shared vocabulary of the development: the fixed-width integer types of
  \<^verbatim>\<open>stdint.h\<close>, the error codes of \<^verbatim>\<open>include/common/net_errors.h\<close>, the constants of
  \<^verbatim>\<open>include/common/easy_net_config.h\<close>, and the generic lemmas on lists that the
  component theories use.  A C operation that dereferences a null pointer, reaches
  \<^verbatim>\<open>assert_halt\<close> or accesses memory outside an object has no defined result; such an
  operation is modelled by the value \<^term>\<open>None\<close> of an option type.
\<close>

unbundle bit_operations_syntax

section \<open>Machine types\<close>

type_synonym u8 = "8 word"
type_synonym u16 = "16 word"
type_synonym u32 = "32 word"

text \<open>A pointer is an address or null.\<close>

type_synonym addr = nat
type_synonym ptr = "addr option"

section \<open>Error codes\<close>

datatype net_err_t =
    NET_ERR_NEED_WAIT | NET_OK | NET_ERR_SYS | NET_ERR_FULL | NET_ERR_TIMEOUT
  | NET_ERR_MEM | NET_ERR_SIZE | NET_ERR_PARAM | NET_ERR_STATE | NET_ERR_NONE
  | NET_ERR_IO | NET_ERR_EXIST | NET_ERR_NOT_SUPPORT | NET_ERR_BROKEN
  | NET_ERR_UNREACH | NET_ERR_WRONG_SOCKET | NET_ERR_CONNECTED | NET_ERR_BINED
  | NET_ERR_RESET | NET_ERR_CLOSED | NET_ERR_ADDR | NET_ERR_REFUSED

fun net_err_code :: "net_err_t \<Rightarrow> int" where
  "net_err_code NET_ERR_NEED_WAIT = 1"
| "net_err_code NET_OK = 0"
| "net_err_code NET_ERR_SYS = - 1"
| "net_err_code NET_ERR_FULL = - 2"
| "net_err_code NET_ERR_TIMEOUT = - 3"
| "net_err_code NET_ERR_MEM = - 4"
| "net_err_code NET_ERR_SIZE = - 5"
| "net_err_code NET_ERR_PARAM = - 6"
| "net_err_code NET_ERR_STATE = - 7"
| "net_err_code NET_ERR_NONE = - 8"
| "net_err_code NET_ERR_IO = - 9"
| "net_err_code NET_ERR_EXIST = - 10"
| "net_err_code NET_ERR_NOT_SUPPORT = - 11"
| "net_err_code NET_ERR_BROKEN = - 12"
| "net_err_code NET_ERR_UNREACH = - 13"
| "net_err_code NET_ERR_WRONG_SOCKET = - 14"
| "net_err_code NET_ERR_CONNECTED = - 15"
| "net_err_code NET_ERR_BINED = - 16"
| "net_err_code NET_ERR_RESET = - 17"
| "net_err_code NET_ERR_CLOSED = - 18"
| "net_err_code NET_ERR_ADDR = - 19"
| "net_err_code NET_ERR_REFUSED = - 20"

text \<open>The test \<^verbatim>\<open>err < 0\<close> that callers make on a result.\<close>

definition net_err_neg :: "net_err_t \<Rightarrow> bool" where
  "net_err_neg e \<longleftrightarrow> net_err_code e < 0"

lemma net_err_neg_simps [simp]:
  "\<not> net_err_neg NET_OK" "\<not> net_err_neg NET_ERR_NEED_WAIT" "net_err_neg NET_ERR_SYS" "net_err_neg NET_ERR_FULL"
  "net_err_neg NET_ERR_TIMEOUT" "net_err_neg NET_ERR_MEM" "net_err_neg NET_ERR_SIZE" "net_err_neg NET_ERR_PARAM"
  "net_err_neg NET_ERR_STATE" "net_err_neg NET_ERR_NONE" "net_err_neg NET_ERR_IO" "net_err_neg NET_ERR_EXIST"
  "net_err_neg NET_ERR_NOT_SUPPORT" "net_err_neg NET_ERR_BROKEN" "net_err_neg NET_ERR_UNREACH"
  "net_err_neg NET_ERR_WRONG_SOCKET" "net_err_neg NET_ERR_CONNECTED" "net_err_neg NET_ERR_BINED"
  "net_err_neg NET_ERR_RESET" "net_err_neg NET_ERR_CLOSED" "net_err_neg NET_ERR_ADDR" "net_err_neg NET_ERR_REFUSED"
  by (simp_all add: net_err_neg_def)

lemma net_err_neg_iff: "net_err_neg e \<longleftrightarrow> e \<noteq> NET_OK \<and> e \<noteq> NET_ERR_NEED_WAIT"
  by (cases e) (simp_all add: net_err_neg_def)

section \<open>Configuration constants\<close>

abbreviation (input) PACKET_PAGE_SIZE :: int where "PACKET_PAGE_SIZE \<equiv> 128"
abbreviation (input) PACKET_PAGE_CNT :: nat where "PACKET_PAGE_CNT \<equiv> 512"
abbreviation (input) PACKET_BUFFER_SIZE :: nat where "PACKET_BUFFER_SIZE \<equiv> 256"

section \<open>Collections of rewrite rules\<close>

named_theorems list_abs \<open>what the heap operations of list.c do to the represented sequence\<close>
named_theorems pool_abs \<open>what the pool operations do to the free list\<close>
named_theorems ring_abs \<open>what the ring-buffer operations do to the stored sequence\<close>
named_theorems pkt_abs \<open>what the packet operations do to the byte sequence\<close>

section \<open>Generic list lemmas\<close>

text \<open>The pointer to the first (last) element of a sequence, null when it is empty.\<close>

definition hd_ptr :: "'a list \<Rightarrow> 'a option" where
  "hd_ptr xs = (case xs of [] \<Rightarrow> None | x # _ \<Rightarrow> Some x)"

definition last_ptr :: "'a list \<Rightarrow> 'a option" where
  "last_ptr xs = hd_ptr (rev xs)"

lemma hd_ptr_simps [simp]: "hd_ptr [] = None" "hd_ptr (x # xs) = Some x"
  by (simp_all add: hd_ptr_def)

lemma hd_ptr_append: "hd_ptr (xs @ ys) = (if xs = [] then hd_ptr ys else hd_ptr xs)"
  by (cases xs) simp_all

lemma last_ptr_simps [simp]: "last_ptr [] = None" "last_ptr (xs @ [x]) = Some x"
  by (simp_all add: last_ptr_def)

lemma last_ptr_append [simp]: "last_ptr (xs @ ys) = (if ys = [] then last_ptr xs else last_ptr ys)"
  by (cases ys rule: rev_cases) (simp_all add: last_ptr_def hd_ptr_append)

lemma last_ptr_Cons [simp]: "last_ptr (x # xs) = (if xs = [] then Some x else last_ptr xs)"
  using last_ptr_append [of "[x]" xs] last_ptr_simps(2) [of "[]" x] by simp

lemma hd_ptr_None [simp]: "hd_ptr xs = None \<longleftrightarrow> xs = []"
  by (cases xs) simp_all

lemma last_ptr_None [simp]: "last_ptr xs = None \<longleftrightarrow> xs = []"
  by (cases xs rule: rev_cases) simp_all

lemma hd_ptr_in: "hd_ptr xs = Some x \<Longrightarrow> x \<in> set xs"
  by (cases xs) auto

lemma last_ptr_in: "last_ptr xs = Some x \<Longrightarrow> x \<in> set xs"
  by (cases xs rule: rev_cases) auto

lemma hd_ptr_eq_Some: "hd_ptr xs = Some x \<longleftrightarrow> (\<exists>ys. xs = x # ys)"
  by (cases xs) auto

lemma last_ptr_eq_Some: "last_ptr xs = Some x \<longleftrightarrow> (\<exists>ys. xs = ys @ [x])"
  by (cases xs rule: rev_cases) auto

text \<open>The element that follows \<^term>\<open>x\<close> in a sequence.\<close>

fun list_succ :: "'a list \<Rightarrow> 'a \<Rightarrow> 'a option" where
  "list_succ [] x = None"
| "list_succ (y # ys) x = (if x = y then hd_ptr ys else list_succ ys x)"

lemma list_succ_append: "x \<notin> set xs \<Longrightarrow> list_succ (xs @ x # ys) x = hd_ptr ys"
  by (induction xs) auto

text \<open>Insertion of a new element directly after a given one.\<close>

fun insert_after :: "'a \<Rightarrow> 'a \<Rightarrow> 'a list \<Rightarrow> 'a list" where
  "insert_after p x [] = []"
| "insert_after p x (y # ys) = (if y = p then y # x # ys else y # insert_after p x ys)"

lemma insert_after_append: "p \<notin> set xs \<Longrightarrow> insert_after p x (xs @ p # ys) = xs @ p # x # ys"
  by (induction xs) auto

lemma set_insert_after: "p \<in> set xs \<Longrightarrow> set (insert_after p x xs) = insert x (set xs)"
  by (induction xs) auto

lemma distinct_insert_after:
  "distinct xs \<Longrightarrow> x \<notin> set xs \<Longrightarrow> distinct (insert_after p x xs)"
proof (induction xs)
  case (Cons y ys)
  then show ?case
    using set_insert_after [of p ys x] by (cases "p \<in> set ys") (auto, (induction ys; auto)+)
qed simp

lemma distinct_split:
  assumes "distinct xs" "x \<in> set xs"
  obtains ys zs where "xs = ys @ x # zs" "x \<notin> set ys" "x \<notin> set zs"
proof -
  from assms(2) obtain ys zs where "xs = ys @ x # zs" by (meson split_list)
  with assms(1) that show thesis by simp
qed

lemma remove1_split: "x \<notin> set ys \<Longrightarrow> remove1 x (ys @ x # zs) = ys @ zs"
  by (simp add: remove1_append)

section \<open>Words as numbers\<close>

lemma unat_u8_less [simp]: "unat (b :: u8) < 256"
  using unsigned_less [of b, where ?'a = nat] by simp

lemma unat_u16_less [simp]: "unat (v :: u16) < 65536"
  using unsigned_less [of v, where ?'a = nat] by simp

lemma unat_u32_less [simp]: "unat (v :: u32) < 4294967296"
  using unsigned_less [of v, where ?'a = nat] by simp

lemma unat_ucast_u8_u16 [simp]: "unat (ucast (b :: u8) :: u16) = unat b"
  by (simp add: unsigned_ucast_eq take_bit_nat_eq_self_iff less_trans [OF unat_u8_less])

lemma unat_ucast_u8_u32 [simp]: "unat (ucast (b :: u8) :: u32) = unat b"
  by (simp add: unsigned_ucast_eq take_bit_nat_eq_self_iff less_trans [OF unat_u8_less])

lemma unat_ucast_u16_u32 [simp]: "unat (ucast (v :: u16) :: u32) = unat v"
  by (simp add: unsigned_ucast_eq take_bit_nat_eq_self_iff less_trans [OF unat_u16_less])

lemma unat_add_u32: "unat (a :: u32) + unat b < 4294967296 \<Longrightarrow> unat (a + b) = unat a + unat b"
  by (simp add: unat_word_ariths)

end
