(* ===== verification/Net_List.thy ===== *)
theory Net_List
  imports Net_Prelude
begin

text \<open>
  \<^verbatim>\<open>src/common/list.c\<close> and \<^verbatim>\<open>include/common/list.h\<close>: the intrusive doubly linked list
  every other component is built on.  The nodes live in a heap (a function from addresses
  to nodes); an operation takes the heap and the list header, and returns both updated,
  or \<^term>\<open>None\<close> where the C code would dereference a null pointer.  The relation
  \<open>list_rep h l xs\<close> says that header \<open>l\<close> represents the sequence \<open>xs\<close> of node
  addresses in heap \<open>h\<close>; each operation is proved to implement the corresponding
  operation on sequences and to touch no node outside it.
\<close>

section \<open>Data\<close>

record list_node_t =
  n_next :: ptr
  n_pre :: ptr

record list_t =
  l_first :: ptr
  l_last :: ptr
  l_count :: int

type_synonym node_heap = "addr \<Rightarrow> list_node_t"

definition set_next :: "addr \<Rightarrow> ptr \<Rightarrow> node_heap \<Rightarrow> node_heap" where
  "set_next a v h = h(a := (h a)\<lparr>n_next := v\<rparr>)"

definition set_pre :: "addr \<Rightarrow> ptr \<Rightarrow> node_heap \<Rightarrow> node_heap" where
  "set_pre a v h = h(a := (h a)\<lparr>n_pre := v\<rparr>)"

section \<open>Operations\<close>

definition list_is_empty :: "list_t \<Rightarrow> bool" where
  "list_is_empty l \<longleftrightarrow> l_count l = 0"

definition list_count :: "list_t \<Rightarrow> int" where
  "list_count l = l_count l"

definition list_get_first_node :: "list_t \<Rightarrow> ptr" where
  "list_get_first_node l = l_first l"

definition list_get_last_node :: "list_t \<Rightarrow> ptr" where
  "list_get_last_node l = l_last l"

definition init_list :: list_t where
  "init_list = \<lparr>l_first = None, l_last = None, l_count = 0\<rparr>"

definition list_first :: "list_t \<Rightarrow> ptr" where
  "list_first l = l_first l"

definition list_last :: "list_t \<Rightarrow> ptr" where
  "list_last l = l_last l"

definition list_insert_first :: "node_heap \<Rightarrow> list_t \<Rightarrow> addr \<Rightarrow> (node_heap \<times> list_t) option" where
  "list_insert_first h l node =
     (let h = set_pre node None (set_next node (l_first l) h)
      in if list_is_empty l
         then Some (h, l\<lparr>l_first := Some node, l_last := Some node, l_count := l_count l + 1\<rparr>)
         else case l_first l of
                None \<Rightarrow> None
              | Some f \<Rightarrow> Some (set_pre f (Some node) h,
                               l\<lparr>l_first := Some node, l_count := l_count l + 1\<rparr>))"

definition list_remove :: "node_heap \<Rightarrow> list_t \<Rightarrow> addr \<Rightarrow> node_heap \<times> list_t" where
  "list_remove h l node =
     (let l = (if l_first l = Some node then l\<lparr>l_first := n_next (h node)\<rparr> else l);
          l = (if l_last l = Some node then l\<lparr>l_last := n_pre (h node)\<rparr> else l);
          h = (case n_pre (h node) of None \<Rightarrow> h | Some p \<Rightarrow> set_next p (n_next (h node)) h);
          h = (case n_next (h node) of None \<Rightarrow> h | Some q \<Rightarrow> set_pre q (n_pre (h node)) h);
          h = set_pre node None (set_next node None h)
      in (h, l\<lparr>l_count := l_count l - 1\<rparr>))"

definition list_remove_first :: "node_heap \<Rightarrow> list_t \<Rightarrow> (node_heap \<times> list_t) \<times> ptr" where
  "list_remove_first h l =
     (case list_get_first_node l of
        None \<Rightarrow> ((h, l), None)
      | Some f \<Rightarrow> (list_remove h l f, Some f))"

definition list_remove_last :: "node_heap \<Rightarrow> list_t \<Rightarrow> (node_heap \<times> list_t) \<times> ptr" where
  "list_remove_last h l =
     (case list_get_last_node l of
        None \<Rightarrow> ((h, l), None)
      | Some z \<Rightarrow> (list_remove h l z, Some z))"

definition list_insert_last :: "node_heap \<Rightarrow> list_t \<Rightarrow> addr \<Rightarrow> (node_heap \<times> list_t) option" where
  "list_insert_last h l node =
     (let h = set_next node None (set_pre node (l_last l) h)
      in if list_is_empty l
         then Some (h, l\<lparr>l_first := Some node, l_last := Some node, l_count := l_count l + 1\<rparr>)
         else case l_last l of
                None \<Rightarrow> None
              | Some z \<Rightarrow> Some (set_next z (Some node) h,
                               l\<lparr>l_last := Some node, l_count := l_count l + 1\<rparr>))"

definition list_insert_after ::
  "node_heap \<Rightarrow> list_t \<Rightarrow> addr \<Rightarrow> addr \<Rightarrow> (node_heap \<times> list_t) option" where
  "list_insert_after h l pre node =
     (if list_is_empty l then list_insert_first h l node
      else let h = set_pre node (Some pre) (set_next node (n_next (h pre)) h);
               h = (case n_next (h pre) of None \<Rightarrow> h | Some q \<Rightarrow> set_pre q (Some node) h);
               h = set_next pre (Some node) h;
               l = (if l_last l = Some pre then l\<lparr>l_last := Some node\<rparr> else l)
           in Some (h, l\<lparr>l_count := l_count l + 1\<rparr>))"

definition list_node_init :: "node_heap \<Rightarrow> addr \<Rightarrow> node_heap" where
  "list_node_init h node = set_pre node None (set_next node None h)"

definition list_node_next :: "node_heap \<Rightarrow> addr \<Rightarrow> ptr" where
  "list_node_next h node = n_next (h node)"

definition list_node_pre :: "node_heap \<Rightarrow> addr \<Rightarrow> ptr" where
  "list_node_pre h node = n_pre (h node)"

definition list_node_set_next :: "node_heap \<Rightarrow> addr \<Rightarrow> ptr \<Rightarrow> node_heap" where
  "list_node_set_next h pre next = set_next pre next h"

text \<open>
  The macro \<^verbatim>\<open>list_for_each\<close>: the nodes the loop visits, in order, within a bound on the
  number of iterations; \<^term>\<open>None\<close> when the bound is reached before the null pointer.
\<close>

fun list_for_each :: "nat \<Rightarrow> node_heap \<Rightarrow> ptr \<Rightarrow> addr list option" where
  "list_for_each fuel h None = Some []"
| "list_for_each 0 h (Some node) = None"
| "list_for_each (Suc fuel) h (Some node) =
     map_option ((#) node) (list_for_each fuel h (n_next (h node)))"

section \<open>The sequence a list represents\<close>

fun dseg :: "node_heap \<Rightarrow> ptr \<Rightarrow> addr list \<Rightarrow> ptr \<Rightarrow> bool" where
  "dseg h p [] q \<longleftrightarrow> True"
| "dseg h p (x # xs) q \<longleftrightarrow>
     n_pre (h x) = p \<and> n_next (h x) = (if xs = [] then q else hd_ptr xs) \<and> dseg h (Some x) xs q"

definition list_rep :: "node_heap \<Rightarrow> list_t \<Rightarrow> addr list \<Rightarrow> bool" where
  "list_rep h l xs \<longleftrightarrow>
     distinct xs \<and> l_first l = hd_ptr xs \<and> l_last l = last_ptr xs \<and>
     l_count l = int (length xs) \<and> dseg h None xs None"

text \<open>Two heaps agree on a set of addresses.\<close>

definition same_on :: "addr set \<Rightarrow> node_heap \<Rightarrow> node_heap \<Rightarrow> bool" where
  "same_on A h h' \<longleftrightarrow> (\<forall>a\<in>A. h' a = h a)"

lemma set_next_simps [simp]:
  "n_next (set_next a v h b) = (if b = a then v else n_next (h b))"
  "n_pre (set_next a v h b) = n_pre (h b)"
  by (simp_all add: set_next_def)

lemma set_pre_simps [simp]:
  "n_pre (set_pre a v h b) = (if b = a then v else n_pre (h b))"
  "n_next (set_pre a v h b) = n_next (h b)"
  by (simp_all add: set_pre_def)

lemma set_link_other: "b \<noteq> a \<Longrightarrow> set_next a v h b = h b" "b \<noteq> a \<Longrightarrow> set_pre a v h b = h b"
  by (simp_all add: set_next_def set_pre_def)

lemma same_on_refl [simp]: "same_on A h h"
  by (simp add: same_on_def)

lemma same_on_set_link [simp]:
  "a \<notin> A \<Longrightarrow> same_on A h (set_next a v h') = same_on A h h'"
  "a \<notin> A \<Longrightarrow> same_on A h (set_pre a v h') = same_on A h h'"
  by (auto simp: same_on_def set_next_def set_pre_def)

lemma same_on_trans: "same_on A h h' \<Longrightarrow> same_on A h' h'' \<Longrightarrow> same_on A h h''"
  by (simp add: same_on_def)

lemma same_on_mono: "same_on A h h' \<Longrightarrow> B \<subseteq> A \<Longrightarrow> same_on B h h'"
  by (auto simp: same_on_def)

lemma dseg_cong:
  "(\<And>a. a \<in> set xs \<Longrightarrow> n_next (h' a) = n_next (h a) \<and> n_pre (h' a) = n_pre (h a)) \<Longrightarrow>
   dseg h' p xs q = dseg h p xs q"
  by (induction xs arbitrary: p) auto

lemma dseg_append:
  "dseg h p (xs @ ys) q \<longleftrightarrow>
     dseg h p xs (if ys = [] then q else hd_ptr ys) \<and>
     dseg h (if xs = [] then p else last_ptr xs) ys q"
  by (induction xs arbitrary: p) (auto simp: hd_ptr_append last_ptr_Cons)

lemma dseg_set_next [simp]: "a \<notin> set xs \<Longrightarrow> dseg (set_next a v h) p xs q = dseg h p xs q"
  by (rule dseg_cong) auto

lemma dseg_set_pre [simp]: "a \<notin> set xs \<Longrightarrow> dseg (set_pre a v h) p xs q = dseg h p xs q"
  by (rule dseg_cong) auto

text \<open>Relinking the outer ends of a segment.\<close>

lemma dseg_relink_last:
  "distinct (xs @ [x]) \<Longrightarrow> dseg (set_next x q' h) p (xs @ [x]) q' = dseg h p (xs @ [x]) (n_next (h x))"
  by (simp add: dseg_append)

lemma dseg_relink_first:
  "distinct (x # xs) \<Longrightarrow> dseg (set_pre x p' h) p' (x # xs) q = dseg h (n_pre (h x)) (x # xs) q"
  by (cases xs) auto

section \<open>Each operation implements the operation on sequences\<close>

lemma list_rep_init [list_abs]: "list_rep h init_list []"
  by (simp add: list_rep_def init_list_def)

lemma list_rep_is_empty [list_abs]: "list_rep h l xs \<Longrightarrow> list_is_empty l \<longleftrightarrow> xs = []"
  by (simp add: list_rep_def list_is_empty_def)

lemma list_rep_count [list_abs]: "list_rep h l xs \<Longrightarrow> list_count l = int (length xs)"
  by (simp add: list_rep_def list_count_def)

lemma list_rep_first [list_abs]: "list_rep h l xs \<Longrightarrow> l_first l = hd_ptr xs"
  by (simp add: list_rep_def)

lemma list_rep_last [list_abs]: "list_rep h l xs \<Longrightarrow> l_last l = last_ptr xs"
  by (simp add: list_rep_def)

lemma list_rep_distinct: "list_rep h l xs \<Longrightarrow> distinct xs"
  by (simp add: list_rep_def)

text \<open>A list is not disturbed by writes to nodes outside it.\<close>

lemma list_rep_frame: "list_rep h l xs \<Longrightarrow> same_on (set xs) h h' \<Longrightarrow> list_rep h' l xs"
  by (auto simp: list_rep_def same_on_def cong: dseg_cong)


text \<open>
  The contract of an operation: it succeeds, the header and heap it returns represent
  the sequence \<open>ys\<close>, and nodes outside \<open>A\<close> are as before.
\<close>

definition list_done :: "node_heap \<Rightarrow> addr set \<Rightarrow> addr list \<Rightarrow> (node_heap \<times> list_t) option \<Rightarrow> bool" where
  "list_done h A ys r \<longleftrightarrow>
     (\<exists>h' l'. r = Some (h', l') \<and> list_rep h' l' ys \<and> same_on (- A) h h')"

lemma list_doneE:
  assumes "list_done h A ys r"
  obtains h' l' where "r = Some (h', l')" "list_rep h' l' ys" "same_on (- A) h h'"
  using assms by (auto simp: list_done_def)

lemma list_insert_first_done [list_abs]:
  assumes rep: "list_rep h l xs" and new: "node \<notin> set xs"
  shows "list_done h (insert node (set xs)) (node # xs) (list_insert_first h l node)"
proof (cases xs)
  case Nil
  with rep show ?thesis
    by (auto dest: last_ptr_in hd_ptr_in simp: list_done_def list_insert_first_def list_is_empty_def list_rep_def
       )
next
  case (Cons f ys)
  with rep new have "dseg (set_pre f (Some node) h) (Some node) (f # ys) None"
    by (subst dseg_relink_first) (simp_all add: list_rep_def)
  then have "dseg (set_pre f (Some node) (set_pre node None (set_next node (Some f) h)))
               None (node # f # ys) None"
    using new Cons rep by (auto dest: last_ptr_in hd_ptr_in simp: list_rep_def)
  with rep new Cons show ?thesis
    by (auto dest: last_ptr_in hd_ptr_in simp: list_done_def list_insert_first_def list_is_empty_def list_rep_def
        last_ptr_Cons Let_def)
qed

lemma list_insert_last_done [list_abs]:
  assumes rep: "list_rep h l xs" and new: "node \<notin> set xs"
  shows "list_done h (insert node (set xs)) (xs @ [node]) (list_insert_last h l node)"
proof (cases xs rule: rev_cases)
  case Nil
  with rep show ?thesis
    by (auto dest: last_ptr_in hd_ptr_in simp: list_done_def list_insert_last_def list_is_empty_def list_rep_def
        last_ptr_Cons)
next
  case (snoc ys z)
  with rep new show ?thesis
    by (auto dest: last_ptr_in hd_ptr_in simp: list_done_def list_insert_last_def list_is_empty_def list_rep_def
        hd_ptr_append dseg_append Let_def)
qed

lemma list_remove_done [list_abs]:
  assumes rep: "list_rep h l xs" and mem: "node \<in> set xs"
  shows "list_done h (set xs) (remove1 node xs) (Some (list_remove h l node))"
proof -
  from rep mem obtain ys zs where xs: "xs = ys @ node # zs" "node \<notin> set ys" "node \<notin> set zs"
    by (meson distinct_split list_rep_distinct)
  obtain h' l' where res: "list_remove h l node = (h', l')" by fastforce
  have dist: "distinct (ys @ zs)" and seg: "dseg h None (ys @ node # zs) None"
    using rep xs by (auto dest: last_ptr_in hd_ptr_in simp: list_rep_def)
  have links: "n_pre (h node) = last_ptr ys" "n_next (h node) = hd_ptr zs"
    using seg by (auto dest: last_ptr_in hd_ptr_in simp: dseg_append)
  have hd: "l_first l = hd_ptr (ys @ node # zs)" "l_last l = last_ptr (ys @ node # zs)"
    using rep xs by (auto dest: last_ptr_in hd_ptr_in simp: list_rep_def)
  have "list_rep h' l' (ys @ zs) \<and> same_on (- set xs) h h'"
  proof (cases ys rule: rev_cases; cases zs)
    assume "ys = []" "zs = []"
    with res rep xs links hd show ?thesis
      by (auto dest: last_ptr_in hd_ptr_in simp: list_remove_def list_rep_def last_ptr_Cons)
  next
    fix q qs assume "ys = []" "zs = q # qs"
    with res rep xs links hd seg show ?thesis
      by (cases qs) (auto dest: last_ptr_in hd_ptr_in simp: list_remove_def list_rep_def last_ptr_Cons
          last_ptr_append Let_def)
  next
    fix ps p assume "ys = ps @ [p]" "zs = []"
    with res rep xs links hd seg dist show ?thesis
      by (auto dest: last_ptr_in hd_ptr_in simp: list_remove_def list_rep_def last_ptr_append
          hd_ptr_append dseg_append Let_def)
  next
    fix ps p q qs assume yz: "ys = ps @ [p]" "zs = q # qs"
    have "l_first l \<noteq> Some node" "l_last l \<noteq> Some node"
      using hd xs yz by (auto dest!: hd_ptr_in last_ptr_in simp: hd_ptr_append split: if_splits)
    then have l': "l' = l\<lparr>l_count := l_count l - 1\<rparr>"
      and h': "h' = set_pre node None (set_next node None (set_pre q (Some p) (set_next p (Some q) h)))"
      using res links xs yz by (auto simp: list_remove_def Let_def)
    have "dseg h' None (ys @ zs) None"
      using seg dist xs yz unfolding h' by (cases qs) (auto simp: dseg_append)
    moreover have "same_on (- set xs) h h'"
      using xs yz unfolding h' by simp
    ultimately show ?thesis
      using rep xs yz by (simp add: list_rep_def l' hd_ptr_append)
  qed
  with res xs show ?thesis by (simp add: list_done_def remove1_split)
qed

lemma list_insert_after_done [list_abs]:
  assumes rep: "list_rep h l xs" and mem: "pre \<in> set xs" and new: "node \<notin> set xs"
  shows "list_done h (insert node (set xs)) (insert_after pre node xs) (list_insert_after h l pre node)"
proof -
  from rep mem obtain ys zs where xs: "xs = ys @ pre # zs" "pre \<notin> set ys" "pre \<notin> set zs"
    by (meson distinct_split list_rep_distinct)
  have seg: "dseg h None (ys @ pre # zs) None" and dist: "distinct (ys @ pre # zs)"
    using rep xs by (auto dest: last_ptr_in hd_ptr_in simp: list_rep_def)
  have ne: "l_count l \<noteq> 0" and hd: "l_first l = hd_ptr (ys @ pre # zs)" "l_last l = last_ptr (ys @ pre # zs)"
    using rep xs by (auto dest: last_ptr_in hd_ptr_in simp: list_rep_def)
  have nn: "node \<noteq> pre" using new mem by auto
  show ?thesis
  proof (cases zs)
    case Nil
    with rep xs seg dist ne hd nn new show ?thesis
      by (auto dest: last_ptr_in hd_ptr_in simp: list_done_def list_insert_after_def list_is_empty_def list_rep_def
          insert_after_append last_ptr_append last_ptr_Cons hd_ptr_append dseg_append Let_def)
  next
    case (Cons q qs)
    with rep xs seg dist ne hd nn new show ?thesis
      by (cases qs) (auto dest: last_ptr_in hd_ptr_in simp: list_done_def list_insert_after_def list_is_empty_def list_rep_def
          insert_after_append last_ptr_append last_ptr_Cons hd_ptr_append dseg_append Let_def)
  qed
qed

lemma list_remove_first_Nil [list_abs]:
  "list_rep h l [] \<Longrightarrow> list_remove_first h l = ((h, l), None)"
  by (simp add: list_remove_first_def list_get_first_node_def list_rep_def)

lemma list_remove_first_Cons [list_abs]:
  "list_rep h l (x # xs) \<Longrightarrow>
   \<exists>h' l'. list_remove_first h l = ((h', l'), Some x) \<and> list_rep h' l' xs \<and>
           same_on (- set (x # xs)) h h'"
  using list_remove_done [of h l "x # xs" x]
  by (auto simp: list_remove_first_def list_get_first_node_def list_rep_first elim!: list_doneE)

lemma list_remove_last_snoc [list_abs]:
  "list_rep h l (xs @ [x]) \<Longrightarrow>
   \<exists>h' l'. list_remove_last h l = ((h', l'), Some x) \<and> list_rep h' l' xs \<and>
           same_on (- set (xs @ [x])) h h'"
  using list_remove_done [of h l "xs @ [x]" x] list_rep_distinct [of h l "xs @ [x]"]
  by (auto simp: list_remove_last_def list_get_last_node_def list_rep_last remove1_split [where zs = "[]"]
      elim!: list_doneE)

lemma list_remove_last_Nil [list_abs]:
  "list_rep h l [] \<Longrightarrow> list_remove_last h l = ((h, l), None)"
  by (simp add: list_remove_last_def list_get_last_node_def list_rep_def)

text \<open>Navigation: the links a loop follows are those of the sequence.\<close>

lemma dseg_succ:
  "distinct xs \<Longrightarrow> dseg h p xs None \<Longrightarrow> x \<in> set xs \<Longrightarrow> n_next (h x) = list_succ xs x"
  by (induction xs arbitrary: p) auto

lemma list_node_next_succ [list_abs]:
  "list_rep h l xs \<Longrightarrow> x \<in> set xs \<Longrightarrow> list_node_next h x = list_succ xs x"
  by (auto simp: list_rep_def list_node_next_def intro: dseg_succ)

lemma list_for_each_dseg:
  "dseg h p xs None \<Longrightarrow> length xs \<le> fuel \<Longrightarrow> list_for_each fuel h (hd_ptr xs) = Some xs"
proof (induction xs arbitrary: p fuel)
  case (Cons x xs)
  then obtain f where f: "fuel = Suc f" by (cases fuel) auto
  from Cons.prems have "n_next (h x) = hd_ptr xs" by (cases xs) auto
  with Cons.prems f Cons.IH [of "Some x" f] show ?case by simp
qed simp

section \<open>The list interface\<close>

text \<open>
  What the clients of list.c rely on: appending at the tail and taking from the head,
  seen through the represented sequence.
\<close>

locale seq_list =
  fixes rep :: "'h \<Rightarrow> 'l \<Rightarrow> addr list \<Rightarrow> bool"
    and insert_last :: "'h \<Rightarrow> 'l \<Rightarrow> addr \<Rightarrow> ('h \<times> 'l) option"
    and remove_first :: "'h \<Rightarrow> 'l \<Rightarrow> ('h \<times> 'l) \<times> ptr"
  assumes insert_last_law:
      "rep h l xs \<Longrightarrow> x \<notin> set xs \<Longrightarrow>
       \<exists>h' l'. insert_last h l x = Some (h', l') \<and> rep h' l' (xs @ [x])"
    and remove_first_law:
      "rep h l (x # xs) \<Longrightarrow> \<exists>h' l'. remove_first h l = ((h', l'), Some x) \<and> rep h' l' xs"
    and remove_first_empty: "rep h l [] \<Longrightarrow> remove_first h l = ((h, l), None)"
    and rep_distinct: "rep h l xs \<Longrightarrow> distinct xs"
begin

text \<open>Inserting the elements of a list one after the other, and draining.\<close>

fun insert_all :: "'h \<Rightarrow> 'l \<Rightarrow> addr list \<Rightarrow> ('h \<times> 'l) option" where
  "insert_all h l [] = Some (h, l)"
| "insert_all h l (x # xs) =
     (case insert_last h l x of None \<Rightarrow> None | Some (h', l') \<Rightarrow> insert_all h' l' xs)"

fun take_n :: "nat \<Rightarrow> 'h \<Rightarrow> 'l \<Rightarrow> ('h \<times> 'l) \<times> addr list" where
  "take_n 0 h l = ((h, l), [])"
| "take_n (Suc n) h l =
     (case remove_first h l of
        (hl, None) \<Rightarrow> (hl, [])
      | ((h', l'), Some x) \<Rightarrow> (case take_n n h' l' of (hl, xs) \<Rightarrow> (hl, x # xs)))"

lemma insert_all_rep:
  "rep h l xs \<Longrightarrow> distinct (xs @ ys) \<Longrightarrow>
   \<exists>h' l'. insert_all h l ys = Some (h', l') \<and> rep h' l' (xs @ ys)"
proof (induction ys arbitrary: h l xs)
  case (Cons y ys)
  from Cons.prems insert_last_law [of h l xs y] obtain h1 l1
    where i: "insert_last h l y = Some (h1, l1)" and "rep h1 l1 (xs @ [y])"
    by auto
  with Cons.prems Cons.IH [of h1 l1 "xs @ [y]"] show ?case by simp
qed auto

lemma take_n_rep:
  "rep h l xs \<Longrightarrow>
   \<exists>h' l'. take_n n h l = ((h', l'), take n xs) \<and> rep h' l' (drop n xs)"
proof (induction n arbitrary: h l xs)
  case (Suc n)
  show ?case
  proof (cases xs)
    case Nil
    with Suc.prems show ?thesis by (simp add: remove_first_empty)
  next
    case (Cons y ys)
    with Suc.prems remove_first_law obtain h1 l1
      where r: "remove_first h l = ((h1, l1), Some y)" and rep1: "rep h1 l1 ys" by blast
    with Suc.IH [OF rep1] Cons show ?thesis by auto
  qed
qed auto

text \<open>What goes in at the tail comes out at the head in the same order.\<close>

lemma fifo:
  assumes "rep h l []" "distinct xs"
  shows "\<exists>h1 l1 h2 l2. insert_all h l xs = Some (h1, l1) \<and>
           take_n (length xs) h1 l1 = ((h2, l2), xs) \<and> rep h2 l2 []"
proof -
  from insert_all_rep [OF assms(1), of xs] assms(2) obtain h1 l1
    where "insert_all h l xs = Some (h1, l1)" "rep h1 l1 xs" by auto
  with take_n_rep [of h1 l1 xs "length xs"] show ?thesis by fastforce
qed

end

interpretation dll: seq_list list_rep list_insert_last list_remove_first
proof
  fix h l xs x
  assume "list_rep h l xs" "x \<notin> set xs"
  then show "\<exists>h' l'. list_insert_last h l x = Some (h', l') \<and> list_rep h' l' (xs @ [x])"
    by (meson list_insert_last_done list_doneE)
next
  fix h l x xs
  assume "list_rep h l (x # xs)"
  then show "\<exists>h' l'. list_remove_first h l = ((h', l'), Some x) \<and> list_rep h' l' xs"
    by (blast dest: list_remove_first_Cons)
qed (auto intro: list_rep_distinct list_remove_first_Nil)

section \<open>Properties\<close>

text \<open>Removing a node of a well-formed list gives a well-formed list of the remaining
  nodes in their order, with the node itself unlinked, and changes no node outside the list;
  the header's first, last and count fields stay in step.\<close>

theorem list_remove_refines:
  assumes "list_rep h l xs" "node \<in> set xs"
  shows "list_rep (fst (list_remove h l node)) (snd (list_remove h l node)) (remove1 node xs) \<and>
         same_on (- set xs) h (fst (list_remove h l node)) \<and>
         n_next (fst (list_remove h l node) node) = None \<and>
         n_pre (fst (list_remove h l node) node) = None"
proof -
  from list_remove_done [OF assms]
  have "list_rep (fst (list_remove h l node)) (snd (list_remove h l node)) (remove1 node xs) \<and>
        same_on (- set xs) h (fst (list_remove h l node))"
    by (auto simp: list_done_def)
  then show ?thesis by (simp add: list_remove_def Let_def)
qed

definition sample_heap :: node_heap where
  "sample_heap = (\<lambda>a. \<lparr>n_next = (if a = 4 then Some 7 else if a = 7 then Some 9 else None),
                        n_pre = (if a = 9 then Some 7 else if a = 7 then Some 4 else None)\<rparr>)"

definition sample_list :: list_t where
  "sample_list = \<lparr>l_first = Some 4, l_last = Some 9, l_count = 3\<rparr>"

lemma sample_list_rep: "list_rep sample_heap sample_list [4, 7, 9]"
  by (simp add: list_rep_def sample_heap_def sample_list_def hd_ptr_def last_ptr_def)

theorem list_remove_refines_witness:
  "list_rep (fst (list_remove sample_heap sample_list 7)) (snd (list_remove sample_heap sample_list 7)) [4, 9]"
  using list_remove_refines [OF sample_list_rep, of 7] by simp

text \<open>Inserting a fresh node after a node of the list places it directly behind that
  node in the represented sequence, and changes no node outside the list but the new one.\<close>

theorem list_insert_after_refines:
  assumes "list_rep h l xs" "pre \<in> set xs" "node \<notin> set xs"
  shows "\<exists>h' l'. list_insert_after h l pre node = Some (h', l') \<and>
           list_rep h' l' (insert_after pre node xs) \<and> same_on (- insert node (set xs)) h h'"
  using list_insert_after_done [OF assms] by (simp add: list_done_def)

theorem list_insert_after_refines_witness:
  "\<exists>h' l'. list_insert_after sample_heap sample_list 7 5 = Some (h', l') \<and> list_rep h' l' [4, 7, 5, 9]"
  using list_insert_after_refines [OF sample_list_rep, of 7 5] by auto

text \<open>C38. The loop of the macro list_for_each over a well-formed list ends after as many
  iterations as the header counts and visits every node once, in order.\<close>

theorem list_for_each_visits_all:
  assumes "list_rep h l xs"
  shows "list_for_each (nat (list_count l)) h (list_first l) = Some xs"
  using assms list_for_each_dseg [of h None xs] by (simp add: list_rep_def list_count_def list_first_def)

theorem list_for_each_visits_all_witness:
  "list_for_each 3 sample_heap (list_first sample_list) = Some [4, 7, 9]"
  using list_for_each_visits_all [OF sample_list_rep]
  by (simp add: list_count_def sample_list_def numeral_3_eq_3)

end
