(* ===== verification/Net_Pool.thy ===== *)
theory Net_Pool
  imports Net_List "HOL-Library.Sublist"
begin

text \<open>
  \<^verbatim>\<open>src/common/memory_pool.c\<close>: fixed-size blocks handed out from a free list.  The pool of
  the C code keeps its free blocks on a linked list in memory, so the operations here work
  on the heap of \<^verbatim>\<open>Net_List\<close>; the second half shows that a pool behaves as the plain
  sequence of its free blocks, which is the form the client components use.

  \<^verbatim>\<open>sys_sem_create\<close>, \<^verbatim>\<open>sys_sem_wait\<close> and \<^verbatim>\<open>sys_sem_notify\<close> belong to the platform
  (\<^verbatim>\<open>CreateSemaphore\<close>, \<^verbatim>\<open>WaitForSingleObject\<close>, \<^verbatim>\<open>ReleaseSemaphore\<close> in the Windows build).
  Creation may fail and is a parameter; a wait is modelled as one thread sees it while no
  other runs: it takes a unit, or it times out, or it blocks.  The timeouts 0 and (as an
  unsigned number) -1 are the platform's infinite wait.  The semaphores of the Linux build
  behave in the same way for a thread that runs alone, which \<^verbatim>\<open>Net_Plat\<close> proves; how they
  differ when threads interleave is the subject of \<^verbatim>\<open>Net_Queue\<close> and \<^verbatim>\<open>Net_Plat\<close>.
\<close>

section \<open>Semaphores as one thread sees them\<close>

datatype sem_outcome = SemTaken int | SemTimeout | SemBlocked

definition sys_sem_wait :: "int \<Rightarrow> int \<Rightarrow> sem_outcome" where
  "sys_sem_wait cnt tmo =
     (if cnt > 0 then SemTaken (cnt - 1)
      else if tmo = 0 \<or> tmo = - 1 then SemBlocked else SemTimeout)"

definition sys_sem_notify :: "int \<Rightarrow> int" where
  "sys_sem_notify cnt = cnt + 1"

section \<open>Data and operations\<close>

datatype locker_type_t = LOCKER_NONE | LOCKER_THREAD | LOCKER_INT

record memory_pool_t =
  mp_free_list :: list_t
  mp_locker_type :: locker_type_t
  mp_alloc_sem :: "int option"

text \<open>\<^verbatim>\<open>sizeof(list_node_t)\<close>: two pointers.\<close>

definition sizeof_list_node :: nat where
  "sizeof_list_node = 16"

text \<open>The loop that puts every block on the free list.\<close>

fun pool_init_loop :: "nat \<Rightarrow> addr \<Rightarrow> nat \<Rightarrow> node_heap \<times> list_t \<Rightarrow> (node_heap \<times> list_t) option" where
  "pool_init_loop 0 buf blk_size hl = Some hl"
| "pool_init_loop (Suc cnt) buf blk_size (h, l) =
     (case list_insert_last (list_node_init h buf) l buf of
        None \<Rightarrow> None
      | Some hl \<Rightarrow> pool_init_loop cnt (buf + blk_size) blk_size hl)"

definition memory_pool_init ::
  "(int \<Rightarrow> int option) \<Rightarrow> node_heap \<Rightarrow> addr \<Rightarrow> nat \<Rightarrow> nat \<Rightarrow> locker_type_t \<Rightarrow>
   (node_heap \<times> memory_pool_t \<times> net_err_t) option" where
  "memory_pool_init sem_create h mem blk_size cnt share_type =
     (if \<not> blk_size \<ge> sizeof_list_node then None
      else case pool_init_loop cnt mem blk_size (h, init_list) of
             None \<Rightarrow> None
           | Some (h, l) \<Rightarrow>
               let pool = \<lparr>mp_free_list = l, mp_locker_type = share_type, mp_alloc_sem = None\<rparr>
               in if share_type = LOCKER_NONE then Some (h, pool, NET_OK)
                  else case sem_create (int cnt) of
                         None \<Rightarrow> Some (h, pool, NET_ERR_SYS)
                       | Some c \<Rightarrow> Some (h, pool\<lparr>mp_alloc_sem := Some c\<rparr>, NET_OK))"

text \<open>
  \<^verbatim>\<open>memory_pool_alloc\<close>: the result is \<^term>\<open>None\<close> when the calling thread blocks.  The
  outcome of the wait is ignored by the code, so after a timeout it still takes a block
  if there is one.
\<close>

definition memory_pool_alloc ::
  "node_heap \<Rightarrow> memory_pool_t \<Rightarrow> int \<Rightarrow> (node_heap \<times> memory_pool_t \<times> ptr) option" where
  "memory_pool_alloc h pool ms =
     (if (ms < 0 \<or> mp_locker_type pool = LOCKER_NONE) \<and> list_count (mp_free_list pool) = 0
      then Some (h, pool, None)
      else
        let take_block = (\<lambda>pool. case list_remove_first h (mp_free_list pool) of
               ((h, l), block) \<Rightarrow> Some (h, pool\<lparr>mp_free_list := l\<rparr>, block))
        in if mp_locker_type pool = LOCKER_NONE then take_block pool
           else case mp_alloc_sem pool of
                  None \<Rightarrow> take_block pool
                | Some c \<Rightarrow>
                    (case sys_sem_wait c ms of
                       SemTaken c' \<Rightarrow> take_block (pool\<lparr>mp_alloc_sem := Some c'\<rparr>)
                     | SemTimeout \<Rightarrow> take_block pool
                     | SemBlocked \<Rightarrow> None))"

definition memory_pool_free_cnt :: "memory_pool_t \<Rightarrow> int" where
  "memory_pool_free_cnt pool = list_count (mp_free_list pool)"

definition memory_pool_free ::
  "node_heap \<Rightarrow> memory_pool_t \<Rightarrow> addr \<Rightarrow> (node_heap \<times> memory_pool_t) option" where
  "memory_pool_free h pool block =
     (case list_insert_last h (mp_free_list pool) block of
        None \<Rightarrow> None
      | Some (h, l) \<Rightarrow>
          let pool = pool\<lparr>mp_free_list := l\<rparr>
          in Some (h, if mp_locker_type pool \<noteq> LOCKER_NONE
                      then pool\<lparr>mp_alloc_sem := map_option sys_sem_notify (mp_alloc_sem pool)\<rparr>
                      else pool))"

section \<open>A pool is the sequence of its free blocks\<close>

text \<open>
  In a shared pool the semaphore counts the free blocks.
\<close>

definition pool_rep :: "node_heap \<Rightarrow> memory_pool_t \<Rightarrow> addr list \<Rightarrow> bool" where
  "pool_rep h pool xs \<longleftrightarrow>
     list_rep h (mp_free_list pool) xs \<and>
     (mp_locker_type pool \<noteq> LOCKER_NONE \<longrightarrow> mp_alloc_sem pool = Some (int (length xs)))"

text \<open>The operations on the sequence, as the client components use them.\<close>

definition pool_alloc :: "addr list \<Rightarrow> addr list \<times> ptr" where
  "pool_alloc xs = (case xs of [] \<Rightarrow> ([], None) | x # r \<Rightarrow> (r, Some x))"

definition pool_free :: "addr list \<Rightarrow> addr \<Rightarrow> addr list" where
  "pool_free xs b = xs @ [b]"

lemma pool_alloc_simps [simp]: "pool_alloc [] = ([], None)" "pool_alloc (x # r) = (r, Some x)"
  by (simp_all add: pool_alloc_def)

lemma list_rep_node_init:
  "list_rep h l xs \<Longrightarrow> b \<notin> set xs \<Longrightarrow> list_rep (list_node_init h b) l xs"
  by (simp add: list_rep_def list_node_init_def)

lemma pool_init_loop_rep:
  assumes "list_rep h l xs" "distinct (xs @ map (\<lambda>i. buf + i * blk_size) [0..<cnt])"
  shows "\<exists>h' l'. pool_init_loop cnt buf blk_size (h, l) = Some (h', l') \<and>
           list_rep h' l' (xs @ map (\<lambda>i. buf + i * blk_size) [0..<cnt])"
  using assms
proof (induction cnt arbitrary: h l xs buf)
  case (Suc cnt)
  have blocks: "map (\<lambda>i. buf + i * blk_size) [0..<Suc cnt] =
                buf # map (\<lambda>i. buf + blk_size + i * blk_size) [0..<cnt]"
    by (simp add: upt_conv_Cons algebra_simps del: upt_Suc flip: map_Suc_upt)
  have d: "distinct (xs @ buf # map (\<lambda>i. buf + blk_size + i * blk_size) [0..<cnt])"
    using Suc.prems(2) unfolding blocks .
  then have "buf \<notin> set xs" by simp
  with Suc.prems(1) obtain h1 l1
    where i: "list_insert_last (list_node_init h buf) l buf = Some (h1, l1)"
      and r: "list_rep h1 l1 (xs @ [buf])"
    using dll.insert_last_law [OF list_rep_node_init] by blast
  from d have "distinct ((xs @ [buf]) @ map (\<lambda>i. buf + blk_size + i * blk_size) [0..<cnt])"
    by simp
  from Suc.IH [OF r this] show ?case
    unfolding blocks using i by simp
qed auto

lemma block_addresses_distinct:
  "0 < blk_size \<Longrightarrow> distinct (map (\<lambda>i. mem + i * blk_size) [0..<cnt :: nat])"
  by (auto simp: distinct_map inj_on_def)

lemma memory_pool_alloc_Cons [pool_abs]:
  assumes "pool_rep h pool (x # xs)"
  shows "\<exists>h' pool'. memory_pool_alloc h pool ms = Some (h', pool', Some x) \<and> pool_rep h' pool' xs"
proof -
  from assms have rep: "list_rep h (mp_free_list pool) (x # xs)" by (simp add: pool_rep_def)
  then obtain h' l' where "list_remove_first h (mp_free_list pool) = ((h', l'), Some x)"
    and "list_rep h' l' xs" by (blast dest: dll.remove_first_law)
  with assms list_rep_count [OF rep] show ?thesis
    by (auto simp: memory_pool_alloc_def pool_rep_def sys_sem_wait_def Let_def)
qed

lemma memory_pool_alloc_Nil [pool_abs]:
  assumes "pool_rep h pool []" "ms < 0 \<or> mp_locker_type pool = LOCKER_NONE"
  shows "memory_pool_alloc h pool ms = Some (h, pool, None)"
proof -
  from assms(1) have "list_rep h (mp_free_list pool) []" by (simp add: pool_rep_def)
  with assms(2) show ?thesis by (simp add: memory_pool_alloc_def list_rep_count)
qed

text \<open>An allocation from an empty pool waits for ever exactly when the pool is shared and the timeout is zero.\<close>

definition pool_waits :: "memory_pool_t \<Rightarrow> int \<Rightarrow> bool" where
  "pool_waits pool ms \<longleftrightarrow> mp_locker_type pool \<noteq> LOCKER_NONE \<and> ms = 0"

lemma memory_pool_alloc_empty [pool_abs]:
  assumes "pool_rep h pool []"
  shows "memory_pool_alloc h pool ms = (if pool_waits pool ms then None else Some (h, pool, None))"
proof (cases "ms < 0 \<or> mp_locker_type pool = LOCKER_NONE")
  case True
  with memory_pool_alloc_Nil [OF assms] show ?thesis by (auto simp: pool_waits_def)
next
  case False
  from assms have l: "list_rep h (mp_free_list pool) []" by (simp add: pool_rep_def)
  then have "list_remove_first h (mp_free_list pool) = ((h, mp_free_list pool), None)"
    by (simp add: list_rep_def list_remove_first_def list_get_first_node_def)
  with assms False show ?thesis
    by (simp add: memory_pool_alloc_def pool_waits_def pool_rep_def sys_sem_wait_def Let_def)
qed

lemma memory_pool_free_rep [pool_abs]:
  assumes "pool_rep h pool xs" "b \<notin> set xs"
  shows "\<exists>h' pool'. memory_pool_free h pool b = Some (h', pool') \<and> pool_rep h' pool' (pool_free xs b)"
proof -
  from assms obtain h' l' where "list_insert_last h (mp_free_list pool) b = Some (h', l')"
    and "list_rep h' l' (xs @ [b])" by (meson dll.insert_last_law pool_rep_def)
  with assms show ?thesis
    by (auto simp: memory_pool_free_def pool_rep_def pool_free_def sys_sem_notify_def Let_def)
qed

lemma memory_pool_init_rep [pool_abs]:
  assumes "sizeof_list_node \<le> blk_size" "share_type \<noteq> LOCKER_NONE \<longrightarrow> sem_create (int cnt) = Some (int cnt)"
  shows "\<exists>h' pool. memory_pool_init sem_create h mem blk_size cnt share_type = Some (h', pool, NET_OK) \<and>
           pool_rep h' pool (map (\<lambda>i. mem + i * blk_size) [0..<cnt]) \<and> mp_locker_type pool = share_type"
proof -
  let ?bs = "map (\<lambda>i. mem + i * blk_size) [0..<cnt]"
  have "distinct ?bs"
    using assms(1) by (intro block_addresses_distinct) (simp add: sizeof_list_node_def)
  then obtain h' l' where "pool_init_loop cnt mem blk_size (h, init_list) = Some (h', l')"
    and "list_rep h' l' ?bs"
    using pool_init_loop_rep [OF list_rep_init, where cnt = cnt and buf = mem and blk_size = blk_size]
    by (metis append_Nil)
  with assms show ?thesis
    by (auto simp: memory_pool_init_def pool_rep_def Let_def)
qed

section \<open>The allocator interface\<close>

text \<open>
  A client of a pool takes blocks, with any timeout, and gives back blocks it holds.
  \<open>pool_client\<close> runs a sequence of such requests, keeping the blocks the client holds; a
  request to free a block the client does not hold is not a call the client makes, and is
  skipped.  When an allocation waits for ever, the run ends there: the last component of
  the result has the requests that are left, with that allocation in front.
\<close>

datatype pool_op = PoolAlloc int | PoolFree addr

fun pool_client ::
  "('h \<Rightarrow> 'p \<Rightarrow> int \<Rightarrow> ('h \<times> 'p \<times> ptr) option) \<Rightarrow> ('h \<Rightarrow> 'p \<Rightarrow> addr \<Rightarrow> ('h \<times> 'p) option) \<Rightarrow>
   pool_op list \<Rightarrow> 'h \<Rightarrow> 'p \<Rightarrow> addr list \<Rightarrow> ('h \<times> 'p \<times> addr list \<times> pool_op list) option" where
  "pool_client alloc free [] h p own = Some (h, p, own, [])"
| "pool_client alloc free (PoolAlloc ms # ops) h p own =
     (case alloc h p ms of
        None \<Rightarrow> Some (h, p, own, PoolAlloc ms # ops)
      | Some (h', p', None) \<Rightarrow> pool_client alloc free ops h' p' own
      | Some (h', p', Some b) \<Rightarrow> pool_client alloc free ops h' p' (b # own))"
| "pool_client alloc free (PoolFree b # ops) h p own =
     (if b \<in> set own
      then case free h p b of
             None \<Rightarrow> None
           | Some (h', p') \<Rightarrow> pool_client alloc free ops h' p' (remove1 b own)
      else pool_client alloc free ops h p own)"

text \<open>Why a run ended: all requests were served, or the first one left is an allocation that waits for a block.\<close>

definition pool_stopped :: "('p \<Rightarrow> int \<Rightarrow> bool) \<Rightarrow> 'p \<Rightarrow> addr list \<Rightarrow> pool_op list \<Rightarrow> bool" where
  "pool_stopped waits p xs rest \<longleftrightarrow> rest = [] \<or> (\<exists>ms ops. rest = PoolAlloc ms # ops \<and> xs = [] \<and> waits p ms)"

locale block_pool =
  fixes rep :: "'h \<Rightarrow> 'p \<Rightarrow> addr list \<Rightarrow> bool"
    and alloc :: "'h \<Rightarrow> 'p \<Rightarrow> int \<Rightarrow> ('h \<times> 'p \<times> ptr) option"
    and free :: "'h \<Rightarrow> 'p \<Rightarrow> addr \<Rightarrow> ('h \<times> 'p) option"
    and waits :: "'p \<Rightarrow> int \<Rightarrow> bool"
  assumes alloc_law:
      "rep h p (x # xs) \<Longrightarrow> \<exists>h' p'. alloc h p ms = Some (h', p', Some x) \<and> rep h' p' xs \<and> waits p' = waits p"
    and alloc_empty: "rep h p [] \<Longrightarrow> alloc h p ms = (if waits p ms then None else Some (h, p, None))"
    and free_law:
      "rep h p xs \<Longrightarrow> b \<notin> set xs \<Longrightarrow> \<exists>h' p'. free h p b = Some (h', p') \<and> rep h' p' (xs @ [b]) \<and> waits p' = waits p"
begin

lemma client_conserves:
  assumes "rep h p xs" "distinct (xs @ own)"
  shows "\<exists>h' p' own' xs' rest. pool_client alloc free ops h p own = Some (h', p', own', rest) \<and>
           rep h' p' xs' \<and> distinct (xs' @ own') \<and> set (xs' @ own') = set (xs @ own) \<and>
           waits p' = waits p \<and> pool_stopped (\<lambda>_. waits p) p' xs' rest \<and> suffix rest ops"
  using assms
proof (induction ops arbitrary: h p xs own)
  case Nil
  then show ?case by (auto simp: pool_stopped_def)
next
  case (Cons oper ops)
  show ?case
  proof (cases oper)
    case (PoolAlloc ms)
    show ?thesis
    proof (cases xs)
      case Nil
      note e = alloc_empty [OF Cons.prems(1) [unfolded Nil], of ms]
      show ?thesis
      proof (cases "waits p ms")
        case True
        with e Nil Cons.prems PoolAlloc show ?thesis by (auto simp: pool_stopped_def)
      next
        case False
        with Cons.IH [OF Cons.prems] e PoolAlloc show ?thesis by (auto simp: suffix_Cons)
      qed
    next
      case (Cons x r)
      with \<open>rep h p xs\<close> obtain h1 p1 where a: "alloc h p ms = Some (h1, p1, Some x)" "rep h1 p1 r" "waits p1 = waits p"
        using alloc_law by blast
      with Cons.IH [of h1 p1 r "x # own"] Cons.prems(2) Cons PoolAlloc show ?thesis by (auto simp: suffix_Cons)
    qed
  next
    case (PoolFree b)
    show ?thesis
    proof (cases "b \<in> set own")
      case True
      with Cons.prems obtain h1 p1 where f: "free h p b = Some (h1, p1)" "rep h1 p1 (xs @ [b])" "waits p1 = waits p"
        using free_law [of h p xs b] by auto
      have s: "set ((xs @ [b]) @ remove1 b own) = set (xs @ own)"
        and d: "distinct ((xs @ [b]) @ remove1 b own)"
        using True Cons.prems(2) by (auto simp: set_remove1_eq)
      from Cons.IH [OF f(2) d] show ?thesis
        unfolding s using f(1,3) True PoolFree by (auto simp: suffix_Cons)
    next
      case False
      with Cons.IH [OF Cons.prems] PoolFree show ?thesis by (auto simp: suffix_Cons)
    qed
  qed
qed

end

lemma pool_waits_type: "mp_locker_type p' = mp_locker_type p \<Longrightarrow> pool_waits p' = pool_waits p"
  by (simp add: pool_waits_def [abs_def])

lemma memory_pool_alloc_type: "memory_pool_alloc h p ms = Some (h', p', b) \<Longrightarrow> mp_locker_type p' = mp_locker_type p"
  by (auto simp: memory_pool_alloc_def Let_def split: if_splits option.splits sem_outcome.splits prod.splits)

lemma memory_pool_free_type: "memory_pool_free h p b = Some (h', p') \<Longrightarrow> mp_locker_type p' = mp_locker_type p"
  by (auto simp: memory_pool_free_def Let_def split: option.splits)

interpretation mpool: block_pool pool_rep memory_pool_alloc memory_pool_free pool_waits
proof
  fix h p x xs ms
  assume "pool_rep h p (x # xs)"
  from memory_pool_alloc_Cons [OF this, of ms]
  show "\<exists>h' p'. memory_pool_alloc h p ms = Some (h', p', Some x) \<and> pool_rep h' p' xs \<and> pool_waits p' = pool_waits p"
    by (metis memory_pool_alloc_type pool_waits_type)
next
  fix h p xs b
  assume "pool_rep h p xs" "b \<notin> set xs"
  from memory_pool_free_rep [OF this]
  show "\<exists>h' p'. memory_pool_free h p b = Some (h', p') \<and> pool_rep h' p' (xs @ [b]) \<and> pool_waits p' = pool_waits p"
    unfolding pool_free_def by (metis memory_pool_free_type pool_waits_type)
qed (rule memory_pool_alloc_empty)

text \<open>
  The sequences the client components use satisfy the same contract; their allocations are
  those that never wait.
\<close>

interpretation spool: block_pool
  "\<lambda>(h :: unit) p xs. p = xs \<and> distinct xs"
  "\<lambda>h p ms. Some (h, fst (pool_alloc p), snd (pool_alloc p))"
  "\<lambda>h p b. Some (h, pool_free p b)" "\<lambda>p ms. False"
  by unfold_locales (auto simp: pool_free_def)

section \<open>Properties\<close>

text \<open>C8. A freshly initialised pool serves every sequence of complete allocation and free calls, made with any timeouts, without
  fault: no block is ever handed out twice or both held and free, and the blocks held and free together are always exactly the
  blocks of the memory area. The calls are all served, or the sequence ends at an allocation that waits for ever, and then
  every block is held, the pool is shared and the timeout of that allocation is zero.\<close>

theorem memory_pool_conserves:
  assumes "sizeof_list_node \<le> blk_size" "sem_create (int cnt) = Some (int cnt)"
  shows "\<exists>h0 pool0 h' pool' own free rest.
           memory_pool_init sem_create h mem blk_size cnt share_type = Some (h0, pool0, NET_OK) \<and>
           pool_client memory_pool_alloc memory_pool_free ops h0 pool0 [] = Some (h', pool', own, rest) \<and>
           pool_rep h' pool' free \<and> distinct (free @ own) \<and>
           set (free @ own) = {mem + i * blk_size | i. i < cnt} \<and> suffix rest ops \<and>
           (rest = [] \<or> (\<exists>ops'. rest = PoolAlloc 0 # ops' \<and> free = [] \<and> share_type \<noteq> LOCKER_NONE))"
proof -
  let ?bs = "map (\<lambda>i. mem + i * blk_size) [0..<cnt]"
  from memory_pool_init_rep [OF assms(1)] assms(2) obtain h0 pool0
    where init: "memory_pool_init sem_create h mem blk_size cnt share_type = Some (h0, pool0, NET_OK)"
      and rep: "pool_rep h0 pool0 ?bs" and ty: "mp_locker_type pool0 = share_type" by blast
  have "distinct (?bs @ [])" using rep by (simp add: pool_rep_def list_rep_def)
  from mpool.client_conserves [OF rep this, of ops] obtain h' pool' own free rest where
    c: "pool_client memory_pool_alloc memory_pool_free ops h0 pool0 [] = Some (h', pool', own, rest)"
      "pool_rep h' pool' free" "distinct (free @ own)" "set (free @ own) = set ?bs" "suffix rest ops"
      "pool_stopped (\<lambda>_. pool_waits pool0) pool' free rest" by auto
  have "set ?bs = {mem + i * blk_size | i. i < cnt}" by auto
  with c(4) have "set (free @ own) = {mem + i * blk_size | i. i < cnt}" by (rule trans)
  moreover have "rest = [] \<or> (\<exists>ops'. rest = PoolAlloc 0 # ops' \<and> free = [] \<and> share_type \<noteq> LOCKER_NONE)"
    using c(6) ty by (auto simp: pool_stopped_def pool_waits_def)
  ultimately show ?thesis
    by (intro exI [of _ h0] exI [of _ pool0] exI [of _ h'] exI [of _ pool'] exI [of _ own] exI [of _ free] exI [of _ rest] conjI init c)
qed

text \<open>Two blocks, three allocations: the second one with timeout zero is the one that waits.\<close>

theorem memory_pool_conserves_witness:
  "\<exists>h0 pool0 h' pool' own free rest.
     memory_pool_init Some (\<lambda>a. \<lparr>n_next = None, n_pre = None\<rparr>) 1000 32 2 LOCKER_THREAD = Some (h0, pool0, NET_OK) \<and>
     pool_client memory_pool_alloc memory_pool_free
       [PoolAlloc (- 1), PoolAlloc 0, PoolAlloc (- 1), PoolFree 1000, PoolAlloc 10, PoolAlloc 0] h0 pool0 [] = Some (h', pool', own, rest) \<and>
     pool_rep h' pool' free \<and> distinct (free @ own) \<and>
     set (free @ own) = {1000 + i * 32 | i. i < 2} \<and>
     suffix rest [PoolAlloc (- 1), PoolAlloc 0, PoolAlloc (- 1), PoolFree 1000, PoolAlloc 10, PoolAlloc 0] \<and>
     (rest = [] \<or> (\<exists>ops'. rest = PoolAlloc 0 # ops' \<and> free = [] \<and> LOCKER_THREAD \<noteq> LOCKER_NONE))"
  by (rule memory_pool_conserves) (simp_all add: sizeof_list_node_def)

end
