(* ===== verification/Net_Ring.thy ===== *)
theory Net_Ring
  imports Net_Prelude
begin

text \<open>
  The arithmetic shared by the two ring buffers of the stack, \<^verbatim>\<open>fixed_queue_t\<close> and
  \<^verbatim>\<open>tcp_buf_t\<close>: an array, a read index, a write index and a number of stored elements.
  \<open>ring_seq\<close> is the stored sequence, oldest element first, and \<open>ring_ok\<close> the invariant.
\<close>

definition ring_next :: "int \<Rightarrow> int \<Rightarrow> int" where
  "ring_next sz i = (if i + 1 \<ge> sz then 0 else i + 1)"

definition ring_wrap :: "int \<Rightarrow> int \<Rightarrow> int" where
  "ring_wrap sz i = (if i \<ge> sz then i - sz else i)"

definition ring_ok :: "'a list \<Rightarrow> int \<Rightarrow> int \<Rightarrow> int \<Rightarrow> int \<Rightarrow> bool" where
  "ring_ok buf sz i_in i_out cnt \<longleftrightarrow>
     sz = int (length buf) \<and> 0 < sz \<and> 0 \<le> i_in \<and> i_in < sz \<and> 0 \<le> i_out \<and> i_out < sz \<and>
     0 \<le> cnt \<and> cnt \<le> sz \<and> i_in = (i_out + cnt) mod sz"

definition ring_at :: "'a list \<Rightarrow> int \<Rightarrow> int \<Rightarrow> 'a" where
  "ring_at buf i_out k = buf ! nat ((i_out + k) mod int (length buf))"

definition ring_seq :: "'a list \<Rightarrow> int \<Rightarrow> int \<Rightarrow> 'a list" where
  "ring_seq buf i_out cnt = map (\<lambda>k. ring_at buf i_out (int k)) [0..<nat cnt]"

lemma ring_seq_length [simp]: "length (ring_seq buf i_out cnt) = nat cnt"
  by (simp add: ring_seq_def)

lemma ring_seq_empty [simp]: "ring_seq buf i_out 0 = []"
  by (simp add: ring_seq_def)

lemma ring_seq_nth: "k < nat cnt \<Longrightarrow> ring_seq buf i_out cnt ! k = ring_at buf i_out (int k)"
  by (simp add: ring_seq_def)

lemma ring_wrap_mod:
  assumes "0 \<le> i" "i < 2 * sz"
  shows "ring_wrap sz i = i mod sz"
proof (cases "i < sz")
  case False
  with assms have "(i - sz) mod sz = i - sz" by (intro mod_pos_pos_trivial) auto
  then have "i mod sz = i - sz" by (metis minus_mod_self2)
  with False show ?thesis by (simp add: ring_wrap_def)
qed (use assms in \<open>simp add: ring_wrap_def\<close>)

lemma ring_next_mod:
  assumes "0 \<le> i" "i < sz"
  shows "ring_next sz i = (i + 1) mod sz"
proof (cases "i + 1 < sz")
  case False
  with assms have "i + 1 = sz" by simp
  then show ?thesis by (simp add: ring_next_def)
qed (use assms in \<open>simp add: ring_next_def\<close>)

text \<open>Distinct offsets below the size address distinct slots.\<close>

lemma mod_offset_inj:
  fixes n :: int
  assumes "0 \<le> a" "a < n" "0 \<le> b" "b < n" "(c + a) mod n = (c + b) mod n"
  shows "a = b"
proof -
  from assms(5) have "(c + a - c) mod n = (c + b - c) mod n"
    by (metis mod_diff_left_eq)
  with assms show ?thesis by simp
qed

lemma ring_at_update_other:
  assumes "ring_ok buf sz i_in i_out cnt" "0 \<le> k" "k < cnt" "cnt < sz"
  shows "ring_at (buf[nat i_in := m]) i_out k = ring_at buf i_out k"
proof -
  have "(i_out + k) mod sz \<noteq> (i_out + cnt) mod sz"
    using assms mod_offset_inj [of k sz cnt i_out] by (auto simp: ring_ok_def)
  moreover have "0 \<le> (i_out + k) mod sz"
    using assms by (intro pos_mod_sign) linarith
  moreover have "0 \<le> i_in" "i_in = (i_out + cnt) mod sz"
    using assms(1) unfolding ring_ok_def by blast+
  ultimately have "nat ((i_out + k) mod sz) \<noteq> nat i_in"
    by (metis nat_0_le)
  then show ?thesis
    using assms(1) by (auto simp: ring_at_def ring_ok_def)
qed

lemma ring_put:
  assumes ok: "ring_ok buf sz i_in i_out cnt" and room: "cnt < sz"
  shows "ring_ok (buf[nat i_in := m]) sz (ring_next sz i_in) i_out (cnt + 1)"
    and "ring_seq (buf[nat i_in := m]) i_out (cnt + 1) = ring_seq buf i_out cnt @ [m]"
proof -
  show "ring_ok (buf[nat i_in := m]) sz (ring_next sz i_in) i_out (cnt + 1)"
    using ok room by (auto simp: ring_ok_def ring_next_mod mod_add_left_eq add.assoc)
  have "ring_at (buf[nat i_in := m]) i_out cnt = m"
    using ok by (auto simp: ring_at_def ring_ok_def nat_less_iff)
  moreover have "ring_at (buf[nat i_in := m]) i_out (int k) = ring_at buf i_out (int k)"
    if "k < nat cnt" for k
    using that ok room by (intro ring_at_update_other) auto
  moreover have "nat (cnt + 1) = Suc (nat cnt)" using ok by (simp add: ring_ok_def nat_add_distrib)
  ultimately show "ring_seq (buf[nat i_in := m]) i_out (cnt + 1) = ring_seq buf i_out cnt @ [m]"
    using ok by (auto simp: ring_seq_def ring_ok_def)
qed

text \<open>Removing \<open>n\<close> elements from the front.\<close>

lemma ring_drop:
  assumes ok: "ring_ok buf sz i_in i_out cnt" and n: "0 \<le> n" "n \<le> cnt"
  shows "ring_ok buf sz i_in ((i_out + n) mod sz) (cnt - n)"
    and "ring_seq buf ((i_out + n) mod sz) (cnt - n) = drop (nat n) (ring_seq buf i_out cnt)"
proof -
  show "ring_ok buf sz i_in ((i_out + n) mod sz) (cnt - n)"
    using ok n by (auto simp: ring_ok_def mod_add_left_eq)
  show "ring_seq buf ((i_out + n) mod sz) (cnt - n) = drop (nat n) (ring_seq buf i_out cnt)"
  proof (rule nth_equalityI)
    show "length (ring_seq buf ((i_out + n) mod sz) (cnt - n)) =
          length (drop (nat n) (ring_seq buf i_out cnt))"
      using n by (simp add: nat_diff_distrib)
  next
    fix k assume "k < length (ring_seq buf ((i_out + n) mod sz) (cnt - n))"
    then have k: "k < nat (cnt - n)" by simp
    have "((i_out + n) mod sz + int k) mod sz = (i_out + int (nat n + k)) mod sz"
      using n by (simp add: mod_add_left_eq add.assoc)
    then show "ring_seq buf ((i_out + n) mod sz) (cnt - n) ! k =
               drop (nat n) (ring_seq buf i_out cnt) ! k"
      using k n ok by (simp add: ring_seq_nth nth_drop ring_at_def ring_ok_def nat_less_iff)
  qed
qed

lemma ring_get:
  assumes ok: "ring_ok buf sz i_in i_out cnt" and ne: "0 < cnt"
  shows "ring_ok buf sz i_in (ring_next sz i_out) (cnt - 1)"
    and "ring_seq buf i_out cnt = buf ! nat i_out # ring_seq buf (ring_next sz i_out) (cnt - 1)"
proof -
  have nxt: "ring_next sz i_out = (i_out + 1) mod sz"
    using ok by (simp add: ring_next_mod ring_ok_def)
  show "ring_ok buf sz i_in (ring_next sz i_out) (cnt - 1)"
    unfolding nxt using ring_drop(1) [OF ok, of 1] ne by simp
  have "ring_seq buf i_out cnt ! 0 = buf ! nat i_out"
    using ok ne by (simp add: ring_seq_nth ring_at_def ring_ok_def)
  moreover have "ring_seq buf i_out cnt \<noteq> []"
    using ne by (metis length_0_conv ring_seq_length zero_less_nat_eq less_numeral_extra(3))
  ultimately show "ring_seq buf i_out cnt = buf ! nat i_out # ring_seq buf (ring_next sz i_out) (cnt - 1)"
    unfolding nxt using ring_drop(2) [OF ok, of 1] ne
    by (cases "ring_seq buf i_out cnt") simp_all
qed

section \<open>The bounded first-in first-out interface\<close>

text \<open>Storing the elements of a list one by one; taking a number of elements one by one.\<close>

fun push_all :: "('q \<Rightarrow> 'm \<Rightarrow> 'q option) \<Rightarrow> 'm list \<Rightarrow> 'q \<Rightarrow> 'q option" where
  "push_all push [] q = Some q"
| "push_all push (m # ms) q = (case push q m of None \<Rightarrow> None | Some q' \<Rightarrow> push_all push ms q')"

fun pop_n :: "('q \<Rightarrow> ('q \<times> 'm) option) \<Rightarrow> nat \<Rightarrow> 'q \<Rightarrow> ('q \<times> 'm list) option" where
  "pop_n pop 0 q = Some (q, [])"
| "pop_n pop (Suc n) q =
     (case pop q of
        None \<Rightarrow> None
      | Some (q', m) \<Rightarrow> map_option (\<lambda>(q'', ms). (q'', m # ms)) (pop_n pop n q'))"

locale bounded_fifo =
  fixes ok :: "'q \<Rightarrow> bool"
    and seq :: "'q \<Rightarrow> 'm list"
    and cap :: "'q \<Rightarrow> int"
    and push :: "'q \<Rightarrow> 'm \<Rightarrow> 'q option"
    and pop :: "'q \<Rightarrow> ('q \<times> 'm) option"
  assumes push_law:
      "ok q \<Longrightarrow> int (length (seq q)) < cap q \<Longrightarrow>
       \<exists>q'. push q m = Some q' \<and> ok q' \<and> seq q' = seq q @ [m] \<and> cap q' = cap q"
    and pop_law:
      "ok q \<Longrightarrow> seq q = m # ms \<Longrightarrow>
       \<exists>q'. pop q = Some (q', m) \<and> ok q' \<and> seq q' = ms \<and> cap q' = cap q"
begin

lemma push_all_seq:
  assumes "ok q" "int (length (seq q) + length ms) \<le> cap q"
  shows "\<exists>q'. push_all push ms q = Some q' \<and> ok q' \<and> seq q' = seq q @ ms \<and> cap q' = cap q"
  using assms
proof (induction ms arbitrary: q)
  case (Cons m ms)
  from Cons.prems push_law [of q m] obtain q1
    where "push q m = Some q1" and q1: "ok q1" "seq q1 = seq q @ [m]" "cap q1 = cap q" by auto
  moreover from Cons.prems q1 have "int (length (seq q1) + length ms) \<le> cap q1" by simp
  ultimately show ?case using Cons.IH [of q1] by auto
qed auto

lemma pop_n_seq:
  assumes "ok q" "n \<le> length (seq q)"
  shows "\<exists>q'. pop_n pop n q = Some (q', take n (seq q)) \<and> ok q' \<and>
           seq q' = drop n (seq q) \<and> cap q' = cap q"
  using assms
proof (induction n arbitrary: q)
  case (Suc n)
  then obtain m ms where s: "seq q = m # ms" by (cases "seq q") auto
  with Suc.prems pop_law obtain q1
    where "pop q = Some (q1, m)" and q1: "ok q1" "seq q1 = ms" "cap q1 = cap q" by blast
  with Suc.IH [of q1] Suc.prems s show ?case by auto
qed auto

lemma fifo_roundtrip:
  assumes "ok q" "seq q = []" "int (length ms) \<le> cap q"
  shows "\<exists>q1 q2. push_all push ms q = Some q1 \<and> pop_n pop (length ms) q1 = Some (q2, ms) \<and>
           ok q2 \<and> seq q2 = []"
proof -
  from push_all_seq [of q ms] assms obtain q1
    where "push_all push ms q = Some q1" "ok q1" "seq q1 = ms" by auto
  with pop_n_seq [of q1 "length ms"] show ?thesis by auto
qed

end

end
