(* ===== verification/Net_Queue.thy ===== *)
theory Net_Queue
  imports Net_Pool Net_Ring
begin

text \<open>
  \<^verbatim>\<open>src/common/fixed_queue.c\<close>: the bounded message queue between the driver threads, the
  API threads and the worker thread.  The first part models the functions as one thread
  runs them.  The second part models any number of threads that send and receive
  concurrently: a call is a sequence of atomic steps (the check under the lock, the
  semaphore wait, the critical section, the semaphore notification), the steps of all
  threads interleave in any order, and an invariant over the reachable states shows that
  no message is overwritten, lost, duplicated or reordered.  Both builds are covered: the
  semaphores of the operating system on Windows, and those of the Linux build, whose wait
  does not test the counter again after a wake-up.  With the latter the invariant holds
  when one thread sends and one receives, and a run with two senders that overwrites a
  message shows that it does not hold beyond that.
\<close>

section \<open>The queue\<close>

record 'm fixed_queue_t =
  fq_size :: int
  fq_buffer :: "'m list"
  fq_in :: int
  fq_out :: int
  fq_cnt :: int
  fq_recv_sem :: int
  fq_send_sem :: int

text \<open>The outcome of a call made by one thread.\<close>

datatype 'a call_result = Returns 'a | Blocks | Faults

text \<open>
  \<^verbatim>\<open>fixed_queue_init\<close>; the lock and the two semaphores may fail to be created.
\<close>

definition fixed_queue_init ::
  "bool \<Rightarrow> (int \<Rightarrow> int option) \<Rightarrow> 'm list \<Rightarrow> int \<Rightarrow> 'm fixed_queue_t option \<times> net_err_t" where
  "fixed_queue_init locker_ok sem_create buf sz =
     (if \<not> locker_ok then (None, NET_ERR_SYS)
      else case sem_create sz of
             None \<Rightarrow> (None, NET_ERR_SYS)
           | Some s \<Rightarrow>
               (case sem_create 0 of
                  None \<Rightarrow> (None, NET_ERR_SYS)
                | Some r \<Rightarrow>
                    (Some \<lparr>fq_size = sz, fq_buffer = buf, fq_in = 0, fq_out = 0, fq_cnt = 0,
                           fq_recv_sem = r, fq_send_sem = s\<rparr>, NET_OK)))"

text \<open>The critical section of a send: store at \<open>in\<close>, advance, count.\<close>

definition fq_put :: "'m fixed_queue_t \<Rightarrow> 'm \<Rightarrow> 'm fixed_queue_t option" where
  "fq_put q msg =
     (if 0 \<le> fq_in q \<and> nat (fq_in q) < length (fq_buffer q)
      then Some (q\<lparr>fq_buffer := (fq_buffer q)[nat (fq_in q) := msg],
                   fq_in := ring_next (fq_size q) (fq_in q),
                   fq_cnt := fq_cnt q + 1\<rparr>)
      else None)"

text \<open>The critical section of a receive.\<close>

definition fq_get :: "'m fixed_queue_t \<Rightarrow> ('m fixed_queue_t \<times> 'm) option" where
  "fq_get q =
     (if 0 \<le> fq_out q \<and> nat (fq_out q) < length (fq_buffer q)
      then Some (q\<lparr>fq_out := ring_next (fq_size q) (fq_out q), fq_cnt := fq_cnt q - 1\<rparr>,
                 fq_buffer q ! nat (fq_out q))
      else None)"

definition fixed_queue_send ::
  "'m fixed_queue_t \<Rightarrow> 'm \<Rightarrow> int \<Rightarrow> ('m fixed_queue_t \<times> net_err_t) call_result" where
  "fixed_queue_send q msg tmo =
     (if fq_cnt q \<ge> fq_size q \<and> tmo < 0 then Returns (q, NET_ERR_FULL)
      else case sys_sem_wait (fq_send_sem q) tmo of
             SemBlocked \<Rightarrow> Blocks
           | SemTimeout \<Rightarrow> Returns (q, NET_ERR_TIMEOUT)
           | SemTaken c \<Rightarrow>
               (case fq_put (q\<lparr>fq_send_sem := c\<rparr>) msg of
                  None \<Rightarrow> Faults
                | Some q \<Rightarrow> Returns (q\<lparr>fq_recv_sem := sys_sem_notify (fq_recv_sem q)\<rparr>, NET_OK)))"

definition fixed_queue_recv ::
  "'m fixed_queue_t \<Rightarrow> int \<Rightarrow> ('m fixed_queue_t \<times> 'm option) call_result" where
  "fixed_queue_recv q tmo =
     (if fq_cnt q = 0 \<and> tmo < 0 then Returns (q, None)
      else case sys_sem_wait (fq_recv_sem q) tmo of
             SemBlocked \<Rightarrow> Blocks
           | SemTimeout \<Rightarrow> Returns (q, None)
           | SemTaken c \<Rightarrow>
               (case fq_get (q\<lparr>fq_recv_sem := c\<rparr>) of
                  None \<Rightarrow> Faults
                | Some (q, msg) \<Rightarrow>
                    Returns (q\<lparr>fq_send_sem := sys_sem_notify (fq_send_sem q)\<rparr>, Some msg)))"

definition fixed_queue_count :: "'m fixed_queue_t \<Rightarrow> int" where
  "fixed_queue_count q = fq_cnt q"

section \<open>Stored sequence and invariant\<close>

definition fq_seq :: "'m fixed_queue_t \<Rightarrow> 'm list" where
  "fq_seq q = ring_seq (fq_buffer q) (fq_out q) (fq_cnt q)"

definition fq_ring_ok :: "'m fixed_queue_t \<Rightarrow> bool" where
  "fq_ring_ok q \<longleftrightarrow> ring_ok (fq_buffer q) (fq_size q) (fq_in q) (fq_out q) (fq_cnt q)"

text \<open>Between calls the semaphores count the free and the used slots.\<close>

definition fq_quiet :: "'m fixed_queue_t \<Rightarrow> bool" where
  "fq_quiet q \<longleftrightarrow> fq_ring_ok q \<and> fq_recv_sem q = fq_cnt q \<and> fq_send_sem q = fq_size q - fq_cnt q"

lemma fq_seq_length: "fq_ring_ok q \<Longrightarrow> int (length (fq_seq q)) = fq_cnt q"
  by (simp add: fq_seq_def fq_ring_ok_def ring_ok_def)

lemma fq_put_spec [ring_abs]:
  assumes "fq_ring_ok q" "fq_cnt q < fq_size q"
  shows "\<exists>q'. fq_put q m = Some q' \<and> fq_ring_ok q' \<and> fq_seq q' = fq_seq q @ [m] \<and>
           fq_cnt q' = fq_cnt q + 1 \<and> fq_size q' = fq_size q \<and>
           fq_recv_sem q' = fq_recv_sem q \<and> fq_send_sem q' = fq_send_sem q"
  using assms ring_put [of "fq_buffer q" "fq_size q" "fq_in q" "fq_out q" "fq_cnt q" m]
  by (auto simp: fq_put_def fq_ring_ok_def fq_seq_def ring_ok_def nat_less_iff)

lemma fq_get_spec [ring_abs]:
  assumes "fq_ring_ok q" "0 < fq_cnt q"
  shows "\<exists>q' m. fq_get q = Some (q', m) \<and> fq_ring_ok q' \<and> fq_seq q = m # fq_seq q' \<and>
           fq_cnt q' = fq_cnt q - 1 \<and> fq_size q' = fq_size q \<and>
           fq_recv_sem q' = fq_recv_sem q \<and> fq_send_sem q' = fq_send_sem q"
  using assms ring_get [of "fq_buffer q" "fq_size q" "fq_in q" "fq_out q" "fq_cnt q"]
  by (auto simp: fq_get_def fq_ring_ok_def fq_seq_def ring_ok_def nat_less_iff)

lemma fq_sem_update [simp]:
  "fq_ring_ok (q\<lparr>fq_send_sem := s\<rparr>) = fq_ring_ok q" "fq_seq (q\<lparr>fq_send_sem := s\<rparr>) = fq_seq q"
  "fq_ring_ok (q\<lparr>fq_recv_sem := r\<rparr>) = fq_ring_ok q" "fq_seq (q\<lparr>fq_recv_sem := r\<rparr>) = fq_seq q"
  by (simp_all add: fq_ring_ok_def fq_seq_def)

lemma fixed_queue_send_room [ring_abs]:
  assumes "fq_quiet q" "int (length (fq_seq q)) < fq_size q"
  shows "\<exists>q'. fixed_queue_send q m tmo = Returns (q', NET_OK) \<and> fq_quiet q' \<and>
           fq_seq q' = fq_seq q @ [m] \<and> fq_size q' = fq_size q"
proof -
  from assms have c: "fq_ring_ok q" "fq_cnt q < fq_size q"
    by (auto simp: fq_quiet_def fq_seq_length)
  from fq_put_spec [of "q\<lparr>fq_send_sem := fq_send_sem q - 1\<rparr>" m] c assms(1) show ?thesis
    by (auto simp: fixed_queue_send_def sys_sem_wait_def sys_sem_notify_def fq_quiet_def)
qed

lemma fixed_queue_send_full [ring_abs]:
  assumes "fq_quiet q" "int (length (fq_seq q)) = fq_size q" "tmo < 0"
  shows "fixed_queue_send q m tmo = Returns (q, NET_ERR_FULL)"
  using assms by (auto simp: fixed_queue_send_def fq_quiet_def fq_seq_length)

lemma fixed_queue_recv_some [ring_abs]:
  assumes "fq_quiet q" "fq_seq q = m # ms"
  shows "\<exists>q'. fixed_queue_recv q tmo = Returns (q', Some m) \<and> fq_quiet q' \<and>
           fq_seq q' = ms \<and> fq_size q' = fq_size q"
proof -
  from assms have ok: "fq_ring_ok q" by (simp add: fq_quiet_def)
  with assms(2) have c: "0 < fq_cnt q" using fq_seq_length [of q] by auto
  from fq_get_spec [of "q\<lparr>fq_recv_sem := fq_recv_sem q - 1\<rparr>"] c ok assms show ?thesis
    by (auto simp: fixed_queue_recv_def sys_sem_wait_def sys_sem_notify_def fq_quiet_def)
qed

lemma fixed_queue_recv_empty [ring_abs]:
  assumes "fq_quiet q" "fq_seq q = []" "tmo < 0"
  shows "fixed_queue_recv q tmo = Returns (q, None)"
  using assms fq_seq_length [of q] by (auto simp: fixed_queue_recv_def fq_quiet_def)

text \<open>
  The calls on the stored sequence, as the other components use them.  A call that would
  wait for ever gives \<^term>\<open>None\<close>: the calling thread makes no step.
\<close>

definition queue_send :: "int \<Rightarrow> 'm list \<Rightarrow> 'm \<Rightarrow> int \<Rightarrow> ('m list \<times> net_err_t) option" where
  "queue_send sz q m tmo =
     (if int (length q) < sz then Some (q @ [m], NET_OK)
      else if tmo < 0 then Some (q, NET_ERR_FULL)
      else if tmo = 0 then None
      else Some (q, NET_ERR_TIMEOUT))"

definition queue_recv :: "'m list \<Rightarrow> int \<Rightarrow> ('m list \<times> 'm option) option" where
  "queue_recv q tmo =
     (case q of
        m # q \<Rightarrow> Some (q, Some m)
      | [] \<Rightarrow> if tmo = 0 then None else Some ([], None))"

lemma fixed_queue_send_seq:
  assumes "fq_quiet q"
  shows "case queue_send (fq_size q) (fq_seq q) m tmo of
      None \<Rightarrow> fixed_queue_send q m tmo = Blocks
    | Some (l, err) \<Rightarrow> \<exists>q'. fixed_queue_send q m tmo = Returns (q', err) \<and> fq_quiet q' \<and> fq_seq q' = l \<and> fq_size q' = fq_size q"
proof (cases "int (length (fq_seq q)) < fq_size q")
  case True
  with fixed_queue_send_room [OF assms True, of m tmo] show ?thesis by (simp add: queue_send_def)
next
  case False
  have c: "int (length (fq_seq q)) = fq_cnt q" "fq_cnt q \<le> fq_size q"
    using assms fq_seq_length [of q] unfolding fq_quiet_def fq_ring_ok_def ring_ok_def by blast+
  with False have "fq_send_sem q = 0" "fq_cnt q = fq_size q" using assms by (simp_all add: fq_quiet_def)
  with False assms c show ?thesis
    by (auto simp: queue_send_def fixed_queue_send_def sys_sem_wait_def)
qed

lemma fixed_queue_recv_seq:
  assumes "fq_quiet q"
  shows "case queue_recv (fq_seq q) tmo of
      None \<Rightarrow> fixed_queue_recv q tmo = Blocks
    | Some (l, m) \<Rightarrow> \<exists>q'. fixed_queue_recv q tmo = Returns (q', m) \<and> fq_quiet q' \<and> fq_seq q' = l \<and> fq_size q' = fq_size q"
proof (cases "fq_seq q")
  case Nil
  then have "fq_cnt q = 0" using assms fq_seq_length [of q] by (simp add: fq_quiet_def)
  with Nil assms show ?thesis
    by (auto simp: queue_recv_def fixed_queue_recv_def sys_sem_wait_def fq_quiet_def)
next
  case (Cons m ms)
  with fixed_queue_recv_some [OF assms Cons, of tmo] show ?thesis by (simp add: queue_recv_def)
qed

text \<open>Non-blocking calls, as the drivers and the worker thread make them.\<close>

definition fq_try_send :: "'m fixed_queue_t \<Rightarrow> 'm \<Rightarrow> 'm fixed_queue_t option" where
  "fq_try_send q m = (case fixed_queue_send q m (- 1) of Returns (q', NET_OK) \<Rightarrow> Some q' | _ \<Rightarrow> None)"

definition fq_try_recv :: "'m fixed_queue_t \<Rightarrow> ('m fixed_queue_t \<times> 'm) option" where
  "fq_try_recv q = (case fixed_queue_recv q (- 1) of Returns (q', Some m) \<Rightarrow> Some (q', m) | _ \<Rightarrow> None)"

interpretation fq: bounded_fifo fq_quiet fq_seq fq_size fq_try_send fq_try_recv
proof
  fix q :: "'m fixed_queue_t" and m
  assume "fq_quiet q" "int (length (fq_seq q)) < fq_size q"
  from fixed_queue_send_room [OF this, of m "- 1"]
  show "\<exists>q'. fq_try_send q m = Some q' \<and> fq_quiet q' \<and> fq_seq q' = fq_seq q @ [m] \<and> fq_size q' = fq_size q"
    by (auto simp: fq_try_send_def)
next
  fix q :: "'m fixed_queue_t" and m ms
  assume "fq_quiet q" "fq_seq q = m # ms"
  from fixed_queue_recv_some [OF this, of "- 1"]
  show "\<exists>q'. fq_try_recv q = Some (q', m) \<and> fq_quiet q' \<and> fq_seq q' = ms \<and> fq_size q' = fq_size q"
    by (auto simp: fq_try_recv_def)
qed

section \<open>Concurrent senders and receivers\<close>

text \<open>
  Where a thread stands in a call.  \<open>SendWait\<close> and \<open>RecvWait\<close> are about to enter the
  semaphore wait, \<open>SendPut\<close> and \<open>RecvGet\<close> have returned from it and are about to enter the
  critical section, \<open>SendNotify\<close> and \<open>RecvNotify\<close> have left it and are about to notify the
  other side.  In the Linux build a thread that finds the counter not positive sleeps on
  the condition variable (\<open>SendSleep\<close>, \<open>RecvSleep\<close>) until it is woken (\<open>SendWoken\<close>,
  \<open>RecvWoken\<close>); each piece of the wait and of the notification runs under the mutex of the
  semaphore, so it is one step.
\<close>

datatype 'm fq_pc =
    Idle
  | SendWait 'm int
  | SendSleep 'm int
  | SendWoken 'm
  | SendPut 'm
  | SendNotify
  | RecvWait int
  | RecvSleep int
  | RecvWoken
  | RecvGet
  | RecvNotify 'm

record 'm fq_sys =
  sys_q :: "'m fixed_queue_t"
  sys_pcs :: "'m fq_pc list"
  sys_put_log :: "'m list"
  sys_got_log :: "'m list"

text \<open>
  The build, whether the condition variable may wake a thread that was not signalled, and
  which threads call \<^verbatim>\<open>fixed_queue_send\<close> and \<^verbatim>\<open>fixed_queue_recv\<close>.
\<close>

record fq_env =
  env_linux :: bool
  env_spurious :: bool
  env_senders :: "nat set"
  env_receivers :: "nat set"

definition set_pc :: "nat \<Rightarrow> 'm fq_pc \<Rightarrow> 'm fq_sys \<Rightarrow> 'm fq_sys" where
  "set_pc i pc s = s\<lparr>sys_pcs := (sys_pcs s)[i := pc]\<rparr>"

text \<open>\<^verbatim>\<open>pthread_cond_signal\<close>: of the threads that sleep, those in \<open>W\<close> are woken, and at least one if there is one.\<close>

fun wake_send :: "'m fq_pc \<Rightarrow> 'm fq_pc" where
  "wake_send (SendSleep m tmo) = SendWoken m" | "wake_send pc = pc"

fun wake_recv :: "'m fq_pc \<Rightarrow> 'm fq_pc" where
  "wake_recv (RecvSleep tmo) = RecvWoken" | "wake_recv pc = pc"

definition wake :: "('m fq_pc \<Rightarrow> 'm fq_pc) \<Rightarrow> nat set \<Rightarrow> 'm fq_sys \<Rightarrow> 'm fq_sys" where
  "wake f W s =
     s\<lparr>sys_pcs := map (\<lambda>j. if j \<in> W then f (sys_pcs s ! j) else sys_pcs s ! j) [0..<length (sys_pcs s)]\<rparr>"

definition signals :: "('m fq_pc \<Rightarrow> 'm fq_pc) \<Rightarrow> nat set \<Rightarrow> 'm fq_sys \<Rightarrow> bool" where
  "signals f W s \<longleftrightarrow>
     (\<exists>j<length (sys_pcs s). f (sys_pcs s ! j) \<noteq> sys_pcs s ! j) \<longrightarrow>
     (\<exists>j<length (sys_pcs s). j \<in> W \<and> f (sys_pcs s ! j) \<noteq> sys_pcs s ! j)"

text \<open>
  One step of thread \<open>i\<close>.  The two logs record what entered and what left the buffer.
\<close>

inductive fq_step :: "fq_env \<Rightarrow> 'm fq_sys \<Rightarrow> 'm fq_sys \<Rightarrow> bool" for env where
  send_call: "i < length (sys_pcs s) \<Longrightarrow> sys_pcs s ! i = Idle \<Longrightarrow> i \<in> env_senders env \<Longrightarrow>
     \<not> (fq_cnt (sys_q s) \<ge> fq_size (sys_q s) \<and> tmo < 0) \<Longrightarrow>
     fq_step env s (set_pc i (SendWait m tmo) s)"
| send_take: "i < length (sys_pcs s) \<Longrightarrow> sys_pcs s ! i = SendWait m tmo \<Longrightarrow>
     sys_sem_wait (fq_send_sem (sys_q s)) tmo = SemTaken c \<Longrightarrow>
     fq_step env s (set_pc i (SendPut m) (s\<lparr>sys_q := (sys_q s)\<lparr>fq_send_sem := c\<rparr>\<rparr>))"
| send_timeout: "i < length (sys_pcs s) \<Longrightarrow> sys_pcs s ! i = SendWait m tmo \<Longrightarrow> \<not> env_linux env \<Longrightarrow>
     sys_sem_wait (fq_send_sem (sys_q s)) tmo = SemTimeout \<Longrightarrow>
     fq_step env s (set_pc i Idle s)"
| send_sleep: "i < length (sys_pcs s) \<Longrightarrow> sys_pcs s ! i = SendWait m tmo \<Longrightarrow> env_linux env \<Longrightarrow>
     fq_send_sem (sys_q s) \<le> 0 \<Longrightarrow>
     fq_step env s (set_pc i (SendSleep m tmo) s)"
| send_expire: "i < length (sys_pcs s) \<Longrightarrow> sys_pcs s ! i = SendSleep m tmo \<Longrightarrow> tmo \<noteq> 0 \<Longrightarrow>
     fq_step env s (set_pc i Idle s)"
| send_spurious: "i < length (sys_pcs s) \<Longrightarrow> sys_pcs s ! i = SendSleep m tmo \<Longrightarrow> env_spurious env \<Longrightarrow>
     fq_step env s (set_pc i (SendWoken m) s)"
| send_woken: "i < length (sys_pcs s) \<Longrightarrow> sys_pcs s ! i = SendWoken m \<Longrightarrow>
     fq_step env s (set_pc i (SendPut m) (s\<lparr>sys_q := (sys_q s)\<lparr>fq_send_sem := fq_send_sem (sys_q s) - 1\<rparr>\<rparr>))"
| send_put: "i < length (sys_pcs s) \<Longrightarrow> sys_pcs s ! i = SendPut m \<Longrightarrow>
     fq_put (sys_q s) m = Some q \<Longrightarrow>
     fq_step env s (set_pc i SendNotify (s\<lparr>sys_q := q, sys_put_log := sys_put_log s @ [m]\<rparr>))"
| send_notify: "i < length (sys_pcs s) \<Longrightarrow> sys_pcs s ! i = SendNotify \<Longrightarrow> signals wake_recv W s \<Longrightarrow>
     fq_step env s (set_pc i Idle (wake wake_recv W
       (s\<lparr>sys_q := (sys_q s)\<lparr>fq_recv_sem := sys_sem_notify (fq_recv_sem (sys_q s))\<rparr>\<rparr>)))"
| recv_call: "i < length (sys_pcs s) \<Longrightarrow> sys_pcs s ! i = Idle \<Longrightarrow> i \<in> env_receivers env \<Longrightarrow>
     \<not> (fq_cnt (sys_q s) = 0 \<and> tmo < 0) \<Longrightarrow>
     fq_step env s (set_pc i (RecvWait tmo) s)"
| recv_take: "i < length (sys_pcs s) \<Longrightarrow> sys_pcs s ! i = RecvWait tmo \<Longrightarrow>
     sys_sem_wait (fq_recv_sem (sys_q s)) tmo = SemTaken c \<Longrightarrow>
     fq_step env s (set_pc i RecvGet (s\<lparr>sys_q := (sys_q s)\<lparr>fq_recv_sem := c\<rparr>\<rparr>))"
| recv_timeout: "i < length (sys_pcs s) \<Longrightarrow> sys_pcs s ! i = RecvWait tmo \<Longrightarrow> \<not> env_linux env \<Longrightarrow>
     sys_sem_wait (fq_recv_sem (sys_q s)) tmo = SemTimeout \<Longrightarrow>
     fq_step env s (set_pc i Idle s)"
| recv_sleep: "i < length (sys_pcs s) \<Longrightarrow> sys_pcs s ! i = RecvWait tmo \<Longrightarrow> env_linux env \<Longrightarrow>
     fq_recv_sem (sys_q s) \<le> 0 \<Longrightarrow>
     fq_step env s (set_pc i (RecvSleep tmo) s)"
| recv_expire: "i < length (sys_pcs s) \<Longrightarrow> sys_pcs s ! i = RecvSleep tmo \<Longrightarrow> tmo \<noteq> 0 \<Longrightarrow>
     fq_step env s (set_pc i Idle s)"
| recv_spurious: "i < length (sys_pcs s) \<Longrightarrow> sys_pcs s ! i = RecvSleep tmo \<Longrightarrow> env_spurious env \<Longrightarrow>
     fq_step env s (set_pc i RecvWoken s)"
| recv_woken: "i < length (sys_pcs s) \<Longrightarrow> sys_pcs s ! i = RecvWoken \<Longrightarrow>
     fq_step env s (set_pc i RecvGet (s\<lparr>sys_q := (sys_q s)\<lparr>fq_recv_sem := fq_recv_sem (sys_q s) - 1\<rparr>\<rparr>))"
| recv_get: "i < length (sys_pcs s) \<Longrightarrow> sys_pcs s ! i = RecvGet \<Longrightarrow>
     fq_get (sys_q s) = Some (q, m) \<Longrightarrow>
     fq_step env s (set_pc i (RecvNotify m) (s\<lparr>sys_q := q, sys_got_log := sys_got_log s @ [m]\<rparr>))"
| recv_notify: "i < length (sys_pcs s) \<Longrightarrow> sys_pcs s ! i = RecvNotify m \<Longrightarrow> signals wake_send W s \<Longrightarrow>
     fq_step env s (set_pc i Idle (wake wake_send W
       (s\<lparr>sys_q := (sys_q s)\<lparr>fq_send_sem := sys_sem_notify (fq_send_sem (sys_q s))\<rparr>\<rparr>)))"

text \<open>The system starts with an initialised queue and all threads outside a call.\<close>

definition fq_start :: "'m list \<Rightarrow> nat \<Rightarrow> 'm fq_sys" where
  "fq_start buf threads =
     \<lparr>sys_q = \<lparr>fq_size = int (length buf), fq_buffer = buf, fq_in = 0, fq_out = 0, fq_cnt = 0,
               fq_recv_sem = 0, fq_send_sem = int (length buf)\<rparr>,
      sys_pcs = replicate threads Idle, sys_put_log = [], sys_got_log = []\<rparr>"

inductive fq_reachable :: "fq_env \<Rightarrow> 'm list \<Rightarrow> nat \<Rightarrow> 'm fq_sys \<Rightarrow> bool" for env buf threads where
  start: "fq_reachable env buf threads (fq_start buf threads)"
| step: "fq_reachable env buf threads s \<Longrightarrow> fq_step env s t \<Longrightarrow> fq_reachable env buf threads t"

text \<open>
  The systems in which the two semaphores count: every system of the Windows build, and of
  the Linux build those with one sending and one receiving thread (which may be the same)
  in which no thread is woken without a signal.
\<close>

definition counting :: "fq_env \<Rightarrow> bool" where
  "counting env \<longleftrightarrow> (env_linux env \<longrightarrow> \<not> env_spurious env \<and>
     (\<forall>i\<in>env_senders env. \<forall>j\<in>env_senders env. i = j) \<and> (\<forall>i\<in>env_receivers env. \<forall>j\<in>env_receivers env. i = j))"

text \<open>How many threads stand at a kind of point.\<close>

definition at_pc :: "('m fq_pc \<Rightarrow> bool) \<Rightarrow> 'm fq_sys \<Rightarrow> int" where
  "at_pc P s = int (length (filter P (sys_pcs s)))"

fun is_SendPut :: "'m fq_pc \<Rightarrow> bool" where
  "is_SendPut (SendPut m) = True" | "is_SendPut _ = False"

fun is_SendNotify :: "'m fq_pc \<Rightarrow> bool" where
  "is_SendNotify SendNotify = True" | "is_SendNotify _ = False"

fun is_RecvGet :: "'m fq_pc \<Rightarrow> bool" where
  "is_RecvGet RecvGet = True" | "is_RecvGet _ = False"

fun is_RecvNotify :: "'m fq_pc \<Rightarrow> bool" where
  "is_RecvNotify (RecvNotify m) = True" | "is_RecvNotify _ = False"

fun is_SendSleep :: "'m fq_pc \<Rightarrow> bool" where
  "is_SendSleep (SendSleep m tmo) = True" | "is_SendSleep _ = False"

fun is_RecvSleep :: "'m fq_pc \<Rightarrow> bool" where
  "is_RecvSleep (RecvSleep tmo) = True" | "is_RecvSleep _ = False"

text \<open>
  The invariant: every slot of the buffer is accounted for, either as a unit of the send
  semaphore, or by a thread between its wait and its critical section, or as a stored
  message, or by a thread that has taken a message and not yet notified; likewise every
  stored message on the receiving side.
\<close>

definition fq_inv :: "'m fq_sys \<Rightarrow> bool" where
  "fq_inv s \<longleftrightarrow>
     fq_ring_ok (sys_q s) \<and> 0 \<le> fq_send_sem (sys_q s) \<and> 0 \<le> fq_recv_sem (sys_q s) \<and>
     fq_send_sem (sys_q s) + at_pc is_SendPut s + fq_cnt (sys_q s) + at_pc is_RecvNotify s
       = fq_size (sys_q s) \<and>
     fq_recv_sem (sys_q s) + at_pc is_RecvGet s + at_pc is_SendNotify s = fq_cnt (sys_q s) \<and>
     sys_put_log s = sys_got_log s @ fq_seq (sys_q s)"

text \<open>A thread that sleeps finds no unit, a woken one finds one; the threads keep to their sides.\<close>

fun pc_ok :: "fq_env \<Rightarrow> int \<Rightarrow> int \<Rightarrow> nat \<Rightarrow> 'm fq_pc \<Rightarrow> bool" where
  "pc_ok env ssem rsem i (SendWait m tmo) \<longleftrightarrow> i \<in> env_senders env"
| "pc_ok env ssem rsem i (SendSleep m tmo) \<longleftrightarrow> i \<in> env_senders env \<and> env_linux env \<and> ssem = 0"
| "pc_ok env ssem rsem i (SendWoken m) \<longleftrightarrow> i \<in> env_senders env \<and> env_linux env \<and> 0 < ssem"
| "pc_ok env ssem rsem i (RecvWait tmo) \<longleftrightarrow> i \<in> env_receivers env"
| "pc_ok env ssem rsem i (RecvSleep tmo) \<longleftrightarrow> i \<in> env_receivers env \<and> env_linux env \<and> rsem = 0"
| "pc_ok env ssem rsem i RecvWoken \<longleftrightarrow> i \<in> env_receivers env \<and> env_linux env \<and> 0 < rsem"
| "pc_ok env ssem rsem i _ \<longleftrightarrow> True"

definition fq_waits_ok :: "fq_env \<Rightarrow> 'm fq_sys \<Rightarrow> bool" where
  "fq_waits_ok env s \<longleftrightarrow>
     (\<forall>i<length (sys_pcs s). pc_ok env (fq_send_sem (sys_q s)) (fq_recv_sem (sys_q s)) i (sys_pcs s ! i))"

lemma length_filter_update:
  assumes "i < length xs"
  shows "int (length (filter P (xs[i := v]))) =
         int (length (filter P xs)) - (if P (xs ! i) then 1 else 0) + (if P v then 1 else 0)"
proof -
  have xs: "xs = take i xs @ xs ! i # drop (Suc i) xs" using assms by (simp add: id_take_nth_drop)
  have "length (filter P xs) = length (filter P (take i xs)) + (if P (xs ! i) then 1 else 0)
          + length (filter P (drop (Suc i) xs))"
    by (subst xs) (simp del: append_take_drop_id)
  moreover have "length (filter P (xs[i := v])) =
     length (filter P (take i xs)) + (if P v then 1 else 0) + length (filter P (drop (Suc i) xs))"
    using assms by (simp add: upd_conv_take_nth_drop)
  ultimately show ?thesis by simp
qed

lemma at_pc_set_pc:
  "i < length (sys_pcs s) \<Longrightarrow>
   at_pc P (set_pc i pc s) =
     at_pc P s - (if P (sys_pcs s ! i) then 1 else 0) + (if P pc then 1 else 0)"
  by (simp add: at_pc_def set_pc_def length_filter_update)

lemma at_pc_other [simp]:
  "at_pc P (s\<lparr>sys_q := q\<rparr>) = at_pc P s" "at_pc P (s\<lparr>sys_put_log := l\<rparr>) = at_pc P s"
  "at_pc P (s\<lparr>sys_got_log := l\<rparr>) = at_pc P s"
  by (simp_all add: at_pc_def)

lemma set_pc_fields [simp]:
  "sys_q (set_pc i pc s) = sys_q s" "sys_put_log (set_pc i pc s) = sys_put_log s"
  "sys_got_log (set_pc i pc s) = sys_got_log s" "length (sys_pcs (set_pc i pc s)) = length (sys_pcs s)"
  "j < length (sys_pcs s) \<Longrightarrow> sys_pcs (set_pc i pc s) ! j = (if j = i then pc else sys_pcs s ! j)"
  by (simp_all add: set_pc_def)

lemma wake_fields [simp]:
  "sys_q (wake f W s) = sys_q s" "sys_put_log (wake f W s) = sys_put_log s"
  "sys_got_log (wake f W s) = sys_got_log s" "length (sys_pcs (wake f W s)) = length (sys_pcs s)"
  "j < length (sys_pcs s) \<Longrightarrow> sys_pcs (wake f W s) ! j = (if j \<in> W then f (sys_pcs s ! j) else sys_pcs s ! j)"
  by (simp_all add: wake_def)

text \<open>A kind of point that waking keeps is counted as before.\<close>

lemma at_pc_wake:
  assumes "\<And>pc. P (f pc) = P pc"
  shows "at_pc P (wake f W s) = at_pc P s"
proof -
  let ?xs = "sys_pcs s"
  have "filter P ?xs = filter P (map (nth ?xs) [0..<length ?xs])" by (simp only: map_nth)
  then have "length (filter P ?xs) = length (filter (\<lambda>j. P (?xs ! j)) [0..<length ?xs])"
    by (simp only: filter_map length_map comp_def)
  moreover have "(\<lambda>j. P (if j \<in> W then f (?xs ! j) else ?xs ! j)) = (\<lambda>j. P (?xs ! j))" using assms by auto
  ultimately show ?thesis by (simp add: at_pc_def wake_def filter_map comp_def)
qed

lemma wake_kinds [simp]:
  "is_SendPut (wake_send pc) = is_SendPut pc" "is_SendNotify (wake_send pc) = is_SendNotify pc"
  "is_RecvGet (wake_send pc) = is_RecvGet pc" "is_RecvNotify (wake_send pc) = is_RecvNotify pc"
  "is_SendPut (wake_recv pc) = is_SendPut pc" "is_SendNotify (wake_recv pc) = is_SendNotify pc"
  "is_RecvGet (wake_recv pc) = is_RecvGet pc" "is_RecvNotify (wake_recv pc) = is_RecvNotify pc"
  by (cases pc; simp)+

lemma wake_changes:
  "wake_send pc \<noteq> pc \<longleftrightarrow> is_SendSleep pc" "wake_recv pc \<noteq> pc \<longleftrightarrow> is_RecvSleep pc"
  by (cases pc; simp)+

lemma at_pc_pos: "i < length (sys_pcs s) \<Longrightarrow> P (sys_pcs s ! i) \<Longrightarrow> 0 < at_pc P s"
  by (auto simp: at_pc_def filter_empty_conv)

lemma at_pc_nonneg: "0 \<le> at_pc P s"
  by (simp add: at_pc_def)

text \<open>A thread about to store finds a free slot, a thread about to fetch a message.\<close>

lemma fq_inv_room:
  "fq_inv s \<Longrightarrow> i < length (sys_pcs s) \<Longrightarrow> sys_pcs s ! i = SendPut m \<Longrightarrow> fq_cnt (sys_q s) < fq_size (sys_q s)"
  using at_pc_pos [of i s is_SendPut] at_pc_nonneg [of is_RecvNotify s] by (simp add: fq_inv_def)

lemma fq_inv_message:
  "fq_inv s \<Longrightarrow> i < length (sys_pcs s) \<Longrightarrow> sys_pcs s ! i = RecvGet \<Longrightarrow> 0 < fq_cnt (sys_q s)"
  using at_pc_pos [of i s is_RecvGet] at_pc_nonneg [of is_SendNotify s] by (simp add: fq_inv_def)

lemmas fq_count_simps = at_pc_set_pc at_pc_wake sys_sem_wait_def sys_sem_notify_def

lemma fq_waits_pc: "fq_waits_ok env s \<Longrightarrow> i < length (sys_pcs s) \<Longrightarrow> pc_ok env (fq_send_sem (sys_q s)) (fq_recv_sem (sys_q s)) i (sys_pcs s ! i)"
  by (simp add: fq_waits_ok_def)

lemma fq_step_inv: "fq_step env s t \<Longrightarrow> fq_inv s \<Longrightarrow> fq_waits_ok env s \<Longrightarrow> fq_inv t"
proof (induction rule: fq_step.induct)
  case (send_put i s m q)
  from fq_put_spec [OF _ fq_inv_room [OF send_put(4,1,2)], of m] send_put show ?case
    by (auto simp: fq_inv_def at_pc_set_pc)
next
  case (recv_get i s q m)
  from fq_get_spec [OF _ fq_inv_message [OF recv_get(4,1,2)]] recv_get show ?case
    by (auto simp: fq_inv_def at_pc_set_pc)
next
  case (send_woken i s m)
  from fq_waits_pc [OF send_woken(4,1)] send_woken show ?case by (simp add: fq_inv_def at_pc_set_pc)
next
  case (recv_woken i s)
  from fq_waits_pc [OF recv_woken(4,1)] recv_woken show ?case by (simp add: fq_inv_def at_pc_set_pc)
qed (auto simp: fq_inv_def fq_count_simps split: if_splits)

text \<open>The other threads' conditions survive a change of one semaphore that they do not wait for.\<close>

lemma pc_ok_other_send:
  "counting env \<Longrightarrow> i \<in> env_senders env \<Longrightarrow> j \<noteq> i \<Longrightarrow> pc_ok env ssem rsem j pc \<Longrightarrow> pc_ok env ssem' rsem j pc"
  by (cases pc) (auto simp: counting_def)

lemma pc_ok_other_recv:
  "counting env \<Longrightarrow> i \<in> env_receivers env \<Longrightarrow> j \<noteq> i \<Longrightarrow> pc_ok env ssem rsem j pc \<Longrightarrow> pc_ok env ssem rsem' j pc"
  by (cases pc) (auto simp: counting_def)

text \<open>A notification wakes the one thread that may sleep.\<close>

lemma pc_ok_notify_send:
  assumes "counting env" "fq_waits_ok env s" "signals wake_send W s" "j < length (sys_pcs s)" "0 \<le> fq_send_sem (sys_q s)"
  shows "pc_ok env (fq_send_sem (sys_q s) + 1) (fq_recv_sem (sys_q s)) j (sys_pcs (wake wake_send W s) ! j)"
proof (cases "is_SendSleep (sys_pcs s ! j)")
  case True
  then obtain m tmo where pc: "sys_pcs s ! j = SendSleep m tmo" by (cases "sys_pcs s ! j") auto
  from True assms(3,4) obtain k where k: "k < length (sys_pcs s)" "k \<in> W" "is_SendSleep (sys_pcs s ! k)"
    unfolding signals_def wake_changes by blast
  from fq_waits_pc [OF assms(2,4)] fq_waits_pc [OF assms(2) k(1)] k(3) pc assms(1) have "k = j"
    by (cases "sys_pcs s ! k") (auto simp: counting_def)
  with k(2) pc fq_waits_pc [OF assms(2,4)] assms(4,5) show ?thesis by simp
next
  case False
  with fq_waits_pc [OF assms(2,4)] assms(4,5) show ?thesis by (cases "sys_pcs s ! j") auto
qed

lemma pc_ok_notify_recv:
  assumes "counting env" "fq_waits_ok env s" "signals wake_recv W s" "j < length (sys_pcs s)" "0 \<le> fq_recv_sem (sys_q s)"
  shows "pc_ok env (fq_send_sem (sys_q s)) (fq_recv_sem (sys_q s) + 1) j (sys_pcs (wake wake_recv W s) ! j)"
proof (cases "is_RecvSleep (sys_pcs s ! j)")
  case True
  then obtain tmo where pc: "sys_pcs s ! j = RecvSleep tmo" by (cases "sys_pcs s ! j") auto
  from True assms(3,4) obtain k where k: "k < length (sys_pcs s)" "k \<in> W" "is_RecvSleep (sys_pcs s ! k)"
    unfolding signals_def wake_changes by blast
  from fq_waits_pc [OF assms(2,4)] fq_waits_pc [OF assms(2) k(1)] k(3) pc assms(1) have "k = j"
    by (cases "sys_pcs s ! k") (auto simp: counting_def)
  with k(2) pc fq_waits_pc [OF assms(2,4)] assms(4,5) show ?thesis by simp
next
  case False
  with fq_waits_pc [OF assms(2,4)] assms(4,5) show ?thesis by (cases "sys_pcs s ! j") auto
qed

lemma wake_q: "sys_pcs (wake f W (s\<lparr>sys_q := q\<rparr>)) = sys_pcs (wake f W s)"
  by (simp add: wake_def)

lemma fq_put_sems: "fq_put q m = Some q' \<Longrightarrow> fq_send_sem q' = fq_send_sem q \<and> fq_recv_sem q' = fq_recv_sem q \<and> fq_size q' = fq_size q"
  by (auto simp: fq_put_def split: if_splits)

lemma fq_get_sems: "fq_get q = Some (q', m) \<Longrightarrow> fq_send_sem q' = fq_send_sem q \<and> fq_recv_sem q' = fq_recv_sem q \<and> fq_size q' = fq_size q"
  by (auto simp: fq_get_def split: if_splits)

lemma fq_step_waits:
  assumes "fq_step env s t" "counting env" "fq_inv s" "fq_waits_ok env s"
  shows "fq_waits_ok env t"
  using assms
proof (induction rule: fq_step.induct)
  case (send_take i s m tmo c)
  from fq_waits_pc [OF send_take(6,1)] send_take(2) have "i \<in> env_senders env" by simp
  with send_take show ?case by (auto simp: fq_waits_ok_def intro: pc_ok_other_send)
next
  case (send_woken i s m)
  from fq_waits_pc [OF send_woken(5,1)] send_woken(2) have "i \<in> env_senders env" by simp
  with send_woken show ?case by (auto simp: fq_waits_ok_def intro: pc_ok_other_send)
next
  case (recv_take i s tmo c)
  from fq_waits_pc [OF recv_take(6,1)] recv_take(2) have "i \<in> env_receivers env" by simp
  with recv_take show ?case by (auto simp: fq_waits_ok_def intro: pc_ok_other_recv)
next
  case (recv_woken i s)
  from fq_waits_pc [OF recv_woken(5,1)] recv_woken(2) have "i \<in> env_receivers env" by simp
  with recv_woken show ?case by (auto simp: fq_waits_ok_def intro: pc_ok_other_recv)
next
  case (send_notify i s W)
  then have "0 \<le> fq_recv_sem (sys_q s)" by (simp add: fq_inv_def)
  with pc_ok_notify_recv [OF send_notify(4,6,3)] show ?case by (simp add: fq_waits_ok_def sys_sem_notify_def wake_q del: wake_fields(5))
next
  case (recv_notify i s m W)
  then have "0 \<le> fq_send_sem (sys_q s)" by (simp add: fq_inv_def)
  with pc_ok_notify_send [OF recv_notify(4,6,3)] show ?case by (simp add: fq_waits_ok_def sys_sem_notify_def wake_q del: wake_fields(5))
next
  case (send_sleep i s m tmo)
  from fq_waits_pc [OF send_sleep(7,1)] send_sleep show ?case by (auto simp: fq_waits_ok_def fq_inv_def)
next
  case (recv_sleep i s tmo)
  from fq_waits_pc [OF recv_sleep(7,1)] recv_sleep show ?case by (auto simp: fq_waits_ok_def fq_inv_def)
next
  case (send_spurious i s m tmo)
  from fq_waits_pc [OF send_spurious(6,1)] send_spurious show ?case by (auto simp: counting_def)
next
  case (recv_spurious i s tmo)
  from fq_waits_pc [OF recv_spurious(6,1)] recv_spurious show ?case by (auto simp: counting_def)
qed (auto simp: fq_waits_ok_def dest!: fq_put_sems fq_get_sems)

lemma fq_start_inv: "buf \<noteq> [] \<Longrightarrow> fq_inv (fq_start buf threads) \<and> fq_waits_ok env (fq_start buf threads)"
  by (simp add: fq_inv_def fq_start_def at_pc_def fq_ring_ok_def ring_ok_def fq_seq_def fq_waits_ok_def)

lemma fq_reachable_ok:
  "fq_reachable env buf threads s \<Longrightarrow> buf \<noteq> [] \<Longrightarrow> counting env \<Longrightarrow> fq_inv s \<and> fq_waits_ok env s"
  by (induction rule: fq_reachable.induct) (auto simp: fq_start_inv intro: fq_step_inv fq_step_waits)

lemma fq_step_size: "fq_step env s t \<Longrightarrow> fq_size (sys_q t) = fq_size (sys_q s)"
  by (induction rule: fq_step.induct) (auto dest: fq_put_sems fq_get_sems)

lemma fq_reachable_size: "fq_reachable env buf threads s \<Longrightarrow> fq_size (sys_q s) = int (length buf)"
  by (induction rule: fq_reachable.induct) (auto simp: fq_start_def fq_step_size)

text \<open>A thread past its semaphore can always take its next step.\<close>

lemma put_enabled:
  assumes "fq_inv s" "i < length (sys_pcs s)" "sys_pcs s ! i = SendPut m"
  shows "\<exists>t. fq_step env s t \<and> sys_pcs t ! i = SendNotify"
proof -
  have "fq_cnt (sys_q s) < fq_size (sys_q s)" using assms by (rule fq_inv_room)
  with assms(1) fq_put_spec [of "sys_q s" m] obtain q where "fq_put (sys_q s) m = Some q"
    by (auto simp: fq_inv_def)
  from fq_step.send_put [OF assms(2,3) this] assms(2) show ?thesis by (intro exI conjI) auto
qed

lemma get_enabled:
  assumes "fq_inv s" "i < length (sys_pcs s)" "sys_pcs s ! i = RecvGet"
  shows "\<exists>t. fq_step env s t \<and> is_RecvNotify (sys_pcs t ! i)"
proof -
  have "0 < fq_cnt (sys_q s)" using assms by (rule fq_inv_message)
  with assms(1) fq_get_spec [of "sys_q s"] obtain q m where "fq_get (sys_q s) = Some (q, m)"
    by (auto simp: fq_inv_def)
  from fq_step.recv_get [OF assms(2,3) this] assms(2) show ?thesis by (intro exI conjI) auto
qed

lemma wake_all: "\<not> is_RecvSleep (wake_recv pc)" "\<not> is_SendSleep (wake_send pc)"
  by (cases pc; simp)+

lemma signals_all: "signals f UNIV s"
  by (simp add: signals_def)

lemma send_notify_enabled:
  assumes "j < length (sys_pcs s)" "sys_pcs s ! j = SendNotify" "i < length (sys_pcs s)" "j \<noteq> i"
  shows "\<exists>t. fq_step env s t \<and> sys_pcs t ! j = Idle \<and> \<not> is_RecvSleep (sys_pcs t ! i) \<and> fq_recv_sem (sys_q t) = fq_recv_sem (sys_q s) + 1"
  using fq_step.send_notify [OF assms(1,2) signals_all, of env] assms
  by (intro exI conjI) (assumption, auto simp: sys_sem_notify_def wake_all)

lemma recv_notify_enabled:
  assumes "j < length (sys_pcs s)" "sys_pcs s ! j = RecvNotify m" "i < length (sys_pcs s)" "j \<noteq> i"
  shows "\<exists>t. fq_step env s t \<and> sys_pcs t ! j = Idle \<and> \<not> is_SendSleep (sys_pcs t ! i) \<and> fq_send_sem (sys_q t) = fq_send_sem (sys_q s) + 1"
  using fq_step.recv_notify [OF assms(1,2) signals_all, of env] assms
  by (intro exI conjI) (assumption, auto simp: sys_sem_notify_def wake_all)

lemma at_pc_posD:
  assumes "0 < at_pc P s"
  obtains i where "i < length (sys_pcs s)" "P (sys_pcs s ! i)"
  using assms by (auto simp: at_pc_def filter_empty_conv in_set_conv_nth)

text \<open>At the semaphore, in one of the forms the wait has.\<close>

fun sending_waits :: "'m \<Rightarrow> 'm fq_pc \<Rightarrow> bool" where
  "sending_waits m (SendWait m' tmo) \<longleftrightarrow> m' = m" | "sending_waits m (SendSleep m' tmo) \<longleftrightarrow> m' = m"
| "sending_waits m (SendWoken m') \<longleftrightarrow> m' = m" | "sending_waits m _ \<longleftrightarrow> False"

fun receiving_waits :: "'m fq_pc \<Rightarrow> bool" where
  "receiving_waits (RecvWait tmo) = True" | "receiving_waits (RecvSleep tmo) = True"
| "receiving_waits RecvWoken = True" | "receiving_waits _ = False"

lemma recv_unit_taken:
  assumes "fq_waits_ok env s" "i < length (sys_pcs s)" "receiving_waits (sys_pcs s ! i)" "0 < fq_recv_sem (sys_q s)"
  shows "\<exists>t. fq_step env s t \<and> sys_pcs t = (sys_pcs s)[i := RecvGet]"
proof (cases "sys_pcs s ! i")
  case (RecvWait tmo)
  have "sys_sem_wait (fq_recv_sem (sys_q s)) tmo = SemTaken (fq_recv_sem (sys_q s) - 1)" using assms(4) by (simp add: sys_sem_wait_def)
  from fq_step.recv_take [OF assms(2) RecvWait this] show ?thesis by (intro exI conjI) (auto simp: set_pc_def)
next
  case RecvWoken
  from fq_step.recv_woken [OF assms(2) this] show ?thesis by (intro exI conjI) (auto simp: set_pc_def)
qed (use assms fq_waits_pc [OF assms(1,2)] in auto)

lemma send_unit_taken:
  assumes "fq_waits_ok env s" "i < length (sys_pcs s)" "sending_waits m (sys_pcs s ! i)" "0 < fq_send_sem (sys_q s)"
  shows "\<exists>t. fq_step env s t \<and> sys_pcs t = (sys_pcs s)[i := SendPut m]"
proof (cases "sys_pcs s ! i")
  case (SendWait m' tmo)
  have "sys_sem_wait (fq_send_sem (sys_q s)) tmo = SemTaken (fq_send_sem (sys_q s) - 1)" using assms(4) by (simp add: sys_sem_wait_def)
  from fq_step.send_take [OF assms(2) SendWait this] SendWait assms(3) show ?thesis by (intro exI conjI) (auto simp: set_pc_def)
next
  case (SendWoken m')
  from fq_step.send_woken [OF assms(2) this] SendWoken assms(3) show ?thesis by (intro exI conjI) (auto simp: set_pc_def)
qed (use assms fq_waits_pc [OF assms(1,2)] in auto)

section \<open>Properties\<close>

text \<open>C3. Whatever the interleaving of the sending and receiving threads, the messages that entered the queue are, in order,
  those that left it followed by those stored: nothing is lost, duplicated, overwritten or reordered, and the number stored
  never exceeds the capacity. This holds on Windows for any number of threads, and on Linux for one sending and one receiving
  thread as long as no thread is woken without a signal.\<close>

theorem fixed_queue_fifo:
  assumes "fq_reachable env buf threads s" "buf \<noteq> []" "counting env"
  shows "sys_put_log s = sys_got_log s @ fq_seq (sys_q s) \<and>
         fq_cnt (sys_q s) = int (length (fq_seq (sys_q s))) \<and>
         fixed_queue_count (sys_q s) \<le> int (length buf)"
proof -
  from fq_reachable_ok [OF assms] have inv: "fq_ring_ok (sys_q s)"
    "sys_put_log s = sys_got_log s @ fq_seq (sys_q s)" by (simp_all add: fq_inv_def)
  moreover from inv(1) have "fq_cnt (sys_q s) \<le> fq_size (sys_q s)"
    by (simp add: fq_ring_ok_def ring_ok_def)
  ultimately show ?thesis
    using fq_reachable_size [OF assms(1)] by (simp add: fixed_queue_count_def fq_seq_length)
qed

definition pair_env :: fq_env where
  "pair_env = \<lparr>env_linux = True, env_spurious = False, env_senders = {0}, env_receivers = {1}\<rparr>"

lemma pair_env_counting: "counting pair_env"
  by (simp add: counting_def pair_env_def)

lemma sample_waiting:
  "fq_reachable pair_env [0 :: nat] 2 (set_pc 0 (SendWait 5 0) (fq_start [0] 2))"
  by (rule fq_reachable.step [OF fq_reachable.start], rule fq_step.send_call)
     (simp_all add: fq_start_def pair_env_def)

theorem fixed_queue_fifo_witness:
  "fixed_queue_count (sys_q (set_pc 0 (SendWait 5 0) (fq_start [0 :: nat] 2))) \<le> 1"
  using fixed_queue_fifo [OF sample_waiting _ pair_env_counting] by simp

text \<open>C22. No wake-up is lost, on Windows with any number of threads and on Linux with one sender and one receiver and no wake-up
  without a signal. When a receiver waits, in whatever form, while a message is stored, either its next step takes it past the
  semaphore, or another thread has stored a message and its next step notifies the semaphore and leaves the receiver awake, or
  another receiver is past the semaphore and its next step fetches a message. When a sender waits while a slot is free, the
  same holds with the roles exchanged.\<close>

theorem fixed_queue_no_lost_wakeup:
  assumes "fq_reachable env buf threads s" "buf \<noteq> []" "counting env" "i < length (sys_pcs s)"
  shows "(receiving_waits (sys_pcs s ! i) \<and> 0 < fq_cnt (sys_q s) \<longrightarrow>
       (\<exists>t. fq_step env s t \<and> sys_pcs t = (sys_pcs s)[i := RecvGet]) \<or>
       (\<exists>j t. j < length (sys_pcs s) \<and> j \<noteq> i \<and> fq_step env s t \<and>
          (sys_pcs s ! j = SendNotify \<and> sys_pcs t ! j = Idle \<and> \<not> is_RecvSleep (sys_pcs t ! i) \<and>
             fq_recv_sem (sys_q t) = fq_recv_sem (sys_q s) + 1 \<or>
           sys_pcs s ! j = RecvGet \<and> is_RecvNotify (sys_pcs t ! j)))) \<and>
    (sending_waits m (sys_pcs s ! i) \<and> fq_cnt (sys_q s) < fq_size (sys_q s) \<longrightarrow>
       (\<exists>t. fq_step env s t \<and> sys_pcs t = (sys_pcs s)[i := SendPut m]) \<or>
       (\<exists>j t. j < length (sys_pcs s) \<and> j \<noteq> i \<and> fq_step env s t \<and>
          (is_RecvNotify (sys_pcs s ! j) \<and> sys_pcs t ! j = Idle \<and> \<not> is_SendSleep (sys_pcs t ! i) \<and>
             fq_send_sem (sys_q t) = fq_send_sem (sys_q s) + 1 \<or>
           is_SendPut (sys_pcs s ! j) \<and> sys_pcs t ! j = SendNotify)))"
proof (intro conjI impI)
  from fq_reachable_ok [OF assms(1-3)] have inv: "fq_inv s" and ok: "fq_waits_ok env s" by simp_all
  {
    assume w: "receiving_waits (sys_pcs s ! i) \<and> 0 < fq_cnt (sys_q s)"
    then have "0 < fq_recv_sem (sys_q s) \<or> 0 < at_pc is_SendNotify s \<or> 0 < at_pc is_RecvGet s"
      using inv at_pc_nonneg [of is_SendNotify s] at_pc_nonneg [of is_RecvGet s] by (auto simp: fq_inv_def)
    then consider "0 < fq_recv_sem (sys_q s)"
      | j where "j < length (sys_pcs s)" "sys_pcs s ! j = SendNotify" | j where "j < length (sys_pcs s)" "sys_pcs s ! j = RecvGet"
      by (metis at_pc_posD is_SendNotify.elims(2) is_RecvGet.elims(2))
    then show "(\<exists>t. fq_step env s t \<and> sys_pcs t = (sys_pcs s)[i := RecvGet]) \<or>
       (\<exists>j t. j < length (sys_pcs s) \<and> j \<noteq> i \<and> fq_step env s t \<and>
          (sys_pcs s ! j = SendNotify \<and> sys_pcs t ! j = Idle \<and> \<not> is_RecvSleep (sys_pcs t ! i) \<and>
             fq_recv_sem (sys_q t) = fq_recv_sem (sys_q s) + 1 \<or>
           sys_pcs s ! j = RecvGet \<and> is_RecvNotify (sys_pcs t ! j)))"
    proof cases
      case 1
      with recv_unit_taken [OF ok assms(4)] w show ?thesis by blast
    next
      case (2 j)
      with w have "j \<noteq> i" by auto
      with send_notify_enabled [OF 2 assms(4)] 2 show ?thesis by blast
    next
      case (3 j)
      with w have "j \<noteq> i" by auto
      with get_enabled [OF inv 3] 3 show ?thesis by blast
    qed
  next
    assume w: "sending_waits m (sys_pcs s ! i) \<and> fq_cnt (sys_q s) < fq_size (sys_q s)"
    then have "0 < fq_send_sem (sys_q s) \<or> 0 < at_pc is_RecvNotify s \<or> 0 < at_pc is_SendPut s"
      using inv at_pc_nonneg [of is_RecvNotify s] at_pc_nonneg [of is_SendPut s] by (auto simp: fq_inv_def)
    then consider "0 < fq_send_sem (sys_q s)"
      | j m' where "j < length (sys_pcs s)" "sys_pcs s ! j = RecvNotify m'" | j m' where "j < length (sys_pcs s)" "sys_pcs s ! j = SendPut m'"
      by (metis at_pc_posD is_RecvNotify.elims(2) is_SendPut.elims(2))
    then show "(\<exists>t. fq_step env s t \<and> sys_pcs t = (sys_pcs s)[i := SendPut m]) \<or>
       (\<exists>j t. j < length (sys_pcs s) \<and> j \<noteq> i \<and> fq_step env s t \<and>
          (is_RecvNotify (sys_pcs s ! j) \<and> sys_pcs t ! j = Idle \<and> \<not> is_SendSleep (sys_pcs t ! i) \<and>
             fq_send_sem (sys_q t) = fq_send_sem (sys_q s) + 1 \<or>
           is_SendPut (sys_pcs s ! j) \<and> sys_pcs t ! j = SendNotify))"
    proof cases
      case 1
      with send_unit_taken [OF ok assms(4)] w show ?thesis by blast
    next
      case (2 j m')
      with w have "j \<noteq> i" by auto
      with recv_notify_enabled [OF 2 assms(4)] 2 show ?thesis by (metis is_RecvNotify.simps(1))
    next
      case (3 j m')
      with w have "j \<noteq> i" by auto
      with put_enabled [OF inv 3] 3 show ?thesis by (metis is_SendPut.simps(1))
    qed
  }
qed

theorem fixed_queue_no_lost_wakeup_witness:
  "\<exists>t. fq_step pair_env (set_pc 0 (SendWait 5 0) (fq_start [0 :: nat] 2)) t"
proof -
  let ?s = "set_pc 0 (SendWait 5 0) (fq_start [0 :: nat] 2)"
  have "sending_waits 5 (sys_pcs ?s ! 0) \<and> fq_cnt (sys_q ?s) < fq_size (sys_q ?s)" "0 < length (sys_pcs ?s)"
    by (simp_all add: fq_start_def)
  then show ?thesis
    using fixed_queue_no_lost_wakeup [OF sample_waiting _ pair_env_counting, of 0 5] by blast
qed

section \<open>Two senders on Linux\<close>

text \<open>
  With two sending threads the Linux semaphore lets both pass for one free slot: thread 0
  sleeps on the full queue, thread 2 takes the message out and wakes it, thread 1 takes the
  unit before thread 0 runs again, and thread 0, which does not test the counter again,
  overwrites the message of thread 1.
\<close>

definition crowd_env :: fq_env where
  "crowd_env = \<lparr>env_linux = True, env_spurious = False, env_senders = {0, 1}, env_receivers = {2}\<rparr>"

definition slot1 :: "nat \<Rightarrow> int \<Rightarrow> int \<Rightarrow> int \<Rightarrow> nat fixed_queue_t" where
  "slot1 m cnt rsem ssem = \<lparr>fq_size = 1, fq_buffer = [m], fq_in = 0, fq_out = 0, fq_cnt = cnt, fq_recv_sem = rsem, fq_send_sem = ssem\<rparr>"

abbreviation (input) crowd :: "nat fixed_queue_t \<Rightarrow> nat fq_pc list \<Rightarrow> nat list \<Rightarrow> nat list \<Rightarrow> bool" where
  "crowd q pcs puts gots \<equiv> fq_reachable crowd_env [0] 3 \<lparr>sys_q = q, sys_pcs = pcs, sys_put_log = puts, sys_got_log = gots\<rparr>"

lemma crowd_step:
  "fq_reachable crowd_env [0] 3 s \<Longrightarrow> fq_step crowd_env s t \<Longrightarrow> t' = t \<Longrightarrow> fq_reachable crowd_env [0] 3 t'"
  by (simp add: fq_reachable.step)

lemmas crowd_simps = crowd_env_def slot1_def set_pc_def sys_sem_wait_def sys_sem_notify_def fq_put_def fq_get_def ring_next_def
  wake_def upt_rec [of 0] upt_rec [of "Suc 0"] upt_rec [of 2]

lemma crowd_full: "crowd (slot1 7 1 1 0) [Idle, Idle, Idle] [7] []"
proof -
  have "crowd (slot1 0 0 0 1) [Idle, Idle, Idle] [] []"
    using fq_reachable.start [of crowd_env "[0]" 3] by (simp add: fq_start_def slot1_def numeral_3_eq_3)
  from crowd_step [OF this fq_step.send_call [of 0 _ _ 0 7]]
  have "crowd (slot1 0 0 0 1) [SendWait 7 0, Idle, Idle] [] []" by (simp add: crowd_simps)
  from crowd_step [OF this fq_step.send_take [of 0 _ 7 0 0]]
  have "crowd (slot1 0 0 0 0) [SendPut 7, Idle, Idle] [] []" by (simp add: crowd_simps)
  from crowd_step [OF this fq_step.send_put [of 0 _ 7 "slot1 7 1 0 0"]]
  have "crowd (slot1 7 1 0 0) [SendNotify, Idle, Idle] [7] []" by (simp add: crowd_simps)
  from crowd_step [OF this fq_step.send_notify [OF _ _ signals_all, of 0]]
  show ?thesis by (simp add: crowd_simps)
qed

lemma crowd_woken: "crowd (slot1 7 0 0 1) [SendWoken 8, Idle, Idle] [7] [7]"
proof -
  from crowd_step [OF crowd_full fq_step.send_call [of 0 _ _ 0 8]]
  have "crowd (slot1 7 1 1 0) [SendWait 8 0, Idle, Idle] [7] []" by (simp add: crowd_simps)
  from crowd_step [OF this fq_step.send_sleep [of 0 _ 8 0]]
  have "crowd (slot1 7 1 1 0) [SendSleep 8 0, Idle, Idle] [7] []" by (simp add: crowd_simps)
  from crowd_step [OF this fq_step.recv_call [of 2 _ _ 0]]
  have "crowd (slot1 7 1 1 0) [SendSleep 8 0, Idle, RecvWait 0] [7] []" by (simp add: crowd_simps)
  from crowd_step [OF this fq_step.recv_take [of 2 _ 0 0]]
  have "crowd (slot1 7 1 0 0) [SendSleep 8 0, Idle, RecvGet] [7] []" by (simp add: crowd_simps)
  from crowd_step [OF this fq_step.recv_get [of 2 _ "slot1 7 0 0 0" 7]]
  have "crowd (slot1 7 0 0 0) [SendSleep 8 0, Idle, RecvNotify 7] [7] [7]" by (simp add: crowd_simps)
  from crowd_step [OF this fq_step.recv_notify [OF _ _ signals_all, of 2 _ 7]]
  show ?thesis by (simp add: crowd_simps)
qed

theorem fixed_queue_overfills:
  "\<exists>s :: nat fq_sys. fq_reachable crowd_env [0] 3 s \<and> \<not> env_spurious crowd_env \<and> fixed_queue_count (sys_q s) = 2 \<and>
     sys_put_log s = [7, 9, 8] \<and> sys_got_log s = [7] \<and> fq_buffer (sys_q s) = [8]"
proof -
  from crowd_step [OF crowd_woken fq_step.send_call [of 1 _ _ 0 9]]
  have "crowd (slot1 7 0 0 1) [SendWoken 8, SendWait 9 0, Idle] [7] [7]" by (simp add: crowd_simps)
  from crowd_step [OF this fq_step.send_take [of 1 _ 9 0 0]]
  have "crowd (slot1 7 0 0 0) [SendWoken 8, SendPut 9, Idle] [7] [7]" by (simp add: crowd_simps)
  from crowd_step [OF this fq_step.send_put [of 1 _ 9 "slot1 9 1 0 0"]]
  have "crowd (slot1 9 1 0 0) [SendWoken 8, SendNotify, Idle] [7, 9] [7]" by (simp add: crowd_simps)
  from crowd_step [OF this fq_step.send_woken [of 0 _ 8]]
  have "crowd (slot1 9 1 0 (- 1)) [SendPut 8, SendNotify, Idle] [7, 9] [7]" by (simp add: crowd_simps)
  from crowd_step [OF this fq_step.send_put [of 0 _ 8 "slot1 8 2 0 (- 1)"]]
  have "crowd (slot1 8 2 0 (- 1)) [SendNotify, SendNotify, Idle] [7, 9, 8] [7]" by (simp add: crowd_simps)
  then show ?thesis by (intro exI conjI) (assumption, simp_all add: slot1_def crowd_env_def fixed_queue_count_def)
qed

text \<open>What one thread stores with non-blocking sends up to the capacity, it receives
  back in the same order with non-blocking receives, and the queue is empty again.\<close>

theorem fixed_queue_roundtrip:
  assumes "fixed_queue_init True Some buf (int (length buf)) = (Some q, NET_OK)"
    "buf \<noteq> []" "length ms \<le> length buf"
  shows "\<exists>q1 q2. push_all fq_try_send ms q = Some q1 \<and> pop_n fq_try_recv (length ms) q1 = Some (q2, ms) \<and>
           fixed_queue_count q2 = 0"
proof -
  from assms have "fq_quiet q" "fq_seq q = []" "int (length ms) \<le> fq_size q"
    by (auto simp: fixed_queue_init_def fq_quiet_def fq_ring_ok_def ring_ok_def fq_seq_def)
  from fq.fifo_roundtrip [OF this] obtain q1 q2
    where r: "push_all fq_try_send ms q = Some q1" "pop_n fq_try_recv (length ms) q1 = Some (q2, ms)"
      and e: "fq_quiet q2" "fq_seq q2 = []" by blast
  from e have "fixed_queue_count q2 = 0"
    using fq_seq_length [of q2] by (simp add: fq_quiet_def fixed_queue_count_def)
  with r show ?thesis by blast
qed

theorem fixed_queue_roundtrip_witness:
  "\<exists>q q1 q2. fixed_queue_init True Some [0, 0 :: nat] 2 = (Some q, NET_OK) \<and>
     push_all fq_try_send [7, 8] q = Some q1 \<and> pop_n fq_try_recv 2 q1 = Some (q2, [7, 8])"
proof -
  let ?q = "\<lparr>fq_size = 2, fq_buffer = [0, 0 :: nat], fq_in = 0, fq_out = 0, fq_cnt = 0, fq_recv_sem = 0, fq_send_sem = 2\<rparr>"
  have "fixed_queue_init True Some [0, 0] (int (length [0, 0 :: nat])) = (Some ?q, NET_OK)"
    by (simp add: fixed_queue_init_def)
  moreover from fixed_queue_roundtrip [OF this, of "[7, 8]"]
  have "\<exists>q1 q2. push_all fq_try_send [7, 8] ?q = Some q1 \<and> pop_n fq_try_recv 2 q1 = Some (q2, [7, 8])"
    by (simp add: numeral_2_eq_2) blast
  ultimately show ?thesis by auto
qed

end
