(* ===== verification/Net_Utils.thy ===== *)
theory Net_Utils
  imports Net_Prelude
begin

text \<open>
  \<^verbatim>\<open>include/common/utils.h\<close> and \<^verbatim>\<open>src/common/utils.c\<close>: byte order and the Internet
  checksum.  The host is little-endian (\<^verbatim>\<open>NET_ENDIAN_LITTLE\<close>), so a 16-bit load takes its
  low byte from the lower address.  \<open>checksum16\<close> is proved equal to the ones' complement
  sum of the bytes, which gives the chaining over segments that \<^verbatim>\<open>packet_checksum16\<close> and
  the pseudo-header csum rely on, and the receiver's test for a zero result.
\<close>

section \<open>Byte order\<close>

definition swap_u16 :: "u16 \<Rightarrow> u16" where
  "swap_u16 v = push_bit 8 (v AND 0xFF) OR (drop_bit 8 v AND 0xFF)"

definition swap_u32 :: "u32 \<Rightarrow> u32" where
  "swap_u32 v =
     push_bit 24 (v AND 0xFF) OR push_bit 16 (drop_bit 8 v AND 0xFF) OR
     push_bit 8 (drop_bit 16 v AND 0xFF) OR (drop_bit 24 v AND 0xFF)"

definition is_little_endian :: "u8 list \<Rightarrow> bool" where
  "is_little_endian b \<longleftrightarrow> b ! 0 = 0x34"

text \<open>Loads and stores of a little-endian host.\<close>

definition le16 :: "u8 \<Rightarrow> u8 \<Rightarrow> u16" where
  "le16 a b = ucast a OR push_bit 8 (ucast b)"

definition le16_bytes :: "u16 \<Rightarrow> u8 list" where
  "le16_bytes v = [ucast v, ucast (drop_bit 8 v)]"

definition le32 :: "u8 \<Rightarrow> u8 \<Rightarrow> u8 \<Rightarrow> u8 \<Rightarrow> u32" where
  "le32 a b c d = ucast a OR push_bit 8 (ucast b) OR push_bit 16 (ucast c) OR push_bit 24 (ucast d)"

definition le32_bytes :: "u32 \<Rightarrow> u8 list" where
  "le32_bytes v = [ucast v, ucast (drop_bit 8 v), ucast (drop_bit 16 v), ucast (drop_bit 24 v)]"

text \<open>\<^verbatim>\<open>utils_init\<close>: the two bytes the host stores for \<^verbatim>\<open>0x1234\<close> are an argument.\<close>

definition utils_init :: "u8 list \<Rightarrow> net_err_t" where
  "utils_init host_bytes = (if \<not> is_little_endian host_bytes then NET_ERR_SYS else NET_OK)"

section \<open>The Internet checksum\<close>

text \<open>
  The loops that add the 16-bit words and the odd last byte; \<^term>\<open>None\<close> is a read past
  the end of the buffer.
\<close>

fun checksum_words :: "nat \<Rightarrow> u8 list \<Rightarrow> u32 \<Rightarrow> u32 option" where
  "checksum_words (Suc (Suc len)) (a # b # r) csum = checksum_words len r (csum + ucast (le16 a b))"
| "checksum_words (Suc 0) (a # r) csum = Some (csum + ucast a)"
| "checksum_words 0 buf csum = Some csum"
| "checksum_words len buf csum = None"

text \<open>The folding loop.\<close>

function checksum_fold :: "u32 \<Rightarrow> u32" where
  "checksum_fold csum =
     (let high = drop_bit 16 csum
      in if high \<noteq> 0 then checksum_fold (high + (csum AND 0xffff)) else csum)"
  by pat_completeness auto

definition checksum16 :: "u32 \<Rightarrow> u8 list \<Rightarrow> u16 \<Rightarrow> u32 \<Rightarrow> bool \<Rightarrow> u16 option" where
  "checksum16 offset buf len pre_sum complement =
     map_option (\<lambda>csum. let r = ucast (checksum_fold csum) in if complement then NOT r else r)
       (if offset AND 1 \<noteq> 0
        then (case buf of
                [] \<Rightarrow> None
              | b # buf \<Rightarrow> checksum_words (unat (len - 1)) buf (pre_sum + push_bit 8 (ucast b)))
        else checksum_words (unat len) buf pre_sum)"

section \<open>The ones' complement sum\<close>

text \<open>Bytes at even offsets weigh 1, bytes at odd offsets 256.\<close>

fun bsum :: "bool \<Rightarrow> u8 list \<Rightarrow> nat" where
  "bsum odd_pos [] = 0"
| "bsum odd_pos (b # bs) = (if odd_pos then 256 * unat b else unat b) + bsum (\<not> odd_pos) bs"

text \<open>End-around carry: the representative of a sum modulo 65535 in 1 \<dots> 65535, and 0 for 0.\<close>

definition oc16 :: "nat \<Rightarrow> nat" where
  "oc16 n = (if n = 0 then 0 else (n - 1) mod 65535 + 1)"

lemma oc16_le [simp]: "oc16 n \<le> 65535"
  by (simp add: oc16_def Suc_le_eq)

lemma oc16_small: "n \<le> 65535 \<Longrightarrow> oc16 n = n"
  by (simp add: oc16_def)

lemma oc16_mod: "oc16 n mod 65535 = n mod 65535"
proof (cases n)
  case (Suc m)
  then show ?thesis by (simp add: oc16_def mod_Suc_eq)
qed (simp add: oc16_def)

lemma oc16_zero [simp]: "oc16 n = 0 \<longleftrightarrow> n = 0"
  by (simp add: oc16_def)

lemma carry_rep_unique:
  fixes r s :: nat
  assumes "r \<le> 65535" "s \<le> 65535" "r mod 65535 = s mod 65535" "r = 0 \<longleftrightarrow> s = 0"
  shows "r = s"
  using assms by (cases "r = 65535"; cases "s = 65535") auto

lemma oc16_unique:
  "r \<le> 65535 \<Longrightarrow> r mod 65535 = n mod 65535 \<Longrightarrow> r = 0 \<longleftrightarrow> n = 0 \<Longrightarrow> r = oc16 n"
  by (rule carry_rep_unique) (simp_all add: oc16_mod)

lemma oc16_add: "oc16 (oc16 a + b) = oc16 (a + b)"
proof (rule carry_rep_unique)
  show "oc16 (oc16 a + b) mod 65535 = oc16 (a + b) mod 65535"
    by (metis oc16_mod mod_add_left_eq)
qed simp_all

text \<open>Adding the complement of a sum gives the all-ones word.\<close>

lemma oc16_complement: "oc16 (n + (65535 - oc16 n)) = 65535"
proof -
  have "oc16 n \<le> n"
  proof (cases n)
    case (Suc m)
    then show ?thesis by (simp add: oc16_def)
  qed simp
  then have pos: "0 < n + (65535 - oc16 n)"
    by (cases "n = 0") (simp_all add: oc16_def)
  have "oc16 n + (65535 - oc16 n) = 65535" using oc16_le [of n] by simp
  then have "oc16 (oc16 n + (65535 - oc16 n)) = 65535" by (simp add: oc16_def)
  then show ?thesis by (simp only: oc16_add)
qed

lemma bsum_append: "bsum p (xs @ ys) = bsum p xs + bsum (p \<noteq> odd (length xs)) ys"
proof (induction xs arbitrary: p)
  case (Cons x xs)
  have "((\<not> p) \<noteq> odd (length xs)) = (p \<noteq> odd (length (x # xs)))" by auto
  with Cons show ?case by (simp only: append_Cons bsum.simps add.assoc)
qed simp

lemma bsum_le: "bsum p bs \<le> 65280 * length bs"
proof (induction bs arbitrary: p)
  case (Cons b bs)
  have "unat b \<le> 255" using unat_u8_less [of b] by linarith
  then have "(if p then 256 * unat b else unat b) \<le> 65280" by auto
  with Cons.IH [of "\<not> p"] show ?case by simp
qed simp

section \<open>The code computes the ones' complement sum\<close>

lemma unat_le16: "unat (le16 a b) = unat a + 256 * unat b"
proof -
  have "le16 a b = ucast a + push_bit 8 (ucast b)"
    unfolding le16_def
    by (rule disjunctive_add [symmetric]) (auto simp: bit_simps dest: bit_imp_le_length)
  moreover have "unat a + unat b * 256 < 65536"
    using unat_u8_less [of a] unat_u8_less [of b] by linarith
  ultimately show ?thesis
    by (simp add: unat_word_ariths unsigned_push_bit_eq unsigned_ucast_eq push_bit_eq_mult take_bit_eq_mod
        mult.commute)
qed

lemma unat_high: "unat (drop_bit 16 (s :: u32)) = unat s div 65536"
  by (simp add: drop_bit_eq_div unat_div)

lemma unat_low: "unat (s AND 0xffff :: u32) = unat s mod 65536"
proof -
  have "s AND 0xffff = take_bit 16 s" by (simp add: take_bit_eq_mask mask_eq_exp_minus_1)
  then show ?thesis by (simp add: take_bit_eq_mod unat_mod)
qed

lemma unat_fold_step: "unat (drop_bit 16 s + (s AND 0xffff) :: u32) = unat s div 65536 + unat s mod 65536"
proof -
  have "unat s div 65536 < 65536"
    using unat_u32_less [of s] by (simp add: less_mult_imp_div_less)
  moreover have "unat s mod 65536 < 65536" by simp
  ultimately have "unat s div 65536 + unat s mod 65536 < 4294967296" by linarith
  then show ?thesis by (simp add: unat_word_ariths unat_high unat_low)
qed

lemma div_mod_less: "n div 65536 \<noteq> 0 \<Longrightarrow> n div 65536 + n mod 65536 < (n :: nat)"
  using mult_div_mod_eq [of 65536 n] by linarith

termination checksum_fold
  by (relation "measure unat") (auto simp: unat_fold_step div_mod_less unat_high simp flip: unat_eq_zero)

declare checksum_fold.simps [simp del]

lemma unat_checksum_fold: "unat (checksum_fold s) = oc16 (unat s)"
proof (induction s rule: checksum_fold.induct)
  case (1 s)
  show ?case
  proof (cases "drop_bit 16 s = 0")
    case True
    then have "unat s div 65536 = 0" using unat_high [of s] by simp
    then have "unat s \<le> 65535" by (simp add: div_eq_0_iff)
    with True show ?thesis by (simp add: checksum_fold.simps oc16_small)
  next
    case False
    let ?n = "unat s"
    have pos: "?n div 65536 \<noteq> 0" using False unat_high [of s] by (simp flip: unat_eq_zero)
    have "oc16 (?n div 65536 + ?n mod 65536) = oc16 ?n"
    proof (rule oc16_unique)
      have "?n = (?n div 65536 + ?n mod 65536) + (?n div 65536) * 65535"
        using mult_div_mod_eq [of 65536 ?n] by linarith
      then have "?n mod 65535 = (?n div 65536 + ?n mod 65536) mod 65535"
        by (metis mod_mult_self1)
      then show "oc16 (?n div 65536 + ?n mod 65536) mod 65535 = ?n mod 65535"
        by (simp only: oc16_mod)
    qed (use pos in auto)
    with 1 False show ?thesis
      by (subst checksum_fold.simps) (simp add: Let_def unat_fold_step)
  qed
qed

lemma checksum_words_bsum:
  "len \<le> length buf \<Longrightarrow> unat csum + bsum False (take len buf) < 4294967296 \<Longrightarrow>
   \<exists>s. checksum_words len buf csum = Some s \<and> unat s = unat csum + bsum False (take len buf)"
proof (induction len buf csum rule: checksum_words.induct)
  case (1 len a b r csum)
  then show ?case by (simp add: unat_le16 unat_add_u32 add.assoc)
next
  case (2 a r csum)
  then show ?case by (simp add: unat_add_u32)
qed auto

definition csum_result :: "bool \<Rightarrow> nat \<Rightarrow> u16" where
  "csum_result complement n = (if complement then NOT (of_nat (oc16 n)) else of_nat (oc16 n))"

lemma ucast_checksum_fold: "ucast (checksum_fold s) = (of_nat (oc16 (unat s)) :: u16)"
  by (metis unat_checksum_fold of_nat_unat)

lemma odd_offset: "(offset :: u32) AND 1 \<noteq> 0 \<longleftrightarrow> odd (unat offset)"
  by (simp add: and_one_eq odd_iff_mod_2_eq_one unat_mod flip: unat_eq_zero)

lemma checksum_room:
  assumes "n \<le> 65535"
  shows "n + bsum p (take (unat (len :: u16)) bs) < 4294967296"
proof -
  have "length (take (unat len) bs) < 65536"
    by (rule le_less_trans [of _ "unat len"]) simp_all
  then show ?thesis using assms bsum_le [of p "take (unat len) bs"] by linarith
qed

lemma checksum16_sum:
  assumes "unat len \<le> length buf" "odd (unat offset) \<Longrightarrow> 0 < unat len"
    "unat pre_sum + bsum (odd (unat offset)) (take (unat len) buf) < 4294967296"
  shows "checksum16 offset buf len pre_sum complement =
         Some (csum_result complement (unat pre_sum + bsum (odd (unat offset)) (take (unat len) buf)))"
proof (cases "odd (unat offset)")
  case False
  then have "unat pre_sum + bsum False (take (unat len) buf) < 4294967296" using assms(3) by simp
  from checksum_words_bsum [OF assms(1) this] obtain s
    where "checksum_words (unat len) buf pre_sum = Some s"
      and "unat s = unat pre_sum + bsum False (take (unat len) buf)" by blast
  with False show ?thesis
    by (simp add: checksum16_def odd_offset csum_result_def ucast_checksum_fold Let_def)
next
  case True
  with assms obtain b r where buf: "buf = b # r" by (cases buf) auto
  from True assms(2) have "unat (len - 1) = unat len - 1" by (simp add: unat_sub word_le_nat_alt)
  with True assms(2) have n: "unat len = Suc (unat (len - 1))" by simp
  let ?pre = "pre_sum + push_bit 8 (ucast b)"
  have "unat (push_bit 8 (ucast b :: u32)) = 256 * unat b"
    by (simp add: push_bit_eq_mult unat_word_ariths less_trans [of "unat b * 256" 65536]
        less_le_trans [OF mult_less_mono1 [OF unat_u8_less]])
  moreover have room: "unat pre_sum + bsum True (take (unat len) buf) < 4294967296" using assms(3) True by simp
  ultimately have pre: "unat ?pre = unat pre_sum + 256 * unat b"
    using n buf by (simp add: unat_add_u32)
  with room n buf assms(1) obtain s where "checksum_words (unat (len - 1)) r ?pre = Some s"
    and "unat s = unat pre_sum + bsum True (take (unat len) buf)"
    using checksum_words_bsum [of "unat (len - 1)" r ?pre] by (auto simp: add.assoc)
  with True buf show ?thesis
    by (simp add: checksum16_def odd_offset csum_result_def ucast_checksum_fold Let_def)
qed

lemma checksum16_spec:
  assumes "unat len \<le> length buf" "odd (unat offset) \<Longrightarrow> 0 < unat len" "unat pre_sum \<le> 65535"
  shows "checksum16 offset buf len pre_sum complement =
         Some (csum_result complement (unat pre_sum + bsum (odd (unat offset)) (take (unat len) buf)))"
  using assms(1,2) checksum_room [OF assms(3)] by (rule checksum16_sum)

text \<open>A buffer that is too short.\<close>

lemma checksum_words_short: "length buf < len \<Longrightarrow> checksum_words len buf csum = None"
  by (induction len buf csum rule: checksum_words.induct) auto

lemma checksum16_odd_empty:
  assumes "odd (unat offset)" "length buf < 65536"
  shows "checksum16 offset buf 0 pre_sum complement = None"
proof (cases buf)
  case (Cons b r)
  have "unat (- 1 :: u16) = 65535" by (simp add: unsigned_minus_1_eq_mask mask_eq_exp_minus_1)
  with Cons assms show ?thesis by (simp add: checksum16_def odd_offset checksum_words_short)
qed (use assms in \<open>simp add: checksum16_def odd_offset\<close>)

lemma unat_of_nat_oc16: "unat (of_nat (oc16 n) :: u16) = oc16 n"
  by (simp add: unsigned_of_nat take_bit_nat_eq_self_iff le_less_trans [OF oc16_le])

lemma unat_NOT_u16: "unat (NOT (v :: u16)) = 65535 - unat v"
proof -
  have "NOT v = - 1 - v" by (simp add: not_eq_complement)
  moreover have "v \<le> - 1" by (rule word_n1_ge)
  moreover have "unat (- 1 :: u16) = 65535" by (simp add: unsigned_minus_1_eq_mask mask_eq_exp_minus_1)
  ultimately show ?thesis by (simp add: unat_sub)
qed

lemma unat_csum_result_False [simp]: "unat (csum_result False n) = oc16 n"
  by (simp add: csum_result_def unat_of_nat_oc16)

lemma unat_csum_result_True [simp]: "unat (csum_result True n) = 65535 - oc16 n"
  by (simp add: csum_result_def unat_NOT_u16 unat_of_nat_oc16)

lemma csum_result_oc16_add: "csum_result c (oc16 a + b) = csum_result c (a + b)"
  by (simp add: csum_result_def oc16_add)

lemma csum_result_verify: "csum_result True (n + unat (csum_result True n)) = 0"
proof -
  have "unat (csum_result True (n + unat (csum_result True n))) = 0"
    unfolding unat_csum_result_True oc16_complement by simp
  then show ?thesis by (simp only: unat_eq_zero)
qed

lemma le16_bytes_sum: "bsum False (le16_bytes v) = unat v"
proof -
  have "unat v = unat v mod 256 + 256 * (unat v div 256)" by simp
  moreover have "unat (ucast v :: u8) = unat v mod 256"
    by (simp add: unsigned_ucast_eq take_bit_eq_mod)
  moreover have "unat (ucast (drop_bit 8 v) :: u8) = unat v div 256"
    using unat_u16_less [of v]
    by (simp add: unsigned_ucast_eq take_bit_eq_mod drop_bit_eq_div unat_div less_mult_imp_div_less)
  ultimately show ?thesis by (simp add: le16_bytes_def)
qed

text \<open>A store followed by a load of the host, and the network order of a swapped value.\<close>

lemma le16_le16_bytes [simp]: "le16 (ucast v) (ucast (drop_bit 8 v)) = v"
  by (rule bit_word_eqI) (auto simp: le16_def bit_simps)

lemma swap_u16_swap [simp]: "swap_u16 (swap_u16 v) = v"
proof -
  have m: "w AND 0xFF = take_bit 8 w" for w :: u16
    by (simp add: take_bit_eq_mask mask_eq_exp_minus_1)
  show ?thesis unfolding swap_u16_def m by (rule bit_word_eqI) (auto simp: bit_simps)
qed

section \<open>Properties\<close>

text \<open>C10. checksum16 reads only the bytes it is given and returns the ones' complement sum of the preceding sum and the bytes (bytes at
  odd offsets in the high half of their word), complemented on request, for every buffer and offset and every length up to 65535,
  whenever the plain sum fits the 32-bit accumulator; it always fits when the preceding sum is at most 65535. The one case left
  out is an odd offset with length zero: there the length wraps around to 65535, and with a buffer of less than 65536 bytes the
  routine reads outside of it.\<close>

theorem checksum16_ones_complement:
  assumes "length buf = unat len"
  shows "(unat pre_sum \<le> 65535 \<longrightarrow> unat pre_sum + bsum (odd (unat offset)) buf < 2 ^ 32) \<and>
    ((odd (unat offset) \<longrightarrow> buf \<noteq> []) \<and> unat pre_sum + bsum (odd (unat offset)) buf < 2 ^ 32 \<longrightarrow>
       (\<exists>r. checksum16 offset (buf @ rest) len pre_sum complement = Some r \<and>
          unat (if complement then NOT r else r) = oc16 (unat pre_sum + bsum (odd (unat offset)) buf))) \<and>
    (odd (unat offset) \<and> buf = [] \<and> length rest < 65536 \<longrightarrow> checksum16 offset (buf @ rest) len pre_sum complement = None)"
proof (intro conjI impI)
  show "unat pre_sum + bsum (odd (unat offset)) buf < 2 ^ 32" if "unat pre_sum \<le> 65535"
    using checksum_room [OF that, of "odd (unat offset)" len buf] assms by simp
  show "\<exists>r. checksum16 offset (buf @ rest) len pre_sum complement = Some r \<and>
      unat (if complement then NOT r else r) = oc16 (unat pre_sum + bsum (odd (unat offset)) buf)"
    if h: "(odd (unat offset) \<longrightarrow> buf \<noteq> []) \<and> unat pre_sum + bsum (odd (unat offset)) buf < 2 ^ 32"
  proof -
    have "odd (unat offset) \<Longrightarrow> 0 < unat len" using assms h by (metis length_greater_0_conv)
    then show ?thesis
      using assms h checksum16_sum [of len "buf @ rest" offset pre_sum complement]
      by (cases complement) (simp_all add: csum_result_def unat_of_nat_oc16)
  qed
  show "checksum16 offset (buf @ rest) len pre_sum complement = None"
    if h: "odd (unat offset) \<and> buf = [] \<and> length rest < 65536"
  proof -
    have "len = 0" using assms h by (simp add: unat_eq_zero)
    with h show ?thesis by (simp add: checksum16_odd_empty)
  qed
qed

theorem checksum16_ones_complement_witness:
  "\<exists>r. checksum16 1 ([0x45, 0x00, 0x73] @ [9]) 3 0xFFFF False = Some r \<and>
     unat r = oc16 (0xFFFF + bsum True [0x45, 0x00, 0x73])"
  using checksum16_ones_complement [of "[0x45, 0x00, 0x73]" 3 "0xFFFF" 1 "[9]" False] by simp

text \<open>Checksumming a buffer in two pieces, the second with the sum and the offset the
  first has reached, gives the checksum of the whole; this holds for pieces of odd length.\<close>

theorem checksum16_chain:
  assumes "length xs + length ys \<le> 65535" "odd (unat offset) \<longrightarrow> xs \<noteq> []" "ys \<noteq> []"
    "unat offset + length xs < 4294967296" "unat pre_sum \<le> 65535"
  shows "Option.bind (checksum16 offset xs (of_nat (length xs)) pre_sum False)
           (\<lambda>s. checksum16 (offset + of_nat (length xs)) ys (of_nat (length ys)) (ucast s) complement) =
         checksum16 offset (xs @ ys) (of_nat (length xs + length ys)) pre_sum complement"
proof -
  have n: "unat (of_nat (length xs) :: u16) = length xs" "unat (of_nat (length ys) :: u16) = length ys"
    "unat (of_nat (length xs + length ys) :: u16) = length xs + length ys"
    using assms(1) by (simp_all add: unsigned_of_nat take_bit_nat_eq_self_iff del: of_nat_add)
  have o: "unat (offset + of_nat (length xs)) = unat offset + length xs"
  proof -
    have "take_bit 32 (length xs) = length xs" using assms(4) by (simp add: take_bit_nat_eq_self_iff)
    with assms(4) show ?thesis by (subst unat_add_u32) (simp_all add: unsigned_of_nat)
  qed
  have xs: "checksum16 offset xs (of_nat (length xs)) pre_sum False =
      Some (csum_result False (unat pre_sum + bsum (odd (unat offset)) xs))"
    using assms n by (subst checksum16_spec) auto
  show ?thesis
    using assms n o
    by (simp add: xs checksum16_spec bsum_append csum_result_oc16_add add.assoc [symmetric]
        even_add neq_commute)
qed

theorem checksum16_chain_witness:
  "Option.bind (checksum16 0 [1, 2, 3] 3 0 False) (\<lambda>s. checksum16 3 [4, 5] 2 (ucast s) True) =
   checksum16 0 [1, 2, 3, 4, 5] 5 0 True"
  using checksum16_chain [of "[1, 2, 3]" "[4, 5]" 0 0 True] by simp

text \<open>The sender's checksum passes the receiver's test: when the complemented checksum
  of data whose checksum field (at an even offset) is zero is stored in that field, the
  complemented checksum of the result, with the same preceding sum, is zero.\<close>

theorem checksum16_verify:
  assumes "even (length xs)" "length xs + 2 + length ys = unat len" "unat pre_sum \<le> 65535"
    "checksum16 0 (xs @ [0, 0] @ ys) len pre_sum True = Some c"
  shows "checksum16 0 (xs @ le16_bytes c @ ys) len pre_sum True = Some 0"
proof -
  have l: "length (le16_bytes c) = 2" by (simp add: le16_bytes_def)
  let ?n = "unat pre_sum + bsum False xs + bsum False ys"
  have "c = csum_result True ?n"
    using assms checksum16_spec [of len "xs @ [0, 0] @ ys" 0 pre_sum True]
    by (simp add: bsum_append add.assoc)
  moreover have "checksum16 0 (xs @ le16_bytes c @ ys) len pre_sum True =
      Some (csum_result True (?n + unat c))"
    using assms l checksum16_spec [of len "xs @ le16_bytes c @ ys" 0 pre_sum True]
    by (simp add: bsum_append le16_bytes_sum ac_simps)
  ultimately show ?thesis by (simp only: csum_result_verify)
qed

theorem checksum16_verify_witness:
  "\<exists>c. checksum16 0 ([0x45, 0] @ [0, 0] @ [7]) 5 0 True = Some c \<and>
       checksum16 0 ([0x45, 0] @ le16_bytes c @ [7]) 5 0 True = Some 0"
proof -
  have "checksum16 0 ([0x45, 0] @ [0, 0] @ [7]) 5 0 True = Some (csum_result True (0x45 + 7))"
    by (subst checksum16_spec) simp_all
  from checksum16_verify [OF _ _ _ this] this show ?thesis by simp
qed

end
