(* ===== verification/Net_Ipaddr.thy ===== *)
theory Net_Ipaddr
  imports Net_Utils
begin

text \<open>
  \<^verbatim>\<open>src/stack/network/ipaddr.c\<close> and the string conversions of \<^verbatim>\<open>src/api/net_api.c\<close>.  An
  address is the 32-bit \<^verbatim>\<open>q_addr\<close> member of the union, whose bytes \<^verbatim>\<open>a_addr\<close> are in
  network order; the \<^verbatim>\<open>type\<close> member is never read.  \<^verbatim>\<open>plat_sprintf\<close> with the format
  \<^verbatim>\<open>%d.%d.%d.%d\<close> is written out as decimal printing.
\<close>

section \<open>Addresses\<close>

type_synonym ipaddr_t = u32

abbreviation IPV4_ADDR_BROADCAST :: ipaddr_t where
  "IPV4_ADDR_BROADCAST \<equiv> 0xFFFFFFFF"

text \<open>Byte \<open>i\<close> of \<^verbatim>\<open>a_addr\<close>, read and written.\<close>

definition a_addr :: "ipaddr_t \<Rightarrow> nat \<Rightarrow> u8" where
  "a_addr ip i = ucast (drop_bit (8 * i) ip)"

definition set_a_addr :: "ipaddr_t \<Rightarrow> nat \<Rightarrow> u8 \<Rightarrow> ipaddr_t" where
  "set_a_addr ip i b = (ip AND NOT (push_bit (8 * i) 0xFF)) OR push_bit (8 * i) (ucast b)"

definition ipaddr_set_any :: ipaddr_t where
  "ipaddr_set_any = 0"

definition ipaddr_get_any :: ipaddr_t where
  "ipaddr_get_any = 0"

definition ipaddr_copy :: "ipaddr_t option \<Rightarrow> ipaddr_t option \<Rightarrow> ipaddr_t option" where
  "ipaddr_copy dest src = (case (dest, src) of (Some d, Some s) \<Rightarrow> Some s | _ \<Rightarrow> dest)"

definition ipaddr_is_equal :: "ipaddr_t \<Rightarrow> ipaddr_t \<Rightarrow> bool" where
  "ipaddr_is_equal a b \<longleftrightarrow> a = b"

definition ipaddr_to_buf :: "ipaddr_t \<Rightarrow> u8 list" where
  "ipaddr_to_buf src = [a_addr src 0, a_addr src 1, a_addr src 2, a_addr src 3]"

definition ipaddr_from_buf :: "u8 list \<Rightarrow> ipaddr_t option" where
  "ipaddr_from_buf buf =
     (case buf of
        b0 # b1 # b2 # b3 # _ \<Rightarrow> Some (set_a_addr (set_a_addr (set_a_addr (set_a_addr 0 0 b0) 1 b1) 2 b2) 3 b3)
      | _ \<Rightarrow> None)"

definition ipaddr_is_local_broadcast :: "ipaddr_t \<Rightarrow> bool" where
  "ipaddr_is_local_broadcast ip \<longleftrightarrow> ip = IPV4_ADDR_BROADCAST"

definition ipaddr_get_host :: "ipaddr_t \<Rightarrow> ipaddr_t \<Rightarrow> ipaddr_t" where
  "ipaddr_get_host ip netmask = ip AND NOT netmask"

definition ipaddr_is_direct_broadcast :: "ipaddr_t \<Rightarrow> ipaddr_t \<Rightarrow> bool" where
  "ipaddr_is_direct_broadcast ip netmask \<longleftrightarrow>
     ipaddr_get_host ip netmask = (IPV4_ADDR_BROADCAST AND NOT netmask)"

definition ipaddr_get_net :: "ipaddr_t \<Rightarrow> ipaddr_t \<Rightarrow> ipaddr_t" where
  "ipaddr_get_net ip netmask = ip AND netmask"

definition ipaddr_is_match :: "ipaddr_t \<Rightarrow> ipaddr_t \<Rightarrow> ipaddr_t \<Rightarrow> bool" where
  "ipaddr_is_match dest src netmask =
     (if ipaddr_is_local_broadcast dest then True
      else if ipaddr_is_direct_broadcast dest netmask \<and>
              ipaddr_is_equal (ipaddr_get_net dest netmask) (ipaddr_get_net src netmask) then True
      else ipaddr_is_equal dest src)"

definition ipaddr_is_any :: "ipaddr_t \<Rightarrow> bool" where
  "ipaddr_is_any ip \<longleftrightarrow> ip = 0"

function ones_loop :: "u32 \<Rightarrow> int \<Rightarrow> int" where
  "ones_loop ad cnt =
     (if ad \<noteq> 0 then ones_loop (drop_bit 1 ad) (if ad AND 1 \<noteq> 0 then cnt + 1 else cnt) else cnt)"
  by pat_completeness auto
termination
proof (relation "measure (\<lambda>(ad, _). unat ad)")
  fix ad :: u32 and cnt :: int
  assume "ad \<noteq> 0"
  then have "unat ad div 2 < unat ad" by (simp add: unat_gt_0)
  then show "((drop_bit 1 ad, if ad AND 1 \<noteq> 0 then cnt + 1 else cnt), ad, cnt) \<in> measure (\<lambda>(ad, _). unat ad)"
    by (simp add: drop_bit_eq_div unat_div)
qed simp

declare ones_loop.simps [simp del]

definition ipaddr_1_cnt :: "ipaddr_t \<Rightarrow> int" where
  "ipaddr_1_cnt ip = ones_loop ip 0"

section \<open>Dotted decimal notation\<close>

text \<open>
  \<^verbatim>\<open>ipaddr_from_str\<close>: \<open>p\<close> is the index in \<^verbatim>\<open>a_addr\<close> the pointer has reached.  Storing past
  the fourth byte is outside the object and has no defined result.
\<close>

fun ipaddr_parse :: "string \<Rightarrow> ipaddr_t \<Rightarrow> nat \<Rightarrow> u8 \<Rightarrow> (ipaddr_t \<times> net_err_t) option" where
  "ipaddr_parse [] dest p sub_addr =
     (if p < 4 then Some (set_a_addr dest p sub_addr, NET_OK) else None)"
| "ipaddr_parse (c # str) dest p sub_addr =
     (if 48 \<le> (of_char c :: nat) \<and> (of_char c :: nat) \<le> 57
      then ipaddr_parse str dest p (sub_addr * 10 + of_nat (of_char c) - 48)
      else if c = CHR ''.''
      then if p < 4 then ipaddr_parse str (set_a_addr dest p sub_addr) (p + 1) 0 else None
      else Some (dest, NET_ERR_PARAM))"

definition ipaddr_from_str :: "ipaddr_t option \<Rightarrow> string option \<Rightarrow> (ipaddr_t option \<times> net_err_t) option" where
  "ipaddr_from_str dest str =
     (case (dest, str) of
        (Some _, Some s) \<Rightarrow> map_option (map_prod Some id) (ipaddr_parse s 0 0 0)
      | _ \<Rightarrow> Some (dest, NET_ERR_PARAM))"

definition digit :: "nat \<Rightarrow> char" where
  "digit n = char_of (48 + n)"

fun decimal :: "nat \<Rightarrow> string" where
  "decimal n = (if n < 10 then [digit n] else decimal (n div 10) @ [digit (n mod 10)])"

declare decimal.simps [simp del]

definition dotted :: "ipaddr_t \<Rightarrow> string" where
  "dotted ip = decimal (unat (a_addr ip 0)) @ ''.'' @ decimal (unat (a_addr ip 1)) @ ''.'' @
               decimal (unat (a_addr ip 2)) @ ''.'' @ decimal (unat (a_addr ip 3))"

definition IPV4_STR_SIZE :: nat where
  "IPV4_STR_SIZE = 16"

text \<open>The terminating null counts towards the size of the buffer.\<close>

definition x_inet_ntoa :: "ipaddr_t \<Rightarrow> string option" where
  "x_inet_ntoa ip = (if length (dotted ip) + 1 \<le> IPV4_STR_SIZE then Some (dotted ip) else None)"

definition x_inet_addr :: "string option \<Rightarrow> ipaddr_t option" where
  "x_inet_addr str =
     (case str of
        None \<Rightarrow> Some 0
      | Some s \<Rightarrow> (case ipaddr_from_str (Some 0) (Some s) of
                     Some (Some ip, _) \<Rightarrow> Some ip
                   | _ \<Rightarrow> None))"

text \<open>The result code and, when it is stored, the address.\<close>

definition x_inet_pton :: "bool \<Rightarrow> string option \<Rightarrow> bool \<Rightarrow> (int \<times> ipaddr_t option) option" where
  "x_inet_pton is_inet strptr addrptr =
     (if \<not> is_inet \<or> strptr = None \<or> \<not> addrptr then Some (- 1, None)
      else case ipaddr_from_str (Some 0) strptr of
             None \<Rightarrow> None
           | Some (dest, _) \<Rightarrow> Some (1, dest))"

definition x_inet_ntop :: "bool \<Rightarrow> ipaddr_t option \<Rightarrow> bool \<Rightarrow> nat \<Rightarrow> string option option" where
  "x_inet_ntop is_inet addrptr strptr len =
     (if \<not> is_inet \<or> addrptr = None \<or> \<not> strptr \<or> len = 0 then Some None
      else case addrptr of
             None \<Rightarrow> None
           | Some ip \<Rightarrow> map_option (\<lambda>s. Some (take (len - 1) s)) (x_inet_ntoa ip))"

section \<open>Lemmas\<close>

lemma low_byte_mask: "(0xFF :: u32) = mask 8"
  by (simp add: mask_eq_exp_minus_1)

lemma less_4_cases_iff: "i < 4 \<longleftrightarrow> i = 0 \<or> i = 1 \<or> i = 2 \<or> i = (3 :: nat)"
  by auto

lemma a_addr_set_a_addr:
  "i < 4 \<Longrightarrow> j < 4 \<Longrightarrow> a_addr (set_a_addr ip i b) j = (if i = j then b else a_addr ip j)"
  unfolding a_addr_def set_a_addr_def low_byte_mask
  by (rule bit_word_eqI) (auto simp: bit_simps less_4_cases_iff dest: bit_imp_le_length)

lemma a_addr_eqI: "(\<And>i. i < 4 \<Longrightarrow> a_addr x i = a_addr y i) \<Longrightarrow> x = y"
proof (rule bit_word_eqI)
  fix n assume eq: "\<And>i. i < 4 \<Longrightarrow> a_addr x i = a_addr y i" and n: "n < LENGTH(32)"
  have "bit (a_addr x (n div 8)) (n mod 8) = bit (a_addr y (n div 8)) (n mod 8)"
    using n by (subst eq) (simp_all add: less_mult_imp_div_less)
  then show "bit x n = bit y n" by (simp add: a_addr_def bit_simps mult.commute)
qed

lemma ipaddr_buf_roundtrip: "ipaddr_from_buf (ipaddr_to_buf ip @ rest) = Some ip"
  unfolding ipaddr_from_buf_def ipaddr_to_buf_def
  by (auto intro!: a_addr_eqI simp: a_addr_set_a_addr less_4_cases_iff)

lemma digit_code: "n < 10 \<Longrightarrow> (of_char (digit n) :: nat) = 48 + n"
  by (simp add: digit_def)

lemma ipaddr_parse_digit:
  assumes "n < 10"
  shows "ipaddr_parse (digit n # r) dest p s = ipaddr_parse r dest p (s * 10 + of_nat n)"
proof -
  have c: "(of_char (digit n) :: nat) = 48 + n" by (rule digit_code [OF assms])
  have "48 \<le> (of_char (digit n) :: nat) \<and> (of_char (digit n) :: nat) \<le> 57" using c assms by simp
  then show ?thesis by (simp only: ipaddr_parse.simps if_True c) simp
qed

lemma ipaddr_parse_decimal:
  "ipaddr_parse (decimal n @ r) dest p s = ipaddr_parse r dest p (s * 10 ^ length (decimal n) + of_nat n)"
proof (induction n arbitrary: r s rule: decimal.induct)
  case (1 n)
  show ?case
  proof (cases "n < 10")
    case True
    then show ?thesis by (simp add: decimal.simps [of n] ipaddr_parse_digit del: ipaddr_parse.simps)
  next
    case False
    have "of_nat n = (of_nat (n div 10 * 10 + n mod 10) :: u8)" by simp
    then have "(of_nat n :: u8) = of_nat (n div 10) * 10 + of_nat (n mod 10)"
      by (simp only: of_nat_add of_nat_mult of_nat_numeral)
    with 1 [OF False, of "digit (n mod 10) # r" s] False show ?thesis
      by (simp add: decimal.simps [of n] ipaddr_parse_digit algebra_simps del: ipaddr_parse.simps)
  qed
qed

lemmas ipaddr_parse_last = ipaddr_parse_decimal [where r = "[]", simplified]

lemma length_decimal: "n < 1000 \<Longrightarrow> length (decimal n) \<le> 3"
  by (simp add: decimal.simps [of n] decimal.simps [of "n div 10"] decimal.simps [of "n div 10 div 10"])

lemma ipaddr_parse_dotted: "ipaddr_parse (dotted ip) 0 0 0 = Some (ip, NET_OK)"
proof -
  let ?r = "set_a_addr (set_a_addr (set_a_addr (set_a_addr 0 0 (a_addr ip 0)) 1 (a_addr ip 1)) 2 (a_addr ip 2)) 3 (a_addr ip 3)"
  have "?r = ip"
    by (rule a_addr_eqI) (auto simp: a_addr_set_a_addr less_4_cases_iff)
  then show ?thesis
    by (simp add: dotted_def ipaddr_parse_decimal ipaddr_parse_last numeral_2_eq_2 numeral_3_eq_3)
qed

lemma length_dotted: "length (dotted ip) \<le> 15"
proof -
  have "length (decimal (unat (b :: u8))) \<le> 3" for b
    by (rule length_decimal) (rule less_trans [OF unat_u8_less], simp)
  from this [of "a_addr ip 0"] this [of "a_addr ip 1"] this [of "a_addr ip 2"] this [of "a_addr ip 3"]
  show ?thesis by (simp add: dotted_def)
qed

lemma bit_set_drop:
  "{i. bit (w :: u32) i} = (if w AND 1 \<noteq> 0 then {0} else {}) \<union> Suc ` {i. bit (drop_bit 1 w) i}"
proof (rule set_eqI)
  fix i
  have "w AND 1 \<noteq> 0 \<longleftrightarrow> bit w 0" by (simp add: and_one_eq bit_0 odd_iff_mod_2_eq_one)
  then show "i \<in> {i. bit w i} \<longleftrightarrow>
      i \<in> (if w AND 1 \<noteq> 0 then {0} else {}) \<union> Suc ` {i. bit (drop_bit 1 w) i}"
    by (cases i) (simp_all add: image_iff bit_drop_bit_eq)
qed

lemma ones_loop_card: "ones_loop w c = c + int (card {i. bit w i})"
proof (induction w c rule: ones_loop.induct)
  case (1 w c)
  have fin: "finite {i. bit (v :: u32) i}" for v by (simp add: finite_bit_word)
  show ?case
  proof (cases "w = 0")
    case False
    have "card (Suc ` {i. bit (drop_bit 1 w) i}) = card {i. bit (drop_bit 1 w) i}"
      by (simp add: card_image)
    with fin [of "drop_bit 1 w"] have "int (card {i. bit w i}) =
        (if w AND 1 \<noteq> 0 then 1 else 0) + int (card {i. bit (drop_bit 1 w) i})"
      by (subst bit_set_drop) (auto simp: card_insert_if)
    with 1 False show ?thesis by (simp add: ones_loop.simps [of w])
  qed (simp add: ones_loop.simps)
qed

lemma ipaddr_1_cnt_card: "ipaddr_1_cnt ip = int (card {i. bit ip i})"
  by (simp add: ipaddr_1_cnt_def ones_loop_card)

section \<open>Properties\<close>

text \<open>C40. Printing an address with x_inet_ntoa fits the 16-byte buffer, and parsing the
  string with ipaddr_from_str gives the address back.\<close>

theorem inet_string_roundtrip:
  "\<exists>s. x_inet_ntoa ip = Some s \<and> length s < IPV4_STR_SIZE \<and>
       ipaddr_from_str (Some old) (Some s) = Some (Some ip, NET_OK) \<and>
       x_inet_pton True (Some s) True = Some (1, Some ip) \<and>
       (16 \<le> len \<longrightarrow> x_inet_ntop True (Some ip) True len = Some (Some s))"
proof -
  have l: "length (dotted ip) \<le> 15" by (rule length_dotted)
  have r: "ipaddr_from_str (Some x) (Some (dotted ip)) = Some (Some ip, NET_OK)" for x
    by (simp add: ipaddr_from_str_def ipaddr_parse_dotted)
  from l have n: "x_inet_ntoa ip = Some (dotted ip)" by (simp add: x_inet_ntoa_def IPV4_STR_SIZE_def)
  from l r n show ?thesis
    by (intro exI [of _ "dotted ip"]) (auto simp: IPV4_STR_SIZE_def x_inet_pton_def x_inet_ntop_def)
qed

theorem inet_string_roundtrip_witness:
  "x_inet_ntop True (Some 0x0101A8C0) True 20 = x_inet_ntop True (Some 0x0101A8C0) True 16"
  using inet_string_roundtrip [of "0x0101A8C0" 0 20] inet_string_roundtrip [of "0x0101A8C0" 0 16] by auto

text \<open>An address matches an interface exactly when it is the limited broadcast, the
  directed broadcast of the interface's network (same network bits, all host bits set), or
  the interface's own address.\<close>

theorem ipaddr_is_match_iff:
  "ipaddr_is_match dest src netmask \<longleftrightarrow>
     dest = IPV4_ADDR_BROADCAST \<or>
     dest = (ipaddr_get_net src netmask OR ipaddr_get_host IPV4_ADDR_BROADCAST netmask) \<or> dest = src"
proof -
  have ones: "IPV4_ADDR_BROADCAST = - 1" by simp
  have "ipaddr_is_direct_broadcast dest netmask \<and> ipaddr_get_net dest netmask = ipaddr_get_net src netmask
      \<longleftrightarrow> dest = (ipaddr_get_net src netmask OR ipaddr_get_host IPV4_ADDR_BROADCAST netmask)"
    unfolding ipaddr_is_direct_broadcast_def ipaddr_get_host_def ipaddr_get_net_def ones
    by (auto simp: bit_eq_iff bit_simps)
  then show ?thesis
    by (auto simp: ipaddr_is_match_def ipaddr_is_local_broadcast_def ipaddr_is_equal_def)
qed

end
