(* ===== verification/Net_Timer.thy ===== *)
theory Net_Timer
  imports Net_Prelude
begin

text \<open>
  \<^verbatim>\<open>src/common/timer.c\<close>: the soft timers.  The timers wait on a list in which each stores
  only the time to its predecessor (a difference list).  The list is the sequence of timer
  addresses that \<^verbatim>\<open>Net_List\<close> shows the linked list to represent; the timers live in a
  store, since every client embeds its timer in its own structure.  \<open>expiries\<close> turns
  the differences into times from now, and each operation is proved to implement the
  obvious operation on that sorted sequence.

  The callbacks are functions of the client components, called through a pointer: the
  dispatcher \<open>call\<close> is a parameter that maps a function pointer, a timer and its argument
  to a state change of the whole system.  \<^verbatim>\<open>wait_list\<close>, a local variable of
  \<^verbatim>\<open>net_timer_check_tmo\<close>, is a component of the state because the nodes on it are linked:
  adding a timer that is already linked breaks both lists and has no defined result.
\<close>

section \<open>State\<close>

abbreviation (input) NET_TIMER_RELOAD :: int where
  "NET_TIMER_RELOAD \<equiv> 1"

abbreviation (input) TIMER_NAME_SIZE :: nat where
  "TIMER_NAME_SIZE \<equiv> 32"

record 'p net_timer_t =
  tm_name :: string
  tm_flags :: int
  tm_curr :: int
  tm_reload :: int
  tm_proc :: 'p
  tm_arg :: addr

record 'p timer_state =
  timers :: "addr \<Rightarrow> 'p net_timer_t"
  timer_list :: "addr list"
  wait_list :: "addr list"

definition set_curr :: "addr \<Rightarrow> int \<Rightarrow> (addr \<Rightarrow> 'p net_timer_t) \<Rightarrow> addr \<Rightarrow> 'p net_timer_t" where
  "set_curr t v ts = ts(t := (ts t)\<lparr>tm_curr := v\<rparr>)"

section \<open>Operations\<close>

text \<open>
  The loop of \<^verbatim>\<open>insert_timer\<close> over the rest of the list: it updates the inserted timer's
  and the passed-over timer's times, and returns the new rest of the list.
\<close>

fun insert_timer_loop ::
  "(addr \<Rightarrow> 'p net_timer_t) \<Rightarrow> addr list \<Rightarrow> addr \<Rightarrow> (addr \<Rightarrow> 'p net_timer_t) \<times> addr list" where
  "insert_timer_loop ts [] ins = (ts, [ins])"
| "insert_timer_loop ts (node # rest) ins =
     (if tm_curr (ts ins) > tm_curr (ts node)
      then let (ts, l) = insert_timer_loop (set_curr ins (tm_curr (ts ins) - tm_curr (ts node)) ts) rest ins
           in (ts, node # l)
      else if tm_curr (ts ins) = tm_curr (ts node)
      then (set_curr ins 0 ts, node # ins # rest)
      else (set_curr node (tm_curr (ts node) - tm_curr (ts ins)) ts, ins # node # rest))"

definition insert_timer :: "addr \<Rightarrow> ('p, 'a) timer_state_scheme \<Rightarrow> ('p, 'a) timer_state_scheme option" where
  "insert_timer ins s =
     (if ins \<in> set (timer_list s) \<or> ins \<in> set (wait_list s) then None
      else let (ts, l) = insert_timer_loop (timers s) (timer_list s) ins
           in Some (s\<lparr>timers := ts, timer_list := l\<rparr>))"

definition net_timer_add ::
  "addr \<Rightarrow> string \<Rightarrow> 'p \<Rightarrow> addr \<Rightarrow> int \<Rightarrow> int \<Rightarrow> ('p, 'a) timer_state_scheme \<Rightarrow>
   (('p, 'a) timer_state_scheme \<times> net_err_t) option" where
  "net_timer_add timer name proc arg ms flags s =
     map_option (\<lambda>s. (s, NET_OK))
       (insert_timer timer
          (s\<lparr>timers := (timers s)(timer := \<lparr>tm_name = take (TIMER_NAME_SIZE - 1) name, tm_flags = flags,
               tm_curr = ms, tm_reload = ms, tm_proc = proc, tm_arg = arg\<rparr>)\<rparr>))"

definition net_timer_init :: "('p, 'a) timer_state_scheme \<Rightarrow> ('p, 'a) timer_state_scheme \<times> net_err_t" where
  "net_timer_init s = (s\<lparr>timer_list := []\<rparr>, NET_OK)"

fun remove_timer_loop ::
  "(addr \<Rightarrow> 'p net_timer_t) \<Rightarrow> addr list \<Rightarrow> addr \<Rightarrow> (addr \<Rightarrow> 'p net_timer_t) \<times> addr list" where
  "remove_timer_loop ts [] timer = (ts, [])"
| "remove_timer_loop ts (node # rest) timer =
     (if node \<noteq> timer
      then let (ts, l) = remove_timer_loop ts rest timer in (ts, node # l)
      else case rest of
             [] \<Rightarrow> (ts, [])
           | next # _ \<Rightarrow> (set_curr next (tm_curr (ts next) + tm_curr (ts node)) ts, rest))"

definition net_timer_remove :: "addr \<Rightarrow> ('p, 'a) timer_state_scheme \<Rightarrow> ('p, 'a) timer_state_scheme" where
  "net_timer_remove timer s =
     (let (ts, l) = remove_timer_loop (timers s) (timer_list s) timer
      in s\<lparr>timers := ts, timer_list := l\<rparr>)"

text \<open>The first loop of \<^verbatim>\<open>net_timer_check_tmo\<close>: the expired timers move to the wait list.\<close>

fun expire_loop ::
  "(addr \<Rightarrow> 'p net_timer_t) \<Rightarrow> addr list \<Rightarrow> int \<Rightarrow> (addr \<Rightarrow> 'p net_timer_t) \<times> addr list \<times> addr list" where
  "expire_loop ts [] diff_ms = (ts, [], [])"
| "expire_loop ts (node # rest) diff_ms =
     (if tm_curr (ts node) > diff_ms
      then (set_curr node (tm_curr (ts node) - diff_ms) ts, node # rest, [])
      else let (ts, l, w) = expire_loop (set_curr node 0 ts) rest (diff_ms - tm_curr (ts node))
           in (ts, l, node # w))"

text \<open>The second loop: each callback, then the reload.\<close>

fun fire_loop ::
  "('p \<Rightarrow> addr \<Rightarrow> addr \<Rightarrow> ('p, 'a) timer_state_scheme \<Rightarrow> ('p, 'a) timer_state_scheme option) \<Rightarrow>
   addr list \<Rightarrow> ('p, 'a) timer_state_scheme \<Rightarrow> ('p, 'a) timer_state_scheme option" where
  "fire_loop call [] s = Some (s\<lparr>wait_list := []\<rparr>)"
| "fire_loop call (node # rest) s =
     do {
       s \<leftarrow> call (tm_proc (timers s node)) node (tm_arg (timers s node)) (s\<lparr>wait_list := rest\<rparr>);
       s \<leftarrow> (if tm_flags (timers s node) AND NET_TIMER_RELOAD \<noteq> 0
             then insert_timer node
                    (s\<lparr>timers := set_curr node (tm_reload (timers s node)) (timers s)\<rparr>)
             else Some s);
       fire_loop call rest s
     }"

definition net_timer_check_tmo ::
  "('p \<Rightarrow> addr \<Rightarrow> addr \<Rightarrow> ('p, 'a) timer_state_scheme \<Rightarrow> ('p, 'a) timer_state_scheme option) \<Rightarrow>
   int \<Rightarrow> ('p, 'a) timer_state_scheme \<Rightarrow> (('p, 'a) timer_state_scheme \<times> net_err_t) option" where
  "net_timer_check_tmo call diff_ms s =
     (let (ts, l, w) = expire_loop (timers s) (timer_list s) diff_ms
      in map_option (\<lambda>s. (s, NET_OK)) (fire_loop call w (s\<lparr>timers := ts, timer_list := l\<rparr>)))"

definition net_timer_first_tmo :: "('p, 'a) timer_state_scheme \<Rightarrow> int" where
  "net_timer_first_tmo s = (case timer_list s of [] \<Rightarrow> 0 | node # _ \<Rightarrow> tm_curr (timers s node))"

section \<open>The times from now\<close>

fun expiries_from :: "int \<Rightarrow> (addr \<Rightarrow> 'p net_timer_t) \<Rightarrow> addr list \<Rightarrow> (addr \<times> int) list" where
  "expiries_from now ts [] = []"
| "expiries_from now ts (t # l) = (t, now + tm_curr (ts t)) # expiries_from (now + tm_curr (ts t)) ts l"

definition expiries :: "('p, 'a) timer_state_scheme \<Rightarrow> (addr \<times> int) list" where
  "expiries s = expiries_from 0 (timers s) (timer_list s)"

text \<open>No difference is negative and no timer is listed twice.\<close>

definition timers_ok :: "('p, 'a) timer_state_scheme \<Rightarrow> bool" where
  "timers_ok s \<longleftrightarrow> distinct (timer_list s) \<and> (\<forall>t\<in>set (timer_list s). 0 \<le> tm_curr (timers s t))"

text \<open>Insertion in the sorted sequence: after the first entry with the same time.\<close>

fun insert_expiry :: "addr \<times> int \<Rightarrow> (addr \<times> int) list \<Rightarrow> (addr \<times> int) list" where
  "insert_expiry x [] = [x]"
| "insert_expiry x (y # ys) =
     (if snd x > snd y then y # insert_expiry x ys
      else if snd x = snd y then y # x # ys
      else x # y # ys)"

lemma set_curr_simps [simp]:
  "tm_curr (set_curr t v ts u) = (if u = t then v else tm_curr (ts u))"
  "tm_flags (set_curr t v ts u) = tm_flags (ts u)" "tm_reload (set_curr t v ts u) = tm_reload (ts u)"
  "tm_proc (set_curr t v ts u) = tm_proc (ts u)" "tm_arg (set_curr t v ts u) = tm_arg (ts u)"
  "(set_curr t v ts u)\<lparr>tm_curr := c\<rparr> = (ts u)\<lparr>tm_curr := c\<rparr>"
  "u \<noteq> t \<Longrightarrow> set_curr t v ts u = ts u"
  by (simp_all add: set_curr_def)

lemma expiries_from_cong:
  "(\<And>t. t \<in> set l \<Longrightarrow> tm_curr (ts t) = tm_curr (ts' t)) \<Longrightarrow>
   expiries_from now ts l = expiries_from now ts' l"
  by (induction l arbitrary: now) auto

lemma expiries_from_set_curr [simp]:
  "t \<notin> set l \<Longrightarrow> expiries_from now (set_curr t v ts) l = expiries_from now ts l"
  by (rule expiries_from_cong) auto

lemma map_fst_expiries_from [simp]: "map fst (expiries_from now ts l) = l"
  by (induction l arbitrary: now) auto

lemma expiries_from_member: "(t, e) \<in> set (expiries_from now ts l) \<Longrightarrow> t \<in> set l"
  by (induction l arbitrary: now) auto

lemma expiries_from_shift:
  "expiries_from (now + d) ts l = map (\<lambda>(t, e). (t, e + d)) (expiries_from now ts l)"
proof (induction l arbitrary: now)
  case (Cons t l)
  from Cons.IH [of "now + tm_curr (ts t)"] show ?case by (simp add: ac_simps)
qed simp

text \<open>The loop of \<open>insert_timer\<close> only writes the times of the inserted and one listed timer.\<close>

lemma insert_timer_loop_spec:
  assumes "distinct l" "ins \<notin> set l" "\<forall>t\<in>set l. 0 \<le> tm_curr (ts t)" "0 \<le> tm_curr (ts ins)"
    "insert_timer_loop ts l ins = (ts', l')"
  shows "expiries_from now ts' l' = insert_expiry (ins, now + tm_curr (ts ins)) (expiries_from now ts l) \<and>
         distinct l' \<and> set l' = insert ins (set l) \<and> (\<forall>t\<in>set l'. 0 \<le> tm_curr (ts' t)) \<and>
         (\<forall>t. t \<notin> set l' \<longrightarrow> ts' t = ts t) \<and>
         (\<forall>t. (ts' t)\<lparr>tm_curr := 0\<rparr> = (ts t)\<lparr>tm_curr := 0\<rparr>)"
  using assms
proof (induction ts l ins arbitrary: ts' l' now rule: insert_timer_loop.induct)
  case (2 ts node rest ins)
  let ?d = "tm_curr (ts ins) - tm_curr (ts node)"
  show ?case
  proof (cases "tm_curr (ts ins) > tm_curr (ts node)")
    case True
    obtain ts1 l1 where r: "insert_timer_loop (set_curr ins ?d ts) rest ins = (ts1, l1)" by fastforce
    with 2(6) True have res: "ts' = ts1" "l' = node # l1" by simp_all
    have "node \<notin> set rest" "node \<noteq> ins" using 2(2,3) by auto
    with 2(1) [OF True _ _ _ _ r, where now = "now + tm_curr (ts node)"] 2(2-5) True r
    show ?thesis unfolding res by auto
  next
    case False
    with 2 show ?thesis by (auto split: if_splits)
  qed
qed (auto)

lemma remove_timer_loop_spec:
  assumes "distinct l" "\<forall>t\<in>set l. 0 \<le> tm_curr (ts t)" "remove_timer_loop ts l tm = (ts', l')"
  shows "expiries_from now ts' l' = filter (\<lambda>(t, e). t \<noteq> tm) (expiries_from now ts l) \<and>
         l' = remove1 tm l \<and> (\<forall>t\<in>set l'. 0 \<le> tm_curr (ts' t)) \<and>
         (\<forall>t. t \<notin> set l' \<longrightarrow> ts' t = ts t) \<and>
         (\<forall>t. (ts' t)\<lparr>tm_curr := 0\<rparr> = (ts t)\<lparr>tm_curr := 0\<rparr>)"
  using assms
proof (induction l arbitrary: ts' l' now)
  case (Cons node rest)
  show ?case
  proof (cases "node = tm")
    case False
    obtain ts1 l1 where r: "remove_timer_loop ts rest tm = (ts1, l1)" by fastforce
    with False Cons.prems have res: "ts' = ts1" "l' = node # l1" by simp_all
    with Cons.IH [OF _ _ r, of "now + tm_curr (ts node)"] Cons.prems False show ?thesis
      by (auto dest: notin_set_remove1)
  next
    case True
    have keep: "filter (\<lambda>(t, e). t \<noteq> tm) (expiries_from n ts rest) = expiries_from n ts rest" for n
      using Cons.prems(1) True
      by (intro filter_True) (auto dest: expiries_from_member)
    show ?thesis
    proof (cases rest)
      case Nil
      with Cons.prems True show ?thesis by simp
    next
      case (Cons nxt r)
      with \<open>distinct (node # rest)\<close> \<open>remove_timer_loop ts (node # rest) tm = (ts', l')\<close> True keep
        \<open>\<forall>t\<in>set (node # rest). 0 \<le> tm_curr (ts t)\<close>
      show ?thesis by (auto simp: ac_simps)
    qed
  qed
qed simp

lemma expiries_from_lower:
  "\<forall>t\<in>set l. 0 \<le> tm_curr (ts t) \<Longrightarrow> (u, e) \<in> set (expiries_from now ts l) \<Longrightarrow> now \<le> e"
  by (induction l arbitrary: now) fastforce+

lemma expire_loop_spec:
  assumes "distinct l" "\<forall>t\<in>set l. 0 \<le> tm_curr (ts t)" "expire_loop ts l diff = (ts', l', w)"
  shows "w @ l' = l \<and> w = map fst (filter (\<lambda>(t, e). e \<le> now + diff) (expiries_from now ts l)) \<and>
         expiries_from (now + diff) ts' l' = filter (\<lambda>(t, e). \<not> e \<le> now + diff) (expiries_from now ts l) \<and>
         (\<forall>t\<in>set l'. 0 \<le> tm_curr (ts' t)) \<and>
         (\<forall>t. (ts' t)\<lparr>tm_curr := 0\<rparr> = (ts t)\<lparr>tm_curr := 0\<rparr>)"
  using assms
proof (induction l arbitrary: ts ts' l' w now diff)
  case (Cons node rest)
  show ?case
  proof (cases "tm_curr (ts node) > diff")
    case True
    have later: "\<forall>x\<in>set (expiries_from (now + tm_curr (ts node)) ts rest). \<not> snd x \<le> now + diff"
      using expiries_from_lower [of rest ts] Cons.prems(2) True by fastforce
    then have "filter (\<lambda>(t, e). e \<le> now + diff) (expiries_from (now + tm_curr (ts node)) ts rest) = []"
      "filter (\<lambda>(t, e). \<not> e \<le> now + diff) (expiries_from (now + tm_curr (ts node)) ts rest) =
       expiries_from (now + tm_curr (ts node)) ts rest"
      by (auto simp: filter_empty_conv intro!: filter_True)
    with True Cons.prems show ?thesis by auto
  next
    case False
    obtain ts1 l1 w1 where r: "expire_loop (set_curr node 0 ts) rest (diff - tm_curr (ts node)) = (ts1, l1, w1)"
      by (metis prod_cases3)
    with False Cons.prems have res: "ts' = ts1" "l' = l1" "w = node # w1" by simp_all
    have n: "node \<notin> set rest" using Cons.prems(1) by simp
    have e: "now + tm_curr (ts node) + (diff - tm_curr (ts node)) = now + diff" by simp
    have nn: "\<forall>t\<in>set rest. 0 \<le> tm_curr (set_curr node 0 ts t)" using Cons.prems(2) by simp
    have d: "distinct rest" using Cons.prems(1) by simp
    note ih = Cons.IH [OF d nn r, of "now + tm_curr (ts node)", unfolded e]
    have "w @ l' = node # rest" using conjunct1 [OF ih] by (simp add: res)
    with conjunct2 [OF ih] n False show ?thesis by (simp add: res)
  qed
qed simp

lemma timers_ok_set: "timers_ok s \<Longrightarrow> map fst (expiries s) = timer_list s"
  by (simp add: expiries_def)

lemma insert_timer_spec:
  assumes "timers_ok s" "t \<notin> set (timer_list s)" "t \<notin> set (wait_list s)" "0 \<le> tm_curr (timers s t)"
  shows "\<exists>ts l. insert_timer t s = Some (s\<lparr>timers := ts, timer_list := l\<rparr>) \<and>
           timers_ok (s\<lparr>timers := ts, timer_list := l\<rparr>) \<and>
           expiries (s\<lparr>timers := ts, timer_list := l\<rparr>) = insert_expiry (t, tm_curr (timers s t)) (expiries s) \<and>
           set l = insert t (set (timer_list s)) \<and>
           (\<forall>u. (ts u)\<lparr>tm_curr := 0\<rparr> = (timers s u)\<lparr>tm_curr := 0\<rparr>)"
proof -
  obtain ts l where r: "insert_timer_loop (timers s) (timer_list s) t = (ts, l)" by fastforce
  from assms insert_timer_loop_spec [OF _ assms(2) _ assms(4) r, of 0] r show ?thesis
    by (auto simp: insert_timer_def timers_ok_def expiries_def)
qed

lemma set_insert_expiry [simp]: "set (insert_expiry x l) = insert x (set l)"
  by (induction l) auto

lemma insert_expiry_sorted:
  "sorted (map snd l) \<Longrightarrow> sorted (map snd (insert_expiry x l))"
  by (induction l) (auto split: if_splits)

lemma expiries_from_sorted:
  "\<forall>t\<in>set l. 0 \<le> tm_curr (ts t) \<Longrightarrow> sorted (map snd (expiries_from now ts l))"
  by (induction l arbitrary: now) (auto dest: expiries_from_lower)

lemma timers_ok_sorted: "timers_ok s \<Longrightarrow> sorted (map snd (expiries s))"
  by (simp add: timers_ok_def expiries_def expiries_from_sorted)

section \<open>Expiry of timers\<close>

definition due :: "int \<Rightarrow> ('p, 'a) timer_state_scheme \<Rightarrow> addr list" where
  "due d s = map fst (filter (\<lambda>(t, e). e \<le> d) (expiries s))"

definition periodic :: "('p, 'a) timer_state_scheme \<Rightarrow> addr \<Rightarrow> bool" where
  "periodic s t \<longleftrightarrow> tm_flags (timers s t) AND NET_TIMER_RELOAD \<noteq> 0"

lemma same_settings:
  assumes "(c'\<lparr>tm_curr := 0\<rparr> :: 'p net_timer_t) = c\<lparr>tm_curr := 0\<rparr>"
  shows "tm_flags c' = tm_flags c" "tm_reload c' = tm_reload c" "tm_proc c' = tm_proc c" "tm_arg c' = tm_arg c"
  using arg_cong [OF assms, of tm_flags] arg_cong [OF assms, of tm_reload] arg_cong [OF assms, of tm_proc] arg_cong [OF assms, of tm_arg]
  by simp_all

lemma net_timer_add_spec:
  assumes "timers_ok s" "0 \<le> ms" "net_timer_add t name proc arg ms flags s = Some (s', err)"
  shows "timers_ok s' \<and> expiries s' = insert_expiry (t, ms) (expiries s) \<and> wait_list s' = wait_list s \<and>
    set (timer_list s') = insert t (set (timer_list s)) \<and> t \<notin> set (timer_list s) \<and> err = NET_OK \<and>
    timer_state.more s' = timer_state.more s \<and> tm_reload (timers s' t) = ms \<and> tm_flags (timers s' t) = flags \<and>
    tm_proc (timers s' t) = proc \<and> tm_arg (timers s' t) = arg \<and>
    (\<forall>u. u \<noteq> t \<longrightarrow> (timers s' u)\<lparr>tm_curr := 0\<rparr> = (timers s u)\<lparr>tm_curr := 0\<rparr>)"
proof -
  let ?c = "\<lparr>tm_name = take (TIMER_NAME_SIZE - 1) name, tm_flags = flags, tm_curr = ms, tm_reload = ms, tm_proc = proc, tm_arg = arg\<rparr>"
  let ?s1 = "s\<lparr>timers := (timers s)(t := ?c)\<rparr>"
  have t: "t \<notin> set (timer_list s)" "t \<notin> set (wait_list s)" using assms(3) by (auto simp: net_timer_add_def insert_timer_def split: if_splits)
  have e: "expiries ?s1 = expiries s" using t(1) by (auto simp: expiries_def intro!: expiries_from_cong)
  have ok: "timers_ok ?s1" using assms(1) t(1) by (auto simp: timers_ok_def)
  obtain ts l where i: "insert_timer t ?s1 = Some (?s1\<lparr>timers := ts, timer_list := l\<rparr>)"
    "timers_ok (?s1\<lparr>timers := ts, timer_list := l\<rparr>)"
    "expiries (?s1\<lparr>timers := ts, timer_list := l\<rparr>) = insert_expiry (t, ms) (expiries s)" "set l = insert t (set (timer_list s))"
    and same: "\<forall>u. (ts u)\<lparr>tm_curr := 0\<rparr> = (((timers s)(t := ?c)) u)\<lparr>tm_curr := 0\<rparr>"
    using insert_timer_spec [OF ok, of t] assms(2) t e by auto
  have st: "(ts t)\<lparr>tm_curr := 0\<rparr> = ?c\<lparr>tm_curr := 0\<rparr>" using same by simp
  have s': "s' = ?s1\<lparr>timers := ts, timer_list := l\<rparr>" "err = NET_OK" using assms(3) i(1) by (simp_all add: net_timer_add_def)
  show ?thesis using i t(1) same same_settings [OF st] by (simp add: s')
qed

lemma net_timer_add_returns:
  "t \<notin> set (timer_list s) \<Longrightarrow> t \<notin> set (wait_list s) \<Longrightarrow> \<exists>s'. net_timer_add t name proc arg ms flags s = Some (s', NET_OK)"
  by (simp add: net_timer_add_def insert_timer_def case_prod_unfold Let_def)

lemma net_timer_remove_spec:
  assumes "timers_ok s"
  shows "timers_ok (net_timer_remove t s) \<and> expiries (net_timer_remove t s) = filter (\<lambda>(u, e). u \<noteq> t) (expiries s) \<and>
    wait_list (net_timer_remove t s) = wait_list s \<and> timer_list (net_timer_remove t s) = remove1 t (timer_list s) \<and>
    timer_state.more (net_timer_remove t s) = timer_state.more s \<and>
    (\<forall>u. (timers (net_timer_remove t s) u)\<lparr>tm_curr := 0\<rparr> = (timers s u)\<lparr>tm_curr := 0\<rparr>)"
proof -
  obtain ts l where r: "remove_timer_loop (timers s) (timer_list s) t = (ts, l)" by fastforce
  from assms remove_timer_loop_spec [OF _ _ r, of 0] r show ?thesis
    by (auto simp: net_timer_remove_def timers_ok_def expiries_def)
qed

text \<open>
  What a callback may do with timers: add and remove those of a set \<open>T\<close>, with delays that
  are not negative, any number of times, and change everything else of the state.
\<close>

inductive timer_ops :: "addr set \<Rightarrow> ('p, 'a) timer_state_scheme \<Rightarrow> ('p, 'a) timer_state_scheme \<Rightarrow> bool" for T s where
  ops_done: "timer_ops T s s"
| ops_add: "timer_ops T s s1 \<Longrightarrow> t \<in> T \<Longrightarrow> 0 \<le> ms \<Longrightarrow> net_timer_add t name proc arg ms flags s1 = Some (s2, err) \<Longrightarrow> timer_ops T s s2"
| ops_remove: "timer_ops T s s1 \<Longrightarrow> t \<in> T \<Longrightarrow> timer_ops T s (net_timer_remove t s1)"
| ops_other: "timer_ops T s s1 \<Longrightarrow> timers s2 = timers s1 \<Longrightarrow> timer_list s2 = timer_list s1 \<Longrightarrow> wait_list s2 = wait_list s1 \<Longrightarrow> timer_ops T s s2"

lemma timers_same: "timers s2 = timers s1 \<Longrightarrow> timer_list s2 = timer_list s1 \<Longrightarrow> expiries s2 = expiries s1 \<and> timers_ok s2 = timers_ok s1"
  by (simp add: expiries_def timers_ok_def)

text \<open>The timers outside of \<open>T\<close> keep their settings and their expiry times.\<close>

lemma timer_ops_spec:
  assumes "timer_ops T s s'" "timers_ok s"
  shows "timers_ok s' \<and> wait_list s' = wait_list s \<and> set (timer_list s') \<subseteq> set (timer_list s) \<union> T \<and>
    (\<forall>u. u \<notin> T \<longrightarrow> (timers s' u)\<lparr>tm_curr := 0\<rparr> = (timers s u)\<lparr>tm_curr := 0\<rparr>) \<and>
    (\<forall>u e. u \<notin> T \<longrightarrow> ((u, e) \<in> set (expiries s') \<longleftrightarrow> (u, e) \<in> set (expiries s))) \<and>
    (\<forall>u. 0 \<le> tm_reload (timers s u) \<longrightarrow> 0 \<le> tm_reload (timers s' u))"
  using assms
proof (induction rule: timer_ops.induct)
  case (ops_add s1 t ms name proc arg flags s2 err)
  then have k: "timers_ok s1" by simp
  note n = net_timer_add_spec [OF k ops_add(3,4)]
  have "0 \<le> tm_reload (timers s2 u)" if "0 \<le> tm_reload (timers s1 u)" for u
    using n ops_add(3) that same_settings(2) [of "timers s2 u" "timers s1 u"] by (cases "u = t") auto
  moreover have "(timers s2 u)\<lparr>tm_curr := 0\<rparr> = (timers s u)\<lparr>tm_curr := 0\<rparr>" if "u \<notin> T" for u
  proof -
    have "u \<noteq> t" using that ops_add(2) by auto
    then have "(timers s2 u)\<lparr>tm_curr := 0\<rparr> = (timers s1 u)\<lparr>tm_curr := 0\<rparr>" using n by blast
    also have "\<dots> = (timers s u)\<lparr>tm_curr := 0\<rparr>" using ops_add that by blast
    finally show ?thesis .
  qed
  ultimately show ?case using n ops_add by auto
next
  case (ops_remove s1 t)
  then have k: "timers_ok s1" by simp
  note n = net_timer_remove_spec [OF k, of t]
  have "tm_reload (timers (net_timer_remove t s1) u) = tm_reload (timers s1 u)" for u
    using n by (intro same_settings(2)) simp
  with n ops_remove show ?case by (auto dest: set_remove1_subset [THEN subsetD])
next
  case (ops_other s1 s2)
  with timers_same [OF ops_other(2,3)] show ?case by simp
qed auto

text \<open>
  A system of callbacks, with the timers that each touches, an invariant of the state
  around the timers, and a record of the calls made: a callback that is called for a timer
  on no list, while none of its timers waits to be fired, returns, touches only its timers,
  does not leave a periodic timer of its own listed, and is recorded.
\<close>

definition callbacks_ok ::
  "(('p, 'a) timer_state_scheme \<Rightarrow> bool) \<Rightarrow>
   ('p \<Rightarrow> addr \<Rightarrow> addr \<Rightarrow> ('p, 'a) timer_state_scheme \<Rightarrow> ('p, 'a) timer_state_scheme option) \<Rightarrow>
   ('p \<Rightarrow> addr \<Rightarrow> addr \<Rightarrow> addr set) \<Rightarrow> ('a \<Rightarrow> ('p \<times> addr \<times> addr) list) \<Rightarrow> bool" where
  "callbacks_ok I call T log \<longleftrightarrow>
     (\<forall>s ts l w. I s \<longrightarrow> I (s\<lparr>timers := ts, timer_list := l, wait_list := w\<rparr>)) \<and>
     (\<forall>p t a s. I s \<and> timers_ok s \<and> t \<notin> set (timer_list s) \<and> t \<notin> set (wait_list s) \<and> T p t a \<inter> set (wait_list s) = {} \<longrightarrow>
        (\<exists>s'. call p t a s = Some s' \<and> I s' \<and> timer_ops (T p t a) s s' \<and> (periodic s' t \<longrightarrow> t \<notin> set (timer_list s')) \<and>
           log (timer_state.more s') = log (timer_state.more s) @ [(p, t, a)]))"

lemma callbacks_inv: "callbacks_ok I call T log \<Longrightarrow> I s \<Longrightarrow> I (s\<lparr>timers := ts, timer_list := l, wait_list := w\<rparr>)"
  unfolding callbacks_ok_def by blast

lemma callbacks_call:
  assumes "callbacks_ok I call T log" "I s" "timers_ok s" "t \<notin> set (timer_list s)" "t \<notin> set (wait_list s)" "T p t a \<inter> set (wait_list s) = {}"
  obtains s' where "call p t a s = Some s'" "I s'" "timer_ops (T p t a) s s'" "periodic s' t \<longrightarrow> t \<notin> set (timer_list s')"
    "log (timer_state.more s') = log (timer_state.more s) @ [(p, t, a)]"
  using assms unfolding callbacks_ok_def by blast

text \<open>The call a timer makes, and the timers it touches.\<close>

definition call_of :: "('p, 'a) timer_state_scheme \<Rightarrow> addr \<Rightarrow> 'p \<times> addr \<times> addr" where
  "call_of s t = (tm_proc (timers s t), t, tm_arg (timers s t))"

definition touched_by :: "('p \<Rightarrow> addr \<Rightarrow> addr \<Rightarrow> addr set) \<Rightarrow> ('p, 'a) timer_state_scheme \<Rightarrow> addr \<Rightarrow> addr set" where
  "touched_by T s t = T (tm_proc (timers s t)) t (tm_arg (timers s t))"

lemma call_settings:
  assumes "(timers s' t)\<lparr>tm_curr := 0\<rparr> = (timers s t)\<lparr>tm_curr := 0\<rparr>"
  shows "call_of s' t = call_of s t" "touched_by T s' t = touched_by T s t" "periodic s' t = periodic s t"
    "tm_reload (timers s' t) = tm_reload (timers s t)"
  using same_settings [OF assms] by (simp_all add: call_of_def touched_by_def periodic_def)

text \<open>The reload after a callback.\<close>

definition reload :: "addr \<Rightarrow> ('p, 'a) timer_state_scheme \<Rightarrow> ('p, 'a) timer_state_scheme option" where
  "reload t s = (if periodic s t then insert_timer t (s\<lparr>timers := set_curr t (tm_reload (timers s t)) (timers s)\<rparr>) else Some s)"

lemma fire_loop_Cons:
  "fire_loop call (t # rest) s =
     do { s \<leftarrow> call (tm_proc (timers s t)) t (tm_arg (timers s t)) (s\<lparr>wait_list := rest\<rparr>); s \<leftarrow> reload t s; fire_loop call rest s }"
  by (simp add: reload_def periodic_def)

lemma reload_spec:
  assumes "timers_ok s" "periodic s t \<longrightarrow> t \<notin> set (timer_list s) \<and> t \<notin> set (wait_list s) \<and> 0 \<le> tm_reload (timers s t)"
  shows "\<exists>ts l. reload t s = Some (s\<lparr>timers := ts, timer_list := l\<rparr>) \<and> timers_ok (s\<lparr>timers := ts, timer_list := l\<rparr>) \<and>
    set l \<subseteq> insert t (set (timer_list s)) \<and>
    set (expiries (s\<lparr>timers := ts, timer_list := l\<rparr>)) = set (expiries s) \<union> (if periodic s t then {(t, tm_reload (timers s t))} else {}) \<and>
    (\<forall>u. (ts u)\<lparr>tm_curr := 0\<rparr> = (timers s u)\<lparr>tm_curr := 0\<rparr>)"
proof (cases "periodic s t")
  case True
  let ?s2 = "s\<lparr>timers := set_curr t (tm_reload (timers s t)) (timers s)\<rparr>"
  have "t \<notin> set (timer_list s)" using assms(2) True by blast
  then have e: "expiries ?s2 = expiries s" and ok: "timers_ok ?s2" using assms(1) by (auto simp: expiries_def timers_ok_def)
  from insert_timer_spec [OF ok, of t] assms(2) True e obtain ts l where
    i: "insert_timer t ?s2 = Some (?s2\<lparr>timers := ts, timer_list := l\<rparr>)" "timers_ok (?s2\<lparr>timers := ts, timer_list := l\<rparr>)"
      "expiries (?s2\<lparr>timers := ts, timer_list := l\<rparr>) = insert_expiry (t, tm_reload (timers s t)) (expiries s)"
      "set l = insert t (set (timer_list s))" "\<forall>u. (ts u)\<lparr>tm_curr := 0\<rparr> = (timers s u)\<lparr>tm_curr := 0\<rparr>" by auto
  with True show ?thesis by (intro exI [of _ ts] exI [of _ l]) (simp add: reload_def)
next
  case False
  then show ?thesis using assms(1) by (intro exI [of _ "timers s"] exI [of _ "timer_list s"]) (auto simp: reload_def)
qed

text \<open>What is known of the timers that wait to be fired.\<close>

definition waiting_ok :: "('p \<Rightarrow> addr \<Rightarrow> addr \<Rightarrow> addr set) \<Rightarrow> addr list \<Rightarrow> ('p, 'a) timer_state_scheme \<Rightarrow> bool" where
  "waiting_ok T w s \<longleftrightarrow> timers_ok s \<and> distinct w \<and> set w \<inter> set (timer_list s) = {} \<and>
     (\<forall>t\<in>set w. 0 \<le> tm_reload (timers s t) \<and> (\<forall>u\<in>set w. u \<noteq> t \<longrightarrow> u \<notin> touched_by T s t))"

text \<open>One round of the second loop.\<close>

lemma fire_step:
  assumes cb: "callbacks_ok I call T log" and I: "I s" and w: "waiting_ok T (t # rest) s"
  shows "\<exists>s1 s2. call (tm_proc (timers s t)) t (tm_arg (timers s t)) (s\<lparr>wait_list := rest\<rparr>) = Some s1 \<and> reload t s1 = Some s2 \<and>
    I s2 \<and> waiting_ok T rest s2 \<and> log (timer_state.more s2) = log (timer_state.more s) @ [call_of s t] \<and>
    (\<forall>u. u \<notin> touched_by T s t \<longrightarrow> (timers s2 u)\<lparr>tm_curr := 0\<rparr> = (timers s u)\<lparr>tm_curr := 0\<rparr> \<and>
      (\<forall>e. (u, e) \<in> set (expiries s2) \<longleftrightarrow> (if u = t then periodic s t \<and> e = tm_reload (timers s t) else (u, e) \<in> set (expiries s))))"
proof -
  let ?T = "touched_by T s t" and ?s0 = "s\<lparr>wait_list := rest\<rparr>"
  from w have ok: "timers_ok s" and d: "t \<notin> set rest" "distinct rest" "t \<notin> set (timer_list s)" "set rest \<inter> set (timer_list s) = {}"
    and r: "0 \<le> tm_reload (timers s t)" "\<And>u. u \<in> set rest \<Longrightarrow> 0 \<le> tm_reload (timers s u)"
    and dis: "\<And>u v. u \<in> set (t # rest) \<Longrightarrow> v \<in> set (t # rest) \<Longrightarrow> v \<noteq> u \<Longrightarrow> v \<notin> touched_by T s u"
    unfolding waiting_ok_def by auto
  have I0: "I ?s0" using callbacks_inv [OF cb I, where ts = "timers s" and l = "timer_list s" and w = rest] by simp
  have ok0: "timers_ok ?s0" and e0: "expiries ?s0 = expiries s" using ok by (simp_all add: timers_ok_def expiries_def)
  have "?T \<inter> set rest = {}" using dis [of t] d(1) by auto
  then have "T (tm_proc (timers s t)) t (tm_arg (timers s t)) \<inter> set (wait_list ?s0) = {}" by (simp add: touched_by_def)
  from callbacks_call [OF cb I0 ok0 _ _ this] d(1,3) obtain s1 where
    c: "call (tm_proc (timers s t)) t (tm_arg (timers s t)) ?s0 = Some s1" "I s1" "timer_ops ?T ?s0 s1" "periodic s1 t \<longrightarrow> t \<notin> set (timer_list s1)"
      "log (timer_state.more s1) = log (timer_state.more s) @ [call_of s t]"
    unfolding touched_by_def call_of_def by auto
  note o = timer_ops_spec [OF c(3) ok0]
  have o1: "timers_ok s1" "wait_list s1 = rest" "set (timer_list s1) \<subseteq> set (timer_list s) \<union> ?T"
    and o2: "\<And>u. u \<notin> ?T \<Longrightarrow> (timers s1 u)\<lparr>tm_curr := 0\<rparr> = (timers s u)\<lparr>tm_curr := 0\<rparr>"
    and o3: "\<And>u e. u \<notin> ?T \<Longrightarrow> (u, e) \<in> set (expiries s1) \<longleftrightarrow> (u, e) \<in> set (expiries s)"
    and o4: "\<And>u. 0 \<le> tm_reload (timers s u) \<Longrightarrow> 0 \<le> tm_reload (timers s1 u)"
    using o e0 by auto
  have "periodic s1 t \<longrightarrow> t \<notin> set (timer_list s1) \<and> t \<notin> set (wait_list s1) \<and> 0 \<le> tm_reload (timers s1 t)"
    using c(4) o1(2) d(1) o4 [OF r(1)] by simp
  from reload_spec [OF o1(1) this] obtain ts l where
    l: "reload t s1 = Some (s1\<lparr>timers := ts, timer_list := l\<rparr>)" "timers_ok (s1\<lparr>timers := ts, timer_list := l\<rparr>)" "set l \<subseteq> insert t (set (timer_list s1))"
      "set (expiries (s1\<lparr>timers := ts, timer_list := l\<rparr>)) = set (expiries s1) \<union> (if periodic s1 t then {(t, tm_reload (timers s1 t))} else {})"
      and same: "\<And>u. (ts u)\<lparr>tm_curr := 0\<rparr> = (timers s1 u)\<lparr>tm_curr := 0\<rparr>" by blast
  let ?s2 = "s1\<lparr>timers := ts, timer_list := l\<rparr>"
  have I2: "I ?s2" using callbacks_inv [OF cb c(2), where ts = ts and l = l and w = "wait_list s1"] by simp
  have s2: "(timers ?s2 u)\<lparr>tm_curr := 0\<rparr> = (timers s u)\<lparr>tm_curr := 0\<rparr>" if "u \<notin> ?T" for u using same [of u] o2 [OF that] by simp
  have rest: "u \<notin> ?T" "u \<noteq> t" if "u \<in> set rest" for u using that dis [of t u] d(1) by auto
  have w2: "waiting_ok T rest ?s2"
    unfolding waiting_ok_def
  proof (intro conjI ballI impI)
    show "set rest \<inter> set (timer_list ?s2) = {}" using l(3) o1(3) d rest by auto
    fix u assume u: "u \<in> set rest"
    note k = call_settings [OF s2 [OF rest(1) [OF u]]]
    show "0 \<le> tm_reload (timers ?s2 u)" using r(2) [OF u] k(4) by simp
    show "v \<notin> touched_by T ?s2 u" if "v \<in> set rest" "v \<noteq> u" for v using dis [of u v] that u k(2) by simp
  qed (use l(2) d(2) in simp_all)
  have ex: "(u, e) \<in> set (expiries ?s2) \<longleftrightarrow> (if u = t then periodic s t \<and> e = tm_reload (timers s t) else (u, e) \<in> set (expiries s))"
    if u: "u \<notin> ?T" for u e
  proof (cases "u = t")
    case True
    have "(t, e) \<notin> set (expiries s)" using d(3) by (auto simp: expiries_def dest: expiries_from_member)
    with True l(4) o3 [OF u, of e] call_settings(3,4) [OF o2 [OF u]] show ?thesis by auto
  next
    case False
    with l(4) o3 [OF u, of e] show ?thesis by auto
  qed
  show ?thesis using c(1,5) l(1) I2 w2 s2 ex by (intro exI [of _ s1] exI [of _ ?s2]) simp
qed

text \<open>The whole second loop.\<close>

lemma fire_loop_spec:
  assumes "callbacks_ok I call T log" "I s" "waiting_ok T w s"
  shows "\<exists>s'. fire_loop call w s = Some s' \<and> timers_ok s' \<and> wait_list s' = [] \<and> I s' \<and>
    log (timer_state.more s') = log (timer_state.more s) @ map (call_of s) w \<and>
    (\<forall>u e. (\<forall>t\<in>set w. u \<notin> touched_by T s t) \<longrightarrow>
      ((u, e) \<in> set (expiries s') \<longleftrightarrow> (if u \<in> set w then periodic s u \<and> e = tm_reload (timers s u) else (u, e) \<in> set (expiries s))))"
  using assms(2,3)
proof (induction w arbitrary: s)
  case Nil
  with callbacks_inv [OF assms(1) Nil(1), where ts = "timers s" and l = "timer_list s" and w = "[]"]
  show ?case by (simp add: timers_ok_def expiries_def waiting_ok_def)
next
  case (Cons t rest)
  from fire_step [OF assms(1) Cons.prems] obtain s1 s2 where
    f: "call (tm_proc (timers s t)) t (tm_arg (timers s t)) (s\<lparr>wait_list := rest\<rparr>) = Some s1" "reload t s1 = Some s2" "I s2" "waiting_ok T rest s2"
      "log (timer_state.more s2) = log (timer_state.more s) @ [call_of s t]"
    and keep: "\<And>u. u \<notin> touched_by T s t \<Longrightarrow> (timers s2 u)\<lparr>tm_curr := 0\<rparr> = (timers s u)\<lparr>tm_curr := 0\<rparr>"
    and ex: "\<And>u e. u \<notin> touched_by T s t \<Longrightarrow>
      (u, e) \<in> set (expiries s2) \<longleftrightarrow> (if u = t then periodic s t \<and> e = tm_reload (timers s t) else (u, e) \<in> set (expiries s))" by blast
  from Cons.IH [OF f(3,4)] obtain s' where
    n: "fire_loop call rest s2 = Some s'" "timers_ok s'" "wait_list s' = []" "I s'"
      "log (timer_state.more s') = log (timer_state.more s2) @ map (call_of s2) rest"
    and nx: "\<And>u e. (\<forall>v\<in>set rest. u \<notin> touched_by T s2 v) \<Longrightarrow>
      (u, e) \<in> set (expiries s') \<longleftrightarrow> (if u \<in> set rest then periodic s2 u \<and> e = tm_reload (timers s2 u) else (u, e) \<in> set (expiries s2))" by blast
  have dis: "u \<notin> touched_by T s t" if "u \<in> set rest" for u using Cons.prems(2) that by (auto simp: waiting_ok_def)
  note k = call_settings [OF keep]
  have calls: "map (call_of s2) rest = map (call_of s) rest" using k(1) dis by auto
  have fin: "(u, e) \<in> set (expiries s') \<longleftrightarrow> (if u \<in> set (t # rest) then periodic s u \<and> e = tm_reload (timers s u) else (u, e) \<in> set (expiries s))"
    if u: "\<forall>v\<in>set (t # rest). u \<notin> touched_by T s v" for u e
  proof -
    have "\<forall>v\<in>set rest. u \<notin> touched_by T s2 v" using u k(2) dis by auto
    note h = nx [OF this, of e]
    have t: "u \<notin> touched_by T s t" using u by simp
    have "t \<notin> set rest" using Cons.prems(2) by (simp add: waiting_ok_def)
    with h ex [OF t, of e] k(3,4) [OF t] show ?thesis by auto
  qed
  have "fire_loop call (t # rest) s = Some s'" using f(1,2) n(1) by (simp add: fire_loop_Cons del: fire_loop.simps)
  with n f(5) calls fin show ?case by (intro exI [of _ s']) simp
qed

section \<open>Properties\<close>

text \<open>C23. Adding a timer that is not linked keeps the list of expiry times sorted and puts
  the new timer, with its full delay, behind all earlier timers and before all later ones;
  the expiry time of no other timer changes.\<close>

theorem net_timer_add_refines:
  assumes "timers_ok s" "t \<notin> set (timer_list s)" "t \<notin> set (wait_list s)" "0 \<le> ms"
  shows "\<exists>s'. net_timer_add t name proc arg ms flags s = Some (s', NET_OK) \<and> timers_ok s' \<and>
           expiries s' = insert_expiry (t, ms) (expiries s) \<and> sorted (map snd (expiries s')) \<and>
           tm_proc (timers s' t) = proc \<and> tm_arg (timers s' t) = arg \<and> tm_reload (timers s' t) = ms"
proof -
  obtain s' where a: "net_timer_add t name proc arg ms flags s = Some (s', NET_OK)" using net_timer_add_returns [OF assms(2,3)] by blast
  from net_timer_add_spec [OF assms(1,4) a] timers_ok_sorted [of s'] a show ?thesis by blast
qed

definition sample_timers :: "nat timer_state" where
  "sample_timers =
     \<lparr>timers = (\<lambda>t. \<lparr>tm_name = [], tm_flags = (if t = 1 then 1 else 0), tm_curr = (if t = 1 then 100 else 50),
                     tm_reload = (if t = 1 then 100 else 150), tm_proc = 0, tm_arg = 0\<rparr>),
      timer_list = [1, 2], wait_list = []\<rparr>"

lemma sample_timers_ok: "timers_ok sample_timers"
  by (simp add: timers_ok_def sample_timers_def)

lemma sample_timers_expiries: "expiries sample_timers = [(1, 100), (2, 150)]"
  by (simp add: sample_timers_def expiries_def)

lemma sample_timers_lists: "timer_list sample_timers = [1, 2]" "wait_list sample_timers = []"
  by (simp_all add: sample_timers_def)

theorem net_timer_add_refines_witness:
  "\<exists>s'. net_timer_add 3 ''arp timer'' 7 0 120 1 sample_timers = Some (s', NET_OK) \<and>
        expiries s' = [(1, 100), (3, 120), (2, 150)]"
  using net_timer_add_refines [OF sample_timers_ok, of 3 120 "''arp timer''" 7 0 1]
  by (auto simp: sample_timers_expiries sample_timers_lists)

text \<open>Removing a timer takes exactly that timer out of the list and leaves the expiry
  time of every other timer as it was; removing a timer that is not listed changes nothing.\<close>

theorem net_timer_remove_refines:
  assumes "timers_ok s"
  shows "expiries (net_timer_remove t s) = filter (\<lambda>(u, e). u \<noteq> t) (expiries s) \<and>
         timers_ok (net_timer_remove t s) \<and> timer_list (net_timer_remove t s) = remove1 t (timer_list s)"
  using net_timer_remove_spec [OF assms] by blast

theorem net_timer_remove_refines_witness:
  "expiries (net_timer_remove 1 sample_timers) = [(2, 150)]"
  using net_timer_remove_refines [OF sample_timers_ok, of 1] by (simp add: sample_timers_expiries)

text \<open>C4. A scan after some time runs exactly the callbacks of the timers whose expiry time has passed, once each, with the argument they
  were added with and in the order of their expiry, and leaves the list of timers in order; the callbacks may add and remove
  timers, the own one included. A timer that no callback run in this scan adds or removes is afterwards listed with the elapsed
  time subtracted when it had not expired, with its full period when it had and is periodic, and not at all otherwise. The callbacks
  are assumed to return, to use delays that are not negative, not to touch another timer that expired in the same scan, and not
  to leave a periodic timer of their own listed.\<close>

theorem net_timer_check_tmo_fires:
  assumes "timers_ok s" "I s" "callbacks_ok I call T log" "\<And>t. t \<in> set (due d s) \<Longrightarrow> 0 \<le> tm_reload (timers s t)"
    "\<And>t u. t \<in> set (due d s) \<Longrightarrow> u \<in> set (due d s) \<Longrightarrow> u \<noteq> t \<Longrightarrow> u \<notin> touched_by T s t"
  shows "\<exists>s'. net_timer_check_tmo call d s = Some (s', NET_OK) \<and> timers_ok s' \<and> wait_list s' = [] \<and> I s' \<and>
    log (timer_state.more s') =
      log (timer_state.more s) @ map (\<lambda>t. (tm_proc (timers s t), t, tm_arg (timers s t))) (map fst (filter (\<lambda>(t, e). e \<le> d) (expiries s))) \<and>
    sorted (map snd (expiries s)) \<and>
    (\<forall>u e. (\<forall>t\<in>set (due d s). u \<notin> touched_by T s t) \<longrightarrow>
      ((u, e) \<in> set (expiries s') \<longleftrightarrow>
        (if u \<in> set (due d s) then periodic s u \<and> e = tm_reload (timers s u) else (u, e + d) \<in> set (expiries s))))"
proof -
  obtain ts l w where r: "expire_loop (timers s) (timer_list s) d = (ts, l, w)" by (metis prod_cases3)
  have ok: "distinct (timer_list s)" "\<forall>t\<in>set (timer_list s). 0 \<le> tm_curr (timers s t)"
    using assms(1) by (simp_all add: timers_ok_def)
  let ?s1 = "s\<lparr>timers := ts, timer_list := l\<rparr>"
  note sp = expire_loop_spec [OF ok r, of 0, simplified]
  have w: "w = due d s" unfolding due_def expiries_def by (rule conjunct1 [OF conjunct2 [OF sp]])
  have wl: "w @ l = timer_list s" by (rule conjunct1 [OF sp])
  have same: "(timers ?s1 u)\<lparr>tm_curr := 0\<rparr> = (timers s u)\<lparr>tm_curr := 0\<rparr>" for u using sp by simp
  note k = call_settings [OF same]
  have dl: "distinct (w @ l)" using ok wl by simp
  have ok1: "timers_ok ?s1" using sp dl by (simp add: timers_ok_def)
  have shift: "expiries_from d ts l = map (\<lambda>(t, e). (t, e + d)) (expiries ?s1)"
    using expiries_from_shift [of 0 d ts l] by (simp add: expiries_def)
  have left: "expiries_from d ts l = filter (\<lambda>(t, e). \<not> e \<le> d) (expiries s)" using sp by (simp add: expiries_def)
  have e1: "(u, e) \<in> set (expiries ?s1) \<longleftrightarrow> (u, e + d) \<in> set (expiries s)" if "u \<notin> set w" for u e
  proof -
    have "(u, e) \<in> set (expiries ?s1) \<longleftrightarrow> (u, e + d) \<in> set (expiries_from d ts l)" unfolding shift by force
    also have "\<dots> \<longleftrightarrow> (u, e + d) \<in> set (expiries s)" unfolding left using that by (force simp: w due_def)
    finally show ?thesis .
  qed
  have "waiting_ok T w ?s1" using ok1 dl assms(4,5) k w by (auto simp: waiting_ok_def)
  moreover have "I ?s1" using callbacks_inv [OF assms(3,2), where ts = ts and l = l and w = "wait_list s"] by simp
  moreover have "call_of ?s1 = call_of s" "touched_by T ?s1 = touched_by T s" "periodic ?s1 = periodic s" using k by (auto simp: fun_eq_iff)
  moreover have "tm_reload (timers ?s1 u) = tm_reload (timers s u)" for u by (rule k(4))
  ultimately obtain s' where f: "fire_loop call w ?s1 = Some s'" "timers_ok s'" "wait_list s' = []" "I s'"
    "log (timer_state.more s') = log (timer_state.more s) @ map (call_of s) w"
    "\<And>u e. (\<forall>t\<in>set w. u \<notin> touched_by T s t) \<Longrightarrow>
      (u, e) \<in> set (expiries s') \<longleftrightarrow> (if u \<in> set w then periodic s u \<and> e = tm_reload (timers s u) else (u, e) \<in> set (expiries ?s1))"
    using fire_loop_spec [OF assms(3), of ?s1 w] by auto
  have calls: "map (call_of s) w = map (\<lambda>t. (tm_proc (timers s t), t, tm_arg (timers s t))) (map fst (filter (\<lambda>(t, e). e \<le> d) (expiries s)))"
    by (simp add: w due_def call_of_def)
  have "(u, e) \<in> set (expiries s') \<longleftrightarrow> (if u \<in> set w then periodic s u \<and> e = tm_reload (timers s u) else (u, e + d) \<in> set (expiries s))"
    if "\<forall>t\<in>set w. u \<notin> touched_by T s t" for u e using f(6) [OF that, of e] e1 [of u e] by auto
  moreover have "net_timer_check_tmo call d s = Some (s', NET_OK)" using r f(1) by (simp add: net_timer_check_tmo_def)
  ultimately show ?thesis
    using f(2-5) timers_ok_sorted [OF assms(1)] unfolding w calls [unfolded w] by (intro exI [of _ s']) simp
qed

text \<open>Two timers expire: the first is periodic and leaves the timers alone, the second adds itself again for another delay.\<close>

definition sample_call ::
  "nat \<Rightarrow> addr \<Rightarrow> addr \<Rightarrow> (nat, (nat \<times> addr \<times> addr) list) timer_state_scheme \<Rightarrow> (nat, (nat \<times> addr \<times> addr) list) timer_state_scheme option" where
  "sample_call p t a s =
     do {
       s \<leftarrow> (if t = 2 then map_option fst (net_timer_add 2 ''again'' p a 70 0 s) else Some s);
       Some (timer_state.more_update (\<lambda>l. l @ [(p, t, a)]) s)
     }"

lemma sample_call_ok: "callbacks_ok (\<lambda>_. True) sample_call (\<lambda>p t a. if t = 2 then {2} else {}) (\<lambda>l. l)"
  unfolding callbacks_ok_def
proof (intro conjI allI impI TrueI, elim conjE)
  fix p t a and s :: "(nat, (nat \<times> addr \<times> addr) list) timer_state_scheme"
  assume ok: "timers_ok s" and n: "t \<notin> set (timer_list s)" "t \<notin> set (wait_list s)"
  let ?T = "if t = 2 then {2} else {} :: addr set"
  let ?P = "\<lambda>s'. sample_call p t a s = Some s' \<and> True \<and> timer_ops ?T s s' \<and> (periodic s' t \<longrightarrow> t \<notin> set (timer_list s')) \<and>
      timer_state.more s' = timer_state.more s @ [(p, t, a)]"
  show "\<exists>s'. ?P s'"
  proof (cases "t = 2")
    case True
    with net_timer_add_returns [of 2 s] n obtain s1 e where a: "net_timer_add 2 ''again'' p a 70 0 s = Some (s1, e)" by blast
    note sp = net_timer_add_spec [OF ok _ a]
    let ?s2 = "timer_state.more_update (\<lambda>l. l @ [(p, t, a)]) s1"
    have "timer_ops ?T s s1" using timer_ops.ops_add [OF timer_ops.ops_done _ _ a, of ?T] True by simp
    then have "timer_ops ?T s ?s2" by (rule timer_ops.ops_other) simp_all
    with True a sp show ?thesis by (intro exI [of _ ?s2]) (simp add: sample_call_def periodic_def)
  next
    case False
    let ?s2 = "timer_state.more_update (\<lambda>l. l @ [(p, t, a)]) s"
    have "timer_ops ?T s ?s2" by (rule timer_ops.ops_other [OF timer_ops.ops_done]) simp_all
    with False n show ?thesis by (intro exI [of _ ?s2]) (simp add: sample_call_def)
  qed
qed

theorem net_timer_check_tmo_fires_witness:
  "\<exists>s'. net_timer_check_tmo sample_call 160 (timer_state.extend sample_timers []) = Some (s', NET_OK) \<and>
        timer_state.more s' = [(0, 1, 0), (0, 2, 0)] \<and> (1, 100) \<in> set (expiries s')"
proof -
  let ?s = "timer_state.extend sample_timers [] :: (nat, (nat \<times> addr \<times> addr) list) timer_state_scheme"
  have f: "timers ?s = timers sample_timers" "timer_list ?s = [1, 2]" "timer_state.more ?s = []"
    by (simp_all add: timer_state.defs sample_timers_def)
  have ok: "timers_ok ?s" using sample_timers_ok f by (simp add: timers_ok_def sample_timers_lists)
  have e: "expiries ?s = [(1, 100), (2, 150)]" using sample_timers_expiries f by (simp add: expiries_def sample_timers_lists)
  have du: "due 160 ?s = [1, 2]" by (simp add: due_def e)
  have tm: "tm_reload (timers ?s t) = (if t = 1 then 100 else 150)" "tm_proc (timers ?s t) = 0" "tm_arg (timers ?s t) = 0" "periodic ?s 1" for t
    unfolding periodic_def f by (simp_all add: sample_timers_def)
  have "0 \<le> tm_reload (timers ?s t)" for t by (simp add: tm)
  moreover have "u \<notin> touched_by (\<lambda>p t a. if t = 2 then {2} else {}) ?s t" if "u \<noteq> t" for t u using that by (simp add: touched_by_def)
  ultimately show ?thesis
    using net_timer_check_tmo_fires [OF ok TrueI sample_call_ok, of 160] by (auto simp: du e f(3) tm tm(4) [simplified] touched_by_def)
qed

end
