(* ===== verification/Net_Packet.thy ===== *)
theory Net_Packet
  imports Net_Pool Net_Timer
begin

text \<open>
  \<^verbatim>\<open>src/common/packet_buffer.c\<close>, the storage of packets: the pools, the pages and the
  operations that change which bytes a packet holds.  A page is addressed by its number, a
  packet likewise.  A packet's \<^verbatim>\<open>page_list\<close> and the pools' free lists are the sequences
  that \<^verbatim>\<open>Net_List\<close> and \<^verbatim>\<open>Net_Pool\<close> show the linked lists to represent; a detached chain
  of pages, as \<^verbatim>\<open>page_alloc_list\<close> builds it, is a sequence too and the null pointer is the
  empty one.  The pointers \<^verbatim>\<open>data\<close> and \<^verbatim>\<open>page_offset\<close> point into a page's payload and are
  offsets from its start.  Null pointers, stale page pointers and accesses outside a
  payload give \<^term>\<open>None\<close>.  The lock only makes each operation atomic.

  The bytes of a packet are the concatenation of its pages' bytes; every operation is
  proved to do to that sequence what its name says, to keep the packet well formed and to
  keep every page either free or owned by exactly one packet.
\<close>

section \<open>Data\<close>

record page_t =
  pg_size :: int
  pg_data :: int
  pg_payload :: "u8 list"

record packet_t =
  total_size :: int
  page_list :: "addr list"
  ref :: int
  pos :: int
  cur_page :: ptr
  page_offset :: int

text \<open>
  The functions the stack passes to \<^verbatim>\<open>net_timer_add\<close>.  The state of the stack is one record
  that every component extends: the timers first, then the packets.
\<close>

datatype timer_proc = FRAG_TMO | ARP_CACHE_TMO | TCP_OUT_TIMER_TMO | TCP_KEEPALIVE_TMO | TCP_TIMEWAIT_TMO

record packet_state = "timer_proc timer_state" +
  page_pool :: "addr list"
  packet_pool :: "addr list"
  pages :: "addr \<Rightarrow> page_t"
  packets :: "addr \<Rightarrow> packet_t"

abbreviation rest_of :: "'a packet_state_scheme \<Rightarrow>
    (addr \<Rightarrow> timer_proc net_timer_t) \<times> addr list \<times> addr list \<times> 'a" where
  "rest_of s \<equiv> (timers s, timer_list s, wait_list s, packet_state.more s)"

definition upd_page :: "addr \<Rightarrow> (page_t \<Rightarrow> page_t) \<Rightarrow> 'a packet_state_scheme \<Rightarrow> 'a packet_state_scheme" where
  "upd_page pg f s = s\<lparr>pages := (pages s)(pg := f (pages s pg))\<rparr>"

definition upd_packet :: "addr \<Rightarrow> (packet_t \<Rightarrow> packet_t) \<Rightarrow> 'a packet_state_scheme \<Rightarrow> 'a packet_state_scheme" where
  "upd_packet p f s = s\<lparr>packets := (packets s)(p := f (packets s p))\<rparr>"

text \<open>Reads and writes of a page's payload, within its bounds.\<close>

definition page_read :: "page_t \<Rightarrow> int \<Rightarrow> int \<Rightarrow> u8 list option" where
  "page_read pg off n =
     (if 0 \<le> off \<and> 0 \<le> n \<and> off + n \<le> int (length (pg_payload pg))
      then Some (take (nat n) (drop (nat off) (pg_payload pg))) else None)"

definition page_write :: "page_t \<Rightarrow> int \<Rightarrow> u8 list \<Rightarrow> page_t option" where
  "page_write pg off bs =
     (if 0 \<le> off \<and> off + int (length bs) \<le> int (length (pg_payload pg))
      then Some (pg\<lparr>pg_payload := take (nat off) (pg_payload pg) @ bs @
                                  drop (nat off + length bs) (pg_payload pg)\<rparr>)
      else None)"

section \<open>Pages\<close>

text \<open>\<^verbatim>\<open>page_alloc\<close>; the null \<^verbatim>\<open>data\<close> pointer is overwritten by every caller.\<close>

definition page_alloc :: "'a packet_state_scheme \<Rightarrow> 'a packet_state_scheme \<times> ptr" where
  "page_alloc s =
     (case pool_alloc (page_pool s) of
        (pool, None) \<Rightarrow> (s\<lparr>page_pool := pool\<rparr>, None)
      | (pool, Some pg) \<Rightarrow>
          (upd_page pg (\<lambda>p. p\<lparr>pg_size := 0, pg_data := 0\<rparr>) (s\<lparr>page_pool := pool\<rparr>), Some pg))"

definition page_free :: "addr \<Rightarrow> 'a packet_state_scheme \<Rightarrow> 'a packet_state_scheme" where
  "page_free pg s = s\<lparr>page_pool := pool_free (page_pool s) pg\<rparr>"

fun page_free_list :: "addr list \<Rightarrow> 'a packet_state_scheme \<Rightarrow> 'a packet_state_scheme" where
  "page_free_list [] s = s"
| "page_free_list (pg # chain) s = page_free_list chain (page_free pg s)"

text \<open>The loop of \<^verbatim>\<open>page_alloc_list\<close>; \<open>chain\<close> is the chain built so far.\<close>

function page_alloc_loop ::
  "bool \<Rightarrow> int \<Rightarrow> addr list \<Rightarrow> 'a packet_state_scheme \<Rightarrow> 'a packet_state_scheme \<times> addr list" where
  "page_alloc_loop add_front sz chain s =
     (if sz = 0 then (s, chain)
      else case page_alloc s of
             (s, None) \<Rightarrow> (page_free_list chain s, [])
           | (s, Some pg) \<Rightarrow>
               let curr_size = (if sz > PACKET_PAGE_SIZE then PACKET_PAGE_SIZE else sz)
               in if add_front
                  then page_alloc_loop add_front (sz - curr_size) (pg # chain)
                         (upd_page pg (\<lambda>p. p\<lparr>pg_size := curr_size, pg_data := PACKET_PAGE_SIZE - curr_size\<rparr>) s)
                  else page_alloc_loop add_front (sz - curr_size) (chain @ [pg])
                         (upd_page pg (\<lambda>p. p\<lparr>pg_size := curr_size, pg_data := 0\<rparr>) s))"
  by pat_completeness auto
termination
  by (relation "measure (\<lambda>(_, sz, _, _). nat (abs sz))") (auto split: if_splits)

declare page_alloc_loop.simps [simp del]

definition page_alloc_list :: "int \<Rightarrow> bool \<Rightarrow> 'a packet_state_scheme \<Rightarrow> 'a packet_state_scheme \<times> addr list" where
  "page_alloc_list sz add_front s = page_alloc_loop add_front sz [] s"

section \<open>Packets\<close>

definition page_next :: "packet_t \<Rightarrow> addr \<Rightarrow> ptr option" where
  "page_next p pg = (if pg \<in> set (page_list p) then Some (list_succ (page_list p) pg) else None)"

definition packet_first_page :: "packet_t \<Rightarrow> ptr" where
  "packet_first_page p = hd_ptr (page_list p)"

definition packet_last_page :: "packet_t \<Rightarrow> ptr" where
  "packet_last_page p = last_ptr (page_list p)"

definition packet_total_size :: "packet_t \<Rightarrow> int" where
  "packet_total_size p = total_size p"

text \<open>\<^verbatim>\<open>packet_data\<close>: the bytes from the first page's data pointer to the end of its payload.\<close>

definition packet_data :: "'a packet_state_scheme \<Rightarrow> addr \<Rightarrow> u8 list option" where
  "packet_data s p =
     map_option (\<lambda>pg. drop (nat (pg_data (pages s pg))) (pg_payload (pages s pg)))
       (packet_first_page (packets s p))"

fun insert_pages_last :: "addr \<Rightarrow> addr list \<Rightarrow> 'a packet_state_scheme \<Rightarrow> 'a packet_state_scheme" where
  "insert_pages_last p [] s = s"
| "insert_pages_last p (pg # chain) s =
     insert_pages_last p chain
       (upd_packet p (\<lambda>pk. pk\<lparr>page_list := page_list pk @ [pg],
                             total_size := total_size pk + pg_size (pages s pg)\<rparr>) s)"

fun insert_pages_first :: "addr \<Rightarrow> ptr \<Rightarrow> addr list \<Rightarrow> 'a packet_state_scheme \<Rightarrow> 'a packet_state_scheme" where
  "insert_pages_first p pre [] s = s"
| "insert_pages_first p pre (pg # chain) s =
     insert_pages_first p (Some pg) chain
       (upd_packet p (\<lambda>pk. pk\<lparr>page_list := (case pre of
                                None \<Rightarrow> pg # page_list pk
                              | Some q \<Rightarrow> insert_after q pg (page_list pk)),
                             total_size := total_size pk + pg_size (pages s pg)\<rparr>) s)"

definition packet_insert_page_list ::
  "addr \<Rightarrow> addr list \<Rightarrow> bool \<Rightarrow> 'a packet_state_scheme \<Rightarrow> 'a packet_state_scheme" where
  "packet_insert_page_list p chain add_last s =
     (if add_last then insert_pages_last p chain s else insert_pages_first p None chain s)"

definition packet_reset_pos :: "ptr \<Rightarrow> 'a packet_state_scheme \<Rightarrow> 'a packet_state_scheme" where
  "packet_reset_pos p s =
     (case p of
        None \<Rightarrow> s
      | Some p \<Rightarrow>
          upd_packet p (\<lambda>pk. pk\<lparr>pos := 0, cur_page := packet_first_page pk,
            page_offset := (case packet_first_page pk of None \<Rightarrow> 0 | Some pg \<Rightarrow> pg_data (pages s pg))\<rparr>) s)"

definition packet_inc_ref :: "addr \<Rightarrow> 'a packet_state_scheme \<Rightarrow> 'a packet_state_scheme" where
  "packet_inc_ref p s = upd_packet p (\<lambda>pk. pk\<lparr>ref := ref pk + 1\<rparr>) s"

definition curr_page_tail_free :: "page_t \<Rightarrow> int" where
  "curr_page_tail_free pg = PACKET_PAGE_SIZE - pg_data pg - pg_size pg"

definition packet_buffer_init :: "'a packet_state_scheme \<Rightarrow> 'a packet_state_scheme \<times> net_err_t" where
  "packet_buffer_init s =
     (s\<lparr>page_pool := [0..<PACKET_PAGE_CNT], packet_pool := [0..<PACKET_BUFFER_SIZE]\<rparr>, NET_OK)"

definition packet_alloc :: "int \<Rightarrow> 'a packet_state_scheme \<Rightarrow> 'a packet_state_scheme \<times> ptr" where
  "packet_alloc sz s =
     (case pool_alloc (packet_pool s) of
        (pool, None) \<Rightarrow> (s\<lparr>packet_pool := pool\<rparr>, None)
      | (pool, Some p) \<Rightarrow>
          let s = upd_packet p (\<lambda>pk. pk\<lparr>ref := 1, total_size := 0, page_list := []\<rparr>) (s\<lparr>packet_pool := pool\<rparr>)
          in if sz \<noteq> 0
             then case page_alloc_list sz False s of
                    (s, []) \<Rightarrow> (s\<lparr>packet_pool := pool_free (packet_pool s) p\<rparr>, None)
                  | (s, chain) \<Rightarrow> (packet_reset_pos (Some p) (packet_insert_page_list p chain True s), Some p)
             else (packet_reset_pos (Some p) s, Some p))"

text \<open>\<^verbatim>\<open>assert_halt(packet->ref != 0, ...)\<close>.\<close>

definition assert_live :: "addr \<Rightarrow> 'a packet_state_scheme \<Rightarrow> unit option" where
  "assert_live p s = (if ref (packets s p) \<noteq> 0 then Some () else None)"

definition packet_add_header ::
  "addr \<Rightarrow> int \<Rightarrow> bool \<Rightarrow> 'a packet_state_scheme \<Rightarrow> ('a packet_state_scheme \<times> net_err_t) option" where
  "packet_add_header p sz cont s =
     do {
       assert_live p s;
       page \<leftarrow> packet_first_page (packets s p);
       let resv_size = pg_data (pages s page);
       if sz \<le> resv_size
       then Some (upd_packet p (\<lambda>pk. pk\<lparr>total_size := total_size pk + sz\<rparr>)
                    (upd_page page (\<lambda>g. g\<lparr>pg_size := pg_size g + sz, pg_data := pg_data g - sz\<rparr>) s), NET_OK)
       else if cont
       then if sz > PACKET_PAGE_SIZE then Some (s, NET_ERR_SIZE)
            else case page_alloc_list sz True s of
                   (s, []) \<Rightarrow> Some (s, NET_ERR_MEM)
                 | (s, chain) \<Rightarrow> Some (packet_insert_page_list p chain False s, NET_OK)
       else let s = upd_packet p (\<lambda>pk. pk\<lparr>total_size := total_size pk + resv_size\<rparr>)
                      (upd_page page (\<lambda>g. g\<lparr>pg_data := 0, pg_size := pg_size g + resv_size\<rparr>) s)
            in case page_alloc_list (sz - resv_size) True s of
                 (s, []) \<Rightarrow> Some (s, NET_ERR_MEM)
               | (s, chain) \<Rightarrow> Some (packet_insert_page_list p chain False s, NET_OK)
     }"

text \<open>
  The loop of \<^verbatim>\<open>packet_remove_header\<close>.  The argument \<open>chain\<close> is the pages from \<^verbatim>\<open>page\<close> on,
  which at every iteration are those of the packet's list; the null page is the empty chain.
\<close>

fun remove_header_loop ::
  "addr \<Rightarrow> addr list \<Rightarrow> int \<Rightarrow> 'a packet_state_scheme \<Rightarrow> 'a packet_state_scheme option" where
  "remove_header_loop p [] sz s = (if sz = 0 then Some s else None)"
| "remove_header_loop p (page # chain) sz s =
     (if sz = 0 then Some s
      else if sz < pg_size (pages s page)
      then Some (upd_packet p (\<lambda>pk. pk\<lparr>total_size := total_size pk - sz\<rparr>)
                   (upd_page page (\<lambda>g. g\<lparr>pg_data := pg_data g + sz, pg_size := pg_size g - sz\<rparr>) s))
      else let curr_size = pg_size (pages s page)
           in remove_header_loop p chain (sz - curr_size)
                (upd_packet p (\<lambda>pk. pk\<lparr>total_size := total_size pk - curr_size\<rparr>)
                   (page_free page (upd_packet p (\<lambda>pk. pk\<lparr>page_list := tl (page_list pk)\<rparr>) s))))"

definition packet_remove_header ::
  "addr \<Rightarrow> int \<Rightarrow> 'a packet_state_scheme \<Rightarrow> ('a packet_state_scheme \<times> net_err_t) option" where
  "packet_remove_header p sz s =
     do {
       assert_live p s;
       s \<leftarrow> remove_header_loop p (page_list (packets s p)) sz s;
       Some (s, NET_OK)
     }"

text \<open>
  Shrinking: the loop that finds the new last page returns it with the pages behind it,
  the second loop gives those pages back.
\<close>

fun find_tail :: "(addr \<Rightarrow> page_t) \<Rightarrow> int \<Rightarrow> int \<Rightarrow> addr list \<Rightarrow> (addr \<times> addr list) option" where
  "find_tail pgs to_size tot [] = None"
| "find_tail pgs to_size tot (pg # chain) =
     (let tot = tot + pg_size (pgs pg)
      in if tot \<ge> to_size then Some (pg, chain) else find_tail pgs to_size tot chain)"

fun drop_pages_loop :: "addr \<Rightarrow> addr list \<Rightarrow> int \<Rightarrow> 'a packet_state_scheme \<Rightarrow> 'a packet_state_scheme \<times> int" where
  "drop_pages_loop p [] tot s = (s, tot)"
| "drop_pages_loop p (pg # chain) tot s =
     drop_pages_loop p chain (tot + pg_size (pages s pg))
       (page_free pg (upd_packet p (\<lambda>pk. pk\<lparr>page_list := remove1 pg (page_list pk)\<rparr>) s))"

definition packet_resize ::
  "addr \<Rightarrow> int \<Rightarrow> 'a packet_state_scheme \<Rightarrow> ('a packet_state_scheme \<times> net_err_t) option" where
  "packet_resize p to_size s =
     do {
       assert_live p s;
       let tot = total_size (packets s p);
       if to_size = tot then Some (s, NET_OK)
       else if tot = 0
       then case page_alloc_list to_size False s of
              (s, []) \<Rightarrow> Some (s, NET_ERR_MEM)
            | (s, chain) \<Rightarrow> Some (packet_insert_page_list p chain True s, NET_OK)
       else if to_size = 0
       then Some (upd_packet p (\<lambda>pk. pk\<lparr>total_size := 0, page_list := []\<rparr>)
                    (page_free_list (page_list (packets s p)) s), NET_OK)
       else if to_size > tot
       then do {
         tail_page \<leftarrow> packet_last_page (packets s p);
         let inc_size = to_size - tot;
         let remain_size = curr_page_tail_free (pages s tail_page);
         if remain_size \<ge> inc_size
         then Some (upd_packet p (\<lambda>pk. pk\<lparr>total_size := total_size pk + inc_size\<rparr>)
                      (upd_page tail_page (\<lambda>g. g\<lparr>pg_size := pg_size g + inc_size\<rparr>) s), NET_OK)
         else case page_alloc_list (inc_size - remain_size) False s of
                (s, []) \<Rightarrow> Some (s, NET_ERR_MEM)
              | (s, chain) \<Rightarrow>
                  Some (packet_insert_page_list p chain True
                          (upd_packet p (\<lambda>pk. pk\<lparr>total_size := total_size pk + remain_size\<rparr>)
                             (upd_page tail_page (\<lambda>g. g\<lparr>pg_size := pg_size g + remain_size\<rparr>) s)), NET_OK)
       }
       else case find_tail (pages s) to_size 0 (page_list (packets s p)) of
              None \<Rightarrow> Some (s, NET_ERR_SIZE)
            | Some (tail_page, chain) \<Rightarrow>
                let (s, dropped) = drop_pages_loop p chain 0 s
                in Some (upd_packet p (\<lambda>pk. pk\<lparr>total_size := to_size\<rparr>)
                           (upd_page tail_page
                              (\<lambda>g. g\<lparr>pg_size := pg_size g - (tot - dropped - to_size)\<rparr>) s), NET_OK)
     }"

definition packet_free :: "addr \<Rightarrow> 'a packet_state_scheme \<Rightarrow> 'a packet_state_scheme" where
  "packet_free p s =
     (let s = upd_packet p (\<lambda>pk. pk\<lparr>ref := ref pk - 1\<rparr>) s
      in if ref (packets s p) = 0
         then let s = page_free_list (page_list (packets s p)) s
              in s\<lparr>packet_pool := pool_free (packet_pool s) p\<rparr>
         else s)"

text \<open>
  The loop of \<^verbatim>\<open>packet_join\<close> over the pages of the source.  Joining a packet to itself
  would move its pages around without end.
\<close>

fun join_loop :: "addr \<Rightarrow> addr \<Rightarrow> addr list \<Rightarrow> 'a packet_state_scheme \<Rightarrow> 'a packet_state_scheme" where
  "join_loop dest src [] s = s"
| "join_loop dest src (first # chain) s =
     join_loop dest src chain
       (packet_insert_page_list dest [first] True
          (upd_packet src (\<lambda>pk. pk\<lparr>page_list := tl (page_list pk)\<rparr>) s))"

definition packet_join :: "addr \<Rightarrow> addr \<Rightarrow> 'a packet_state_scheme \<Rightarrow> ('a packet_state_scheme \<times> net_err_t) option" where
  "packet_join dest src s =
     do {
       assert_live dest s;
       assert_live src s;
       if dest = src then None
       else Some (packet_free src (join_loop dest src (page_list (packets s src)) s), NET_OK)
     }"

text \<open>
  \<^verbatim>\<open>packet_set_cont\<close>: the copy to the front of the first page, byte by byte, then the loop
  that moves bytes from the following pages to the first one.  A page that keeps bytes
  has given all that remained to be moved, so the loop ends there.
\<close>

fun move_down :: "nat \<Rightarrow> nat \<Rightarrow> nat \<Rightarrow> u8 list \<Rightarrow> u8 list" where
  "move_down i data 0 payload = payload"
| "move_down i data (Suc n) payload = move_down (Suc i) data n (payload[i := payload ! (data + i)])"

fun set_cont_loop ::
  "addr \<Rightarrow> addr \<Rightarrow> addr list \<Rightarrow> int \<Rightarrow> int \<Rightarrow> 'a packet_state_scheme \<Rightarrow> 'a packet_state_scheme option" where
  "set_cont_loop p first [] dest remain s = Some s"
| "set_cont_loop p first (cur_blk # chain) dest remain s =
     (if remain = 0 then Some s
      else
        let curr_size = (if pg_size (pages s cur_blk) > remain then remain else pg_size (pages s cur_blk))
        in do {
          bs \<leftarrow> page_read (pages s cur_blk) (pg_data (pages s cur_blk)) curr_size;
          fg \<leftarrow> page_write (pages s first) dest bs;
          let s = upd_page first (\<lambda>_. fg\<lparr>pg_size := pg_size fg + curr_size\<rparr>)
                    (upd_page cur_blk (\<lambda>g. g\<lparr>pg_data := pg_data g + curr_size, pg_size := pg_size g - curr_size\<rparr>) s);
          if pg_size (pages s cur_blk) = 0
          then set_cont_loop p first chain (dest + curr_size) (remain - curr_size)
                 (page_free cur_blk (upd_packet p (\<lambda>pk. pk\<lparr>page_list := remove1 cur_blk (page_list pk)\<rparr>) s))
          else Some s
        })"

definition packet_set_cont ::
  "addr \<Rightarrow> int \<Rightarrow> 'a packet_state_scheme \<Rightarrow> ('a packet_state_scheme \<times> net_err_t) option" where
  "packet_set_cont p sz s =
     do {
       assert_live p s;
       if sz > total_size (packets s p) then Some (s, NET_ERR_SIZE)
       else if sz > PACKET_PAGE_SIZE then Some (s, NET_ERR_SIZE)
       else do {
         first_pg \<leftarrow> packet_first_page (packets s p);
         if sz \<le> pg_size (pages s first_pg) then Some (s, NET_OK)
         else do {
           let fsz = pg_size (pages s first_pg);
           let s1 = upd_page first_pg
                      (\<lambda>g. g\<lparr>pg_payload := move_down 0 (nat (pg_data g)) (nat fsz) (pg_payload g),
                             pg_data := 0\<rparr>) s;
           s2 \<leftarrow> set_cont_loop p first_pg (tl (page_list (packets s p))) fsz (sz - fsz) s1;
           Some (s2, NET_OK)
         }
       }
     }"

section \<open>The bytes of a packet\<close>

definition page_bytes :: "page_t \<Rightarrow> u8 list" where
  "page_bytes g = take (nat (pg_size g)) (drop (nat (pg_data g)) (pg_payload g))"

definition chain_bytes :: "(addr \<Rightarrow> page_t) \<Rightarrow> addr list \<Rightarrow> u8 list" where
  "chain_bytes pgs chain = concat (map (\<lambda>pg. page_bytes (pgs pg)) chain)"

definition packet_bytes :: "'a packet_state_scheme \<Rightarrow> addr \<Rightarrow> u8 list" where
  "packet_bytes s p = chain_bytes (pages s) (page_list (packets s p))"

text \<open>A page in use is not empty and its bytes lie within its payload.\<close>

definition page_ok :: "page_t \<Rightarrow> bool" where
  "page_ok g \<longleftrightarrow> 0 < pg_size g \<and> 0 \<le> pg_data g \<and> pg_data g + pg_size g \<le> PACKET_PAGE_SIZE \<and>
                 length (pg_payload g) = 128"

text \<open>
  A packet that is in use: its pages are its own, not free, and its recorded size is
  the number of its bytes.
\<close>

definition packet_ok :: "'a packet_state_scheme \<Rightarrow> addr \<Rightarrow> bool" where
  "packet_ok s p \<longleftrightarrow>
     0 < ref (packets s p) \<and> distinct (page_pool s @ page_list (packets s p)) \<and>
     (\<forall>pg\<in>set (page_list (packets s p)). page_ok (pages s pg)) \<and>
     (\<forall>pg. length (pg_payload (pages s pg)) = 128) \<and>
     total_size (packets s p) = int (length (packet_bytes s p))"

lemma chain_bytes_simps [simp]:
  "chain_bytes pgs [] = []" "chain_bytes pgs (pg # chain) = page_bytes (pgs pg) @ chain_bytes pgs chain"
  "chain_bytes pgs (xs @ ys) = chain_bytes pgs xs @ chain_bytes pgs ys"
  by (simp_all add: chain_bytes_def)

lemma chain_bytes_cong: "(\<And>pg. pg \<in> set chain \<Longrightarrow> pgs pg = pgs' pg) \<Longrightarrow> chain_bytes pgs chain = chain_bytes pgs' chain"
  by (induction chain) auto

lemma chain_bytes_upd [simp]: "pg \<notin> set chain \<Longrightarrow> chain_bytes (pgs(pg := g)) chain = chain_bytes pgs chain"
  by (rule chain_bytes_cong) auto

lemma length_page_bytes: "page_ok g \<Longrightarrow> int (length (page_bytes g)) = pg_size g"
  by (auto simp: page_ok_def page_bytes_def min_def)

lemma length_chain_bytes:
  "\<forall>pg\<in>set chain. page_ok (pgs pg) \<Longrightarrow>
   int (length (chain_bytes pgs chain)) = sum_list (map (\<lambda>pg. pg_size (pgs pg)) chain)"
  by (induction chain) (auto simp: length_page_bytes)

section \<open>Page allocation\<close>

lemma page_free_list_eq: "page_free_list chain s = s\<lparr>page_pool := page_pool s @ chain\<rparr>"
  by (induction chain arbitrary: s) (simp_all add: page_free_def pool_free_def)

lemma page_alloc_Nil: "page_pool s = [] \<Longrightarrow> page_alloc s = (s, None)"
  by (simp add: page_alloc_def)

lemma page_alloc_Cons:
  "page_pool s = pg # r \<Longrightarrow>
   page_alloc s = (upd_page pg (\<lambda>p. p\<lparr>pg_size := 0, pg_data := 0\<rparr>) (s\<lparr>page_pool := r\<rparr>), Some pg)"
  by (simp add: page_alloc_def)

definition piece :: "int \<Rightarrow> int" where
  "piece sz = (if sz > PACKET_PAGE_SIZE then PACKET_PAGE_SIZE else sz)"

text \<open>
  The pages come from the front of the pool.  With enough free pages the chain has the
  requested size; otherwise all pages are back in the pool and the result is null.
\<close>

definition alloc_result ::
  "bool \<Rightarrow> int \<Rightarrow> addr list \<Rightarrow> 'a packet_state_scheme \<Rightarrow> (addr \<Rightarrow> page_t) \<Rightarrow> addr list \<Rightarrow> addr list \<Rightarrow> bool" where
  "alloc_result af sz chain s pgs pool' chain' \<longleftrightarrow>
     (\<forall>pg. pg \<notin> set (page_pool s) \<longrightarrow> pgs pg = pages s pg) \<and>
     (\<forall>pg. pg_payload (pgs pg) = pg_payload (pages s pg)) \<and>
     (if sz \<le> 128 * int (length (page_pool s))
      then \<exists>new. chain' = (if af then rev new @ chain else chain @ new) \<and> page_pool s = new @ pool' \<and>
             (\<forall>pg\<in>set new. page_ok (pgs pg)) \<and> sum_list (map (\<lambda>pg. pg_size (pgs pg)) new) = sz
      else chain' = [] \<and> set pool' = set (page_pool s) \<union> set chain \<and> distinct pool')"

text \<open>One more page taken from the pool.\<close>

lemma alloc_result_step:
  assumes pool: "page_pool s = pg # r" and d: "distinct (page_pool s @ chain)"
    and sz: "0 < sz" and pay: "\<forall>pg. length (pg_payload (pages s pg)) = 128"
    and dt: "dt = (if af then PACKET_PAGE_SIZE - piece sz else 0)"
    and res: "alloc_result af (sz - piece sz) (if af then pg # chain else chain @ [pg])
       (s\<lparr>page_pool := r, pages := (pages s)(pg := (pages s pg)\<lparr>pg_size := piece sz, pg_data := dt\<rparr>)\<rparr>) pgs pool' chain'"
  shows "alloc_result af sz chain s pgs pool' chain'"
proof -
  have n: "pg \<notin> set r" using d by (simp add: pool)
  have pc: "0 < piece sz" "piece sz \<le> 128" using sz by (auto simp: piece_def)
  have pgs: "pgs pg = (pages s pg)\<lparr>pg_size := piece sz, pg_data := dt\<rparr>"
    using res n by (simp add: alloc_result_def)
  have ok: "page_ok (pgs pg)" "pg_size (pgs pg) = piece sz"
    using pc pay dt by (auto simp: pgs page_ok_def)
  have room: "sz - piece sz \<le> 128 * int (length r) \<longleftrightarrow> sz \<le> 128 * int (length (page_pool s))"
    using sz by (auto simp: piece_def pool split: if_splits)
  have a: "\<forall>q. q \<notin> set (page_pool s) \<longrightarrow> pgs q = pages s q"
    "\<forall>q. pg_payload (pgs q) = pg_payload (pages s q)"
    using res by (auto simp: alloc_result_def pool)
  show ?thesis
  proof (cases "sz - piece sz \<le> 128 * int (length r)")
    case True
    with res obtain new where "chain' = (if af then rev new @ pg # chain else chain @ pg # new)" "r = new @ pool'"
      "\<forall>q\<in>set new. page_ok (pgs q)" "sum_list (map (\<lambda>q. pg_size (pgs q)) new) = sz - piece sz"
      by (auto simp: alloc_result_def)
    then have "chain' = (if af then rev (pg # new) @ chain else chain @ pg # new) \<and> page_pool s = (pg # new) @ pool' \<and>
        (\<forall>q\<in>set (pg # new). page_ok (pgs q)) \<and> sum_list (map (\<lambda>q. pg_size (pgs q)) (pg # new)) = sz"
      using ok by (auto simp: pool)
    with True room a show ?thesis unfolding alloc_result_def by (metis (no_types, lifting))
  next
    case False
    then have "chain' = [] \<and> set pool' = set (page_pool s) \<union> set chain \<and> distinct pool'"
      using res by (auto simp: alloc_result_def pool split: if_splits)
    with False room a show ?thesis by (simp add: alloc_result_def)
  qed
qed

lemma page_alloc_loop_spec:
  assumes "0 \<le> sz" "\<forall>pg. length (pg_payload (pages s pg)) = 128" "distinct (page_pool s @ chain)"
  shows "\<exists>pgs pool' chain'.
    page_alloc_loop af sz chain s = (s\<lparr>page_pool := pool', pages := pgs\<rparr>, chain') \<and>
    alloc_result af sz chain s pgs pool' chain'"
  using assms
proof (induction "page_pool s" arbitrary: s sz chain)
  case Nil
  have run: "page_alloc_loop af sz chain s =
      (s\<lparr>page_pool := (if sz = 0 then [] else chain), pages := pages s\<rparr>, if sz = 0 then chain else [])"
    using Nil by (subst page_alloc_loop.simps) (simp add: page_alloc_Nil page_free_list_eq)
  show ?case
    by (rule exI [of _ "pages s"], rule exI, rule exI, rule conjI [OF run]) (use Nil in \<open>auto simp: alloc_result_def\<close>)
next
  case (Cons pg r)
  have pool: "page_pool s = pg # r" using Cons.hyps(2) by simp
  show ?case
  proof (cases "sz = 0")
    case True
    then have run: "page_alloc_loop af sz chain s = (s\<lparr>page_pool := page_pool s, pages := pages s\<rparr>, chain)"
      by (subst page_alloc_loop.simps) simp
    show ?thesis
      by (rule exI [of _ "pages s"], rule exI, rule exI, rule conjI [OF run]) (use True in \<open>auto simp: alloc_result_def\<close>)
  next
    case False
    let ?d = "if af then PACKET_PAGE_SIZE - piece sz else 0"
    let ?s = "s\<lparr>page_pool := r, pages := (pages s)(pg := (pages s pg)\<lparr>pg_size := piece sz, pg_data := ?d\<rparr>)\<rparr>"
    let ?c = "if af then pg # chain else chain @ [pg]"
    have step: "page_alloc_loop af sz chain s = page_alloc_loop af (sz - piece sz) ?c ?s"
      using False
      by (subst page_alloc_loop.simps) (simp add: page_alloc_Cons [OF pool] piece_def upd_page_def)
    have "0 \<le> sz - piece sz" using Cons.prems(1) by (simp add: piece_def)
    moreover have "\<forall>q. length (pg_payload (pages ?s q)) = 128" using Cons.prems(2) by simp
    moreover have "distinct (page_pool ?s @ ?c)" using Cons.prems(3) by (auto simp: pool)
    ultimately obtain pgs pool' chain'
      where run: "page_alloc_loop af (sz - piece sz) ?c ?s = (?s\<lparr>page_pool := pool', pages := pgs\<rparr>, chain')"
        and res: "alloc_result af (sz - piece sz) ?c ?s pgs pool' chain'"
      using Cons.hyps(1) [of ?s "sz - piece sz" ?c] by auto
    have "page_alloc_loop af sz chain s = (s\<lparr>page_pool := pool', pages := pgs\<rparr>, chain')"
      using step run by simp
    moreover have "0 < sz" using False Cons.prems(1) by simp
    ultimately show ?thesis
      using alloc_result_step [OF pool Cons.prems(3) _ Cons.prems(2) refl res] by blast
  qed
qed

lemma page_alloc_list_ok:
  assumes "0 < sz" "sz \<le> 128 * int (length (page_pool s))"
    "\<forall>pg. length (pg_payload (pages s pg)) = 128" "distinct (page_pool s)"
  obtains pgs pool' chain where
    "page_alloc_list sz af s = (s\<lparr>page_pool := pool', pages := pgs\<rparr>, chain)"
    "page_pool s = (if af then rev chain else chain) @ pool'" "chain \<noteq> []"
    "\<forall>pg\<in>set chain. page_ok (pgs pg)" "int (length (chain_bytes pgs chain)) = sz"
    "\<forall>pg. pg \<notin> set (page_pool s) \<longrightarrow> pgs pg = pages s pg"
    "\<forall>pg. pg_payload (pgs pg) = pg_payload (pages s pg)"
proof -
  from page_alloc_loop_spec [of sz s "[]" af] assms obtain pgs pool' chain new
    where r: "page_alloc_list sz af s = (s\<lparr>page_pool := pool', pages := pgs\<rparr>, chain)"
      and c: "chain = (if af then rev new else new)" "page_pool s = new @ pool'"
        "\<forall>pg\<in>set new. page_ok (pgs pg)" "sum_list (map (\<lambda>pg. pg_size (pgs pg)) new) = sz"
      and o: "\<forall>pg. pg \<notin> set (page_pool s) \<longrightarrow> pgs pg = pages s pg"
        "\<forall>pg. pg_payload (pgs pg) = pg_payload (pages s pg)"
    by (auto simp: page_alloc_list_def alloc_result_def)
  have ok: "\<forall>pg\<in>set chain. page_ok (pgs pg)" using c by auto
  have "sum_list (map (\<lambda>pg. pg_size (pgs pg)) chain) = sz"
    using c by (simp flip: rev_map)
  with ok have "int (length (chain_bytes pgs chain)) = sz" by (simp add: length_chain_bytes)
  moreover have "chain \<noteq> []" using c assms(1) by auto
  ultimately show thesis using that [OF r _ _ ok _ o] c by simp
qed

lemma page_alloc_list_fail:
  assumes "0 < sz" "\<not> sz \<le> 128 * int (length (page_pool s))"
    "\<forall>pg. length (pg_payload (pages s pg)) = 128" "distinct (page_pool s)"
  obtains pgs pool' where
    "page_alloc_list sz af s = (s\<lparr>page_pool := pool', pages := pgs\<rparr>, [])"
    "set pool' = set (page_pool s)" "distinct pool'"
    "\<forall>pg. pg \<notin> set (page_pool s) \<longrightarrow> pgs pg = pages s pg"
    "\<forall>pg. pg_payload (pgs pg) = pg_payload (pages s pg)"
  using page_alloc_loop_spec [of sz s "[]" af] assms that
  by (auto simp: page_alloc_list_def alloc_result_def)

section \<open>What an operation may change\<close>

text \<open>
  The contract of an operation on packet \<open>p\<close>: the packet is well formed and holds the
  bytes \<open>bs\<close>, pages have only moved between it and the free list, and nothing else of the
  state has changed.
\<close>

definition pkt_frame :: "'a packet_state_scheme \<Rightarrow> addr \<Rightarrow> 'a packet_state_scheme \<Rightarrow> bool" where
  "pkt_frame s p s' \<longleftrightarrow>
     packet_pool s' = packet_pool s \<and> rest_of s' = rest_of s \<and>
     (\<forall>q. q \<noteq> p \<longrightarrow> packets s' q = packets s q) \<and> ref (packets s' p) = ref (packets s p) \<and>
     set (page_pool s') \<union> set (page_list (packets s' p)) = set (page_pool s) \<union> set (page_list (packets s p)) \<and>
     (\<forall>pg. pg \<notin> set (page_pool s) \<union> set (page_list (packets s p)) \<longrightarrow> pages s' pg = pages s pg)"

definition pkt_becomes :: "'a packet_state_scheme \<Rightarrow> addr \<Rightarrow> 'a packet_state_scheme \<Rightarrow> u8 list \<Rightarrow> bool" where
  "pkt_becomes s p s' bs \<longleftrightarrow> packet_ok s' p \<and> packet_bytes s' p = bs \<and> pkt_frame s p s'"

lemma pkt_frame_trans: "pkt_frame s p s1 \<Longrightarrow> pkt_frame s1 p s2 \<Longrightarrow> pkt_frame s p s2"
  by (auto simp: pkt_frame_def)

lemma packet_ok_live: "packet_ok s p \<Longrightarrow> assert_live p s = Some ()"
  by (simp add: packet_ok_def assert_live_def)

lemma packet_ok_total: "packet_ok s p \<Longrightarrow> total_size (packets s p) = int (length (packet_bytes s p))"
  by (simp add: packet_ok_def)

lemma insert_pages_last_eq:
  "insert_pages_last p chain s =
   upd_packet p (\<lambda>pk. pk\<lparr>page_list := page_list pk @ chain,
     total_size := total_size pk + sum_list (map (\<lambda>pg. pg_size (pages s pg)) chain)\<rparr>) s"
  by (induction chain arbitrary: s) (simp_all add: upd_packet_def add.assoc)

lemma insert_pages_first_Some:
  "distinct (xs @ q # chain @ ys) \<Longrightarrow> page_list (packets s p) = xs @ q # ys \<Longrightarrow>
   insert_pages_first p (Some q) chain s =
   upd_packet p (\<lambda>pk. pk\<lparr>page_list := xs @ q # chain @ ys,
     total_size := total_size pk + sum_list (map (\<lambda>pg. pg_size (pages s pg)) chain)\<rparr>) s"
proof (induction chain arbitrary: s xs q)
  case Nil
  have "(packets s p)\<lparr>page_list := xs @ q # ys\<rparr> = packets s p"
    unfolding Nil.prems(2) [symmetric] by simp
  then show ?case by (simp add: upd_packet_def)
next
  case (Cons pg chain)
  let ?s = "upd_packet p (\<lambda>pk. pk\<lparr>page_list := insert_after q pg (page_list pk),
                             total_size := total_size pk + pg_size (pages s pg)\<rparr>) s"
  have "page_list (packets ?s p) = (xs @ [q]) @ pg # ys"
    using Cons.prems by (simp add: upd_packet_def insert_after_append)
  with Cons.IH [of "xs @ [q]" pg ?s] Cons.prems show ?case
    by (simp add: upd_packet_def add.assoc)
qed

lemma insert_pages_first_eq:
  "distinct (chain @ page_list (packets s p)) \<Longrightarrow>
   insert_pages_first p None chain s =
   upd_packet p (\<lambda>pk. pk\<lparr>page_list := chain @ page_list pk,
     total_size := total_size pk + sum_list (map (\<lambda>pg. pg_size (pages s pg)) chain)\<rparr>) s"
proof (cases chain)
  case (Cons pg r)
  assume "distinct (chain @ page_list (packets s p))"
  with insert_pages_first_Some [of "[]" pg r "page_list (packets s p)"
      "upd_packet p (\<lambda>pk. pk\<lparr>page_list := pg # page_list pk, total_size := total_size pk + pg_size (pages s pg)\<rparr>) s"]
  show ?thesis using Cons by (simp add: upd_packet_def add.assoc)
qed (simp add: upd_packet_def)

text \<open>A chain of pages taken from the pool and linked before or behind a packet's pages.\<close>

lemma attach_chain:
  assumes ok: "packet_ok s p" and pool: "set (page_pool s) = set chain \<union> set pool'" "distinct (chain @ pool')"
    and chain: "\<forall>pg\<in>set chain. page_ok (pgs pg)"
    and same: "\<forall>pg. pg \<notin> set (page_pool s) \<longrightarrow> pgs pg = pages s pg"
    and pay: "\<forall>pg. pg_payload (pgs pg) = pg_payload (pages s pg)"
  shows "pkt_becomes s p (packet_insert_page_list p chain True (s\<lparr>page_pool := pool', pages := pgs\<rparr>))
           (packet_bytes s p @ chain_bytes pgs chain)"
    and "pkt_becomes s p (packet_insert_page_list p chain False (s\<lparr>page_pool := pool', pages := pgs\<rparr>))
           (chain_bytes pgs chain @ packet_bytes s p)"
proof -
  let ?l = "page_list (packets s p)"
  have l: "pgs pg = pages s pg" if "pg \<in> set ?l" for pg
    using that ok same by (auto simp: packet_ok_def)
  then have bytes: "chain_bytes pgs ?l = packet_bytes s p"
    by (auto simp: packet_bytes_def intro: chain_bytes_cong)
  have d: "distinct (chain @ ?l)" using ok pool by (auto simp: packet_ok_def)
  have sz: "sum_list (map (\<lambda>pg. pg_size (pgs pg)) chain) = int (length (chain_bytes pgs chain))"
    using chain by (simp add: length_chain_bytes)
  show "pkt_becomes s p (packet_insert_page_list p chain True (s\<lparr>page_pool := pool', pages := pgs\<rparr>))
           (packet_bytes s p @ chain_bytes pgs chain)"
    using ok pool chain same pay d l sz bytes
    by (auto simp: packet_insert_page_list_def insert_pages_last_eq pkt_becomes_def pkt_frame_def packet_ok_def
        upd_packet_def packet_bytes_def)
  show "pkt_becomes s p (packet_insert_page_list p chain False (s\<lparr>page_pool := pool', pages := pgs\<rparr>))
           (chain_bytes pgs chain @ packet_bytes s p)"
    using ok pool chain same pay d l sz bytes
    by (auto simp: packet_insert_page_list_def insert_pages_first_eq pkt_becomes_def pkt_frame_def packet_ok_def
        upd_packet_def packet_bytes_def)
qed

section \<open>Allocation and headers\<close>

definition at_start :: "'a packet_state_scheme \<Rightarrow> addr \<Rightarrow> bool" where
  "at_start s p \<longleftrightarrow>
     pos (packets s p) = 0 \<and> cur_page (packets s p) = packet_first_page (packets s p) \<and>
     page_offset (packets s p) =
       (case packet_first_page (packets s p) of None \<Rightarrow> 0 | Some pg \<Rightarrow> pg_data (pages s pg))"

lemma packet_reset_pos_becomes:
  assumes "packet_ok s p"
  shows "pkt_becomes s p (packet_reset_pos (Some p) s) (packet_bytes s p)"
    "at_start (packet_reset_pos (Some p) s) p"
    "page_list (packets (packet_reset_pos (Some p) s) p) = page_list (packets s p)"
    "pages (packet_reset_pos (Some p) s) = pages s" "page_pool (packet_reset_pos (Some p) s) = page_pool s"
  using assms
  by (auto simp: pkt_becomes_def packet_ok_def packet_bytes_def pkt_frame_def packet_reset_pos_def
      upd_packet_def at_start_def packet_first_page_def split: option.splits)

lemma packet_alloc_ok:
  assumes "packet_pool s = p # r" "0 \<le> sz" "sz \<le> 128 * int (length (page_pool s))"
    "\<forall>pg. length (pg_payload (pages s pg)) = 128" "distinct (page_pool s)"
  shows "\<exists>s'. packet_alloc sz s = (s', Some p) \<and> packet_ok s' p \<and> at_start s' p \<and>
           int (length (packet_bytes s' p)) = sz \<and> ref (packets s' p) = 1 \<and> packet_pool s' = r \<and>
           set (page_pool s') \<union> set (page_list (packets s' p)) = set (page_pool s) \<and>
           (\<forall>q. q \<noteq> p \<longrightarrow> packets s' q = packets s q) \<and>
           (\<forall>pg. pg \<notin> set (page_pool s) \<longrightarrow> pages s' pg = pages s pg) \<and>
           rest_of s' = rest_of s"
proof -
  let ?s = "upd_packet p (\<lambda>pk. pk\<lparr>ref := 1, total_size := 0, page_list := []\<rparr>) (s\<lparr>packet_pool := r\<rparr>)"
  have ok: "packet_ok ?s p" using assms by (simp add: packet_ok_def upd_packet_def packet_bytes_def)
  have e: "packet_bytes ?s p = []" by (simp add: packet_bytes_def upd_packet_def)
  have fr: "packet_pool ?s = r" "page_pool ?s = page_pool s" "pages ?s = pages s"
    "page_list (packets ?s p) = []" "ref (packets ?s p) = 1" "\<And>q. q \<noteq> p \<Longrightarrow> packets ?s q = packets s q"
    "rest_of ?s = rest_of s"
    by (simp_all add: upd_packet_def)
  show ?thesis
  proof (cases "sz = 0")
    case True
    then have run: "packet_alloc sz s = (packet_reset_pos (Some p) ?s, Some p)"
      using assms(1) by (simp add: packet_alloc_def)
    from packet_reset_pos_becomes [OF ok] fr True e run show ?thesis
      by (auto simp: pkt_becomes_def pkt_frame_def)
  next
    case False
    with assms(2) have pos: "0 < sz" by simp
    obtain pgs pool' chain where
      r: "page_alloc_list sz False ?s = (?s\<lparr>page_pool := pool', pages := pgs\<rparr>, chain)"
      and c: "page_pool s = chain @ pool'" "chain \<noteq> []" "\<forall>pg\<in>set chain. page_ok (pgs pg)"
        "int (length (chain_bytes pgs chain)) = sz" "\<forall>pg. pg \<notin> set (page_pool s) \<longrightarrow> pgs pg = pages s pg"
        "\<forall>pg. pg_payload (pgs pg) = pg_payload (pages s pg)"
      by (rule page_alloc_list_ok [OF pos, of ?s False]) (use assms(3-5) in \<open>simp_all add: fr\<close>)
    let ?s1 = "packet_insert_page_list p chain True (?s\<lparr>page_pool := pool', pages := pgs\<rparr>)"
    have b: "pkt_becomes ?s p ?s1 (packet_bytes ?s p @ chain_bytes pgs chain)"
      by (rule attach_chain(1) [OF ok]) (use c fr assms(5) in auto)
    have run: "packet_alloc sz s = (packet_reset_pos (Some p) ?s1, Some p)"
      using assms(1) False r c(2) by (cases chain) (simp_all add: packet_alloc_def)
    from b have "packet_ok ?s1 p" by (simp add: pkt_becomes_def)
    note rp = packet_reset_pos_becomes [OF this]
    have f: "pkt_frame ?s p (packet_reset_pos (Some p) ?s1)"
      using b rp(1) pkt_frame_trans by (auto simp: pkt_becomes_def)
    from rp f b e c run fr show ?thesis
      by (simp add: pkt_becomes_def pkt_frame_def)
  qed
qed

lemma packet_alloc_fail:
  assumes "packet_pool s = p # r" "0 < sz" "\<not> sz \<le> 128 * int (length (page_pool s))"
    "\<forall>pg. length (pg_payload (pages s pg)) = 128" "distinct (page_pool s)"
  shows "\<exists>s'. packet_alloc sz s = (s', None) \<and> packet_pool s' = r @ [p] \<and>
           set (page_pool s') = set (page_pool s) \<and> distinct (page_pool s') \<and>
           (\<forall>q. q \<noteq> p \<longrightarrow> packets s' q = packets s q) \<and>
           (\<forall>pg. pg \<notin> set (page_pool s) \<longrightarrow> pages s' pg = pages s pg) \<and>
           (\<forall>pg. pg_payload (pages s' pg) = pg_payload (pages s pg))"
proof -
  let ?s = "upd_packet p (\<lambda>pk. pk\<lparr>ref := 1, total_size := 0, page_list := []\<rparr>) (s\<lparr>packet_pool := r\<rparr>)"
  have fr: "page_pool ?s = page_pool s" "pages ?s = pages s" by (simp_all add: upd_packet_def)
  obtain pgs pool' where
    "page_alloc_list sz False ?s = (?s\<lparr>page_pool := pool', pages := pgs\<rparr>, [])"
    "set pool' = set (page_pool s)" "distinct pool'" "\<forall>pg. pg \<notin> set (page_pool s) \<longrightarrow> pgs pg = pages s pg"
    "\<forall>pg. pg_payload (pgs pg) = pg_payload (pages s pg)"
    by (rule page_alloc_list_fail [OF assms(2), of ?s False]) (use assms(3-5) in \<open>simp_all add: fr\<close>)
  with assms(1,2) show ?thesis by (auto simp: packet_alloc_def pool_free_def upd_packet_def)
qed

lemma page_bytes_grow_front:
  assumes "page_ok g" "0 \<le> n" "n \<le> pg_data g"
  shows "\<exists>h. page_bytes (g\<lparr>pg_size := pg_size g + n, pg_data := pg_data g - n\<rparr>) = h @ page_bytes g \<and> int (length h) = n"
proof (intro exI conjI)
  let ?h = "take (nat n) (drop (nat (pg_data g - n)) (pg_payload g))"
  have "nat (pg_size g + n) = nat n + nat (pg_size g)" "nat n + nat (pg_data g - n) = nat (pg_data g)"
    using assms by (auto simp: page_ok_def)
  then show "page_bytes (g\<lparr>pg_size := pg_size g + n, pg_data := pg_data g - n\<rparr>) = ?h @ page_bytes g"
    by (simp add: page_bytes_def take_add add.commute)
  show "int (length ?h) = n" using assms by (auto simp: page_ok_def min_def)
qed

lemma upd_simps [simp]:
  "pages (upd_packet p f s) = pages s" "page_pool (upd_packet p f s) = page_pool s"
  "packet_pool (upd_packet p f s) = packet_pool s" "packets (upd_page pg g s) = packets s"
  "page_pool (upd_page pg g s) = page_pool s" "packet_pool (upd_page pg g s) = packet_pool s"
  "timers (upd_packet p f s) = timers s" "timer_list (upd_packet p f s) = timer_list s" "wait_list (upd_packet p f s) = wait_list s" "packet_state.more (upd_packet p f s) = packet_state.more s"
  "timers (upd_page pg g s) = timers s" "timer_list (upd_page pg g s) = timer_list s" "wait_list (upd_page pg g s) = wait_list s" "packet_state.more (upd_page pg g s) = packet_state.more s"
  "packets (upd_packet p f s) q = (if q = p then f (packets s p) else packets s q)"
  "pages (upd_page pg g s) = (pages s)(pg := g (pages s pg))"
  by (simp_all add: upd_packet_def upd_page_def)

lemma packet_ok_Cons:
  assumes "packet_ok s p" "page_list (packets s p) = pg # chain"
  shows "page_ok (pages s pg)" "pg \<notin> set chain" "pg \<notin> set (page_pool s)"
    "packet_bytes s p = page_bytes (pages s pg) @ chain_bytes (pages s) chain"
    "int (length (page_bytes (pages s pg))) = pg_size (pages s pg)"
  using assms by (auto simp: packet_ok_def packet_bytes_def length_page_bytes)

text \<open>Replacing the first page's description, with its bytes changed accordingly.\<close>

lemma upd_first_page:
  assumes ok: "packet_ok s p" and l: "page_list (packets s p) = pg # chain"
    and g: "page_ok (f (pages s pg))" "int (length (page_bytes (f (pages s pg)))) = pg_size (pages s pg) + n"
  shows "pkt_becomes s p (upd_packet p (\<lambda>pk. pk\<lparr>total_size := total_size pk + n\<rparr>) (upd_page pg f s))
           (page_bytes (f (pages s pg)) @ chain_bytes (pages s) chain)"
  using ok l g packet_ok_Cons [OF ok l]
  by (auto simp: pkt_becomes_def pkt_frame_def packet_ok_def packet_bytes_def page_ok_def)

lemma grow_front:
  assumes ok: "packet_ok s p" and l: "page_list (packets s p) = pg # chain"
    and n: "0 \<le> n" "n \<le> pg_data (pages s pg)"
  shows "\<exists>h. int (length h) = n \<and>
    pkt_becomes s p (upd_packet p (\<lambda>pk. pk\<lparr>total_size := total_size pk + n\<rparr>)
       (upd_page pg (\<lambda>g. g\<lparr>pg_size := pg_size g + n, pg_data := pg_data g - n\<rparr>) s)) (h @ packet_bytes s p)"
proof -
  note c = packet_ok_Cons [OF ok l]
  from page_bytes_grow_front [OF c(1) n] obtain h
    where h: "page_bytes ((pages s pg)\<lparr>pg_size := pg_size (pages s pg) + n, pg_data := pg_data (pages s pg) - n\<rparr>) =
      h @ page_bytes (pages s pg)" "int (length h) = n" by blast
  from upd_first_page [OF ok l, of "\<lambda>g. g\<lparr>pg_size := pg_size g + n, pg_data := pg_data g - n\<rparr>" n] h c n
  show ?thesis by (auto simp: page_ok_def)
qed

lemma page_alloc_list_one:
  assumes "page_pool s = pg # r" "0 < sz" "sz \<le> 128"
  shows "page_alloc_list sz True s =
    (s\<lparr>page_pool := r, pages := (pages s)(pg := (pages s pg)\<lparr>pg_size := sz, pg_data := 128 - sz\<rparr>)\<rparr>, [pg])"
  using assms(2,3) unfolding page_alloc_list_def
  by (subst page_alloc_loop.simps, subst page_alloc_loop.simps)
     (simp add: page_alloc_Cons [OF assms(1)] upd_page_def)

text \<open>A header page allocated in front of a packet.\<close>

lemma prepend_alloc:
  assumes ok: "packet_ok s p" and sz: "0 < sz" "sz \<le> 128 * int (length (page_pool s))"
  shows "\<exists>h s1 chain. page_alloc_list sz True s = (s1, chain) \<and> chain \<noteq> [] \<and> int (length h) = sz \<and>
    pkt_becomes s p (packet_insert_page_list p chain False s1) (h @ packet_bytes s p) \<and>
    (sz \<le> 128 \<longrightarrow>
      pg_size (pages (packet_insert_page_list p chain False s1)
        (hd (page_list (packets (packet_insert_page_list p chain False s1) p)))) = sz)"
proof -
  have pre: "\<forall>pg. length (pg_payload (pages s pg)) = 128" "distinct (page_pool s)"
    using ok by (auto simp: packet_ok_def)
  obtain pgs pool' chain where r: "page_alloc_list sz True s = (s\<lparr>page_pool := pool', pages := pgs\<rparr>, chain)"
    and c: "page_pool s = rev chain @ pool'" "chain \<noteq> []" "\<forall>pg\<in>set chain. page_ok (pgs pg)"
      "int (length (chain_bytes pgs chain)) = sz"
      "\<forall>pg. pg \<notin> set (page_pool s) \<longrightarrow> pgs pg = pages s pg"
      "\<forall>pg. pg_payload (pgs pg) = pg_payload (pages s pg)"
    by (rule page_alloc_list_ok [OF sz pre, of True]) simp
  let ?s1 = "s\<lparr>page_pool := pool', pages := pgs\<rparr>"
  have b: "pkt_becomes s p (packet_insert_page_list p chain False ?s1) (chain_bytes pgs chain @ packet_bytes s p)"
    by (rule attach_chain(2) [OF ok]) (use c pre(2) in auto)
  have one: "pg_size (pages (packet_insert_page_list p chain False ?s1)
        (hd (page_list (packets (packet_insert_page_list p chain False ?s1) p)))) = sz" if "sz \<le> 128"
  proof -
    have "page_pool s \<noteq> []" using c(1,2) by simp
    then obtain pg rr where pool: "page_pool s = pg # rr" by (meson neq_Nil_conv)
    from page_alloc_list_one [OF pool sz(1) that] r
    have e: "chain = [pg]" "?s1 = s\<lparr>page_pool := rr, pages := (pages s)(pg := (pages s pg)\<lparr>pg_size := sz, pg_data := 128 - sz\<rparr>)\<rparr>"
      by simp_all
    have "pg \<notin> set (page_list (packets s p))" using ok pool by (auto simp: packet_ok_def)
    then show ?thesis unfolding e by (simp add: packet_insert_page_list_def)
  qed
  show ?thesis using r c(2,4) b one by blast
qed

lemma packet_add_header_ok:
  assumes ok: "packet_ok s p" and ne: "packet_bytes s p \<noteq> []" and sz: "0 \<le> sz" "cont \<longrightarrow> sz \<le> 128"
    and room: "sz \<le> 128 * int (length (page_pool s))"
  shows "\<exists>s' h. packet_add_header p sz cont s = Some (s', NET_OK) \<and> int (length h) = sz \<and>
           pkt_becomes s p s' (h @ packet_bytes s p) \<and>
           (cont \<longrightarrow> sz \<le> pg_size (pages s' (hd (page_list (packets s' p)))))"
proof -
  from ne obtain pg chain where l: "page_list (packets s p) = pg # chain"
    by (cases "page_list (packets s p)") (auto simp: packet_bytes_def)
  note c = packet_ok_Cons [OF ok l]
  have f: "packet_first_page (packets s p) = Some pg" by (simp add: packet_first_page_def l)
  show ?thesis
  proof (cases "sz \<le> pg_data (pages s pg)")
    case True
    from grow_front [OF ok l sz(1) True] obtain h where "int (length h) = sz"
      "pkt_becomes s p (upd_packet p (\<lambda>pk. pk\<lparr>total_size := total_size pk + sz\<rparr>)
       (upd_page pg (\<lambda>g. g\<lparr>pg_size := pg_size g + sz, pg_data := pg_data g - sz\<rparr>) s)) (h @ packet_bytes s p)" by blast
    with True f l c(1) show ?thesis
      by (auto simp: packet_add_header_def packet_ok_live [OF ok] page_ok_def)
  next
    case small: False
    with c(1) have pos: "0 < sz" by (simp add: page_ok_def)
    show ?thesis
    proof (cases cont)
      case True
      from prepend_alloc [OF ok pos room] obtain h s1 ch where r: "page_alloc_list sz True s = (s1, ch)" "ch \<noteq> []"
        and b: "int (length h) = sz" "pkt_becomes s p (packet_insert_page_list p ch False s1) (h @ packet_bytes s p)"
        and o: "sz \<le> 128 \<longrightarrow> pg_size (pages (packet_insert_page_list p ch False s1)
                (hd (page_list (packets (packet_insert_page_list p ch False s1) p)))) = sz" by blast
      from r(2) obtain x xs where ch: "ch = x # xs" by (cases ch) auto
      have "packet_add_header p sz cont s = Some (packet_insert_page_list p ch False s1, NET_OK)"
        using True small f sz r(1) ch by (simp add: packet_add_header_def packet_ok_live [OF ok])
      with b o True sz(2) show ?thesis by auto
    next
      case False
      let ?d = "pg_data (pages s pg)"
      let ?s0 = "upd_packet p (\<lambda>pk. pk\<lparr>total_size := total_size pk + ?d\<rparr>)
                   (upd_page pg (\<lambda>g. g\<lparr>pg_data := 0, pg_size := pg_size g + ?d\<rparr>) s)"
      have d: "0 \<le> ?d" using c(1) by (simp add: page_ok_def)
      have e: "?s0 = upd_packet p (\<lambda>pk. pk\<lparr>total_size := total_size pk + ?d\<rparr>)
                   (upd_page pg (\<lambda>g. g\<lparr>pg_size := pg_size g + ?d, pg_data := pg_data g - ?d\<rparr>) s)"
        by (cases "pages s pg") (simp add: upd_page_def)
      from grow_front [OF ok l d order_refl] obtain h1 where h1: "int (length h1) = ?d"
        "pkt_becomes s p ?s0 (h1 @ packet_bytes s p)" unfolding e by blast
      then have ok0: "packet_ok ?s0 p" and b0: "packet_bytes ?s0 p = h1 @ packet_bytes s p" and f0: "pkt_frame s p ?s0"
        by (simp_all add: pkt_becomes_def)
      have "0 < sz - ?d" "sz - ?d \<le> 128 * int (length (page_pool ?s0))" using small room d by simp_all
      from prepend_alloc [OF ok0 this] obtain h s1 ch where r: "page_alloc_list (sz - ?d) True ?s0 = (s1, ch)" "ch \<noteq> []"
        and b: "int (length h) = sz - ?d" "pkt_becomes ?s0 p (packet_insert_page_list p ch False s1) (h @ packet_bytes ?s0 p)"
        by blast
      from r(2) obtain x xs where ch: "ch = x # xs" by (cases ch) auto
      have run: "packet_add_header p sz cont s = Some (packet_insert_page_list p ch False s1, NET_OK)"
        using False small f r(1) ch by (simp add: packet_add_header_def packet_ok_live [OF ok] Let_def)
      have "pkt_becomes s p (packet_insert_page_list p ch False s1) ((h @ h1) @ packet_bytes s p)"
        using b(2) b0 f0 pkt_frame_trans by (auto simp: pkt_becomes_def)
      moreover have "int (length (h @ h1)) = sz" using b(1) h1(1) by simp
      ultimately show ?thesis using run False by blast
    qed
  qed
qed

section \<open>Removing a header\<close>

lemma page_bytes_drop:
  assumes "page_ok g" "0 \<le> n" "n < pg_size g"
  shows "page_bytes (g\<lparr>pg_data := pg_data g + n, pg_size := pg_size g - n\<rparr>) = drop (nat n) (page_bytes g)"
    "page_ok (g\<lparr>pg_data := pg_data g + n, pg_size := pg_size g - n\<rparr>)"
  using assms by (auto simp: page_bytes_def page_ok_def drop_take nat_add_distrib nat_diff_distrib add.commute)

lemma remove_header_loop_spec:
  assumes "packet_ok s p" "page_list (packets s p) = chain" "0 \<le> sz" "sz \<le> int (length (packet_bytes s p))"
  shows "\<exists>s'. remove_header_loop p chain sz s = Some s' \<and> pkt_becomes s p s' (drop (nat sz) (packet_bytes s p))"
  using assms
proof (induction chain arbitrary: s sz)
  case Nil
  then show ?case by (simp add: packet_bytes_def pkt_becomes_def pkt_frame_def)
next
  case (Cons pg chain)
  note ok = Cons.prems(1) and l = Cons.prems(2)
  note c = packet_ok_Cons [OF ok l]
  show ?case
  proof (cases "sz = 0 \<or> sz < pg_size (pages s pg)")
    case True
    show ?thesis
    proof (cases "sz = 0")
      case True
      with ok show ?thesis by (simp add: pkt_becomes_def pkt_frame_def)
    next
      case False
      with True have lt: "sz < pg_size (pages s pg)" by simp
      note pb = page_bytes_drop [OF c(1) Cons.prems(3) lt]
      have "int (length (page_bytes (pages s pg))) = pg_size (pages s pg)" by (rule c(5))
      then have n: "nat sz \<le> length (page_bytes (pages s pg))" using lt Cons.prems(3) by linarith
      from upd_first_page [OF ok l, of "\<lambda>g. g\<lparr>pg_data := pg_data g + sz, pg_size := pg_size g - sz\<rparr>" "- sz"] pb n c(4,5) Cons.prems(3)
      have "pkt_becomes s p (upd_packet p (\<lambda>pk. pk\<lparr>total_size := total_size pk - sz\<rparr>)
          (upd_page pg (\<lambda>g. g\<lparr>pg_data := pg_data g + sz, pg_size := pg_size g - sz\<rparr>) s)) (drop (nat sz) (packet_bytes s p))"
        by (simp add: of_nat_diff)
      with False lt show ?thesis by simp
    qed
  next
    case False
    let ?n = "pg_size (pages s pg)"
    let ?s = "upd_packet p (\<lambda>pk. pk\<lparr>total_size := total_size pk - ?n\<rparr>)
                (page_free pg (upd_packet p (\<lambda>pk. pk\<lparr>page_list := tl (page_list pk)\<rparr>) s))"
    have b: "packet_bytes ?s p = chain_bytes (pages s) chain"
      using l by (simp add: packet_bytes_def page_free_def)
    have ok1: "packet_ok ?s p"
      using ok l c by (auto simp: packet_ok_def page_free_def pool_free_def packet_bytes_def)
    have fr: "pkt_frame s p ?s" using l by (auto simp: pkt_frame_def page_free_def pool_free_def)
    have "page_list (packets ?s p) = chain" using l by (simp add: page_free_def)
    moreover have "0 \<le> sz - ?n" using False by simp
    moreover have "sz - ?n \<le> int (length (packet_bytes ?s p))"
      using Cons.prems(4) unfolding c(4) b by (simp add: c(5))
    ultimately obtain s' where r: "remove_header_loop p chain (sz - ?n) ?s = Some s'"
      and bc: "pkt_becomes ?s p s' (drop (nat (sz - ?n)) (packet_bytes ?s p))"
      using Cons.IH [OF ok1] by blast
    have ne: "length (page_bytes (pages s pg)) \<le> nat sz" "nat (sz - ?n) = nat sz - length (page_bytes (pages s pg))"
      using c(5) False Cons.prems(3) by linarith+
    have "drop (nat sz) (packet_bytes s p) = drop (nat (sz - ?n)) (packet_bytes ?s p)"
      unfolding c(4) b using ne by simp
    with bc fr pkt_frame_trans r False show ?thesis by (auto simp: pkt_becomes_def Let_def)
  qed
qed

lemma packet_remove_header_ok:
  assumes "packet_ok s p" "0 \<le> sz" "sz \<le> int (length (packet_bytes s p))"
  shows "\<exists>s'. packet_remove_header p sz s = Some (s', NET_OK) \<and>
           pkt_becomes s p s' (drop (nat sz) (packet_bytes s p))"
  using remove_header_loop_spec [OF assms(1) refl assms(2,3)]
  by (auto simp: packet_remove_header_def packet_ok_live [OF assms(1)])

text \<open>
  A negative size, as \<^verbatim>\<open>udp_in\<close> passes it, moves the start of the packet back into the
  bytes before it.
\<close>

lemma packet_remove_header_neg:
  assumes ok: "packet_ok s p" and l: "page_list (packets s p) = pg # chain"
    and n: "0 < n" "n \<le> pg_data (pages s pg)"
  shows "\<exists>s' h. packet_remove_header p (- n) s = Some (s', NET_OK) \<and> int (length h) = n \<and>
           pkt_becomes s p s' (h @ packet_bytes s p)"
proof -
  note c = packet_ok_Cons [OF ok l]
  from grow_front [OF ok l _ n(2)] n(1) obtain h where h: "int (length h) = n"
    "pkt_becomes s p (upd_packet p (\<lambda>pk. pk\<lparr>total_size := total_size pk + n\<rparr>)
       (upd_page pg (\<lambda>g. g\<lparr>pg_size := pg_size g + n, pg_data := pg_data g - n\<rparr>) s)) (h @ packet_bytes s p)" by auto
  have "(\<lambda>g :: page_t. g\<lparr>pg_data := pg_data g - n, pg_size := pg_size g + n\<rparr>) =
        (\<lambda>g. g\<lparr>pg_size := pg_size g + n, pg_data := pg_data g - n\<rparr>)"
    by (rule ext) simp
  then have "packet_remove_header p (- n) s = Some (upd_packet p (\<lambda>pk. pk\<lparr>total_size := total_size pk + n\<rparr>)
       (upd_page pg (\<lambda>g. g\<lparr>pg_size := pg_size g + n, pg_data := pg_data g - n\<rparr>) s), NET_OK)"
    using n(1) c(1) l by (simp add: packet_remove_header_def packet_ok_live [OF ok] page_ok_def)
  with h show ?thesis by blast
qed

section \<open>Resizing\<close>

lemma page_bytes_grow_back:
  assumes "page_ok g" "0 \<le> n" "n \<le> curr_page_tail_free g"
  shows "\<exists>t. page_bytes (g\<lparr>pg_size := pg_size g + n\<rparr>) = page_bytes g @ t \<and> int (length t) = n"
    "page_ok (g\<lparr>pg_size := pg_size g + n\<rparr>)"
proof -
  let ?t = "take (nat n) (drop (nat (pg_size g)) (drop (nat (pg_data g)) (pg_payload g)))"
  have "nat (pg_size g + n) = nat (pg_size g) + nat n" using assms by (simp add: page_ok_def nat_add_distrib)
  then have "page_bytes (g\<lparr>pg_size := pg_size g + n\<rparr>) = page_bytes g @ ?t"
    by (simp add: page_bytes_def take_add)
  moreover have "int (length ?t) = n"
    using assms by (auto simp: page_ok_def curr_page_tail_free_def min_def nat_add_distrib)
  ultimately show "\<exists>t. page_bytes (g\<lparr>pg_size := pg_size g + n\<rparr>) = page_bytes g @ t \<and> int (length t) = n" by blast
  show "page_ok (g\<lparr>pg_size := pg_size g + n\<rparr>)"
    using assms by (simp add: page_ok_def curr_page_tail_free_def)
qed

text \<open>Replacing the last page's description.\<close>

lemma upd_last_page:
  assumes ok: "packet_ok s p" and l: "page_list (packets s p) = chain @ [pg]"
    and g: "page_ok (f (pages s pg))" "int (length (page_bytes (f (pages s pg)))) = pg_size (pages s pg) + n"
  shows "pkt_becomes s p (upd_packet p (\<lambda>pk. pk\<lparr>total_size := total_size pk + n\<rparr>) (upd_page pg f s))
           (chain_bytes (pages s) chain @ page_bytes (f (pages s pg)))"
proof -
  have "page_ok (pages s pg)" using ok l by (simp add: packet_ok_def)
  then have "int (length (page_bytes (pages s pg))) = pg_size (pages s pg)" by (rule length_page_bytes)
  with ok l g show ?thesis
    by (auto simp: pkt_becomes_def pkt_frame_def packet_ok_def packet_bytes_def page_ok_def)
qed

lemma grow_back:
  assumes ok: "packet_ok s p" and l: "page_list (packets s p) = chain @ [pg]"
    and n: "0 \<le> n" "n \<le> curr_page_tail_free (pages s pg)"
  shows "\<exists>t. int (length t) = n \<and>
    pkt_becomes s p (upd_packet p (\<lambda>pk. pk\<lparr>total_size := total_size pk + n\<rparr>)
       (upd_page pg (\<lambda>g. g\<lparr>pg_size := pg_size g + n\<rparr>) s)) (packet_bytes s p @ t)"
proof -
  have g: "page_ok (pages s pg)" using ok l by (simp add: packet_ok_def)
  from page_bytes_grow_back [OF g n] obtain t
    where t: "page_bytes ((pages s pg)\<lparr>pg_size := pg_size (pages s pg) + n\<rparr>) = page_bytes (pages s pg) @ t"
      "int (length t) = n" "page_ok ((pages s pg)\<lparr>pg_size := pg_size (pages s pg) + n\<rparr>)" by blast
  from upd_last_page [OF ok l, of "\<lambda>g. g\<lparr>pg_size := pg_size g + n\<rparr>" n] t length_page_bytes [OF g] l
  show ?thesis by (auto simp: packet_bytes_def)
qed

lemma append_alloc:
  assumes ok: "packet_ok s p" and sz: "0 < sz" "sz \<le> 128 * int (length (page_pool s))"
  shows "\<exists>t s1 chain. page_alloc_list sz False s = (s1, chain) \<and> chain \<noteq> [] \<and> int (length t) = sz \<and>
    pkt_becomes s p (packet_insert_page_list p chain True s1) (packet_bytes s p @ t)"
proof -
  have pre: "\<forall>pg. length (pg_payload (pages s pg)) = 128" "distinct (page_pool s)"
    using ok by (auto simp: packet_ok_def)
  obtain pgs pool' chain where r: "page_alloc_list sz False s = (s\<lparr>page_pool := pool', pages := pgs\<rparr>, chain)"
    and c: "page_pool s = chain @ pool'" "chain \<noteq> []" "\<forall>pg\<in>set chain. page_ok (pgs pg)"
      "int (length (chain_bytes pgs chain)) = sz"
      "\<forall>pg. pg \<notin> set (page_pool s) \<longrightarrow> pgs pg = pages s pg"
      "\<forall>pg. pg_payload (pgs pg) = pg_payload (pages s pg)"
    by (rule page_alloc_list_ok [OF sz pre, of False]) simp
  have "pkt_becomes s p (packet_insert_page_list p chain True (s\<lparr>page_pool := pool', pages := pgs\<rparr>))
      (packet_bytes s p @ chain_bytes pgs chain)"
    by (rule attach_chain(1) [OF ok]) (use c pre(2) in auto)
  then show ?thesis using r c(2,4) by blast
qed

lemma find_tail_spec:
  assumes "\<forall>pg\<in>set chain. page_ok (pgs pg)" "tot < to_size"
    "to_size \<le> tot + sum_list (map (\<lambda>pg. pg_size (pgs pg)) chain)"
  shows "\<exists>xs pg ys. chain = xs @ pg # ys \<and> find_tail pgs to_size tot chain = Some (pg, ys) \<and>
    tot + sum_list (map (\<lambda>pg. pg_size (pgs pg)) xs) < to_size \<and>
    to_size \<le> tot + sum_list (map (\<lambda>pg. pg_size (pgs pg)) xs) + pg_size (pgs pg)"
  using assms
proof (induction chain arbitrary: tot)
  case (Cons pg chain)
  show ?case
  proof (cases "to_size \<le> tot + pg_size (pgs pg)")
    case True
    with Cons.prems show ?thesis by (intro exI [of _ "[]"]) auto
  next
    case False
    with Cons.prems Cons.IH [of "tot + pg_size (pgs pg)"] obtain xs q ys where
      "chain = xs @ q # ys" "find_tail pgs to_size (tot + pg_size (pgs pg)) chain = Some (q, ys)"
      "tot + pg_size (pgs pg) + sum_list (map (\<lambda>pg. pg_size (pgs pg)) xs) < to_size"
      "to_size \<le> tot + pg_size (pgs pg) + sum_list (map (\<lambda>pg. pg_size (pgs pg)) xs) + pg_size (pgs q)"
      by auto
    with False show ?thesis by (intro exI [of _ "pg # xs"]) (auto simp: add.assoc)
  qed
qed simp

lemma drop_pages_loop_eq:
  assumes "page_list (packets s p) = xs @ chain" "distinct (xs @ chain)"
  shows "drop_pages_loop p chain tot s =
    (upd_packet p (\<lambda>pk. pk\<lparr>page_list := xs\<rparr>) (s\<lparr>page_pool := page_pool s @ chain\<rparr>),
     tot + sum_list (map (\<lambda>pg. pg_size (pages s pg)) chain))"
  using assms
proof (induction chain arbitrary: s tot)
  case Nil
  have "(packets s p)\<lparr>page_list := xs\<rparr> = packets s p" using Nil.prems(1) by simp
  then show ?case by (simp add: upd_packet_def)
next
  case (Cons pg chain)
  let ?s = "page_free pg (upd_packet p (\<lambda>pk. pk\<lparr>page_list := remove1 pg (page_list pk)\<rparr>) s)"
  have "page_list (packets ?s p) = xs @ chain"
    using Cons.prems by (simp add: page_free_def remove1_split)
  from Cons.IH [OF this] Cons.prems show ?case
    by (simp add: page_free_def pool_free_def upd_packet_def add.assoc)
qed

lemma page_bytes_take:
  assumes "page_ok g" "0 < n" "n \<le> pg_size g"
  shows "page_bytes (g\<lparr>pg_size := n\<rparr>) = take (nat n) (page_bytes g)" "page_ok (g\<lparr>pg_size := n\<rparr>)"
  using assms by (auto simp: page_bytes_def page_ok_def min_def)

lemma packet_resize_ok:
  assumes ok: "packet_ok s p" and sz: "0 \<le> n"
    and room: "n - int (length (packet_bytes s p)) \<le> 128 * int (length (page_pool s))"
  shows "\<exists>s' t. packet_resize p n s = Some (s', NET_OK) \<and>
           pkt_becomes s p s' (take (nat n) (packet_bytes s p) @ t) \<and>
           int (length t) = max 0 (n - int (length (packet_bytes s p)))"
proof -
  let ?b = "packet_bytes s p"
  note tot = packet_ok_total [OF ok] and live = packet_ok_live [OF ok]
  consider "n = int (length ?b)" | "n \<noteq> int (length ?b)" "?b = []" | "n = 0" "?b \<noteq> []"
    | "n > int (length ?b)" "?b \<noteq> []" | "0 < n" "n < int (length ?b)"
    using sz by fastforce
  then show ?thesis
  proof cases
    case 1
    with ok tot live show ?thesis
      by (intro exI [of _ s] exI [of _ "[]"]) (simp add: packet_resize_def pkt_becomes_def pkt_frame_def)
  next
    case 2
    with sz have "0 < n" by simp
    with append_alloc [OF ok this] room 2 obtain t s1 ch where r: "page_alloc_list n False s = (s1, ch)" "ch \<noteq> []"
      "int (length t) = n" "pkt_becomes s p (packet_insert_page_list p ch True s1) (packet_bytes s p @ t)" by auto
    then obtain x xs where "ch = x # xs" by (cases ch) auto
    with r 2 tot live \<open>0 < n\<close> show ?thesis by (auto simp: packet_resize_def)
  next
    case 3
    with ok tot live show ?thesis
      by (intro exI exI [of _ "[]"]) (auto simp: packet_resize_def page_free_list_eq pkt_becomes_def pkt_frame_def
          packet_ok_def packet_bytes_def)
  next
    case 4
    then obtain chain pg where l: "page_list (packets s p) = chain @ [pg]"
      by (cases "page_list (packets s p)" rule: rev_cases) (auto simp: packet_bytes_def)
    then have lp: "packet_last_page (packets s p) = Some pg" by (simp add: packet_last_page_def)
    let ?inc = "n - int (length ?b)" and ?r = "curr_page_tail_free (pages s pg)"
    have g: "page_ok (pages s pg)" using ok l by (simp add: packet_ok_def)
    then have r0: "0 \<le> ?r" by (simp add: page_ok_def curr_page_tail_free_def)
    have tk: "take (nat n) ?b = ?b" using 4 by simp
    show ?thesis
    proof (cases "?inc \<le> ?r")
      case True
      from grow_back [OF ok l _ True] 4 tot live lp True tk show ?thesis
        by (auto simp: packet_resize_def Let_def)
    next
      case False
      let ?s0 = "upd_packet p (\<lambda>pk. pk\<lparr>total_size := total_size pk + ?r\<rparr>)
                   (upd_page pg (\<lambda>g. g\<lparr>pg_size := pg_size g + ?r\<rparr>) s)"
      from grow_back [OF ok l r0 order_refl] obtain t0 where t0: "int (length t0) = ?r" "pkt_becomes s p ?s0 (?b @ t0)"
        by blast
      have pos: "0 < ?inc - ?r" "?inc - ?r \<le> 128 * int (length (page_pool s))" using False room r0 by simp_all
      have pre: "\<forall>pg. length (pg_payload (pages s pg)) = 128" "distinct (page_pool s)"
        using ok by (auto simp: packet_ok_def)
      obtain pgs pool' ch where r: "page_alloc_list (?inc - ?r) False s = (s\<lparr>page_pool := pool', pages := pgs\<rparr>, ch)"
        and c: "page_pool s = ch @ pool'" "ch \<noteq> []" "\<forall>pg\<in>set ch. page_ok (pgs pg)"
          "int (length (chain_bytes pgs ch)) = ?inc - ?r"
          "\<forall>pg. pg \<notin> set (page_pool s) \<longrightarrow> pgs pg = pages s pg"
          "\<forall>pg. pg_payload (pgs pg) = pg_payload (pages s pg)"
        by (rule page_alloc_list_ok [OF pos pre, of False]) simp
      let ?pgs = "pgs(pg := (pgs pg)\<lparr>pg_size := pg_size (pgs pg) + ?r\<rparr>)"
      have n: "pg \<notin> set (page_pool s)" "pg \<notin> set ch" using ok l c(1) by (auto simp: packet_ok_def)
      have "packet_ok ?s0 p" using t0(2) by (simp add: pkt_becomes_def)
      then have b: "pkt_becomes ?s0 p (packet_insert_page_list p ch True (?s0\<lparr>page_pool := pool', pages := ?pgs\<rparr>))
          (packet_bytes ?s0 p @ chain_bytes ?pgs ch)"
        by (rule attach_chain(1)) (use c n pre(2) in auto)
      have e: "?s0\<lparr>page_pool := pool', pages := ?pgs\<rparr> =
          upd_packet p (\<lambda>pk. pk\<lparr>total_size := total_size pk + ?r\<rparr>)
            (upd_page pg (\<lambda>g. g\<lparr>pg_size := pg_size g + ?r\<rparr>) (s\<lparr>page_pool := pool', pages := pgs\<rparr>))"
        by (simp add: upd_packet_def upd_page_def)
      from c(2) obtain x xs where ch: "ch = x # xs" by (cases ch) auto
      have "packet_resize p n s = Some (packet_insert_page_list p ch True (?s0\<lparr>page_pool := pool', pages := ?pgs\<rparr>), NET_OK)"
        unfolding e using 4 live lp False r ch tot by (simp add: packet_resize_def Let_def)
      moreover have "pkt_becomes s p (packet_insert_page_list p ch True (?s0\<lparr>page_pool := pool', pages := ?pgs\<rparr>))
          (take (nat n) ?b @ t0 @ chain_bytes pgs ch)"
        using b t0(2) pkt_frame_trans n(2) tk by (auto simp: pkt_becomes_def)
      moreover have "int (length (t0 @ chain_bytes pgs ch)) = max 0 (n - int (length ?b))"
        using t0(1) c(4) 4 by simp
      ultimately show ?thesis by blast
    qed
  next
    case 5
    let ?sz = "\<lambda>l. sum_list (map (\<lambda>pg. pg_size (pages s pg)) l)"
    have oks: "\<forall>pg\<in>set (page_list (packets s p)). page_ok (pages s pg)" using ok by (simp add: packet_ok_def)
    have len: "int (length ?b) = ?sz (page_list (packets s p))"
      using length_chain_bytes [OF oks] by (simp add: packet_bytes_def)
    from find_tail_spec [OF oks, of 0 n] 5 len obtain xs pg ys where l: "page_list (packets s p) = xs @ pg # ys"
      and ft: "find_tail (pages s) n 0 (page_list (packets s p)) = Some (pg, ys)"
      and bd: "?sz xs < n" "n \<le> ?sz xs + pg_size (pages s pg)" by auto
    have d: "distinct ((xs @ [pg]) @ ys)" "distinct (page_pool s @ xs @ pg # ys)" using ok l by (auto simp: packet_ok_def)
    let ?k = "n - ?sz xs"
    let ?s1 = "upd_packet p (\<lambda>pk. pk\<lparr>page_list := xs @ [pg]\<rparr>) (s\<lparr>page_pool := page_pool s @ ys\<rparr>)"
    let ?s' = "upd_packet p (\<lambda>pk. pk\<lparr>total_size := n\<rparr>) (upd_page pg (\<lambda>g. g\<lparr>pg_size := ?k\<rparr>) ?s1)"
    have dl: "drop_pages_loop p ys 0 s = (?s1, ?sz ys)"
      using drop_pages_loop_eq [of s p "xs @ [pg]" ys 0] l d(1) by simp
    have k: "pg_size g - (int (length ?b) - ?sz ys - n) = pg_size g - pg_size (pages s pg) + ?k" for g
      using len l by simp
    have g: "page_ok (pages s pg)" using oks l by simp
    have pt: "page_bytes ((pages s pg)\<lparr>pg_size := ?k\<rparr>) = take (nat ?k) (page_bytes (pages s pg))"
      "page_ok ((pages s pg)\<lparr>pg_size := ?k\<rparr>)"
      by (rule page_bytes_take [OF g], use bd in simp_all)+
    have lx: "int (length (chain_bytes (pages s) xs)) = ?sz xs"
      using length_chain_bytes [of xs "pages s"] oks l by simp
    have "?b \<noteq> []" using 5 by auto
    then have run: "packet_resize p n s = Some (?s', NET_OK)"
      using 5 live tot ft dl by (simp add: packet_resize_def Let_def k) (simp add: upd_page_def)
    have bytes: "packet_bytes ?s' p = take (nat n) ?b"
    proof -
      have "nat n - length (chain_bytes (pages s) xs) = nat ?k" "length (chain_bytes (pages s) xs) \<le> nat n"
        using lx bd by linarith+
      moreover have "nat ?k \<le> length (page_bytes (pages s pg))"
        using length_page_bytes [OF g] bd by linarith
      ultimately show ?thesis using d(1) pt(1) by (simp add: packet_bytes_def l)
    qed
    have "packet_ok ?s' p"
      unfolding packet_ok_def bytes
      using ok oks d pt(2) l 5 by (auto simp: packet_ok_def)
    moreover have "pkt_frame s p ?s'" using l by (auto simp: pkt_frame_def)
    ultimately have "pkt_becomes s p ?s' (take (nat n) ?b @ [])" using bytes by (simp add: pkt_becomes_def)
    moreover have "int (length ([] :: u8 list)) = max 0 (n - int (length ?b))" using 5 by simp
    ultimately show ?thesis using run by blast
  qed
qed

section \<open>Release and concatenation\<close>

lemma packet_free_last:
  assumes "ref (packets s p) = 1"
  shows "packet_free p s =
    upd_packet p (\<lambda>pk. pk\<lparr>ref := 0\<rparr>)
      (s\<lparr>page_pool := page_pool s @ page_list (packets s p), packet_pool := packet_pool s @ [p]\<rparr>)"
  using assms by (simp add: packet_free_def page_free_list_eq pool_free_def upd_packet_def Let_def)

lemma packet_free_shared:
  assumes "ref (packets s p) \<noteq> 1"
  shows "packet_free p s = upd_packet p (\<lambda>pk. pk\<lparr>ref := ref pk - 1\<rparr>) s"
  using assms by (simp add: packet_free_def Let_def)

lemma join_loop_eq:
  assumes "dest \<noteq> src" "page_list (packets s src) = chain"
  shows "join_loop dest src chain s =
    upd_packet src (\<lambda>pk. pk\<lparr>page_list := []\<rparr>)
      (upd_packet dest (\<lambda>pk. pk\<lparr>page_list := page_list pk @ chain,
         total_size := total_size pk + sum_list (map (\<lambda>pg. pg_size (pages s pg)) chain)\<rparr>) s)"
  using assms
proof (induction chain arbitrary: s)
  case Nil
  then have "(packets s src)\<lparr>page_list := []\<rparr> = packets s src" by simp
  with Nil(1) show ?case by (simp add: upd_packet_def fun_upd_idem)
next
  case (Cons pg chain)
  let ?s = "packet_insert_page_list dest [pg] True (upd_packet src (\<lambda>pk. pk\<lparr>page_list := tl (page_list pk)\<rparr>) s)"
  have "page_list (packets ?s src) = chain"
    using Cons.prems by (simp add: packet_insert_page_list_def)
  from Cons.IH [OF Cons.prems(1) this] Cons.prems show ?case
    by (simp add: packet_insert_page_list_def upd_packet_def add.assoc fun_upd_twist)
qed

lemma packet_join_ok:
  assumes ok: "packet_ok s dest" "packet_ok s src" and ne: "dest \<noteq> src"
    and disj: "set (page_list (packets s dest)) \<inter> set (page_list (packets s src)) = {}"
    and ref: "ref (packets s src) = 1"
  shows "\<exists>s'. packet_join dest src s = Some (s', NET_OK) \<and> packet_ok s' dest \<and>
           packet_bytes s' dest = packet_bytes s dest @ packet_bytes s src \<and>
           page_list (packets s' dest) = page_list (packets s dest) @ page_list (packets s src) \<and>
           page_pool s' = page_pool s \<and> packet_pool s' = packet_pool s @ [src] \<and> pages s' = pages s \<and>
           (\<forall>q. q \<noteq> dest \<and> q \<noteq> src \<longrightarrow> packets s' q = packets s q)"
proof -
  let ?c = "page_list (packets s src)"
  have sz: "sum_list (map (\<lambda>pg. pg_size (pages s pg)) ?c) = int (length (packet_bytes s src))"
    using ok(2) by (simp add: packet_bytes_def length_chain_bytes packet_ok_def)
  have r: "ref (packets (join_loop dest src ?c s) src) = 1"
    "page_list (packets (join_loop dest src ?c s) src) = []"
    using ref ne by (simp_all add: join_loop_eq [OF ne refl])
  show ?thesis
    using ok ne disj ref sz
    by (auto simp: packet_join_def packet_ok_live packet_free_last [OF r(1)] r(2))
       (auto simp: join_loop_eq packet_ok_def packet_bytes_def)
qed

section \<open>Making the front of a packet contiguous\<close>

lemma move_down_nth:
  "data + i + n \<le> length payload \<Longrightarrow>
   length (move_down i data n payload) = length payload \<and>
   (\<forall>k<length payload. move_down i data n payload ! k =
      (if i \<le> k \<and> k < i + n then payload ! (data + k) else payload ! k))"
proof (induction n arbitrary: i payload)
  case (Suc n)
  let ?p = "payload[i := payload ! (data + i)]"
  from Suc.IH [of "Suc i" ?p] Suc.prems
  have l: "length (move_down (Suc i) data n ?p) = length payload"
    and k: "\<And>k. k < length payload \<Longrightarrow> move_down (Suc i) data n ?p ! k =
      (if Suc i \<le> k \<and> k < Suc i + n then ?p ! (data + k) else ?p ! k)" by auto
  have "move_down i data (Suc n) payload ! k =
      (if i \<le> k \<and> k < i + Suc n then payload ! (data + k) else payload ! k)" if "k < length payload" for k
    using k [OF that] that Suc.prems by (auto simp: nth_list_update)
  with l show ?case by simp
qed auto

lemma page_bytes_move_down:
  assumes "page_ok g"
  defines "g' \<equiv> g\<lparr>pg_payload := move_down 0 (nat (pg_data g)) (nat (pg_size g)) (pg_payload g), pg_data := 0\<rparr>"
  shows "page_bytes g' = page_bytes g" "page_ok g'" "pg_size g' = pg_size g"
proof -
  have le: "nat (pg_data g) + 0 + nat (pg_size g) \<le> length (pg_payload g)"
    using assms(1) by (auto simp: page_ok_def)
  note m = move_down_nth [OF le]
  show "pg_size g' = pg_size g" "page_ok g'" using assms m by (auto simp: page_ok_def)
  show "page_bytes g' = page_bytes g"
    by (rule nth_equalityI) (use m le in \<open>auto simp: page_bytes_def g'_def\<close>)
qed

lemma page_append:
  assumes "page_ok g" "pg_data g = 0" "pg_size g + int (length bs) \<le> 128"
  shows "\<exists>g'. page_write g (pg_size g) bs = Some g' \<and> pg_size g' = pg_size g \<and> pg_data g' = 0 \<and>
    page_bytes (g'\<lparr>pg_size := pg_size g' + int (length bs)\<rparr>) = page_bytes g @ bs \<and>
    page_ok (g'\<lparr>pg_size := pg_size g' + int (length bs)\<rparr>)"
proof -
  have n: "nat (pg_size g + int (length bs)) = nat (pg_size g) + length bs" "nat (pg_size g) \<le> 128"
    using assms by (auto simp: page_ok_def)
  with assms show ?thesis by (auto simp: page_write_def page_bytes_def page_ok_def)
qed

lemma page_read_front:
  assumes "page_ok g" "0 \<le> m" "m \<le> pg_size g"
  shows "page_read g (pg_data g) m = Some (take (nat m) (page_bytes g))"
  using assms by (auto simp: page_read_def page_bytes_def page_ok_def min_def)

text \<open>One page of the loop: \<open>m\<close> bytes move from \<open>cur\<close> to the end of the first page.\<close>

lemma set_cont_move:
  assumes ok: "packet_ok s p" and l: "page_list (packets s p) = first # cur # chain"
    and d: "pg_data (pages s first) = 0"
    and m: "0 < m" "m \<le> pg_size (pages s cur)" "pg_size (pages s first) + m \<le> 128"
  defines "bs \<equiv> take (nat m) (page_bytes (pages s cur))"
  defines "s1 fg \<equiv> upd_page first (\<lambda>_. fg\<lparr>pg_size := pg_size fg + m\<rparr>)
            (upd_page cur (\<lambda>g. g\<lparr>pg_data := pg_data g + m, pg_size := pg_size g - m\<rparr>) s)"
  shows "\<exists>fg. page_read (pages s cur) (pg_data (pages s cur)) m = Some bs \<and>
    page_write (pages s first) (pg_size (pages s first)) bs = Some fg \<and>
    pages (s1 fg) first = fg\<lparr>pg_size := pg_size (pages s first) + m\<rparr> \<and> pg_data fg = 0 \<and>
    pg_size (pages (s1 fg) cur) = pg_size (pages s cur) - m \<and>
    (if m = pg_size (pages s cur)
     then pkt_becomes s p (page_free cur (upd_packet p (\<lambda>pk. pk\<lparr>page_list := remove1 cur (page_list pk)\<rparr>) (s1 fg)))
            (packet_bytes s p)
     else pkt_becomes s p (s1 fg) (packet_bytes s p))"
proof -
  have g: "page_ok (pages s first)" "page_ok (pages s cur)" "first \<noteq> cur" "first \<notin> set chain" "cur \<notin> set chain"
    using ok l by (auto simp: packet_ok_def)
  have lc: "int (length (page_bytes (pages s cur))) = pg_size (pages s cur)" by (rule length_page_bytes [OF g(2)])
  then have lb: "int (length bs) = m" "nat m = length bs" using m by (auto simp: bs_def min_def)
  have rd: "page_read (pages s cur) (pg_data (pages s cur)) m = Some bs"
    unfolding bs_def by (rule page_read_front [OF g(2)]) (use m in auto)
  from page_append [OF g(1) d, of bs] lb m obtain fg where
    w: "page_write (pages s first) (pg_size (pages s first)) bs = Some fg"
    and fg: "pg_size fg = pg_size (pages s first)" "pg_data fg = 0"
      "page_bytes (fg\<lparr>pg_size := pg_size fg + m\<rparr>) = page_bytes (pages s first) @ bs"
      "page_ok (fg\<lparr>pg_size := pg_size fg + m\<rparr>)" by auto
  have pf: "pages (s1 fg) first = fg\<lparr>pg_size := pg_size (pages s first) + m\<rparr>"
    and pc: "pages (s1 fg) cur = (pages s cur)\<lparr>pg_data := pg_data (pages s cur) + m, pg_size := pg_size (pages s cur) - m\<rparr>"
    using g(3) fg(1) by (simp_all add: s1_def)
  have pay: "\<forall>q. length (pg_payload (pages (s1 fg) q)) = 128"
    using ok fg(4) by (auto simp: s1_def packet_ok_def page_ok_def)
  have rest: "chain_bytes (pages (s1 fg)) chain = chain_bytes (pages s) chain"
    using g by (simp add: s1_def)
  have tot: "total_size (packets s p) = int (length (packet_bytes s p))" by (rule packet_ok_total [OF ok])
  have bs0: "packet_bytes s p = page_bytes (pages s first) @ page_bytes (pages s cur) @ chain_bytes (pages s) chain"
    by (simp add: packet_bytes_def l)
  have others: "\<forall>q\<in>set chain. page_ok (pages (s1 fg) q)" "\<forall>q. q \<noteq> first \<and> q \<noteq> cur \<longrightarrow> pages (s1 fg) q = pages s q"
    using ok l g by (auto simp: s1_def packet_ok_def)
  have res: "if m = pg_size (pages s cur)
     then pkt_becomes s p (page_free cur (upd_packet p (\<lambda>pk. pk\<lparr>page_list := remove1 cur (page_list pk)\<rparr>) (s1 fg)))
            (packet_bytes s p)
     else pkt_becomes s p (s1 fg) (packet_bytes s p)"
  proof (cases "m = pg_size (pages s cur)")
    case True
    let ?s2 = "page_free cur (upd_packet p (\<lambda>pk. pk\<lparr>page_list := remove1 cur (page_list pk)\<rparr>) (s1 fg))"
    have l2: "page_list (packets ?s2 p) = first # chain" "pages ?s2 = pages (s1 fg)"
      "page_pool ?s2 = page_pool s @ [cur]" "total_size (packets ?s2 p) = total_size (packets s p)"
      "ref (packets ?s2 p) = ref (packets s p)"
      using l g by (simp_all add: page_free_def pool_free_def s1_def)
    have "bs = page_bytes (pages s cur)" using True lc by (simp add: bs_def)
    then have b2: "packet_bytes ?s2 p = packet_bytes s p"
      using pf fg(1,3) rest by (simp add: packet_bytes_def l2 l)
    have "packet_ok ?s2 p"
      unfolding packet_ok_def b2 l2 using ok l pay tot others pf fg(1,4) by (auto simp: packet_ok_def)
    moreover have "pkt_frame s p ?s2"
      using l g l2 others(2) by (auto simp: pkt_frame_def page_free_def s1_def)
    ultimately show ?thesis using True b2 by (simp add: pkt_becomes_def)
  next
    case False
    with m have lt: "m < pg_size (pages s cur)" by simp
    note dr = page_bytes_drop [OF g(2) less_imp_le [OF m(1)] lt]
    have l1: "page_list (packets (s1 fg) p) = first # cur # chain" "page_pool (s1 fg) = page_pool s"
      "packets (s1 fg) = packets s" by (simp_all add: s1_def l)
    have b1: "packet_bytes (s1 fg) p = packet_bytes s p"
      using pf pc fg(1,3) rest dr(1) by (simp add: packet_bytes_def l1 l bs_def)
    have "packet_ok (s1 fg) p"
      unfolding packet_ok_def b1 l1 using ok l pay tot others pf pc fg(1,4) dr(2) by (auto simp: packet_ok_def)
    moreover have "pkt_frame s p (s1 fg)"
      using l others(2) l1 by (auto simp: pkt_frame_def s1_def)
    ultimately show ?thesis using False b1 by (simp add: pkt_becomes_def)
  qed
  from rd w pf fg(2) pc res show ?thesis by auto
qed

lemma set_cont_loop_spec:
  assumes "packet_ok s p" "page_list (packets s p) = first # chain" "pg_data (pages s first) = 0"
    "dest = pg_size (pages s first)" "0 \<le> remain" "dest + remain \<le> 128"
    "dest + remain \<le> int (length (packet_bytes s p))"
  shows "\<exists>s'. set_cont_loop p first chain dest remain s = Some s' \<and>
    pkt_becomes s p s' (packet_bytes s p) \<and> hd (page_list (packets s' p)) = first \<and>
    pg_size (pages s' first) = dest + remain"
  using assms
proof (induction chain arbitrary: s dest remain)
  case Nil
  note ok = Nil.prems(1) and l = Nil.prems(2)
  have "int (length (packet_bytes s p)) = dest"
    using packet_ok_Cons(4,5) [OF ok l] Nil.prems(4) by simp
  with Nil.prems show ?case by (simp add: pkt_becomes_def pkt_frame_def)
next
  case (Cons cur chain)
  note ok = Cons.prems(1) and l = Cons.prems(2)
  show ?case
  proof (cases "remain = 0")
    case True
    with Cons.prems show ?thesis by (simp add: pkt_becomes_def pkt_frame_def)
  next
    case False
    let ?m = "if pg_size (pages s cur) > remain then remain else pg_size (pages s cur)"
    let ?bs = "take (nat ?m) (page_bytes (pages s cur))"
    let ?s1 = "\<lambda>fg. upd_page first (\<lambda>_. fg\<lparr>pg_size := pg_size fg + ?m\<rparr>)
            (upd_page cur (\<lambda>g. g\<lparr>pg_data := pg_data g + ?m, pg_size := pg_size g - ?m\<rparr>) s)"
    have nf: "cur \<noteq> first" using ok l by (auto simp: packet_ok_def)
    have "page_ok (pages s cur)" using ok l by (simp add: packet_ok_def)
    then have "0 < pg_size (pages s cur)" by (simp add: page_ok_def)
    then have m: "0 < ?m" "?m \<le> pg_size (pages s cur)" "pg_size (pages s first) + ?m \<le> 128"
      using False Cons.prems by auto
    from set_cont_move [OF ok l Cons.prems(3) m] obtain fg where
      rd: "page_read (pages s cur) (pg_data (pages s cur)) ?m = Some ?bs"
      and w: "page_write (pages s first) dest ?bs = Some fg"
      and pf: "pages (?s1 fg) first = fg\<lparr>pg_size := dest + ?m\<rparr>" "pg_data fg = 0"
      and pc: "pg_size (pages (?s1 fg) cur) = pg_size (pages s cur) - ?m"
      and res: "if ?m = pg_size (pages s cur)
        then pkt_becomes s p (page_free cur (upd_packet p (\<lambda>pk. pk\<lparr>page_list := remove1 cur (page_list pk)\<rparr>) (?s1 fg)))
            (packet_bytes s p)
        else pkt_becomes s p (?s1 fg) (packet_bytes s p)"
      unfolding Cons.prems(4) by blast
    show ?thesis
    proof (cases "?m = pg_size (pages s cur)")
      case True
      let ?s2 = "page_free cur (upd_packet p (\<lambda>pk. pk\<lparr>page_list := remove1 cur (page_list pk)\<rparr>) (?s1 fg))"
      have b: "pkt_becomes s p ?s2 (packet_bytes s p)" using res True by simp
      have l2: "page_list (packets ?s2 p) = first # chain"
        using ok l by (auto simp: page_free_def packet_ok_def)
      have p2: "pages ?s2 first = fg\<lparr>pg_size := dest + ?m\<rparr>" using pf(1) by (simp add: page_free_def)
      have "\<exists>s'. set_cont_loop p first chain (dest + ?m) (remain - ?m) ?s2 = Some s' \<and>
          pkt_becomes ?s2 p s' (packet_bytes ?s2 p) \<and> hd (page_list (packets s' p)) = first \<and>
          pg_size (pages s' first) = (dest + ?m) + (remain - ?m)"
      proof (rule Cons.IH)
        show "packet_ok ?s2 p" using b by (simp add: pkt_becomes_def)
        show "pg_data (pages ?s2 first) = 0" "dest + ?m = pg_size (pages ?s2 first)"
          using p2 pf(2) by simp_all
        show "0 \<le> remain - ?m" by simp
        show "dest + ?m + (remain - ?m) \<le> 128" using Cons.prems(6) by simp
        show "dest + ?m + (remain - ?m) \<le> int (length (packet_bytes ?s2 p))"
          using Cons.prems(7) b by (simp add: pkt_becomes_def)
      qed (rule l2)
      then obtain s' where "set_cont_loop p first chain (dest + ?m) (remain - ?m) ?s2 = Some s'"
        "pkt_becomes ?s2 p s' (packet_bytes ?s2 p)" "hd (page_list (packets s' p)) = first"
        "pg_size (pages s' first) = dest + remain" by auto
      moreover from this b have "pkt_becomes s p s' (packet_bytes s p)"
        using pkt_frame_trans by (auto simp: pkt_becomes_def)
      moreover have "set_cont_loop p first (cur # chain) dest remain s = set_cont_loop p first chain (dest + ?m) (remain - ?m) ?s2"
        using False rd w pc True nf by (simp add: Let_def)
      ultimately show ?thesis by metis
    next
      case part: False
      then have "?m = remain" by (auto split: if_splits)
      moreover have "set_cont_loop p first (cur # chain) dest remain s = Some (?s1 fg)"
        using False rd w pc part nf by (simp add: Let_def)
      ultimately show ?thesis using res part pf(1) l by auto
    qed
  qed
qed

lemma packet_set_cont_ok:
  assumes ok: "packet_ok s p" and n: "0 \<le> n" "n \<le> int (length (packet_bytes s p))" "n \<le> 128"
    and ne: "packet_bytes s p \<noteq> []"
  shows "\<exists>s'. packet_set_cont p n s = Some (s', NET_OK) \<and> pkt_becomes s p s' (packet_bytes s p) \<and>
           n \<le> pg_size (pages s' (hd (page_list (packets s' p))))"
proof -
  from ne obtain pg chain where l: "page_list (packets s p) = pg # chain"
    by (cases "page_list (packets s p)") (auto simp: packet_bytes_def)
  note c = packet_ok_Cons [OF ok l] and tot = packet_ok_total [OF ok] and live = packet_ok_live [OF ok]
  have f: "packet_first_page (packets s p) = Some pg" by (simp add: packet_first_page_def l)
  show ?thesis
  proof (cases "n \<le> pg_size (pages s pg)")
    case True
    with n f l tot ok show ?thesis
      by (auto simp: packet_set_cont_def live pkt_becomes_def pkt_frame_def)
  next
    case False
    let ?f = "\<lambda>g. g\<lparr>pg_payload := move_down 0 (nat (pg_data g)) (nat (pg_size (pages s pg))) (pg_payload g), pg_data := 0\<rparr>"
    let ?s1 = "upd_page pg ?f s"
    note md = page_bytes_move_down [OF c(1)]
    have "pkt_becomes s p (upd_packet p (\<lambda>pk. pk\<lparr>total_size := total_size pk + 0\<rparr>) ?s1) (packet_bytes s p)"
      using upd_first_page [OF ok l, of ?f 0] md c(4,5) by simp
    moreover have "upd_packet p (\<lambda>pk. pk\<lparr>total_size := total_size pk + 0\<rparr>) ?s1 = ?s1"
      by (simp add: upd_packet_def)
    ultimately have b: "pkt_becomes s p ?s1 (packet_bytes s p)" by simp
    then have ok1: "packet_ok ?s1 p" "packet_bytes ?s1 p = packet_bytes s p" by (simp_all add: pkt_becomes_def)
    have "\<exists>s'. set_cont_loop p pg chain (pg_size (pages s pg)) (n - pg_size (pages s pg)) ?s1 = Some s' \<and>
        pkt_becomes ?s1 p s' (packet_bytes ?s1 p) \<and> hd (page_list (packets s' p)) = pg \<and>
        pg_size (pages s' pg) = pg_size (pages s pg) + (n - pg_size (pages s pg))"
      by (rule set_cont_loop_spec [OF ok1(1)]) (use l False n ok1(2) in auto)
    then obtain s' where r: "set_cont_loop p pg chain (pg_size (pages s pg)) (n - pg_size (pages s pg)) ?s1 = Some s'"
      "pkt_becomes ?s1 p s' (packet_bytes ?s1 p)" "hd (page_list (packets s' p)) = pg" "pg_size (pages s' pg) = n" by auto
    have "packet_set_cont p n s = Some (s', NET_OK)"
      using False n f l tot r(1) by (simp add: packet_set_cont_def live Let_def)
    moreover have "pkt_becomes s p s' (packet_bytes s p)"
      using r(2) b ok1(2) pkt_frame_trans by (auto simp: pkt_becomes_def)
    ultimately show ?thesis using r(3,4) by auto
  qed
qed

section \<open>All packets together\<close>

text \<open>
  The invariant of the buffer: the packets \<open>ps\<close> are in use and well formed, no page is
  owned twice or owned and free, no packet is in use and free, and together the free and
  the owned pages are all the pages.
\<close>

definition owned :: "'a packet_state_scheme \<Rightarrow> addr list \<Rightarrow> addr list" where
  "owned s ps = concat (map (\<lambda>p. page_list (packets s p)) ps)"

definition buffer_ok :: "'a packet_state_scheme \<Rightarrow> addr list \<Rightarrow> bool" where
  "buffer_ok s ps \<longleftrightarrow>
     (\<forall>p\<in>set ps. packet_ok s p) \<and> distinct (packet_pool s @ ps) \<and> distinct (page_pool s @ owned s ps) \<and>
     set (packet_pool s @ ps) = {0..<PACKET_BUFFER_SIZE} \<and> set (page_pool s @ owned s ps) = {0..<PACKET_PAGE_CNT} \<and>
     (\<forall>pg. length (pg_payload (pages s pg)) = 128)"

lemma owned_split: "owned s (xs @ p # ys) = owned s xs @ page_list (packets s p) @ owned s ys"
  by (simp add: owned_def)

lemma owned_cong: "(\<And>p. p \<in> set ps \<Longrightarrow> packets s p = packets s' p) \<Longrightarrow> owned s ps = owned s' ps"
  by (simp add: owned_def cong: map_cong)

lemma owned_member: "p \<in> set ps \<Longrightarrow> set (page_list (packets s p)) \<subseteq> set (owned s ps)"
  by (auto simp: owned_def)

lemma buffer_ok_init:
  assumes "\<forall>pg. length (pg_payload (pages s pg)) = 128"
  shows "buffer_ok (fst (packet_buffer_init s)) []"
  using assms by (auto simp: buffer_ok_def packet_buffer_init_def owned_def)

text \<open>An operation that meets its contract keeps the invariant and every other packet's bytes.\<close>

lemma buffer_ok_becomes:
  assumes ok: "buffer_ok s ps" and p: "p \<in> set ps" and b: "pkt_becomes s p s' bs"
  shows "buffer_ok s' ps \<and> (\<forall>q\<in>set ps. q \<noteq> p \<longrightarrow> packet_bytes s' q = packet_bytes s q)"
proof -
  from p obtain xs ys where ps: "ps = xs @ p # ys" by (meson split_list)
  have dps: "distinct ps" using ok by (simp add: buffer_ok_def)
  then have np: "p \<notin> set xs" "p \<notin> set ys" using ps by auto
  have fr: "pkt_frame s p s'" and okp: "packet_ok s' p" using b by (simp_all add: pkt_becomes_def)
  have same: "\<And>q. q \<noteq> p \<Longrightarrow> packets s' q = packets s q" and pp: "packet_pool s' = packet_pool s"
    and pgs: "set (page_pool s') \<union> set (page_list (packets s' p)) = set (page_pool s) \<union> set (page_list (packets s p))"
    and out: "\<And>g. g \<notin> set (page_pool s) \<union> set (page_list (packets s p)) \<Longrightarrow> pages s' g = pages s g"
    using fr by (auto simp: pkt_frame_def)
  let ?rest = "owned s xs @ owned s ys"
  have rest: "owned s' xs = owned s xs" "owned s' ys = owned s ys"
    by (rule owned_cong, use same np in metis)+
  have d: "distinct (page_pool s @ owned s xs @ page_list (packets s p) @ owned s ys)"
    using ok by (simp add: buffer_ok_def ps owned_split)
  then have disj: "set ?rest \<inter> (set (page_pool s) \<union> set (page_list (packets s p))) = {}" by auto
  have d': "distinct (page_pool s' @ page_list (packets s' p))" using okp by (simp add: packet_ok_def)
  have disj': "set ?rest \<inter> (set (page_pool s') \<union> set (page_list (packets s' p))) = {}" using disj pgs by simp
  have dist: "distinct (page_pool s' @ owned s' ps)"
    using d d' disj' by (auto simp: ps owned_split rest)
  have sets: "set (page_pool s' @ owned s' ps) = set (page_pool s @ owned s ps)"
    using pgs by (auto simp: ps owned_split rest)
  have pay: "\<forall>pg. length (pg_payload (pages s' pg)) = 128" using okp by (simp add: packet_ok_def)
  have q: "packet_ok s' q \<and> packet_bytes s' q = packet_bytes s q" if "q \<in> set ps" "q \<noteq> p" for q
  proof -
    have l: "set (page_list (packets s q)) \<subseteq> set ?rest"
      using that owned_member [of q xs s] owned_member [of q ys s] by (auto simp: ps)
    have e: "\<And>g. g \<in> set (page_list (packets s q)) \<Longrightarrow> pages s' g = pages s g"
      using l disj out by blast
    then have bq: "packet_bytes s' q = packet_bytes s q"
      using same that by (auto simp: packet_bytes_def intro: chain_bytes_cong)
    have "distinct (page_pool s' @ page_list (packets s q))"
      using d' disj' l ok that by (auto simp: buffer_ok_def packet_ok_def)
    moreover have "packet_ok s q" using ok that by (simp add: buffer_ok_def)
    ultimately have "packet_ok s' q"
      using same that(2) bq e pay by (auto simp: packet_ok_def)
    with bq show ?thesis by simp
  qed
  have "\<forall>r\<in>set ps. packet_ok s' r" using q okp by metis
  with q dist sets pay ok pp show ?thesis by (simp add: buffer_ok_def)
qed

lemma buffer_ok_alloc:
  assumes ok: "buffer_ok s ps" and sz: "0 \<le> sz"
  shows "case packet_alloc sz s of
      (s', Some p) \<Rightarrow> buffer_ok s' (p # ps) \<and> int (length (packet_bytes s' p)) = sz \<and> at_start s' p \<and>
                      ref (packets s' p) = 1 \<and> (\<forall>q\<in>set ps. packet_bytes s' q = packet_bytes s q)
    | (s', None) \<Rightarrow> buffer_ok s' ps \<and> (\<forall>q\<in>set ps. packet_bytes s' q = packet_bytes s q) \<and>
                    (packet_pool s = [] \<or> sz > 128 * int (length (page_pool s)))"
proof -
  have pre: "\<forall>pg. length (pg_payload (pages s pg)) = 128" "distinct (page_pool s)"
    using ok by (simp_all add: buffer_ok_def)
  have keep: "packet_ok s' q \<and> packet_bytes s' q = packet_bytes s q"
    if q: "q \<in> set ps" and e: "packets s' q = packets s q"
      and out: "\<forall>pg. pg \<notin> set (page_pool s) \<longrightarrow> pages s' pg = pages s pg"
      and pool: "set (page_pool s') \<subseteq> set (page_pool s)" "distinct (page_pool s')"
      and pay: "\<forall>pg. length (pg_payload (pages s' pg)) = 128" for s' :: "'a packet_state_scheme" and q
  proof -
    have l: "set (page_list (packets s q)) \<inter> set (page_pool s) = {}"
      using ok q owned_member [OF q, of s] by (auto simp: buffer_ok_def)
    have g: "\<And>g. g \<in> set (page_list (packets s q)) \<Longrightarrow> pages s' g = pages s g" using l out by blast
    then have "packet_bytes s' q = packet_bytes s q"
      using e by (auto simp: packet_bytes_def intro: chain_bytes_cong)
    moreover have "packet_ok s q" using ok q by (simp add: buffer_ok_def)
    ultimately show ?thesis using e g l pool pay by (auto simp: packet_ok_def)
  qed
  show ?thesis
  proof (cases "packet_pool s")
    case Nil
    have "s\<lparr>packet_pool := []\<rparr> = s" unfolding Nil [symmetric] by simp
    with Nil have "packet_alloc sz s = (s, None)" by (simp add: packet_alloc_def)
    with ok Nil show ?thesis by simp
  next
    case (Cons p r)
    have np: "p \<notin> set ps" "p \<notin> set r" using ok Cons by (auto simp: buffer_ok_def)
    show ?thesis
    proof (cases "sz \<le> 128 * int (length (page_pool s))")
      case True
      from packet_alloc_ok [OF Cons sz True pre] obtain s' where run: "packet_alloc sz s = (s', Some p)"
        and s': "packet_ok s' p" "at_start s' p" "int (length (packet_bytes s' p)) = sz" "ref (packets s' p) = 1"
          "packet_pool s' = r" "set (page_pool s') \<union> set (page_list (packets s' p)) = set (page_pool s)"
          "\<forall>q. q \<noteq> p \<longrightarrow> packets s' q = packets s q" "\<forall>pg. pg \<notin> set (page_pool s) \<longrightarrow> pages s' pg = pages s pg"
        by blast
      have pay: "\<forall>pg. length (pg_payload (pages s' pg)) = 128" "distinct (page_pool s')"
        using s'(1) by (simp_all add: packet_ok_def)
      have same: "packets s' q = packets s q" if "q \<in> set ps" for q using s'(7) np that by metis
      have k: "\<And>q. q \<in> set ps \<Longrightarrow> packet_ok s' q \<and> packet_bytes s' q = packet_bytes s q"
        by (rule keep) (use s' same pay in auto)
      have ow: "owned s' (p # ps) = page_list (packets s' p) @ owned s ps"
        using owned_cong [OF same] by (simp add: owned_def)
      have "buffer_ok s' (p # ps)"
        unfolding buffer_ok_def ow using ok k s' pay np Cons
        by (auto simp: buffer_ok_def packet_ok_def)
      with run s' k show ?thesis by simp
    next
      case False
      with sz have pos: "0 < sz" by simp
      from packet_alloc_fail [OF Cons pos False pre] obtain s' where run: "packet_alloc sz s = (s', None)"
        and s': "packet_pool s' = r @ [p]" "set (page_pool s') = set (page_pool s)" "distinct (page_pool s')"
          "\<forall>q. q \<noteq> p \<longrightarrow> packets s' q = packets s q" "\<forall>pg. pg \<notin> set (page_pool s) \<longrightarrow> pages s' pg = pages s pg"
          "\<forall>pg. pg_payload (pages s' pg) = pg_payload (pages s pg)"
        by blast
      have pay: "\<forall>pg. length (pg_payload (pages s' pg)) = 128" using s'(6) pre(1) by simp
      have same: "packets s' q = packets s q" if "q \<in> set ps" for q using s'(4) np that by metis
      have k: "\<And>q. q \<in> set ps \<Longrightarrow> packet_ok s' q \<and> packet_bytes s' q = packet_bytes s q"
        by (rule keep) (use s' same pay in auto)
      have ow: "owned s' ps = owned s ps" by (rule owned_cong) (rule same)
      have "buffer_ok s' ps"
        unfolding buffer_ok_def ow using ok k s' pay np Cons by (auto simp: buffer_ok_def)
      with run k False show ?thesis by simp
    qed
  qed
qed

lemma packet_bytes_cong:
  "packets s' q = packets s q \<Longrightarrow> pages s' = pages s \<Longrightarrow> packet_bytes s' q = packet_bytes s q"
  by (simp add: packet_bytes_def)

lemma buffer_ok_free:
  assumes ok: "buffer_ok s (p # ps)" and r: "ref (packets s p) = 1"
  shows "buffer_ok (packet_free p s) ps \<and> (\<forall>q\<in>set ps. packet_bytes (packet_free p s) q = packet_bytes s q)"
proof -
  have np: "p \<notin> set ps" using ok by (simp add: buffer_ok_def)
  let ?s = "packet_free p s"
  note e = packet_free_last [OF r]
  have f: "pages ?s = pages s" "page_pool ?s = page_pool s @ page_list (packets s p)" "packet_pool ?s = packet_pool s @ [p]"
    by (simp_all add: e)
  have same: "packets ?s q = packets s q" if "q \<in> set ps" for q using that np by (auto simp: e)
  have b: "\<And>q. q \<in> set ps \<Longrightarrow> packet_bytes ?s q = packet_bytes s q"
    by (rule packet_bytes_cong) (simp_all add: same f)
  have ow: "owned ?s ps = owned s ps" "owned s (p # ps) = page_list (packets s p) @ owned s ps"
    using owned_cong [OF same] by (simp_all add: owned_def)
  have ok_q: "packet_ok ?s q" if q: "q \<in> set ps" for q
  proof -
    have "set (page_list (packets s q)) \<inter> set (page_list (packets s p)) = {}"
      using ok owned_member [OF q, of s] by (auto simp: buffer_ok_def ow(2))
    moreover have "packet_ok s q" "packet_ok s p" using ok q by (simp_all add: buffer_ok_def)
    ultimately show ?thesis by (auto simp: packet_ok_def same [OF q] f b [OF q])
  qed
  have "buffer_ok ?s ps"
    unfolding buffer_ok_def ow(1) f using ok ok_q np by (auto simp: buffer_ok_def ow(2))
  with b show ?thesis by blast
qed

lemma buffer_ok_join:
  assumes ok: "buffer_ok s (src # ps)" and d: "dest \<in> set ps" and r: "ref (packets s src) = 1"
  shows "\<exists>s'. packet_join dest src s = Some (s', NET_OK) \<and> buffer_ok s' ps \<and>
    packet_bytes s' dest = packet_bytes s dest @ packet_bytes s src \<and>
    (\<forall>q\<in>set ps. q \<noteq> dest \<longrightarrow> packet_bytes s' q = packet_bytes s q)"
proof -
  have np: "src \<notin> set ps" "dest \<noteq> src" "distinct ps" using ok d by (auto simp: buffer_ok_def)
  from d obtain xs ys where ps: "ps = xs @ dest # ys" by (meson split_list)
  have ow: "owned s (src # ps) = page_list (packets s src) @ owned s ps" by (simp add: owned_def)
  have dj: "set (page_list (packets s dest)) \<inter> set (page_list (packets s src)) = {}"
    using ok owned_member [OF d, of s] by (auto simp: buffer_ok_def ow)
  have oks: "packet_ok s dest" "packet_ok s src" using ok d by (simp_all add: buffer_ok_def)
  from packet_join_ok [OF oks np(2) dj r] obtain s' where run: "packet_join dest src s = Some (s', NET_OK)"
    and s': "packet_ok s' dest" "packet_bytes s' dest = packet_bytes s dest @ packet_bytes s src"
      "page_list (packets s' dest) = page_list (packets s dest) @ page_list (packets s src)"
      "page_pool s' = page_pool s" "packet_pool s' = packet_pool s @ [src]" "pages s' = pages s"
      "\<forall>q. q \<noteq> dest \<and> q \<noteq> src \<longrightarrow> packets s' q = packets s q" by blast
  have same: "packets s' q = packets s q" if "q \<in> set ps" "q \<noteq> dest" for q using s'(7) np that by metis
  have b: "packet_bytes s' q = packet_bytes s q" "packet_ok s' q" if q: "q \<in> set ps" "q \<noteq> dest" for q
  proof -
    show b: "packet_bytes s' q = packet_bytes s q" using same [OF q] s'(6) by (rule packet_bytes_cong)
    have "packet_ok s q" using ok q by (simp add: buffer_ok_def)
    then show "packet_ok s' q" by (auto simp: packet_ok_def same [OF q] s' b)
  qed
  have nd: "dest \<notin> set xs" "dest \<notin> set ys" using np(3) ps by auto
  have o: "owned s' xs = owned s xs" "owned s' ys = owned s ys"
    by (rule owned_cong, rule same, use ps nd in auto)+
  have ow': "owned s' ps = owned s xs @ (page_list (packets s dest) @ page_list (packets s src)) @ owned s ys"
    by (simp add: ps owned_split o s'(3))
  have ow0: "owned s (src # ps) = page_list (packets s src) @ owned s xs @ page_list (packets s dest) @ owned s ys"
    by (simp add: owned_def ps)
  have d0: "distinct (page_pool s @ owned s (src # ps))" using ok by (simp add: buffer_ok_def)
  have "distinct (page_pool s' @ owned s' ps)"
    using d0 unfolding ow' ow0 s'(4) by auto
  moreover have "set (page_pool s' @ owned s' ps) = set (page_pool s @ owned s (src # ps))"
    unfolding ow' ow0 s'(4) by auto
  moreover have "\<forall>q\<in>set ps. packet_ok s' q" using b(2) s'(1) by metis
  ultimately have "buffer_ok s' ps"
    using ok np s'(5,6) by (simp add: buffer_ok_def)
  with run s'(2) b(1) show ?thesis by blast
qed

section \<open>Properties\<close>

text \<open>A buffer with zeroed memory, and a packet allocated in it, for the concrete instances.\<close>

definition zero_buffer :: packet_state where
  "zero_buffer = fst (packet_buffer_init
     \<lparr>timers = (\<lambda>_. \<lparr>tm_name = [], tm_flags = 0, tm_curr = 0, tm_reload = 0, tm_proc = FRAG_TMO, tm_arg = 0\<rparr>),
      timer_list = [], wait_list = [], page_pool = [], packet_pool = [],
      pages = (\<lambda>_. \<lparr>pg_size = 0, pg_data = 0, pg_payload = replicate 128 0\<rparr>),
      packets = (\<lambda>_. \<lparr>total_size = 0, page_list = [], ref = 0, pos = 0, cur_page = None, page_offset = 0\<rparr>)\<rparr>)"

lemma zero_buffer_ok: "buffer_ok zero_buffer []"
  unfolding zero_buffer_def by (rule buffer_ok_init) simp

lemma zero_buffer_pools: "packet_pool zero_buffer = [0..<256]" "page_pool zero_buffer = [0..<512]"
  by (simp_all add: zero_buffer_def packet_buffer_init_def)

lemma zero_buffer_room: "packet_pool zero_buffer \<noteq> []" "length (page_pool zero_buffer) = 512"
  unfolding zero_buffer_pools by (simp_all del: upt_rec_numeral)

lemma sample_packet:
  "\<exists>s :: packet_state. buffer_ok s [0] \<and> length (packet_bytes s 0) = 300 \<and> ref (packets s 0) = 1 \<and>
     length (page_pool s) \<ge> 200"
proof -
  have ne: "packet_pool zero_buffer = 0 # [1..<256]"
    unfolding zero_buffer_pools by (subst upt_conv_Cons) (simp_all del: upt_rec_numeral)
  have "(\<forall>pg. length (pg_payload (pages zero_buffer pg)) = 128)" "distinct (page_pool zero_buffer)"
    using zero_buffer_ok by (simp_all add: buffer_ok_def)
  from packet_alloc_ok [OF ne _ _ this, of 300] obtain s where run: "packet_alloc 300 zero_buffer = (s, Some 0)"
    by (auto simp: zero_buffer_room)
  with buffer_ok_alloc [OF zero_buffer_ok, of 300]
  have s: "buffer_ok s [0]" "int (length (packet_bytes s 0)) = 300" "ref (packets s 0) = 1" by simp_all
  have pk: "packet_ok s 0" using s(1) by (simp add: buffer_ok_def)
  then have "length (page_list (packets s 0)) \<le> 300"
  proof -
    have "page_ok (pages s g)" if "g \<in> set (page_list (packets s 0))" for g using pk that by (simp add: packet_ok_def)
    then have "length l \<le> length (chain_bytes (pages s) l)" if "set l \<subseteq> set (page_list (packets s 0))" for l
      using that
    proof (induction l)
      case (Cons g l)
      then have "page_ok (pages s g)" by simp
      from length_page_bytes [OF this] this have "1 \<le> length (page_bytes (pages s g))" by (simp add: page_ok_def)
      with Cons show ?case by simp
    qed simp
    from this [of "page_list (packets s 0)"] s(2) show ?thesis by (simp add: packet_bytes_def)
  qed
  moreover have "length (page_pool s @ owned s [0]) = 512"
    using s(1) distinct_card [of "page_pool s @ owned s [0]"] by (simp add: buffer_ok_def)
  ultimately have "length (page_pool s) \<ge> 200" by (simp add: owned_def)
  with s show ?thesis by (intro exI [of _ s]) simp
qed

text \<open>C24. Allocating a packet of any size either gives a fresh packet of exactly that size
  with its position at the start, or fails because the packets or the pages are used up and
  leaves nothing allocated; in both cases every page stays either free or owned by one
  packet and the bytes of all other packets are unchanged.\<close>

theorem packet_alloc_accounts:
  assumes "buffer_ok s ps" "0 \<le> sz"
  shows "case packet_alloc sz s of
      (s', Some p) \<Rightarrow> buffer_ok s' (p # ps) \<and> int (length (packet_bytes s' p)) = sz \<and> at_start s' p \<and>
                      ref (packets s' p) = 1 \<and> (\<forall>q\<in>set ps. packet_bytes s' q = packet_bytes s q)
    | (s', None) \<Rightarrow> buffer_ok s' ps \<and> (\<forall>q\<in>set ps. packet_bytes s' q = packet_bytes s q) \<and>
                    (packet_pool s = [] \<or> sz > 128 * int (length (page_pool s)))"
  by (rule buffer_ok_alloc [OF assms])

theorem packet_alloc_accounts_witness:
  "case packet_alloc 300 zero_buffer of
     (s', Some p) \<Rightarrow> buffer_ok s' [p] \<and> length (packet_bytes s' p) = 300 | (s', None) \<Rightarrow> False"
  using packet_alloc_accounts [OF zero_buffer_ok, of 300]
  by (auto simp: zero_buffer_room split: prod.splits option.splits)

text \<open>C25. Releasing the last reference of a packet gives the packet and all its pages back,
  and leaves every other packet as it was.\<close>

theorem packet_free_accounts:
  assumes "buffer_ok s (p # ps)" "ref (packets s p) = 1"
  shows "buffer_ok (packet_free p s) ps \<and>
         set (page_pool (packet_free p s)) = set (page_pool s) \<union> set (page_list (packets s p)) \<and>
         (\<forall>q\<in>set ps. packet_bytes (packet_free p s) q = packet_bytes s q)"
  using buffer_ok_free [OF assms] by (simp add: packet_free_last [OF assms(2)])

theorem packet_free_accounts_witness: "\<exists>s :: packet_state. buffer_ok (packet_free 0 s) []"
proof -
  obtain s :: packet_state where "buffer_ok s [0]" "ref (packets s 0) = 1" using sample_packet by blast
  from packet_free_accounts [OF this] show ?thesis by blast
qed

lemma packet_add_header_too_big:
  assumes "packet_ok s p" "packet_bytes s p \<noteq> []" "128 < sz"
  shows "packet_add_header p sz True s = Some (s, NET_ERR_SIZE)"
proof -
  obtain g r where l: "page_list (packets s p) = g # r" using assms(2) by (cases "page_list (packets s p)") (auto simp: packet_bytes_def)
  then have "page_ok (pages s g)" using assms(1) by (simp add: packet_ok_def)
  then have "pg_data (pages s g) \<le> 128" by (simp add: page_ok_def)
  with l assms(3) packet_ok_live [OF assms(1)] show ?thesis by (simp add: packet_add_header_def packet_first_page_def)
qed

text \<open>C26. Adding a header in front of a packet that is not empty succeeds when the free pages have room for it, keeps the packet's
  bytes behind the header, leaves every other packet unchanged, and on request puts the header in one page; removing as many
  bytes again restores the packet's bytes exactly, and again no other packet changes. A header that is asked for in one page and
  is larger than a page is refused with NET_ERR_SIZE, and nothing changes.\<close>

theorem packet_header_roundtrip:
  assumes "buffer_ok s ps" "p \<in> set ps" "packet_bytes s p \<noteq> []" "0 \<le> sz" "sz \<le> 128 * int (length (page_pool s))"
  shows "if cont \<and> 128 < sz then packet_add_header p sz cont s = Some (s, NET_ERR_SIZE)
    else \<exists>s1 h s2. packet_add_header p sz cont s = Some (s1, NET_OK) \<and> buffer_ok s1 ps \<and>
           packet_bytes s1 p = h @ packet_bytes s p \<and> int (length h) = sz \<and>
           (\<forall>q\<in>set ps. q \<noteq> p \<longrightarrow> packet_bytes s1 q = packet_bytes s q) \<and>
           (cont \<longrightarrow> sz \<le> pg_size (pages s1 (hd (page_list (packets s1 p))))) \<and>
           packet_remove_header p sz s1 = Some (s2, NET_OK) \<and> buffer_ok s2 ps \<and>
           (\<forall>q\<in>set ps. packet_bytes s2 q = packet_bytes s q)"
proof (cases "cont \<and> 128 < sz")
  case True
  have "packet_ok s p" using assms(1,2) by (simp add: buffer_ok_def)
  with True packet_add_header_too_big [OF _ assms(3)] show ?thesis by auto
next
  case False
  then have fit: "cont \<longrightarrow> sz \<le> 128" by auto
  have ok: "packet_ok s p" using assms(1,2) by (simp add: buffer_ok_def)
  from packet_add_header_ok [OF ok assms(3,4) fit assms(5)] obtain s1 h where
    a: "packet_add_header p sz cont s = Some (s1, NET_OK)" "int (length h) = sz"
      "pkt_becomes s p s1 (h @ packet_bytes s p)"
      "cont \<longrightarrow> sz \<le> pg_size (pages s1 (hd (page_list (packets s1 p))))" by blast
  then have ok1: "packet_ok s1 p" and b1: "packet_bytes s1 p = h @ packet_bytes s p"
    by (simp_all add: pkt_becomes_def)
  from packet_remove_header_ok [OF ok1 assms(4)] a(2) b1 obtain s2 where
    r: "packet_remove_header p sz s1 = Some (s2, NET_OK)" "pkt_becomes s1 p s2 (drop (nat sz) (packet_bytes s1 p))"
    by auto
  note k1 = buffer_ok_becomes [OF assms(1,2) a(3)]
  note k2 = buffer_ok_becomes [OF conjunct1 [OF k1] assms(2) r(2)]
  have "packet_bytes s2 p = packet_bytes s p" using r(2) a(2) b1 by (auto simp: pkt_becomes_def)
  then have "\<forall>q\<in>set ps. packet_bytes s2 q = packet_bytes s q" using k1 k2 by metis
  with a r(1) b1 k1 k2 show ?thesis unfolding if_not_P [OF False] by blast
qed

theorem packet_header_roundtrip_witness:
  "\<exists>(s :: packet_state) s1 h s2. packet_add_header 0 40 True s = Some (s1, NET_OK) \<and> packet_bytes s1 0 = h @ packet_bytes s 0 \<and>
     length h = 40 \<and> packet_remove_header 0 40 s1 = Some (s2, NET_OK) \<and> packet_bytes s2 0 = packet_bytes s 0"
proof -
  obtain s :: packet_state where s: "buffer_ok s [0]" "length (packet_bytes s 0) = 300" "length (page_pool s) \<ge> 200" using sample_packet by blast
  have "packet_bytes s 0 \<noteq> []" using s(2) by auto
  from packet_header_roundtrip [OF s(1) _ this, of 40 True] s(3) show ?thesis by auto
qed

text \<open>Resizing a packet keeps the common prefix of its bytes: growing appends bytes at
  the end (and succeeds while pages are free), shrinking cuts the end off and returns the
  pages; no other packet changes.\<close>

theorem packet_resize_prefix:
  assumes "buffer_ok s ps" "p \<in> set ps" "0 \<le> n"
    "n - int (length (packet_bytes s p)) \<le> 128 * int (length (page_pool s))"
  shows "\<exists>s' t. packet_resize p n s = Some (s', NET_OK) \<and> buffer_ok s' ps \<and>
           packet_bytes s' p = take (nat n) (packet_bytes s p) @ t \<and> int (length (packet_bytes s' p)) = n \<and>
           (\<forall>q\<in>set ps. q \<noteq> p \<longrightarrow> packet_bytes s' q = packet_bytes s q)"
proof -
  have ok: "packet_ok s p" using assms(1,2) by (simp add: buffer_ok_def)
  from packet_resize_ok [OF ok assms(3,4)] obtain s' t where
    r: "packet_resize p n s = Some (s', NET_OK)" "pkt_becomes s p s' (take (nat n) (packet_bytes s p) @ t)"
      "int (length t) = max 0 (n - int (length (packet_bytes s p)))" by blast
  from r(2) have "packet_bytes s' p = take (nat n) (packet_bytes s p) @ t" by (simp add: pkt_becomes_def)
  moreover have "int (length (take (nat n) (packet_bytes s p) @ t)) = n"
    using r(3) assms(3) by (simp add: min_def)
  ultimately show ?thesis using r(1) buffer_ok_becomes [OF assms(1,2) r(2)] by auto
qed

theorem packet_resize_prefix_witness:
  "\<exists>(s :: packet_state) s' t. packet_resize 0 130 s = Some (s', NET_OK) \<and> packet_bytes s' 0 = take 130 (packet_bytes s 0) @ t \<and>
     length (packet_bytes s' 0) = 130"
proof -
  obtain s :: packet_state where s: "buffer_ok s [0]" "length (packet_bytes s 0) = 300" using sample_packet by blast
  from packet_resize_prefix [OF s(1), of 0 130] s(2) show ?thesis by auto
qed

text \<open>Joining two packets appends the second packet's bytes to the first, releases the
  second packet and loses no page.\<close>

theorem packet_join_appends:
  assumes "buffer_ok s (src # ps)" "dest \<in> set ps" "ref (packets s src) = 1"
  shows "\<exists>s'. packet_join dest src s = Some (s', NET_OK) \<and> buffer_ok s' ps \<and>
    packet_bytes s' dest = packet_bytes s dest @ packet_bytes s src \<and>
    (\<forall>q\<in>set ps. q \<noteq> dest \<longrightarrow> packet_bytes s' q = packet_bytes s q)"
  by (rule buffer_ok_join [OF assms])

theorem packet_join_appends_witness:
  "\<exists>(s :: packet_state) p s'. packet_join 0 p s = Some (s', NET_OK) \<and> packet_bytes s' 0 = packet_bytes s 0 @ packet_bytes s p"
proof -
  obtain s :: packet_state where s: "buffer_ok s [0]" using sample_packet by blast
  have "packet_pool s \<noteq> []"
  proof
    assume "packet_pool s = []"
    with s have "{0 :: nat} = {0..<256}" by (simp add: buffer_ok_def)
    then have "(1 :: nat) \<in> {0}" by simp
    then show False by simp
  qed
  then obtain s1 p where "packet_alloc 0 s = (s1, Some p)"
    by (cases "packet_pool s") (simp_all add: packet_alloc_def)
  with buffer_ok_alloc [OF s, of 0] have "buffer_ok s1 [p, 0]" "ref (packets s1 p) = 1" by simp_all
  from packet_join_appends [OF this(1) _ this(2), of 0] show ?thesis by auto
qed

text \<open>Making the first bytes of a packet contiguous does not change its bytes or any
  other packet, and afterwards the first page holds at least the requested number of them.\<close>

theorem packet_set_cont_contiguous:
  assumes "buffer_ok s ps" "p \<in> set ps" "packet_bytes s p \<noteq> []" "0 \<le> n" "n \<le> int (length (packet_bytes s p))" "n \<le> 128"
  shows "\<exists>s' rest. packet_set_cont p n s = Some (s', NET_OK) \<and> buffer_ok s' ps \<and>
           (\<forall>q\<in>set ps. packet_bytes s' q = packet_bytes s q) \<and>
           packet_data s' p = Some (take (nat n) (packet_bytes s p) @ rest)"
proof -
  have ok: "packet_ok s p" using assms(1,2) by (simp add: buffer_ok_def)
  from packet_set_cont_ok [OF ok assms(4-6,3)] obtain s' where
    r: "packet_set_cont p n s = Some (s', NET_OK)" "pkt_becomes s p s' (packet_bytes s p)"
      "n \<le> pg_size (pages s' (hd (page_list (packets s' p))))" by blast
  from r(2) have ok': "packet_ok s' p" and b: "packet_bytes s' p = packet_bytes s p" by (simp_all add: pkt_becomes_def)
  from b assms(3) obtain pg chain where l: "page_list (packets s' p) = pg # chain"
    by (cases "page_list (packets s' p)") (auto simp: packet_bytes_def)
  let ?g = "pages s' pg"
  have "int (length (page_bytes ?g)) = pg_size ?g" by (rule packet_ok_Cons(5) [OF ok' l])
  with r(3) l assms(4) have n: "nat n \<le> length (page_bytes ?g)" by simp
  have "packet_bytes s p = page_bytes ?g @ chain_bytes (pages s') chain"
    using b packet_ok_Cons(4) [OF ok' l] by simp
  with n have t: "take (nat n) (packet_bytes s p) = take (nat n) (page_bytes ?g)" by simp
  have "drop (nat (pg_data ?g)) (pg_payload ?g) = page_bytes ?g @ drop (nat (pg_size ?g)) (drop (nat (pg_data ?g)) (pg_payload ?g))"
    by (simp only: page_bytes_def append_take_drop_id)
  moreover have "page_bytes ?g = take (nat n) (packet_bytes s p) @ drop (nat n) (page_bytes ?g)"
    unfolding t by (simp only: append_take_drop_id)
  moreover have "packet_data s' p = Some (drop (nat (pg_data ?g)) (pg_payload ?g))"
    by (simp add: packet_data_def packet_first_page_def l)
  ultimately have "\<exists>rest. packet_data s' p = Some (take (nat n) (packet_bytes s p) @ rest)"
    by (metis append_assoc)
  moreover have "\<forall>q\<in>set ps. packet_bytes s' q = packet_bytes s q"
    using b buffer_ok_becomes [OF assms(1,2) r(2)] by auto
  ultimately show ?thesis using r(1) buffer_ok_becomes [OF assms(1,2) r(2)] by blast
qed

theorem packet_set_cont_contiguous_witness:
  "\<exists>(s :: packet_state) s' rest. packet_set_cont 0 60 s = Some (s', NET_OK) \<and> packet_data s' 0 = Some (take 60 (packet_bytes s 0) @ rest)"
proof -
  obtain s :: packet_state where s: "buffer_ok s [0]" "length (packet_bytes s 0) = 300" using sample_packet by blast
  have "packet_bytes s 0 \<noteq> []" using s(2) by auto
  from packet_set_cont_contiguous [OF s(1) _ this, of 60] s(2) show ?thesis by auto
qed

end
