(* ===== verification/Net_Packet_IO.thy ===== *)
theory Net_Packet_IO
  imports Net_Packet Net_Utils
begin

text \<open>
  \<^verbatim>\<open>src/common/packet_buffer.c\<close>, the position of a packet and the operations that read and
  write bytes at it, and \<^verbatim>\<open>checksum_peso\<close> of \<^verbatim>\<open>src/common/utils.c\<close>.  The loops walk from page
  to page; a packet with an empty page would make them go round without progress on the
  size, so they are partial functions whose value \<^term>\<open>None\<close> also covers not returning, and
  the lemmas show that they return on every well-formed packet.
\<close>

section \<open>Operations\<close>

definition curr_page_remain :: "'a packet_state_scheme \<Rightarrow> addr \<Rightarrow> int" where
  "curr_page_remain s p =
     (case cur_page (packets s p) of
        None \<Rightarrow> 0
      | Some pg \<Rightarrow> pg_data (pages s pg) + pg_size (pages s pg) - page_offset (packets s p))"

definition move_forward :: "addr \<Rightarrow> int \<Rightarrow> 'a packet_state_scheme \<Rightarrow> 'a packet_state_scheme option" where
  "move_forward p n s =
     do {
       cur \<leftarrow> cur_page (packets s p);
       let s = upd_packet p (\<lambda>pk. pk\<lparr>pos := pos pk + n, page_offset := page_offset pk + n\<rparr>) s;
       if page_offset (packets s p) \<ge> pg_data (pages s cur) + pg_size (pages s cur)
       then do {
         nxt \<leftarrow> page_next (packets s p) cur;
         Some (upd_packet p (\<lambda>pk. pk\<lparr>cur_page := nxt,
                 page_offset := (case nxt of None \<Rightarrow> 0 | Some g \<Rightarrow> pg_data (pages s g))\<rparr>) s)
       }
       else Some s
     }"

definition total_packet_remain :: "'a packet_state_scheme \<Rightarrow> addr \<Rightarrow> int" where
  "total_packet_remain s p = total_size (packets s p) - pos (packets s p)"

partial_function (option) seek_loop :: "addr \<Rightarrow> int \<Rightarrow> 'a packet_state_scheme \<Rightarrow> 'a packet_state_scheme option" where
  "seek_loop p move_bytes s =
     (if move_bytes = 0 then Some s
      else let remain = curr_page_remain s p;
               curr_move = (if move_bytes > remain then remain else move_bytes)
           in Option.bind (move_forward p curr_move s) (\<lambda>s. seek_loop p (move_bytes - curr_move) s))"

definition packet_seek ::
  "addr \<Rightarrow> int \<Rightarrow> 'a packet_state_scheme \<Rightarrow> ('a packet_state_scheme \<times> net_err_t) option" where
  "packet_seek p offset s =
     do {
       assert_live p s;
       if pos (packets s p) = offset then Some (s, NET_OK)
       else if offset < 0 \<or> offset \<ge> total_size (packets s p) then Some (s, NET_ERR_SIZE)
       else do {
         (s, move_bytes) \<leftarrow>
           (if offset < pos (packets s p)
            then do {
              first \<leftarrow> packet_first_page (packets s p);
              Some (upd_packet p (\<lambda>pk. pk\<lparr>cur_page := Some first, page_offset := pg_data (pages s first), pos := 0\<rparr>) s,
                    offset)
            }
            else Some (s, offset - pos (packets s p)));
         s \<leftarrow> seek_loop p move_bytes s;
         Some (s, NET_OK)
       }
     }"

text \<open>\<^verbatim>\<open>plat_memcpy\<close> to and from the current page at the current offset.\<close>

definition cur_store :: "addr \<Rightarrow> u8 list \<Rightarrow> 'a packet_state_scheme \<Rightarrow> 'a packet_state_scheme option" where
  "cur_store p bs s =
     do {
       cur \<leftarrow> cur_page (packets s p);
       g \<leftarrow> page_write (pages s cur) (page_offset (packets s p)) bs;
       Some (upd_page cur (\<lambda>_. g) s)
     }"

definition cur_load :: "addr \<Rightarrow> int \<Rightarrow> 'a packet_state_scheme \<Rightarrow> u8 list option" where
  "cur_load p n s =
     do {
       cur \<leftarrow> cur_page (packets s p);
       page_read (pages s cur) (page_offset (packets s p)) n
     }"

partial_function (option) write_loop ::
  "addr \<Rightarrow> u8 list \<Rightarrow> int \<Rightarrow> 'a packet_state_scheme \<Rightarrow> 'a packet_state_scheme option" where
  "write_loop p src sz s =
     (if \<not> sz > 0 then Some s
      else let page_size = curr_page_remain s p;
               curr_copy = (if sz > page_size then page_size else sz)
           in if curr_copy < 0 \<or> nat curr_copy > length src then None
              else Option.bind (cur_store p (take (nat curr_copy) src) s)
                     (\<lambda>s. Option.bind (move_forward p curr_copy s)
                        (\<lambda>s. write_loop p (drop (nat curr_copy) src) (sz - curr_copy) s)))"

definition packet_write ::
  "addr \<Rightarrow> u8 list option \<Rightarrow> int \<Rightarrow> 'a packet_state_scheme \<Rightarrow> ('a packet_state_scheme \<times> net_err_t) option" where
  "packet_write p src sz s =
     do {
       assert_live p s;
       case src of
         None \<Rightarrow> Some (s, NET_ERR_PARAM)
       | Some src \<Rightarrow>
           if sz = 0 then Some (s, NET_ERR_PARAM)
           else if total_packet_remain s p < sz then Some (s, NET_ERR_SIZE)
           else do { s \<leftarrow> write_loop p src sz s; Some (s, NET_OK) }
     }"

text \<open>The bytes read are collected in \<open>acc\<close>, which the C code stores at \<^verbatim>\<open>dest\<close>.\<close>

partial_function (option) read_loop ::
  "addr \<Rightarrow> u8 list \<Rightarrow> int \<Rightarrow> 'a packet_state_scheme \<Rightarrow> ('a packet_state_scheme \<times> u8 list) option" where
  "read_loop p acc sz s =
     (if \<not> sz > 0 then Some (s, acc)
      else let blk_size = curr_page_remain s p;
               curr_copy = (if sz > blk_size then blk_size else sz)
           in Option.bind (cur_load p curr_copy s)
                (\<lambda>bs. Option.bind (move_forward p curr_copy s)
                   (\<lambda>s. read_loop p (acc @ bs) (sz - curr_copy) s)))"

definition packet_read ::
  "addr \<Rightarrow> bool \<Rightarrow> int \<Rightarrow> 'a packet_state_scheme \<Rightarrow> ('a packet_state_scheme \<times> net_err_t \<times> u8 list) option" where
  "packet_read p dest sz s =
     do {
       assert_live p s;
       if \<not> dest \<or> sz = 0 then Some (s, NET_OK, [])
       else if total_packet_remain s p < sz then Some (s, NET_ERR_SIZE, [])
       else do { (s, bs) \<leftarrow> read_loop p [] sz s; Some (s, NET_OK, bs) }
     }"

partial_function (option) copy_loop ::
  "addr \<Rightarrow> addr \<Rightarrow> int \<Rightarrow> 'a packet_state_scheme \<Rightarrow> 'a packet_state_scheme option" where
  "copy_loop dest src sz s =
     (if sz = 0 then Some s
      else let dest_remain = curr_page_remain s dest;
               src_remain = curr_page_remain s src;
               copy_size = (if dest_remain > src_remain then src_remain else dest_remain);
               copy_size = (if copy_size > sz then sz else copy_size)
           in Option.bind (cur_load src copy_size s)
                (\<lambda>bs. Option.bind (cur_store dest bs s)
                   (\<lambda>s. Option.bind (move_forward dest copy_size s)
                      (\<lambda>s. Option.bind (move_forward src copy_size s)
                         (\<lambda>s. copy_loop dest src (sz - copy_size) s)))))"

definition packet_copy ::
  "addr \<Rightarrow> addr \<Rightarrow> int \<Rightarrow> 'a packet_state_scheme \<Rightarrow> ('a packet_state_scheme \<times> net_err_t) option" where
  "packet_copy dest src sz s =
     do {
       assert_live src s;
       if total_packet_remain s dest < sz \<or> total_packet_remain s src < sz then Some (s, NET_ERR_SIZE)
       else do { s \<leftarrow> copy_loop dest src sz s; Some (s, NET_OK) }
     }"

partial_function (option) fill_loop ::
  "addr \<Rightarrow> u8 \<Rightarrow> int \<Rightarrow> 'a packet_state_scheme \<Rightarrow> 'a packet_state_scheme option" where
  "fill_loop p v sz s =
     (if \<not> sz > 0 then Some s
      else let blk_size = curr_page_remain s p;
               curr_fill = (if sz > blk_size then blk_size else sz)
           in if curr_fill < 0 then None
              else Option.bind (cur_store p (replicate (nat curr_fill) v) s)
                     (\<lambda>s. Option.bind (move_forward p curr_fill s)
                        (\<lambda>s. fill_loop p v (sz - curr_fill) s)))"

definition packet_fill ::
  "addr \<Rightarrow> u8 \<Rightarrow> int \<Rightarrow> 'a packet_state_scheme \<Rightarrow> ('a packet_state_scheme \<times> net_err_t) option" where
  "packet_fill p v sz s =
     do {
       assert_live p s;
       if sz = 0 then Some (s, NET_ERR_PARAM)
       else if total_packet_remain s p < sz then Some (s, NET_ERR_SIZE)
       else do { s \<leftarrow> fill_loop p v sz s; Some (s, NET_OK) }
     }"

text \<open>
  \<^verbatim>\<open>packet_checksum16\<close>; \<^verbatim>\<open>checksum16\<close> reads from the current position, and the assertion
  that the piece lies within \<^verbatim>\<open>PACKET_PAGE_SIZE\<close> bytes of the page's data is kept.
\<close>

partial_function (option) checksum_loop ::
  "addr \<Rightarrow> int \<Rightarrow> u32 \<Rightarrow> u32 \<Rightarrow> 'a packet_state_scheme \<Rightarrow> ('a packet_state_scheme \<times> u32) option" where
  "checksum_loop p sz offset csum s =
     (if \<not> sz > 0 then Some (s, csum)
      else let blk_size = curr_page_remain s p;
               curr_size = (if blk_size > sz then sz else blk_size)
           in Option.bind (cur_page (packets s p))
                (\<lambda>cur. Option.bind
                   (if 0 \<le> page_offset (packets s p)
                    then checksum16 offset (drop (nat (page_offset (packets s p))) (pg_payload (pages s cur)))
                           (of_int curr_size) csum False
                    else None)
                   (\<lambda>c. if page_offset (packets s p) + curr_size \<le> pg_data (pages s cur) + PACKET_PAGE_SIZE
                        then Option.bind (move_forward p curr_size s)
                               (\<lambda>s. checksum_loop p (sz - curr_size) (offset + of_int curr_size) (ucast c) s)
                        else None)))"

definition packet_checksum16 ::
  "addr \<Rightarrow> int \<Rightarrow> u32 \<Rightarrow> bool \<Rightarrow> 'a packet_state_scheme \<Rightarrow> ('a packet_state_scheme \<times> u16) option" where
  "packet_checksum16 p sz pre_sum complement s =
     do {
       assert_live p s;
       if total_packet_remain s p < sz then Some (s, 0)
       else do {
         (s, csum) \<leftarrow> checksum_loop p sz 0 pre_sum s;
         Some (s, if complement then NOT (ucast csum) else ucast csum)
       }
     }"

definition checksum_peso ::
  "u8 list \<Rightarrow> u8 list \<Rightarrow> u8 \<Rightarrow> addr \<Rightarrow> 'a packet_state_scheme \<Rightarrow> ('a packet_state_scheme \<times> u16) option" where
  "checksum_peso src_ip dest_ip protocol p s =
     do {
       let len = swap_u16 (of_int (total_size (packets s p)));
       c1 \<leftarrow> checksum16 0 src_ip 4 0 False;
       c2 \<leftarrow> checksum16 4 dest_ip 4 (ucast c1) False;
       c3 \<leftarrow> checksum16 8 [0, protocol] 2 (ucast c2) False;
       c4 \<leftarrow> checksum16 10 (le16_bytes len) 2 (ucast c3) False;
       packet_checksum16 p (total_size (packets s p)) (ucast c4) True (packet_reset_pos (Some p) s)
     }"

section \<open>The position\<close>

text \<open>
  A position is inside a page, not at its end; the position at the end of the packet has
  no page.
\<close>

definition cursor_ok :: "'a packet_state_scheme \<Rightarrow> addr \<Rightarrow> bool" where
  "cursor_ok s p \<longleftrightarrow> packet_ok s p \<and>
     (case cur_page (packets s p) of
        None \<Rightarrow> pos (packets s p) = total_size (packets s p)
      | Some pg \<Rightarrow> \<exists>xs ys. page_list (packets s p) = xs @ pg # ys \<and>
          pg_data (pages s pg) \<le> page_offset (packets s p) \<and>
          page_offset (packets s p) < pg_data (pages s pg) + pg_size (pages s pg) \<and>
          pos (packets s p) = int (length (chain_bytes (pages s) xs)) + (page_offset (packets s p) - pg_data (pages s pg)))"

lemma cursor_packet_ok: "cursor_ok s p \<Longrightarrow> packet_ok s p"
  by (simp add: cursor_ok_def)

lemma cursor_at_start:
  assumes "packet_ok s p" "at_start s p"
  shows "cursor_ok s p"
proof (cases "page_list (packets s p)")
  case Nil
  with assms show ?thesis
    by (simp add: cursor_ok_def at_start_def packet_first_page_def packet_ok_def packet_bytes_def)
next
  case (Cons pg chain)
  from packet_ok_Cons(1) [OF assms(1) Cons] have "0 < pg_size (pages s pg)" by (simp add: page_ok_def)
  with assms Cons show ?thesis
    by (simp add: cursor_ok_def at_start_def packet_first_page_def) (metis append_Nil chain_bytes_simps(1) list.size(3))
qed

text \<open>What is known at a position before the end.\<close>

lemma cursor_inside:
  assumes "cursor_ok s p" "pos (packets s p) < total_size (packets s p)"
  obtains xs pg ys k where "cur_page (packets s p) = Some pg" "page_list (packets s p) = xs @ pg # ys"
    "page_offset (packets s p) = pg_data (pages s pg) + int k" "int k < pg_size (pages s pg)"
    "pos (packets s p) = int (length (chain_bytes (pages s) xs) + k)"
    "curr_page_remain s p = pg_size (pages s pg) - int k" "page_ok (pages s pg)"
    "pg \<notin> set xs" "pg \<notin> set ys"
proof -
  from assms obtain pg xs ys where c: "cur_page (packets s p) = Some pg" "page_list (packets s p) = xs @ pg # ys"
    "pg_data (pages s pg) \<le> page_offset (packets s p)"
    "page_offset (packets s p) < pg_data (pages s pg) + pg_size (pages s pg)"
    "pos (packets s p) = int (length (chain_bytes (pages s) xs)) + (page_offset (packets s p) - pg_data (pages s pg))"
    by (auto simp: cursor_ok_def split: option.splits)
  let ?k = "nat (page_offset (packets s p) - pg_data (pages s pg))"
  have ok: "page_ok (pages s pg)" "pg \<notin> set xs" "pg \<notin> set ys"
    using assms(1) c(2) by (auto simp: cursor_ok_def packet_ok_def)
  show thesis
    by (rule that [of pg xs ys ?k]) (use c ok in \<open>simp_all add: curr_page_remain_def\<close>)
qed

lemma cursor_bounds:
  assumes "cursor_ok s p"
  shows "0 \<le> pos (packets s p)" "pos (packets s p) \<le> total_size (packets s p)"
proof -
  have t: "total_size (packets s p) = int (length (packet_bytes s p))"
    using assms by (simp add: cursor_ok_def packet_ok_def)
  have "0 \<le> pos (packets s p) \<and> pos (packets s p) \<le> total_size (packets s p)"
  proof (cases "cur_page (packets s p)")
    case None
    with assms t show ?thesis by (simp add: cursor_ok_def)
  next
    case (Some pg)
    with assms obtain xs ys where c: "page_list (packets s p) = xs @ pg # ys"
      "pg_data (pages s pg) \<le> page_offset (packets s p)"
      "page_offset (packets s p) < pg_data (pages s pg) + pg_size (pages s pg)"
      "pos (packets s p) = int (length (chain_bytes (pages s) xs)) + (page_offset (packets s p) - pg_data (pages s pg))"
      by (auto simp: cursor_ok_def)
    have "page_ok (pages s pg)" using assms c(1) by (simp add: cursor_ok_def packet_ok_def)
    from length_page_bytes [OF this] c t show ?thesis by (simp add: packet_bytes_def)
  qed
  then show "0 \<le> pos (packets s p)" "pos (packets s p) \<le> total_size (packets s p)" by simp_all
qed

text \<open>Only the position has changed.\<close>

definition moved :: "'a packet_state_scheme \<Rightarrow> addr \<Rightarrow> 'a packet_state_scheme \<Rightarrow> bool" where
  "moved s p s' \<longleftrightarrow>
     (\<exists>a b c. s' = upd_packet p (\<lambda>pk. pk\<lparr>pos := a, cur_page := b, page_offset := c\<rparr>) s)"

lemma moved_refl: "moved s p s"
proof -
  have "s = upd_packet p (\<lambda>pk. pk\<lparr>pos := pos (packets s p), cur_page := cur_page (packets s p),
      page_offset := page_offset (packets s p)\<rparr>) s" by (simp add: upd_packet_def)
  then show ?thesis unfolding moved_def by blast
qed

lemma moved_trans:
  assumes "moved s p s1" "moved s1 p s2"
  shows "moved s p s2"
proof -
  from assms obtain a b c a' b' c' where
    "s1 = upd_packet p (\<lambda>pk. pk\<lparr>pos := a, cur_page := b, page_offset := c\<rparr>) s"
    "s2 = upd_packet p (\<lambda>pk. pk\<lparr>pos := a', cur_page := b', page_offset := c'\<rparr>) s1"
    unfolding moved_def by blast
  then have "s2 = upd_packet p (\<lambda>pk. pk\<lparr>pos := a', cur_page := b', page_offset := c'\<rparr>) s"
    by (simp add: upd_packet_def)
  then show ?thesis unfolding moved_def by blast
qed

lemma moved_same:
  assumes "moved s p s'"
  shows "pages s' = pages s" "page_pool s' = page_pool s" "packet_pool s' = packet_pool s"
    "page_list (packets s' q) = page_list (packets s q)" "total_size (packets s' q) = total_size (packets s q)"
    "ref (packets s' q) = ref (packets s q)" "q \<noteq> p \<Longrightarrow> packets s' q = packets s q"
    "rest_of s' = rest_of s" "packet_bytes s' q = packet_bytes s q"
  using assms by (auto simp: moved_def packet_bytes_def)

lemma moved_packet_ok: "moved s p s' \<Longrightarrow> packet_ok s q \<Longrightarrow> packet_ok s' q"
  by (simp add: packet_ok_def moved_same)

lemma moved_becomes: "moved s p s' \<Longrightarrow> packet_ok s p \<Longrightarrow> pkt_becomes s p s' (packet_bytes s p)"
  by (simp add: pkt_becomes_def pkt_frame_def moved_packet_ok moved_same)

lemma move_forward_ok:
  assumes cur: "cursor_ok s p" and inside: "pos (packets s p) < total_size (packets s p)"
    and n: "0 \<le> n" "n \<le> curr_page_remain s p"
  shows "\<exists>s'. move_forward p n s = Some s' \<and> moved s p s' \<and> cursor_ok s' p \<and>
           pos (packets s' p) = pos (packets s p) + n"
proof -
  obtain xs pg ys k where c: "cur_page (packets s p) = Some pg" "page_list (packets s p) = xs @ pg # ys"
    "page_offset (packets s p) = pg_data (pages s pg) + int k" "int k < pg_size (pages s pg)"
    "pos (packets s p) = int (length (chain_bytes (pages s) xs) + k)"
    "curr_page_remain s p = pg_size (pages s pg) - int k" "page_ok (pages s pg)" "pg \<notin> set xs" "pg \<notin> set ys"
    by (rule cursor_inside [OF cur inside])
  have ok: "packet_ok s p" by (rule cursor_packet_ok [OF cur])
  have pb: "int (length (page_bytes (pages s pg))) = pg_size (pages s pg)" by (rule length_page_bytes [OF c(7)])
  show ?thesis
  proof (cases "n = pg_size (pages s pg) - int k")
    case False
    let ?s = "upd_packet p (\<lambda>pk. pk\<lparr>pos := pos (packets s p) + n, cur_page := Some pg,
        page_offset := page_offset (packets s p) + n\<rparr>) s"
    have e: "?s = upd_packet p (\<lambda>pk. pk\<lparr>pos := pos pk + n, page_offset := page_offset pk + n\<rparr>) s"
      using c(1) by (cases "packets s p") (simp add: upd_packet_def)
    have m: "moved s p ?s" unfolding moved_def by blast
    have run: "move_forward p n s = Some ?s"
      unfolding e using c(1,3,6) n False by (simp add: move_forward_def Let_def)
    have "cursor_ok ?s p"
      unfolding cursor_ok_def using moved_packet_ok [OF m ok] c n False by auto
    with run m show ?thesis by auto
  next
    case True
    let ?s = "upd_packet p (\<lambda>pk. pk\<lparr>pos := pos (packets s p) + n, cur_page := hd_ptr ys,
        page_offset := (case hd_ptr ys of None \<Rightarrow> 0 | Some g \<Rightarrow> pg_data (pages s g))\<rparr>) s"
    have m: "moved s p ?s" unfolding moved_def by blast
    have nx: "list_succ (xs @ pg # ys) pg = hd_ptr ys" by (rule list_succ_append [OF c(8)])
    have run: "move_forward p n s = Some ?s"
      using c(1,2,3) True nx by (cases ys) (simp_all add: move_forward_def Let_def page_next_def, simp_all add: upd_packet_def)
    have ps: "pos (packets ?s p) = int (length (chain_bytes (pages s) (xs @ [pg])))"
      using c(5) True pb by simp
    have ok': "packet_ok ?s p" by (rule moved_packet_ok [OF m ok])
    have "cursor_ok ?s p"
    proof (cases ys)
      case Nil
      have "total_size (packets s p) = int (length (chain_bytes (pages s) (xs @ [pg])))"
        using packet_ok_total [OF ok] c(2) Nil by (simp add: packet_bytes_def)
      with ok' ps Nil show ?thesis by (simp add: cursor_ok_def)
    next
      case (Cons g gs)
      have "page_ok (pages s g)" using ok c(2) Cons by (simp add: packet_ok_def)
      then have "0 < pg_size (pages s g)" by (simp add: page_ok_def)
      with ok' ps Cons c(2) show ?thesis
        by (simp add: cursor_ok_def) (rule exI [of _ "xs @ [pg]"], simp)
    qed
    with run m show ?thesis by auto
  qed
qed

text \<open>The bytes from a position on start with those of the current page.\<close>

lemma bytes_at_cursor:
  assumes "page_list (packets s p) = xs @ pg # ys" "page_ok (pages s pg)" "int k < pg_size (pages s pg)"
  shows "drop (length (chain_bytes (pages s) xs) + k) (packet_bytes s p) =
         drop k (page_bytes (pages s pg)) @ chain_bytes (pages s) ys"
  using assms length_page_bytes [OF assms(2)] by (simp add: packet_bytes_def)

lemma cur_load_ok:
  assumes cur: "cursor_ok s p" and inside: "pos (packets s p) < total_size (packets s p)"
    and n: "0 \<le> n" "n \<le> curr_page_remain s p"
  shows "cur_load p n s = Some (take (nat n) (drop (nat (pos (packets s p))) (packet_bytes s p)))"
proof -
  obtain xs pg ys k where c: "cur_page (packets s p) = Some pg" "page_list (packets s p) = xs @ pg # ys"
    "page_offset (packets s p) = pg_data (pages s pg) + int k" "int k < pg_size (pages s pg)"
    "pos (packets s p) = int (length (chain_bytes (pages s) xs) + k)"
    "curr_page_remain s p = pg_size (pages s pg) - int k" "page_ok (pages s pg)" "pg \<notin> set xs" "pg \<notin> set ys"
    by (rule cursor_inside [OF cur inside])
  let ?g = "pages s pg"
  have pb: "int (length (page_bytes ?g)) = pg_size ?g" by (rule length_page_bytes [OF c(7)])
  have "nat n \<le> length (drop k (page_bytes ?g))" 
    unfolding length_drop using pb n c(4,6) by linarith
  then have r: "take (nat n) (drop (nat (pos (packets s p))) (packet_bytes s p)) = take (nat n) (drop k (page_bytes ?g))"
    using bytes_at_cursor [OF c(2,7,4)] unfolding c(5) nat_int by simp
  have d: "0 \<le> pg_data ?g" "pg_data ?g + pg_size ?g \<le> 128" "length (pg_payload ?g) = 128"
    using c(7) by (auto simp: page_ok_def)
  then have bd: "0 \<le> page_offset (packets s p)" "page_offset (packets s p) + n \<le> int (length (pg_payload ?g))"
    using c(3) n c(6) by simp_all
  have "nat (pg_data ?g + int k) = nat (pg_data ?g) + k" using d by (simp add: nat_add_distrib)
  then have "drop (nat (page_offset (packets s p))) (pg_payload ?g) = drop k (drop (nat (pg_data ?g)) (pg_payload ?g))"
    by (simp add: c(3) add.commute)
  moreover have "take (nat n) (drop k (page_bytes ?g)) = take (nat n) (drop k (drop (nat (pg_data ?g)) (pg_payload ?g)))"
    using n c(6) by (simp add: page_bytes_def drop_take min_def)
  ultimately show ?thesis using c(1) bd n(1) by (simp add: cur_load_def page_read_def r)
qed

text \<open>Replacing the bytes from position \<open>n\<close> on.\<close>

definition patch :: "nat \<Rightarrow> 'b list \<Rightarrow> 'b list \<Rightarrow> 'b list" where
  "patch n bs b = take n b @ bs @ drop (n + length bs) b"

lemma length_patch [simp]: "n + length bs \<le> length b \<Longrightarrow> length (patch n bs b) = length b"
  by (simp add: patch_def)

lemma patch_Nil [simp]: "patch n [] b = b"
  by (simp add: patch_def)

lemma patch_append: "n + length xs + length ys \<le> length b \<Longrightarrow>
    patch (n + length xs) ys (patch n xs b) = patch n (xs @ ys) b"
  by (simp add: patch_def ac_simps)

lemma page_write_bytes:
  assumes "page_ok g" "int k + int (length bs) \<le> pg_size g"
  shows "\<exists>g'. page_write g (pg_data g + int k) bs = Some g' \<and> pg_size g' = pg_size g \<and> pg_data g' = pg_data g \<and>
    page_ok g' \<and> page_bytes g' = patch k bs (page_bytes g)"
proof -
  have d: "0 \<le> pg_data g" "0 < pg_size g" "pg_data g + pg_size g \<le> 128" "length (pg_payload g) = 128"
    using assms(1) by (auto simp: page_ok_def)
  define a where "a = nat (pg_data g)"
  define n where "n = nat (pg_size g)"
  have a: "pg_data g = int a" "pg_size g = int n" using d by (simp_all add: a_def n_def)
  have e: "nat (pg_data g + int k) = a + k" by (simp add: a)
  have le: "a + n \<le> 128" "k + length bs \<le> n" using d(3) assms(2) by (simp_all add: a)
  let ?P = "pg_payload g"
  let ?g = "g\<lparr>pg_payload := take (a + k) ?P @ bs @ drop (a + k + length bs) ?P\<rparr>"
  have w: "page_write g (pg_data g + int k) bs = Some ?g"
    using d le by (simp add: page_write_def a nat_int_add)
  have "page_bytes ?g = patch k bs (page_bytes g)"
    using le d(4) by (auto simp: page_bytes_def a patch_def drop_take min_def ac_simps dest: le_antisym)
  moreover have "page_ok ?g" using assms(1) le d(4) by (simp add: page_ok_def)
  ultimately show ?thesis using w by auto
qed

lemma cur_store_ok:
  assumes cur: "cursor_ok s p" and inside: "pos (packets s p) < total_size (packets s p)"
    and n: "int (length bs) \<le> curr_page_remain s p"
  shows "\<exists>s'. cur_store p bs s = Some s' \<and> packets s' = packets s \<and> cursor_ok s' p \<and>
    curr_page_remain s' p = curr_page_remain s p \<and>
    pkt_becomes s p s' (patch (nat (pos (packets s p))) bs (packet_bytes s p)) \<and> page_pool s' = page_pool s"
proof -
  obtain xs pg ys k where c: "cur_page (packets s p) = Some pg" "page_list (packets s p) = xs @ pg # ys"
    "page_offset (packets s p) = pg_data (pages s pg) + int k" "int k < pg_size (pages s pg)"
    "pos (packets s p) = int (length (chain_bytes (pages s) xs) + k)"
    "curr_page_remain s p = pg_size (pages s pg) - int k" "page_ok (pages s pg)" "pg \<notin> set xs" "pg \<notin> set ys"
    by (rule cursor_inside [OF cur inside])
  have ok: "packet_ok s p" by (rule cursor_packet_ok [OF cur])
  have "int k + int (length bs) \<le> pg_size (pages s pg)" using n c(6) by simp
  from page_write_bytes [OF c(7) this] obtain g' where
    w: "page_write (pages s pg) (page_offset (packets s p)) bs = Some g'" and g': "pg_size g' = pg_size (pages s pg)"
      "pg_data g' = pg_data (pages s pg)" "page_ok g'" "page_bytes g' = patch k bs (page_bytes (pages s pg))"
    unfolding c(3) by blast
  let ?s = "upd_page pg (\<lambda>_. g') s"
  have pb: "length (page_bytes (pages s pg)) = nat (pg_size (pages s pg))" using length_page_bytes [OF c(7)] by simp
  have kk: "k + length bs \<le> length (page_bytes (pages s pg))" using pb n c(6) by linarith
  have run: "cur_store p bs s = Some ?s" using c(1) w by (simp add: cur_store_def)
  have pos: "nat (pos (packets s p)) = length (chain_bytes (pages s) xs) + k" by (simp only: c(5) nat_int)
  have bytes: "packet_bytes ?s p = patch (nat (pos (packets s p))) bs (packet_bytes s p)"
    using c(8,9) g'(4) kk by (simp add: packet_bytes_def c(2) pos patch_def)
  have len: "length (packet_bytes ?s p) = length (packet_bytes s p)"
    using c(8,9) g'(4) kk by (simp add: packet_bytes_def c(2))
  have ok': "packet_ok ?s p"
    unfolding packet_ok_def len using ok g'(3) by (auto simp: packet_ok_def page_ok_def)
  have cr: "cursor_ok ?s p"
    using cur ok' c g' by (auto simp: cursor_ok_def)
  have "pkt_frame s p ?s" using c(2) by (auto simp: pkt_frame_def)
  with run ok' cr bytes g' c show ?thesis by (auto simp: pkt_becomes_def curr_page_remain_def)
qed

section \<open>The loops\<close>

text \<open>The size of the next piece a loop handles.\<close>

lemma next_piece:
  assumes "cursor_ok s p" "0 < sz" "pos (packets s p) + sz \<le> total_size (packets s p)"
  obtains n where "n = (if sz > curr_page_remain s p then curr_page_remain s p else sz)"
    "pos (packets s p) < total_size (packets s p)" "0 < n" "n \<le> curr_page_remain s p" "n \<le> sz"
    "nat (sz - n) < nat sz" "nat sz = nat n + nat (sz - n)"
    "nat (pos (packets s p) + n) = nat (pos (packets s p)) + nat n"
proof -
  have inside: "pos (packets s p) < total_size (packets s p)" using assms by simp
  have r: "0 < curr_page_remain s p"
    using cursor_inside [OF assms(1) inside] by (metis diff_gt_0_iff_gt)
  have q: "0 \<le> pos (packets s p)" by (rule cursor_bounds [OF assms(1)])
  show thesis by (rule that [OF refl inside]) (use r assms(2) q in auto)
qed

lemma read_loop_ok:
  assumes "cursor_ok s p" "0 \<le> sz" "pos (packets s p) + sz \<le> total_size (packets s p)"
  shows "\<exists>s'. read_loop p acc sz s =
      Some (s', acc @ take (nat sz) (drop (nat (pos (packets s p))) (packet_bytes s p))) \<and>
    moved s p s' \<and> cursor_ok s' p \<and> pos (packets s' p) = pos (packets s p) + sz"
  using assms
proof (induction "nat sz" arbitrary: sz s acc rule: less_induct)
  case less
  show ?case
  proof (cases "sz = 0")
    case True
    with less.prems show ?thesis by (subst read_loop.simps) (simp add: moved_refl)
  next
    case False
    with less.prems(2) have pos: "0 < sz" by simp
    obtain n where n: "n = (if sz > curr_page_remain s p then curr_page_remain s p else sz)"
      and ns: "pos (packets s p) < total_size (packets s p)" "0 < n" "n \<le> curr_page_remain s p" "n \<le> sz"
        "nat (sz - n) < nat sz" "nat sz = nat n + nat (sz - n)"
        "nat (pos (packets s p) + n) = nat (pos (packets s p)) + nat n"
      by (rule next_piece [OF less.prems(1) pos less.prems(3)])
    let ?b = "packet_bytes s p" and ?q = "nat (pos (packets s p))"
    from move_forward_ok [OF less.prems(1) ns(1) less_imp_le [OF ns(2)] ns(3)] obtain s1 where
      s1: "move_forward p n s = Some s1" "moved s p s1" "cursor_ok s1 p" "pos (packets s1 p) = pos (packets s p) + n" by blast
    have step: "read_loop p acc sz s = read_loop p (acc @ take (nat n) (drop ?q ?b)) (sz - n) s1"
      using pos s1(1) cur_load_ok [OF less.prems(1) ns(1) less_imp_le [OF ns(2)] ns(3)]
      by (subst read_loop.simps) (simp add: Let_def flip: n)
    have "0 \<le> sz - n" "pos (packets s1 p) + (sz - n) \<le> total_size (packets s1 p)"
      using ns(4) s1(4) less.prems(3) moved_same(5) [OF s1(2)] by simp_all
    from less.hyps [OF ns(5) s1(3) this, of "acc @ take (nat n) (drop ?q ?b)"] obtain s' where
      s': "read_loop p (acc @ take (nat n) (drop ?q ?b)) (sz - n) s1 =
        Some (s', (acc @ take (nat n) (drop ?q ?b)) @ take (nat (sz - n)) (drop (?q + nat n) ?b))"
      "moved s1 p s'" "cursor_ok s' p" "pos (packets s' p) = pos (packets s p) + sz"
      using s1(4) ns(7) moved_same(9) [OF s1(2)] by auto
    have "take (nat n) (drop ?q ?b) @ take (nat (sz - n)) (drop (?q + nat n) ?b) = take (nat sz) (drop ?q ?b)"
      unfolding ns(6) by (simp add: take_add add.commute)
    with s' step moved_trans [OF s1(2)] show ?thesis by auto
  qed
qed

lemma pkt_becomes_trans:
  "pkt_becomes s p s1 b1 \<Longrightarrow> pkt_becomes s1 p s2 b2 \<Longrightarrow> pkt_becomes s p s2 b2"
  using pkt_frame_trans by (auto simp: pkt_becomes_def)

lemma write_loop_ok:
  assumes "cursor_ok s p" "0 \<le> sz" "pos (packets s p) + sz \<le> total_size (packets s p)" "nat sz \<le> length src"
  shows "\<exists>s'. write_loop p src sz s = Some s' \<and> cursor_ok s' p \<and> pos (packets s' p) = pos (packets s p) + sz \<and>
    pkt_becomes s p s' (patch (nat (pos (packets s p))) (take (nat sz) src) (packet_bytes s p))"
  using assms
proof (induction "nat sz" arbitrary: sz s src rule: less_induct)
  case less
  show ?case
  proof (cases "sz = 0")
    case True
    with less.prems show ?thesis
      by (subst write_loop.simps) (simp add: pkt_becomes_def pkt_frame_def cursor_packet_ok)
  next
    case False
    with less.prems(2) have pos: "0 < sz" by simp
    obtain n where n: "n = (if sz > curr_page_remain s p then curr_page_remain s p else sz)"
      and ns: "pos (packets s p) < total_size (packets s p)" "0 < n" "n \<le> curr_page_remain s p" "n \<le> sz"
        "nat (sz - n) < nat sz" "nat sz = nat n + nat (sz - n)"
        "nat (pos (packets s p) + n) = nat (pos (packets s p)) + nat n"
      by (rule next_piece [OF less.prems(1) pos less.prems(3)])
    let ?b = "packet_bytes s p" and ?q = "nat (pos (packets s p))"
    have nl: "nat n \<le> length src" using ns(6) less.prems(4) by simp
    then have ln: "int (length (take (nat n) src)) = n" "length (take (nat n) src) = nat n" using ns(2) by simp_all
    from cur_store_ok [OF less.prems(1) ns(1), of "take (nat n) src"] ln ns(3) obtain s1 where
      s1: "cur_store p (take (nat n) src) s = Some s1" "packets s1 = packets s" "cursor_ok s1 p"
        "curr_page_remain s1 p = curr_page_remain s p" "pkt_becomes s p s1 (patch ?q (take (nat n) src) ?b)" by auto
    have "pos (packets s1 p) < total_size (packets s1 p)" "n \<le> curr_page_remain s1 p" using ns(1,3) s1(2,4) by simp_all
    from move_forward_ok [OF s1(3) this(1) less_imp_le [OF ns(2)] this(2)] obtain s2 where
      s2: "move_forward p n s1 = Some s2" "moved s1 p s2" "cursor_ok s2 p" "pos (packets s2 p) = pos (packets s p) + n"
      using s1(2) by auto
    have b2: "pkt_becomes s p s2 (patch ?q (take (nat n) src) ?b)"
      using pkt_becomes_trans [OF s1(5) moved_becomes [OF s2(2) cursor_packet_ok [OF s1(3)]]] s1(5)
      by (simp add: pkt_becomes_def)
    have step: "write_loop p src sz s = write_loop p (drop (nat n) src) (sz - n) s2"
      using pos s1(1) s2(1) nl ns(2) by (subst write_loop.simps) (simp add: Let_def flip: n)
    have "0 \<le> sz - n" "pos (packets s2 p) + (sz - n) \<le> total_size (packets s2 p)" "nat (sz - n) \<le> length (drop (nat n) src)"
      using ns(4,6) s2(4) less.prems(3,4) moved_same(5) [OF s2(2)] s1(2) by simp_all
    from less.hyps [OF ns(5) s2(3) this] obtain s' where
      s': "write_loop p (drop (nat n) src) (sz - n) s2 = Some s'" "cursor_ok s' p" "pos (packets s' p) = pos (packets s p) + sz"
        "pkt_becomes s2 p s' (patch (?q + nat n) (take (nat (sz - n)) (drop (nat n) src)) (packet_bytes s2 p))"
      using s2(4) ns(7) by auto
    have "int ?q + sz \<le> int (length ?b)"
      using less.prems(3) packet_ok_total [OF cursor_packet_ok [OF less.prems(1)]] cursor_bounds(1) [OF less.prems(1)] by simp
    then have "?q + nat sz \<le> length ?b" using less.prems(2) by linarith
    then have "?q + length (take (nat n) src) + length (take (nat (sz - n)) (drop (nat n) src)) \<le> length ?b"
      unfolding ns(6) ln(2) using less.prems(4) ns(6) by (simp add: min_def) arith
    from patch_append [OF this] b2
    have "patch (?q + nat n) (take (nat (sz - n)) (drop (nat n) src)) (packet_bytes s2 p) = patch ?q (take (nat sz) src) ?b"
      unfolding ns(6) take_add ln(2) by (simp add: pkt_becomes_def)
    with s' step pkt_becomes_trans [OF b2] show ?thesis by auto
  qed
qed

text \<open>Filling is writing copies of one byte.\<close>

lemma fill_loop_write:
  assumes "cursor_ok s p" "0 \<le> sz" "pos (packets s p) + sz \<le> total_size (packets s p)"
  shows "fill_loop p v sz s = write_loop p (replicate (nat sz) v) sz s"
  using assms
proof (induction "nat sz" arbitrary: sz s rule: less_induct)
  case less
  show ?case
  proof (cases "sz = 0")
    case True
    then show ?thesis by (simp add: fill_loop.simps write_loop.simps)
  next
    case False
    with less.prems(2) have pos: "0 < sz" by simp
    obtain n where n: "n = (if sz > curr_page_remain s p then curr_page_remain s p else sz)"
      and ns: "pos (packets s p) < total_size (packets s p)" "0 < n" "n \<le> curr_page_remain s p" "n \<le> sz"
        "nat (sz - n) < nat sz" "nat sz = nat n + nat (sz - n)"
        "nat (pos (packets s p) + n) = nat (pos (packets s p)) + nat n"
      by (rule next_piece [OF less.prems(1) pos less.prems(3)])
    from cur_store_ok [OF less.prems(1) ns(1), of "replicate (nat n) v"] ns(2,3) obtain s1 where
      s1: "cur_store p (replicate (nat n) v) s = Some s1" "packets s1 = packets s" "cursor_ok s1 p"
        "curr_page_remain s1 p = curr_page_remain s p" by auto
    have "pos (packets s1 p) < total_size (packets s1 p)" "n \<le> curr_page_remain s1 p" using ns(1,3) s1(2,4) by simp_all
    from move_forward_ok [OF s1(3) this(1) less_imp_le [OF ns(2)] this(2)] obtain s2 where
      s2: "move_forward p n s1 = Some s2" "moved s1 p s2" "cursor_ok s2 p" "pos (packets s2 p) = pos (packets s p) + n"
      using s1(2) by auto
    have "0 \<le> sz - n" "pos (packets s2 p) + (sz - n) \<le> total_size (packets s2 p)"
      using ns(4) s2(4) less.prems(3) moved_same(5) [OF s2(2)] s1(2) by simp_all
    note ih = less.hyps [OF ns(5) s2(3) this]
    have f: "fill_loop p v sz s = fill_loop p v (sz - n) s2"
      using pos s1(1) s2(1) ns(2) by (subst fill_loop.simps) (simp add: Let_def flip: n)
    have "take (nat n) (replicate (nat sz) v) = replicate (nat n) v" "drop (nat n) (replicate (nat sz) v) = replicate (nat (sz - n)) v"
      using ns(6) by simp_all
    then have "write_loop p (replicate (nat sz) v) sz s = write_loop p (replicate (nat (sz - n)) v) (sz - n) s2"
      using pos s1(1) s2(1) ns(2,6) by (subst write_loop.simps) (simp add: Let_def flip: n)
    with f ih show ?thesis by simp
  qed
qed

lemma seek_loop_ok:
  assumes "cursor_ok s p" "0 \<le> n" "pos (packets s p) + n < total_size (packets s p)"
  shows "\<exists>s'. seek_loop p n s = Some s' \<and> moved s p s' \<and> cursor_ok s' p \<and> pos (packets s' p) = pos (packets s p) + n"
  using assms
proof (induction "nat n" arbitrary: n s rule: less_induct)
  case less
  show ?case
  proof (cases "n = 0")
    case True
    with less.prems show ?thesis by (subst seek_loop.simps) (simp add: moved_refl)
  next
    case False
    with less.prems(2) have pos: "0 < n" by simp
    from less.prems(3) have le: "pos (packets s p) + n \<le> total_size (packets s p)" by simp
    obtain m where m: "m = (if n > curr_page_remain s p then curr_page_remain s p else n)"
      and ms: "pos (packets s p) < total_size (packets s p)" "0 < m" "m \<le> curr_page_remain s p" "m \<le> n"
        "nat (n - m) < nat n"
      by (rule next_piece [OF less.prems(1) pos le])
    from move_forward_ok [OF less.prems(1) ms(1) less_imp_le [OF ms(2)] ms(3)] obtain s1 where
      s1: "move_forward p m s = Some s1" "moved s p s1" "cursor_ok s1 p" "pos (packets s1 p) = pos (packets s p) + m" by blast
    have "seek_loop p n s = seek_loop p (n - m) s1"
      using False s1(1) by (subst seek_loop.simps) (simp add: Let_def flip: m)
    moreover have "0 \<le> n - m" "pos (packets s1 p) + (n - m) < total_size (packets s1 p)"
      using ms(4) s1(4) less.prems(3) moved_same(5) [OF s1(2)] by simp_all
    from less.hyps [OF ms(5) s1(3) this] s1(4)
    have "\<exists>s'. seek_loop p (n - m) s1 = Some s' \<and> moved s1 p s' \<and> cursor_ok s' p \<and> pos (packets s' p) = pos (packets s p) + n"
      by auto
    ultimately show ?thesis using moved_trans [OF s1(2)] by auto
  qed
qed

lemma packet_seek_ok:
  assumes cur: "cursor_ok s p" and off: "0 \<le> offset" "offset < total_size (packets s p)"
  shows "\<exists>s'. packet_seek p offset s = Some (s', NET_OK) \<and> moved s p s' \<and> cursor_ok s' p \<and> pos (packets s' p) = offset"
proof -
  have ok: "packet_ok s p" by (rule cursor_packet_ok [OF cur])
  note live = packet_ok_live [OF ok]
  consider "pos (packets s p) = offset" | "offset < pos (packets s p)" | "pos (packets s p) < offset" by fastforce
  then show ?thesis
  proof cases
    case 1
    with cur show ?thesis by (auto simp: packet_seek_def live moved_refl)
  next
    case 2
    have "packet_bytes s p \<noteq> []" using off packet_ok_total [OF ok] by auto
    then obtain pg chain where l: "page_list (packets s p) = pg # chain"
      by (cases "page_list (packets s p)") (auto simp: packet_bytes_def)
    let ?s = "upd_packet p (\<lambda>pk. pk\<lparr>pos := 0, cur_page := Some pg, page_offset := pg_data (pages s pg)\<rparr>) s"
    have e: "upd_packet p (\<lambda>pk. pk\<lparr>cur_page := Some pg, page_offset := pg_data (pages s pg), pos := 0\<rparr>) s = ?s"
      by (cases "packets s p") (simp add: upd_packet_def)
    have m: "moved s p ?s" unfolding moved_def by blast
    have ok': "packet_ok ?s p" by (rule moved_packet_ok [OF m ok])
    have "cursor_ok ?s p"
      by (rule cursor_at_start [OF ok']) (simp add: at_start_def packet_first_page_def l)
    from seek_loop_ok [OF this off(1)] off(2) obtain s' where
      s': "seek_loop p offset ?s = Some s'" "moved ?s p s'" "cursor_ok s' p" "pos (packets s' p) = offset" by auto
    have "packet_seek p offset s = Some (s', NET_OK)"
      using 2 off live l s'(1) by (simp add: packet_seek_def packet_first_page_def e)
    with s' moved_trans [OF m] show ?thesis by blast
  next
    case 3
    from seek_loop_ok [OF cur, of "offset - pos (packets s p)"] 3 off obtain s' where
      "seek_loop p (offset - pos (packets s p)) s = Some s'" "moved s p s'" "cursor_ok s' p" "pos (packets s' p) = offset"
      by auto
    with 3 off live show ?thesis by (auto simp: packet_seek_def)
  qed
qed

section \<open>Copying between packets\<close>

text \<open>An operation on one packet leaves the position of another as it is.\<close>

lemma cursor_other:
  assumes ok: "buffer_ok s ps" and pq: "p \<in> set ps" "q \<in> set ps" "q \<noteq> p" and b: "pkt_becomes s p s' bs"
    and cur: "cursor_ok s q"
  shows "cursor_ok s' q" "packets s' q = packets s q" "curr_page_remain s' q = curr_page_remain s q"
proof -
  show e: "packets s' q = packets s q" using b pq(3) by (simp add: pkt_becomes_def pkt_frame_def)
  have ok': "packet_ok s' q" using buffer_ok_becomes [OF ok pq(1) b] pq(2) by (simp add: buffer_ok_def)
  have g: "pages s' g = pages s g" if "g \<in> set (page_list (packets s q))" for g
  proof -
    from pq(2) obtain xs ys where ps: "ps = xs @ q # ys" by (meson split_list)
    have "p \<in> set xs \<or> p \<in> set ys" using ps pq(1,3) by auto
    then have "set (page_list (packets s p)) \<subseteq> set (owned s xs) \<union> set (owned s ys)"
      using owned_member [of p xs s] owned_member [of p ys s] by auto
    moreover have "distinct (page_pool s @ owned s xs @ page_list (packets s q) @ owned s ys)"
      using ok by (simp add: buffer_ok_def ps owned_split)
    ultimately have "g \<notin> set (page_pool s) \<union> set (page_list (packets s p))" using that by auto
    with b show ?thesis by (simp add: pkt_becomes_def pkt_frame_def)
  qed
  have "cursor_ok s' q \<and> curr_page_remain s' q = curr_page_remain s q"
  proof (cases "cur_page (packets s q)")
    case None
    with cur e ok' show ?thesis by (simp add: cursor_ok_def curr_page_remain_def)
  next
    case (Some pg)
    with cur obtain xs ys where l: "page_list (packets s q) = xs @ pg # ys"
      "pg_data (pages s pg) \<le> page_offset (packets s q)"
      "page_offset (packets s q) < pg_data (pages s pg) + pg_size (pages s pg)"
      "pos (packets s q) = int (length (chain_bytes (pages s) xs)) + (page_offset (packets s q) - pg_data (pages s pg))"
      by (auto simp: cursor_ok_def)
    have "pages s' pg = pages s pg" by (rule g) (simp add: l(1))
    moreover have "chain_bytes (pages s') xs = chain_bytes (pages s) xs"
      by (rule chain_bytes_cong, rule g) (simp add: l(1))
    ultimately have "page_list (packets s' q) = xs @ pg # ys \<and>
      pg_data (pages s' pg) \<le> page_offset (packets s' q) \<and>
      page_offset (packets s' q) < pg_data (pages s' pg) + pg_size (pages s' pg) \<and>
      pos (packets s' q) = int (length (chain_bytes (pages s') xs)) + (page_offset (packets s' q) - pg_data (pages s' pg))"
      "pages s' pg = pages s pg" using l e by simp_all
    with Some e ok' show ?thesis by (simp add: cursor_ok_def curr_page_remain_def) blast
  qed
  then show "cursor_ok s' q" "curr_page_remain s' q = curr_page_remain s q" by simp_all
qed

lemma copy_loop_ok:
  assumes "buffer_ok s ps" "dest \<in> set ps" "src \<in> set ps" "dest \<noteq> src" "cursor_ok s dest" "cursor_ok s src" "0 \<le> sz"
    "pos (packets s dest) + sz \<le> total_size (packets s dest)" "pos (packets s src) + sz \<le> total_size (packets s src)"
  shows "\<exists>s'. copy_loop dest src sz s = Some s' \<and> buffer_ok s' ps \<and> cursor_ok s' dest \<and> cursor_ok s' src \<and>
    pos (packets s' dest) = pos (packets s dest) + sz \<and> pos (packets s' src) = pos (packets s src) + sz \<and>
    packet_bytes s' dest = patch (nat (pos (packets s dest)))
      (take (nat sz) (drop (nat (pos (packets s src))) (packet_bytes s src))) (packet_bytes s dest) \<and>
    (\<forall>q\<in>set ps. q \<noteq> dest \<longrightarrow> packet_bytes s' q = packet_bytes s q)"
  using assms
proof (induction "nat sz" arbitrary: sz s rule: less_induct)
  case less
  note ok = less.prems(1) and d = less.prems(2) and sr = less.prems(3) and ne = less.prems(4)
    and cd = less.prems(5) and cs = less.prems(6)
  show ?case
  proof (cases "sz = 0")
    case True
    with less.prems show ?thesis by (subst copy_loop.simps) simp
  next
    case False
    with less.prems(7) have pos: "0 < sz" by simp
    let ?rd = "curr_page_remain s dest" and ?rs = "curr_page_remain s src"
    obtain n1 where n1: "n1 = (if sz > ?rd then ?rd else sz)" "pos (packets s dest) < total_size (packets s dest)" "0 < n1" "n1 \<le> ?rd" "n1 \<le> sz"
      by (rule next_piece [OF cd pos less.prems(8)])
    obtain n2 where n2: "n2 = (if sz > ?rs then ?rs else sz)" "pos (packets s src) < total_size (packets s src)" "0 < n2" "n2 \<le> ?rs" "n2 \<le> sz"
      by (rule next_piece [OF cs pos less.prems(9)])
    define n where "n = (let c = (if ?rd > ?rs then ?rs else ?rd) in if c > sz then sz else c)"
    have n: "0 < n" "n \<le> ?rd" "n \<le> ?rs" "n \<le> sz" using n1 n2 by (auto simp: n_def Let_def split: if_splits)
    let ?qd = "nat (pos (packets s dest))" and ?qs = "nat (pos (packets s src))"
    let ?bd = "packet_bytes s dest" and ?bs = "packet_bytes s src"
    let ?x = "take (nat n) (drop ?qs ?bs)"
    have q0: "0 \<le> pos (packets s dest)" "0 \<le> pos (packets s src)" using cursor_bounds cd cs by blast+
    have td: "total_size (packets s dest) = int (length ?bd)" "total_size (packets s src) = int (length ?bs)"
      using packet_ok_total cursor_packet_ok cd cs by blast+
    have ld: "cur_load src n s = Some ?x" by (rule cur_load_ok [OF cs n2(2) less_imp_le [OF n(1)] n(3)])
    have lx: "length ?x = nat n" using n(1,4) less.prems(9) td(2) q0(2) by simp
    then have "int (length ?x) \<le> ?rd" using n(1,2) by simp
    from cur_store_ok [OF cd n1(2) this] obtain s1 where
      s1: "cur_store dest ?x s = Some s1" "packets s1 = packets s" "cursor_ok s1 dest"
        "curr_page_remain s1 dest = ?rd" "pkt_becomes s dest s1 (patch ?qd ?x ?bd)" by blast
    note k1 = buffer_ok_becomes [OF ok d s1(5)]
    note c1 = cursor_other [OF ok d sr ne [symmetric] s1(5) cs]
    have "pos (packets s1 dest) < total_size (packets s1 dest)" "n \<le> curr_page_remain s1 dest" using n1(2) n(2) s1(2,4) by simp_all
    from move_forward_ok [OF s1(3) this(1) less_imp_le [OF n(1)] this(2)] obtain s2 where
      s2: "move_forward dest n s1 = Some s2" "moved s1 dest s2" "cursor_ok s2 dest" "pos (packets s2 dest) = pos (packets s dest) + n"
      using s1(2) by auto
    have b2: "pkt_becomes s1 dest s2 (packet_bytes s1 dest)"
      by (rule moved_becomes [OF s2(2) cursor_packet_ok [OF s1(3)]])
    note k2 = buffer_ok_becomes [OF conjunct1 [OF k1] d b2]
    note c2 = cursor_other [OF conjunct1 [OF k1] d sr ne [symmetric] b2 c1(1)]
    have "pos (packets s2 src) < total_size (packets s2 src)" "n \<le> curr_page_remain s2 src"
      using n2(2) n(3) c1(2,3) c2(2,3) by simp_all
    from move_forward_ok [OF c2(1) this(1) less_imp_le [OF n(1)] this(2)] obtain s3 where
      s3: "move_forward src n s2 = Some s3" "moved s2 src s3" "cursor_ok s3 src" "pos (packets s3 src) = pos (packets s src) + n"
      using c1(2) c2(2) by auto
    have b3: "pkt_becomes s2 src s3 (packet_bytes s2 src)"
      by (rule moved_becomes [OF s3(2) cursor_packet_ok [OF c2(1)]])
    note k3 = buffer_ok_becomes [OF conjunct1 [OF k2] sr b3]
    note c3 = cursor_other [OF conjunct1 [OF k2] sr d ne b3 s2(3)]
    have step: "copy_loop dest src sz s = copy_loop dest src (sz - n) s3"
      using False ld s1(1) s2(1) s3(1) by (subst copy_loop.simps) (simp add: Let_def flip: n_def [unfolded Let_def])
    have bd3: "packet_bytes s3 dest = patch ?qd ?x ?bd"
      using moved_same(9) [OF s3(2)] moved_same(9) [OF s2(2)] s1(5) by (simp add: pkt_becomes_def)
    have ps3: "pos (packets s3 dest) = pos (packets s dest) + n" using c3(2) s2(4) by simp
    have ot: "packet_bytes s3 q = packet_bytes s q" if "q \<in> set ps" "q \<noteq> dest" for q
      using moved_same(9) [OF s3(2)] moved_same(9) [OF s2(2)] k1 that by simp
    have ts: "total_size (packets s3 dest) = total_size (packets s dest)" "total_size (packets s3 src) = total_size (packets s src)"
      using moved_same(5) [OF s3(2)] moved_same(5) [OF s2(2)] s1(2) by simp_all
    have le: "nat (sz - n) < nat sz" "0 \<le> sz - n" using n(1,4) by auto
    have e1: "pos (packets s3 dest) + (sz - n) \<le> total_size (packets s3 dest)"
      "pos (packets s3 src) + (sz - n) \<le> total_size (packets s3 src)"
      using ps3 s3(4) ts less.prems(8,9) by simp_all
    from less.hyps [OF le(1) conjunct1 [OF k3] d sr ne c3(1) s3(3) le(2) e1] obtain s' where
      s': "copy_loop dest src (sz - n) s3 = Some s'" "buffer_ok s' ps" "cursor_ok s' dest" "cursor_ok s' src"
        "pos (packets s' dest) = pos (packets s3 dest) + (sz - n)" "pos (packets s' src) = pos (packets s3 src) + (sz - n)"
        "packet_bytes s' dest = patch (nat (pos (packets s3 dest)))
          (take (nat (sz - n)) (drop (nat (pos (packets s3 src))) (packet_bytes s3 src))) (packet_bytes s3 dest)"
        "\<forall>q\<in>set ps. q \<noteq> dest \<longrightarrow> packet_bytes s' q = packet_bytes s3 q" by blast
    let ?y = "take (nat (sz - n)) (drop (?qs + nat n) ?bs)"
    have nq: "nat (pos (packets s3 dest)) = ?qd + length ?x" "nat (pos (packets s3 src)) = ?qs + nat n"
      using ps3 s3(4) q0 n(1) lx by simp_all
    have y: "length ?y = nat (sz - n)" "nat sz = nat n + nat (sz - n)"
      using less.prems(9) td(2) q0(2) n(1,4) by simp_all
    have "?qd + length ?x + length ?y \<le> length ?bd"
      unfolding y(1) lx using less.prems(8) td(1) q0(1) n(1,4) by linarith
    from patch_append [OF this]
    have "packet_bytes s' dest = patch ?qd (?x @ ?y) ?bd"
      unfolding s'(7) nq bd3 ot [OF sr ne [symmetric]] by simp
    moreover have "?x @ ?y = take (nat sz) (drop ?qs ?bs)"
      unfolding y(2) by (simp add: take_add add.commute)
    ultimately show ?thesis using step s' ps3 s3(4) ot by auto
  qed
qed

section \<open>Checksums over packets\<close>

lemma of_int_small_u16: "0 \<le> n \<Longrightarrow> n \<le> 65535 \<Longrightarrow> unat (of_int n :: u16) = nat n"
  by (cases n rule: int_cases2) (simp_all add: unsigned_of_nat take_bit_nat_eq_self_iff)

lemma of_int_small_u32: "0 \<le> n \<Longrightarrow> n < 4294967296 \<Longrightarrow> unat (of_int n :: u32) = nat n"
  by (cases n rule: int_cases2) (simp_all add: unsigned_of_nat take_bit_nat_eq_self_iff)

text \<open>The sum over the piece of the current page.\<close>

lemma checksum_piece:
  assumes cur: "cursor_ok s p" and inside: "pos (packets s p) < total_size (packets s p)"
    and n: "0 < n" "n \<le> curr_page_remain s p" and pre: "unat csum \<le> 65535"
  shows "\<exists>pg. cur_page (packets s p) = Some pg \<and> 0 \<le> page_offset (packets s p) \<and>
    page_offset (packets s p) + n \<le> pg_data (pages s pg) + 128 \<and>
    checksum16 offset (drop (nat (page_offset (packets s p))) (pg_payload (pages s pg))) (of_int n) csum False =
    Some (csum_result False (unat csum + bsum (odd (unat offset))
      (take (nat n) (drop (nat (pos (packets s p))) (packet_bytes s p)))))"
proof -
  obtain xs pg ys k where c: "cur_page (packets s p) = Some pg" "page_list (packets s p) = xs @ pg # ys"
    "page_offset (packets s p) = pg_data (pages s pg) + int k" "int k < pg_size (pages s pg)"
    "pos (packets s p) = int (length (chain_bytes (pages s) xs) + k)"
    "curr_page_remain s p = pg_size (pages s pg) - int k" "page_ok (pages s pg)" "pg \<notin> set xs" "pg \<notin> set ys"
    by (rule cursor_inside [OF cur inside])
  let ?g = "pages s pg" and ?o = "nat (page_offset (packets s p))"
  have d: "0 \<le> pg_data ?g" "pg_data ?g + pg_size ?g \<le> 128" "length (pg_payload ?g) = 128"
    using c(7) by (auto simp: page_ok_def)
  have n128: "n \<le> 65535" using n c(6) d by simp
  have un: "unat (of_int n :: u16) = nat n" using n(1) n128 by (simp add: of_int_small_u16)
  have "take (nat n) (drop ?o (pg_payload ?g)) = take (nat n) (drop (nat (pos (packets s p))) (packet_bytes s p))"
    using cur_load_ok [OF cur inside less_imp_le [OF n(1)] n(2)] c(1)
    by (simp add: cur_load_def page_read_def split: if_splits)
  moreover have "nat n \<le> length (drop ?o (pg_payload ?g))" using n c(3,6) d by simp
  ultimately have "checksum16 offset (drop ?o (pg_payload ?g)) (of_int n) csum False =
    Some (csum_result False (unat csum + bsum (odd (unat offset))
      (take (nat n) (drop (nat (pos (packets s p))) (packet_bytes s p)))))"
    using checksum16_spec [of "of_int n" "drop ?o (pg_payload ?g)" offset csum False] un n(1) pre by simp
  with c n d show ?thesis by auto
qed

lemma checksum_loop_ok:
  assumes "cursor_ok s p" "0 \<le> sz" "pos (packets s p) + sz \<le> total_size (packets s p)"
    "unat csum \<le> 65535" "int (unat offset) + sz < 4294967296"
  shows "\<exists>s' c. checksum_loop p sz offset csum s = Some (s', c) \<and> moved s p s' \<and> cursor_ok s' p \<and>
    pos (packets s' p) = pos (packets s p) + sz \<and>
    unat c = oc16 (unat csum + bsum (odd (unat offset)) (take (nat sz) (drop (nat (pos (packets s p))) (packet_bytes s p))))"
  using assms
proof (induction "nat sz" arbitrary: sz s csum offset rule: less_induct)
  case less
  show ?case
  proof (cases "sz = 0")
    case True
    with less.prems show ?thesis by (subst checksum_loop.simps) (simp add: moved_refl oc16_small)
  next
    case False
    with less.prems(2) have pos: "0 < sz" by simp
    obtain n where n: "n = (if sz > curr_page_remain s p then curr_page_remain s p else sz)"
      and ns: "pos (packets s p) < total_size (packets s p)" "0 < n" "n \<le> curr_page_remain s p" "n \<le> sz"
        "nat (sz - n) < nat sz" "nat sz = nat n + nat (sz - n)"
        "nat (pos (packets s p) + n) = nat (pos (packets s p)) + nat n"
      by (rule next_piece [OF less.prems(1) pos less.prems(3)])
    have n': "(if curr_page_remain s p > sz then sz else curr_page_remain s p) = n" using n by auto
    let ?b = "packet_bytes s p" and ?q = "nat (pos (packets s p))"
    let ?x = "take (nat n) (drop ?q ?b)"
    let ?c = "csum_result False (unat csum + bsum (odd (unat offset)) ?x)"
    from checksum_piece [OF less.prems(1) ns(1-3) less.prems(4)] obtain pg where
      pg: "cur_page (packets s p) = Some pg" "0 \<le> page_offset (packets s p)"
        "page_offset (packets s p) + n \<le> pg_data (pages s pg) + 128"
        "checksum16 offset (drop (nat (page_offset (packets s p))) (pg_payload (pages s pg))) (of_int n) csum False = Some ?c"
      by blast
    from move_forward_ok [OF less.prems(1) ns(1) less_imp_le [OF ns(2)] ns(3)] obtain s1 where
      s1: "move_forward p n s = Some s1" "moved s p s1" "cursor_ok s1 p" "pos (packets s1 p) = pos (packets s p) + n" by blast
    have step: "checksum_loop p sz offset csum s = checksum_loop p (sz - n) (offset + of_int n) (ucast ?c) s1"
      using pos pg s1(1) by (subst checksum_loop.simps) (simp add: Let_def n')
    have b: "0 \<le> sz - n" "pos (packets s1 p) + (sz - n) \<le> total_size (packets s1 p)"
      using ns(4) s1(4) less.prems(3) moved_same(5) [OF s1(2)] by simp_all
    have uc: "unat (ucast ?c :: u32) = oc16 (unat csum + bsum (odd (unat offset)) ?x)" by simp
    have uo: "unat (offset + of_int n) = unat offset + nat n"
    proof -
      have "unat (of_int n :: u32) = nat n" using ns(2,4) less.prems(5) by (intro of_int_small_u32) linarith+
      moreover have "unat offset + nat n < 4294967296" using ns(2,4) less.prems(5) by linarith
      ultimately show ?thesis by (simp add: unat_add_u32)
    qed
    have pre: "unat (ucast ?c :: u32) \<le> 65535" "int (unat (offset + of_int n)) + (sz - n) < 4294967296"
      using uc uo ns(2) less.prems(5) by simp_all
    let ?y = "take (nat (sz - n)) (drop (?q + nat n) ?b)"
    from less.hyps [OF ns(5) s1(3) b pre] obtain s' c where
      s': "checksum_loop p (sz - n) (offset + of_int n) (ucast ?c) s1 = Some (s', c)" "moved s1 p s'" "cursor_ok s' p"
        "pos (packets s' p) = pos (packets s p) + sz"
        "unat c = oc16 (oc16 (unat csum + bsum (odd (unat offset)) ?x) + bsum (odd (unat offset + nat n)) ?y)"
      using s1(4) ns(7) moved_same(9) [OF s1(2)] uo by auto
    have "int ?q + sz \<le> int (length ?b)"
      using less.prems(3) packet_ok_total [OF cursor_packet_ok [OF less.prems(1)]] cursor_bounds(1) [OF less.prems(1)] by simp
    then have "?q + nat n \<le> length ?b" using ns(2,4) by linarith
    then have lx: "length ?x = nat n" by simp
    have xy: "?x @ ?y = take (nat sz) (drop ?q ?b)"
      unfolding ns(6) by (simp add: take_add add.commute)
    have "odd (unat offset + nat n) = (odd (unat offset) \<noteq> odd (length ?x))" using lx by auto
    then have "unat c = oc16 (unat csum + bsum (odd (unat offset)) (?x @ ?y))"
      unfolding s'(5) oc16_add bsum_append by (simp add: add.assoc)
    with s' step moved_trans [OF s1(2)] show ?thesis unfolding xy by auto
  qed
qed

lemma packet_checksum16_ok:
  assumes cur: "cursor_ok s p" and n: "0 \<le> sz" "pos (packets s p) + sz \<le> total_size (packets s p)" "sz < 4294967296"
    and pre: "unat pre_sum \<le> 65535"
  shows "\<exists>s'. packet_checksum16 p sz pre_sum complement s =
      Some (s', csum_result complement (unat pre_sum + bsum False (take (nat sz) (drop (nat (pos (packets s p))) (packet_bytes s p))))) \<and>
    moved s p s' \<and> cursor_ok s' p \<and> pos (packets s' p) = pos (packets s p) + sz"
proof -
  from checksum_loop_ok [OF cur n(1,2) pre, of 0] n(3) obtain s' c where
    r: "checksum_loop p sz 0 pre_sum s = Some (s', c)" "moved s p s'" "cursor_ok s' p" "pos (packets s' p) = pos (packets s p) + sz"
      "unat c = oc16 (unat pre_sum + bsum False (take (nat sz) (drop (nat (pos (packets s p))) (packet_bytes s p))))" by auto
  have "(ucast c :: u16) = of_nat (unat c)" by simp
  with r n(2) show ?thesis
    by (auto simp: packet_checksum16_def packet_ok_live [OF cursor_packet_ok [OF cur]] total_packet_remain_def csum_result_def)
qed

lemma packet_write_ok:
  assumes "cursor_ok s p" "0 < sz" "pos (packets s p) + sz \<le> total_size (packets s p)" "nat sz \<le> length src"
  shows "\<exists>s'. packet_write p (Some src) sz s = Some (s', NET_OK) \<and> cursor_ok s' p \<and> pos (packets s' p) = pos (packets s p) + sz \<and>
    pkt_becomes s p s' (patch (nat (pos (packets s p))) (take (nat sz) src) (packet_bytes s p))"
  using write_loop_ok [OF assms(1) _ assms(3,4)] assms(2,3)
  by (auto simp: packet_write_def total_packet_remain_def packet_ok_live [OF cursor_packet_ok [OF assms(1)]])

lemma packet_fill_ok:
  assumes "cursor_ok s p" "0 < sz" "pos (packets s p) + sz \<le> total_size (packets s p)"
  shows "\<exists>s'. packet_fill p v sz s = Some (s', NET_OK) \<and> cursor_ok s' p \<and>
    pkt_becomes s p s' (patch (nat (pos (packets s p))) (replicate (nat sz) v) (packet_bytes s p))"
  using write_loop_ok [OF assms(1) less_imp_le [OF assms(2)] assms(3), of "replicate (nat sz) v"]
    fill_loop_write [OF assms(1) less_imp_le [OF assms(2)] assms(3), of v] assms(2,3)
  by (auto simp: packet_fill_def packet_ok_live [OF cursor_packet_ok [OF assms(1)]] total_packet_remain_def)

lemma packet_read_ok:
  assumes "cursor_ok s p" "0 < sz" "pos (packets s p) + sz \<le> total_size (packets s p)"
  shows "\<exists>s'. packet_read p True sz s =
      Some (s', NET_OK, take (nat sz) (drop (nat (pos (packets s p))) (packet_bytes s p))) \<and>
    moved s p s' \<and> cursor_ok s' p \<and> pos (packets s' p) = pos (packets s p) + sz"
  using read_loop_ok [OF assms(1) _ assms(3), of "[]"] assms(2,3)
  by (auto simp: packet_read_def total_packet_remain_def packet_ok_live [OF cursor_packet_ok [OF assms(1)]])

section \<open>Properties\<close>

text \<open>Reading at any position gives exactly the packet's bytes from there, advances the
  position and changes nothing else; asking for more bytes than remain is an error that
  leaves the packet as it was.\<close>

theorem packet_read_bytes:
  assumes "cursor_ok s p" "0 < sz"
  shows "if pos (packets s p) + sz \<le> total_size (packets s p)
         then \<exists>s'. packet_read p True sz s =
                     Some (s', NET_OK, take (nat sz) (drop (nat (pos (packets s p))) (packet_bytes s p))) \<and>
                   moved s p s' \<and> cursor_ok s' p \<and> pos (packets s' p) = pos (packets s p) + sz
         else packet_read p True sz s = Some (s, NET_ERR_SIZE, [])"
  using read_loop_ok [OF assms(1), of sz "[]"] assms(2)
  by (auto simp: packet_read_def packet_ok_live [OF cursor_packet_ok [OF assms(1)]] total_packet_remain_def)

text \<open>A packet of 300 bytes at its start, for the concrete instances.\<close>

lemma sample_cursor:
  "\<exists>s :: packet_state. buffer_ok s [0] \<and> cursor_ok s 0 \<and> pos (packets s 0) = 0 \<and> total_size (packets s 0) = 300"
proof -
  obtain s :: packet_state where s: "buffer_ok s [0]" "length (packet_bytes s 0) = 300" using sample_packet by blast
  then have ok: "packet_ok s 0" by (simp add: buffer_ok_def)
  let ?s = "packet_reset_pos (Some 0) s"
  note r = packet_reset_pos_becomes [OF ok]
  have ok': "packet_ok ?s 0" using r(1) by (simp add: pkt_becomes_def)
  have "cursor_ok ?s 0" by (rule cursor_at_start [OF ok' r(2)])
  moreover have "buffer_ok ?s [0]" using buffer_ok_becomes [OF s(1) _ r(1)] by simp
  moreover have "pos (packets ?s 0) = 0" using r(2) by (simp add: at_start_def)
  moreover have "total_size (packets ?s 0) = 300"
    using packet_ok_total [OF ok'] r(1) s(2) by (simp add: pkt_becomes_def)
  ultimately show ?thesis by blast
qed

theorem packet_read_bytes_witness:
  "\<exists>(s :: packet_state) s'. packet_read 0 True 200 s = Some (s', NET_OK, take 200 (packet_bytes s 0))"
proof -
  obtain s :: packet_state where s: "cursor_ok s 0" "pos (packets s 0) = 0" "total_size (packets s 0) = 300"
    using sample_cursor by blast
  from packet_read_bytes [OF s(1), of 200] s(2,3) show ?thesis by auto
qed

text \<open>C27. Writing any bytes, at least one, at a position where they fit replaces exactly the bytes there, keeps the size, the other
  bytes and every other packet, and advances the position by the number of bytes written; seeking back to the old position and
  reading as many gives the written bytes, changes no packet, and leaves the position behind them again.\<close>

theorem packet_write_read_back:
  assumes "buffer_ok s ps" "p \<in> set ps" "cursor_ok s p" "src \<noteq> []"
    "pos (packets s p) + int (length src) \<le> total_size (packets s p)"
  shows "\<exists>s1 s2 s3. packet_write p (Some src) (int (length src)) s = Some (s1, NET_OK) \<and> buffer_ok s1 ps \<and>
           packet_bytes s1 p = patch (nat (pos (packets s p))) src (packet_bytes s p) \<and>
           total_size (packets s1 p) = total_size (packets s p) \<and>
           cursor_ok s1 p \<and> pos (packets s1 p) = pos (packets s p) + int (length src) \<and>
           (\<forall>q\<in>set ps. q \<noteq> p \<longrightarrow> packet_bytes s1 q = packet_bytes s q) \<and>
           packet_seek p (pos (packets s p)) s1 = Some (s2, NET_OK) \<and> pos (packets s2 p) = pos (packets s p) \<and>
           packet_read p True (int (length src)) s2 = Some (s3, NET_OK, src) \<and>
           pos (packets s3 p) = pos (packets s p) + int (length src) \<and> (\<forall>q. packet_bytes s3 q = packet_bytes s1 q)"
proof -
  note live = packet_ok_live [OF cursor_packet_ok [OF assms(3)]]
  have b: "0 \<le> pos (packets s p)" by (rule cursor_bounds [OF assms(3)])
  have tot: "total_size (packets s p) = int (length (packet_bytes s p))"
    by (rule packet_ok_total [OF cursor_packet_ok [OF assms(3)]])
  from write_loop_ok [OF assms(3), of "int (length src)" src] assms(5) obtain s1 where
    s1: "write_loop p src (int (length src)) s = Some s1" "cursor_ok s1 p"
      "pkt_becomes s p s1 (patch (nat (pos (packets s p))) src (packet_bytes s p))"
      "pos (packets s1 p) = pos (packets s p) + int (length src)" by auto
  have w: "packet_write p (Some src) (int (length src)) s = Some (s1, NET_OK)"
    using s1(1) assms(4,5) by (simp add: packet_write_def live total_packet_remain_def)
  have b1: "packet_bytes s1 p = patch (nat (pos (packets s p))) src (packet_bytes s p)"
    using s1(3) by (simp add: pkt_becomes_def)
  have le: "nat (pos (packets s p)) + length src \<le> length (packet_bytes s p)" using assms(5) tot b by linarith
  have t1: "total_size (packets s1 p) = total_size (packets s p)"
    using packet_ok_total [OF cursor_packet_ok [OF s1(2)]] tot b1 le by simp
  have "pos (packets s p) < total_size (packets s1 p)" using assms(4,5) t1 by (cases src) auto
  from packet_seek_ok [OF s1(2) b this] obtain s2 where
    s2: "packet_seek p (pos (packets s p)) s1 = Some (s2, NET_OK)" "moved s1 p s2" "cursor_ok s2 p"
      "pos (packets s2 p) = pos (packets s p)" by blast
  have live2: "assert_live p s2 = Some ()" by (rule packet_ok_live [OF cursor_packet_ok [OF s2(3)]])
  have t2: "total_size (packets s2 p) = total_size (packets s p)" "packet_bytes s2 p = packet_bytes s1 p"
    using moved_same [OF s2(2)] t1 by simp_all
  from read_loop_ok [OF s2(3), of "int (length src)" "[]"] assms(5) s2(4) t2 obtain s3 where
    s3: "read_loop p [] (int (length src)) s2 = Some (s3, take (length src) (drop (nat (pos (packets s p))) (packet_bytes s1 p)))"
      "moved s2 p s3" "pos (packets s3 p) = pos (packets s p) + int (length src)"
    by auto
  have same: "\<forall>q. packet_bytes s3 q = packet_bytes s1 q"
    using moved_same [OF s2(2)] moved_same [OF s3(2)] by simp
  have "take (length src) (drop (nat (pos (packets s p))) (packet_bytes s1 p)) = src"
    unfolding b1 using le by (simp add: patch_def)
  then have "packet_read p True (int (length src)) s2 = Some (s3, NET_OK, src)"
    using s3(1) assms(4,5) s2(4) t2(1) by (simp add: packet_read_def live2 total_packet_remain_def)
  with w b1 t1 s1(2,4) s2(1,4) s3(3) same buffer_ok_becomes [OF assms(1,2) s1(3)] show ?thesis by blast
qed

theorem packet_write_read_back_witness:
  "\<exists>(s :: packet_state) s1 s2 s3. packet_write 0 (Some [1, 2, 3]) 3 s = Some (s1, NET_OK) \<and>
     packet_seek 0 0 s1 = Some (s2, NET_OK) \<and> packet_read 0 True 3 s2 = Some (s3, NET_OK, [1, 2, 3])"
proof -
  obtain s :: packet_state where s: "buffer_ok s [0]" "cursor_ok s 0" "pos (packets s 0) = 0" "total_size (packets s 0) = 300"
    using sample_cursor by blast
  from packet_write_read_back [OF s(1) _ s(2), of "[1, 2, 3]"] s(3,4) show ?thesis by auto
qed

text \<open>Copying between two packets, page by page with different page boundaries, puts
  exactly the source's bytes at the destination's position and changes nothing else.\<close>

theorem packet_copy_bytes:
  assumes "buffer_ok s ps" "dest \<in> set ps" "src \<in> set ps" "dest \<noteq> src" "cursor_ok s dest" "cursor_ok s src" "0 \<le> sz"
    "pos (packets s dest) + sz \<le> total_size (packets s dest)" "pos (packets s src) + sz \<le> total_size (packets s src)"
  shows "\<exists>s'. packet_copy dest src sz s = Some (s', NET_OK) \<and> buffer_ok s' ps \<and>
    packet_bytes s' dest = patch (nat (pos (packets s dest)))
      (take (nat sz) (drop (nat (pos (packets s src))) (packet_bytes s src))) (packet_bytes s dest) \<and>
    (\<forall>q\<in>set ps. q \<noteq> dest \<longrightarrow> packet_bytes s' q = packet_bytes s q)"
  using copy_loop_ok [OF assms] assms(8,9)
  by (auto simp: packet_copy_def packet_ok_live [OF cursor_packet_ok [OF assms(6)]] total_packet_remain_def)

theorem packet_copy_bytes_witness:
  "\<exists>(s :: packet_state) p s'. packet_copy p 0 150 s = Some (s', NET_OK) \<and>
     packet_bytes s' p = patch 0 (take 150 (packet_bytes s 0)) (packet_bytes s p)"
proof -
  obtain s :: packet_state where s0: "buffer_ok s [0]" "length (packet_bytes s 0) = 300" "length (page_pool s) \<ge> 200"
    using sample_packet by blast
  have "packet_pool s \<noteq> []"
  proof
    assume "packet_pool s = []"
    with s0(1) have "{0 :: nat} = {0..<256}" by (simp add: buffer_ok_def)
    then have "(1 :: nat) \<in> {0}" by simp
    then show False by simp
  qed
  with buffer_ok_alloc [OF s0(1), of 200] s0(3) obtain s1 :: packet_state and p where
    a: "buffer_ok s1 [p, 0]" "at_start s1 p" "length (packet_bytes s1 p) = 200" "packet_bytes s1 0 = packet_bytes s 0"
    by (auto split: prod.splits option.splits)
  let ?s = "packet_reset_pos (Some 0) s1"
  have ok: "packet_ok s1 0" "packet_ok s1 p" "p \<noteq> 0" using a(1) by (auto simp: buffer_ok_def)
  note r = packet_reset_pos_becomes [OF ok(1)]
  have b: "buffer_ok ?s [p, 0]" using buffer_ok_becomes [OF a(1) _ r(1)] by simp
  have pk: "packets ?s p = packets s1 p" using r(1) ok(3) by (simp add: pkt_becomes_def pkt_frame_def)
  have by': "packet_bytes ?s p = packet_bytes s1 p" "packet_bytes ?s 0 = packet_bytes s1 0"
    using pk r by (simp_all add: packet_bytes_def)
  have okp: "packet_ok ?s p" "packet_ok ?s 0" using b by (simp_all add: buffer_ok_def)
  have st: "at_start ?s p" using a(2) pk r(4) by (simp add: at_start_def split: option.splits)
  have z: "pos (packets ?s p) = 0" "pos (packets ?s 0) = 0" using st r(2) by (simp_all add: at_start_def)
  have t: "total_size (packets ?s p) = 200" "total_size (packets ?s 0) = 300"
    using packet_ok_total [OF okp(1)] packet_ok_total [OF okp(2)] a(3,4) s0(2) by' by simp_all
  from packet_copy_bytes [OF b _ _ ok(3) cursor_at_start [OF okp(1) st] cursor_at_start [OF okp(2) r(2)], of 150] z t
  show ?thesis by auto
qed

text \<open>Filling at any position writes copies of the byte there and nothing else.\<close>

theorem packet_fill_bytes:
  assumes "buffer_ok s ps" "p \<in> set ps" "cursor_ok s p" "0 < sz" "pos (packets s p) + sz \<le> total_size (packets s p)"
  shows "\<exists>s'. packet_fill p v sz s = Some (s', NET_OK) \<and> buffer_ok s' ps \<and>
    packet_bytes s' p = patch (nat (pos (packets s p))) (replicate (nat sz) v) (packet_bytes s p) \<and>
    (\<forall>q\<in>set ps. q \<noteq> p \<longrightarrow> packet_bytes s' q = packet_bytes s q)"
proof -
  from packet_fill_ok [OF assms(3-5)] obtain s' where
    s': "packet_fill p v sz s = Some (s', NET_OK)"
      "pkt_becomes s p s' (patch (nat (pos (packets s p))) (replicate (nat sz) v) (packet_bytes s p))" by blast
  with buffer_ok_becomes [OF assms(1,2) s'(2)] show ?thesis by (auto simp: pkt_becomes_def)
qed

theorem packet_fill_bytes_witness:
  "\<exists>(s :: packet_state) s'. packet_fill 0 7 250 s = Some (s', NET_OK) \<and>
     packet_bytes s' 0 = patch 0 (replicate 250 7) (packet_bytes s 0)"
proof -
  obtain s :: packet_state where s: "buffer_ok s [0]" "cursor_ok s 0" "pos (packets s 0) = 0" "total_size (packets s 0) = 300"
    using sample_cursor by blast
  from packet_fill_bytes [OF s(1) _ s(2), of 250 7] s(3,4) show ?thesis by auto
qed

text \<open>C28. The checksum of a packet, computed page by page, is the checksum of its bytes
  as one contiguous buffer, whatever the page boundaries (odd lengths included).\<close>

theorem packet_checksum16_contiguous:
  assumes "cursor_ok s p" "0 < sz" "sz \<le> 65535" "pos (packets s p) + sz \<le> total_size (packets s p)" "unat pre_sum \<le> 65535"
  shows "\<exists>s' c. packet_checksum16 p sz pre_sum complement s = Some (s', c) \<and> moved s p s' \<and>
    checksum16 0 (drop (nat (pos (packets s p))) (packet_bytes s p)) (of_int sz) pre_sum complement = Some c"
proof -
  let ?b = "drop (nat (pos (packets s p))) (packet_bytes s p)"
  have "unat (of_int sz :: u16) = nat sz" using assms(2,3) by (simp add: of_int_small_u16)
  moreover have "nat sz \<le> length ?b"
    using assms(2,4) packet_ok_total [OF cursor_packet_ok [OF assms(1)]] cursor_bounds(1) [OF assms(1)] by simp
  ultimately have "checksum16 0 ?b (of_int sz) pre_sum complement = Some (csum_result complement (unat pre_sum + bsum False (take (nat sz) ?b)))"
    using assms(5) by (subst checksum16_spec) simp_all
  with packet_checksum16_ok [OF assms(1) _ assms(4) _ assms(5), of complement] assms(2,3) show ?thesis by auto
qed

theorem packet_checksum16_contiguous_witness:
  "\<exists>(s :: packet_state) s' c. packet_checksum16 0 201 0 True s = Some (s', c) \<and>
     checksum16 0 (packet_bytes s 0) 201 0 True = Some c"
proof -
  obtain s :: packet_state where s: "cursor_ok s 0" "pos (packets s 0) = 0" "total_size (packets s 0) = 300"
    using sample_cursor by blast
  from packet_checksum16_contiguous [OF s(1), of 201 0 True] s(2,3) show ?thesis by auto
qed

lemma checksum_peso_ok:
  assumes "packet_ok s p" "length (packet_bytes s p) \<le> 65535" "length src_ip = 4" "length dest_ip = 4"
  shows "\<exists>s'. checksum_peso src_ip dest_ip protocol p s =
    Some (s', csum_result True (bsum False (src_ip @ dest_ip @ [0, protocol] @
           [ucast (drop_bit 8 (of_nat (length (packet_bytes s p)) :: u16)), ucast (of_nat (length (packet_bytes s p)) :: u16)] @
           packet_bytes s p))) \<and> moved (packet_reset_pos (Some p) s) p s'"
proof -
  let ?b = "packet_bytes s p" and ?s = "packet_reset_pos (Some p) s"
  let ?len = "of_nat (length ?b) :: u16"
  note r = packet_reset_pos_becomes [OF assms(1)]
  have ok: "packet_ok ?s p" and b: "packet_bytes ?s p = ?b" using r(1) by (simp_all add: pkt_becomes_def)
  have tot: "total_size (packets s p) = int (length ?b)" "total_size (packets ?s p) = int (length ?b)"
    using packet_ok_total assms(1) ok b by metis+
  have z: "pos (packets ?s p) = 0" using r(2) by (simp add: at_start_def)
  let ?lb = "[ucast (drop_bit 8 ?len), ucast ?len] :: u8 list"
  have sw: "le16_bytes (swap_u16 ?len) = ?lb"
  proof -
    have m: "w AND 0xFF = take_bit 8 w" for w :: u16 by (simp add: take_bit_eq_mask mask_eq_exp_minus_1)
    have "ucast (swap_u16 ?len) = (ucast (drop_bit 8 ?len) :: u8)" "ucast (drop_bit 8 (swap_u16 ?len)) = (ucast ?len :: u8)"
      unfolding swap_u16_def m by (rule bit_word_eqI, simp add: bit_simps)+
    then show ?thesis by (simp add: le16_bytes_def)
  qed
  let ?c1 = "csum_result False (bsum False src_ip)"
  let ?c2 = "csum_result False (bsum False src_ip + bsum False dest_ip)"
  let ?c3 = "csum_result False (bsum False src_ip + bsum False dest_ip + bsum False [0, protocol])"
  let ?c4 = "csum_result False (bsum False src_ip + bsum False dest_ip + bsum False [0, protocol] + bsum False ?lb)"
  have c: "checksum16 0 src_ip 4 0 False = Some ?c1" "checksum16 4 dest_ip 4 (ucast ?c1) False = Some ?c2"
    "checksum16 8 [0, protocol] 2 (ucast ?c2) False = Some ?c3" "checksum16 10 ?lb 2 (ucast ?c3) False = Some ?c4"
    using assms(3,4) by (simp_all add: checksum16_spec csum_result_oc16_add)
  have pre: "unat (ucast ?c4 :: u32) \<le> 65535" by simp
  from packet_checksum16_ok [OF cursor_at_start [OF ok r(2)] _ _ _ pre, of "int (length ?b)" True] tot z assms(2)
  obtain s' where s': "packet_checksum16 p (int (length ?b)) (ucast ?c4) True ?s =
      Some (s', csum_result True (oc16 (bsum False src_ip + bsum False dest_ip + bsum False [0, protocol] + bsum False ?lb) + bsum False ?b))"
    "moved ?s p s'" by (auto simp: b)
  have "of_int (int (length ?b)) = ?len" by simp
  then have "checksum_peso src_ip dest_ip protocol p s = packet_checksum16 p (int (length ?b)) (ucast ?c4) True ?s"
    by (simp add: checksum_peso_def tot sw c del: of_int_of_nat_eq bsum.simps)
  moreover have "bsum False (src_ip @ dest_ip @ [0, protocol] @ ?lb @ ?b) =
      bsum False src_ip + bsum False dest_ip + bsum False [0, protocol] + bsum False ?lb + bsum False ?b"
    using assms(3,4) by (simp add: bsum_append)
  ultimately show ?thesis using s' by (simp add: csum_result_oc16_add)
qed

text \<open>The transport checksum is the complemented ones' complement sum of the
  pseudo-header (source address, destination address, a zero byte, the protocol and the
  big-endian length) followed by the whole packet; the packet's bytes do not change.\<close>

theorem checksum_peso_pseudo_header:
  assumes "packet_ok s p" "length (packet_bytes s p) \<le> 65535" "length src_ip = 4" "length dest_ip = 4"
  shows "\<exists>s'. checksum_peso src_ip dest_ip protocol p s =
    Some (s', csum_result True (bsum False (src_ip @ dest_ip @ [0, protocol] @
           [ucast (drop_bit 8 (of_nat (length (packet_bytes s p)) :: u16)), ucast (of_nat (length (packet_bytes s p)) :: u16)] @
           packet_bytes s p))) \<and> packet_bytes s' p = packet_bytes s p"
  using checksum_peso_ok [OF assms, of protocol] packet_reset_pos_becomes(1) [OF assms(1)] moved_same(9)
  by (fastforce simp: pkt_becomes_def)

theorem checksum_peso_pseudo_header_witness:
  "\<exists>(s :: packet_state) s' c. checksum_peso [192, 168, 1, 1] [192, 168, 1, 2] 17 0 s = Some (s', c) \<and>
     packet_bytes s' 0 = packet_bytes s 0"
proof -
  obtain s :: packet_state where s: "buffer_ok s [0]" "length (packet_bytes s 0) = 300" using sample_packet by blast
  then have "packet_ok s 0" by (simp add: buffer_ok_def)
  from checksum_peso_pseudo_header [OF this, of "[192, 168, 1, 1]" "[192, 168, 1, 2]" 17] s(2) show ?thesis by auto
qed

end
