(* ===== verification/Net_Netif.thy ===== *)
theory Net_Netif
  imports Net_Queue Net_Packet_IO Net_Ipaddr
begin

text \<open>
  \<^verbatim>\<open>src/stack/link/netif.c\<close> and \<^verbatim>\<open>src/stack/link/loop.c\<close>, the part of
  \<^verbatim>\<open>src/stack/msg_handler.c\<close> that posts messages, and the driver threads of
  \<^verbatim>\<open>src/platform/netif_pcap.c\<close>.  Interfaces live in \<^verbatim>\<open>netif_buffer\<close> and are addressed by
  their index; the packet queues and the message queue are the sequences that \<^verbatim>\<open>Net_Queue\<close>
  shows the ring buffers to hold.  Pointers to the driver tables and to the link layer
  table are the names of those tables, and a call through them is a case distinction.

  The capture library is not part of the stack: whether a device can be opened, and the
  frames that arrive, are arguments.  An iteration of a driver thread is one operation;
  \<^term>\<open>None\<close> also means that the thread waits.
\<close>

section \<open>Data\<close>

abbreviation (input) NETIF_HWADDR_SIZE :: nat where "NETIF_HWADDR_SIZE \<equiv> 10"
abbreviation (input) NETIF_NAME_SIZE :: nat where "NETIF_NAME_SIZE \<equiv> 16"
abbreviation (input) NETIF_INQ_SIZE :: int where "NETIF_INQ_SIZE \<equiv> 50"
abbreviation (input) NETIF_OUTQ_SIZE :: int where "NETIF_OUTQ_SIZE \<equiv> 50"
abbreviation (input) NETIF_DEV_CNT :: nat where "NETIF_DEV_CNT \<equiv> 5"
abbreviation (input) HANDLER_BUFFER_SIZE :: nat where "HANDLER_BUFFER_SIZE \<equiv> 10"
abbreviation (input) ETHER_MTU :: int where "ETHER_MTU \<equiv> 1500"

record netif_hwaddr_t =
  hw_len :: u8
  hw_addr :: "u8 list"

datatype netif_type_t = NETIF_TYPE_NONE | NETIF_TYPE_ETHER | NETIF_TYPE_LOOP

fun netif_type_code :: "netif_type_t \<Rightarrow> int" where
  "netif_type_code NETIF_TYPE_NONE = 0"
| "netif_type_code NETIF_TYPE_ETHER = 1"
| "netif_type_code NETIF_TYPE_LOOP = 2"

abbreviation (input) NETIF_TYPE_SIZE :: int where "NETIF_TYPE_SIZE \<equiv> 3"

datatype netif_st = NETIF_CLOSED | NETIF_OPENED | NETIF_ACTIVE

text \<open>The driver tables and the one link layer table of the stack.\<close>

datatype netif_ops_t = Loop_driver | Netdev_ops

datatype link_layer_t = Ether_layer

text \<open>\<^verbatim>\<open>ops_data\<close>: nothing, the arguments for the capture driver, or its open handle.\<close>

datatype ops_data_t = No_data | Pcap_data string "u8 list" | Pcap_handle

record netif_t =
  ni_name :: string
  ni_hwaddr :: netif_hwaddr_t
  ni_ipaddr :: ipaddr_t
  ni_netmask :: ipaddr_t
  ni_gateway :: ipaddr_t
  ni_state :: netif_st
  ni_type :: netif_type_t
  ni_mtu :: int
  ni_ops :: netif_ops_t
  ni_ops_data :: ops_data_t
  ni_link_layer :: "link_layer_t option"
  ni_in_q :: "addr list"
  ni_out_q :: "addr list"

text \<open>Messages to the worker thread: an interface with input, or a function call request.\<close>

datatype exmsg_t = EXMSG_NETIF_IN addr | EXMSG_FUN addr

record netif_state = packet_state +
  netif_pool :: "addr list"
  netif_list :: "addr list"
  netif_default :: ptr
  link_layers :: "int \<Rightarrow> link_layer_t option"
  netifs :: "addr \<Rightarrow> netif_t"
  msg_mem_pool :: "addr list"
  msg_queue :: "addr list"
  msgs :: "addr \<Rightarrow> exmsg_t"

definition upd_netif :: "addr \<Rightarrow> (netif_t \<Rightarrow> netif_t) \<Rightarrow> 'a netif_state_scheme \<Rightarrow> 'a netif_state_scheme" where
  "upd_netif n f s = s\<lparr>netifs := (netifs s)(n := f (netifs s n))\<rparr>"

section \<open>Interfaces\<close>

definition netif_register_layer :: "int \<Rightarrow> link_layer_t \<Rightarrow> 'a netif_state_scheme \<Rightarrow> 'a netif_state_scheme \<times> net_err_t" where
  "netif_register_layer type layer s =
     (if type < 0 \<or> type \<ge> NETIF_TYPE_SIZE then (s, NET_ERR_PARAM)
      else if link_layers s type \<noteq> None then (s, NET_ERR_EXIST)
      else (s\<lparr>link_layers := (link_layers s)(type := Some layer)\<rparr>, NET_OK))"

definition netif_get_layer :: "int \<Rightarrow> 'a netif_state_scheme \<Rightarrow> link_layer_t option" where
  "netif_get_layer type s = (if type < 0 \<or> type \<ge> NETIF_TYPE_SIZE then None else link_layers s type)"

definition netif_init :: "'a netif_state_scheme \<Rightarrow> 'a netif_state_scheme \<times> net_err_t" where
  "netif_init s =
     (s\<lparr>netif_list := [], netif_pool := [0..<NETIF_DEV_CNT], netif_default := None, link_layers := (\<lambda>_. None)\<rparr>, NET_OK)"

definition netif_set_addr ::
  "addr \<Rightarrow> ipaddr_t option \<Rightarrow> ipaddr_t option \<Rightarrow> ipaddr_t option \<Rightarrow> 'a netif_state_scheme \<Rightarrow> 'a netif_state_scheme \<times> net_err_t" where
  "netif_set_addr n ip netmask gateway s =
     (upd_netif n (\<lambda>ni. ni\<lparr>ni_ipaddr := (case ip of None \<Rightarrow> ipaddr_get_any | Some a \<Rightarrow> a),
                           ni_netmask := (case netmask of None \<Rightarrow> ipaddr_get_any | Some a \<Rightarrow> a),
                           ni_gateway := (case gateway of None \<Rightarrow> ipaddr_get_any | Some a \<Rightarrow> a)\<rparr>) s, NET_OK)"

definition netif_set_hwaddr ::
  "addr \<Rightarrow> u8 list \<Rightarrow> int \<Rightarrow> 'a netif_state_scheme \<Rightarrow> ('a netif_state_scheme \<times> net_err_t) option" where
  "netif_set_hwaddr n hwaddr len s =
     (if 0 \<le> len \<and> nat len \<le> length hwaddr \<and> nat len \<le> length (hw_addr (ni_hwaddr (netifs s n)))
      then Some (upd_netif n (\<lambda>ni. ni\<lparr>ni_hwaddr := \<lparr>hw_len = of_int len,
                   hw_addr = take (nat len) hwaddr @ drop (nat len) (hw_addr (ni_hwaddr ni))\<rparr>\<rparr>) s, NET_OK)
      else None)"

text \<open>The drivers' \<^verbatim>\<open>open\<close>; \<open>pcap_open\<close> says whether the capture library opens the device.\<close>

definition loop_open :: "addr \<Rightarrow> 'a netif_state_scheme \<Rightarrow> 'a netif_state_scheme \<times> net_err_t" where
  "loop_open n s = (upd_netif n (\<lambda>ni. ni\<lparr>ni_type := NETIF_TYPE_LOOP\<rparr>) s, NET_OK)"

definition netif_pcap_open ::
  "(string \<Rightarrow> u8 list \<Rightarrow> bool) \<Rightarrow> addr \<Rightarrow> ops_data_t \<Rightarrow> 'a netif_state_scheme \<Rightarrow> ('a netif_state_scheme \<times> net_err_t) option" where
  "netif_pcap_open pcap_open n ops_data s =
     (case ops_data of
        Pcap_data ip hwaddr \<Rightarrow>
          if \<not> pcap_open ip hwaddr then Some (s, NET_ERR_IO)
          else do {
            (s, _) \<leftarrow> netif_set_hwaddr n hwaddr (int NETIF_HWADDR_SIZE)
                       (upd_netif n (\<lambda>ni. ni\<lparr>ni_ops_data := Pcap_handle, ni_type := NETIF_TYPE_ETHER, ni_mtu := ETHER_MTU\<rparr>) s);
            Some (s, NET_OK)
          }
      | _ \<Rightarrow> None)"

definition ops_open ::
  "(string \<Rightarrow> u8 list \<Rightarrow> bool) \<Rightarrow> netif_ops_t \<Rightarrow> addr \<Rightarrow> ops_data_t \<Rightarrow> 'a netif_state_scheme \<Rightarrow> ('a netif_state_scheme \<times> net_err_t) option" where
  "ops_open pcap_open ops n ops_data s =
     (case ops of
        Loop_driver \<Rightarrow> Some (loop_open n s)
      | Netdev_ops \<Rightarrow> netif_pcap_open pcap_open n ops_data s)"

text \<open>
  \<^verbatim>\<open>netif_open\<close>.  \<open>in_err\<close> and \<open>out_err\<close> are what \<^verbatim>\<open>fixed_queue_init\<close> returns for the two
  queues; the drivers' \<^verbatim>\<open>close\<close> and \<^verbatim>\<open>fixed_queue_destroy\<close> only release objects of the platform.
\<close>

definition netif_open ::
  "(string \<Rightarrow> u8 list \<Rightarrow> bool) \<Rightarrow> net_err_t \<Rightarrow> net_err_t \<Rightarrow> string \<Rightarrow> netif_ops_t \<Rightarrow> ops_data_t \<Rightarrow>
   'a netif_state_scheme \<Rightarrow> ('a netif_state_scheme \<times> ptr) option" where
  "netif_open pcap_open in_err out_err dev_name ops ops_data s =
     (case pool_alloc (netif_pool s) of
        (pool, None) \<Rightarrow> Some (s\<lparr>netif_pool := pool\<rparr>, None)
      | (pool, Some n) \<Rightarrow>
          let s = upd_netif n (\<lambda>ni. ni\<lparr>ni_ipaddr := ipaddr_set_any, ni_netmask := ipaddr_set_any, ni_gateway := ipaddr_set_any,
                    ni_mtu := 0, ni_type := NETIF_TYPE_NONE, ni_name := take (NETIF_NAME_SIZE - 1) dev_name,
                    ni_ops := ops, ni_ops_data := ops_data\<rparr>) (s\<lparr>netif_pool := pool\<rparr>)
          in if net_err_neg in_err then Some (s, None)
             else if net_err_neg out_err then Some (upd_netif n (\<lambda>ni. ni\<lparr>ni_in_q := []\<rparr>) s, None)
             else do {
               (s, err) \<leftarrow> ops_open pcap_open ops n ops_data (upd_netif n (\<lambda>ni. ni\<lparr>ni_in_q := [], ni_out_q := []\<rparr>) s);
               if net_err_neg err then Some (s\<lparr>netif_pool := pool_free (netif_pool s) n\<rparr>, None)
               else do {
                 let s = upd_netif n (\<lambda>ni. ni\<lparr>ni_link_layer := netif_get_layer (netif_type_code (ni_type ni)) s\<rparr>) s;
                 if ni_link_layer (netifs s n) = None \<and> ni_type (netifs s n) \<noteq> NETIF_TYPE_LOOP
                 then Some (s\<lparr>netif_pool := pool_free (netif_pool s) n\<rparr>, None)
                 else do {
                   let s = upd_netif n (\<lambda>ni. ni\<lparr>ni_state := NETIF_OPENED\<rparr>) s;
                   if ni_type (netifs s n) = NETIF_TYPE_NONE
                   then Some (s\<lparr>netif_pool := pool_free (netif_pool s) n\<rparr>, None)
                   else Some (s\<lparr>netif_list := netif_list s @ [n]\<rparr>, Some n)
                 }
               }
             })"

definition netif_close :: "addr \<Rightarrow> 'a netif_state_scheme \<Rightarrow> 'a netif_state_scheme \<times> net_err_t" where
  "netif_close n s =
     (if ni_state (netifs s n) = NETIF_ACTIVE then (s, NET_ERR_STATE)
      else let s = upd_netif n (\<lambda>ni. ni\<lparr>ni_state := NETIF_CLOSED\<rparr>) s
           in (s\<lparr>netif_list := remove1 n (netif_list s), netif_pool := pool_free (netif_pool s) n\<rparr>, NET_OK))"

definition netif_get_default :: "'a netif_state_scheme \<Rightarrow> ptr" where
  "netif_get_default s = netif_default s"

section \<open>Queues\<close>

definition handler_netif_in :: "addr \<Rightarrow> 'a netif_state_scheme \<Rightarrow> ('a netif_state_scheme \<times> net_err_t) option" where
  "handler_netif_in n s =
     (case pool_alloc (msg_mem_pool s) of
        (pool, None) \<Rightarrow> Some (s\<lparr>msg_mem_pool := pool\<rparr>, NET_ERR_MEM)
      | (pool, Some m) \<Rightarrow>
          do {
            let s = s\<lparr>msg_mem_pool := pool, msgs := (msgs s)(m := EXMSG_NETIF_IN n)\<rparr>;
            (q, err) \<leftarrow> queue_send (int HANDLER_BUFFER_SIZE) (msg_queue s) m (- 1);
            if net_err_neg err then Some (s\<lparr>msg_mem_pool := pool_free (msg_mem_pool s) m\<rparr>, err)
            else Some (s\<lparr>msg_queue := q\<rparr>, NET_OK)
          })"

definition netif_put_in :: "addr \<Rightarrow> addr \<Rightarrow> int \<Rightarrow> 'a netif_state_scheme \<Rightarrow> ('a netif_state_scheme \<times> net_err_t) option" where
  "netif_put_in n p tmo s =
     do {
       (q, err) \<leftarrow> queue_send NETIF_INQ_SIZE (ni_in_q (netifs s n)) p tmo;
       if net_err_neg err then Some (s, NET_ERR_FULL)
       else do {
         (s, _) \<leftarrow> handler_netif_in n (upd_netif n (\<lambda>ni. ni\<lparr>ni_in_q := q\<rparr>) s);
         Some (s, NET_OK)
       }
     }"

definition netif_put_out :: "addr \<Rightarrow> addr \<Rightarrow> int \<Rightarrow> 'a netif_state_scheme \<Rightarrow> ('a netif_state_scheme \<times> net_err_t) option" where
  "netif_put_out n p tmo s =
     do {
       (q, err) \<leftarrow> queue_send NETIF_OUTQ_SIZE (ni_out_q (netifs s n)) p tmo;
       if net_err_neg err then Some (s, err)
       else Some (upd_netif n (\<lambda>ni. ni\<lparr>ni_out_q := q\<rparr>) s, NET_OK)
     }"

definition netif_get_in :: "addr \<Rightarrow> int \<Rightarrow> 'a netif_state_scheme \<Rightarrow> ('a netif_state_scheme \<times> ptr) option" where
  "netif_get_in n tmo s =
     do {
       (q, p) \<leftarrow> queue_recv (ni_in_q (netifs s n)) tmo;
       let s = upd_netif n (\<lambda>ni. ni\<lparr>ni_in_q := q\<rparr>) s;
       case p of None \<Rightarrow> Some (s, None) | Some p \<Rightarrow> Some (packet_reset_pos (Some p) s, Some p)
     }"

definition netif_get_out :: "addr \<Rightarrow> int \<Rightarrow> 'a netif_state_scheme \<Rightarrow> ('a netif_state_scheme \<times> ptr) option" where
  "netif_get_out n tmo s =
     do {
       (q, p) \<leftarrow> queue_recv (ni_out_q (netifs s n)) tmo;
       let s = upd_netif n (\<lambda>ni. ni\<lparr>ni_out_q := q\<rparr>) s;
       case p of None \<Rightarrow> Some (s, None) | Some p \<Rightarrow> Some (packet_reset_pos (Some p) s, Some p)
     }"

section \<open>Drivers\<close>

definition loop_transmit :: "addr \<Rightarrow> 'a netif_state_scheme \<Rightarrow> ('a netif_state_scheme \<times> net_err_t) option" where
  "loop_transmit n s =
     do {
       (s, p) \<leftarrow> netif_get_out n (- 1) s;
       case p of
         None \<Rightarrow> Some (s, NET_OK)
       | Some p \<Rightarrow>
           do {
             (s, err) \<leftarrow> netif_put_in n p (- 1) s;
             if net_err_neg err then Some (packet_free p s, err) else Some (s, NET_OK)
           }
     }"

definition netif_pcap_transmit :: "addr \<Rightarrow> 'a netif_state_scheme \<Rightarrow> 'a netif_state_scheme \<times> net_err_t" where
  "netif_pcap_transmit n s = (s, NET_OK)"

definition ops_transmit :: "addr \<Rightarrow> 'a netif_state_scheme \<Rightarrow> ('a netif_state_scheme \<times> net_err_t) option" where
  "ops_transmit n s =
     (case ni_ops (netifs s n) of
        Loop_driver \<Rightarrow> loop_transmit n s
      | Netdev_ops \<Rightarrow> Some (netif_pcap_transmit n s))"

text \<open>An iteration of the receiving driver thread, for the captured frame \<open>frame\<close>.\<close>

definition recv_thread :: "addr \<Rightarrow> u8 list \<Rightarrow> 'a netif_state_scheme \<Rightarrow> 'a netif_state_scheme option" where
  "recv_thread n frame s =
     (case packet_alloc (int (length frame)) s of
        (s, None) \<Rightarrow> Some s
      | (s, Some p) \<Rightarrow>
          do {
            (s, _) \<leftarrow> packet_write p (Some frame) (int (length frame)) s;
            (s, err) \<leftarrow> netif_put_in n p 0 s;
            Some (if net_err_neg err then packet_free p s else s)
          })"

text \<open>
  An iteration of the sending driver thread; the second result is the frame handed to
  \<^verbatim>\<open>pcap_inject\<close>.  The frame is read into an array of \<^verbatim>\<open>ETHER_MTU + 14\<close> bytes.
\<close>

definition send_thread :: "addr \<Rightarrow> 'a netif_state_scheme \<Rightarrow> ('a netif_state_scheme \<times> u8 list) option" where
  "send_thread n s =
     do {
       (s, p) \<leftarrow> netif_get_out n 0 s;
       case p of
         None \<Rightarrow> None
       | Some p \<Rightarrow>
           do {
             let tot = total_size (packets s p);
             (s, err, bs) \<leftarrow> packet_read p True tot s;
             if tot > ETHER_MTU + 14 then None
             else Some (packet_free p s, if err = NET_OK then bs else replicate (nat tot) 0)
           }
     }"

section \<open>Frames\<close>

lemma upd_netif_same [simp]:
  "pages (upd_netif n f s) = pages s" "packets (upd_netif n f s) = packets s"
  "page_pool (upd_netif n f s) = page_pool s" "packet_pool (upd_netif n f s) = packet_pool s"
  "netifs (upd_netif n f s) = (netifs s)(n := f (netifs s n))"
  by (simp_all add: upd_netif_def)

end
