(* ===== verification/Net_Route.thy ===== *)
theory Net_Route
  imports Net_Netif
begin

text \<open>
  The routing table of \<^verbatim>\<open>src/stack/network/ipv4.c\<close>: the entries live in \<^verbatim>\<open>rt_table\<close>, \<^verbatim>\<open>rt_list\<close> is
  the sequence of the ones in use and \<^verbatim>\<open>rt_mblock\<close> the free list.  The lookup is proved to
  return the longest matching prefix whatever additions and removals came before, and the
  removal is shown to lose its entry for good.
\<close>

abbreviation (input) IP_RTABLE_SIZE :: nat where "IP_RTABLE_SIZE \<equiv> 32"

record rentry_t =
  re_net :: ipaddr_t
  re_mask :: ipaddr_t
  re_mask_1_cnt :: int
  re_next_hop :: ipaddr_t
  re_netif :: addr

record rt_state = netif_state +
  rt_list :: "addr list"
  rt_mblock :: "addr list"
  rt_table :: "addr \<Rightarrow> rentry_t"

definition rt_init :: "'a rt_state_scheme \<Rightarrow> 'a rt_state_scheme" where
  "rt_init s = s\<lparr>rt_list := [], rt_mblock := [0..<IP_RTABLE_SIZE]\<rparr>"

definition rt_add :: "ipaddr_t \<Rightarrow> ipaddr_t \<Rightarrow> ipaddr_t \<Rightarrow> addr \<Rightarrow> 'a rt_state_scheme \<Rightarrow> 'a rt_state_scheme" where
  "rt_add net netmask next_hop netif s =
     (case pool_alloc (rt_mblock s) of
        (pool, None) \<Rightarrow> s\<lparr>rt_mblock := pool\<rparr>
      | (pool, Some e) \<Rightarrow>
          s\<lparr>rt_mblock := pool,
            rt_table := (rt_table s)(e := \<lparr>re_net = net, re_mask = netmask, re_mask_1_cnt = ipaddr_1_cnt netmask,
                                          re_next_hop = next_hop, re_netif = netif\<rparr>),
            rt_list := rt_list s @ [e]\<rparr>)"

text \<open>The scan of \<^verbatim>\<open>rt_remove\<close>: the list without its first entry for the network.\<close>

fun rt_remove_loop :: "(addr \<Rightarrow> rentry_t) \<Rightarrow> ipaddr_t \<Rightarrow> ipaddr_t \<Rightarrow> addr list \<Rightarrow> addr list" where
  "rt_remove_loop t net netmask [] = []"
| "rt_remove_loop t net netmask (e # es) =
     (if ipaddr_is_equal (re_net (t e)) net \<and> ipaddr_is_equal (re_mask (t e)) netmask then es
      else e # rt_remove_loop t net netmask es)"

definition rt_remove :: "ipaddr_t \<Rightarrow> ipaddr_t \<Rightarrow> 'a rt_state_scheme \<Rightarrow> 'a rt_state_scheme" where
  "rt_remove net netmask s = s\<lparr>rt_list := rt_remove_loop (rt_table s) net netmask (rt_list s)\<rparr>"

fun rt_find_loop :: "(addr \<Rightarrow> rentry_t) \<Rightarrow> ipaddr_t \<Rightarrow> ptr \<Rightarrow> addr list \<Rightarrow> ptr" where
  "rt_find_loop t ip e [] = e"
| "rt_find_loop t ip e (entry # es) =
     (let net = ipaddr_get_net ip (re_mask (t entry))
      in if \<not> ipaddr_is_equal net (re_net (t entry)) then rt_find_loop t ip e es
         else case e of
                None \<Rightarrow> rt_find_loop t ip (Some entry) es
              | Some b \<Rightarrow>
                  if re_mask_1_cnt (t b) < re_mask_1_cnt (t entry)
                  then rt_find_loop t ip (Some entry) es
                  else rt_find_loop t ip e es)"

definition rt_find :: "ipaddr_t \<Rightarrow> 'a rt_state_scheme \<Rightarrow> ptr" where
  "rt_find ip s = rt_find_loop (rt_table s) ip None (rt_list s)"

section \<open>Longest prefix match\<close>

text \<open>An entry covers the addresses that agree with its network under its netmask.\<close>

definition rt_matches :: "'a rt_state_scheme \<Rightarrow> ipaddr_t \<Rightarrow> addr \<Rightarrow> bool" where
  "rt_matches s ip e \<longleftrightarrow> ip AND re_mask (rt_table s e) = re_net (rt_table s e)"

definition rt_ok :: "'a rt_state_scheme \<Rightarrow> bool" where
  "rt_ok s \<longleftrightarrow> distinct (rt_mblock s @ rt_list s) \<and>
     (\<forall>e\<in>set (rt_list s). re_mask_1_cnt (rt_table s e) = int (card {i. bit (re_mask (rt_table s e)) i}))"

text \<open>The entry is the first of the best ones: better than all before it, at least as good as all after it.\<close>

definition rt_best :: "(addr \<Rightarrow> bool) \<Rightarrow> (addr \<Rightarrow> int) \<Rightarrow> addr list \<Rightarrow> ptr \<Rightarrow> bool" where
  "rt_best M w l r \<longleftrightarrow>
     (case r of
        None \<Rightarrow> \<forall>e\<in>set l. \<not> M e
      | Some e \<Rightarrow> M e \<and> (\<exists>xs ys. l = xs @ e # ys \<and>
          (\<forall>x\<in>set xs. M x \<longrightarrow> w x < w e) \<and> (\<forall>y\<in>set ys. M y \<longrightarrow> w y \<le> w e)))"

lemma rt_find_loop_best:
  assumes "rt_best (\<lambda>e. ip AND re_mask (t e) = re_net (t e)) (\<lambda>e. re_mask_1_cnt (t e)) xs e"
  shows "rt_best (\<lambda>e. ip AND re_mask (t e) = re_net (t e)) (\<lambda>e. re_mask_1_cnt (t e)) (xs @ l) (rt_find_loop t ip e l)"
  using assms
proof (induction l arbitrary: xs e)
  case (Cons y l)
  let ?M = "\<lambda>e. ip AND re_mask (t e) = re_net (t e)" and ?w = "\<lambda>e. re_mask_1_cnt (t e)"
  have skip: ?case if "rt_best ?M ?w (xs @ [y]) e" "rt_find_loop t ip e (y # l) = rt_find_loop t ip e l"
    using Cons.IH [OF that(1)] that(2) by simp
  have take: ?case if "rt_best ?M ?w (xs @ [y]) (Some y)" "rt_find_loop t ip e (y # l) = rt_find_loop t ip (Some y) l"
    using Cons.IH [OF that(1)] that(2) by simp
  show ?case
  proof (cases "?M y")
    case False
    then have "rt_best ?M ?w (xs @ [y]) e"
      using Cons.prems by (cases e) (force simp: rt_best_def)+
    with False show ?thesis by (intro skip) (simp_all add: ipaddr_get_net_def ipaddr_is_equal_def)
  next
    case True
    show ?thesis
    proof (cases e)
      case None
      with True Cons.prems have "?M y \<and> (xs @ [y] = xs @ y # [] \<and> (\<forall>x\<in>set xs. ?M x \<longrightarrow> ?w x < ?w y) \<and> (\<forall>x\<in>set []. ?M x \<longrightarrow> ?w x \<le> ?w y))"
        by (simp add: rt_best_def)
      then have "rt_best ?M ?w (xs @ [y]) (Some y)" unfolding rt_best_def option.case by blast
      with None True show ?thesis by (intro take) (simp_all add: ipaddr_get_net_def ipaddr_is_equal_def)
    next
      case (Some b)
      with Cons.prems obtain us vs where b: "?M b" "xs = us @ b # vs"
        "\<forall>x\<in>set us. ?M x \<longrightarrow> ?w x < ?w b" "\<forall>x\<in>set vs. ?M x \<longrightarrow> ?w x \<le> ?w b" by (auto simp: rt_best_def)
      show ?thesis
      proof (cases "?w b < ?w y")
        case better: True
        have "rt_best ?M ?w (xs @ [y]) (Some y)"
          unfolding rt_best_def using True b better by (fastforce intro: exI [of _ xs])
        with Some True better show ?thesis by (intro take) (simp_all add: ipaddr_get_net_def ipaddr_is_equal_def)
      next
        case worse: False
        have "xs @ [y] = us @ b # (vs @ [y])" using b(2) by simp
        then have "rt_best ?M ?w (xs @ [y]) (Some b)"
          unfolding rt_best_def using b worse by fastforce
        with Some True worse show ?thesis by (intro skip) (simp_all add: ipaddr_get_net_def ipaddr_is_equal_def)
      qed
    qed
  qed
qed simp

lemma rt_find_best: "rt_best (rt_matches s ip) (\<lambda>e. re_mask_1_cnt (rt_table s e)) (rt_list s) (rt_find ip s)"
  using rt_find_loop_best [of ip "rt_table s" "[]" None "rt_list s"]
  by (simp add: rt_find_def rt_best_def rt_matches_def [abs_def])

lemma rt_remove_loop_split:
  "(rt_remove_loop t net netmask l = l \<and> (\<forall>e\<in>set l. \<not> (re_net (t e) = net \<and> re_mask (t e) = netmask))) \<or>
   (\<exists>xs e ys. l = xs @ e # ys \<and> re_net (t e) = net \<and> re_mask (t e) = netmask \<and> rt_remove_loop t net netmask l = xs @ ys)"
proof (induction l)
  case (Cons e l)
  show ?case
  proof (cases "re_net (t e) = net \<and> re_mask (t e) = netmask")
    case True
    then show ?thesis by (intro disjI2 exI [of _ "[]"]) (simp add: ipaddr_is_equal_def)
  next
    case False
    from Cons show ?thesis
    proof
      assume "rt_remove_loop t net netmask l = l \<and> (\<forall>e\<in>set l. \<not> (re_net (t e) = net \<and> re_mask (t e) = netmask))"
      with False show ?thesis by (auto simp: ipaddr_is_equal_def)
    next
      assume "\<exists>xs e ys. l = xs @ e # ys \<and> re_net (t e) = net \<and> re_mask (t e) = netmask \<and> rt_remove_loop t net netmask l = xs @ ys"
      then obtain xs x ys where "l = xs @ x # ys" "re_net (t x) = net" "re_mask (t x) = netmask"
        "rt_remove_loop t net netmask l = xs @ ys" by blast
      with False show ?thesis by (intro disjI2 exI [of _ "e # xs"]) (auto simp: ipaddr_is_equal_def)
    qed
  qed
qed simp

lemma rt_remove_loop_subset: "set (rt_remove_loop t net netmask l) \<subseteq> set l"
  by (induction l) auto

lemma distinct_rt_remove_loop: "distinct l \<Longrightarrow> distinct (rt_remove_loop t net netmask l)"
  by (induction l) (use rt_remove_loop_subset in fastforce)+

lemma rt_ok_init: "rt_ok (rt_init s)"
  by (simp add: rt_ok_def rt_init_def del: upt_rec_numeral)

lemma rt_ok_add:
  assumes "rt_ok s"
  shows "rt_ok (rt_add net netmask hop n s)"
proof (cases "rt_mblock s")
  case Nil
  then have "rt_add net netmask hop n s = s\<lparr>rt_mblock := []\<rparr>" by (simp add: rt_add_def)
  with assms Nil show ?thesis by (simp add: rt_ok_def)
next
  case (Cons e r)
  with assms show ?thesis by (auto simp: rt_ok_def rt_add_def ipaddr_1_cnt_card)
qed

lemma rt_ok_remove: "rt_ok s \<Longrightarrow> rt_ok (rt_remove net netmask s)"
  using rt_remove_loop_subset [of "rt_table s" net netmask "rt_list s"] distinct_rt_remove_loop
  by (fastforce simp: rt_ok_def rt_remove_def)

text \<open>Any history of the table.\<close>

datatype rt_op = Rt_add ipaddr_t ipaddr_t ipaddr_t addr | Rt_remove ipaddr_t ipaddr_t

fun rt_run :: "rt_op list \<Rightarrow> 'a rt_state_scheme \<Rightarrow> 'a rt_state_scheme" where
  "rt_run [] s = s"
| "rt_run (Rt_add net netmask hop n # ops) s = rt_run ops (rt_add net netmask hop n s)"
| "rt_run (Rt_remove net netmask # ops) s = rt_run ops (rt_remove net netmask s)"

lemma rt_ok_run: "rt_ok s \<Longrightarrow> rt_ok (rt_run ops s)"
  by (induction ops s rule: rt_run.induct) (simp_all add: rt_ok_add rt_ok_remove)

text \<open>C11. After any history of additions and removals, the route found for an address is the
  longest matching prefix: no entry in the table that covers the address has a netmask with
  more bits, the oldest entry wins among equals, and no route is reported exactly when no
  entry covers the address.\<close>

theorem rt_find_longest_prefix:
  "let s = rt_run ops (rt_init s0); bits = (\<lambda>e. card {i. bit (re_mask (rt_table s e)) i})
   in case rt_find ip s of
        None \<Rightarrow> \<forall>e\<in>set (rt_list s). \<not> rt_matches s ip e
      | Some e \<Rightarrow> rt_matches s ip e \<and>
          (\<exists>xs ys. rt_list s = xs @ e # ys \<and> (\<forall>x\<in>set xs. rt_matches s ip x \<longrightarrow> bits x < bits e) \<and>
                   (\<forall>y\<in>set ys. rt_matches s ip y \<longrightarrow> bits y \<le> bits e))"
proof -
  let ?s = "rt_run ops (rt_init s0)"
  let ?bits = "\<lambda>e. card {i. bit (re_mask (rt_table ?s e)) i}"
  have w: "re_mask_1_cnt (rt_table ?s e) = int (?bits e)" if "e \<in> set (rt_list ?s)" for e
    using rt_ok_run [OF rt_ok_init, of ops s0] that by (simp add: rt_ok_def)
  show ?thesis
  proof (cases "rt_find ip ?s")
    case None
    with rt_find_best [of ?s ip] show ?thesis by (simp add: rt_best_def Let_def)
  next
    case (Some e)
    with rt_find_best [of ?s ip] obtain xs ys where
      e: "rt_matches ?s ip e" "rt_list ?s = xs @ e # ys"
        "\<forall>x\<in>set xs. rt_matches ?s ip x \<longrightarrow> re_mask_1_cnt (rt_table ?s x) < re_mask_1_cnt (rt_table ?s e)"
        "\<forall>y\<in>set ys. rt_matches ?s ip y \<longrightarrow> re_mask_1_cnt (rt_table ?s y) \<le> re_mask_1_cnt (rt_table ?s e)"
      by (auto simp: rt_best_def)
    have i: "x \<in> set (rt_list ?s)" if "x \<in> set xs \<or> x = e \<or> x \<in> set ys" for x using that e(2) by auto
    have "\<forall>x\<in>set xs. rt_matches ?s ip x \<longrightarrow> ?bits x < ?bits e" "\<forall>y\<in>set ys. rt_matches ?s ip y \<longrightarrow> ?bits y \<le> ?bits e"
      using e(3,4) w i by (metis of_nat_less_iff, metis of_nat_le_iff)
    with e Some show ?thesis unfolding Let_def by auto
  qed
qed

theorem rt_find_longest_prefix_witness:
  "\<exists>s :: rt_state. rt_list s = [0, 1] \<and> rt_find 0x0201A8C0 s = Some 1 \<and>
     (\<exists>xs ys. rt_list s = xs @ 1 # ys \<and>
       (\<forall>x\<in>set xs. card {i. bit (re_mask (rt_table s x)) i} < card {i. bit (re_mask (rt_table s 1)) i}))"
proof -
  let ?ops = "[Rt_add 0 0 0x0101A8C0 0, Rt_add 0x0001A8C0 0x00FFFFFF 0 1]"
  define s :: rt_state where "s = rt_run ?ops (rt_init undefined)"
  have u: "[0..<32] = 0 # 1 # [2..<32]" by (simp add: upt_rec del: upt_rec_numeral)
  have run: "rt_list s = [0, 1]"
    "rt_table s 0 = \<lparr>re_net = 0, re_mask = 0, re_mask_1_cnt = ipaddr_1_cnt 0, re_next_hop = 0x0101A8C0, re_netif = 0\<rparr>"
    "rt_table s 1 = \<lparr>re_net = 0x0001A8C0, re_mask = 0x00FFFFFF, re_mask_1_cnt = ipaddr_1_cnt 0x00FFFFFF, re_next_hop = 0, re_netif = 1\<rparr>"
    by (simp_all add: s_def rt_init_def rt_add_def u del: upt_rec_numeral)
  have "bit (0x00FFFFFF :: u32) 0" by simp
  then have "0 < card {i. bit (0x00FFFFFF :: u32) i}" using card_gt_0_iff by fastforce
  then have c: "ipaddr_1_cnt 0 < ipaddr_1_cnt 0x00FFFFFF" by (simp add: ipaddr_1_cnt_card)
  have f: "rt_find 0x0201A8C0 s = Some 1"
    unfolding rt_find_def run(1) by (simp add: run c ipaddr_get_net_def ipaddr_is_equal_def del: One_nat_def)
  have m: "rt_matches s 0x0201A8C0 0" by (simp add: rt_matches_def run)
  from rt_find_longest_prefix [where ops = ?ops and ?s0.0 = "undefined :: rt_state" and ip = "0x0201A8C0"] f
  obtain xs ys where x: "rt_list s = xs @ 1 # ys"
      "\<forall>x\<in>set xs. rt_matches s 0x0201A8C0 x \<longrightarrow> card {i. bit (re_mask (rt_table s x)) i} < card {i. bit (re_mask (rt_table s 1)) i}"
    unfolding s_def [symmetric] Let_def by (auto simp del: One_nat_def)
  have "xs = [0]" using x(1) run(1) by (cases xs) (auto simp: Cons_eq_append_conv)
  then have "\<forall>x\<in>set xs. card {i. bit (re_mask (rt_table s x)) i} < card {i. bit (re_mask (rt_table s 1)) i}"
    using x(2) m by simp
  with x(1) run(1) f show ?thesis by blast
qed

section \<open>Lost entries\<close>

text \<open>\<^verbatim>\<open>rt_remove\<close> unlinks an entry but does not give it back to the pool.\<close>

lemma rt_run_pool:
  "length (rt_mblock (rt_run ops s)) = length (rt_mblock s) - length (filter (\<lambda>x. case x of Rt_add _ _ _ _ \<Rightarrow> True | _ \<Rightarrow> False) ops)"
proof (induction ops s rule: rt_run.induct)
  case (2 net netmask hop n ops s)
  have "length (rt_mblock (rt_add net netmask hop n s)) = length (rt_mblock s) - 1"
    by (cases "rt_mblock s") (simp_all add: rt_add_def)
  with 2 show ?case by simp
qed (simp_all add: rt_remove_def)

text \<open>C34. The routing table takes 32 additions in its life: removed entries are never reused,
  so after any history with at least 32 additions a further addition changes nothing, even
  when every route has been removed.\<close>

theorem rt_remove_loses_entry:
  assumes "32 \<le> length (filter (\<lambda>x. case x of Rt_add _ _ _ _ \<Rightarrow> True | _ \<Rightarrow> False) ops)"
  shows "rt_add net netmask hop n (rt_run ops (rt_init s)) = rt_run ops (rt_init s)"
proof -
  have "length (rt_mblock (rt_init s)) = 32" by (simp add: rt_init_def del: upt_rec_numeral)
  then have e: "rt_mblock (rt_run ops (rt_init s)) = []" using rt_run_pool [of ops "rt_init s"] assms by simp
  have "rt_run ops (rt_init s)\<lparr>rt_mblock := []\<rparr> = rt_run ops (rt_init s)" unfolding e [symmetric] by simp
  with e show ?thesis by (simp add: rt_add_def)
qed

theorem rt_remove_loses_entry_witness:
  "\<exists>s :: rt_state. rt_add 1 0xFFFFFFFF 0 0 s = s \<and> rt_list s = []"
proof -
  let ?ops = "concat (replicate 32 [Rt_add 1 0xFFFFFFFF 0 0, Rt_remove 1 0xFFFFFFFF])"
  have c: "rt_list (rt_run (concat (replicate k [Rt_add 1 0xFFFFFFFF 0 0, Rt_remove 1 0xFFFFFFFF])) s) = []"
    if "rt_list s = []" for k and s :: rt_state
    using that
  proof (induction k arbitrary: s)
    case (Suc k)
    have "rt_list (rt_remove 1 0xFFFFFFFF (rt_add 1 0xFFFFFFFF 0 0 s)) = []"
      using Suc.prems by (cases "rt_mblock s") (simp_all add: rt_add_def rt_remove_def ipaddr_is_equal_def)
    from Suc.IH [OF this] show ?case by simp
  qed simp
  have "rt_list (rt_init undefined :: rt_state) = []" by (simp add: rt_init_def)
  moreover have "32 \<le> length (filter (\<lambda>x. case x of Rt_add _ _ _ _ \<Rightarrow> True | _ \<Rightarrow> False) ?ops)"
    by (simp add: filter_concat length_concat)
  ultimately show ?thesis
    using rt_remove_loses_entry [where ops = ?ops and s = "undefined :: rt_state"] c [where s = "rt_init undefined" and k = 32] by metis
qed

end
