(* ===== verification/Net_Header.thy ===== *)
theory Net_Header
  imports Net_Packet_IO
begin

text \<open>
  Headers in packets.  The protocol code casts \<^verbatim>\<open>packet_data(packet)\<close> to a pointer to a packed
  structure and reads and writes its members: a pointer is a page and an offset in its
  payload, taken once and used after other operations on the packet, and an access is an
  access to the payload's bytes.  The second part collects, for every packet operation,
  that it leaves the rest of the stack's state alone, whatever packet it is applied to.
\<close>

section \<open>Pointers into packets\<close>

type_synonym dptr = "addr \<times> int"

definition packet_ptr :: "addr \<Rightarrow> 'a packet_state_scheme \<Rightarrow> dptr option" where
  "packet_ptr p s = map_option (\<lambda>pg. (pg, pg_data (pages s pg))) (packet_first_page (packets s p))"

definition mem_read :: "dptr \<Rightarrow> int \<Rightarrow> nat \<Rightarrow> 'a packet_state_scheme \<Rightarrow> u8 list option" where
  "mem_read d off n s = page_read (pages s (fst d)) (snd d + off) (int n)"

definition mem_write :: "dptr \<Rightarrow> int \<Rightarrow> u8 list \<Rightarrow> 'a packet_state_scheme \<Rightarrow> 'a packet_state_scheme option" where
  "mem_write d off bs s =
     map_option (\<lambda>g. upd_page (fst d) (\<lambda>_. g) s) (page_write (pages s (fst d)) (snd d + off) bs)"

lemma packet_ptr_Cons: "page_list (packets s p) = pg # chain \<Longrightarrow> packet_ptr p s = Some (pg, pg_data (pages s pg))"
  by (simp add: packet_ptr_def packet_first_page_def)

text \<open>Within the first page, the accesses are accesses to the packet's bytes.\<close>

definition hdr_fits :: "'a packet_state_scheme \<Rightarrow> addr \<Rightarrow> nat \<Rightarrow> bool" where
  "hdr_fits s p n \<longleftrightarrow> (\<exists>pg chain. page_list (packets s p) = pg # chain \<and> int n \<le> pg_size (pages s pg))"

lemma hdr_fits_mono: "hdr_fits s p n \<Longrightarrow> m \<le> n \<Longrightarrow> hdr_fits s p m"
  by (auto simp: hdr_fits_def)

lemma hdr_fits_ptr: "hdr_fits s p n \<Longrightarrow> \<exists>d. packet_ptr p s = Some d"
  by (auto simp: hdr_fits_def packet_ptr_Cons)

lemma hdr_fits_length:
  assumes "packet_ok s p" "hdr_fits s p n"
  shows "n \<le> length (packet_bytes s p)"
proof -
  from assms(2) obtain pg chain where l: "page_list (packets s p) = pg # chain" "int n \<le> pg_size (pages s pg)"
    by (auto simp: hdr_fits_def)
  from packet_ok_Cons(1) [OF assms(1) l(1)] have "page_ok (pages s pg)" .
  from length_page_bytes [OF this] l show ?thesis by (simp add: packet_bytes_def)
qed

lemma mem_read_hdr:
  assumes ok: "packet_ok s p" and d: "packet_ptr p s = Some d" and fit: "hdr_fits s p (off + n)"
  shows "mem_read d (int off) n s = Some (take n (drop off (packet_bytes s p)))"
proof -
  from fit obtain pg chain where l: "page_list (packets s p) = pg # chain" "int (off + n) \<le> pg_size (pages s pg)"
    by (auto simp: hdr_fits_def)
  have pk: "page_ok (pages s pg)" by (rule packet_ok_Cons(1) [OF ok l(1)])
  have len: "off + n \<le> length (page_bytes (pages s pg))" using length_page_bytes [OF pk] l(2) by linarith
  have e: "d = (pg, pg_data (pages s pg))" using d packet_ptr_Cons [OF l(1)] by simp
  have "take n (drop off (packet_bytes s p)) = take n (drop off (page_bytes (pages s pg)))"
    using len by (simp add: packet_bytes_def l(1))
  also have "\<dots> = take n (drop (off + nat (pg_data (pages s pg))) (pg_payload (pages s pg)))"
    using len l(2) pk by (simp add: page_bytes_def take_drop min_def page_ok_def add.commute add.left_commute)
  finally show ?thesis
    using l(2) pk by (simp add: mem_read_def e page_read_def page_ok_def nat_add_distrib add.commute)
qed

lemma mem_write_hdr:
  assumes ok: "packet_ok s p" and d: "packet_ptr p s = Some d" and fit: "hdr_fits s p (off + length bs)"
  shows "\<exists>s'. mem_write d (int off) bs s = Some s' \<and> pkt_becomes s p s' (patch off bs (packet_bytes s p)) \<and>
    packets s' = packets s \<and> packet_ptr p s' = Some d \<and> (\<forall>n. hdr_fits s' p n = hdr_fits s p n) \<and>
    page_pool s' = page_pool s"
proof -
  from fit obtain pg chain where l: "page_list (packets s p) = pg # chain" "int (off + length bs) \<le> pg_size (pages s pg)"
    by (auto simp: hdr_fits_def)
  note c = packet_ok_Cons [OF ok l(1)]
  have e: "d = (pg, pg_data (pages s pg))" using d packet_ptr_Cons [OF l(1)] by simp
  from page_write_bytes [OF c(1), of off bs] l(2) obtain g where
    g: "page_write (pages s pg) (pg_data (pages s pg) + int off) bs = Some g" "pg_size g = pg_size (pages s pg)"
      "pg_data g = pg_data (pages s pg)" "page_ok g" "page_bytes g = patch off bs (page_bytes (pages s pg))" by auto
  let ?s = "upd_page pg (\<lambda>_. g) s"
  have w: "mem_write d (int off) bs s = Some ?s" using g(1) by (simp add: mem_write_def e)
  have d1: "distinct (page_list (packets s p))" "pg \<notin> set chain" "\<forall>h\<in>set chain. page_ok (pages s h)"
    "\<forall>h. length (pg_payload (pages s h)) = 128" "pg \<notin> set (page_pool s)"
    using ok l(1) by (auto simp: packet_ok_def)
  have len: "off + length bs \<le> length (page_bytes (pages s pg))" using length_page_bytes [OF c(1)] l(2) by linarith
  have b: "packet_bytes ?s p = patch off bs (packet_bytes s p)"
    using len d1(2) g(5) by (simp add: packet_bytes_def l(1) upd_page_def patch_def)
  have "length (packet_bytes ?s p) = length (packet_bytes s p)"
    unfolding b using len by (simp add: packet_bytes_def l(1))
  moreover have "length (pg_payload g) = 128" using g(4) by (simp add: page_ok_def)
  ultimately have "packet_ok ?s p"
    using ok g(4) d1 by (auto simp: packet_ok_def upd_page_def)
  moreover have "pkt_frame s p ?s" using l(1) by (auto simp: pkt_frame_def upd_page_def)
  moreover have "packet_ptr p ?s = Some d" using l(1) e g(3) by (simp add: packet_ptr_def packet_first_page_def upd_page_def)
  moreover have "hdr_fits ?s p n = hdr_fits s p n" for n using l(1) g(2) by (auto simp: hdr_fits_def upd_page_def)
  ultimately show ?thesis using w b by (auto simp: pkt_becomes_def upd_page_def)
qed

text \<open>The operations that make room for a header, and the pages left after an operation.\<close>

lemma add_header_fits:
  assumes ok: "packet_ok s p" and ne: "packet_bytes s p \<noteq> []" and sz: "sz \<le> 128"
    and room: "0 < length (page_pool s)"
  shows "\<exists>s' h. packet_add_header p (int sz) True s = Some (s', NET_OK) \<and> length h = sz \<and>
           pkt_becomes s p s' (h @ packet_bytes s p) \<and> hdr_fits s' p sz"
proof -
  have "int sz \<le> 128 * int (length (page_pool s))" using sz room by linarith
  from packet_add_header_ok [OF ok ne _ _ this, of True] sz obtain s' h where
    r: "packet_add_header p (int sz) True s = Some (s', NET_OK)" "int (length h) = int sz"
      "pkt_becomes s p s' (h @ packet_bytes s p)" "int sz \<le> pg_size (pages s' (hd (page_list (packets s' p))))" by auto
  have "packet_bytes s' p \<noteq> []" using r(3) ne by (simp add: pkt_becomes_def)
  then obtain pg chain where "page_list (packets s' p) = pg # chain"
    by (cases "page_list (packets s' p)") (auto simp: packet_bytes_def)
  with r show ?thesis by (auto simp: hdr_fits_def)
qed

lemma set_cont_fits:
  assumes ok: "packet_ok s p" and n: "0 < n" "n \<le> length (packet_bytes s p)" "n \<le> 128"
  shows "\<exists>s'. packet_set_cont p (int n) s = Some (s', NET_OK) \<and> pkt_becomes s p s' (packet_bytes s p) \<and> hdr_fits s' p n"
proof -
  have ne: "packet_bytes s p \<noteq> []" using n by auto
  from packet_set_cont_ok [OF ok _ _ _ ne, of "int n"] n obtain s' where
    r: "packet_set_cont p (int n) s = Some (s', NET_OK)" "pkt_becomes s p s' (packet_bytes s p)"
      "int n \<le> pg_size (pages s' (hd (page_list (packets s' p))))" by auto
  have "packet_bytes s' p \<noteq> []" using r(2) ne by (simp add: pkt_becomes_def)
  then obtain pg chain where "page_list (packets s' p) = pg # chain"
    by (cases "page_list (packets s' p)") (auto simp: packet_bytes_def)
  with r show ?thesis by (auto simp: hdr_fits_def)
qed

lemma page_count_le:
  assumes "packet_ok s p"
  shows "length (page_list (packets s p)) \<le> length (packet_bytes s p)"
proof -
  have "length l \<le> length (chain_bytes (pages s) l)" if "\<forall>pg\<in>set l. page_ok (pages s pg)" for l
    using that
  proof (induction l)
    case (Cons pg l)
    then have "page_ok (pages s pg)" by simp
    with length_page_bytes [OF this] have "1 \<le> length (page_bytes (pages s pg))" by (simp add: page_ok_def)
    with Cons show ?case by simp
  qed simp
  with assms show ?thesis by (simp add: packet_ok_def packet_bytes_def)
qed

lemma becomes_room:
  assumes ok: "packet_ok s p" and b: "pkt_becomes s p s' bs"
  shows "length (page_pool s) \<le> length (page_pool s') + length bs"
proof -
  have ok': "packet_ok s' p" "packet_bytes s' p = bs"
    and e: "set (page_pool s') \<union> set (page_list (packets s' p)) = set (page_pool s) \<union> set (page_list (packets s p))"
    using b by (auto simp: pkt_becomes_def pkt_frame_def)
  have "length (page_pool s) = card (set (page_pool s))" using ok by (simp add: packet_ok_def distinct_card)
  also have "\<dots> \<le> card (set (page_pool s') \<union> set (page_list (packets s' p)))"
    unfolding e by (rule card_mono) auto
  also have "\<dots> \<le> card (set (page_pool s')) + card (set (page_list (packets s' p)))" by (rule card_Un_le)
  also have "\<dots> = length (page_pool s') + length (page_list (packets s' p))"
    using ok'(1) by (simp add: packet_ok_def distinct_card)
  finally show ?thesis using page_count_le [OF ok'(1)] ok'(2) by simp
qed

lemma becomes_refl: "packet_ok s p \<Longrightarrow> pkt_becomes s p s (packet_bytes s p)"
  by (simp add: pkt_becomes_def pkt_frame_def)

section \<open>What packet operations leave alone\<close>

named_theorems rest_keep

definition same_rest :: "'a packet_state_scheme \<Rightarrow> 'a packet_state_scheme \<Rightarrow> bool" where
  "same_rest s s' \<longleftrightarrow> rest_of s' = rest_of s"

lemma same_rest_refl [simp]: "same_rest s s"
  by (simp add: same_rest_def)

lemma same_rest_trans [trans]: "same_rest s s1 \<Longrightarrow> same_rest s1 s2 \<Longrightarrow> same_rest s s2"
  by (simp add: same_rest_def)

lemma same_rest_more: "same_rest s s' \<Longrightarrow> packet_state.more s' = packet_state.more s"
  by (simp add: same_rest_def)

lemma same_rest_upd [simp]:
  "same_rest s (upd_packet p f s1) = same_rest s s1" "same_rest s (upd_page pg g s1) = same_rest s s1"
  "same_rest s (s1\<lparr>page_pool := a\<rparr>) = same_rest s s1" "same_rest s (s1\<lparr>packet_pool := a\<rparr>) = same_rest s s1"
  "same_rest s (page_free pg s1) = same_rest s s1" "same_rest s (page_free_list c s1) = same_rest s s1"
  "same_rest s (packet_reset_pos q s1) = same_rest s s1" "same_rest s (packet_inc_ref p s1) = same_rest s s1"
  by (simp_all add: same_rest_def page_free_def page_free_list_eq packet_reset_pos_def packet_inc_ref_def split: option.splits)

lemma same_rest_upd_left [simp]:
  "same_rest (upd_packet p f s) s1 = same_rest s s1" "same_rest (upd_page pg g s) s1 = same_rest s s1"
  "same_rest (s\<lparr>page_pool := a\<rparr>) s1 = same_rest s s1" "same_rest (s\<lparr>packet_pool := a\<rparr>) s1 = same_rest s s1"
  "same_rest (page_free pg s) s1 = same_rest s s1" "same_rest (packet_reset_pos q s) s1 = same_rest s s1"
  by (simp_all add: same_rest_def page_free_def packet_reset_pos_def split: option.splits)

lemma same_rest_page_alloc [rest_keep]: "page_alloc s = (s', r) \<Longrightarrow> same_rest s s'"
  by (cases "page_pool s") (auto simp: page_alloc_Nil page_alloc_Cons)

lemma same_rest_page_alloc_loop [rest_keep]: "page_alloc_loop front sz chain s = (s', c) \<Longrightarrow> same_rest s s'"
proof (induction front sz chain s rule: page_alloc_loop.induct)
  case (1 front sz chain s)
  obtain s1 r where a: "page_alloc s = (s1, r)" by fastforce
  note s1 = same_rest_page_alloc [OF a]
  show ?case
  proof (cases "sz = 0 \<or> r = None")
    case True
    with "1.prems" a s1 show ?thesis
      by (auto simp: page_alloc_loop.simps [of front sz chain s] split: if_splits option.splits)
  next
    case False
    then obtain pg where r: "r = Some pg" by blast
    show ?thesis
      using "1.prems" a r False "1.IH" [OF _ a [symmetric] r refl] same_rest_trans [OF s1]
      by (auto simp: page_alloc_loop.simps [of front sz chain s] Let_def split: if_splits)
  qed
qed

lemma same_rest_page_alloc_list [rest_keep]: "page_alloc_list sz front s = (s', c) \<Longrightarrow> same_rest s s'"
  unfolding page_alloc_list_def by (rule same_rest_page_alloc_loop)

lemma same_rest_insert_last [simp]: "same_rest s (insert_pages_last p chain s1) = same_rest s s1"
  by (induction chain arbitrary: s1) simp_all

lemma same_rest_insert_first [simp]: "same_rest s (insert_pages_first p pre chain s1) = same_rest s s1"
  by (induction p pre chain s1 rule: insert_pages_first.induct) simp_all

lemma same_rest_insert [simp]: "same_rest s (packet_insert_page_list p chain b s1) = same_rest s s1"
  by (simp add: packet_insert_page_list_def)

lemma same_rest_alloc [rest_keep]: "packet_alloc sz s = (s', r) \<Longrightarrow> same_rest s s'"
proof (cases "packet_pool s")
  case (Cons p pool)
  let ?s = "upd_packet p (\<lambda>pk. pk\<lparr>ref := 1, total_size := 0, page_list := []\<rparr>) (s\<lparr>packet_pool := pool\<rparr>)"
  obtain s1 c where a: "page_alloc_list sz False ?s = (s1, c)" by fastforce
  from same_rest_page_alloc_list [OF a] have "same_rest s s1" by simp
  moreover assume "packet_alloc sz s = (s', r)"
  ultimately show ?thesis using Cons a by (auto simp: packet_alloc_def Let_def split: if_splits list.splits)
qed (auto simp: packet_alloc_def)

lemma same_rest_add_header [rest_keep]:
  assumes "packet_add_header p sz cont s = Some (s', e)"
  shows "same_rest s s'"
  using assms
  by (auto simp: packet_add_header_def bind_eq_Some_conv Let_def split: if_splits prod.splits list.splits
      dest!: same_rest_page_alloc_list)

lemma same_rest_remove_header_loop: "remove_header_loop p chain sz s = Some s' \<Longrightarrow> same_rest s s'"
proof (induction p chain sz s rule: remove_header_loop.induct)
  case (2 p page chain sz s)
  then show ?case by (fastforce simp: Let_def same_rest_def page_free_def split: if_splits)
qed (simp split: if_splits)

lemma same_rest_remove_header [rest_keep]: "packet_remove_header p sz s = Some (s', e) \<Longrightarrow> same_rest s s'"
  by (auto simp: packet_remove_header_def bind_eq_Some_conv dest: same_rest_remove_header_loop)

lemma same_rest_drop_pages: "drop_pages_loop p chain tot s = (s', n) \<Longrightarrow> same_rest s s'"
  by (induction p chain tot s rule: drop_pages_loop.induct) (auto simp: same_rest_def page_free_def)

lemma same_rest_resize [rest_keep]:
  assumes "packet_resize p n s = Some (s', e)"
  shows "same_rest s s'"
  using assms
  by (auto simp: packet_resize_def bind_eq_Some_conv Let_def split: if_splits prod.splits list.splits option.splits
      dest!: same_rest_page_alloc_list same_rest_drop_pages)

lemma same_rest_free [simp]: "same_rest s (packet_free p s1) = same_rest s s1"
  by (simp add: packet_free_def Let_def)

lemma same_rest_join_loop: "same_rest s (join_loop d q chain s1) = same_rest s s1"
  by (induction d q chain s1 rule: join_loop.induct) simp_all

lemma same_rest_join [rest_keep]: "packet_join d q s = Some (s', e) \<Longrightarrow> same_rest s s'"
  by (auto simp: packet_join_def bind_eq_Some_conv same_rest_join_loop split: if_splits)

lemma same_rest_set_cont_loop: "set_cont_loop p first chain dest remain s = Some s' \<Longrightarrow> same_rest s s'"
proof (induction p first chain dest remain s rule: set_cont_loop.induct)
  case (2 p first cur_blk chain dest remain s)
  then show ?case by (fastforce simp: Let_def bind_eq_Some_conv same_rest_def page_free_def split: if_splits)
qed simp

lemma same_rest_set_cont [rest_keep]: "packet_set_cont p sz s = Some (s', e) \<Longrightarrow> same_rest s s'"
  by (auto simp: packet_set_cont_def bind_eq_Some_conv Let_def split: if_splits dest!: same_rest_set_cont_loop)

lemma same_rest_move_forward [rest_keep]: "move_forward p n s = Some s' \<Longrightarrow> same_rest s s'"
  by (auto simp: move_forward_def bind_eq_Some_conv Let_def split: if_splits)

lemma same_rest_cur_store [rest_keep]: "cur_store p bs s = Some s' \<Longrightarrow> same_rest s s'"
  by (auto simp: cur_store_def bind_eq_Some_conv)

lemma same_rest_seek_loop: "seek_loop p n s = Some s' \<Longrightarrow> same_rest s s'"
  by (rule seek_loop.raw_induct [of "\<lambda>p n s s'. same_rest s s'"])
    (fastforce simp: Let_def bind_eq_Some_conv split: if_splits dest: same_rest_move_forward intro: same_rest_trans)

lemma same_rest_seek [rest_keep]: "packet_seek p off s = Some (s', e) \<Longrightarrow> same_rest s s'"
  by (auto simp: packet_seek_def bind_eq_Some_conv split: if_splits dest!: same_rest_seek_loop)

lemma same_rest_write_loop: "write_loop p src n s = Some s' \<Longrightarrow> same_rest s s'"
  by (rule write_loop.raw_induct [of "\<lambda>p src n s s'. same_rest s s'"])
    (fastforce simp: Let_def bind_eq_Some_conv split: if_splits
      dest: same_rest_move_forward same_rest_cur_store intro: same_rest_trans)

lemma same_rest_write [rest_keep]: "packet_write p src n s = Some (s', e) \<Longrightarrow> same_rest s s'"
  by (auto simp: packet_write_def bind_eq_Some_conv split: if_splits option.splits dest!: same_rest_write_loop)

lemma same_rest_read_loop: "read_loop p acc n s = Some r \<Longrightarrow> same_rest s (fst r)"
  by (rule read_loop.raw_induct [of "\<lambda>p acc n s r. same_rest s (fst r)"])
    (fastforce simp: Let_def bind_eq_Some_conv split: if_splits dest: same_rest_move_forward intro: same_rest_trans)

lemma same_rest_read [rest_keep]: "packet_read p d n s = Some (s', e, bs) \<Longrightarrow> same_rest s s'"
  by (auto simp: packet_read_def bind_eq_Some_conv split: if_splits dest!: same_rest_read_loop)

lemma same_rest_copy_loop: "copy_loop d q n s = Some s' \<Longrightarrow> same_rest s s'"
  by (rule copy_loop.raw_induct [of "\<lambda>d q n s s'. same_rest s s'"])
    (fastforce simp: Let_def bind_eq_Some_conv split: if_splits
      dest: same_rest_move_forward same_rest_cur_store intro: same_rest_trans)

lemma same_rest_copy [rest_keep]: "packet_copy d q n s = Some (s', e) \<Longrightarrow> same_rest s s'"
  by (auto simp: packet_copy_def bind_eq_Some_conv split: if_splits dest!: same_rest_copy_loop)

lemma same_rest_fill_loop: "fill_loop p v n s = Some s' \<Longrightarrow> same_rest s s'"
  by (rule fill_loop.raw_induct [of "\<lambda>p v n s s'. same_rest s s'"])
    (fastforce simp: Let_def bind_eq_Some_conv split: if_splits
      dest: same_rest_move_forward same_rest_cur_store intro: same_rest_trans)

lemma same_rest_fill [rest_keep]: "packet_fill p v n s = Some (s', e) \<Longrightarrow> same_rest s s'"
  by (auto simp: packet_fill_def bind_eq_Some_conv split: if_splits dest!: same_rest_fill_loop)

lemma same_rest_checksum_loop: "checksum_loop p n off c s = Some r \<Longrightarrow> same_rest s (fst r)"
  by (rule checksum_loop.raw_induct [of "\<lambda>p n off c s r. same_rest s (fst r)"])
    (fastforce simp: Let_def bind_eq_Some_conv split: if_splits dest: same_rest_move_forward intro: same_rest_trans)

lemma same_rest_checksum [rest_keep]: "packet_checksum16 p n pre c s = Some (s', r) \<Longrightarrow> same_rest s s'"
  by (auto simp: packet_checksum16_def bind_eq_Some_conv split: if_splits dest!: same_rest_checksum_loop)

lemma same_rest_peso [rest_keep]: "checksum_peso a b prot p s = Some (s', r) \<Longrightarrow> same_rest s s'"
  by (auto simp: checksum_peso_def bind_eq_Some_conv dest!: same_rest_checksum)

lemma same_rest_mem_write [rest_keep]: "mem_write d off bs s = Some s' \<Longrightarrow> same_rest s s'"
  by (auto simp: mem_write_def)

section \<open>Headers at the front of a packet\<close>

lemma remove_header_first:
  assumes ok: "packet_ok s p" and l: "page_list (packets s p) = pg # chain" and n: "0 < n" "n < pg_size (pages s pg)"
  shows "\<exists>s'. packet_remove_header p n s = Some (s', NET_OK) \<and> pkt_becomes s p s' (drop (nat n) (packet_bytes s p)) \<and>
    page_list (packets s' p) = pg # chain \<and> pg_data (pages s' pg) = pg_data (pages s pg) + n \<and>
    pg_size (pages s' pg) = pg_size (pages s pg) - n"
proof -
  let ?s = "upd_packet p (\<lambda>pk. pk\<lparr>total_size := total_size pk - n\<rparr>)
      (upd_page pg (\<lambda>g. g\<lparr>pg_data := pg_data g + n, pg_size := pg_size g - n\<rparr>) s)"
  have r: "packet_remove_header p n s = Some (?s, NET_OK)"
    using n by (simp add: packet_remove_header_def packet_ok_live [OF ok] l)
  note c = packet_ok_Cons [OF ok l]
  have "int (length (packet_bytes s p)) \<ge> n" using length_page_bytes [OF c(1)] n by (simp add: packet_bytes_def l)
  from packet_remove_header_ok [OF ok _ this] n r have "pkt_becomes s p ?s (drop (nat n) (packet_bytes s p))" by auto
  with r show ?thesis by (simp add: upd_page_def upd_packet_def l)
qed

lemma moved_facts:
  assumes "moved s p s'"
  shows "packet_ptr p s' = packet_ptr p s" "hdr_fits s' p n = hdr_fits s p n"
  using moved_same [OF assms] by (simp_all add: packet_ptr_def packet_first_page_def hdr_fits_def)

lemma mem_write_shape:
  "mem_write d off bs s = Some s' \<Longrightarrow> pg_data (pages s' g) = pg_data (pages s g) \<and> pg_size (pages s' g) = pg_size (pages s g)"
  by (auto simp: mem_write_def page_write_def upd_page_def split: if_splits)

lemma moved_reset: "moved s p (packet_reset_pos (Some p) s)"
  unfolding moved_def packet_reset_pos_def upd_packet_def by auto

lemma remove_header_back:
  assumes ok: "packet_ok s p" and l: "page_list (packets s p) = pg # chain" and n: "0 < n" "n \<le> pg_data (pages s pg)"
  shows "\<exists>s' h. packet_remove_header p (- n) s = Some (s', NET_OK) \<and> int (length h) = n \<and> pkt_becomes s p s' (h @ packet_bytes s p) \<and>
    page_list (packets s' p) = pg # chain \<and> pg_size (pages s' pg) = pg_size (pages s pg) + n"
proof -
  let ?s = "upd_packet p (\<lambda>pk. pk\<lparr>total_size := total_size pk + n\<rparr>)
      (upd_page pg (\<lambda>g. g\<lparr>pg_data := pg_data g - n, pg_size := pg_size g + n\<rparr>) s)"
  have r: "packet_remove_header p (- n) s = Some (?s, NET_OK)"
    using n packet_ok_Cons(1) [OF ok l] by (simp add: packet_remove_header_def packet_ok_live [OF ok] l page_ok_def)
  from packet_remove_header_neg [OF ok l n] obtain s' h where h: "packet_remove_header p (- n) s = Some (s', NET_OK)"
      "int (length h) = n" "pkt_becomes s p s' (h @ packet_bytes s p)" by blast
  have e: "s' = ?s" using r h(1) by simp
  have "page_list (packets s' p) = pg # chain" "pg_size (pages s' pg) = pg_size (pages s pg) + n"
    by (simp_all add: e upd_page_def upd_packet_def l)
  with h show ?thesis by blast
qed

lemma packet_cong:
  assumes "packets s' = packets s" "pages s' = pages s" "page_pool s' = page_pool s"
  shows "packet_ok s' p = packet_ok s p" "hdr_fits s' p n = hdr_fits s p n" "packet_bytes s' p = packet_bytes s p"
    "packet_ptr p s' = packet_ptr p s"
  using assms by (simp_all add: packet_ok_def hdr_fits_def packet_bytes_def packet_ptr_def packet_first_page_def)

lemma same_rest_moved: "moved s p s' \<Longrightarrow> same_rest s s'"
  by (simp add: same_rest_def moved_same)

end
