(* ===== verification/Net_Ether.thy ===== *)
theory Net_Ether
  imports Net_Route Net_Header
begin

text \<open>
  \<^verbatim>\<open>src/stack/link/ether.c\<close>, the framing: padding a packet to the minimal payload, adding the
  header and handing the frame to the interface.  The hardware address is passed by value;
  in the source it may point into the packet, at bytes that stay where they are while the
  packet grows around them.
\<close>

abbreviation (input) ETH_HWA_SIZE :: nat where "ETH_HWA_SIZE \<equiv> 6"
abbreviation (input) ETHER_MIN_PAYLOAD :: int where "ETHER_MIN_PAYLOAD \<equiv> 46"
abbreviation (input) ETHER_HDR_SIZE :: int where "ETHER_HDR_SIZE \<equiv> 14"
abbreviation (input) NET_PROTOCOL_ARP :: u16 where "NET_PROTOCOL_ARP \<equiv> 0x0806"
abbreviation (input) NET_PROTOCOL_IPv4 :: u16 where "NET_PROTOCOL_IPv4 \<equiv> 0x0800"

record ether_hdr_t =
  eh_dest :: "u8 list"
  eh_src :: "u8 list"
  eh_protocol :: u16

definition ether_hdr_bytes :: "ether_hdr_t \<Rightarrow> u8 list" where
  "ether_hdr_bytes h = eh_dest h @ eh_src h @ le16_bytes (eh_protocol h)"

definition ether_hdr_of :: "u8 list \<Rightarrow> ether_hdr_t" where
  "ether_hdr_of bs = \<lparr>eh_dest = take 6 bs, eh_src = take 6 (drop 6 bs), eh_protocol = le16 (bs ! 12) (bs ! 13)\<rparr>"

definition ether_broadcast_addr :: "u8 list" where
  "ether_broadcast_addr = [0xFF, 0xFF, 0xFF, 0xFF, 0xFF, 0xFF]"

definition validate_frame_format :: "int \<Rightarrow> net_err_t" where
  "validate_frame_format tot =
     (if tot > ETHER_HDR_SIZE + ETHER_MTU then NET_ERR_SIZE
      else if tot < ETHER_HDR_SIZE then NET_ERR_SIZE
      else NET_OK)"

text \<open>The padding of \<^verbatim>\<open>ether_raw_out\<close>.\<close>

definition ether_pad :: "addr \<Rightarrow> 'a packet_state_scheme \<Rightarrow> ('a packet_state_scheme \<times> net_err_t) option" where
  "ether_pad p s =
     do {
       let sz = packet_total_size (packets s p);
       if sz < ETHER_MIN_PAYLOAD
       then do {
         (s, err) \<leftarrow> packet_resize p ETHER_MIN_PAYLOAD s;
         if net_err_neg err then Some (s, err)
         else do {
           (s, _) \<leftarrow> packet_seek p sz (packet_reset_pos (Some p) s);
           (s, _) \<leftarrow> packet_fill p 0 (ETHER_MIN_PAYLOAD - sz) s;
           Some (s, NET_OK)
         }
       }
       else Some (s, NET_OK)
     }"

definition ether_raw_out ::
  "addr \<Rightarrow> u16 \<Rightarrow> u8 list \<Rightarrow> addr \<Rightarrow> 'a netif_state_scheme \<Rightarrow> ('a netif_state_scheme \<times> net_err_t) option" where
  "ether_raw_out n protocol dest p s =
     do {
       (s, err) \<leftarrow> ether_pad p s;
       if net_err_neg err then Some (s, err)
       else do {
         (s, err) \<leftarrow> packet_add_header p ETHER_HDR_SIZE True s;
         if net_err_neg err then Some (s, NET_ERR_SIZE)
         else do {
           d \<leftarrow> packet_ptr p s;
           let src = hw_addr (ni_hwaddr (netifs s n));
           if length dest < ETH_HWA_SIZE \<or> length src < ETH_HWA_SIZE then None
           else do {
             s \<leftarrow> mem_write d 0 (ether_hdr_bytes
                    \<lparr>eh_dest = take ETH_HWA_SIZE dest, eh_src = take ETH_HWA_SIZE src, eh_protocol = swap_u16 protocol\<rparr>) s;
             if take ETH_HWA_SIZE src = take ETH_HWA_SIZE dest
             then netif_put_in n p (- 1) s
             else do {
               (s, err) \<leftarrow> netif_put_out n p (- 1) s;
               if net_err_neg err then Some (s, err) else ops_transmit n s
             }
           }
         }
       }
     }"

section \<open>Frames\<close>

text \<open>What the link layer leaves alone: everything behind the interfaces in the state.\<close>

definition same_above :: "'a netif_state_scheme \<Rightarrow> 'a netif_state_scheme \<Rightarrow> bool" where
  "same_above s s' \<longleftrightarrow> netif_state.more s' = netif_state.more s \<and>
     timers s' = timers s \<and> timer_list s' = timer_list s \<and> wait_list s' = wait_list s"

lemma same_above_refl [simp]: "same_above s s"
  by (simp add: same_above_def)

lemma same_above_trans [trans]: "same_above s s1 \<Longrightarrow> same_above s1 s2 \<Longrightarrow> same_above s s2"
  by (simp add: same_above_def)

lemma same_above_sym: "same_above s s' = same_above s' s"
  by (auto simp: same_above_def)

lemma same_rest_netif:
  assumes "same_rest s s'"
  shows "netif_state.more s' = netif_state.more s" "netifs s' = netifs s" "netif_list s' = netif_list s"
    "netif_default s' = netif_default s" "link_layers s' = link_layers s" "netif_pool s' = netif_pool s"
    "msg_queue s' = msg_queue s" "msg_mem_pool s' = msg_mem_pool s" "msgs s' = msgs s"
  using same_rest_more [OF assms] by (cases s; cases s'; simp)+

lemma same_above_rest: "same_rest s s' \<Longrightarrow> same_above s s'"
  using same_rest_netif [of s s'] by (simp add: same_above_def same_rest_def)

lemma same_above_upd [simp]:
  "same_above s (upd_netif n f s1) = same_above s s1" "same_above s (packet_reset_pos q s1) = same_above s s1"
  "same_above s (packet_free p s1) = same_above s s1" "same_above s (s1\<lparr>msg_mem_pool := a\<rparr>) = same_above s s1"
  "same_above s (s1\<lparr>msg_queue := b\<rparr>) = same_above s s1" "same_above s (s1\<lparr>msgs := c\<rparr>) = same_above s s1"
proof -
  show "same_above s (packet_reset_pos q s1) = same_above s s1" "same_above s (packet_free p s1) = same_above s s1"
    using same_above_rest [of s1 "packet_reset_pos q s1"] same_above_rest [of s1 "packet_free p s1"]
    by (auto simp: same_above_def)
qed (simp_all add: same_above_def upd_netif_def)

lemma same_above_upd_left [simp]:
  "same_above (upd_netif n f s) s1 = same_above s s1" "same_above (packet_reset_pos q s) s1 = same_above s s1"
  "same_above (packet_free p s) s1 = same_above s s1"
  by (subst (1 2) same_above_sym, simp)+

lemma same_above_handler:
  assumes h: "handler_netif_in n s = Some (s', e)"
  shows "same_above s s'"
proof (cases "msg_mem_pool s")
  case Nil
  then have "s' = s\<lparr>msg_mem_pool := []\<rparr>" using h by (simp add: handler_netif_in_def)
  then show ?thesis by simp
next
  case (Cons m r)
  let ?s = "s\<lparr>msg_mem_pool := r, msgs := (msgs s)(m := EXMSG_NETIF_IN n)\<rparr>"
  obtain q err where "queue_send 10 (msg_queue s) m (- 1) = Some (q, err)"
    by (cases "int (length (msg_queue s)) < 10") (simp_all add: queue_send_def)
  with h Cons have "s' = ?s\<lparr>msg_mem_pool := pool_free r m\<rparr> \<or> s' = ?s\<lparr>msg_queue := q\<rparr>"
    by (simp add: handler_netif_in_def Let_def split: if_splits)
  then show ?thesis by (elim disjE) simp_all
qed

lemma same_above_put_in: "netif_put_in n p t s = Some (s', e) \<Longrightarrow> same_above s s'"
  by (auto simp: netif_put_in_def bind_eq_Some_conv split: if_splits dest!: same_above_handler)

lemma same_above_put_out: "netif_put_out n p t s = Some (s', e) \<Longrightarrow> same_above s s'"
  by (auto simp: netif_put_out_def bind_eq_Some_conv split: if_splits)

lemma same_above_get_out: "netif_get_out n t s = Some (s', e) \<Longrightarrow> same_above s s'"
  by (auto simp: netif_get_out_def Let_def bind_eq_Some_conv split: option.splits)

lemma same_above_loop_transmit: "loop_transmit n s = Some (s', e) \<Longrightarrow> same_above s s'"
  by (auto simp: loop_transmit_def bind_eq_Some_conv split: option.splits if_splits
      dest!: same_above_get_out same_above_put_in) (simp_all add: same_above_def)

lemma same_above_transmit: "ops_transmit n s = Some (s', e) \<Longrightarrow> same_above s s'"
  by (auto simp: ops_transmit_def netif_pcap_transmit_def split: netif_ops_t.splits dest: same_above_loop_transmit)

lemma same_rest_pad [rest_keep]: "ether_pad p s = Some (s', e) \<Longrightarrow> same_rest s s'"
  by (auto simp: ether_pad_def Let_def bind_eq_Some_conv split: if_splits
      dest!: same_rest_resize same_rest_seek same_rest_fill) (simp_all add: same_rest_def)

lemmas link_above = same_above_put_in same_above_put_out same_above_get_out same_above_transmit

lemma same_above_ether_raw_out:
  assumes "ether_raw_out n protocol dest p s = Some (s', e)"
  shows "same_above s s'"
proof -
  from assms obtain s1 e1 where 1: "ether_pad p s = Some (s1, e1)" by (auto simp: ether_raw_out_def bind_eq_Some_conv)
  note a1 = same_rest_pad [OF 1, THEN same_above_rest]
  show ?thesis
  proof (cases "net_err_neg e1")
    case True
    with assms 1 a1 show ?thesis by (simp add: ether_raw_out_def)
  next
    case False
    with assms 1 obtain s2 e2 where 2: "packet_add_header p 14 True s1 = Some (s2, e2)"
      by (auto simp: ether_raw_out_def bind_eq_Some_conv)
    note a2 = same_above_trans [OF a1 same_rest_add_header [OF 2, THEN same_above_rest]]
    show ?thesis
    proof (cases "net_err_neg e2")
      case True
      with assms 1 2 False a2 show ?thesis by (simp add: ether_raw_out_def)
    next
      case e2: False
      with assms 1 2 False obtain s3 where s3: "same_above s2 s3"
        "netif_put_in n p (- 1) s3 = Some (s', e) \<or>
         (\<exists>s4 e4. netif_put_out n p (- 1) s3 = Some (s4, e4) \<and> (s' = s4 \<or> ops_transmit n s4 = Some (s', e)))"
        by (auto simp: ether_raw_out_def Let_def bind_eq_Some_conv split: if_splits
            dest!: same_rest_mem_write [THEN same_above_rest])
      from s3(2) have "same_above s3 s'"
        by (auto dest!: link_above) (simp add: same_above_def)
      with a2 s3(1) same_above_trans show ?thesis by blast
    qed
  qed
qed

section \<open>The frame\<close>

lemma ether_pad_ok:
  assumes ok: "packet_ok s p" and room: "0 < length (page_pool s)"
  shows "\<exists>s'. ether_pad p s = Some (s', NET_OK) \<and>
    pkt_becomes s p s' (packet_bytes s p @ replicate (46 - length (packet_bytes s p)) 0) \<and>
    (46 \<le> length (packet_bytes s p) \<longrightarrow> s' = s)"
proof -
  let ?b = "packet_bytes s p"
  have tot: "packet_total_size (packets s p) = int (length ?b)"
    using packet_ok_total [OF ok] by (simp add: packet_total_size_def)
  show ?thesis
  proof (cases "length ?b < 46")
    case False
    with ok tot show ?thesis by (simp add: ether_pad_def becomes_refl)
  next
    case True
    have "46 - int (length ?b) \<le> 128 * int (length (page_pool s))" using room by linarith
    from packet_resize_ok [OF ok _ this] True obtain s1 t where
      r: "packet_resize p 46 s = Some (s1, NET_OK)" "pkt_becomes s p s1 (?b @ t)" "length t = 46 - length ?b" by auto
    from r(2) have ok1: "packet_ok s1 p" "packet_bytes s1 p = ?b @ t" by (simp_all add: pkt_becomes_def)
    let ?s = "packet_reset_pos (Some p) s1"
    note rp = packet_reset_pos_becomes [OF ok1(1)]
    have ok2: "packet_ok ?s p" "packet_bytes ?s p = ?b @ t" using rp(1) ok1(2) by (simp_all add: pkt_becomes_def)
    have cur: "cursor_ok ?s p" by (rule cursor_at_start [OF ok2(1) rp(2)])
    have tot2: "total_size (packets ?s p) = 46" using packet_ok_total [OF ok2(1)] ok2(2) r(3) True by simp
    from packet_seek_ok [OF cur, of "int (length ?b)"] True tot2 obtain s2 where
      k: "packet_seek p (int (length ?b)) ?s = Some (s2, NET_OK)" "moved ?s p s2" "cursor_ok s2 p"
        "pos (packets s2 p) = int (length ?b)" by auto
    from packet_fill_ok [OF k(3), of "46 - int (length ?b)" 0] k(4) moved_same(5,9) [OF k(2)] tot2 ok2(2) True obtain s3 where
      f: "packet_fill p 0 (46 - int (length ?b)) s2 = Some (s3, NET_OK)"
        "pkt_becomes s2 p s3 (patch (length ?b) (replicate (46 - length ?b) 0) (?b @ t))"
      by (auto simp: nat_diff_distrib)
    have "patch (length ?b) (replicate (46 - length ?b) 0) (?b @ t) = ?b @ replicate (46 - length ?b) 0"
      using r(3) by (simp add: patch_def)
    with f(2) have "pkt_becomes s p s3 (?b @ replicate (46 - length ?b) 0)"
      using pkt_becomes_trans [OF pkt_becomes_trans [OF r(2) rp(1)] pkt_becomes_trans [OF moved_becomes [OF k(2) ok2(1)]]]
      by auto
    with r(1) k(1) f(1) True tot show ?thesis by (simp add: ether_pad_def Let_def)
  qed
qed

text \<open>The frame for a payload, as the wire carries it: the type in network order, padding at the end.\<close>

definition frame_of :: "u8 list \<Rightarrow> u8 list \<Rightarrow> u16 \<Rightarrow> u8 list \<Rightarrow> u8 list" where
  "frame_of dest src protocol payload =
     dest @ src @ [ucast (drop_bit 8 protocol), ucast protocol] @ payload @ replicate (46 - length payload) 0"

lemma swap_u16_bytes: "le16_bytes (swap_u16 v) = [ucast (drop_bit 8 v), ucast v]"
proof -
  have m: "w AND 0xFF = take_bit 8 w" for w :: u16
    by (simp add: take_bit_eq_mask mask_eq_exp_minus_1)
  have "ucast (swap_u16 v) = (ucast (drop_bit 8 v) :: u8)"
    by (rule bit_word_eqI) (auto simp: swap_u16_def m bit_simps)
  moreover have "ucast (drop_bit 8 (swap_u16 v)) = (ucast v :: u8)"
    by (rule bit_word_eqI) (auto simp: swap_u16_def m bit_simps)
  ultimately show ?thesis by (simp add: le16_bytes_def)
qed

lemma length_frame_of: "length dest = 6 \<Longrightarrow> length src = 6 \<Longrightarrow> length (frame_of dest src protocol b) = 14 + max 46 (length b)"
  by (simp add: frame_of_def)

text \<open>Up to the point where the frame is queued; \<open>queue\<close> is what follows.\<close>

lemma ether_raw_out_frame_built:
  assumes ok: "packet_ok s p" and room: "length (page_pool s) > 46"
    and hw: "length dest = 6" "6 \<le> length (hw_addr (ni_hwaddr (netifs s n)))"
  shows "\<exists>s1. pkt_becomes s p s1 (frame_of dest (take 6 (hw_addr (ni_hwaddr (netifs s n)))) protocol (packet_bytes s p)) \<and>
    same_rest s s1 \<and>
    ether_raw_out n protocol dest p s =
      (if take 6 (hw_addr (ni_hwaddr (netifs s n))) = dest then netif_put_in n p (- 1) s1
       else do { (s, err) \<leftarrow> netif_put_out n p (- 1) s1; if net_err_neg err then Some (s, err) else ops_transmit n s })"
proof -
  let ?src = "take 6 (hw_addr (ni_hwaddr (netifs s n)))"
  let ?b = "packet_bytes s p @ replicate (46 - length (packet_bytes s p)) 0"
  have r0: "0 < length (page_pool s)" using room by linarith
  from ether_pad_ok [OF ok r0] obtain s1 where
    1: "ether_pad p s = Some (s1, NET_OK)" "pkt_becomes s p s1 ?b" and same: "46 \<le> length (packet_bytes s p) \<longrightarrow> s1 = s" by blast
  from 1(2) have ok1: "packet_ok s1 p" "packet_bytes s1 p = ?b" by (simp_all add: pkt_becomes_def)
  have ne: "packet_bytes s1 p \<noteq> []" unfolding ok1(2) by (cases "packet_bytes s p") auto
  have r1: "0 < length (page_pool s1)"
  proof (cases "46 \<le> length (packet_bytes s p)")
    case True
    with same r0 show ?thesis by simp
  next
    case False
    then have "length ?b = 46" by simp
    with becomes_room [OF ok 1(2)] room show ?thesis by linarith
  qed
  from add_header_fits [OF ok1(1) ne, of 14] r1 obtain s2 h where
    2: "packet_add_header p 14 True s1 = Some (s2, NET_OK)" "length h = 14" "pkt_becomes s1 p s2 (h @ ?b)" "hdr_fits s2 p 14"
    using ok1(2) by auto
  from 2(3) have ok2: "packet_ok s2 p" "packet_bytes s2 p = h @ ?b" by (simp_all add: pkt_becomes_def)
  obtain d where d: "packet_ptr p s2 = Some d" using hdr_fits_ptr [OF 2(4)] by blast
  let ?hdr = "ether_hdr_bytes \<lparr>eh_dest = dest, eh_src = ?src, eh_protocol = swap_u16 protocol\<rparr>"
  have hl: "length ?hdr = 14" using hw by (simp add: ether_hdr_bytes_def le16_bytes_def)
  from mem_write_hdr [OF ok2(1) d, of 0 ?hdr] 2(4) hl obtain s3 where
    3: "mem_write d 0 ?hdr s2 = Some s3" "pkt_becomes s2 p s3 (patch 0 ?hdr (h @ ?b))" using ok2(2) by auto
  have rest: "same_rest s s1" "same_rest s s2" "same_rest s s3"
    using same_rest_pad [OF 1(1)] same_rest_add_header [OF 2(1)] same_rest_mem_write [OF 3(1)]
    by (auto intro: same_rest_trans)
  have nf: "netifs s2 = netifs s" using same_rest_netif(2) [OF rest(2)] by simp
  have "patch 0 ?hdr (h @ ?b) = frame_of dest ?src protocol (packet_bytes s p)"
    using 2(2) hl by (simp add: patch_def frame_of_def ether_hdr_bytes_def swap_u16_bytes)
  then have "pkt_becomes s p s3 (frame_of dest ?src protocol (packet_bytes s p))"
    using pkt_becomes_trans [OF pkt_becomes_trans [OF 1(2) 2(3)] 3(2)] by simp
  moreover have "ether_raw_out n protocol dest p s =
      (if ?src = dest then netif_put_in n p (- 1) s3
       else do { (s, err) \<leftarrow> netif_put_out n p (- 1) s3; if net_err_neg err then Some (s, err) else ops_transmit n s })"
    using 1(1) 2(1) d 3(1) hw nf by (simp add: ether_raw_out_def Let_def)
  ultimately show ?thesis using rest(3) by blast
qed

lemma buffer_ok_netif [simp]:
  "buffer_ok (upd_netif n f s) ps = buffer_ok s ps" "packet_bytes (upd_netif n f s) q = packet_bytes s q"
  by (auto simp: buffer_ok_def packet_ok_def packet_bytes_def owned_def)

lemma ether_raw_out_ok:
  assumes "buffer_ok s ps" "p \<in> set ps" "length (page_pool s) > 46"
    "length dest = 6" "6 \<le> length (hw_addr (ni_hwaddr (netifs s n)))"
    "take 6 (hw_addr (ni_hwaddr (netifs s n))) \<noteq> dest" "ni_ops (netifs s n) = Netdev_ops"
  shows "\<exists>s'. ether_raw_out n protocol dest p s =
             Some (s', if int (length (ni_out_q (netifs s n))) < 50 then NET_OK else NET_ERR_FULL) \<and>
           buffer_ok s' ps \<and>
           packet_bytes s' p = frame_of dest (take 6 (hw_addr (ni_hwaddr (netifs s n)))) protocol (packet_bytes s p) \<and>
           (\<forall>q\<in>set ps. q \<noteq> p \<longrightarrow> packet_bytes s' q = packet_bytes s q) \<and>
           ni_out_q (netifs s' n) = ni_out_q (netifs s n) @ (if int (length (ni_out_q (netifs s n))) < 50 then [p] else []) \<and>
           netifs s' = (netifs s)(n := (netifs s n)\<lparr>ni_out_q := ni_out_q (netifs s' n)\<rparr>) \<and>
           same_above s s' \<and> (\<exists>s1. pkt_becomes s p s1 (packet_bytes s' p) \<and> page_pool s' = page_pool s1 \<and> packets s' = packets s1)"
proof -
  have ok: "packet_ok s p" using assms(1,2) by (simp add: buffer_ok_def)
  from ether_raw_out_frame_built [OF ok assms(3-5)] obtain s1 where
    s1: "pkt_becomes s p s1 (frame_of dest (take 6 (hw_addr (ni_hwaddr (netifs s n)))) protocol (packet_bytes s p))" "same_rest s s1"
      "ether_raw_out n protocol dest p s =
        do { (s, err) \<leftarrow> netif_put_out n p (- 1) s1; if net_err_neg err then Some (s, err) else ops_transmit n s }"
    using assms(6) by auto
  note nf = same_rest_netif(1,2) [OF s1(2)]
  note b = buffer_ok_becomes [OF assms(1,2) s1(1)]
  let ?s = "if int (length (ni_out_q (netifs s n))) < 50
            then upd_netif n (\<lambda>ni. ni\<lparr>ni_out_q := ni_out_q (netifs s n) @ [p]\<rparr>) s1 else s1"
  have "ether_raw_out n protocol dest p s = Some (?s, if int (length (ni_out_q (netifs s n))) < 50 then NET_OK else NET_ERR_FULL)"
    unfolding s1(3) using assms(7) by (simp add: netif_put_out_def queue_send_def nf ops_transmit_def netif_pcap_transmit_def)
  moreover have "same_above s ?s" using same_above_rest [OF s1(2)] by simp
  moreover have "netifs ?s = (netifs s)(n := (netifs s n)\<lparr>ni_out_q := ni_out_q (netifs ?s n)\<rparr>)" using nf by simp
  moreover have "\<exists>s2. pkt_becomes s p s2 (packet_bytes ?s p) \<and> page_pool ?s = page_pool s2 \<and> packets ?s = packets s2"
    using s1(1) by (intro exI [of _ s1]) (simp add: pkt_becomes_def)
  moreover have "ni_out_q (netifs ?s n) = ni_out_q (netifs s n) @ (if int (length (ni_out_q (netifs s n))) < 50 then [p] else [])"
    using nf by simp
  moreover have "buffer_ok ?s ps" "packet_bytes ?s p = frame_of dest (take 6 (hw_addr (ni_hwaddr (netifs s n)))) protocol (packet_bytes s p)"
    "\<forall>q\<in>set ps. q \<noteq> p \<longrightarrow> packet_bytes ?s q = packet_bytes s q"
    using b s1(1) by (simp_all add: pkt_becomes_def)
  ultimately show ?thesis by blast
qed

text \<open>C35. A packet sent to another station leaves through the capture driver as one Ethernet frame:
  destination, own address and type in network order, the packet's bytes, and zeros up to
  the minimal payload.  It is appended to the output queue, the other packets are
  untouched and nothing is leaked; when the queue is full the caller gets the error and
  keeps the packet.\<close>

theorem ether_raw_out_frame:
  assumes "buffer_ok s ps" "p \<in> set ps" "length (page_pool s) > 46"
    "length dest = 6" "6 \<le> length (hw_addr (ni_hwaddr (netifs s n)))"
    "take 6 (hw_addr (ni_hwaddr (netifs s n))) \<noteq> dest" "ni_ops (netifs s n) = Netdev_ops"
  shows "\<exists>s'. ether_raw_out n protocol dest p s =
             Some (s', if int (length (ni_out_q (netifs s n))) < 50 then NET_OK else NET_ERR_FULL) \<and>
           buffer_ok s' ps \<and>
           packet_bytes s' p = frame_of dest (take 6 (hw_addr (ni_hwaddr (netifs s n)))) protocol (packet_bytes s p) \<and>
           (\<forall>q\<in>set ps. q \<noteq> p \<longrightarrow> packet_bytes s' q = packet_bytes s q) \<and>
           ni_out_q (netifs s' n) = ni_out_q (netifs s n) @ (if int (length (ni_out_q (netifs s n))) < 50 then [p] else []) \<and>
           netif_state.more s' = netif_state.more s"
  using ether_raw_out_ok [OF assms, of protocol] unfolding same_above_def by blast

text \<open>An Ethernet interface and a packet of 300 bytes, for the concrete instances.\<close>

definition eth0 :: netif_t where
  "eth0 = \<lparr>ni_name = ''netif 0'', ni_hwaddr = \<lparr>hw_len = 10, hw_addr = [0x00, 0x50, 0x56, 0xC0, 0x00, 0x11, 0, 0, 0, 0]\<rparr>,
     ni_ipaddr = 0x026EA8C0, ni_netmask = 0x00FFFFFF, ni_gateway = 0x016EA8C0, ni_state = NETIF_ACTIVE,
     ni_type = NETIF_TYPE_ETHER, ni_mtu = 1500, ni_ops = Netdev_ops, ni_ops_data = Pcap_handle,
     ni_link_layer = Some Ether_layer, ni_in_q = [], ni_out_q = []\<rparr>"

definition with_netifs :: "packet_state \<Rightarrow> netif_state" where
  "with_netifs s = packet_state.extend s
     (netif_state.fields [1, 2, 3, 4] [0] (Some 0) (\<lambda>_. None) (\<lambda>_. eth0) [0..<10] [] (\<lambda>_. EXMSG_NETIF_IN 0))"

lemma with_netifs_simps [simp]:
  "pages (with_netifs s) = pages s" "packets (with_netifs s) = packets s" "page_pool (with_netifs s) = page_pool s"
  "packet_pool (with_netifs s) = packet_pool s" "netifs (with_netifs s) n = eth0"
  "msg_queue (with_netifs s) = []" "msg_mem_pool (with_netifs s) = [0..<10]"
  by (simp_all add: with_netifs_def packet_state.extend_def netif_state.fields_def del: upt_rec_numeral)

lemma with_netifs_ok [simp]:
  "buffer_ok (with_netifs s) ps = buffer_ok s ps" "packet_bytes (with_netifs s) q = packet_bytes s q"
  by (simp_all add: buffer_ok_def packet_ok_def packet_bytes_def owned_def)

theorem ether_raw_out_frame_witness:
  "\<exists>(s :: netif_state) s'. ether_raw_out 0 0x0800 ether_broadcast_addr 0 s = Some (s', NET_OK) \<and>
     length (packet_bytes s' 0) = 314 \<and> ni_out_q (netifs s' 0) = [0]"
proof -
  obtain s0 :: packet_state where s0: "buffer_ok s0 [0]" "length (packet_bytes s0 0) = 300" "length (page_pool s0) \<ge> 200"
    using sample_packet by blast
  have "\<exists>s'. ether_raw_out 0 0x0800 ether_broadcast_addr 0 (with_netifs s0) = Some (s', NET_OK) \<and>
     length (packet_bytes s' 0) = 314 \<and> ni_out_q (netifs s' 0) = [0]"
    using ether_raw_out_frame [of "with_netifs s0" "[0]" 0 ether_broadcast_addr 0 "0x0800"] s0
    by (auto simp: ether_broadcast_addr_def eth0_def frame_of_def)
  then show ?thesis by blast
qed

end
