(* ===== verification/Net_Arp.thy ===== *)
theory Net_Arp
  imports Net_Ether
begin

text \<open>
  \<^verbatim>\<open>src/stack/network/arp.c\<close>: the address resolution cache.  The entries live in \<^verbatim>\<open>cache_tbl\<close>,
  \<^verbatim>\<open>cache_list\<close> is the sequence of the ones in use, most recently used first, and
  \<^verbatim>\<open>arp_cache_pool\<close> the free list.  An entry keeps the packets that wait for its resolution.
  The scan of the expiry timer remembers the next entry before it handles one and only ever
  removes the one it handles, so it visits the entries listed at its start.
\<close>

section \<open>Data\<close>

abbreviation (input) ARP_CACHE_SIZE :: nat where "ARP_CACHE_SIZE \<equiv> 50"
abbreviation (input) ARP_MAX_PKT_WAIT :: int where "ARP_MAX_PKT_WAIT \<equiv> 10"
abbreviation (input) ARP_ENTRY_STABLE_TMO :: int where "ARP_ENTRY_STABLE_TMO \<equiv> 1200"
abbreviation (input) ARP_ENTRY_PENDING_TMO :: int where "ARP_ENTRY_PENDING_TMO \<equiv> 3"
abbreviation (input) ARP_ENTRY_RETRY_CNT :: int where "ARP_ENTRY_RETRY_CNT \<equiv> 3"
abbreviation (input) ARP_TIMER_TMO :: int where "ARP_TIMER_TMO \<equiv> 1"
abbreviation (input) ARP_HW_ETHER :: u16 where "ARP_HW_ETHER \<equiv> 1"
abbreviation (input) ARP_REQUEST :: u16 where "ARP_REQUEST \<equiv> 1"
abbreviation (input) ARP_REPLY :: u16 where "ARP_REPLY \<equiv> 2"
abbreviation (input) ARP_PKT_SIZE :: nat where "ARP_PKT_SIZE \<equiv> 28"

text \<open>The address of the timer in the timers' store.\<close>

abbreviation (input) cache_timer :: addr where "cache_timer \<equiv> 0"

record arp_pkt_t =
  ap_htype :: u16
  ap_ptype :: u16
  ap_hlen :: u8
  ap_plen :: u8
  ap_opcode :: u16
  ap_send_haddr :: "u8 list"
  ap_send_paddr :: "u8 list"
  ap_target_haddr :: "u8 list"
  ap_target_paddr :: "u8 list"

definition arp_pkt_bytes :: "arp_pkt_t \<Rightarrow> u8 list" where
  "arp_pkt_bytes a =
     le16_bytes (ap_htype a) @ le16_bytes (ap_ptype a) @ [ap_hlen a, ap_plen a] @ le16_bytes (ap_opcode a) @
     ap_send_haddr a @ ap_send_paddr a @ ap_target_haddr a @ ap_target_paddr a"

definition arp_pkt_of :: "u8 list \<Rightarrow> arp_pkt_t" where
  "arp_pkt_of bs =
     \<lparr>ap_htype = le16 (bs ! 0) (bs ! 1), ap_ptype = le16 (bs ! 2) (bs ! 3), ap_hlen = bs ! 4, ap_plen = bs ! 5,
      ap_opcode = le16 (bs ! 6) (bs ! 7), ap_send_haddr = take 6 (drop 8 bs), ap_send_paddr = take 4 (drop 14 bs),
      ap_target_haddr = take 6 (drop 18 bs), ap_target_paddr = take 4 (drop 24 bs)\<rparr>"

datatype arp_st = NET_ARP_FREE | NET_ARP_RESOLVED | NET_ARP_WAITING

record arp_entry_t =
  ae_paddr :: "u8 list"
  ae_haddr :: "u8 list"
  ae_state :: arp_st
  ae_tmo :: int
  ae_retry :: int
  ae_netif :: ptr
  ae_buf_list :: "addr list"

record arp_state = rt_state +
  cache_tbl :: "addr \<Rightarrow> arp_entry_t"
  arp_cache_pool :: "addr list"
  cache_list :: "addr list"

definition upd_entry :: "addr \<Rightarrow> (arp_entry_t \<Rightarrow> arp_entry_t) \<Rightarrow> 'a arp_state_scheme \<Rightarrow> 'a arp_state_scheme" where
  "upd_entry e f s = s\<lparr>cache_tbl := (cache_tbl s)(e := f (cache_tbl s e))\<rparr>"

definition empty_hwaddr :: "u8 list" where
  "empty_hwaddr = [0, 0, 0, 0, 0, 0]"

definition to_scan_cnt :: "int \<Rightarrow> int" where
  "to_scan_cnt tmo = tmo div ARP_TIMER_TMO"

section \<open>The cache\<close>

fun free_packets :: "addr list \<Rightarrow> 'a packet_state_scheme \<Rightarrow> 'a packet_state_scheme" where
  "free_packets [] s = s"
| "free_packets (p # ps) s = free_packets ps (packet_free p s)"

definition cache_clear_all :: "addr \<Rightarrow> 'a arp_state_scheme \<Rightarrow> 'a arp_state_scheme" where
  "cache_clear_all e s =
     upd_entry e (\<lambda>en. en\<lparr>ae_buf_list := []\<rparr>) (free_packets (ae_buf_list (cache_tbl s e)) s)"

definition zero_entry :: arp_entry_t where
  "zero_entry = \<lparr>ae_paddr = [0, 0, 0, 0], ae_haddr = [0, 0, 0, 0, 0, 0], ae_state = NET_ARP_FREE,
     ae_tmo = 0, ae_retry = 0, ae_netif = None, ae_buf_list = []\<rparr>"

definition cache_alloc :: "bool \<Rightarrow> 'a arp_state_scheme \<Rightarrow> 'a arp_state_scheme \<times> ptr" where
  "cache_alloc force s =
     (case pool_alloc (arp_cache_pool s) of
        (pool, Some e) \<Rightarrow> (upd_entry e (\<lambda>_. zero_entry) (s\<lparr>arp_cache_pool := pool\<rparr>), Some e)
      | (pool, None) \<Rightarrow>
          if \<not> force then (s\<lparr>arp_cache_pool := pool\<rparr>, None)
          else case last_ptr (cache_list s) of
                 None \<Rightarrow> (s\<lparr>arp_cache_pool := pool\<rparr>, None)
               | Some e \<Rightarrow>
                   (upd_entry e (\<lambda>_. zero_entry)
                      (cache_clear_all e (s\<lparr>arp_cache_pool := pool, cache_list := butlast (cache_list s)\<rparr>)), Some e))"

definition cache_free :: "addr \<Rightarrow> 'a arp_state_scheme \<Rightarrow> 'a arp_state_scheme" where
  "cache_free e s =
     (let s = cache_clear_all e s
      in s\<lparr>cache_list := remove1 e (cache_list s), arp_cache_pool := pool_free (arp_cache_pool s) e\<rparr>)"

fun cache_scan :: "(addr \<Rightarrow> arp_entry_t) \<Rightarrow> u8 list \<Rightarrow> addr list \<Rightarrow> ptr" where
  "cache_scan tbl ip [] = None"
| "cache_scan tbl ip (e # es) = (if take 4 ip = ae_paddr (tbl e) then Some e else cache_scan tbl ip es)"

definition cache_find :: "u8 list \<Rightarrow> 'a arp_state_scheme \<Rightarrow> 'a arp_state_scheme \<times> ptr" where
  "cache_find ip s =
     (case cache_scan (cache_tbl s) ip (cache_list s) of
        None \<Rightarrow> (s, None)
      | Some e \<Rightarrow> (s\<lparr>cache_list := e # remove1 e (cache_list s)\<rparr>, Some e))"

text \<open>The loop of \<^verbatim>\<open>cache_send_all\<close> takes the packets off the list one by one.\<close>

fun cache_send_loop :: "addr \<Rightarrow> addr list \<Rightarrow> 'a arp_state_scheme \<Rightarrow> 'a arp_state_scheme option" where
  "cache_send_loop e [] s = Some s"
| "cache_send_loop e (p # ps) s =
     do {
       n \<leftarrow> ae_netif (cache_tbl s e);
       (s, err) \<leftarrow> ether_raw_out n NET_PROTOCOL_IPv4 (ae_haddr (cache_tbl s e)) p
                    (upd_entry e (\<lambda>en. en\<lparr>ae_buf_list := ps\<rparr>) s);
       cache_send_loop e ps (if net_err_neg err then packet_free p s else s)
     }"

definition cache_send_all :: "addr \<Rightarrow> 'a arp_state_scheme \<Rightarrow> ('a arp_state_scheme \<times> net_err_t) option" where
  "cache_send_all e s = map_option (\<lambda>s. (s, NET_OK)) (cache_send_loop e (ae_buf_list (cache_tbl s e)) s)"

definition cache_entry_set :: "addr \<Rightarrow> u8 list \<Rightarrow> u8 list \<Rightarrow> addr \<Rightarrow> arp_st \<Rightarrow> 'a arp_state_scheme \<Rightarrow> 'a arp_state_scheme" where
  "cache_entry_set e hwaddr proaddr n st s =
     upd_entry e (\<lambda>en. en\<lparr>ae_haddr := take ETH_HWA_SIZE hwaddr, ae_paddr := take 4 proaddr, ae_state := st, ae_netif := Some n,
       ae_tmo := (if st = NET_ARP_RESOLVED then to_scan_cnt ARP_ENTRY_STABLE_TMO else to_scan_cnt ARP_ENTRY_PENDING_TMO),
       ae_retry := ARP_ENTRY_RETRY_CNT\<rparr>) s"

definition cache_insert ::
  "addr \<Rightarrow> u8 list \<Rightarrow> u8 list \<Rightarrow> bool \<Rightarrow> 'a arp_state_scheme \<Rightarrow> ('a arp_state_scheme \<times> net_err_t) option" where
  "cache_insert n pro_addr hwaddr force s =
     (case cache_find pro_addr s of
        (s, None) \<Rightarrow>
          (case cache_alloc force s of
             (s, None) \<Rightarrow> Some (s, NET_ERR_NONE)
           | (s, Some e) \<Rightarrow>
               let s = cache_entry_set e hwaddr pro_addr n NET_ARP_RESOLVED s
               in Some (s\<lparr>cache_list := e # cache_list s\<rparr>, NET_OK))
      | (s, Some e) \<Rightarrow>
          do {
            let s = cache_entry_set e hwaddr pro_addr n NET_ARP_RESOLVED s;
            let s = (if hd_ptr (cache_list s) \<noteq> Some e then s\<lparr>cache_list := e # remove1 e (cache_list s)\<rparr> else s);
            (s, err) \<leftarrow> cache_send_all e s;
            if net_err_neg err then Some (s, err) else Some (s, NET_OK)
          })"

definition cache_init :: "'a arp_state_scheme \<Rightarrow> 'a arp_state_scheme \<times> net_err_t" where
  "cache_init s = (s\<lparr>cache_list := [], cache_tbl := (\<lambda>_. zero_entry), arp_cache_pool := [0..<ARP_CACHE_SIZE]\<rparr>, NET_OK)"

section \<open>The protocol\<close>

definition arp_make_request :: "addr \<Rightarrow> ipaddr_t \<Rightarrow> 'a netif_state_scheme \<Rightarrow> ('a netif_state_scheme \<times> net_err_t) option" where
  "arp_make_request n pro_addr s =
     (case packet_alloc (int ARP_PKT_SIZE) s of
        (s, None) \<Rightarrow> Some (s, NET_ERR_NONE)
      | (s, Some p) \<Rightarrow>
          do {
            (s, _) \<leftarrow> packet_set_cont p (int ARP_PKT_SIZE) s;
            d \<leftarrow> packet_ptr p s;
            s \<leftarrow> mem_write d 0 (arp_pkt_bytes
                   \<lparr>ap_htype = swap_u16 ARP_HW_ETHER, ap_ptype = swap_u16 NET_PROTOCOL_IPv4, ap_hlen = 6, ap_plen = 4,
                    ap_opcode = swap_u16 ARP_REQUEST,
                    ap_send_haddr = take ETH_HWA_SIZE (hw_addr (ni_hwaddr (netifs s n))),
                    ap_send_paddr = ipaddr_to_buf (ni_ipaddr (netifs s n)),
                    ap_target_haddr = empty_hwaddr, ap_target_paddr = ipaddr_to_buf pro_addr\<rparr>) s;
            (s, err) \<leftarrow> ether_raw_out n NET_PROTOCOL_ARP ether_broadcast_addr p s;
            Some (if net_err_neg err then packet_free p s else s, err)
          })"

definition arp_make_gratuitous :: "addr \<Rightarrow> 'a netif_state_scheme \<Rightarrow> ('a netif_state_scheme \<times> net_err_t) option" where
  "arp_make_gratuitous n s = arp_make_request n (ni_ipaddr (netifs s n)) s"

text \<open>\<^verbatim>\<open>arp_cache_tmo\<close>, the callback of the expiry timer.\<close>

fun arp_tmo_loop :: "addr list \<Rightarrow> 'a arp_state_scheme \<Rightarrow> 'a arp_state_scheme option" where
  "arp_tmo_loop [] s = Some s"
| "arp_tmo_loop (e # es) s =
     (let s = upd_entry e (\<lambda>en. en\<lparr>ae_tmo := ae_tmo en - 1\<rparr>) s
      in if ae_tmo (cache_tbl s e) > 0 then arp_tmo_loop es s
         else case ae_state (cache_tbl s e) of
           NET_ARP_RESOLVED \<Rightarrow>
             do {
               ip \<leftarrow> ipaddr_from_buf (ae_paddr (cache_tbl s e));
               let s = upd_entry e (\<lambda>en. en\<lparr>ae_state := NET_ARP_WAITING, ae_tmo := to_scan_cnt ARP_ENTRY_PENDING_TMO,
                                            ae_retry := to_scan_cnt ARP_ENTRY_RETRY_CNT\<rparr>) s;
               n \<leftarrow> ae_netif (cache_tbl s e);
               (s, _) \<leftarrow> arp_make_request n ip s;
               arp_tmo_loop es s
             }
         | NET_ARP_WAITING \<Rightarrow>
             let s = upd_entry e (\<lambda>en. en\<lparr>ae_retry := ae_retry en - 1\<rparr>) s
             in if ae_retry (cache_tbl s e) = 0 then arp_tmo_loop es (cache_free e s)
                else do {
                  ip \<leftarrow> ipaddr_from_buf (ae_paddr (cache_tbl s e));
                  let s = upd_entry e (\<lambda>en. en\<lparr>ae_tmo := to_scan_cnt ARP_ENTRY_PENDING_TMO\<rparr>) s;
                  n \<leftarrow> ae_netif (cache_tbl s e);
                  (s, _) \<leftarrow> arp_make_request n ip s;
                  arp_tmo_loop es s
                }
         | NET_ARP_FREE \<Rightarrow> arp_tmo_loop es s)"

definition arp_cache_tmo :: "'a arp_state_scheme \<Rightarrow> 'a arp_state_scheme option" where
  "arp_cache_tmo s = arp_tmo_loop (cache_list s) s"

definition arp_init :: "'a arp_state_scheme \<Rightarrow> ('a arp_state_scheme \<times> net_err_t) option" where
  "arp_init s =
     net_timer_add cache_timer ''arp timer'' ARP_CACHE_TMO 0 (ARP_TIMER_TMO * 1000) NET_TIMER_RELOAD (fst (cache_init s))"

definition validate_arp_packet :: "arp_pkt_t \<Rightarrow> u16 \<Rightarrow> net_err_t" where
  "validate_arp_packet a sz =
     (if unat sz < ARP_PKT_SIZE then NET_ERR_SIZE
      else if swap_u16 (ap_htype a) \<noteq> ARP_HW_ETHER \<or> ap_hlen a \<noteq> 6 \<or>
              swap_u16 (ap_ptype a) \<noteq> NET_PROTOCOL_IPv4 \<or> ap_plen a \<noteq> 4 then NET_ERR_NOT_SUPPORT
      else if swap_u16 (ap_opcode a) \<noteq> ARP_REQUEST \<and> swap_u16 (ap_opcode a) \<noteq> ARP_REPLY then NET_ERR_NOT_SUPPORT
      else NET_OK)"

definition arp_make_reply :: "addr \<Rightarrow> addr \<Rightarrow> 'a netif_state_scheme \<Rightarrow> ('a netif_state_scheme \<times> net_err_t) option" where
  "arp_make_reply n p s =
     do {
       d \<leftarrow> packet_ptr p s;
       bs \<leftarrow> mem_read d 0 ARP_PKT_SIZE s;
       let a = arp_pkt_of bs;
       s \<leftarrow> mem_write d 0 (arp_pkt_bytes (a\<lparr>ap_opcode := swap_u16 ARP_REPLY,
              ap_target_haddr := ap_send_haddr a, ap_target_paddr := ap_send_paddr a,
              ap_send_haddr := take ETH_HWA_SIZE (hw_addr (ni_hwaddr (netifs s n))),
              ap_send_paddr := ipaddr_to_buf (ni_ipaddr (netifs s n))\<rparr>)) s;
       ether_raw_out n NET_PROTOCOL_ARP (ap_send_haddr a) p s
     }"

text \<open>
  \<^verbatim>\<open>arp_in\<close>.  A packet that fails validation is answered with the result of
  \<^verbatim>\<open>packet_set_cont\<close>, which is \<^verbatim>\<open>NET_OK\<close>, and is not freed.
\<close>

definition arp_in :: "addr \<Rightarrow> addr \<Rightarrow> 'a arp_state_scheme \<Rightarrow> ('a arp_state_scheme \<times> net_err_t) option" where
  "arp_in n p s =
     do {
       (s, err) \<leftarrow> packet_set_cont p (int ARP_PKT_SIZE) s;
       if net_err_neg err then Some (s, err)
       else do {
         d \<leftarrow> packet_ptr p s;
         bs \<leftarrow> mem_read d 0 ARP_PKT_SIZE s;
         let a = arp_pkt_of bs;
         if validate_arp_packet a (of_int (total_size (packets s p))) \<noteq> NET_OK then Some (s, err)
         else do {
           target_ip \<leftarrow> ipaddr_from_buf (ap_target_paddr a);
           if ipaddr_is_equal target_ip (ni_ipaddr (netifs s n))
           then do {
             (s, _) \<leftarrow> cache_insert n (ap_send_paddr a) (ap_send_haddr a) True s;
             bs \<leftarrow> mem_read d 0 ARP_PKT_SIZE s;
             if swap_u16 (ap_opcode (arp_pkt_of bs)) = ARP_REQUEST then arp_make_reply n p s
             else Some (packet_free p s, NET_OK)
           }
           else do {
             (s, _) \<leftarrow> cache_insert n (ap_send_paddr a) (ap_send_haddr a) False s;
             Some (packet_free p s, NET_OK)
           }
         }
       }
     }"

definition arp_resolve ::
  "addr \<Rightarrow> ipaddr_t \<Rightarrow> addr \<Rightarrow> 'a arp_state_scheme \<Rightarrow> ('a arp_state_scheme \<times> net_err_t) option" where
  "arp_resolve n ip p s =
     (let pro_addr = ipaddr_to_buf ip
      in case cache_find pro_addr s of
           (s, Some e) \<Rightarrow>
             if ae_state (cache_tbl s e) = NET_ARP_RESOLVED
             then Option.bind (ae_netif (cache_tbl s e))
                    (\<lambda>n. ether_raw_out n NET_PROTOCOL_IPv4 (ae_haddr (cache_tbl s e)) p s)
             else if int (length (ae_buf_list (cache_tbl s e))) \<le> ARP_MAX_PKT_WAIT
             then Some (upd_entry e (\<lambda>en. en\<lparr>ae_buf_list := p # ae_buf_list en\<rparr>) s, NET_OK)
             else Some (s, NET_ERR_FULL)
         | (s, None) \<Rightarrow>
             (case cache_alloc True s of
                (s, None) \<Rightarrow> Some (s, NET_ERR_MEM)
              | (s, Some e) \<Rightarrow>
                  let s = cache_entry_set e empty_hwaddr pro_addr n NET_ARP_WAITING s;
                      s = s\<lparr>cache_list := e # cache_list s\<rparr>
                  in arp_make_request n ip (upd_entry e (\<lambda>en. en\<lparr>ae_buf_list := ae_buf_list en @ [p]\<rparr>) s)))"

text \<open>
  \<^verbatim>\<open>arp_clear\<close>.  The loop steps twice per iteration, in its body and in its header: it looks
  at every other entry, and at the end of a list of odd length it follows a null pointer.
\<close>

fun arp_clear_loop :: "addr \<Rightarrow> addr list \<Rightarrow> 'a arp_state_scheme \<Rightarrow> 'a arp_state_scheme option" where
  "arp_clear_loop n [] s = Some s"
| "arp_clear_loop n [e] s = None"
| "arp_clear_loop n (e # next # es) s =
     arp_clear_loop n es
       (if ae_netif (cache_tbl s e) = Some n
        then let s = cache_clear_all e s
             in s\<lparr>cache_list := remove1 e (cache_list s), arp_cache_pool := pool_free (arp_cache_pool s) e\<rparr>
        else s)"

definition arp_clear :: "addr \<Rightarrow> 'a arp_state_scheme \<Rightarrow> 'a arp_state_scheme option" where
  "arp_clear n s = arp_clear_loop n (cache_list s) s"

definition arp_find :: "addr \<Rightarrow> ipaddr_t \<Rightarrow> 'a arp_state_scheme \<Rightarrow> 'a arp_state_scheme \<times> u8 list option" where
  "arp_find n ip s =
     (if ipaddr_is_local_broadcast ip \<or> ipaddr_is_direct_broadcast ip (ni_netmask (netifs s n))
      then (s, Some ether_broadcast_addr)
      else case cache_find (ipaddr_to_buf ip) s of
             (s, Some e) \<Rightarrow>
               (s, if ae_state (cache_tbl s e) = NET_ARP_RESOLVED then Some (ae_haddr (cache_tbl s e)) else None)
           | (s, None) \<Rightarrow> (s, None))"

section \<open>Frames\<close>

lemma same_above_arp:
  assumes "same_above s s'"
  shows "cache_tbl s' = cache_tbl s" "arp_cache_pool s' = arp_cache_pool s" "cache_list s' = cache_list s"
    "rt_list s' = rt_list s" "rt_table s' = rt_table s" "rt_mblock s' = rt_mblock s"
    "arp_state.more s' = arp_state.more s"
  using assms by (cases s; cases s'; simp add: same_above_def)+

lemma same_above_free_packets [simp]: "same_above s (free_packets ps s1) = same_above s s1"
  by (induction ps s1 rule: free_packets.induct) simp_all

lemma same_above_arp_request:
  assumes "arp_make_request n ip s = Some (s', e)"
  shows "same_above s s'"
proof -
  obtain s1 r where 1: "packet_alloc 28 s = (s1, r)" by fastforce
  note a1 = same_rest_alloc [OF 1, THEN same_above_rest]
  show ?thesis
  proof (cases r)
    case None
    with assms 1 a1 show ?thesis by (simp add: arp_make_request_def)
  next
    case (Some p)
    with assms 1 obtain s2 e2 d bs s3 s4 where
      2: "packet_set_cont p 28 s1 = Some (s2, e2)" and 3: "mem_write d 0 bs s2 = Some s3"
      and 4: "ether_raw_out n 0x0806 ether_broadcast_addr p s3 = Some (s4, e)" and s': "s' = (if net_err_neg e then packet_free p s4 else s4)"
      by (auto simp: arp_make_request_def bind_eq_Some_conv)
    have "same_above s s4"
      using a1 same_rest_set_cont [OF 2, THEN same_above_rest] same_rest_mem_write [OF 3, THEN same_above_rest]
        same_above_ether_raw_out [OF 4] by (simp add: same_above_def)
    with s' show ?thesis by simp
  qed
qed

lemma same_above_arp_reply:
  assumes "arp_make_reply n p s = Some (s', e)"
  shows "same_above s s'"
  using assms
  by (auto simp: arp_make_reply_def bind_eq_Some_conv Let_def
      dest!: same_rest_mem_write [THEN same_above_rest] same_above_ether_raw_out intro: same_above_trans)

lemma cache_upd_simps [simp]:
  "cache_tbl (upd_entry e f s) = (cache_tbl s)(e := f (cache_tbl s e))" "cache_list (upd_entry e f s) = cache_list s"
  "arp_cache_pool (upd_entry e f s) = arp_cache_pool s"
  by (simp_all add: upd_entry_def)

lemma free_packets_arp [simp]:
  "cache_tbl (free_packets ps s) = cache_tbl s" "cache_list (free_packets ps s) = cache_list s"
  "arp_cache_pool (free_packets ps s) = arp_cache_pool s"
  using same_above_arp [of s "free_packets ps s"] by simp_all

lemma packet_free_arp [simp]:
  "cache_tbl (packet_free p s) = cache_tbl s" "cache_list (packet_free p s) = cache_list s"
  "arp_cache_pool (packet_free p s) = arp_cache_pool s"
  using same_above_arp [of s "packet_free p s"] by simp_all

lemma cache_clear_all_simps [simp]:
  "cache_tbl (cache_clear_all e s) = (cache_tbl s)(e := (cache_tbl s e)\<lparr>ae_buf_list := []\<rparr>)"
  "cache_list (cache_clear_all e s) = cache_list s" "arp_cache_pool (cache_clear_all e s) = arp_cache_pool s"
  by (simp_all add: cache_clear_all_def)

section \<open>Invariant\<close>

definition arp_addrs :: "(addr \<Rightarrow> arp_entry_t) \<Rightarrow> addr list \<Rightarrow> u8 list list" where
  "arp_addrs tbl l = map (\<lambda>e. ae_paddr (tbl e)) l"

lemma arp_addrs_simps [simp]:
  "arp_addrs tbl [] = []" "arp_addrs tbl (e # l) = ae_paddr (tbl e) # arp_addrs tbl l"
  "arp_addrs tbl (l @ l') = arp_addrs tbl l @ arp_addrs tbl l'"
  "set (arp_addrs tbl l) = (\<lambda>e. ae_paddr (tbl e)) ` set l"
  by (simp_all add: arp_addrs_def)

lemma arp_addrs_other [simp]: "e \<notin> set l \<Longrightarrow> arp_addrs (tbl(e := en)) l = arp_addrs tbl l"
  by (simp add: arp_addrs_def)

lemma arp_addrs_same: "e \<in> set l \<longrightarrow> ae_paddr en = ae_paddr (tbl e) \<Longrightarrow> arp_addrs (tbl(e := en)) l = arp_addrs tbl l"
  by (auto simp: arp_addrs_def)

lemma arp_addrs_front: "e \<in> set l \<Longrightarrow> distinct (arp_addrs tbl l) \<Longrightarrow> distinct (arp_addrs tbl (e # remove1 e l))"
  by (auto simp: arp_addrs_def distinct_map set_remove1_eq distinct_remove1 inj_on_def)

definition entry_ok :: "arp_entry_t \<Rightarrow> bool" where
  "entry_ok en \<longleftrightarrow> ae_state en \<noteq> NET_ARP_FREE \<and> length (ae_paddr en) = 4 \<and> length (ae_haddr en) = 6 \<and> ae_netif en \<noteq> None \<and>
     length (ae_buf_list en) \<le> 11 \<and> (ae_state en = NET_ARP_RESOLVED \<longrightarrow> ae_buf_list en = [])"

definition arp_ok :: "'a arp_state_scheme \<Rightarrow> bool" where
  "arp_ok s \<longleftrightarrow> distinct (arp_cache_pool s @ cache_list s) \<and> set (arp_cache_pool s @ cache_list s) = {0..<ARP_CACHE_SIZE} \<and>
     distinct (arp_addrs (cache_tbl s) (cache_list s)) \<and> (\<forall>e\<in>set (cache_list s). entry_ok (cache_tbl s e))"

lemma arp_ok_above: "same_above s s' \<Longrightarrow> arp_ok s \<Longrightarrow> arp_ok s'"
  by (simp add: arp_ok_def same_above_arp)

lemma arp_ok_init: "arp_ok (fst (cache_init s))"
  by (simp add: arp_ok_def cache_init_def del: upt_rec_numeral)

lemma cache_scan_Some: "cache_scan tbl ip l = Some e \<Longrightarrow> e \<in> set l \<and> ae_paddr (tbl e) = take 4 ip"
  by (induction l) (auto split: if_splits)

lemma cache_scan_None: "cache_scan tbl ip l = None \<longleftrightarrow> (\<forall>e\<in>set l. ae_paddr (tbl e) \<noteq> take 4 ip)"
  by (induction l) auto

lemma arp_ok_front: "arp_ok s \<Longrightarrow> e \<in> set (cache_list s) \<Longrightarrow> arp_ok (s\<lparr>cache_list := e # remove1 e (cache_list s)\<rparr>)"
  unfolding arp_ok_def
  using arp_addrs_front [of e "cache_list s" "cache_tbl s"]
  by (auto simp: set_remove1_eq distinct_remove1)

text \<open>An entry that has been allocated and is not listed yet.\<close>

definition arp_ok_but :: "addr \<Rightarrow> 'a arp_state_scheme \<Rightarrow> bool" where
  "arp_ok_but e s \<longleftrightarrow> distinct (arp_cache_pool s @ e # cache_list s) \<and>
     set (arp_cache_pool s @ e # cache_list s) = {0..<ARP_CACHE_SIZE} \<and>
     distinct (arp_addrs (cache_tbl s) (cache_list s)) \<and> (\<forall>x\<in>set (cache_list s). entry_ok (cache_tbl s x))"

lemma arp_ok_insert:
  assumes "arp_ok_but e s" "entry_ok en" "\<forall>x\<in>set (cache_list s). ae_paddr (cache_tbl s x) \<noteq> ae_paddr en"
    "cache_tbl s' = (cache_tbl s)(e := en)" "cache_list s' = e # cache_list s" "arp_cache_pool s' = arp_cache_pool s"
  shows "arp_ok s'"
  using assms by (auto simp: arp_ok_def arp_ok_but_def)

lemma cache_find_cases:
  assumes "arp_ok s"
  shows "case cache_find ip s of
      (s', None) \<Rightarrow> s' = s \<and> (\<forall>e\<in>set (cache_list s). ae_paddr (cache_tbl s e) \<noteq> take 4 ip)
    | (s', Some e) \<Rightarrow> arp_ok s' \<and> e \<in> set (cache_list s) \<and> ae_paddr (cache_tbl s e) = take 4 ip \<and>
        s' = s\<lparr>cache_list := e # remove1 e (cache_list s)\<rparr>"
proof (cases "cache_scan (cache_tbl s) ip (cache_list s)")
  case None
  then have "\<forall>e\<in>set (cache_list s). ae_paddr (cache_tbl s e) \<noteq> take 4 ip" by (simp only: cache_scan_None)
  with None show ?thesis by (simp add: cache_find_def)
next
  case (Some e)
  with cache_scan_Some [OF Some] arp_ok_front [OF assms] show ?thesis by (simp add: cache_find_def)
qed

lemma cache_alloc_cases:
  assumes ok: "arp_ok s"
  shows "case cache_alloc force s of
      (s', None) \<Rightarrow> arp_ok s'
    | (s', Some e) \<Rightarrow> arp_ok_but e s' \<and> cache_tbl s' e = zero_entry \<and> set (cache_list s') \<subseteq> set (cache_list s) \<and>
        (\<forall>x\<in>set (cache_list s'). cache_tbl s' x = cache_tbl s x)"
proof (cases "arp_cache_pool s")
  case (Cons e r)
  then have run: "cache_alloc force s = (upd_entry e (\<lambda>_. zero_entry) (s\<lparr>arp_cache_pool := r\<rparr>), Some e)"
    by (simp add: cache_alloc_def)
  have ne: "e \<notin> set (cache_list s)" using ok Cons by (auto simp: arp_ok_def)
  with ok Cons ne show ?thesis unfolding run by (auto simp: arp_ok_def arp_ok_but_def)
next
  case Nil
  have e: "s\<lparr>arp_cache_pool := []\<rparr> = s" unfolding Nil [symmetric] by simp
  show ?thesis
  proof (cases "force \<and> cache_list s \<noteq> []")
    case False
    have "arp_ok (s\<lparr>arp_cache_pool := []\<rparr>)" using e ok by simp
    with False Nil show ?thesis by (auto simp: cache_alloc_def)
  next
    case True
    then obtain l x where l: "cache_list s = l @ [x]" by (metis rev_exhaust)
    have d: "x \<notin> set l" using ok l by (auto simp: arp_ok_def)
    show ?thesis using True Nil l d ok
      by (auto simp: cache_alloc_def e arp_ok_def arp_ok_but_def)
  qed
qed

lemma cache_send_loop_frame:
  assumes "cache_send_loop e ps s = Some s'" "ae_buf_list (cache_tbl s e) = ps"
  shows "cache_list s' = cache_list s \<and> arp_cache_pool s' = arp_cache_pool s \<and>
    cache_tbl s' = (cache_tbl s)(e := (cache_tbl s e)\<lparr>ae_buf_list := []\<rparr>)"
  using assms
proof (induction ps arbitrary: s)
  case Nil
  then have "(cache_tbl s e)\<lparr>ae_buf_list := []\<rparr> = cache_tbl s e" by simp
  then have "cache_tbl s = (cache_tbl s)(e := (cache_tbl s e)\<lparr>ae_buf_list := []\<rparr>)" by (simp only: fun_upd_triv)
  with Nil show ?case by simp
next
  case (Cons p ps)
  let ?s = "upd_entry e (\<lambda>en. en\<lparr>ae_buf_list := ps\<rparr>) s"
  from Cons.prems(1) obtain n s1 err where
    o: "ether_raw_out n 0x0800 (ae_haddr (cache_tbl s e)) p ?s = Some (s1, err)"
    and r: "cache_send_loop e ps (if net_err_neg err then packet_free p s1 else s1) = Some s'"
    by (auto simp: bind_eq_Some_conv)
  note f = same_above_arp(1-3) [OF same_above_ether_raw_out [OF o]]
  from Cons.IH [OF r] show ?case by (auto simp: f)
qed

lemma entry_ok_paddr: "entry_ok en \<Longrightarrow> length (ae_paddr en) = 4"
  by (simp add: entry_ok_def)

text \<open>Changing an entry without changing its address.\<close>

lemma arp_ok_upd:
  assumes "arp_ok s" "e \<in> set (cache_list s) \<Longrightarrow> entry_ok en \<and> ae_paddr en = ae_paddr (cache_tbl s e)"
    "cache_tbl s' = (cache_tbl s)(e := en)" "cache_list s' = cache_list s" "arp_cache_pool s' = arp_cache_pool s"
  shows "arp_ok s'"
  using assms arp_addrs_same [of e "cache_list s" en "cache_tbl s"] by (auto simp: arp_ok_def)

lemma cache_insert_ok:
  assumes ok: "arp_ok s" and len: "length pa = 4" "length ha = 6" and run: "cache_insert n pa ha force s = Some (s', err)"
  shows "arp_ok s'"
proof -
  obtain s1 r where f: "cache_find pa s = (s1, r)" by fastforce
  note fc = cache_find_cases [OF ok, of pa, unfolded f]
  show ?thesis
  proof (cases r)
    case None
    with fc have s1: "s1 = s" "\<forall>e\<in>set (cache_list s). ae_paddr (cache_tbl s e) \<noteq> pa" using len by auto
    obtain s2 q where a: "cache_alloc force s = (s2, q)" by fastforce
    note ac = cache_alloc_cases [OF ok, of force, unfolded a]
    show ?thesis
    proof (cases q)
      case None
      with ac \<open>r = None\<close> f s1 a run show ?thesis by (simp add: cache_insert_def)
    next
      case (Some e)
      let ?en = "\<lparr>ae_paddr = pa, ae_haddr = ha, ae_state = NET_ARP_RESOLVED, ae_tmo = 1200, ae_retry = 3, ae_netif = Some n, ae_buf_list = []\<rparr>"
      let ?s3 = "cache_entry_set e ha pa n NET_ARP_RESOLVED s2"
      have s': "s' = ?s3\<lparr>cache_list := e # cache_list ?s3\<rparr>"
        using \<open>r = None\<close> Some f s1 a run by (simp add: cache_insert_def Let_def)
      have ac': "arp_ok_but e s2" "cache_tbl s2 e = zero_entry" "\<forall>x\<in>set (cache_list s2). ae_paddr (cache_tbl s2 x) \<noteq> pa"
        using ac Some s1(2) by auto
      show ?thesis
        by (rule arp_ok_insert [OF ac'(1), of ?en])
          (use ac' len in \<open>simp_all add: s' entry_ok_def cache_entry_set_def to_scan_cnt_def zero_entry_def\<close>)
    qed
  next
    case (Some e)
    let ?en = "(cache_tbl s e)\<lparr>ae_haddr := ha, ae_paddr := pa, ae_state := NET_ARP_RESOLVED, ae_netif := Some n, ae_tmo := 1200, ae_retry := 3\<rparr>"
    let ?s2 = "cache_entry_set e ha pa n NET_ARP_RESOLVED s1"
    have s1: "arp_ok s1" "e \<in> set (cache_list s)" "ae_paddr (cache_tbl s e) = pa" "hd_ptr (cache_list s1) = Some e"
      "cache_tbl s1 = cache_tbl s" using fc Some len by auto
    have t: "cache_tbl ?s2 = (cache_tbl s)(e := ?en)" "cache_list ?s2 = cache_list s1" "arp_cache_pool ?s2 = arp_cache_pool s1"
      using s1 len by (simp_all add: cache_entry_set_def to_scan_cnt_def)
    from run Some f s1(4) t(2) obtain err' where "cache_send_all e ?s2 = Some (s', err')"
      by (auto simp: cache_insert_def Let_def bind_eq_Some_conv split: if_splits)
    then have "cache_send_loop e (ae_buf_list (cache_tbl ?s2 e)) ?s2 = Some s'" by (auto simp: cache_send_all_def)
    from cache_send_loop_frame [OF this refl] have
      s': "cache_list s' = cache_list s1" "arp_cache_pool s' = arp_cache_pool s1" "cache_tbl s' = (cache_tbl s1)(e := ?en\<lparr>ae_buf_list := []\<rparr>)"
      using t s1(5) by auto
    show ?thesis
      by (rule arp_ok_upd [OF s1(1) _ s'(3,1,2)]) (use s1 len in \<open>simp add: entry_ok_def\<close>)
  qed
qed

lemma arp_pkt_of_lengths:
  "length bs = 28 \<Longrightarrow> length (ap_send_haddr (arp_pkt_of bs)) = 6"
  "length bs = 28 \<Longrightarrow> length (ap_send_paddr (arp_pkt_of bs)) = 4"
  "length bs = 28 \<Longrightarrow> length (ap_target_paddr (arp_pkt_of bs)) = 4"
  by (simp_all add: arp_pkt_of_def)

lemma mem_read_length: "mem_read d off n s = Some bs \<Longrightarrow> length bs = n"
  by (auto simp: mem_read_def page_read_def split: if_splits)

lemma arp_in_ok:
  assumes ok: "arp_ok s" and run: "arp_in n p s = Some (s', err)"
  shows "arp_ok s'"
proof -
  from run obtain s1 e1 where 1: "packet_set_cont p 28 s = Some (s1, e1)" by (auto simp: arp_in_def bind_eq_Some_conv)
  have ok1: "arp_ok s1" by (rule arp_ok_above [OF same_rest_set_cont [OF 1, THEN same_above_rest] ok])
  have stop: ?thesis if "s' = s1" using that ok1 by simp
  show ?thesis
  proof (cases "net_err_neg e1")
    case True
    with run 1 stop show ?thesis by (simp add: arp_in_def)
  next
    case False
    with run 1 obtain d bs where 2: "packet_ptr p s1 = Some d" "mem_read d 0 28 s1 = Some bs"
      by (auto simp: arp_in_def bind_eq_Some_conv)
    note len = arp_pkt_of_lengths [OF mem_read_length [OF 2(2)]]
    have ins: "arp_ok s2" if "cache_insert n (ap_send_paddr (arp_pkt_of bs)) (ap_send_haddr (arp_pkt_of bs)) f s1 = Some (s2, e2)" for f s2 e2
      by (rule cache_insert_ok [OF ok1 len(2,1) that])
    show ?thesis
    proof (cases "validate_arp_packet (arp_pkt_of bs) (of_int (total_size (packets s1 p))) = NET_OK")
      case invalid: False
      with run 1 2 False stop show ?thesis by (simp add: arp_in_def Let_def)
    next
      case True
      with run 1 2 False obtain s2 f e2 where "cache_insert n (ap_send_paddr (arp_pkt_of bs)) (ap_send_haddr (arp_pkt_of bs)) f s1 = Some (s2, e2)"
        "s' = packet_free p s2 \<or> arp_make_reply n p s2 = Some (s', err)"
        by (auto simp: arp_in_def Let_def bind_eq_Some_conv split: if_splits)
      with ins show ?thesis
        by (auto intro: arp_ok_above [OF same_above_arp_reply] simp: arp_ok_above [of s2 "packet_free p s2"])
    qed
  qed
qed

lemma arp_resolve_ok:
  assumes ok: "arp_ok s" and run: "arp_resolve n ip p s = Some (s', err)"
  shows "arp_ok s'"
proof -
  let ?pa = "ipaddr_to_buf ip"
  have len: "length ?pa = 4" by (simp add: ipaddr_to_buf_def)
  obtain s1 r where f: "cache_find ?pa s = (s1, r)" by fastforce
  note fc = cache_find_cases [OF ok, of ?pa, unfolded f]
  show ?thesis
  proof (cases r)
    case (Some e)
    have s1: "arp_ok s1" using fc unfolding Some prod.case option.case by blast
    from run f Some consider n where "ether_raw_out n 0x0800 (ae_haddr (cache_tbl s1 e)) p s1 = Some (s', err)"
      | "s' = s1"
      | "s' = upd_entry e (\<lambda>en. en\<lparr>ae_buf_list := p # ae_buf_list en\<rparr>) s1" "length (ae_buf_list (cache_tbl s1 e)) \<le> 10"
        "ae_state (cache_tbl s1 e) \<noteq> NET_ARP_RESOLVED"
      by (auto simp: arp_resolve_def Let_def bind_eq_Some_conv split: if_splits)
    then show ?thesis
    proof cases
      case 1
      show ?thesis by (rule arp_ok_above [OF same_above_ether_raw_out [OF 1] s1])
    next
      case 2
      with s1 show ?thesis by simp
    next
      case 3
      from s1 have "e \<in> set (cache_list s1) \<Longrightarrow> entry_ok (cache_tbl s1 e)" by (simp add: arp_ok_def)
      with 3 show ?thesis
        by (intro arp_ok_upd [OF s1, of e "(cache_tbl s1 e)\<lparr>ae_buf_list := p # ae_buf_list (cache_tbl s1 e)\<rparr>"])
          (simp_all add: entry_ok_def)
    qed
  next
    case None
    with fc len have s1: "s1 = s" "\<forall>e\<in>set (cache_list s). ae_paddr (cache_tbl s e) \<noteq> ?pa" by auto
    obtain s2 q where a: "cache_alloc True s = (s2, q)" by fastforce
    note ac = cache_alloc_cases [OF ok, of True, unfolded a]
    show ?thesis
    proof (cases q)
      case None
      with ac \<open>r = None\<close> f s1 a run show ?thesis by (simp add: arp_resolve_def Let_def)
    next
      case (Some e)
      let ?en = "\<lparr>ae_paddr = ?pa, ae_haddr = empty_hwaddr, ae_state = NET_ARP_WAITING, ae_tmo = 3, ae_retry = 3, ae_netif = Some n, ae_buf_list = [p]\<rparr>"
      let ?s3 = "cache_entry_set e empty_hwaddr ?pa n NET_ARP_WAITING s2"
      let ?s4 = "upd_entry e (\<lambda>en. en\<lparr>ae_buf_list := ae_buf_list en @ [p]\<rparr>) (?s3\<lparr>cache_list := e # cache_list ?s3\<rparr>)"
      have ac': "arp_ok_but e s2" "cache_tbl s2 e = zero_entry" "\<forall>x\<in>set (cache_list s2). ae_paddr (cache_tbl s2 x) \<noteq> ?pa"
        using ac Some s1(2) by auto
      have "arp_ok ?s4"
        by (rule arp_ok_insert [OF ac'(1), of ?en])
          (use ac' len in \<open>simp_all add: entry_ok_def cache_entry_set_def to_scan_cnt_def zero_entry_def empty_hwaddr_def\<close>)
      moreover have "arp_make_request n ip ?s4 = Some (s', err)"
        using \<open>r = None\<close> Some f s1 a run by (simp add: arp_resolve_def Let_def)
      ultimately show ?thesis using arp_ok_above same_above_arp_request by blast
    qed
  qed
qed

lemma cache_free_ok:
  assumes ok: "arp_ok s" and e: "e \<in> set (cache_list s)"
  shows "arp_ok (cache_free e s)"
proof -
  from e obtain xs ys where l: "cache_list s = xs @ e # ys" "e \<notin> set xs" "e \<notin> set ys"
    using ok by (metis arp_ok_def distinct_append distinct_split)
  with ok show ?thesis
    by (auto simp: arp_ok_def cache_free_def Let_def pool_free_def remove1_append)
qed

text \<open>The loop of the expiry timer: an update of one entry, then possibly a request or its removal.\<close>

lemma arp_tmo_loop_ok:
  assumes "arp_ok s" "set es \<subseteq> set (cache_list s)" "distinct es" "arp_tmo_loop es s = Some s'"
  shows "arp_ok s'"
  using assms
proof (induction es arbitrary: s)
  case (Cons e es)
  have e: "e \<in> set (cache_list s)" "e \<notin> set es" "set es \<subseteq> set (cache_list s)" using Cons.prems(2,3) by auto
  have en: "entry_ok (cache_tbl s e)" using Cons.prems(1) e(1) by (simp add: arp_ok_def)
  let ?t = "upd_entry e (\<lambda>en. en\<lparr>ae_tmo := ae_tmo en - 1\<rparr>) s"
  have upd: "arp_ok s1 \<Longrightarrow> cache_list s1 = cache_list s \<Longrightarrow> arp_tmo_loop es s1 = Some s' \<Longrightarrow> arp_ok s'" for s1
    by (rule Cons.IH [of s1]) (use e Cons.prems(3) in auto)
  have req: "arp_ok s'" if "arp_ok s1" "cache_list s1 = cache_list s" "arp_make_request n ip s1 = Some (s2, er)" "arp_tmo_loop es s2 = Some s'" for s1 s2 n ip er
    by (rule upd [OF _ _ that(4)])
      (use that arp_ok_above [OF same_above_arp_request [OF that(3)]] same_above_arp(3) [OF same_above_arp_request [OF that(3)]] in auto)
  have set: "arp_ok s1" if "cache_tbl s1 = (cache_tbl s)(e := en')" "cache_list s1 = cache_list s" "arp_cache_pool s1 = arp_cache_pool s"
    "entry_ok en'" "ae_paddr en' = ae_paddr (cache_tbl s e)" for s1 :: "'a arp_state_scheme" and en'
    by (rule arp_ok_upd [OF Cons.prems(1) _ that(1-3)]) (use that in simp)
  have t: "arp_ok ?t" by (rule set [of _ "(cache_tbl s e)\<lparr>ae_tmo := ae_tmo (cache_tbl s e) - 1\<rparr>"]) (use en in \<open>simp_all add: entry_ok_def\<close>)
  show ?case
  proof (cases "ae_tmo (cache_tbl s e) - 1 > 0")
    case True
    with Cons.prems(4) have "arp_tmo_loop es ?t = Some s'" by (simp add: Let_def)
    then show ?thesis by (rule upd [OF t, rotated]) simp
  next
    case False
    show ?thesis
    proof (cases "ae_state (cache_tbl s e)")
      case NET_ARP_FREE
      with en show ?thesis by (simp add: entry_ok_def)
    next
      case NET_ARP_RESOLVED
      let ?u = "upd_entry e (\<lambda>en. en\<lparr>ae_state := NET_ARP_WAITING, ae_tmo := to_scan_cnt 3, ae_retry := to_scan_cnt 3\<rparr>) ?t"
      have "arp_ok ?u"
        by (rule set [of _ "(cache_tbl s e)\<lparr>ae_state := NET_ARP_WAITING, ae_tmo := to_scan_cnt 3, ae_retry := to_scan_cnt 3\<rparr>"])
          (use en in \<open>simp_all add: entry_ok_def\<close>)
      moreover from Cons.prems(4) False NET_ARP_RESOLVED obtain n ip s2 er where
        "arp_make_request n ip ?u = Some (s2, er)" "arp_tmo_loop es s2 = Some s'"
        by (auto simp: Let_def bind_eq_Some_conv)
      ultimately show ?thesis using req [of ?u] by simp
    next
      case NET_ARP_WAITING
      let ?u = "upd_entry e (\<lambda>en. en\<lparr>ae_retry := ae_retry en - 1\<rparr>) ?t"
      let ?v = "upd_entry e (\<lambda>en. en\<lparr>ae_tmo := to_scan_cnt 3\<rparr>) ?u"
      have u: "arp_ok ?u"
        by (rule set [of _ "(cache_tbl s e)\<lparr>ae_tmo := ae_tmo (cache_tbl s e) - 1, ae_retry := ae_retry (cache_tbl s e) - 1\<rparr>"])
          (use en in \<open>simp_all add: entry_ok_def\<close>)
      have v: "arp_ok ?v"
        by (rule set [of _ "(cache_tbl s e)\<lparr>ae_retry := ae_retry (cache_tbl s e) - 1, ae_tmo := to_scan_cnt 3\<rparr>"])
          (use en in \<open>simp_all add: entry_ok_def\<close>)
      show ?thesis
      proof (cases "ae_retry (cache_tbl s e) - 1 = 0")
        case True
        with Cons.prems(4) False NET_ARP_WAITING have r: "arp_tmo_loop es (cache_free e ?u) = Some s'" by (simp add: Let_def)
        have "distinct (cache_list s)" using Cons.prems(1) by (simp add: arp_ok_def)
        then have "set es \<subseteq> set (cache_list (cache_free e ?u))"
          using e by (auto simp: cache_free_def Let_def set_remove1_eq)
        with cache_free_ok [OF u, of e] e(1) Cons.prems(3) show ?thesis by (intro Cons.IH [OF _ _ _ r]) simp_all
      next
        case retry: False
        with Cons.prems(4) False NET_ARP_WAITING obtain n ip s2 er where
          "arp_make_request n ip ?v = Some (s2, er)" "arp_tmo_loop es s2 = Some s'"
          by (auto simp: Let_def bind_eq_Some_conv)
        with v show ?thesis using req [of ?v] by simp
      qed
    qed
  qed
qed simp

lemma arp_cache_tmo_ok: "arp_ok s \<Longrightarrow> arp_cache_tmo s = Some s' \<Longrightarrow> arp_ok s'"
  unfolding arp_cache_tmo_def by (rule arp_tmo_loop_ok [of s "cache_list s"]) (simp_all add: arp_ok_def)

lemma arp_find_ok: "arp_ok s \<Longrightarrow> arp_ok (fst (arp_find n ip s))"
  using cache_find_cases [of s "ipaddr_to_buf ip"]
  by (auto simp: arp_find_def split: prod.splits option.splits)

section \<open>Reachable states\<close>

text \<open>The cache operations the rest of the stack calls, in any order; \<open>other\<close> is any step that leaves the cache alone.\<close>

inductive arp_reach :: "arp_state \<Rightarrow> bool" where
  init: "arp_init s = Some (s', err) \<Longrightarrow> arp_reach s'"
| resolve: "arp_reach s \<Longrightarrow> arp_resolve n ip p s = Some (s', err) \<Longrightarrow> arp_reach s'"
| input: "arp_reach s \<Longrightarrow> arp_in n p s = Some (s', err) \<Longrightarrow> arp_reach s'"
| tmo: "arp_reach s \<Longrightarrow> arp_cache_tmo s = Some s' \<Longrightarrow> arp_reach s'"
| find: "arp_reach s \<Longrightarrow> arp_find n ip s = (s', ha) \<Longrightarrow> arp_reach s'"
| other: "arp_reach s \<Longrightarrow> cache_tbl s' = cache_tbl s \<Longrightarrow> arp_cache_pool s' = arp_cache_pool s \<Longrightarrow>
    cache_list s' = cache_list s \<Longrightarrow> arp_reach s'"

lemma arp_ok_timer_add:
  assumes "net_timer_add t nm f a ms fl s = Some (s', err)" "arp_ok s"
  shows "arp_ok s'"
  using assms
  by (auto simp: net_timer_add_def insert_timer_def arp_ok_def split: if_splits prod.splits)

lemma arp_reach_ok: "arp_reach s \<Longrightarrow> arp_ok s"
proof (induction rule: arp_reach.induct)
  case (init s s' err)
  then show ?case unfolding arp_init_def by (rule arp_ok_timer_add) (rule arp_ok_init)
next
  case (find s n ip s' ha)
  with arp_find_ok [of s n ip] show ?case by simp
next
  case (other s s')
  then show ?case by (simp add: arp_ok_def)
qed (auto intro: arp_resolve_ok arp_in_ok arp_cache_tmo_ok)

section \<open>Resolving an address\<close>

definition arp_request_pkt :: "netif_t \<Rightarrow> ipaddr_t \<Rightarrow> arp_pkt_t" where
  "arp_request_pkt ni ip =
     \<lparr>ap_htype = swap_u16 1, ap_ptype = swap_u16 0x0800, ap_hlen = 6, ap_plen = 4, ap_opcode = swap_u16 1,
      ap_send_haddr = take 6 (hw_addr (ni_hwaddr ni)), ap_send_paddr = ipaddr_to_buf (ni_ipaddr ni),
      ap_target_haddr = empty_hwaddr, ap_target_paddr = ipaddr_to_buf ip\<rparr>"

lemma length_arp_request: "6 \<le> length (hw_addr (ni_hwaddr ni)) \<Longrightarrow> length (arp_pkt_bytes (arp_request_pkt ni ip)) = 28"
  by (simp add: arp_pkt_bytes_def arp_request_pkt_def le16_bytes_def ipaddr_to_buf_def empty_hwaddr_def)

text \<open>An interface that can send two more frames through the capture driver.\<close>

definition can_send :: "'a netif_state_scheme \<Rightarrow> addr \<Rightarrow> nat \<Rightarrow> bool" where
  "can_send s n k \<longleftrightarrow> 6 \<le> length (hw_addr (ni_hwaddr (netifs s n))) \<and> ni_ops (netifs s n) = Netdev_ops \<and>
     take 6 (hw_addr (ni_hwaddr (netifs s n))) \<noteq> ether_broadcast_addr \<and> length (ni_out_q (netifs s n)) + k \<le> 50"

lemma pool_bound: "distinct xs \<Longrightarrow> set ys \<union> set zs = set xs \<Longrightarrow> length xs \<le> length ys + length zs"
  by (metis card_Un_le add_mono card_length distinct_card order_trans)

lemma arp_make_request_ok:
  assumes ok: "buffer_ok s ps" and pool: "packet_pool s \<noteq> []" "74 < length (page_pool s)" and cs: "can_send s n 1"
  shows "\<exists>s' q. arp_make_request n ip s = Some (s', NET_OK) \<and> buffer_ok s' (q # ps) \<and>
    packet_bytes s' q = frame_of ether_broadcast_addr (take 6 (hw_addr (ni_hwaddr (netifs s n)))) 0x0806
      (arp_pkt_bytes (arp_request_pkt (netifs s n) ip)) \<and>
    (\<forall>r\<in>set ps. packet_bytes s' r = packet_bytes s r) \<and> same_above s s' \<and>
    netifs s' = (netifs s)(n := (netifs s n)\<lparr>ni_out_q := ni_out_q (netifs s n) @ [q]\<rparr>) \<and>
    length (page_pool s) \<le> length (page_pool s') + 60"
proof -
  obtain q r where pq: "packet_pool s = q # r" using pool(1) by (cases "packet_pool s") auto
  have pre: "\<forall>pg. length (pg_payload (pages s pg)) = 128" "distinct (page_pool s)" using ok by (simp_all add: buffer_ok_def)
  have rm: "(28 :: int) \<le> 128 * int (length (page_pool s))" using pool(2) by linarith
  from packet_alloc_ok [OF pq _ rm pre] obtain s1 where al: "packet_alloc 28 s = (s1, Some q)" by auto
  with buffer_ok_alloc [OF ok, of 28] have
    b1: "buffer_ok s1 (q # ps)" "length (packet_bytes s1 q) = 28" "\<forall>r\<in>set ps. packet_bytes s1 r = packet_bytes s r" by simp_all
  have e1: "set (page_pool s1) \<union> set (page_list (packets s1 q)) = set (page_pool s)"
    using packet_alloc_ok [OF pq _ rm pre] al by auto
  have n1: "same_above s s1" "netifs s1 = netifs s"
    using same_rest_alloc [OF al, THEN same_above_rest] same_rest_netif(2) [OF same_rest_alloc [OF al]] by simp_all
  have ok1: "packet_ok s1 q" using b1(1) by (simp add: buffer_ok_def)
  from set_cont_fits [OF ok1, of 28] b1(2) obtain s2 where
    sc: "packet_set_cont q 28 s1 = Some (s2, NET_OK)" "pkt_becomes s1 q s2 (packet_bytes s1 q)" "hdr_fits s2 q 28" by auto
  have ok2: "packet_ok s2 q" "packet_bytes s2 q = packet_bytes s1 q" using sc(2) by (simp_all add: pkt_becomes_def)
  have n2: "netifs s2 = netifs s" using same_rest_netif(2) [OF same_rest_set_cont [OF sc(1)]] n1 by simp
  obtain d where d: "packet_ptr q s2 = Some d" using hdr_fits_ptr [OF sc(3)] by blast
  let ?a = "arp_pkt_bytes (arp_request_pkt (netifs s n) ip)"
  have la: "length ?a = 28" by (rule length_arp_request) (use cs in \<open>simp add: can_send_def\<close>)
  from mem_write_hdr [OF ok2(1) d, of 0 ?a] sc(3) la obtain s3 where
    w: "mem_write d 0 ?a s2 = Some s3" "pkt_becomes s2 q s3 (patch 0 ?a (packet_bytes s1 q))" using ok2(2) by auto
  have pa: "patch 0 ?a (packet_bytes s1 q) = ?a" using la b1(2) by (simp add: patch_def)
  have t3: "pkt_becomes s1 q s3 ?a" using pkt_becomes_trans [OF sc(2) w(2)] pa by simp
  note b3 = buffer_ok_becomes [OF b1(1) _ t3]
  have n3: "netifs s3 = netifs s" using same_rest_netif(2) [OF same_rest_mem_write [OF w(1)]] n2 by simp
  have q3: "packet_bytes s3 q = ?a" "packet_ok s3 q" using t3 by (simp_all add: pkt_becomes_def)
  have e3: "set (page_pool s3) \<union> set (page_list (packets s3 q)) = set (page_pool s)"
    using t3 e1 by (simp add: pkt_becomes_def pkt_frame_def)
  have p3: "46 < length (page_pool s3)"
    using pool_bound [OF pre(2) e3] page_count_le [OF q3(2)] q3(1) la pool(2) by simp
  from ether_raw_out_ok [of s3 "q # ps" q ether_broadcast_addr n "0x0806"] b3 p3 cs n3 q3(1) obtain s4 s5 where
    o: "ether_raw_out n 0x0806 ether_broadcast_addr q s3 = Some (s4, NET_OK)" "buffer_ok s4 (q # ps)"
      "packet_bytes s4 q = frame_of ether_broadcast_addr (take 6 (hw_addr (ni_hwaddr (netifs s n)))) 0x0806 ?a"
      "\<forall>r\<in>set (q # ps). r \<noteq> q \<longrightarrow> packet_bytes s4 r = packet_bytes s3 r"
      "netifs s4 = (netifs s)(n := (netifs s n)\<lparr>ni_out_q := ni_out_q (netifs s n) @ [q]\<rparr>)" "same_above s3 s4"
      "pkt_becomes s3 q s5 (packet_bytes s4 q)" "page_pool s4 = page_pool s5"
    by (auto simp: can_send_def ether_broadcast_addr_def)
  have nq: "q \<notin> set ps" using b1(1) by (simp add: buffer_ok_def)
  have "length (packet_bytes s4 q) = 60"
    unfolding o(3) using la cs by (simp add: length_frame_of ether_broadcast_addr_def can_send_def)
  note s5 = o(7,8) this
  from o(7) have e5: "set (page_pool s5) \<union> set (page_list (packets s5 q)) = set (page_pool s)" "packet_ok s5 q" "packet_bytes s5 q = packet_bytes s4 q"
    using e3 by (simp_all add: pkt_becomes_def pkt_frame_def)
  have p5: "length (page_pool s) \<le> length (page_pool s4) + 60"
    using pool_bound [OF pre(2) e5(1)] page_count_le [OF e5(2)] e5(3) s5(2,3) by simp
  have above: "same_above s s4"
    using n1(1) same_rest_set_cont [OF sc(1), THEN same_above_rest] same_rest_mem_write [OF w(1), THEN same_above_rest] o(6)
    by (simp add: same_above_def)
  have "arp_make_request n ip s = Some (s4, NET_OK)"
    using al sc(1) d w(1) o(1) n2 by (simp add: arp_make_request_def arp_request_pkt_def)
  moreover have "\<forall>r\<in>set ps. packet_bytes s4 r = packet_bytes s r" using o(4) b3 b1(3) nq by auto
  ultimately show ?thesis using o above p5 by blast
qed


text \<open>C29. In every state the cache can reach there are at most 50 entries, one per address, every
  listed entry is pending or resolved and bound to an interface, at most 11 packets wait on
  an entry and none on a resolved one.\<close>

theorem arp_cache_invariant:
  assumes "arp_reach s"
  shows "length (cache_list s) \<le> 50 \<and> distinct (map (\<lambda>e. ae_paddr (cache_tbl s e)) (cache_list s)) \<and>
    (\<forall>e\<in>set (cache_list s). ae_state (cache_tbl s e) \<noteq> NET_ARP_FREE \<and> ae_netif (cache_tbl s e) \<noteq> None \<and>
       length (ae_paddr (cache_tbl s e)) = 4 \<and> length (ae_haddr (cache_tbl s e)) = 6 \<and>
       length (ae_buf_list (cache_tbl s e)) \<le> 11 \<and>
       (ae_state (cache_tbl s e) = NET_ARP_RESOLVED \<longrightarrow> ae_buf_list (cache_tbl s e) = []))"
proof -
  have ok: "arp_ok s" by (rule arp_reach_ok [OF assms])
  then have "length (arp_cache_pool s @ cache_list s) = card {0..<50 :: nat}"
    unfolding arp_ok_def by (metis distinct_card)
  then have "length (cache_list s) \<le> 50" by simp
  with ok show ?thesis unfolding arp_ok_def entry_ok_def arp_addrs_def by blast
qed

theorem arp_cache_invariant_witness:
  "\<exists>s :: arp_state. arp_reach s \<and> length (cache_list s) \<le> 50"
proof -
  define s0 :: arp_state where "s0 = (undefined :: arp_state)\<lparr>timer_list := [], wait_list := []\<rparr>"
  have "\<exists>s' err. arp_init s0 = Some (s', err)"
    by (simp add: arp_init_def net_timer_add_def insert_timer_def cache_init_def s0_def)
  then obtain s' err where "arp_init s0 = Some (s', err)" by blast
  then have r: "arp_reach s'" by (rule arp_reach.init)
  with arp_cache_invariant [OF r] show ?thesis by blast
qed

text \<open>C20. Resolution delivers: sending a packet to an address the cache does not know broadcasts
  one request and keeps the packet; when the hardware address is learnt, the packet leaves
  in a frame to it, right behind the request, the entry is resolved and no other packet's
  bytes have changed.\<close>

theorem arp_resolution_delivers:
  assumes "buffer_ok s ps" "p \<in> set ps" "arp_ok s" "packet_pool s \<noteq> []" "120 < length (page_pool s)" "can_send s n 2"
    "\<forall>e\<in>set (cache_list s). ae_paddr (cache_tbl s e) \<noteq> ipaddr_to_buf ip" "arp_cache_pool s \<noteq> []"
    "length ha = 6" "ha \<noteq> take 6 (hw_addr (ni_hwaddr (netifs s n)))"
  shows "\<exists>s1 q s2. arp_resolve n ip p s = Some (s1, NET_OK) \<and>
      packet_bytes s1 q = frame_of ether_broadcast_addr (take 6 (hw_addr (ni_hwaddr (netifs s n)))) 0x0806
        (arp_pkt_bytes (arp_request_pkt (netifs s n) ip)) \<and>
      ni_out_q (netifs s1 n) = ni_out_q (netifs s n) @ [q] \<and>
      cache_insert n (ipaddr_to_buf ip) ha True s1 = Some (s2, NET_OK) \<and> buffer_ok s2 (q # ps) \<and>
      ni_out_q (netifs s2 n) = ni_out_q (netifs s n) @ [q, p] \<and>
      packet_bytes s2 p = frame_of ha (take 6 (hw_addr (ni_hwaddr (netifs s n)))) 0x0800 (packet_bytes s p) \<and>
      (\<forall>r\<in>set ps. r \<noteq> p \<longrightarrow> packet_bytes s2 r = packet_bytes s r) \<and>
      (\<exists>e\<in>set (cache_list s2). cache_tbl s2 e = \<lparr>ae_paddr = ipaddr_to_buf ip, ae_haddr = ha, ae_state = NET_ARP_RESOLVED,
         ae_tmo = 1200, ae_retry = 3, ae_netif = Some n, ae_buf_list = []\<rparr>)"
proof -
  let ?pa = "ipaddr_to_buf ip"
  have len: "length ?pa = 4" by (simp add: ipaddr_to_buf_def)
  obtain e r where pool: "arp_cache_pool s = e # r" using assms(8) by (cases "arp_cache_pool s") auto
  have ne: "e \<notin> set (cache_list s)" using assms(3) pool by (auto simp: arp_ok_def)
  have f: "cache_find ?pa s = (s, None)"
    using assms(7) len cache_scan_None [of "cache_tbl s" ?pa "cache_list s"] by (auto simp: cache_find_def)
  have a: "cache_alloc True s = (upd_entry e (\<lambda>_. zero_entry) (s\<lparr>arp_cache_pool := r\<rparr>), Some e)"
    by (simp add: cache_alloc_def pool)
  let ?en = "\<lparr>ae_paddr = ?pa, ae_haddr = empty_hwaddr, ae_state = NET_ARP_WAITING, ae_tmo = 3, ae_retry = 3, ae_netif = Some n, ae_buf_list = [p]\<rparr>"
  let ?s0 = "s\<lparr>arp_cache_pool := r, cache_list := e # cache_list s, cache_tbl := (cache_tbl s)(e := ?en)\<rparr>"
  have run0: "arp_resolve n ip p s = arp_make_request n ip ?s0"
    using f a len by (simp add: arp_resolve_def cache_entry_set_def upd_entry_def to_scan_cnt_def zero_entry_def empty_hwaddr_def Let_def)
  have s0: "buffer_ok ?s0 ps" "\<And>q. packet_bytes ?s0 q = packet_bytes s q"
    using assms(1) by (simp_all add: buffer_ok_def packet_ok_def packet_bytes_def owned_def)
  have cs: "can_send ?s0 n 1" using assms(6) by (simp add: can_send_def)
  from arp_make_request_ok [OF s0(1) _ _ cs, of ip] assms(4,5) obtain s1 q where
    r1: "arp_make_request n ip ?s0 = Some (s1, NET_OK)" "buffer_ok s1 (q # ps)"
      "packet_bytes s1 q = frame_of ether_broadcast_addr (take 6 (hw_addr (ni_hwaddr (netifs s n)))) 0x0806 (arp_pkt_bytes (arp_request_pkt (netifs s n) ip))"
      "\<forall>r\<in>set ps. packet_bytes s1 r = packet_bytes s r" "same_above ?s0 s1"
      "netifs s1 = (netifs s)(n := (netifs s n)\<lparr>ni_out_q := ni_out_q (netifs s n) @ [q]\<rparr>)"
      "length (page_pool s) \<le> length (page_pool s1) + 60"
    using s0(2) by auto
  have c1: "cache_tbl s1 = (cache_tbl s)(e := ?en)" "cache_list s1 = e # cache_list s" "arp_cache_pool s1 = r"
    using same_above_arp(1-3) [OF r1(5)] by simp_all
  let ?en2 = "?en\<lparr>ae_haddr := ha, ae_state := NET_ARP_RESOLVED, ae_tmo := 1200, ae_buf_list := []\<rparr>"
  let ?s2 = "s1\<lparr>cache_tbl := (cache_tbl s)(e := ?en2)\<rparr>"
  have nq: "q \<notin> set ps" "p \<noteq> q" using r1(2) assms(2) by (auto simp: buffer_ok_def)
  have "s1\<lparr>cache_list := e # cache_list s\<rparr> = s1" unfolding c1(2) [symmetric] by simp
  then have f1: "cache_find ?pa s1 = (s1, Some e)" using c1 len by (simp add: cache_find_def)
  have s2: "buffer_ok ?s2 (q # ps)" "\<And>r. packet_bytes ?s2 r = packet_bytes s1 r"
    using r1(2) by (simp_all add: buffer_ok_def packet_ok_def packet_bytes_def owned_def)
  from ether_raw_out_ok [OF s2(1), of p ha n "0x0800"] assms(2,5,6,9,10) r1(6,7) obtain s3 where
    o: "ether_raw_out n 0x0800 ha p ?s2 = Some (s3, NET_OK)" "buffer_ok s3 (q # ps)"
      "packet_bytes s3 p = frame_of ha (take 6 (hw_addr (ni_hwaddr (netifs s n)))) 0x0800 (packet_bytes s1 p)"
      "\<forall>r\<in>set (q # ps). r \<noteq> p \<longrightarrow> packet_bytes s3 r = packet_bytes s1 r"
      "ni_out_q (netifs s3 n) = ni_out_q (netifs s n) @ [q, p]" "same_above ?s2 s3"
    using s2(2) by (auto simp: can_send_def)
  have c3: "cache_tbl s3 = (cache_tbl s)(e := ?en2)" "cache_list s3 = e # cache_list s" using same_above_arp(1,3) [OF o(6)] c1(2) by simp_all
  have "cache_insert n ?pa ha True s1 = Some (s3, NET_OK)"
    using f1 c1 len assms(9) o(1)
    by (simp add: cache_insert_def cache_entry_set_def upd_entry_def to_scan_cnt_def cache_send_all_def Let_def)
  with run0 r1 o nq assms(2) c3 show ?thesis by auto
qed

definition with_arp :: "netif_state \<Rightarrow> arp_state" where
  "with_arp s = rt_state.extend
     (netif_state.extend s (rt_state.fields [0] [1..<32]
        (\<lambda>_. \<lparr>re_net = 0, re_mask = 0, re_mask_1_cnt = 0, re_next_hop = 0, re_netif = 0\<rparr>)))
     (arp_state.fields (\<lambda>_. zero_entry) [0..<50] [])"

lemma with_arp_simps [simp]:
  "pages (with_arp s) = pages s" "packets (with_arp s) = packets s" "page_pool (with_arp s) = page_pool s"
  "packet_pool (with_arp s) = packet_pool s" "netifs (with_arp s) = netifs s"
  "cache_list (with_arp s) = []" "arp_cache_pool (with_arp s) = [0..<50]" "rt_list (with_arp s) = [0]"
  "rt_table (with_arp s) 0 = \<lparr>re_net = 0, re_mask = 0, re_mask_1_cnt = 0, re_next_hop = 0, re_netif = 0\<rparr>"
  by (simp_all add: with_arp_def rt_state.extend_def netif_state.extend_def rt_state.fields_def arp_state.fields_def
      del: upt_rec_numeral)

lemma with_arp_ok [simp]:
  "buffer_ok (with_arp s) ps = buffer_ok s ps" "packet_bytes (with_arp s) q = packet_bytes s q" "arp_ok (with_arp s)"
  by (simp_all add: buffer_ok_def packet_ok_def packet_bytes_def owned_def arp_ok_def del: upt_rec_numeral)

theorem arp_resolution_delivers_witness:
  "\<exists>(s :: arp_state) s1 s2 q. arp_resolve 0 0x036EA8C0 0 s = Some (s1, NET_OK) \<and>
     cache_insert 0 (ipaddr_to_buf 0x036EA8C0) [1, 2, 3, 4, 5, 6] True s1 = Some (s2, NET_OK) \<and>
     ni_out_q (netifs s2 0) = [q, 0]"
proof -
  obtain s0 :: packet_state where s0: "buffer_ok s0 [0]" "length (page_pool s0) \<ge> 200"
    using sample_packet by blast
  let ?s = "with_arp (with_netifs s0)"
  have "card (set (packet_pool s0 @ [0])) = 256" using s0(1) by (simp add: buffer_ok_def)
  then have "packet_pool s0 \<noteq> []" by auto
  then have "\<exists>s1 q s2. arp_resolve 0 0x036EA8C0 0 ?s = Some (s1, NET_OK) \<and>
      cache_insert 0 (ipaddr_to_buf 0x036EA8C0) [1, 2, 3, 4, 5, 6] True s1 = Some (s2, NET_OK) \<and>
      ni_out_q (netifs s2 0) = [q, 0]"
    using arp_resolution_delivers [of ?s "[0]" 0 0 "0x036EA8C0" "[1, 2, 3, 4, 5, 6]"] s0
    by (auto simp: can_send_def eth0_def ether_broadcast_addr_def simp del: upt_rec_numeral)
  then show ?thesis by blast
qed

end
