(* ===== verification/Net_Link.thy ===== *)
theory Net_Link
  imports Net_Arp
begin

text \<open>
  The link layer as the network layer sees it: \<^verbatim>\<open>ether_open\<close>, \<^verbatim>\<open>ether_out\<close> and \<^verbatim>\<open>ether_init\<close> of
  \<^verbatim>\<open>src/stack/link/ether.c\<close>, \<^verbatim>\<open>netif_out\<close> and the activation of interfaces of
  \<^verbatim>\<open>src/stack/link/netif.c\<close>, \<^verbatim>\<open>loop_init\<close> of \<^verbatim>\<open>src/stack/link/loop.c\<close>.  The calls through the link
  layer table are calls of the Ethernet functions, the only ones registered.
\<close>

section \<open>Output\<close>

definition ether_open :: "addr \<Rightarrow> 'a netif_state_scheme \<Rightarrow> ('a netif_state_scheme \<times> net_err_t) option" where
  "ether_open n s = arp_make_gratuitous n s"

definition ether_out :: "addr \<Rightarrow> ipaddr_t \<Rightarrow> addr \<Rightarrow> 'a arp_state_scheme \<Rightarrow> ('a arp_state_scheme \<times> net_err_t) option" where
  "ether_out n ip p s =
     (if ipaddr_is_equal (ni_ipaddr (netifs s n)) ip
      then ether_raw_out n NET_PROTOCOL_IPv4 (hw_addr (ni_hwaddr (netifs s n))) p s
      else case arp_find n ip s of
             (s, Some hwaddr) \<Rightarrow> ether_raw_out n NET_PROTOCOL_IPv4 hwaddr p s
           | (s, None) \<Rightarrow> arp_resolve n ip p s)"

definition ether_init :: "'a netif_state_scheme \<Rightarrow> 'a netif_state_scheme \<times> net_err_t" where
  "ether_init s = netif_register_layer (netif_type_code NETIF_TYPE_ETHER) Ether_layer s"

definition netif_out :: "addr \<Rightarrow> ipaddr_t \<Rightarrow> addr \<Rightarrow> 'a arp_state_scheme \<Rightarrow> ('a arp_state_scheme \<times> net_err_t) option" where
  "netif_out n ip p s =
     (case ni_link_layer (netifs s n) of
        Some Ether_layer \<Rightarrow>
          do {
            (s, err) \<leftarrow> ether_out n ip p s;
            if net_err_neg err then Some (s, err) else Some (s, NET_OK)
          }
      | None \<Rightarrow>
          do {
            (s, err) \<leftarrow> netif_put_out n p (- 1) s;
            if net_err_neg err then Some (s, err) else ops_transmit n s
          })"

section \<open>Activation\<close>

definition netif_set_default :: "addr \<Rightarrow> 'a rt_state_scheme \<Rightarrow> 'a rt_state_scheme" where
  "netif_set_default n s =
     (let gateway = ni_gateway (netifs s n);
          s = (if \<not> ipaddr_is_any gateway
               then let s = (if netif_default s \<noteq> None then rt_remove ipaddr_get_any ipaddr_get_any s else s)
                    in rt_add ipaddr_get_any ipaddr_get_any gateway n s
               else s)
      in s\<lparr>netif_default := Some n\<rparr>)"

definition netif_set_active :: "addr \<Rightarrow> 'a rt_state_scheme \<Rightarrow> ('a rt_state_scheme \<times> net_err_t) option" where
  "netif_set_active n s =
     (if ni_state (netifs s n) \<noteq> NETIF_OPENED then Some (s, NET_ERR_STATE)
      else do {
        (s, err) \<leftarrow> (case ni_link_layer (netifs s n) of
                      None \<Rightarrow> Some (s, NET_OK)
                    | Some Ether_layer \<Rightarrow> ether_open n s);
        if net_err_neg err then Some (s, err)
        else do {
          let ip = ipaddr_get_net (ni_ipaddr (netifs s n)) (ni_netmask (netifs s n));
          let s = rt_add ip (ni_netmask (netifs s n)) ipaddr_get_any n s;
          (host, _) \<leftarrow> ipaddr_from_str (Some ip) (Some ''255.255.255.255'');
          host \<leftarrow> host;
          let s = rt_add (ni_ipaddr (netifs s n)) host ipaddr_get_any n s;
          let s = (if netif_default s = None \<and> ni_type (netifs s n) \<noteq> NETIF_TYPE_LOOP then netif_set_default n s else s);
          Some (upd_netif n (\<lambda>ni. ni\<lparr>ni_state := NETIF_ACTIVE\<rparr>) s, NET_OK)
        }
      })"

text \<open>\<^verbatim>\<open>netif_set_deactive\<close>; \<^verbatim>\<open>ether_close\<close> is empty.  The host route is removed with the network's mask.\<close>

definition netif_set_deactive :: "addr \<Rightarrow> 'a rt_state_scheme \<Rightarrow> 'a rt_state_scheme \<times> net_err_t" where
  "netif_set_deactive n s =
     (if ni_state (netifs s n) \<noteq> NETIF_ACTIVE then (s, NET_ERR_STATE)
      else
        let s = free_packets (ni_in_q (netifs s n)) s;
            s = upd_netif n (\<lambda>ni. ni\<lparr>ni_in_q := []\<rparr>) s;
            s = free_packets (ni_out_q (netifs s n)) s;
            s = upd_netif n (\<lambda>ni. ni\<lparr>ni_out_q := []\<rparr>) s;
            s = rt_remove (ipaddr_get_net (ni_ipaddr (netifs s n)) (ni_netmask (netifs s n))) (ni_netmask (netifs s n)) s;
            s = rt_remove (ni_ipaddr (netifs s n)) (ni_netmask (netifs s n)) s;
            s = (if netif_default s = Some n then s\<lparr>netif_default := None\<rparr> else s)
        in (upd_netif n (\<lambda>ni. ni\<lparr>ni_state := NETIF_OPENED\<rparr>) s, NET_OK))"

definition loop_init ::
  "(string \<Rightarrow> u8 list \<Rightarrow> bool) \<Rightarrow> net_err_t \<Rightarrow> net_err_t \<Rightarrow> 'a rt_state_scheme \<Rightarrow> ('a rt_state_scheme \<times> net_err_t) option" where
  "loop_init pcap_open in_err out_err s =
     do {
       (s, n) \<leftarrow> netif_open pcap_open in_err out_err ''loop'' Loop_driver No_data s;
       case n of
         None \<Rightarrow> Some (s, NET_ERR_NONE)
       | Some n \<Rightarrow>
           do {
             (ip, _) \<leftarrow> ipaddr_from_str (Some 0) (Some ''127.0.0.1'');
             (netmask, _) \<leftarrow> ipaddr_from_str (Some 0) (Some ''255.0.0.0'');
             let s = fst (netif_set_addr n ip netmask None s);
             (s, _) \<leftarrow> netif_set_active n s;
             Some (s, NET_OK)
           }
     }"

section \<open>Loopback and routes\<close>

lemma netif_put_in_ok:
  assumes "length (ni_in_q (netifs s n)) < 50"
  shows "\<exists>s'. netif_put_in n p (- 1) s = Some (s', NET_OK) \<and> ni_in_q (netifs s' n) = ni_in_q (netifs s n) @ [p] \<and>
    ni_out_q (netifs s' n) = ni_out_q (netifs s n) \<and> pages s' = pages s \<and> packets s' = packets s \<and>
    page_pool s' = page_pool s \<and> packet_pool s' = packet_pool s \<and>
    (msg_mem_pool s \<noteq> [] \<and> length (msg_queue s) < 10 \<longrightarrow>
       msg_queue s' = msg_queue s @ [hd (msg_mem_pool s)] \<and> msgs s' (hd (msg_mem_pool s)) = EXMSG_NETIF_IN n)"
proof (cases "msg_mem_pool s")
  case Nil
  with assms show ?thesis by (simp add: netif_put_in_def queue_send_def handler_netif_in_def upd_netif_def)
next
  case (Cons m r)
  with assms show ?thesis
    by (cases "length (msg_queue s) < 10")
      (simp_all add: netif_put_in_def queue_send_def handler_netif_in_def upd_netif_def pool_free_def Let_def)
qed

end
