(* ===== verification/Net_Ipv4.thy ===== *)
theory Net_Ipv4
  imports Net_Link
begin

text \<open>
  \<^verbatim>\<open>src/stack/network/ipv4.c\<close>: headers, output with fragmentation, and the reassembly of
  fragments.  The bit fields of the header share 16-bit words, as the unions of the source
  do; a header in memory is its 20 bytes, little endian as the processor stores them, and
  \<^verbatim>\<open>iphdr_htons\<close> swaps the multi-byte fields.  Fragments of one datagram wait, in the order of
  their offsets, on an \<^verbatim>\<open>ip_frag_t\<close>.

  \<^verbatim>\<open>ip_frag_out\<close> does not end when the interface takes less than eight bytes per packet, so
  its loop is a partial function.  The scan of the reassembly timer remembers the next
  entry before it handles one and removes only the one it handles.
\<close>

section \<open>Headers\<close>

abbreviation (input) IP_HDR_SIZE :: nat where "IP_HDR_SIZE \<equiv> 20"
abbreviation (input) NET_VERSION_IPV4 :: u16 where "NET_VERSION_IPV4 \<equiv> 4"
abbreviation (input) NET_IP_DEF_TTL :: u8 where "NET_IP_DEF_TTL \<equiv> 64"
abbreviation (input) IP_FRAGS_MAX_NR :: nat where "IP_FRAGS_MAX_NR \<equiv> 16"
abbreviation (input) IP_FRAG_MAX_BUF_NR :: nat where "IP_FRAG_MAX_BUF_NR \<equiv> 16"
abbreviation (input) IP_FRAG_SCAN_PERIOD :: int where "IP_FRAG_SCAN_PERIOD \<equiv> 1"
abbreviation (input) NET_PROTOCOL_ICMPv4 :: u8 where "NET_PROTOCOL_ICMPv4 \<equiv> 1"
abbreviation (input) NET_PROTOCOL_TCP :: u8 where "NET_PROTOCOL_TCP \<equiv> 6"
abbreviation (input) NET_PROTOCOL_UDP :: u8 where "NET_PROTOCOL_UDP \<equiv> 17"

text \<open>The address of the timer in the timers' store.\<close>

abbreviation (input) frag_timer :: addr where "frag_timer \<equiv> 1"

record ipv4_hdr_t =
  ip_shdr_all :: u16
  ip_total_len :: u16
  ip_id :: u16
  ip_frag_all :: u16
  ip_ttl :: u8
  ip_protocol :: u8
  ip_hdr_checksum :: u16
  ip_src_ip :: "u8 list"
  ip_dest_ip :: "u8 list"

definition ipv4_hdr_bytes :: "ipv4_hdr_t \<Rightarrow> u8 list" where
  "ipv4_hdr_bytes h =
     le16_bytes (ip_shdr_all h) @ le16_bytes (ip_total_len h) @ le16_bytes (ip_id h) @ le16_bytes (ip_frag_all h) @
     [ip_ttl h, ip_protocol h] @ le16_bytes (ip_hdr_checksum h) @ ip_src_ip h @ ip_dest_ip h"

definition ipv4_hdr_of :: "u8 list \<Rightarrow> ipv4_hdr_t" where
  "ipv4_hdr_of bs =
     \<lparr>ip_shdr_all = le16 (bs ! 0) (bs ! 1), ip_total_len = le16 (bs ! 2) (bs ! 3), ip_id = le16 (bs ! 4) (bs ! 5),
      ip_frag_all = le16 (bs ! 6) (bs ! 7), ip_ttl = bs ! 8, ip_protocol = bs ! 9,
      ip_hdr_checksum = le16 (bs ! 10) (bs ! 11), ip_src_ip = take 4 (drop 12 bs), ip_dest_ip = take 4 (drop 16 bs)\<rparr>"

text \<open>The bit fields.\<close>

definition ip_shdr :: "ipv4_hdr_t \<Rightarrow> u16" where
  "ip_shdr h = take_bit 4 (ip_shdr_all h)"

definition ip_version :: "ipv4_hdr_t \<Rightarrow> u16" where
  "ip_version h = take_bit 4 (drop_bit 4 (ip_shdr_all h))"

definition ip_offset :: "ipv4_hdr_t \<Rightarrow> u16" where
  "ip_offset h = take_bit 13 (ip_frag_all h)"

definition ip_more :: "ipv4_hdr_t \<Rightarrow> bool" where
  "ip_more h = bit (ip_frag_all h) 13"

definition set_version :: "u16 \<Rightarrow> ipv4_hdr_t \<Rightarrow> ipv4_hdr_t" where
  "set_version v h = h\<lparr>ip_shdr_all := (ip_shdr_all h AND NOT 0xF0) OR push_bit 4 (take_bit 4 v)\<rparr>"

definition set_header_size :: "int \<Rightarrow> ipv4_hdr_t \<Rightarrow> ipv4_hdr_t" where
  "set_header_size sz h = h\<lparr>ip_shdr_all := (ip_shdr_all h AND NOT 0xF) OR take_bit 4 (of_int (sz div 4))\<rparr>"

definition set_offset :: "u16 \<Rightarrow> ipv4_hdr_t \<Rightarrow> ipv4_hdr_t" where
  "set_offset v h = h\<lparr>ip_frag_all := (ip_frag_all h AND NOT 0x1FFF) OR take_bit 13 v\<rparr>"

definition set_more :: "bool \<Rightarrow> ipv4_hdr_t \<Rightarrow> ipv4_hdr_t" where
  "set_more m h = h\<lparr>ip_frag_all := (ip_frag_all h AND NOT 0x2000) OR push_bit 13 (of_bool m)\<rparr>"

definition ipv4_hdr_size :: "ipv4_hdr_t \<Rightarrow> int" where
  "ipv4_hdr_size h = uint (ip_shdr h) * 4"

definition get_frag_start :: "ipv4_hdr_t \<Rightarrow> u16" where
  "get_frag_start h = ip_offset h * 8"

definition get_data_size :: "ipv4_hdr_t \<Rightarrow> int" where
  "get_data_size h = uint (ip_total_len h) - ipv4_hdr_size h"

definition get_frag_end :: "ipv4_hdr_t \<Rightarrow> u16" where
  "get_frag_end h = get_frag_start h + of_int (get_data_size h)"

definition iphdr_ntohs :: "ipv4_hdr_t \<Rightarrow> ipv4_hdr_t" where
  "iphdr_ntohs h = h\<lparr>ip_total_len := swap_u16 (ip_total_len h), ip_id := swap_u16 (ip_id h), ip_frag_all := swap_u16 (ip_frag_all h)\<rparr>"

definition iphdr_htons :: "ipv4_hdr_t \<Rightarrow> ipv4_hdr_t" where
  "iphdr_htons h = h\<lparr>ip_total_len := swap_u16 (ip_total_len h), ip_id := swap_u16 (ip_id h), ip_frag_all := swap_u16 (ip_frag_all h)\<rparr>"

text \<open>The header at a pointer; the header of a packet.\<close>

definition read_ipv4_hdr :: "dptr \<Rightarrow> 'a packet_state_scheme \<Rightarrow> ipv4_hdr_t option" where
  "read_ipv4_hdr d s = map_option ipv4_hdr_of (mem_read d 0 IP_HDR_SIZE s)"

definition packet_ipv4_hdr :: "addr \<Rightarrow> 'a packet_state_scheme \<Rightarrow> ipv4_hdr_t option" where
  "packet_ipv4_hdr p s = Option.bind (packet_ptr p s) (\<lambda>d. read_ipv4_hdr d s)"

text \<open>
  \<^verbatim>\<open>validate_ipv4_pkt\<close>.  The checksum is computed over the header length the packet claims,
  read from the pointer on; only the fixed part is known to be in the first page.
\<close>

definition validate_ipv4_pkt :: "dptr \<Rightarrow> int \<Rightarrow> 'a packet_state_scheme \<Rightarrow> net_err_t option" where
  "validate_ipv4_pkt d sz s =
     do {
       h \<leftarrow> read_ipv4_hdr d s;
       if ip_version h \<noteq> NET_VERSION_IPV4 then Some NET_ERR_NOT_SUPPORT
       else do {
         let hdr_len = ipv4_hdr_size h;
         if hdr_len < int IP_HDR_SIZE then Some NET_ERR_SIZE
         else do {
           let tot = uint (swap_u16 (ip_total_len h));
           if tot < int IP_HDR_SIZE \<or> sz < tot then Some NET_ERR_SIZE
           else if ip_hdr_checksum h \<noteq> 0
           then do {
             bs \<leftarrow> mem_read d 0 (nat hdr_len) s;
             c \<leftarrow> checksum16 0 bs (of_int hdr_len) 0 True;
             Some (if c \<noteq> 0 then NET_ERR_BROKEN else NET_OK)
           }
           else Some NET_OK
         }
       }
     }"

section \<open>Reassembly\<close>

record ip_frag_t =
  fr_ip :: ipaddr_t
  fr_id :: u16
  fr_tmo :: int
  fr_buf_list :: "addr list"

record ipv4_state = arp_state +
  packet_id :: u16
  frag_array :: "addr \<Rightarrow> ip_frag_t"
  frag_pool :: "addr list"
  frag_list :: "addr list"

definition upd_frag :: "addr \<Rightarrow> (ip_frag_t \<Rightarrow> ip_frag_t) \<Rightarrow> 'a ipv4_state_scheme \<Rightarrow> 'a ipv4_state_scheme" where
  "upd_frag f g s = s\<lparr>frag_array := (frag_array s)(f := g (frag_array s f))\<rparr>"

definition frag_free_buf_list :: "addr \<Rightarrow> 'a ipv4_state_scheme \<Rightarrow> 'a ipv4_state_scheme" where
  "frag_free_buf_list f s = upd_frag f (\<lambda>fr. fr\<lparr>fr_buf_list := []\<rparr>) (free_packets (fr_buf_list (frag_array s f)) s)"

definition frag_free :: "addr \<Rightarrow> 'a ipv4_state_scheme \<Rightarrow> 'a ipv4_state_scheme" where
  "frag_free f s =
     (let s = frag_free_buf_list f s
      in s\<lparr>frag_list := remove1 f (frag_list s), frag_pool := pool_free (frag_pool s) f\<rparr>)"

definition frag_alloc :: "'a ipv4_state_scheme \<Rightarrow> 'a ipv4_state_scheme \<times> ptr" where
  "frag_alloc s =
     (case pool_alloc (frag_pool s) of
        (pool, Some f) \<Rightarrow> (s\<lparr>frag_pool := pool\<rparr>, Some f)
      | (pool, None) \<Rightarrow>
          (case last_ptr (frag_list s) of
             None \<Rightarrow> (s\<lparr>frag_pool := pool\<rparr>, None)
           | Some f \<Rightarrow> (frag_free_buf_list f (s\<lparr>frag_pool := pool, frag_list := butlast (frag_list s)\<rparr>), Some f)))"

fun frag_scan :: "(addr \<Rightarrow> ip_frag_t) \<Rightarrow> ipaddr_t \<Rightarrow> u16 \<Rightarrow> addr list \<Rightarrow> ptr" where
  "frag_scan t ip i [] = None"
| "frag_scan t ip i (f # fs) =
     (if ipaddr_is_equal ip (fr_ip (t f)) \<and> i = fr_id (t f) then Some f else frag_scan t ip i fs)"

definition frag_find :: "ipaddr_t \<Rightarrow> u16 \<Rightarrow> 'a ipv4_state_scheme \<Rightarrow> 'a ipv4_state_scheme \<times> ptr" where
  "frag_find ip i s =
     (case frag_scan (frag_array s) ip i (frag_list s) of
        None \<Rightarrow> (s, None)
      | Some f \<Rightarrow> (s\<lparr>frag_list := f # remove1 f (frag_list s)\<rparr>, Some f))"

definition frag_add :: "addr \<Rightarrow> ipaddr_t \<Rightarrow> u16 \<Rightarrow> 'a ipv4_state_scheme \<Rightarrow> 'a ipv4_state_scheme" where
  "frag_add f ip i s =
     (let s = upd_frag f (\<lambda>_. \<lparr>fr_ip = ip, fr_id = i, fr_tmo = 0, fr_buf_list = []\<rparr>) s
      in s\<lparr>frag_list := f # frag_list s\<rparr>)"

text \<open>The scan of \<^verbatim>\<open>frag_insert\<close> over the rest of the list, with the new rest as result.\<close>

fun frag_insert_loop ::
  "'a packet_state_scheme \<Rightarrow> ipv4_hdr_t \<Rightarrow> addr \<Rightarrow> addr list \<Rightarrow> (addr list \<times> net_err_t) option" where
  "frag_insert_loop s h buf [] = Some ([buf], NET_OK)"
| "frag_insert_loop s h buf (c # cs) =
     do {
       ch \<leftarrow> packet_ipv4_hdr c s;
       let curr_start = get_frag_start ch;
       if get_frag_start h = curr_start then Some (c # cs, NET_ERR_EXIST)
       else if get_frag_end h \<le> curr_start then Some (buf # c # cs, NET_OK)
       else map_option (\<lambda>(l, err). (c # l, err)) (frag_insert_loop s h buf cs)
     }"

definition frag_insert :: "addr \<Rightarrow> addr \<Rightarrow> ipv4_hdr_t \<Rightarrow> 'a ipv4_state_scheme \<Rightarrow> ('a ipv4_state_scheme \<times> net_err_t) option" where
  "frag_insert f buf h s =
     (if length (fr_buf_list (frag_array s f)) \<ge> IP_FRAG_MAX_BUF_NR then Some (frag_free f s, NET_ERR_FULL)
      else do {
        (l, err) \<leftarrow> frag_insert_loop s h buf (fr_buf_list (frag_array s f));
        Some (upd_frag f (\<lambda>fr. fr\<lparr>fr_buf_list := l\<rparr>) s, err)
      })"

fun frag_arrived_loop :: "'a packet_state_scheme \<Rightarrow> int \<Rightarrow> bool \<Rightarrow> addr list \<Rightarrow> bool option" where
  "frag_arrived_loop s offset complete [] = Some complete"
| "frag_arrived_loop s offset complete (c # cs) =
     do {
       h \<leftarrow> packet_ipv4_hdr c s;
       if uint (get_frag_start h) \<noteq> offset then Some False
       else frag_arrived_loop s (offset + get_data_size h) (\<not> ip_more h) cs
     }"

definition frag_is_all_arrived :: "addr \<Rightarrow> 'a ipv4_state_scheme \<Rightarrow> bool option" where
  "frag_is_all_arrived f s = frag_arrived_loop s 0 False (fr_buf_list (frag_array s f))"

text \<open>The loop of \<^verbatim>\<open>frag_join\<close> behind the first fragment; \<^term>\<open>False\<close> is the error exit.\<close>

fun frag_join_loop :: "addr \<Rightarrow> addr \<Rightarrow> addr list \<Rightarrow> 'a ipv4_state_scheme \<Rightarrow> ('a ipv4_state_scheme \<times> bool) option" where
  "frag_join_loop f target [] s = Some (s, True)"
| "frag_join_loop f target (c # cs) s =
     do {
       let s = upd_frag f (\<lambda>fr. fr\<lparr>fr_buf_list := cs\<rparr>) s;
       h \<leftarrow> packet_ipv4_hdr c s;
       (s, err) \<leftarrow> packet_remove_header c (ipv4_hdr_size h) s;
       if net_err_neg err then Some (packet_free c s, False)
       else do {
         (s, err) \<leftarrow> packet_join target c s;
         if net_err_neg err then Some (packet_free c s, False)
         else frag_join_loop f target cs s
       }
     }"

definition frag_join :: "addr \<Rightarrow> 'a ipv4_state_scheme \<Rightarrow> ('a ipv4_state_scheme \<times> ptr) option" where
  "frag_join f s =
     (case fr_buf_list (frag_array s f) of
        [] \<Rightarrow> Some (frag_free f s, None)
      | target # cs \<Rightarrow>
          do {
            (s, joined) \<leftarrow> frag_join_loop f target cs (upd_frag f (\<lambda>fr. fr\<lparr>fr_buf_list := cs\<rparr>) s);
            if joined then Some (frag_free f s, Some target)
            else Some (frag_free f (packet_free target s), None)
          })"

fun frag_tmo_loop :: "addr list \<Rightarrow> 'a ipv4_state_scheme \<Rightarrow> 'a ipv4_state_scheme" where
  "frag_tmo_loop [] s = s"
| "frag_tmo_loop (f # fs) s =
     (let s = upd_frag f (\<lambda>fr. fr\<lparr>fr_tmo := fr_tmo fr - 1\<rparr>) s
      in frag_tmo_loop fs (if fr_tmo (frag_array s f) \<le> 0 then frag_free f s else s))"

definition frag_tmo :: "'a ipv4_state_scheme \<Rightarrow> 'a ipv4_state_scheme" where
  "frag_tmo s = frag_tmo_loop (frag_list s) s"

definition frag_init :: "'a ipv4_state_scheme \<Rightarrow> ('a ipv4_state_scheme \<times> net_err_t) option" where
  "frag_init s =
     do {
       (s, err) \<leftarrow> net_timer_add frag_timer ''frag timer'' FRAG_TMO 0 (IP_FRAG_SCAN_PERIOD * 1000) NET_TIMER_RELOAD
                    (s\<lparr>frag_list := [], frag_pool := [0..<IP_FRAGS_MAX_NR]\<rparr>);
       if net_err_neg err then Some (s, err) else Some (s, NET_OK)
     }"

definition ipv4_init :: "'a ipv4_state_scheme \<Rightarrow> ('a ipv4_state_scheme \<times> net_err_t) option" where
  "ipv4_init s =
     do {
       (s, err) \<leftarrow> frag_init s;
       if net_err_neg err then Some (s, err) else Some (rt_init s, NET_OK)
     }"

section \<open>Output\<close>

text \<open>The header both output paths build, in host order and without fragment fields or checksum.\<close>

definition ipv4_out_hdr :: "u8 \<Rightarrow> ipaddr_t \<Rightarrow> ipaddr_t option \<Rightarrow> ipaddr_t \<Rightarrow> int \<Rightarrow> u16 \<Rightarrow> ipv4_hdr_t" where
  "ipv4_out_hdr protocol dest src netif_ip tot i =
     set_header_size (int IP_HDR_SIZE) (set_version NET_VERSION_IPV4
       \<lparr>ip_shdr_all = 0, ip_total_len = of_int tot, ip_id = i, ip_frag_all = 0, ip_ttl = NET_IP_DEF_TTL,
        ip_protocol = protocol, ip_hdr_checksum = 0,
        ip_src_ip = ipaddr_to_buf (case src of None \<Rightarrow> netif_ip | Some a \<Rightarrow> if ipaddr_is_any a then netif_ip else a),
        ip_dest_ip = ipaddr_to_buf dest\<rparr>)"

text \<open>The header checksum, computed from the packet and stored in the header.\<close>

definition put_hdr_checksum :: "addr \<Rightarrow> dptr \<Rightarrow> ipv4_hdr_t \<Rightarrow> 'a packet_state_scheme \<Rightarrow> 'a packet_state_scheme option" where
  "put_hdr_checksum p d h s =
     do {
       (s, c) \<leftarrow> packet_checksum16 p (ipv4_hdr_size h) 0 True s;
       mem_write d 10 (le16_bytes c) s
     }"

text \<open>The size of the next fragment, and one round of the loop of \<^verbatim>\<open>ip_frag_out\<close>.\<close>

definition frag_size :: "int \<Rightarrow> int \<Rightarrow> int" where
  "frag_size mtu tot =
     (let curr_size = (if mtu \<ge> int IP_HDR_SIZE \<and> tot > mtu - int IP_HDR_SIZE then mtu - int IP_HDR_SIZE else tot)
      in if curr_size < tot then curr_size - curr_size mod 8 else curr_size)"

definition frag_out_one ::
  "u8 \<Rightarrow> ipaddr_t \<Rightarrow> ipaddr_t option \<Rightarrow> addr \<Rightarrow> ipaddr_t \<Rightarrow> addr \<Rightarrow> int \<Rightarrow> int \<Rightarrow> bool \<Rightarrow> 'a ipv4_state_scheme \<Rightarrow>
   ('a ipv4_state_scheme \<times> net_err_t) option" where
  "frag_out_one protocol dest src buf next n offset curr_size mf s =
     (case packet_alloc (curr_size + int IP_HDR_SIZE) s of
        (s, None) \<Rightarrow> Some (s, NET_ERR_MEM)
      | (s, Some dest_buf) \<Rightarrow>
          do {
            d \<leftarrow> packet_ptr dest_buf s;
            let h = set_more mf (set_offset (of_int (offset div 8))
                      (ipv4_out_hdr protocol dest src (ni_ipaddr (netifs s n)) (total_size (packets s dest_buf)) (packet_id s)));
            s \<leftarrow> mem_write d 0 (ipv4_hdr_bytes h) s;
            (s, _) \<leftarrow> packet_seek dest_buf (int IP_HDR_SIZE) s;
            (s, err) \<leftarrow> packet_copy dest_buf buf curr_size s;
            if net_err_neg err then Some (packet_free dest_buf s, err)
            else do {
              (s, _) \<leftarrow> packet_remove_header buf curr_size s;
              s \<leftarrow> mem_write d 0 (ipv4_hdr_bytes (iphdr_htons h)) (packet_reset_pos (Some buf) s);
              (s, _) \<leftarrow> packet_seek dest_buf 0 s;
              s \<leftarrow> put_hdr_checksum dest_buf d h s;
              (s, err) \<leftarrow> netif_out n next dest_buf s;
              if net_err_neg err then Some (packet_free dest_buf s, err) else Some (s, NET_OK)
            }
          })"

partial_function (option) frag_out_loop ::
  "u8 \<Rightarrow> ipaddr_t \<Rightarrow> ipaddr_t option \<Rightarrow> addr \<Rightarrow> ipaddr_t \<Rightarrow> addr \<Rightarrow> int \<Rightarrow> int \<Rightarrow> 'a ipv4_state_scheme \<Rightarrow>
   ('a ipv4_state_scheme \<times> net_err_t) option" where
  "frag_out_loop protocol dest src buf next n offset tot s =
     (if tot = 0 then Some (s, NET_OK)
      else let curr_size = frag_size (ni_mtu (netifs s n)) tot
           in Option.bind (frag_out_one protocol dest src buf next n offset curr_size (tot > curr_size) s)
                (\<lambda>(s, err). if net_err_neg err then Some (s, err)
                   else frag_out_loop protocol dest src buf next n (offset + curr_size) (tot - curr_size) s))"

definition ip_frag_out ::
  "u8 \<Rightarrow> ipaddr_t \<Rightarrow> ipaddr_t option \<Rightarrow> addr \<Rightarrow> ipaddr_t \<Rightarrow> addr \<Rightarrow> 'a ipv4_state_scheme \<Rightarrow> ('a ipv4_state_scheme \<times> net_err_t) option" where
  "ip_frag_out protocol dest src buf next n s =
     do {
       let s = packet_reset_pos (Some buf) s;
       (s, err) \<leftarrow> frag_out_loop protocol dest src buf next n 0 (total_size (packets s buf)) s;
       if net_err_neg err then Some (s, err)
       else Some (packet_free buf (s\<lparr>packet_id := packet_id s + 1\<rparr>), NET_OK)
     }"

definition ipv4_out ::
  "u8 \<Rightarrow> ipaddr_t \<Rightarrow> ipaddr_t option \<Rightarrow> addr \<Rightarrow> 'a ipv4_state_scheme \<Rightarrow> ('a ipv4_state_scheme \<times> net_err_t) option" where
  "ipv4_out protocol dest src p s =
     (case rt_find dest s of
        None \<Rightarrow> Some (s, NET_ERR_UNREACH)
      | Some e \<Rightarrow>
          do {
            let rt = rt_table s e;
            let n = re_netif rt;
            let next_hop = (if ipaddr_is_any (re_next_hop rt) then dest else re_next_hop rt);
            let mtu = ni_mtu (netifs s n);
            if mtu \<noteq> 0 \<and> total_size (packets s p) + int IP_HDR_SIZE > mtu
            then do {
              (s, err) \<leftarrow> ip_frag_out protocol dest src p next_hop n s;
              if net_err_neg err then Some (s, err) else Some (s, NET_OK)
            }
            else do {
              (s, err) \<leftarrow> packet_add_header p (int IP_HDR_SIZE) True s;
              if net_err_neg err then Some (s, NET_ERR_SIZE)
              else do {
                d \<leftarrow> packet_ptr p s;
                let h = ipv4_out_hdr protocol dest src (ni_ipaddr (netifs s n)) (total_size (packets s p)) (packet_id s);
                s \<leftarrow> mem_write d 0 (ipv4_hdr_bytes (iphdr_htons h)) (s\<lparr>packet_id := packet_id s + 1\<rparr>);
                s \<leftarrow> put_hdr_checksum p d h (packet_reset_pos (Some p) s);
                (s, err) \<leftarrow> netif_out n next_hop p s;
                if net_err_neg err then Some (s, err) else Some (s, NET_OK)
              }
            }
          })"

section \<open>A state for the concrete instances\<close>

definition with_ipv4 :: "arp_state \<Rightarrow> ipv4_state" where
  "with_ipv4 s = arp_state.extend s (ipv4_state.fields 0 (\<lambda>_. \<lparr>fr_ip = 0, fr_id = 0, fr_tmo = 0, fr_buf_list = []\<rparr>) [1..<16] [0])"

lemma with_ipv4_simps [simp]:
  "pages (with_ipv4 s) = pages s" "packets (with_ipv4 s) = packets s" "page_pool (with_ipv4 s) = page_pool s"
  "packet_pool (with_ipv4 s) = packet_pool s" "netifs (with_ipv4 s) = netifs s" "rt_list (with_ipv4 s) = rt_list s"
  "rt_table (with_ipv4 s) = rt_table s" "cache_list (with_ipv4 s) = cache_list s" "arp_cache_pool (with_ipv4 s) = arp_cache_pool s"
  "msg_queue (with_ipv4 s) = msg_queue s" "msg_mem_pool (with_ipv4 s) = msg_mem_pool s"
  "packet_id (with_ipv4 s) = 0" "frag_array (with_ipv4 s) f = \<lparr>fr_ip = 0, fr_id = 0, fr_tmo = 0, fr_buf_list = []\<rparr>"
  by (simp_all add: with_ipv4_def arp_state.extend_def ipv4_state.fields_def del: upt_rec_numeral)

lemma with_ipv4_ok [simp]: "buffer_ok (with_ipv4 s) ps = buffer_ok s ps" "packet_bytes (with_ipv4 s) q = packet_bytes s q"
  by (simp_all add: buffer_ok_def packet_ok_def packet_bytes_def owned_def)

end
