(* ===== verification/Net_Sock.thy ===== *)
theory Net_Sock
  imports Net_Ipv4
begin

text \<open>
  The socket base of \<^verbatim>\<open>src/api/sock.c\<close>: what raw, UDP and TCP sockets share.  A \<^verbatim>\<open>sock_t\<close> is
  the first member of a \<^verbatim>\<open>raw_t\<close>, \<^verbatim>\<open>udp_t\<close> or \<^verbatim>\<open>tcp_t\<close>, so its address says which table it
  lies in and at which index; a \<^verbatim>\<open>sock_wait_t\<close> is a member of such an object, found by the
  object and its role.  The table of operations is one of three constants.

  Whether the platform can create the semaphore of a wait object is an input, kept in the
  state as \<open>os_sem_ok\<close> and never changed.  The count of a semaphore is the number of wakeups
  not yet consumed; using a semaphore that is freed or was never created has no defined
  result.
\<close>

section \<open>Data\<close>

datatype sock_addr = Raw_sock addr | Udp_sock addr | Tcp_sock addr

datatype wait_kind = Snd_wait | Rcv_wait | Conn_wait

type_synonym wait_addr = "sock_addr \<times> wait_kind"

datatype sys_sem_t = Sem_invalid | Sem_freed | Sem int

record sock_wait_t =
  w_err :: net_err_t
  w_waiting :: int
  w_sem :: sys_sem_t

datatype sock_ops_t = Raw_ops | Udp_ops | Tcp_ops

record sock_t =
  so_local_ip :: ipaddr_t
  so_remote_ip :: ipaddr_t
  so_local_port :: u16
  so_remote_port :: u16
  so_ops :: sock_ops_t
  so_family :: int
  so_protocol :: int
  so_err :: net_err_t
  so_rcv_tmo :: int
  so_snd_tmo :: int
  so_snd_wait :: "wait_addr option"
  so_rcv_wait :: "wait_addr option"
  so_conn_wait :: "wait_addr option"

text \<open>\<^verbatim>\<open>struct x_sockaddr_in\<close>; the port is in network order, the address four bytes.\<close>

record x_sockaddr_in =
  sin_family :: u8
  sin_port :: u16
  sin_addr :: "u8 list"

datatype socket_st = SOCKET_STATE_FREE | SOCKET_STATE_USED

record x_socket_t =
  sk_state :: socket_st
  sk_sock :: "sock_addr option"

record sock_state = ipv4_state +
  socks :: "sock_addr \<Rightarrow> sock_t"
  waits :: "wait_addr \<Rightarrow> sock_wait_t"
  socket_tbl :: "x_socket_t list"
  os_sem_ok :: "wait_addr \<Rightarrow> bool"

abbreviation (input) SOCKET_MAX_NR :: nat where "SOCKET_MAX_NR \<equiv> 10"
abbreviation (input) AF_INET :: u8 where "AF_INET \<equiv> 0"
abbreviation (input) SOL_SOCKET :: int where "SOL_SOCKET \<equiv> 0"
abbreviation (input) SOL_TCP :: int where "SOL_TCP \<equiv> 1"
abbreviation (input) SO_RCVTIMEO :: int where "SO_RCVTIMEO \<equiv> 1"
abbreviation (input) SO_SNDTIMEO :: int where "SO_SNDTIMEO \<equiv> 2"
abbreviation (input) NET_PORT_EMPTY :: u16 where "NET_PORT_EMPTY \<equiv> 0"
abbreviation (input) NET_PORT_DYN_START :: int where "NET_PORT_DYN_START \<equiv> 1024"
abbreviation (input) NET_PORT_DYN_END :: int where "NET_PORT_DYN_END \<equiv> 65535"

definition upd_sock :: "sock_addr \<Rightarrow> (sock_t \<Rightarrow> sock_t) \<Rightarrow> 'a sock_state_scheme \<Rightarrow> 'a sock_state_scheme" where
  "upd_sock a f s = s\<lparr>socks := (socks s)(a := f (socks s a))\<rparr>"

definition upd_wait :: "wait_addr \<Rightarrow> (sock_wait_t \<Rightarrow> sock_wait_t) \<Rightarrow> 'a sock_state_scheme \<Rightarrow> 'a sock_state_scheme" where
  "upd_wait w f s = s\<lparr>waits := (waits s)(w := f (waits s w))\<rparr>"

section \<open>The table of descriptors\<close>

definition get_socket :: "int \<Rightarrow> 'a sock_state_scheme \<Rightarrow> nat option" where
  "get_socket idx s = (if idx < 0 \<or> idx \<ge> int SOCKET_MAX_NR then None else Some (nat idx))"

text \<open>The scan of \<^verbatim>\<open>socket_alloc\<close> from index \<open>i\<close> on.\<close>

fun free_socket :: "nat \<Rightarrow> x_socket_t list \<Rightarrow> nat option" where
  "free_socket i [] = None"
| "free_socket i (k # ks) = (if sk_state k = SOCKET_STATE_FREE then Some i else free_socket (Suc i) ks)"

definition socket_alloc :: "'a sock_state_scheme \<Rightarrow> 'a sock_state_scheme \<times> nat option" where
  "socket_alloc s =
     (case free_socket 0 (socket_tbl s) of
        None \<Rightarrow> (s, None)
      | Some i \<Rightarrow> (s\<lparr>socket_tbl := (socket_tbl s)[i := (socket_tbl s ! i)\<lparr>sk_state := SOCKET_STATE_USED\<rparr>]\<rparr>, Some i))"

definition socket_free :: "nat \<Rightarrow> 'a sock_state_scheme \<Rightarrow> 'a sock_state_scheme" where
  "socket_free i s = s\<lparr>socket_tbl := (socket_tbl s)[i := (socket_tbl s ! i)\<lparr>sk_state := SOCKET_STATE_FREE\<rparr>]\<rparr>"

section \<open>Waiting and waking\<close>

definition sock_wait_init :: "wait_addr \<Rightarrow> 'a sock_state_scheme \<Rightarrow> 'a sock_state_scheme \<times> net_err_t" where
  "sock_wait_init w s =
     (let s = upd_wait w (\<lambda>x. x\<lparr>w_waiting := 0, w_sem := (if os_sem_ok s w then Sem 0 else Sem_invalid)\<rparr>) s
      in (s, if w_sem (waits s w) = Sem_invalid then NET_ERR_SYS else NET_OK))"

definition sock_wait_destroy :: "wait_addr \<Rightarrow> 'a sock_state_scheme \<Rightarrow> 'a sock_state_scheme option" where
  "sock_wait_destroy w s =
     (case w_sem (waits s w) of
        Sem_invalid \<Rightarrow> Some s
      | Sem_freed \<Rightarrow> None
      | Sem _ \<Rightarrow> Some (upd_wait w (\<lambda>x. x\<lparr>w_sem := Sem_freed\<rparr>) s))"

text \<open>
  \<^verbatim>\<open>sock_wait_enter\<close> as the calling thread sees it: it takes a wakeup that is there and
  returns the result stored with it; without one it times out or stays blocked.
\<close>

definition sock_wait_enter :: "wait_addr \<Rightarrow> int \<Rightarrow> 'a sock_state_scheme \<Rightarrow> ('a sock_state_scheme \<times> net_err_t) option" where
  "sock_wait_enter w tmo s =
     (case w_sem (waits s w) of
        Sem cnt \<Rightarrow>
          (case sys_sem_wait cnt tmo of
             SemTaken cnt \<Rightarrow> Some (upd_wait w (\<lambda>x. x\<lparr>w_sem := Sem cnt\<rparr>) s, w_err (waits s w))
           | SemTimeout \<Rightarrow> Some (s, NET_ERR_TIMEOUT)
           | SemBlocked \<Rightarrow> None)
      | _ \<Rightarrow> None)"

text \<open>\<^verbatim>\<open>sock_wait_add\<close> tells the requester what to wait on and for how long.\<close>

definition sock_wait_add ::
  "wait_addr \<Rightarrow> int \<Rightarrow> 'a sock_state_scheme \<Rightarrow> 'a sock_state_scheme \<times> (wait_addr \<times> int) option" where
  "sock_wait_add w tmo s = (upd_wait w (\<lambda>x. x\<lparr>w_waiting := w_waiting x + 1\<rparr>) s, Some (w, tmo))"

definition sock_wait_leave :: "wait_addr \<Rightarrow> net_err_t \<Rightarrow> 'a sock_state_scheme \<Rightarrow> 'a sock_state_scheme option" where
  "sock_wait_leave w err s =
     (if w_waiting (waits s w) > 0
      then case w_sem (waits s w) of
             Sem cnt \<Rightarrow> Some (upd_wait w (\<lambda>x. x\<lparr>w_waiting := w_waiting x - 1, w_err := err, w_sem := Sem (sys_sem_notify cnt)\<rparr>) s)
           | _ \<Rightarrow> None
      else Some s)"

text \<open>
  \<^verbatim>\<open>sock_wakeup\<close>; the kinds are the bits of its argument.  The pointers to the wait objects
  are followed without a test.
\<close>

definition wake_one :: "bool \<Rightarrow> wait_addr option \<Rightarrow> net_err_t \<Rightarrow> 'a sock_state_scheme \<Rightarrow> 'a sock_state_scheme option" where
  "wake_one wanted w err s = (if wanted then Option.bind w (\<lambda>w. sock_wait_leave w err s) else Some s)"

definition sock_wakeup :: "sock_addr \<Rightarrow> wait_kind set \<Rightarrow> net_err_t \<Rightarrow> 'a sock_state_scheme \<Rightarrow> 'a sock_state_scheme option" where
  "sock_wakeup a kinds err s =
     do {
       s \<leftarrow> wake_one (Conn_wait \<in> kinds) (so_conn_wait (socks s a)) err s;
       s \<leftarrow> wake_one (Snd_wait \<in> kinds) (so_snd_wait (socks s a)) err s;
       s \<leftarrow> wake_one (Rcv_wait \<in> kinds) (so_rcv_wait (socks s a)) err s;
       Some (upd_sock a (\<lambda>k. k\<lparr>so_err := err\<rparr>) s)
     }"

abbreviation (input) SOCK_WAIT_ALL :: "wait_kind set" where "SOCK_WAIT_ALL \<equiv> {Conn_wait, Rcv_wait, Snd_wait}"

section \<open>Life of a socket\<close>

definition sock_init :: "sock_addr \<Rightarrow> int \<Rightarrow> int \<Rightarrow> sock_ops_t \<Rightarrow> 'a sock_state_scheme \<Rightarrow> 'a sock_state_scheme \<times> net_err_t" where
  "sock_init a family protocol ops s =
     (upd_sock a (\<lambda>_. \<lparr>so_local_ip = ipaddr_set_any, so_remote_ip = ipaddr_set_any, so_local_port = 0, so_remote_port = 0,
        so_ops = ops, so_family = family, so_protocol = protocol, so_err = NET_OK, so_rcv_tmo = 0, so_snd_tmo = 0,
        so_snd_wait = None, so_rcv_wait = None, so_conn_wait = None\<rparr>) s, NET_OK)"

definition destroy_if :: "wait_addr option \<Rightarrow> 'a sock_state_scheme \<Rightarrow> 'a sock_state_scheme option" where
  "destroy_if w s = (case w of None \<Rightarrow> Some s | Some w \<Rightarrow> sock_wait_destroy w s)"

definition sock_uninit :: "sock_addr \<Rightarrow> 'a sock_state_scheme \<Rightarrow> 'a sock_state_scheme option" where
  "sock_uninit a s =
     do {
       s \<leftarrow> destroy_if (so_snd_wait (socks s a)) s;
       s \<leftarrow> destroy_if (so_rcv_wait (socks s a)) s;
       destroy_if (so_conn_wait (socks s a)) s
     }"

section \<open>Options, addresses\<close>

text \<open>
  An \<^verbatim>\<open>int\<close> in memory, and the two of a \<^verbatim>\<open>struct x_timeval\<close>.  The multiplication and the
  addition are on \<^verbatim>\<open>int\<close> and have no defined result when they overflow.
\<close>

definition int_of_bytes :: "u8 list \<Rightarrow> int" where
  "int_of_bytes bs =
     signed_take_bit 31 (uint (bs ! 0) + uint (bs ! 1) * 2 ^ 8 + uint (bs ! 2) * 2 ^ 16 + uint (bs ! 3) * 2 ^ 24)"

definition fits_int :: "int \<Rightarrow> bool" where
  "fits_int i \<longleftrightarrow> - (2 ^ 31) \<le> i \<and> i < 2 ^ 31"

definition timeval_ms :: "u8 list \<Rightarrow> int option" where
  "timeval_ms bs =
     (if length bs < 8 then None
      else let tv_sec = int_of_bytes bs; tv_usec = int_of_bytes (drop 4 bs);
               ms = tv_sec * 1000 + sgn tv_usec * (\<bar>tv_usec\<bar> div 1000)
           in if fits_int (tv_sec * 1000) \<and> fits_int ms then Some ms else None)"

definition sock_setopt ::
  "sock_addr \<Rightarrow> int \<Rightarrow> int \<Rightarrow> u8 list \<Rightarrow> int \<Rightarrow> 'a sock_state_scheme \<Rightarrow> ('a sock_state_scheme \<times> net_err_t) option" where
  "sock_setopt a level optname optval optlen s =
     (if level \<noteq> SOL_SOCKET then Some (s, NET_ERR_NOT_SUPPORT)
      else if optname = SO_RCVTIMEO \<or> optname = SO_SNDTIMEO
      then if optlen \<noteq> 8 then Some (s, NET_ERR_PARAM)
           else do {
             time_ms \<leftarrow> timeval_ms optval;
             Some (upd_sock a (\<lambda>k. if optname = SO_RCVTIMEO then k\<lparr>so_rcv_tmo := time_ms\<rparr> else k\<lparr>so_snd_tmo := time_ms\<rparr>) s, NET_OK)
           }
      else Some (s, NET_ERR_NOT_SUPPORT))"

definition sock_connect :: "sock_addr \<Rightarrow> x_sockaddr_in \<Rightarrow> 'a sock_state_scheme \<Rightarrow> ('a sock_state_scheme \<times> net_err_t) option" where
  "sock_connect a remote s =
     do {
       ip \<leftarrow> ipaddr_from_buf (sin_addr remote);
       Some (upd_sock a (\<lambda>k. k\<lparr>so_remote_ip := ip, so_remote_port := swap_u16 (sin_port remote)\<rparr>) s, NET_OK)
     }"

definition sock_bind :: "sock_addr \<Rightarrow> x_sockaddr_in \<Rightarrow> 'a sock_state_scheme \<Rightarrow> ('a sock_state_scheme \<times> net_err_t) option" where
  "sock_bind a local s =
     do {
       local_ip \<leftarrow> ipaddr_from_buf (sin_addr local);
       own \<leftarrow> (if ipaddr_is_any local_ip then Some True
               else do {
                 e \<leftarrow> rt_find local_ip s;
                 Some (ipaddr_is_equal (ni_ipaddr (netifs s (re_netif (rt_table s e)))) local_ip)
               });
       if \<not> own then Some (s, NET_ERR_PARAM)
       else Some (upd_sock a (\<lambda>k. k\<lparr>so_local_ip := local_ip, so_local_port := swap_u16 (sin_port local)\<rparr>) s, NET_OK)
     }"

end
