(* ===== verification/Net_Raw.thy ===== *)
theory Net_Raw
  imports Net_Sock
begin

text \<open>
  \<^verbatim>\<open>src/api/raw.c\<close>: raw sockets receive whole IP packets and send payloads.  The received
  packets wait on the socket's list.  A user buffer is the list of its bytes; the lengths
  the API passes along fit in an \<^verbatim>\<open>int\<close>.
\<close>

section \<open>State\<close>

abbreviation (input) RAW_MAX_NR :: nat where "RAW_MAX_NR \<equiv> 100"
abbreviation (input) RAW_MAX_RECV :: nat where "RAW_MAX_RECV \<equiv> 50"

record raw_state = sock_state +
  raw_mblock :: "addr list"
  raw_list :: "addr list"
  raw_recv_list :: "addr \<Rightarrow> addr list"

definition upd_raw_recv :: "addr \<Rightarrow> (addr list \<Rightarrow> addr list) \<Rightarrow> 'a raw_state_scheme \<Rightarrow> 'a raw_state_scheme" where
  "upd_raw_recv r f s = s\<lparr>raw_recv_list := (raw_recv_list s)(r := f (raw_recv_list s r))\<rparr>"

definition raw_init :: "'a raw_state_scheme \<Rightarrow> 'a raw_state_scheme \<times> net_err_t" where
  "raw_init s = (s\<lparr>raw_mblock := [0..<RAW_MAX_NR], raw_list := []\<rparr>, NET_OK)"

section \<open>Sending and receiving\<close>

text \<open>The last component of the result is \<^verbatim>\<open>*result_len\<close>, when the code sets it.\<close>

definition raw_sendto ::
  "addr \<Rightarrow> u8 list \<Rightarrow> x_sockaddr_in \<Rightarrow> 'a raw_state_scheme \<Rightarrow> ('a raw_state_scheme \<times> net_err_t \<times> int option) option" where
  "raw_sendto r buf dest s =
     do {
       let a = Raw_sock r;
       let len = int (length buf);
       dest_ip \<leftarrow> ipaddr_from_buf (sin_addr dest);
       if \<not> ipaddr_is_any (so_remote_ip (socks s a)) \<and> \<not> ipaddr_is_equal dest_ip (so_remote_ip (socks s a))
       then Some (s, NET_ERR_WRONG_SOCKET, None)
       else case packet_alloc len s of
              (s, None) \<Rightarrow> Some (s, NET_ERR_MEM, None)
            | (s, Some p) \<Rightarrow>
                do {
                  (s, err) \<leftarrow> packet_write p (Some buf) len s;
                  if net_err_neg (so_err (socks s a)) then Some (packet_free p s, err, None)
                  else do {
                    (s, err) \<leftarrow> ipv4_out (of_int (so_protocol (socks s a))) dest_ip (Some (so_local_ip (socks s a))) p s;
                    if net_err_neg err then Some (packet_free p s, err, None) else Some (s, NET_OK, Some len)
                  }
                }
     }"

text \<open>The results: the error, the sender's address, the bytes stored in the user's buffer and \<^verbatim>\<open>*result_len\<close>.\<close>

definition raw_recvfrom ::
  "addr \<Rightarrow> int \<Rightarrow> 'a raw_state_scheme \<Rightarrow>
   ('a raw_state_scheme \<times> net_err_t \<times> x_sockaddr_in option \<times> u8 list \<times> int option) option" where
  "raw_recvfrom r len s =
     (case raw_recv_list s r of
        [] \<Rightarrow> Some (s, NET_ERR_NEED_WAIT, None, [], Some 0)
      | p # ps \<Rightarrow>
          do {
            let s = upd_raw_recv r (\<lambda>_. ps) s;
            d \<leftarrow> packet_ptr p s;
            src_ip \<leftarrow> mem_read d 12 4 s;
            let src = \<lparr>sin_family = AF_INET, sin_port = 0, sin_addr = src_ip\<rparr>;
            let sz = (if total_size (packets s p) > len then len else total_size (packets s p));
            (s, err, bs) \<leftarrow> packet_read p True sz (packet_reset_pos (Some p) s);
            if net_err_neg err then Some (packet_free p s, err, Some src, bs, None)
            else Some (packet_free p s, NET_OK, Some src, bs, Some sz)
          })"

section \<open>Life of a raw socket\<close>

definition raw_close :: "addr \<Rightarrow> 'a raw_state_scheme \<Rightarrow> ('a raw_state_scheme \<times> net_err_t) option" where
  "raw_close r s =
     do {
       let s = s\<lparr>raw_list := remove1 r (raw_list s)\<rparr>;
       let s = upd_raw_recv r (\<lambda>_. []) (free_packets (raw_recv_list s r) s);
       s \<leftarrow> sock_uninit (Raw_sock r) s;
       Some (s\<lparr>raw_mblock := pool_free (raw_mblock s) r\<rparr>, NET_OK)
     }"

text \<open>\<^verbatim>\<open>raw_create\<close>; its failure path does not give the block back.\<close>

definition raw_create :: "int \<Rightarrow> int \<Rightarrow> 'a raw_state_scheme \<Rightarrow> ('a raw_state_scheme \<times> sock_addr option) option" where
  "raw_create family protocol s =
     (case pool_alloc (raw_mblock s) of
        (pool, None) \<Rightarrow> Some (s\<lparr>raw_mblock := pool\<rparr>, None)
      | (pool, Some r) \<Rightarrow>
          let a = Raw_sock r;
              (s, err) = sock_init a family protocol Raw_ops (s\<lparr>raw_mblock := pool\<rparr>)
          in if net_err_neg err then Some (s\<lparr>raw_mblock := pool_free (raw_mblock s) r\<rparr>, None)
             else let s = upd_sock a (\<lambda>k. k\<lparr>so_rcv_wait := Some (a, Rcv_wait)\<rparr>) (upd_raw_recv r (\<lambda>_. []) s);
                      (s, err) = sock_wait_init (a, Rcv_wait) s
                  in if net_err_neg err then map_option (\<lambda>s. (s, None)) (sock_uninit a s)
                     else Some (s\<lparr>raw_list := raw_list s @ [r]\<rparr>, Some a))"

section \<open>Input\<close>

definition raw_match :: "ipaddr_t \<Rightarrow> ipaddr_t \<Rightarrow> int \<Rightarrow> sock_t \<Rightarrow> bool" where
  "raw_match src dest protocol k \<longleftrightarrow>
     \<not> (so_protocol k \<noteq> 0 \<and> so_protocol k \<noteq> protocol) \<and>
     \<not> (\<not> ipaddr_is_any (so_local_ip k) \<and> \<not> ipaddr_is_equal (so_local_ip k) dest) \<and>
     \<not> (\<not> ipaddr_is_any (so_remote_ip k) \<and> \<not> ipaddr_is_equal (so_remote_ip k) src)"

definition raw_find :: "ipaddr_t \<Rightarrow> ipaddr_t \<Rightarrow> int \<Rightarrow> 'a raw_state_scheme \<Rightarrow> ptr" where
  "raw_find src dest protocol s = find (\<lambda>r. raw_match src dest protocol (socks s (Raw_sock r))) (raw_list s)"

definition raw_in :: "addr \<Rightarrow> 'a raw_state_scheme \<Rightarrow> ('a raw_state_scheme \<times> net_err_t) option" where
  "raw_in p s =
     do {
       h \<leftarrow> packet_ipv4_hdr p s;
       dest \<leftarrow> ipaddr_from_buf (ip_dest_ip h);
       src \<leftarrow> ipaddr_from_buf (ip_src_ip h);
       case raw_find src dest (uint (ip_protocol h)) s of
         None \<Rightarrow> Some (s, NET_ERR_UNREACH)
       | Some r \<Rightarrow>
           if length (raw_recv_list s r) < RAW_MAX_RECV
           then do {
             s \<leftarrow> sock_wakeup (Raw_sock r) {Rcv_wait} NET_OK (upd_raw_recv r (\<lambda>l. l @ [p]) s);
             Some (s, NET_OK)
           }
           else Some (packet_free p s, NET_OK)
     }"

end
