(* ===== verification/Net_Icmp.thy ===== *)
theory Net_Icmp
  imports Net_Raw
begin

text \<open>
  \<^verbatim>\<open>src/stack/network/icmpv4.c\<close>: echo replies and the unreachable message.  An ICMP header
  is type, code and checksum; four more bytes follow it, and the packed \<^verbatim>\<open>icmpv4_pkt_t\<close> has
  one byte of data, so that its size is nine.
\<close>

abbreviation (input) ICMPV4_HDR_SIZE :: int where "ICMPV4_HDR_SIZE \<equiv> 4"
abbreviation (input) ICMPV4_PKT_SIZE :: int where "ICMPV4_PKT_SIZE \<equiv> 9"
abbreviation (input) ICMPv4_ECHO_REPLY :: u8 where "ICMPv4_ECHO_REPLY \<equiv> 0"
abbreviation (input) ICMPv4_UNREACH :: u8 where "ICMPv4_UNREACH \<equiv> 3"
abbreviation (input) ICMPv4_ECHO_REQUEST :: u8 where "ICMPv4_ECHO_REQUEST \<equiv> 8"
abbreviation (input) ICMPv4_UNREACH_PORT :: u8 where "ICMPv4_UNREACH_PORT \<equiv> 3"

definition icmpv4_out :: "ipaddr_t \<Rightarrow> ipaddr_t \<Rightarrow> addr \<Rightarrow> 'a ipv4_state_scheme \<Rightarrow> ('a ipv4_state_scheme \<times> net_err_t) option" where
  "icmpv4_out dest src p s =
     do {
       d \<leftarrow> packet_ptr p s;
       (s, _) \<leftarrow> packet_seek p 0 s;
       (s, c) \<leftarrow> packet_checksum16 p (total_size (packets s p)) 0 True s;
       s \<leftarrow> mem_write d 2 (le16_bytes c) s;
       ipv4_out NET_PROTOCOL_ICMPv4 dest (Some src) p s
     }"

definition icmpv4_echo_reply :: "ipaddr_t \<Rightarrow> ipaddr_t \<Rightarrow> addr \<Rightarrow> 'a ipv4_state_scheme \<Rightarrow> ('a ipv4_state_scheme \<times> net_err_t) option" where
  "icmpv4_echo_reply dest src p s =
     do {
       d \<leftarrow> packet_ptr p s;
       s \<leftarrow> mem_write d 0 [ICMPv4_ECHO_REPLY] s;
       s \<leftarrow> mem_write d 2 [0, 0] s;
       icmpv4_out dest src p s
     }"

text \<open>\<^verbatim>\<open>icmpv4_out_unreach\<close>; when the header cannot be made contiguous the new packet is not freed.\<close>

definition icmpv4_out_unreach ::
  "ipaddr_t \<Rightarrow> ipaddr_t \<Rightarrow> u8 \<Rightarrow> addr \<Rightarrow> 'a ipv4_state_scheme \<Rightarrow> ('a ipv4_state_scheme \<times> net_err_t) option" where
  "icmpv4_out_unreach dest src code ip_packet s =
     do {
       h \<leftarrow> packet_ipv4_hdr ip_packet s;
       let copy_size = ipv4_hdr_size h + 576;
       let copy_size = (if copy_size > total_size (packets s ip_packet) then total_size (packets s ip_packet) else copy_size);
       case packet_alloc (copy_size + ICMPV4_HDR_SIZE + 4) s of
         (s, None) \<Rightarrow> Some (s, NET_ERR_NONE)
       | (s, Some new_buf) \<Rightarrow>
           do {
             (s, err) \<leftarrow> packet_set_cont new_buf ICMPV4_PKT_SIZE s;
             if net_err_neg err then Some (s, NET_ERR_SIZE)
             else do {
               d \<leftarrow> packet_ptr new_buf s;
               s \<leftarrow> mem_write d 0 [ICMPv4_UNREACH, code, 0, 0, 0, 0, 0, 0] s;
               (s, _) \<leftarrow> packet_seek new_buf (ICMPV4_HDR_SIZE + 4) (packet_reset_pos (Some ip_packet) s);
               (s, err) \<leftarrow> packet_copy new_buf ip_packet copy_size s;
               if net_err_neg err then Some (packet_free new_buf s, err)
               else do {
                 (s, err) \<leftarrow> icmpv4_out dest src new_buf s;
                 if net_err_neg err then Some (packet_free new_buf s, err) else Some (s, NET_OK)
               }
             }
           }
     }"

definition validate_icmp :: "int \<Rightarrow> addr \<Rightarrow> 'a packet_state_scheme \<Rightarrow> ('a packet_state_scheme \<times> net_err_t) option" where
  "validate_icmp sz p s =
     (if sz \<le> ICMPV4_HDR_SIZE then Some (s, NET_ERR_SIZE)
      else do {
        (s, c) \<leftarrow> packet_checksum16 p sz 0 True s;
        Some (s, if c \<noteq> 0 then NET_ERR_BROKEN else NET_OK)
      })"

definition icmpv4_in :: "ipaddr_t \<Rightarrow> ipaddr_t \<Rightarrow> addr \<Rightarrow> 'a raw_state_scheme \<Rightarrow> ('a raw_state_scheme \<times> net_err_t) option" where
  "icmpv4_in src netif_ip p s =
     do {
       h \<leftarrow> packet_ipv4_hdr p s;
       let iphdr_size = ipv4_hdr_size h;
       (s, err) \<leftarrow> packet_set_cont p (ICMPV4_HDR_SIZE + iphdr_size) s;
       if net_err_neg err then Some (s, err)
       else do {
         (s, _) \<leftarrow> packet_seek p iphdr_size (packet_reset_pos (Some p) s);
         d \<leftarrow> packet_ptr p s;
         (s, err) \<leftarrow> validate_icmp (total_size (packets s p) - iphdr_size) p s;
         if err \<noteq> NET_OK then Some (s, err)
         else do {
           ty \<leftarrow> mem_read d iphdr_size 1 s;
           if ty = [ICMPv4_ECHO_REQUEST]
           then do {
             (s, err) \<leftarrow> packet_remove_header p iphdr_size s;
             if net_err_neg err then Some (s, NET_ERR_SIZE) else icmpv4_echo_reply src netif_ip p s
           }
           else do {
             (s, err) \<leftarrow> raw_in p s;
             Some (s, if net_err_neg err then err else NET_OK)
           }
         }
       }
     }"

definition icmpv4_init :: net_err_t where
  "icmpv4_init = NET_OK"

end
