(* ===== verification/Net_Udp.thy ===== *)
theory Net_Udp
  imports Net_Icmp
begin

text \<open>
  \<^verbatim>\<open>src/stack/transport/udp.c\<close>.  A received datagram waits on its socket's list with the
  sender in front of the data: \<^verbatim>\<open>udp_from_t\<close> is ten bytes long, two more than the UDP header it
  replaces, so \<^verbatim>\<open>udp_in\<close> removes minus two bytes and reuses the end of the IP header it has
  removed before.  Its first four bytes, the address type, are left as they are.
\<close>

section \<open>Data\<close>

abbreviation (input) UDP_MAX_NR :: nat where "UDP_MAX_NR \<equiv> 50"
abbreviation (input) UDP_MAX_RECV :: nat where "UDP_MAX_RECV \<equiv> 1024"
abbreviation (input) UDP_HDR_SIZE :: nat where "UDP_HDR_SIZE \<equiv> 8"
abbreviation (input) UDP_FROM_SIZE :: nat where "UDP_FROM_SIZE \<equiv> 10"

record udp_hdr_t =
  uh_src_port :: u16
  uh_dest_port :: u16
  uh_total_len :: u16
  uh_checksum :: u16

definition udp_hdr_bytes :: "udp_hdr_t \<Rightarrow> u8 list" where
  "udp_hdr_bytes h = le16_bytes (uh_src_port h) @ le16_bytes (uh_dest_port h) @ le16_bytes (uh_total_len h) @ le16_bytes (uh_checksum h)"

definition udp_hdr_of :: "u8 list \<Rightarrow> udp_hdr_t" where
  "udp_hdr_of bs =
     \<lparr>uh_src_port = le16 (bs ! 0) (bs ! 1), uh_dest_port = le16 (bs ! 2) (bs ! 3),
      uh_total_len = le16 (bs ! 4) (bs ! 5), uh_checksum = le16 (bs ! 6) (bs ! 7)\<rparr>"

text \<open>The structure in front of a datagram on the list: the type (not used), the address, the port.\<close>

record udp_from_t =
  uf_from :: ipaddr_t
  uf_port :: u16

definition udp_from_of :: "u8 list \<Rightarrow> udp_from_t option" where
  "udp_from_of bs =
     do {
       ip \<leftarrow> ipaddr_from_buf (take 4 (drop 4 bs));
       Some \<lparr>uf_from = ip, uf_port = le16 (bs ! 8) (bs ! 9)\<rparr>
     }"

text \<open>\<^verbatim>\<open>search_index\<close> is the static variable of \<^verbatim>\<open>alloc_port\<close>.\<close>

record udp_state = raw_state +
  udp_mblock :: "addr list"
  udp_list :: "addr list"
  udp_recv_list :: "addr \<Rightarrow> addr list"
  search_index :: int

definition upd_udp_recv :: "addr \<Rightarrow> (addr list \<Rightarrow> addr list) \<Rightarrow> 'a udp_state_scheme \<Rightarrow> 'a udp_state_scheme" where
  "upd_udp_recv u f s = s\<lparr>udp_recv_list := (udp_recv_list s)(u := f (udp_recv_list s u))\<rparr>"

definition udp_init :: "'a udp_state_scheme \<Rightarrow> 'a udp_state_scheme \<times> net_err_t" where
  "udp_init s = (s\<lparr>udp_mblock := [0..<UDP_MAX_NR], udp_list := []\<rparr>, NET_OK)"

section \<open>Ports\<close>

definition is_port_used :: "int \<Rightarrow> 'a udp_state_scheme \<Rightarrow> bool" where
  "is_port_used port s \<longleftrightarrow> (\<exists>u\<in>set (udp_list s). uint (so_local_port (socks s (Udp_sock u))) = port)"

text \<open>The loop of \<^verbatim>\<open>alloc_port\<close>, \<open>n\<close> rounds left; the result is the port before it is cut to 16 bits.\<close>

fun alloc_port_loop :: "nat \<Rightarrow> 'a udp_state_scheme \<Rightarrow> 'a udp_state_scheme \<times> int option" where
  "alloc_port_loop 0 s = (s, None)"
| "alloc_port_loop (Suc n) s =
     (let port = search_index s;
          s = s\<lparr>search_index := port + 1\<rparr>
      in if \<not> is_port_used port s then (s, Some port) else alloc_port_loop n s)"

definition alloc_port :: "sock_addr \<Rightarrow> 'a udp_state_scheme \<Rightarrow> 'a udp_state_scheme \<times> net_err_t" where
  "alloc_port a s =
     (case alloc_port_loop (nat (NET_PORT_DYN_END - NET_PORT_DYN_START)) s of
        (s, None) \<Rightarrow> (s, NET_ERR_NONE)
      | (s, Some port) \<Rightarrow> (upd_sock a (\<lambda>k. k\<lparr>so_local_port := of_int port\<rparr>) s, NET_OK))"

section \<open>Output\<close>

definition udp_out ::
  "ipaddr_t \<Rightarrow> u16 \<Rightarrow> ipaddr_t option \<Rightarrow> u16 \<Rightarrow> addr \<Rightarrow> 'a ipv4_state_scheme \<Rightarrow> ('a ipv4_state_scheme \<times> net_err_t) option" where
  "udp_out dest dport src sport p s =
     (case (case src of
              Some a \<Rightarrow> if ipaddr_is_any a
                        then map_option (\<lambda>e. ni_ipaddr (netifs s (re_netif (rt_table s e)))) (rt_find dest s) else Some a
            | None \<Rightarrow> map_option (\<lambda>e. ni_ipaddr (netifs s (re_netif (rt_table s e)))) (rt_find dest s)) of
        None \<Rightarrow> Some (s, NET_ERR_UNREACH)
      | Some src \<Rightarrow>
          do {
            (s, err) \<leftarrow> packet_add_header p (int UDP_HDR_SIZE) True s;
            if net_err_neg err then Some (s, NET_ERR_SIZE)
            else do {
              d \<leftarrow> packet_ptr p s;
              s \<leftarrow> mem_write d 0 (le16_bytes (swap_u16 sport) @ le16_bytes (swap_u16 dport) @
                     le16_bytes (swap_u16 (of_int (total_size (packets s p))))) s;
              (s, c) \<leftarrow> checksum_peso (ipaddr_to_buf src) (ipaddr_to_buf dest) NET_PROTOCOL_UDP p s;
              s \<leftarrow> mem_write d 6 (le16_bytes c) s;
              ipv4_out NET_PROTOCOL_UDP dest (Some src) p s
            }
          })"

definition udp_sendto ::
  "addr \<Rightarrow> u8 list \<Rightarrow> x_sockaddr_in \<Rightarrow> 'a udp_state_scheme \<Rightarrow> ('a udp_state_scheme \<times> net_err_t \<times> int option) option" where
  "udp_sendto u buf dest s =
     do {
       let a = Udp_sock u;
       let len = int (length buf);
       dest_ip \<leftarrow> ipaddr_from_buf (sin_addr dest);
       let dport = swap_u16 (sin_port dest);
       if \<not> ipaddr_is_any (so_remote_ip (socks s a)) \<and>
          (\<not> ipaddr_is_equal dest_ip (so_remote_ip (socks s a)) \<or> dport \<noteq> so_remote_port (socks s a))
       then Some (s, NET_ERR_CONNECTED, None)
       else
         let (s, no_port) = (if so_local_port (socks s a) \<noteq> 0 then (s, False)
                             else let (s, err) = alloc_port a s
                                  in (upd_sock a (\<lambda>k. k\<lparr>so_err := err\<rparr>) s, net_err_neg err))
         in if no_port then Some (s, NET_ERR_NONE, None)
            else case packet_alloc len s of
                   (s, None) \<Rightarrow> Some (s, NET_ERR_MEM, None)
                 | (s, Some p) \<Rightarrow>
                     do {
                       (s, err) \<leftarrow> packet_write p (Some buf) len s;
                       if net_err_neg err then Some (packet_free p s, err, None)
                       else do {
                         (s, err) \<leftarrow> udp_out dest_ip dport (Some (so_local_ip (socks s a))) (so_local_port (socks s a)) p s;
                         if net_err_neg err then Some (packet_free p s, err, None) else Some (s, NET_OK, Some len)
                       }
                     }
     }"

section \<open>The socket's other operations\<close>

text \<open>
  \<^verbatim>\<open>udp_bind\<close>: the loop over the other sockets compares the address and the port of the
  socket that is to be bound, not those of the other socket.
\<close>

definition udp_bind :: "addr \<Rightarrow> x_sockaddr_in \<Rightarrow> 'a udp_state_scheme \<Rightarrow> ('a udp_state_scheme \<times> net_err_t) option" where
  "udp_bind u addr s =
     (let a = Udp_sock u
      in if so_local_port (socks s a) \<noteq> NET_PORT_EMPTY then Some (s, NET_ERR_BINED)
         else do {
           local_ip \<leftarrow> ipaddr_from_buf (sin_addr addr);
           let port = swap_u16 (sin_port addr);
           if \<exists>v\<in>set (udp_list s). v \<noteq> u \<and> ipaddr_is_equal (so_local_ip (socks s a)) local_ip \<and> so_local_port (socks s a) = port
           then Some (s, NET_ERR_BINED)
           else do { (s, _) \<leftarrow> sock_bind a addr s; Some (s, NET_OK) }
         })"

definition udp_recvfrom ::
  "addr \<Rightarrow> int \<Rightarrow> 'a udp_state_scheme \<Rightarrow>
   ('a udp_state_scheme \<times> net_err_t \<times> x_sockaddr_in option \<times> u8 list \<times> int option) option" where
  "udp_recvfrom u len s =
     (case udp_recv_list s u of
        [] \<Rightarrow> Some (s, NET_ERR_NEED_WAIT, None, [], Some 0)
      | p # ps \<Rightarrow>
          do {
            let s = upd_udp_recv u (\<lambda>_. ps) s;
            d \<leftarrow> packet_ptr p s;
            fb \<leftarrow> mem_read d 0 UDP_FROM_SIZE s;
            from \<leftarrow> udp_from_of fb;
            let src = \<lparr>sin_family = AF_INET, sin_port = swap_u16 (uf_port from), sin_addr = ipaddr_to_buf (uf_from from)\<rparr>;
            (s, _) \<leftarrow> packet_remove_header p (int UDP_FROM_SIZE) s;
            let sz = (if total_size (packets s p) > len then len else total_size (packets s p));
            (s, err, bs) \<leftarrow> packet_read p True sz (packet_reset_pos (Some p) s);
            if net_err_neg err then Some (packet_free p s, err, Some src, bs, None)
            else Some (packet_free p s, NET_OK, Some src, bs, Some sz)
          })"

definition udp_close :: "addr \<Rightarrow> 'a udp_state_scheme \<Rightarrow> 'a udp_state_scheme \<times> net_err_t" where
  "udp_close u s =
     (let s = s\<lparr>udp_list := remove1 u (udp_list s)\<rparr>;
          s = upd_udp_recv u (\<lambda>_. []) (free_packets (udp_recv_list s u) s)
      in (s\<lparr>udp_mblock := pool_free (udp_mblock s) u\<rparr>, NET_OK))"

definition udp_connect :: "addr \<Rightarrow> x_sockaddr_in \<Rightarrow> 'a udp_state_scheme \<Rightarrow> ('a udp_state_scheme \<times> net_err_t) option" where
  "udp_connect u addr s = do { (s, _) \<leftarrow> sock_connect (Udp_sock u) addr s; Some (s, NET_OK) }"

definition udp_create :: "int \<Rightarrow> int \<Rightarrow> 'a udp_state_scheme \<Rightarrow> ('a udp_state_scheme \<times> sock_addr option) option" where
  "udp_create family protocol s =
     (case pool_alloc (udp_mblock s) of
        (pool, None) \<Rightarrow> Some (s\<lparr>udp_mblock := pool\<rparr>, None)
      | (pool, Some u) \<Rightarrow>
          let a = Udp_sock u;
              (s, err) = sock_init a family protocol Udp_ops (s\<lparr>udp_mblock := pool\<rparr>)
          in if net_err_neg err then Some (s\<lparr>udp_mblock := pool_free (udp_mblock s) u\<rparr>, None)
             else let s = upd_sock a (\<lambda>k. k\<lparr>so_rcv_wait := Some (a, Rcv_wait)\<rparr>) (upd_udp_recv u (\<lambda>_. []) s);
                      (s, err) = sock_wait_init (a, Rcv_wait) s
                  in if net_err_neg err then map_option (\<lambda>s. (s, None)) (sock_uninit a s)
                     else Some (s\<lparr>udp_list := udp_list s @ [u]\<rparr>, Some a))"

section \<open>Input\<close>

definition udp_match :: "ipaddr_t \<Rightarrow> u16 \<Rightarrow> ipaddr_t \<Rightarrow> u16 \<Rightarrow> sock_t \<Rightarrow> bool" where
  "udp_match src_ip sport dest_ip dport k \<longleftrightarrow>
     \<not> (dport = 0 \<or> so_local_port k \<noteq> dport) \<and>
     \<not> (\<not> ipaddr_is_any (so_local_ip k) \<and> \<not> ipaddr_is_equal (so_local_ip k) dest_ip) \<and>
     \<not> (\<not> ipaddr_is_any (so_remote_ip k) \<and> \<not> ipaddr_is_equal (so_remote_ip k) src_ip) \<and>
     \<not> (so_remote_port k \<noteq> 0 \<and> so_remote_port k \<noteq> sport)"

definition udp_find :: "ipaddr_t \<Rightarrow> u16 \<Rightarrow> ipaddr_t \<Rightarrow> u16 \<Rightarrow> 'a udp_state_scheme \<Rightarrow> ptr" where
  "udp_find src_ip sport dest_ip dport s =
     find (\<lambda>u. udp_match src_ip sport dest_ip dport (socks s (Udp_sock u))) (udp_list s)"

definition is_pkt_ok :: "udp_hdr_t \<Rightarrow> int \<Rightarrow> net_err_t" where
  "is_pkt_ok h sz = (if sz < int UDP_HDR_SIZE \<or> sz < uint (uh_total_len h) then NET_ERR_SIZE else NET_OK)"

text \<open>The datagram handed to a socket: the sender put in front of it, then the socket's list or the bin.\<close>

definition udp_deliver :: "addr \<Rightarrow> addr \<Rightarrow> ipaddr_t \<Rightarrow> u16 \<Rightarrow> 'a udp_state_scheme \<Rightarrow> ('a udp_state_scheme \<times> net_err_t) option" where
  "udp_deliver u p src_ip remote_port s =
     do {
       (s, _) \<leftarrow> packet_remove_header p (int UDP_HDR_SIZE - int UDP_FROM_SIZE) s;
       d \<leftarrow> packet_ptr p s;
       s \<leftarrow> mem_write d 8 (le16_bytes remote_port) s;
       s \<leftarrow> mem_write d 4 (ipaddr_to_buf src_ip) s;
       if length (udp_recv_list s u) < UDP_MAX_RECV
       then do {
         s \<leftarrow> sock_wakeup (Udp_sock u) {Rcv_wait} NET_OK (upd_udp_recv u (\<lambda>l. l @ [p]) s);
         Some (s, NET_OK)
       }
       else Some (packet_free p s, NET_OK)
     }"

definition udp_in :: "addr \<Rightarrow> ipaddr_t \<Rightarrow> ipaddr_t \<Rightarrow> 'a udp_state_scheme \<Rightarrow> ('a udp_state_scheme \<times> net_err_t) option" where
  "udp_in p src_ip dest_ip s =
     do {
       h \<leftarrow> packet_ipv4_hdr p s;
       let iphdr_size = ipv4_hdr_size h;
       (s, err) \<leftarrow> packet_set_cont p (int UDP_HDR_SIZE + iphdr_size) s;
       if net_err_neg err then Some (s, err)
       else do {
         d \<leftarrow> packet_ptr p s;
         ub \<leftarrow> mem_read d iphdr_size UDP_HDR_SIZE s;
         let local_port = swap_u16 (uh_dest_port (udp_hdr_of ub));
         let remote_port = swap_u16 (uh_src_port (udp_hdr_of ub));
         case udp_find src_ip remote_port dest_ip local_port s of
           None \<Rightarrow> Some (s, NET_ERR_UNREACH)
         | Some u \<Rightarrow>
             do {
               (s, _) \<leftarrow> packet_remove_header p iphdr_size s;
               d \<leftarrow> packet_ptr p s;
               ub \<leftarrow> mem_read d 0 UDP_HDR_SIZE s;
               (s, bad) \<leftarrow> (if uh_checksum (udp_hdr_of ub) \<noteq> 0
                            then map_option (\<lambda>(s, c). (s, c \<noteq> 0))
                                   (checksum_peso (ipaddr_to_buf dest_ip) (ipaddr_to_buf src_ip) NET_PROTOCOL_UDP p (packet_reset_pos (Some p) s))
                            else Some (s, False));
               if bad then Some (s, NET_ERR_BROKEN)
               else do {
                 let uh = udp_hdr_of ub;
                 let uh = uh\<lparr>uh_src_port := swap_u16 (uh_src_port uh), uh_dest_port := swap_u16 (uh_dest_port uh),
                             uh_total_len := swap_u16 (uh_total_len uh)\<rparr>;
                 s \<leftarrow> mem_write d 0 (udp_hdr_bytes uh) s;
                 let err = is_pkt_ok uh (total_size (packets s p));
                 if net_err_neg err then Some (s, err) else udp_deliver u p src_ip remote_port s
               }
             }
       }
     }"

end
