(* ===== verification/Net_TcpBuf.thy ===== *)
theory Net_TcpBuf
  imports Net_Ring Net_Packet_IO
begin

text \<open>
  \<^verbatim>\<open>src/stack/transport/tcp_buf.c\<close>: the send and receive buffers of a TCP connection.  The
  array the buffer points to belongs to the buffer alone and is kept in the record; an
  access outside it gives \<^term>\<open>None\<close>.  The bytes taken by \<^verbatim>\<open>tcp_buf_read_rcv\<close> are returned, in
  the order the C code stores them.  The loops that move whole blocks need not end on a
  buffer whose indices are broken, so they are partial functions; the lemmas show that they
  return whenever the ring invariant holds.
\<close>

section \<open>Operations\<close>

record tcp_buf_t =
  tb_count :: int
  tb_in :: int
  tb_out :: int
  tb_size :: int
  tb_data :: "u8 list"

definition tcp_buf_init :: "u8 list \<Rightarrow> int \<Rightarrow> tcp_buf_t" where
  "tcp_buf_init data sz = \<lparr>tb_count = 0, tb_in = 0, tb_out = 0, tb_size = sz, tb_data = data\<rparr>"

definition tcp_buf_size :: "tcp_buf_t \<Rightarrow> int" where
  "tcp_buf_size b = tb_size b"

definition tcp_buf_free_cnt :: "tcp_buf_t \<Rightarrow> int" where
  "tcp_buf_free_cnt b = tb_size b - tb_count b"

definition tcp_buf_cnt :: "tcp_buf_t \<Rightarrow> int" where
  "tcp_buf_cnt b = tb_count b"

text \<open>\<^verbatim>\<open>dest->data[dest->in++] = *buffer++\<close> with the wrap-around; \<^verbatim>\<open>src->data[src->out++]\<close> likewise.\<close>

definition tcp_buf_push :: "tcp_buf_t \<Rightarrow> u8 \<Rightarrow> tcp_buf_t option" where
  "tcp_buf_push b v =
     (if 0 \<le> tb_in b \<and> tb_in b < int (length (tb_data b))
      then Some (b\<lparr>tb_data := (tb_data b)[nat (tb_in b) := v],
                   tb_in := (if tb_in b + 1 \<ge> tb_size b then 0 else tb_in b + 1),
                   tb_count := tb_count b + 1\<rparr>)
      else None)"

definition tcp_buf_pop :: "tcp_buf_t \<Rightarrow> (tcp_buf_t \<times> u8) option" where
  "tcp_buf_pop b =
     (if 0 \<le> tb_out b \<and> tb_out b < int (length (tb_data b))
      then Some (b\<lparr>tb_out := (if tb_out b + 1 \<ge> tb_size b then 0 else tb_out b + 1),
                   tb_count := tb_count b - 1\<rparr>, tb_data b ! nat (tb_out b))
      else None)"

fun write_send_loop :: "nat \<Rightarrow> u8 list \<Rightarrow> tcp_buf_t \<Rightarrow> tcp_buf_t option" where
  "write_send_loop 0 bs b = Some b"
| "write_send_loop (Suc n) [] b = None"
| "write_send_loop (Suc n) (v # bs) b = Option.bind (tcp_buf_push b v) (write_send_loop n bs)"

definition tcp_buf_write_send :: "tcp_buf_t \<Rightarrow> u8 list \<Rightarrow> int \<Rightarrow> tcp_buf_t option" where
  "tcp_buf_write_send b buffer len = write_send_loop (nat len) buffer b"

text \<open>The copy loop of \<^verbatim>\<open>tcp_buf_read_send\<close>; a failing \<^verbatim>\<open>packet_write\<close> is caught by the assertion.\<close>

partial_function (option) read_send_loop ::
  "tcp_buf_t \<Rightarrow> int \<Rightarrow> addr \<Rightarrow> int \<Rightarrow> 'a packet_state_scheme \<Rightarrow> 'a packet_state_scheme option" where
  "read_send_loop b start dest cnt s =
     (if \<not> cnt > 0 then Some s
      else let copy_end = (if start + cnt \<ge> tb_size b then tb_size b else start + cnt);
               copy_size = copy_end - start
           in if start < 0 \<or> copy_end > int (length (tb_data b)) then None
              else Option.bind (packet_write dest (Some (drop (nat start) (tb_data b))) copy_size s)
                     (\<lambda>(s, err). if err = NET_OK
                        then read_send_loop b (ring_wrap (tb_size b) (start + copy_size)) dest (cnt - copy_size) s
                        else None))"

definition tcp_buf_read_send ::
  "tcp_buf_t \<Rightarrow> int \<Rightarrow> addr \<Rightarrow> int \<Rightarrow> 'a packet_state_scheme \<Rightarrow> 'a packet_state_scheme option" where
  "tcp_buf_read_send b offset dest cnt s =
     (let free_for_us = tb_count b - offset;
          cnt = (if cnt > free_for_us then free_for_us else cnt)
      in read_send_loop b (ring_wrap (tb_size b) (tb_out b + offset)) dest cnt s)"

definition tcp_buf_remove :: "tcp_buf_t \<Rightarrow> int \<Rightarrow> tcp_buf_t \<times> int" where
  "tcp_buf_remove b cnt =
     (let cnt = (if cnt > tb_count b then tb_count b else cnt)
      in (b\<lparr>tb_out := ring_wrap (tb_size b) (tb_out b + cnt), tb_count := tb_count b - cnt\<rparr>, cnt))"

text \<open>The copy loop of \<^verbatim>\<open>tcp_buf_write_rcv\<close>; the result of \<^verbatim>\<open>packet_read\<close> is not looked at.\<close>

partial_function (option) write_rcv_loop ::
  "tcp_buf_t \<Rightarrow> int \<Rightarrow> addr \<Rightarrow> int \<Rightarrow> 'a packet_state_scheme \<Rightarrow> ('a packet_state_scheme \<times> tcp_buf_t \<times> int) option" where
  "write_rcv_loop b start src sz s =
     (if \<not> sz > 0 then Some (s, b, start)
      else let free_to_end = tb_size b - start;
               curr_copy = (if sz > free_to_end then free_to_end else sz)
           in if start < 0 \<or> start + curr_copy > int (length (tb_data b)) then None
              else Option.bind (packet_read src True curr_copy s)
                     (\<lambda>(s, err, bs). write_rcv_loop
                        (b\<lparr>tb_data := patch (nat start) bs (tb_data b), tb_count := tb_count b + curr_copy\<rparr>)
                        (ring_wrap (tb_size b) (start + curr_copy)) src (sz - curr_copy) s))"

definition tcp_buf_write_rcv ::
  "tcp_buf_t \<Rightarrow> int \<Rightarrow> addr \<Rightarrow> int \<Rightarrow> 'a packet_state_scheme \<Rightarrow> ('a packet_state_scheme \<times> tcp_buf_t \<times> int) option" where
  "tcp_buf_write_rcv b offset src tot s =
     (let start = ring_wrap (tb_size b) (tb_in b + offset);
          free_size = tcp_buf_free_cnt b - offset;
          tot = (if tot > free_size then free_size else tot)
      in map_option (\<lambda>(s, b, start). (s, b\<lparr>tb_in := start\<rparr>, tot)) (write_rcv_loop b start src tot s))"

fun read_rcv_loop :: "nat \<Rightarrow> tcp_buf_t \<Rightarrow> (tcp_buf_t \<times> u8 list) option" where
  "read_rcv_loop 0 b = Some (b, [])"
| "read_rcv_loop (Suc n) b =
     Option.bind (tcp_buf_pop b) (\<lambda>(b, v). map_option (\<lambda>(b, bs). (b, v # bs)) (read_rcv_loop n b))"

definition tcp_buf_read_rcv :: "tcp_buf_t \<Rightarrow> int \<Rightarrow> (tcp_buf_t \<times> u8 list \<times> int) option" where
  "tcp_buf_read_rcv b sz =
     (let tot = (if sz > tb_count b then tb_count b else sz)
      in map_option (\<lambda>(b, bs). (b, bs, tot)) (read_rcv_loop (nat tot) b))"

section \<open>The stored bytes\<close>

definition tb_ok :: "tcp_buf_t \<Rightarrow> bool" where
  "tb_ok b \<longleftrightarrow> ring_ok (tb_data b) (tb_size b) (tb_in b) (tb_out b) (tb_count b)"

definition tb_seq :: "tcp_buf_t \<Rightarrow> u8 list" where
  "tb_seq b = ring_seq (tb_data b) (tb_out b) (tb_count b)"

lemma tb_seq_length: "tb_ok b \<Longrightarrow> int (length (tb_seq b)) = tb_count b"
  by (simp add: tb_ok_def tb_seq_def ring_ok_def)

lemma tb_init_ok: "data \<noteq> [] \<Longrightarrow> tb_ok (tcp_buf_init data (int (length data)))"
  by (simp add: tb_ok_def tcp_buf_init_def ring_ok_def)

lemma tb_init_seq: "tb_seq (tcp_buf_init data sz) = []"
  by (simp add: tb_seq_def tcp_buf_init_def)

interpretation tb: bounded_fifo tb_ok tb_seq tb_size tcp_buf_push tcp_buf_pop
proof
  fix b v
  assume ok: "tb_ok b" and room: "int (length (tb_seq b)) < tb_size b"
  have c: "tb_count b < tb_size b" using room tb_seq_length [OF ok] by simp
  have i: "0 \<le> tb_in b" "tb_in b < int (length (tb_data b))" using ok unfolding tb_ok_def ring_ok_def by linarith+
  show "\<exists>b'. tcp_buf_push b v = Some b' \<and> tb_ok b' \<and> tb_seq b' = tb_seq b @ [v] \<and> tb_size b' = tb_size b"
    using ring_put [OF ok [unfolded tb_ok_def] c, of v] i
    by (simp add: tcp_buf_push_def tb_ok_def tb_seq_def ring_next_def)
next
  fix b v vs
  assume ok: "tb_ok b" and ne: "tb_seq b = v # vs"
  have c: "0 < tb_count b" using ne tb_seq_length [OF ok] by simp
  have i: "0 \<le> tb_out b" "tb_out b < int (length (tb_data b))" using ok unfolding tb_ok_def ring_ok_def by linarith+
  show "\<exists>b'. tcp_buf_pop b = Some (b', v) \<and> tb_ok b' \<and> tb_seq b' = vs \<and> tb_size b' = tb_size b"
    using ring_get [OF ok [unfolded tb_ok_def] c] i ne
    by (simp add: tcp_buf_pop_def tb_ok_def tb_seq_def ring_next_def)
qed

lemma write_send_loop_push_all: "n \<le> length bs \<Longrightarrow> write_send_loop n bs b = push_all tcp_buf_push (take n bs) b"
  by (induction n bs b rule: write_send_loop.induct) (auto split: option.splits)

lemma read_rcv_loop_pop_n: "read_rcv_loop n b = pop_n tcp_buf_pop n b"
  by (induction n arbitrary: b) (auto split: option.splits)

lemma tcp_buf_write_send_ok:
  assumes "tb_ok b" "int (length bs) \<le> tcp_buf_free_cnt b"
  shows "\<exists>b'. tcp_buf_write_send b bs (int (length bs)) = Some b' \<and> tb_ok b' \<and> tb_seq b' = tb_seq b @ bs \<and>
           tb_size b' = tb_size b"
  using tb.push_all_seq [OF assms(1), of bs] assms tb_seq_length [OF assms(1)]
  by (simp add: tcp_buf_write_send_def write_send_loop_push_all tcp_buf_free_cnt_def)

lemma tcp_buf_read_rcv_ok:
  assumes "tb_ok b" "0 \<le> sz"
  shows "\<exists>b'. tcp_buf_read_rcv b sz = Some (b', take (nat sz) (tb_seq b), min sz (tb_count b)) \<and> tb_ok b' \<and>
           tb_seq b' = drop (nat sz) (tb_seq b) \<and> tb_size b' = tb_size b"
proof -
  let ?n = "min (nat sz) (length (tb_seq b))"
  have n: "nat (if sz > tb_count b then tb_count b else sz) = ?n"
    using tb_seq_length [OF assms(1)] by auto
  have m: "(if sz > tb_count b then tb_count b else sz) = min sz (tb_count b)" by simp
  from tb.pop_n_seq [OF assms(1), of ?n] obtain b' where
    b': "pop_n tcp_buf_pop ?n b = Some (b', take ?n (tb_seq b))" "tb_ok b'" "tb_seq b' = drop ?n (tb_seq b)" "tb_size b' = tb_size b"
    by auto
  have "take ?n (tb_seq b) = take (nat sz) (tb_seq b)" "drop ?n (tb_seq b) = drop (nat sz) (tb_seq b)"
    by (auto simp: min_def)
  with b' show ?thesis
    unfolding tcp_buf_read_rcv_def Let_def n read_rcv_loop_pop_n m [symmetric] by simp
qed

lemma tcp_buf_remove_ok:
  assumes "tb_ok b" "0 \<le> cnt"
  shows "case tcp_buf_remove b cnt of (b', n) \<Rightarrow>
           n = min cnt (tb_count b) \<and> tb_ok b' \<and> tb_seq b' = drop (nat cnt) (tb_seq b) \<and> tb_size b' = tb_size b"
proof -
  let ?n = "min cnt (tb_count b)"
  have r: "ring_ok (tb_data b) (tb_size b) (tb_in b) (tb_out b) (tb_count b)" using assms(1) by (simp add: tb_ok_def)
  have n: "0 \<le> ?n" "?n \<le> tb_count b" using assms r by (simp_all add: ring_ok_def)
  have w: "ring_wrap (tb_size b) (tb_out b + ?n) = (tb_out b + ?n) mod tb_size b"
    by (rule ring_wrap_mod) (use r n in \<open>auto simp: ring_ok_def\<close>)
  have m: "(if cnt > tb_count b then tb_count b else cnt) = ?n" by simp
  have "drop (nat ?n) (tb_seq b) = drop (nat cnt) (tb_seq b)"
    using tb_seq_length [OF assms(1)] by (auto simp: min_def)
  with ring_drop [OF r n] show ?thesis
    unfolding tcp_buf_remove_def Let_def m w by (simp add: tb_ok_def tb_seq_def)
qed

section \<open>Block transfers\<close>

text \<open>Storing a block that does not cross the end of the array is storing its bytes one by one.\<close>

lemma patch_Cons: "n < length b \<Longrightarrow> patch n (v # bs) b = patch (Suc n) bs (b[n := v])"
  by (simp add: patch_def upd_conv_take_nth_drop take_Suc_conv_app_nth add.commute)

lemma ring_put_block:
  assumes "ring_ok buf sz i_in i_out cnt" "i_in + int (length bs) \<le> sz" "cnt + int (length bs) \<le> sz"
  shows "ring_ok (patch (nat i_in) bs buf) sz (ring_wrap sz (i_in + int (length bs))) i_out (cnt + int (length bs)) \<and>
         ring_seq (patch (nat i_in) bs buf) i_out (cnt + int (length bs)) = ring_seq buf i_out cnt @ bs"
  using assms
proof (induction bs arbitrary: buf i_in cnt)
  case Nil
  then have "i_in < sz" unfolding ring_ok_def by blast
  with Nil show ?case by (simp add: ring_wrap_def)
next
  case (Cons v bs)
  have i: "0 \<le> i_in" "i_in < sz" "sz = int (length buf)" using Cons.prems(1) unfolding ring_ok_def by blast+
  have p: "patch (nat i_in) (v # bs) buf = patch (nat (i_in + 1)) bs (buf[nat i_in := v])"
  proof -
    have "nat (i_in + 1) = Suc (nat i_in)" "nat i_in < length buf" using i by linarith+
    then show ?thesis by (simp add: patch_Cons)
  qed
  note put = ring_put [OF Cons.prems(1), of v]
  show ?case
  proof (cases "bs = []")
    case True
    have "ring_wrap sz (i_in + 1) = ring_next sz i_in" using i by (auto simp: ring_next_def ring_wrap_def)
    moreover have "patch (nat i_in) [v] buf = buf[nat i_in := v]" using p True by simp
    moreover have "cnt < sz" using Cons.prems(3) by simp
    ultimately show ?thesis using put True by simp
  next
    case False
    then have "1 \<le> int (length bs)" by (cases bs) simp_all
    moreover have "i_in + (1 + int (length bs)) \<le> sz" using Cons.prems(2) by simp
    ultimately have "i_in + 1 < sz" by linarith
    then have nx: "ring_next sz i_in = i_in + 1" by (simp add: ring_next_def)
    have c: "cnt < sz" using Cons.prems(3) by simp
    from Cons.IH [OF put(1) [OF c, unfolded nx]] Cons.prems(2,3) put(2) [OF c]
    show ?thesis by (simp add: p add.assoc)
  qed
qed

text \<open>A block that does not cross the end of the array, read from \<open>offset\<close> bytes behind the start.\<close>

lemma ring_read_block:
  assumes ok: "ring_ok buf sz i_in i_out cnt" and o: "0 \<le> offset" "0 \<le> n" "offset + n \<le> cnt"
    and start: "start = (i_out + offset) mod sz" and fit: "start + n \<le> sz"
  shows "take (nat n) (drop (nat start) buf) = take (nat n) (drop (nat offset) (ring_seq buf i_out cnt))"
proof (rule nth_equalityI)
  have sz: "sz = int (length buf)" "0 < sz" using ok unfolding ring_ok_def by blast+
  have st: "0 \<le> start" using sz by (simp add: start)
  have "nat n \<le> length buf - nat start" "nat n \<le> nat cnt - nat offset" using sz st fit o by linarith+
  then show l: "length (take (nat n) (drop (nat start) buf)) =
      length (take (nat n) (drop (nat offset) (ring_seq buf i_out cnt)))" by simp
  fix k assume "k < length (take (nat n) (drop (nat start) buf))"
  then have k: "int k < n" "k < nat n" "nat start + k < length buf" by auto
  have "(i_out + int (nat offset + k)) mod sz = (start + int k) mod sz"
    using o by (simp add: start mod_add_left_eq add.assoc)
  also have "\<dots> = start + int k" using st fit k by (intro mod_pos_pos_trivial) auto
  finally have e: "(i_out + int (nat offset + k)) mod sz = start + int k" .
  have "nat (start + int k) = nat start + k" using st by simp
  moreover have "nat offset + k < nat cnt" using k o by linarith
  ultimately show "take (nat n) (drop (nat start) buf) ! k = take (nat n) (drop (nat offset) (ring_seq buf i_out cnt)) ! k"
    using k o e sz st by (simp add: ring_seq_nth ring_at_def)
qed

text \<open>Sending: the block loop writes the bytes from \<open>offset\<close> on to the packet.\<close>

lemma mod_next_block:
  fixes sz :: int
  assumes "start = (i_out + offset) mod sz" "0 < sz" "0 \<le> n" "start + n \<le> sz"
  shows "ring_wrap sz (start + n) = (i_out + (offset + n)) mod sz"
proof -
  have "0 \<le> start" "start < sz" using assms by simp_all
  then have "ring_wrap sz (start + n) = (start + n) mod sz" using assms by (intro ring_wrap_mod) auto
  then show ?thesis using assms(1) by (simp add: mod_add_left_eq add.assoc)
qed

lemma read_send_loop_ok:
  assumes "tb_ok b" "0 \<le> offset" "0 \<le> cnt" "offset + cnt \<le> tb_count b"
    "start = (tb_out b + offset) mod tb_size b" "cursor_ok s p"
    "pos (packets s p) + cnt \<le> total_size (packets s p)"
  shows "\<exists>s'. read_send_loop b start p cnt s = Some s' \<and> cursor_ok s' p \<and>
    pos (packets s' p) = pos (packets s p) + cnt \<and>
    pkt_becomes s p s' (patch (nat (pos (packets s p))) (take (nat cnt) (drop (nat offset) (tb_seq b))) (packet_bytes s p))"
  using assms
proof (induction "nat cnt" arbitrary: offset cnt start s rule: less_induct)
  case less
  have ring: "ring_ok (tb_data b) (tb_size b) (tb_in b) (tb_out b) (tb_count b)"
    using less.prems(1) by (simp add: tb_ok_def)
  have sz: "tb_size b = int (length (tb_data b))" "0 < tb_size b" using ring unfolding ring_ok_def by blast+
  have st: "0 \<le> start" "start < tb_size b" using less.prems(5) sz(2) by simp_all
  show ?case
  proof (cases "cnt = 0")
    case True
    with less.prems(6) show ?thesis
      by (subst read_send_loop.simps) (simp add: pkt_becomes_def pkt_frame_def cursor_packet_ok)
  next
    case False
    with less.prems(3) have c: "0 < cnt" by simp
    define n where "n = (if start + cnt \<ge> tb_size b then tb_size b else start + cnt) - start"
    have n: "0 < n" "n \<le> cnt" "start + n \<le> tb_size b" using st c by (auto simp: n_def)
    let ?q = "nat (pos (packets s p))" and ?l = "drop (nat start) (tb_data b)"
    have ln: "nat n \<le> length ?l" using n(3) sz(1) st(1) by simp
    have fit: "pos (packets s p) + n \<le> total_size (packets s p)" using n(2) less.prems(7) by simp
    from packet_write_ok [OF less.prems(6) n(1) fit ln] obtain s1 where
      s1: "packet_write p (Some ?l) n s = Some (s1, NET_OK)" "cursor_ok s1 p" "pos (packets s1 p) = pos (packets s p) + n"
        "pkt_becomes s p s1 (patch ?q (take (nat n) ?l) (packet_bytes s p))" by blast
    have blk: "take (nat n) ?l = take (nat n) (drop (nat offset) (tb_seq b))"
      unfolding tb_seq_def using ring_read_block [OF ring less.prems(2) _ _ less.prems(5) n(3)] n less.prems(4) by simp
    have step: "read_send_loop b start p cnt s =
        read_send_loop b (ring_wrap (tb_size b) (start + n)) p (cnt - n) s1"
    proof -
      have e: "(if start + cnt \<ge> tb_size b then tb_size b else start + cnt) = start + n" by (simp add: n_def)
      have i: "\<not> (start < 0 \<or> start + n > int (length (tb_data b)))" using st n sz by simp
      show ?thesis
        by (subst read_send_loop.simps, unfold Let_def e) (use c i s1(1) in \<open>simp\<close>)
    qed
    have q0: "0 \<le> pos (packets s p)" by (rule cursor_bounds [OF less.prems(6)])
    have t: "total_size (packets s p) = int (length (packet_bytes s p))"
      by (rule packet_ok_total [OF cursor_packet_ok [OF less.prems(6)]])
    have le: "?q + nat cnt \<le> length (packet_bytes s p)" using t less.prems(3,7) q0 by linarith
    have b1: "packet_bytes s1 p = patch ?q (take (nat n) ?l) (packet_bytes s p)" using s1(4) by (simp add: pkt_becomes_def)
    have t1: "total_size (packets s1 p) = total_size (packets s p)"
      using packet_ok_total [OF cursor_packet_ok [OF s1(2)]] t b1 le n(2) ln by simp
    have w: "ring_wrap (tb_size b) (start + n) = (tb_out b + (offset + n)) mod tb_size b"
      by (rule mod_next_block [OF less.prems(5) sz(2)]) (use n in auto)
    have "nat (cnt - n) < nat cnt" using n c by simp
    from less.hyps [OF this less.prems(1) _ _ _ w s1(2)] less.prems n t1 s1(3) obtain s' where
      s': "read_send_loop b (ring_wrap (tb_size b) (start + n)) p (cnt - n) s1 = Some s'" "cursor_ok s' p"
        "pos (packets s' p) = pos (packets s p) + cnt"
        "pkt_becomes s1 p s' (patch (nat (pos (packets s p) + n)) (take (nat (cnt - n)) (drop (nat (offset + n)) (tb_seq b))) (packet_bytes s1 p))"
      by auto
    have cn: "nat cnt = nat n + nat (cnt - n)" "nat (offset + n) = nat n + nat offset" "nat (pos (packets s p) + n) = ?q + nat n"
      using n less.prems(2) q0 by linarith+
    have len: "length (take (nat n) ?l) = nat n" using ln by simp
    have "patch (?q + nat n) (take (nat (cnt - n)) (drop (nat n + nat offset) (tb_seq b))) (packet_bytes s1 p) =
          patch ?q (take (nat cnt) (drop (nat offset) (tb_seq b))) (packet_bytes s p)"
    proof -
      have "?q + length (take (nat n) ?l) + length (take (nat (cnt - n)) (drop (nat n + nat offset) (tb_seq b))) \<le> length (packet_bytes s p)"
        using le unfolding cn(1) len length_take by (simp add: min_def)
      from patch_append [OF this] show ?thesis
        unfolding b1 len unfolding blk cn(1) by (simp add: take_add)
    qed
    with s' step pkt_becomes_trans [OF s1(4)] cn show ?thesis by auto
  qed
qed

lemma tcp_buf_read_send_ok:
  assumes "tb_ok b" "0 \<le> offset" "offset \<le> tb_count b" "0 \<le> cnt" "cursor_ok s p"
    "pos (packets s p) + cnt \<le> total_size (packets s p)"
  shows "\<exists>s'. tcp_buf_read_send b offset p cnt s = Some s' \<and> cursor_ok s' p \<and>
    pkt_becomes s p s' (patch (nat (pos (packets s p))) (take (nat cnt) (drop (nat offset) (tb_seq b))) (packet_bytes s p))"
proof -
  let ?n = "if cnt > tb_count b - offset then tb_count b - offset else cnt"
  have r: "0 \<le> tb_out b" "tb_out b < tb_size b" "tb_count b \<le> tb_size b" using assms(1) unfolding tb_ok_def ring_ok_def by blast+
  have w: "ring_wrap (tb_size b) (tb_out b + offset) = (tb_out b + offset) mod tb_size b"
    by (rule ring_wrap_mod) (use r assms in auto)
  have "take (nat ?n) (drop (nat offset) (tb_seq b)) = take (nat cnt) (drop (nat offset) (tb_seq b))"
    using tb_seq_length [OF assms(1)] assms(2,3) by auto
  moreover have "pos (packets s p) + ?n \<le> total_size (packets s p)" using assms(6) by auto
  ultimately show ?thesis
    using read_send_loop_ok [OF assms(1,2) _ _ w assms(5), where cnt = ?n] assms
    unfolding tcp_buf_read_send_def Let_def by auto
qed

text \<open>Receiving: the block loop appends the packet's bytes at its position.\<close>

lemma write_rcv_loop_ok:
  assumes "tb_ok (b\<lparr>tb_in := start\<rparr>)" "0 \<le> sz" "tb_count b + sz \<le> tb_size b" "cursor_ok s p"
    "pos (packets s p) + sz \<le> total_size (packets s p)"
  shows "\<exists>s' b' i. write_rcv_loop b start p sz s = Some (s', b', i) \<and> moved s p s' \<and> cursor_ok s' p \<and>
    pos (packets s' p) = pos (packets s p) + sz \<and>
    tb_ok (b'\<lparr>tb_in := i\<rparr>) \<and> tb_size b' = tb_size b \<and>
    tb_seq b' = tb_seq b @ take (nat sz) (drop (nat (pos (packets s p))) (packet_bytes s p))"
  using assms
proof (induction "nat sz" arbitrary: b sz start s rule: less_induct)
  case less
  have ring: "ring_ok (tb_data b) (tb_size b) start (tb_out b) (tb_count b)"
    using less.prems(1) by (simp add: tb_ok_def)
  have szb: "tb_size b = int (length (tb_data b))" "0 \<le> start" "start < tb_size b" using ring unfolding ring_ok_def by blast+
  show ?case
  proof (cases "sz = 0")
    case True
    with less.prems show ?thesis by (subst write_rcv_loop.simps) (simp add: moved_refl)
  next
    case False
    with less.prems(2) have c: "0 < sz" by simp
    define n where "n = (if sz > tb_size b - start then tb_size b - start else sz)"
    have n: "0 < n" "n \<le> sz" "start + n \<le> tb_size b" using szb c by (auto simp: n_def)
    let ?q = "nat (pos (packets s p))" and ?b = "packet_bytes s p"
    let ?bs = "take (nat n) (drop ?q ?b)"
    have q0: "0 \<le> pos (packets s p)" by (rule cursor_bounds [OF less.prems(4)])
    have fit: "pos (packets s p) + n \<le> total_size (packets s p)" using n(2) less.prems(5) by simp
    from packet_read_ok [OF less.prems(4) n(1) fit] obtain s1 where
      s1: "packet_read p True n s = Some (s1, NET_OK, ?bs)" "moved s p s1" "cursor_ok s1 p" "pos (packets s1 p) = pos (packets s p) + n"
      by blast
    have len: "int (length ?bs) = n"
      using packet_ok_total [OF cursor_packet_ok [OF less.prems(4)]] fit n(1) q0 by simp
    let ?b1 = "b\<lparr>tb_data := patch (nat start) ?bs (tb_data b), tb_count := tb_count b + n\<rparr>"
    let ?i = "ring_wrap (tb_size b) (start + n)"
    have step: "write_rcv_loop b start p sz s = write_rcv_loop ?b1 ?i p (sz - n) s1"
    proof -
      have i: "\<not> (start < 0 \<or> start + n > int (length (tb_data b)))" using szb n by simp
      show ?thesis
        by (subst write_rcv_loop.simps, unfold Let_def n_def [symmetric]) (use c i s1(1) in \<open>simp\<close>)
    qed
    have put: "ring_ok (patch (nat start) ?bs (tb_data b)) (tb_size b) ?i (tb_out b) (tb_count b + n)"
      "ring_seq (patch (nat start) ?bs (tb_data b)) (tb_out b) (tb_count b + n) = tb_seq b @ ?bs"
      using ring_put_block [OF ring, of ?bs] n less.prems(3) unfolding len tb_seq_def by auto
    have "nat (sz - n) < nat sz" using n c by simp
    from less.hyps [OF this, where b = ?b1 and start = ?i and s = s1] put(1) less.prems(3,5) n s1(3,4) moved_same(5) [OF s1(2)] obtain s' b' i where
      s': "write_rcv_loop ?b1 ?i p (sz - n) s1 = Some (s', b', i)" "moved s1 p s'" "cursor_ok s' p"
        "pos (packets s' p) = pos (packets s p) + sz" "tb_ok (b'\<lparr>tb_in := i\<rparr>)" "tb_size b' = tb_size b"
        "tb_seq b' = tb_seq ?b1 @ take (nat (sz - n)) (drop (nat (pos (packets s p) + n)) ?b)"
      unfolding moved_same(9) [OF s1(2)] by (auto simp: tb_ok_def)
    have "tb_seq ?b1 = tb_seq b @ ?bs" using put(2) by (simp add: tb_seq_def)
    moreover have cn: "nat sz = nat n + nat (sz - n)" "nat (pos (packets s p) + n) = nat n + ?q" using n q0 by linarith+
    ultimately have "tb_seq b' = tb_seq b @ take (nat sz) (drop ?q ?b)"
      using s'(7) by (simp add: take_add)
    with s' step moved_trans [OF s1(2)] show ?thesis by auto
  qed
qed

lemma tcp_buf_write_rcv_ok:
  assumes "tb_ok b" "0 \<le> tot" "cursor_ok s p" "pos (packets s p) + tot \<le> total_size (packets s p)"
  shows "\<exists>s' b'. tcp_buf_write_rcv b 0 p tot s = Some (s', b', min tot (tcp_buf_free_cnt b)) \<and> moved s p s' \<and>
    cursor_ok s' p \<and> pos (packets s' p) = pos (packets s p) + min tot (tcp_buf_free_cnt b) \<and> tb_ok b' \<and> tb_size b' = tb_size b \<and>
    tb_seq b' = tb_seq b @ take (nat (min tot (tcp_buf_free_cnt b))) (drop (nat (pos (packets s p))) (packet_bytes s p))"
proof -
  let ?n = "min tot (tcp_buf_free_cnt b)"
  have r: "tb_in b < tb_size b" "tb_count b \<le> tb_size b" using assms(1) unfolding tb_ok_def ring_ok_def by blast+
  have w: "ring_wrap (tb_size b) (tb_in b + 0) = tb_in b" using r by (simp add: ring_wrap_def)
  have m: "(if tot > tcp_buf_free_cnt b - 0 then tcp_buf_free_cnt b - 0 else tot) = ?n" by simp
  have "0 \<le> ?n" "tb_count b + ?n \<le> tb_size b" "pos (packets s p) + ?n \<le> total_size (packets s p)"
    using assms r by (auto simp: tcp_buf_free_cnt_def)
  moreover have "tb_ok (b\<lparr>tb_in := tb_in b\<rparr>)" using assms(1) by simp
  ultimately obtain s' b' i where "write_rcv_loop b (tb_in b) p ?n s = Some (s', b', i)" "moved s p s'" "cursor_ok s' p"
    "pos (packets s' p) = pos (packets s p) + ?n" "tb_ok (b'\<lparr>tb_in := i\<rparr>)" "tb_size b' = tb_size b"
    "tb_seq b' = tb_seq b @ take (nat ?n) (drop (nat (pos (packets s p))) (packet_bytes s p))"
    using write_rcv_loop_ok [OF _ _ _ assms(3), where b = b and start = "tb_in b" and sz = ?n] by blast
  then show ?thesis
    unfolding tcp_buf_write_rcv_def Let_def w m by (auto simp: tb_seq_def)
qed

section \<open>Properties\<close>

text \<open>C36. The send buffer is the stream of unacknowledged bytes: writing appends, copying
  from any offset to a packet puts exactly the stream's bytes there without consuming them,
  whether or not they wrap around the end of the array, and removing acknowledged bytes
  drops them from the front.\<close>

theorem tcp_send_buffer_stream:
  assumes "tb_ok b" "int (length bs) \<le> tcp_buf_free_cnt b"
    "cursor_ok s p" "0 \<le> offset" "offset \<le> tb_count b + int (length bs)"
    "0 \<le> cnt" "pos (packets s p) + cnt \<le> total_size (packets s p)" "0 \<le> acked"
  shows "\<exists>b1 s1 b2. tcp_buf_write_send b bs (int (length bs)) = Some b1 \<and>
           tcp_buf_read_send b1 offset p cnt s = Some s1 \<and>
           packet_bytes s1 p = patch (nat (pos (packets s p)))
             (take (nat cnt) (drop (nat offset) (tb_seq b @ bs))) (packet_bytes s p) \<and>
           tcp_buf_remove b1 acked = (b2, min acked (tb_count b + int (length bs))) \<and>
           tb_ok b2 \<and> tb_seq b2 = drop (nat acked) (tb_seq b @ bs)"
proof -
  from tcp_buf_write_send_ok [OF assms(1,2)] obtain b1 where
    b1: "tcp_buf_write_send b bs (int (length bs)) = Some b1" "tb_ok b1" "tb_seq b1 = tb_seq b @ bs" by blast
  have c: "tb_count b1 = tb_count b + int (length bs)"
    using tb_seq_length [OF b1(2)] tb_seq_length [OF assms(1)] b1(3) by simp
  from tcp_buf_read_send_ok [OF b1(2) assms(4) _ assms(6,3,7)] assms(5) c b1(3) obtain s1 where
    "tcp_buf_read_send b1 offset p cnt s = Some s1"
    "packet_bytes s1 p = patch (nat (pos (packets s p))) (take (nat cnt) (drop (nat offset) (tb_seq b @ bs))) (packet_bytes s p)"
    by (auto simp: pkt_becomes_def)
  moreover obtain b2 n where r: "tcp_buf_remove b1 acked = (b2, n)" by fastforce
  moreover have "n = min acked (tb_count b1)" "tb_ok b2" "tb_seq b2 = drop (nat acked) (tb_seq b1)"
    using tcp_buf_remove_ok [OF b1(2) assms(8)] r by simp_all
  ultimately show ?thesis using b1 c by auto
qed

theorem tcp_send_buffer_stream_witness:
  "\<exists>(s :: packet_state) b1 s1 b2. tcp_buf_write_send (tcp_buf_init [0, 0, 0, 0] 4) [1, 2, 3] 3 = Some b1 \<and>
     tcp_buf_read_send b1 1 0 2 s = Some s1 \<and> packet_bytes s1 0 = patch 0 [2, 3] (packet_bytes s 0) \<and>
     tcp_buf_remove b1 2 = (b2, 2) \<and> tb_seq b2 = [3]"
proof -
  obtain s :: packet_state where s: "cursor_ok s 0" "pos (packets s 0) = 0" "total_size (packets s 0) = 300"
    using sample_cursor by blast
  have "tb_ok (tcp_buf_init [0, 0, 0, 0] 4)" using tb_init_ok [of "[0, 0, 0, 0]"] by simp
  from tcp_send_buffer_stream [OF this, of "[1, 2, 3]" s 0 1 2 2] s show ?thesis
    by (auto simp: tcp_buf_free_cnt_def tb_init_seq) (auto simp: tcp_buf_init_def)
qed

text \<open>C37. What the receive buffer accepts of a segment is what the application reads: the bytes taken, from the position of the
  packet on, are limited to the free room, none is lost, duplicated or reordered, the position of the packet advances by exactly
  the number of accepted bytes, and nothing else of the packets changes.\<close>

theorem tcp_receive_buffer_roundtrip:
  assumes "tb_ok b" "cursor_ok s p" "0 \<le> tot" "pos (packets s p) + tot \<le> total_size (packets s p)"
  shows "\<exists>s1 b1 b2. let n = min tot (tcp_buf_free_cnt b);
             stream = tb_seq b @ take (nat n) (drop (nat (pos (packets s p))) (packet_bytes s p))
           in tcp_buf_write_rcv b 0 p tot s = Some (s1, b1, n) \<and> moved s p s1 \<and> cursor_ok s1 p \<and>
              pos (packets s1 p) = pos (packets s p) + n \<and> tb_ok b1 \<and>
              tcp_buf_read_rcv b1 (tb_count b + n) = Some (b2, stream, tb_count b + n) \<and>
              tb_ok b2 \<and> tb_seq b2 = []"
proof -
  let ?n = "min tot (tcp_buf_free_cnt b)"
  let ?bs = "take (nat ?n) (drop (nat (pos (packets s p))) (packet_bytes s p))"
  have q0: "0 \<le> pos (packets s p)" by (rule cursor_bounds [OF assms(2)])
  have r: "0 \<le> tb_count b" "tb_count b \<le> tb_size b" using assms(1) unfolding tb_ok_def ring_ok_def by blast+
  then have n0: "0 \<le> ?n" using assms(3) by (simp add: tcp_buf_free_cnt_def)
  from tcp_buf_write_rcv_ok [OF assms(1,3,2,4)] obtain s1 b1 where
    w: "tcp_buf_write_rcv b 0 p tot s = Some (s1, b1, ?n)" "moved s p s1" "tb_ok b1" "tb_seq b1 = tb_seq b @ ?bs"
      "cursor_ok s1 p" "pos (packets s1 p) = pos (packets s p) + ?n" by blast
  have len: "int (length ?bs) = ?n"
    using packet_ok_total [OF cursor_packet_ok [OF assms(2)]] assms(4) n0 q0 by simp
  have c: "tb_count b1 = tb_count b + ?n"
    using tb_seq_length [OF w(3)] tb_seq_length [OF assms(1)] w(4) len by simp
  have e: "nat (tb_count b + ?n) = length (tb_seq b1)" using tb_seq_length [OF w(3)] c by simp
  have "0 \<le> tb_count b + ?n" using r(1) n0 by simp
  from tcp_buf_read_rcv_ok [OF w(3) this] obtain b2 where
    "tcp_buf_read_rcv b1 (tb_count b + ?n) = Some (b2, tb_seq b1, tb_count b + ?n)" "tb_ok b2" "tb_seq b2 = []"
    unfolding e c by auto
  with w show ?thesis unfolding Let_def by metis
qed

theorem tcp_receive_buffer_roundtrip_witness:
  "\<exists>(s :: packet_state) s1 b1 b2. tcp_buf_write_rcv (tcp_buf_init [0, 0, 0, 0] 4) 0 0 300 s = Some (s1, b1, 4) \<and>
     tcp_buf_read_rcv b1 4 = Some (b2, take 4 (packet_bytes s 0), 4)"
proof -
  obtain s :: packet_state where s: "cursor_ok s 0" "pos (packets s 0) = 0" "total_size (packets s 0) = 300"
    using sample_cursor by blast
  have "tb_ok (tcp_buf_init [0, 0, 0, 0] 4)" using tb_init_ok [of "[0, 0, 0, 0]"] by simp
  from tcp_receive_buffer_roundtrip [OF this s(1), of 300] s show ?thesis
    by (auto simp: tcp_buf_free_cnt_def tb_init_seq Let_def) (auto simp: tcp_buf_init_def)
qed

end
