(* ===== verification/Net_Tcp.thy ===== *)
theory Net_Tcp
  imports Net_Udp Net_TcpBuf
begin

text \<open>
  The connection records of \<^verbatim>\<open>tcp.h\<close> and \<^verbatim>\<open>tcp.c\<close>, TCP headers, and the parts of the code
  that the sender and the receiver share.  The window, the buffers and the sender's state
  are fields of \<^verbatim>\<open>tcp_t\<close>; the socket part of a \<^verbatim>\<open>tcp_t\<close> is found in the store of sockets, its
  three wait objects and its two timers in theirs.

  \<^verbatim>\<open>TCP_SEQ_LE\<close> and \<^verbatim>\<open>TCP_SEQ_LT\<close> subtract two \<^verbatim>\<open>int32_t\<close>: when the difference does not fit, the
  result is not defined.  The number \<^verbatim>\<open>rand\<close> returns is an input, kept in the state.
\<close>

section \<open>Data\<close>

abbreviation (input) TCP_MAX_NR :: nat where "TCP_MAX_NR \<equiv> 50"
abbreviation (input) TCP_SBUF_SIZE :: nat where "TCP_SBUF_SIZE \<equiv> 100000"
abbreviation (input) TCP_RBUF_SIZE :: nat where "TCP_RBUF_SIZE \<equiv> 2048"
abbreviation (input) TCP_MSS :: int where "TCP_MSS \<equiv> 1460"
abbreviation (input) TCP_KEEPALIVE_TIME :: int where "TCP_KEEPALIVE_TIME \<equiv> 7200"
abbreviation (input) TCP_KEEPALIVE_INTVL :: int where "TCP_KEEPALIVE_INTVL \<equiv> 75"
abbreviation (input) TCP_KEEPALIVE_PROBES :: int where "TCP_KEEPALIVE_PROBES \<equiv> 10"
abbreviation (input) TCP_INIT_RTO :: int where "TCP_INIT_RTO \<equiv> 1000"
abbreviation (input) TCP_RTO_MAX :: int where "TCP_RTO_MAX \<equiv> 8000"
abbreviation (input) TCP_INT_RETRIES :: int where "TCP_INT_RETRIES \<equiv> 5"
abbreviation (input) TCP_TMO_MSL :: int where "TCP_TMO_MSL \<equiv> 5000"
abbreviation (input) TCP_HDR_SIZE :: nat where "TCP_HDR_SIZE \<equiv> 20"

datatype tcp_ostate_t = TCP_OSTATE_IDLE | TCP_OSTATE_SENDING | TCP_OSTATE_REXMIT

datatype tcp_state_t =
    TCP_STATE_FREE | TCP_STATE_CLOSED | TCP_STATE_LISTEN | TCP_STATE_SYN_SENT | TCP_STATE_SYN_RECVD
  | TCP_STATE_ESTABLISHED | TCP_STATE_FIN_WAIT_1 | TCP_STATE_FIN_WAIT_2 | TCP_STATE_CLOSING
  | TCP_STATE_TIME_WAIT | TCP_STATE_CLOSE_WAIT | TCP_STATE_LAST_ACK

record tcp_t =
  t_parent :: ptr
  t_keep_idle :: int
  t_keep_intvl :: int
  t_keep_cnt :: int
  t_keep_retry :: int
  t_backlog :: int
  t_mss :: int
  t_syn_out :: bool
  t_fin_out :: bool
  t_irs_valid :: bool
  t_fin_in :: bool
  t_keep_enable :: bool
  t_inactive :: bool
  t_snd_buf :: tcp_buf_t
  t_snd_una :: u32
  t_snd_nxt :: u32
  t_snd_iss :: u32
  t_ostate :: tcp_ostate_t
  t_rexmit_cnt :: int
  t_rexmit_max :: int
  t_rto :: int
  t_rcv_buf :: tcp_buf_t
  t_rcv_nxt :: u32
  t_rcv_iss :: u32
  t_state :: tcp_state_t

record tcp_state = udp_state +
  tcps :: "addr \<Rightarrow> tcp_t"
  tcp_mblock :: "addr list"
  tcp_list :: "addr list"
  tcp_iss_seq :: u32
  os_rand :: nat

abbreviation (input) keep_timer :: "addr \<Rightarrow> addr" where "keep_timer t \<equiv> 2 + 2 * t"
abbreviation (input) snd_timer :: "addr \<Rightarrow> addr" where "snd_timer t \<equiv> 3 + 2 * t"

definition upd_tcp :: "addr \<Rightarrow> (tcp_t \<Rightarrow> tcp_t) \<Rightarrow> 'a tcp_state_scheme \<Rightarrow> 'a tcp_state_scheme" where
  "upd_tcp t f s = s\<lparr>tcps := (tcps s)(t := f (tcps s t))\<rparr>"

definition tcp_rcv_window :: "tcp_t \<Rightarrow> int" where
  "tcp_rcv_window c = tcp_buf_free_cnt (t_rcv_buf c)"

definition tcp_seq_le :: "u32 \<Rightarrow> u32 \<Rightarrow> bool option" where
  "tcp_seq_le a b = (if fits_int (sint a - sint b) then Some (sint a - sint b \<le> 0) else None)"

definition tcp_seq_lt :: "u32 \<Rightarrow> u32 \<Rightarrow> bool option" where
  "tcp_seq_lt a b = (if fits_int (sint a - sint b) then Some (sint a - sint b < 0) else None)"

section \<open>Headers\<close>

record tcp_hdr_t =
  th_sport :: u16
  th_dport :: u16
  th_seq :: u32
  th_ack :: u32
  th_flags :: u16
  th_win :: u16
  th_checksum :: u16
  th_urgptr :: u16

definition le32_bytes :: "u32 \<Rightarrow> u8 list" where
  "le32_bytes w = [ucast w, ucast (drop_bit 8 w), ucast (drop_bit 16 w), ucast (drop_bit 24 w)]"

definition le32 :: "u8 list \<Rightarrow> u32" where
  "le32 bs = ucast (bs ! 0) OR push_bit 8 (ucast (bs ! 1)) OR push_bit 16 (ucast (bs ! 2)) OR push_bit 24 (ucast (bs ! 3))"

definition tcp_hdr_bytes :: "tcp_hdr_t \<Rightarrow> u8 list" where
  "tcp_hdr_bytes h =
     le16_bytes (th_sport h) @ le16_bytes (th_dport h) @ le32_bytes (th_seq h) @ le32_bytes (th_ack h) @
     le16_bytes (th_flags h) @ le16_bytes (th_win h) @ le16_bytes (th_checksum h) @ le16_bytes (th_urgptr h)"

definition tcp_hdr_of :: "u8 list \<Rightarrow> tcp_hdr_t" where
  "tcp_hdr_of bs =
     \<lparr>th_sport = le16 (bs ! 0) (bs ! 1), th_dport = le16 (bs ! 2) (bs ! 3), th_seq = le32 (drop 4 bs), th_ack = le32 (drop 8 bs),
      th_flags = le16 (bs ! 12) (bs ! 13), th_win = le16 (bs ! 14) (bs ! 15), th_checksum = le16 (bs ! 16) (bs ! 17),
      th_urgptr = le16 (bs ! 18) (bs ! 19)\<rparr>"

definition f_fin :: "tcp_hdr_t \<Rightarrow> bool" where "f_fin h = bit (th_flags h) 8"
definition f_syn :: "tcp_hdr_t \<Rightarrow> bool" where "f_syn h = bit (th_flags h) 9"
definition f_rst :: "tcp_hdr_t \<Rightarrow> bool" where "f_rst h = bit (th_flags h) 10"
definition f_ack :: "tcp_hdr_t \<Rightarrow> bool" where "f_ack h = bit (th_flags h) 12"

text \<open>The 16 flag bits of an outgoing segment, without the header length.\<close>

definition mk_flags :: "bool \<Rightarrow> bool \<Rightarrow> bool \<Rightarrow> bool \<Rightarrow> u16" where
  "mk_flags fin syn rst ack =
     push_bit 8 (of_bool fin) OR push_bit 9 (of_bool syn) OR push_bit 10 (of_bool rst) OR push_bit 12 (of_bool ack)"

definition tcp_hdr_size :: "tcp_hdr_t \<Rightarrow> int" where
  "tcp_hdr_size h = uint (take_bit 4 (drop_bit 4 (th_flags h))) * 4"

definition tcp_set_hdr_size :: "int \<Rightarrow> u16 \<Rightarrow> u16" where
  "tcp_set_hdr_size sz fl = (fl AND NOT 0xF0) OR push_bit 4 (take_bit 4 (of_int (sz div 4)))"

definition tcp_hdr_swap :: "tcp_hdr_t \<Rightarrow> tcp_hdr_t" where
  "tcp_hdr_swap h =
     h\<lparr>th_sport := swap_u16 (th_sport h), th_dport := swap_u16 (th_dport h), th_seq := swap_u32 (th_seq h),
       th_ack := swap_u32 (th_ack h), th_win := swap_u16 (th_win h), th_urgptr := swap_u16 (th_urgptr h)\<rparr>"

definition read_tcp_hdr :: "dptr \<Rightarrow> 'a packet_state_scheme \<Rightarrow> tcp_hdr_t option" where
  "read_tcp_hdr d s = map_option tcp_hdr_of (mem_read d 0 TCP_HDR_SIZE s)"

record tcp_seg_t =
  sg_local_ip :: ipaddr_t
  sg_remote_ip :: ipaddr_t
  sg_hdr :: dptr
  sg_buf :: addr
  sg_data_len :: u32
  sg_seq :: u32
  sg_seq_len :: u32

definition tcp_seg_init :: "addr \<Rightarrow> ipaddr_t \<Rightarrow> ipaddr_t \<Rightarrow> 'a packet_state_scheme \<Rightarrow> tcp_seg_t option" where
  "tcp_seg_init p local remote s =
     do {
       d \<leftarrow> packet_ptr p s;
       h \<leftarrow> read_tcp_hdr d s;
       let data_len = of_int (total_size (packets s p) - tcp_hdr_size h);
       Some \<lparr>sg_local_ip = local, sg_remote_ip = remote, sg_hdr = d, sg_buf = p, sg_data_len = data_len, sg_seq = th_seq h,
             sg_seq_len = data_len + of_bool (f_syn h) + of_bool (f_fin h)\<rparr>
     }"

section \<open>Connection records\<close>

fun tcp_state_name :: "tcp_state_t \<Rightarrow> string" where
  "tcp_state_name TCP_STATE_FREE = ''FREE''"
| "tcp_state_name TCP_STATE_CLOSED = ''CLOSED''"
| "tcp_state_name TCP_STATE_LISTEN = ''LISTEN''"
| "tcp_state_name TCP_STATE_SYN_SENT = ''SYN_SENT''"
| "tcp_state_name TCP_STATE_SYN_RECVD = ''SYN_RCVD''"
| "tcp_state_name TCP_STATE_ESTABLISHED = ''ESTABLISHED''"
| "tcp_state_name TCP_STATE_FIN_WAIT_1 = ''FIN_WAIT_1''"
| "tcp_state_name TCP_STATE_FIN_WAIT_2 = ''FIN_WAIT_2''"
| "tcp_state_name TCP_STATE_CLOSING = ''CLOSING''"
| "tcp_state_name TCP_STATE_TIME_WAIT = ''TIME_WAIT''"
| "tcp_state_name TCP_STATE_CLOSE_WAIT = ''CLOSE_WAIT''"
| "tcp_state_name TCP_STATE_LAST_ACK = ''LAST_ACK''"

fun tcp_ostate_name :: "tcp_ostate_t \<Rightarrow> string" where
  "tcp_ostate_name TCP_OSTATE_IDLE = ''idle''"
| "tcp_ostate_name TCP_OSTATE_SENDING = ''sending''"
| "tcp_ostate_name TCP_OSTATE_REXMIT = ''resending''"

definition tcp_set_state :: "addr \<Rightarrow> tcp_state_t \<Rightarrow> 'a tcp_state_scheme \<Rightarrow> 'a tcp_state_scheme" where
  "tcp_set_state t st s = upd_tcp t (\<lambda>c. c\<lparr>t_state := st\<rparr>) s"

definition tcp_kill_all_timers :: "addr \<Rightarrow> 'a tcp_state_scheme \<Rightarrow> 'a tcp_state_scheme" where
  "tcp_kill_all_timers t s = net_timer_remove (snd_timer t) (net_timer_remove (keep_timer t) s)"

definition tcp_abort :: "addr \<Rightarrow> net_err_t \<Rightarrow> 'a tcp_state_scheme \<Rightarrow> ('a tcp_state_scheme \<times> net_err_t) option" where
  "tcp_abort t err s =
     do {
       s \<leftarrow> sock_wakeup (Tcp_sock t) SOCK_WAIT_ALL err (tcp_set_state t TCP_STATE_CLOSED (tcp_kill_all_timers t s));
       Some (s, NET_OK)
     }"

definition tcp_free :: "addr \<Rightarrow> 'a tcp_state_scheme \<Rightarrow> 'a tcp_state_scheme option" where
  "tcp_free t s =
     (if t_state (tcps s t) = TCP_STATE_FREE then None
      else do {
        s \<leftarrow> sock_wait_destroy (Tcp_sock t, Conn_wait) s;
        s \<leftarrow> sock_wait_destroy (Tcp_sock t, Snd_wait) s;
        s \<leftarrow> sock_wait_destroy (Tcp_sock t, Rcv_wait) s;
        let s = tcp_set_state t TCP_STATE_FREE s;
        Some (s\<lparr>tcp_list := remove1 t (tcp_list s), tcp_mblock := pool_free (tcp_mblock s) t\<rparr>)
      })"

definition tcp_get_free :: "'a tcp_state_scheme \<Rightarrow> ('a tcp_state_scheme \<times> ptr) option" where
  "tcp_get_free s =
     (case pool_alloc (tcp_mblock s) of
        (pool, Some t) \<Rightarrow> Some (s\<lparr>tcp_mblock := pool\<rparr>, Some t)
      | (pool, None) \<Rightarrow>
          (case find (\<lambda>t. t_state (tcps s t) = TCP_STATE_TIME_WAIT) (tcp_list s) of
             None \<Rightarrow> Some (s\<lparr>tcp_mblock := pool\<rparr>, None)
           | Some t \<Rightarrow>
               do {
                 s \<leftarrow> tcp_free t (s\<lparr>tcp_mblock := pool\<rparr>);
                 let (pool, r) = pool_alloc (tcp_mblock s);
                 Some (s\<lparr>tcp_mblock := pool\<rparr>, r)
               }))"

text \<open>
  \<^verbatim>\<open>tcp_alloc\<close>.  \<^verbatim>\<open>memset\<close> overwrites the links of the two timers, so that their lists are
  broken when one of them is still linked.  The failure path destroys only the connection's
  wait object, through a pointer that is still null.
\<close>

definition zero_tcp :: tcp_t where
  "zero_tcp = \<lparr>t_parent = None, t_keep_idle = 0, t_keep_intvl = 0, t_keep_cnt = 0, t_keep_retry = 0, t_backlog = 0, t_mss = 0,
     t_syn_out = False, t_fin_out = False, t_irs_valid = False, t_fin_in = False, t_keep_enable = False, t_inactive = False,
     t_snd_buf = tcp_buf_init (replicate TCP_SBUF_SIZE 0) 0, t_snd_una = 0, t_snd_nxt = 0, t_snd_iss = 0,
     t_ostate = TCP_OSTATE_IDLE, t_rexmit_cnt = 0, t_rexmit_max = 0, t_rto = 0,
     t_rcv_buf = tcp_buf_init (replicate TCP_RBUF_SIZE 0) 0, t_rcv_nxt = 0, t_rcv_iss = 0, t_state = TCP_STATE_FREE\<rparr>"

definition timers_linked :: "addr \<Rightarrow> 'a tcp_state_scheme \<Rightarrow> bool" where
  "timers_linked t s \<longleftrightarrow>
     keep_timer t \<in> set (timer_list s) \<or> keep_timer t \<in> set (wait_list s) \<or>
     snd_timer t \<in> set (timer_list s) \<or> snd_timer t \<in> set (wait_list s)"

definition tcp_init_waits :: "addr \<Rightarrow> 'a tcp_state_scheme \<Rightarrow> 'a tcp_state_scheme \<times> net_err_t" where
  "tcp_init_waits t s =
     (let a = Tcp_sock t; (s, err) = sock_wait_init (a, Snd_wait) s
      in if net_err_neg err then (s, err)
         else let (s, err) = sock_wait_init (a, Rcv_wait) (upd_sock a (\<lambda>k. k\<lparr>so_snd_wait := Some (a, Snd_wait)\<rparr>) s)
              in if net_err_neg err then (s, err)
                 else let (s, err) = sock_wait_init (a, Conn_wait) (upd_sock a (\<lambda>k. k\<lparr>so_rcv_wait := Some (a, Rcv_wait)\<rparr>) s)
                      in if net_err_neg err then (s, err)
                         else (upd_sock a (\<lambda>k. k\<lparr>so_conn_wait := Some (a, Conn_wait)\<rparr>) s, NET_OK))"

definition tcp_alloc :: "int \<Rightarrow> int \<Rightarrow> 'a tcp_state_scheme \<Rightarrow> ('a tcp_state_scheme \<times> ptr) option" where
  "tcp_alloc family protocol s =
     do {
       (s, r) \<leftarrow> tcp_get_free s;
       case r of
         None \<Rightarrow> Some (s, None)
       | Some t \<Rightarrow>
           if timers_linked t s then None
           else let (s, err) = sock_init (Tcp_sock t) family protocol Tcp_ops (upd_tcp t (\<lambda>_. zero_tcp) s)
                in if net_err_neg err then Some (s\<lparr>tcp_mblock := pool_free (tcp_mblock s) t\<rparr>, None)
                   else let s = upd_tcp t (\<lambda>c. c\<lparr>t_keep_enable := False, t_keep_idle := TCP_KEEPALIVE_TIME,
                                  t_keep_intvl := TCP_KEEPALIVE_INTVL, t_keep_cnt := TCP_KEEPALIVE_PROBES,
                                  t_state := TCP_STATE_CLOSED, t_ostate := TCP_OSTATE_IDLE, t_rto := TCP_INIT_RTO,
                                  t_rexmit_max := TCP_INT_RETRIES, t_snd_una := 0, t_snd_nxt := 0, t_snd_iss := 0,
                                  t_rcv_nxt := 0, t_rcv_iss := 0\<rparr>) s;
                            (s, err) = tcp_init_waits t s
                        in if net_err_neg err
                           then do {
                             s \<leftarrow> destroy_if (so_conn_wait (socks s (Tcp_sock t))) s;
                             Some (s\<lparr>tcp_mblock := pool_free (tcp_mblock s) t\<rparr>, None)
                           }
                           else Some (s, Some t)
     }"

definition tcp_insert :: "addr \<Rightarrow> 'a tcp_state_scheme \<Rightarrow> 'a tcp_state_scheme option" where
  "tcp_insert t s =
     (let s = s\<lparr>tcp_list := tcp_list s @ [t]\<rparr> in if length (tcp_list s) \<le> TCP_MAX_NR then Some s else None)"

definition tcp_create :: "int \<Rightarrow> int \<Rightarrow> 'a tcp_state_scheme \<Rightarrow> ('a tcp_state_scheme \<times> sock_addr option) option" where
  "tcp_create family protocol s =
     do {
       (s, r) \<leftarrow> tcp_alloc family protocol s;
       case r of
         None \<Rightarrow> Some (s, None)
       | Some t \<Rightarrow> do { s \<leftarrow> tcp_insert t s; Some (s, Some (Tcp_sock t)) }
     }"

definition tcp_init :: "'a tcp_state_scheme \<Rightarrow> 'a tcp_state_scheme \<times> net_err_t" where
  "tcp_init s = (s\<lparr>tcp_mblock := [0..<TCP_MAX_NR], tcp_list := []\<rparr>, NET_OK)"

text \<open>The initial sequence number: a static variable, advanced by a constant.\<close>

definition tcp_get_iss :: "'a tcp_state_scheme \<Rightarrow> 'a tcp_state_scheme \<times> u32" where
  "tcp_get_iss s =
     (let q = tcp_iss_seq s + (if tcp_iss_seq s = 0 then 32435 else 305) in (s\<lparr>tcp_iss_seq := q\<rparr>, q))"

definition tcp_init_connect :: "addr \<Rightarrow> 'a tcp_state_scheme \<Rightarrow> 'a tcp_state_scheme \<times> net_err_t" where
  "tcp_init_connect t s =
     (let (s, iss) = tcp_get_iss s
      in (upd_tcp t (\<lambda>c. c\<lparr>t_snd_buf := tcp_buf_init (tb_data (t_snd_buf c)) (int TCP_SBUF_SIZE), t_snd_iss := iss,
            t_snd_nxt := iss, t_snd_una := iss, t_rcv_buf := tcp_buf_init (tb_data (t_rcv_buf c)) (int TCP_RBUF_SIZE),
            t_rcv_nxt := 0, t_mss := TCP_MSS\<rparr>) s, NET_OK))"

text \<open>The scan of \<^verbatim>\<open>tcp_find\<close>; \<open>m\<close> is the listening socket bound to any address seen so far.\<close>

fun tcp_find_loop :: "ipaddr_t \<Rightarrow> u16 \<Rightarrow> ipaddr_t \<Rightarrow> u16 \<Rightarrow> 'a tcp_state_scheme \<Rightarrow> ptr \<Rightarrow> addr list \<Rightarrow> ptr" where
  "tcp_find_loop lip lp rip rp s m [] = m"
| "tcp_find_loop lip lp rip rp s m (t # ts) =
     (let k = socks s (Tcp_sock t)
      in if ipaddr_is_equal (so_local_ip k) lip \<and> so_local_port k = lp \<and>
            ipaddr_is_equal (so_remote_ip k) rip \<and> so_remote_port k = rp then Some t
         else if t_state (tcps s t) = TCP_STATE_LISTEN \<and> so_local_port k = lp
         then if ipaddr_is_equal (so_local_ip k) lip then Some t
              else tcp_find_loop lip lp rip rp s (if ipaddr_is_any (so_local_ip k) then Some t else m) ts
         else tcp_find_loop lip lp rip rp s m ts)"

definition tcp_find :: "ipaddr_t \<Rightarrow> u16 \<Rightarrow> ipaddr_t \<Rightarrow> u16 \<Rightarrow> 'a tcp_state_scheme \<Rightarrow> ptr" where
  "tcp_find local_ip local_port remote_ip remote_port s =
     tcp_find_loop local_ip local_port remote_ip remote_port s None (tcp_list s)"

definition tcp_backlog_count :: "addr \<Rightarrow> 'a tcp_state_scheme \<Rightarrow> int" where
  "tcp_backlog_count t s = int (length (filter (\<lambda>c. t_parent (tcps s c) = Some t \<and> t_inactive (tcps s c)) (tcp_list s)))"

end
