(* ===== verification/Net_Tcp_Out.thy ===== *)
theory Net_Tcp_Out
  imports Net_Tcp
begin

text \<open>
  \<^verbatim>\<open>src/stack/transport/tcp_out.c\<close>: the segments TCP sends, the treatment of acknowledgements
  and the sender's automaton with its retransmission timer.  Headers are written through a
  pointer taken when the packet was allocated.
\<close>

section \<open>Segments\<close>

definition send_out :: "dptr \<Rightarrow> addr \<Rightarrow> ipaddr_t \<Rightarrow> ipaddr_t \<Rightarrow> 'a tcp_state_scheme \<Rightarrow> ('a tcp_state_scheme \<times> net_err_t) option" where
  "send_out d p dest src s =
     do {
       h \<leftarrow> read_tcp_hdr d s;
       s \<leftarrow> mem_write d 0 (tcp_hdr_bytes ((tcp_hdr_swap h)\<lparr>th_checksum := 0\<rparr>)) s;
       (s, c) \<leftarrow> checksum_peso (ipaddr_to_buf dest) (ipaddr_to_buf src) NET_PROTOCOL_TCP p s;
       s \<leftarrow> mem_write d 16 (le16_bytes c) s;
       (s, err) \<leftarrow> ipv4_out NET_PROTOCOL_TCP dest (Some src) p s;
       Some (if net_err_neg err then packet_free p s else s, err)
     }"

text \<open>
  A segment of a header only, with the fields given; the checksum is set by \<open>send_out\<close> and the
  length field by \<^verbatim>\<open>tcp_set_hdr_size\<close>.
\<close>

definition tcp_bare_hdr :: "u16 \<Rightarrow> u16 \<Rightarrow> u32 \<Rightarrow> u32 \<Rightarrow> u16 \<Rightarrow> u16 \<Rightarrow> u8 list \<Rightarrow> u8 list" where
  "tcp_bare_hdr sport dport sq ack fl win csum =
     le16_bytes sport @ le16_bytes dport @ le32_bytes sq @ le32_bytes ack @
     le16_bytes (tcp_set_hdr_size (int TCP_HDR_SIZE) fl) @ le16_bytes win @ csum @ le16_bytes 0"

definition send_bare ::
  "u16 \<Rightarrow> u16 \<Rightarrow> u32 \<Rightarrow> u32 \<Rightarrow> u16 \<Rightarrow> u16 \<Rightarrow> ipaddr_t \<Rightarrow> ipaddr_t \<Rightarrow> 'a tcp_state_scheme \<Rightarrow> ('a tcp_state_scheme \<times> net_err_t) option" where
  "send_bare sport dport sq ack fl win dest src s =
     (case packet_alloc (int TCP_HDR_SIZE) s of
        (s, None) \<Rightarrow> Some (s, NET_ERR_NONE)
      | (s, Some p) \<Rightarrow>
          do {
            d \<leftarrow> packet_ptr p s;
            csum \<leftarrow> mem_read d 16 2 s;
            s \<leftarrow> mem_write d 0 (tcp_bare_hdr sport dport sq ack fl win csum) s;
            send_out d p dest src s
          })"

definition tcp_send_reset :: "tcp_seg_t \<Rightarrow> 'a tcp_state_scheme \<Rightarrow> ('a tcp_state_scheme \<times> net_err_t) option" where
  "tcp_send_reset seg s =
     do {
       h \<leftarrow> read_tcp_hdr (sg_hdr seg) s;
       if f_rst h then Some (s, NET_OK)
       else if f_ack h
       then send_bare (th_dport h) (th_sport h) (th_ack h) 0 (mk_flags False False True False) 0 (sg_remote_ip seg) (sg_local_ip seg) s
       else send_bare (th_dport h) (th_sport h) 0 (th_seq h + sg_seq_len seg) (mk_flags False False True True) 0
              (sg_remote_ip seg) (sg_local_ip seg) s
     }"

definition tcp_send_ack :: "addr \<Rightarrow> tcp_seg_t \<Rightarrow> 'a tcp_state_scheme \<Rightarrow> ('a tcp_state_scheme \<times> net_err_t) option" where
  "tcp_send_ack t seg s =
     do {
       h \<leftarrow> read_tcp_hdr (sg_hdr seg) s;
       let c = tcps s t;
       let k = socks s (Tcp_sock t);
       if f_rst h then Some (s, NET_OK)
       else send_bare (so_local_port k) (so_remote_port k) (t_snd_nxt c) (t_rcv_nxt c) (mk_flags False False False True)
              (of_int (tcp_rcv_window c)) (sg_remote_ip seg) (sg_local_ip seg) s
     }"

definition tcp_send_reset_for_tcp :: "addr \<Rightarrow> 'a tcp_state_scheme \<Rightarrow> ('a tcp_state_scheme \<times> net_err_t) option" where
  "tcp_send_reset_for_tcp t s =
     (let c = tcps s t; k = socks s (Tcp_sock t)
      in send_bare (so_local_port k) (so_remote_port k) (t_snd_nxt c) (t_rcv_nxt c) (mk_flags False False True True)
           (of_int (tcp_rcv_window c)) (so_remote_ip k) (so_local_ip k) s)"

definition tcp_send_keepalive :: "addr \<Rightarrow> 'a tcp_state_scheme \<Rightarrow> ('a tcp_state_scheme \<times> net_err_t) option" where
  "tcp_send_keepalive t s =
     (let c = tcps s t; k = socks s (Tcp_sock t)
      in send_bare (so_local_port k) (so_remote_port k) (t_snd_nxt c - 1) (t_rcv_nxt c) (mk_flags False False False True)
           (of_int (tcp_rcv_window c)) (so_remote_ip k) (so_local_ip k) s)"

section \<open>Data\<close>

definition get_send_info :: "tcp_t \<Rightarrow> bool \<Rightarrow> int \<times> int" where
  "get_send_info c rexmit =
     (let doff = (if rexmit then 0 else if t_syn_out c then 0 else sint (t_snd_nxt c - t_snd_una c));
          dlen = tcp_buf_cnt (t_snd_buf c) - doff
      in (doff, if dlen > t_mss c then t_mss c else dlen))"

definition write_sync_option :: "addr \<Rightarrow> addr \<Rightarrow> 'a tcp_state_scheme \<Rightarrow> 'a tcp_state_scheme option" where
  "write_sync_option t p s =
     do {
       (s, err) \<leftarrow> packet_resize p (total_size (packets s p) + 4) s;
       if net_err_neg err then Some s
       else do {
         (s, _) \<leftarrow> packet_seek p (int TCP_HDR_SIZE) (packet_reset_pos (Some p) s);
         (s, _) \<leftarrow> packet_write p (Some ([2, 4] @ le16_bytes (swap_u16 (of_int (t_mss (tcps s t)))))) 4 s;
         Some s
       }
     }"

definition copy_send_data :: "addr \<Rightarrow> addr \<Rightarrow> int \<Rightarrow> int \<Rightarrow> 'a tcp_state_scheme \<Rightarrow> ('a tcp_state_scheme \<times> int) option" where
  "copy_send_data t p doff dlen s =
     (if dlen = 0 then Some (s, 0)
      else do {
        (s, err) \<leftarrow> packet_resize p (total_size (packets s p) + dlen) s;
        if net_err_neg err then Some (s, - 1)
        else do {
          d \<leftarrow> packet_ptr p s;
          h \<leftarrow> read_tcp_hdr d s;
          (s, _) \<leftarrow> packet_seek p (tcp_hdr_size h) (packet_reset_pos (Some p) s);
          s \<leftarrow> tcp_buf_read_send (t_snd_buf (tcps s t)) doff p dlen s;
          Some (s, dlen)
        }
      })"

text \<open>
  What \<^verbatim>\<open>tcp_transmit\<close> and \<^verbatim>\<open>tcp_retransmit\<close> do after the packet is allocated and before the
  sequence numbers move: the header with the flags known so far, the option of a SYN, the
  window and the length, and the data.
\<close>

definition fill_segment ::
  "addr \<Rightarrow> addr \<Rightarrow> dptr \<Rightarrow> u32 \<Rightarrow> u16 \<Rightarrow> bool \<Rightarrow> int \<Rightarrow> int \<Rightarrow> 'a tcp_state_scheme \<Rightarrow> 'a tcp_state_scheme option" where
  "fill_segment t p d sq fl syn doff dlen s =
     do {
       let c = tcps s t;
       let k = socks s (Tcp_sock t);
       s \<leftarrow> mem_write d 0 (le16_bytes (so_local_port k) @ le16_bytes (so_remote_port k) @ le32_bytes sq @
              le32_bytes (t_rcv_nxt c) @ le16_bytes fl) s;
       s \<leftarrow> (if syn then write_sync_option t p s else Some s);
       s \<leftarrow> mem_write d 12 (le16_bytes (tcp_set_hdr_size (total_size (packets s p)) fl) @
              le16_bytes (of_int (tcp_rcv_window c))) s;
       s \<leftarrow> mem_write d 18 (le16_bytes 0) s;
       (s, _) \<leftarrow> copy_send_data t p doff dlen s;
       Some s
     }"

definition tcp_transmit :: "addr \<Rightarrow> 'a tcp_state_scheme \<Rightarrow> ('a tcp_state_scheme \<times> net_err_t) option" where
  "tcp_transmit t s =
     (let c = tcps s t;
          (doff, dlen) = get_send_info c False;
          fin = (t_fin_out c \<and> tcp_buf_cnt (t_snd_buf c) = 0);
          seq_len = dlen + of_bool (t_syn_out c) + of_bool fin
      in if dlen < 0 then Some (s, NET_OK)
         else if seq_len = 0 then Some (s, NET_OK)
         else case packet_alloc (int TCP_HDR_SIZE) s of
                (s, None) \<Rightarrow> Some (s, NET_OK)
              | (s, Some p) \<Rightarrow>
                  do {
                    d \<leftarrow> packet_ptr p s;
                    s \<leftarrow> fill_segment t p d (t_snd_nxt c) (mk_flags fin (t_syn_out c) False (t_irs_valid c)) (t_syn_out c) doff dlen s;
                    let s = upd_tcp t (\<lambda>c. c\<lparr>t_snd_nxt := t_snd_nxt c + of_int dlen + of_bool (t_syn_out c) + of_bool fin\<rparr>) s;
                    send_out d p (so_remote_ip (socks s (Tcp_sock t))) (so_local_ip (socks s (Tcp_sock t))) s
                  })"

text \<open>\<^verbatim>\<open>tcp_retransmit\<close>; the FIN flag is set last, in a header whose other flags are complete.\<close>

definition tcp_retransmit :: "addr \<Rightarrow> 'a tcp_state_scheme \<Rightarrow> ('a tcp_state_scheme \<times> net_err_t) option" where
  "tcp_retransmit t s =
     (let c = tcps s t;
          (doff, dlen) = get_send_info c True;
          fin = (t_fin_out c \<and> tcp_buf_cnt (t_snd_buf c) = 0);
          seq_len = dlen + of_bool (t_syn_out c) + of_bool (t_fin_out c)
      in if dlen < 0 then Some (s, NET_OK)
         else if seq_len = 0 then Some (s, NET_OK)
         else case packet_alloc (int TCP_HDR_SIZE) s of
                (s, None) \<Rightarrow> Some (s, NET_OK)
              | (s, Some p) \<Rightarrow>
                  do {
                    d \<leftarrow> packet_ptr p s;
                    s \<leftarrow> fill_segment t p d (t_snd_una c) (mk_flags False (t_syn_out c) False (t_irs_valid c)) (t_syn_out c) doff dlen s;
                    h \<leftarrow> read_tcp_hdr d s;
                    s \<leftarrow> mem_write d 12 (le16_bytes (th_flags h OR mk_flags fin False False False)) s;
                    let diff = sint (t_snd_una c + of_int dlen - t_snd_nxt c);
                    let s = upd_tcp t (\<lambda>c. c\<lparr>t_snd_nxt := t_snd_nxt c + of_int (if diff > 0 then diff else 0)\<rparr>) s;
                    send_out d p (so_remote_ip (socks s (Tcp_sock t))) (so_local_ip (socks s (Tcp_sock t))) s
                  })"

definition tcp_write_sndbuf :: "addr \<Rightarrow> u8 list \<Rightarrow> int \<Rightarrow> 'a tcp_state_scheme \<Rightarrow> ('a tcp_state_scheme \<times> int) option" where
  "tcp_write_sndbuf t buf len s =
     (let free_cnt = tcp_buf_free_cnt (t_snd_buf (tcps s t))
      in if free_cnt \<le> 0 then Some (s, 0)
         else let wr_len = (if len > free_cnt then free_cnt else len)
              in do {
                   b \<leftarrow> tcp_buf_write_send (t_snd_buf (tcps s t)) buf wr_len;
                   Some (upd_tcp t (\<lambda>c. c\<lparr>t_snd_buf := b\<rparr>) s, wr_len)
                 })"

section \<open>Acknowledgements\<close>

text \<open>The part of \<^verbatim>\<open>tcp_ack_process\<close> that moves the window of one connection; the second result tells whether to wake writers.\<close>

definition ack_window :: "u32 \<Rightarrow> tcp_t \<Rightarrow> tcp_t \<times> bool" where
  "ack_window ack c =
     (let c = (if t_syn_out c then c\<lparr>t_snd_una := t_snd_una c + 1, t_syn_out := False\<rparr> else c);
          acked_cnt = sint (ack - t_snd_una c);
          unacked_cnt = sint (t_snd_nxt c - t_snd_una c);
          curr_acked = (if acked_cnt > unacked_cnt then unacked_cnt else acked_cnt)
      in if curr_acked > 0
         then let (b, removed) = tcp_buf_remove (t_snd_buf c) curr_acked
              in (c\<lparr>t_snd_una := t_snd_una c + of_int curr_acked, t_snd_buf := b,
                    t_fin_out := (if curr_acked - removed \<noteq> 0 \<and> t_fin_out c then False else t_fin_out c)\<rparr>, True)
         else (c, False))"

definition tcp_ack_process :: "addr \<Rightarrow> tcp_seg_t \<Rightarrow> 'a tcp_state_scheme \<Rightarrow> ('a tcp_state_scheme \<times> net_err_t) option" where
  "tcp_ack_process t seg s =
     do {
       h \<leftarrow> read_tcp_hdr (sg_hdr seg) s;
       old \<leftarrow> tcp_seq_le (th_ack h) (t_snd_una (tcps s t));
       if old then Some (s, NET_OK)
       else do {
         future \<leftarrow> tcp_seq_lt (t_snd_nxt (tcps s t)) (th_ack h);
         if future then Some (s, NET_ERR_UNREACH)
         else let (c, wake) = ack_window (th_ack h) (tcps s t);
                  s = upd_tcp t (\<lambda>_. c) s
              in if wake
                 then do { s \<leftarrow> sock_wakeup (Tcp_sock t) {Snd_wait} NET_OK s; Some (s, NET_OK) }
                 else Some (s, NET_OK)
       }
     }"

section \<open>The sender's automaton\<close>

text \<open>\<^verbatim>\<open>tcp->snd.rto <<= 1\<close> on an \<^verbatim>\<open>int\<close>, not defined when the result does not fit.\<close>

definition rto_double :: "int \<Rightarrow> int option" where
  "rto_double rto = (if fits_int (rto * 2) then Some (rto * 2) else None)"

definition tcp_out_timer_tmo :: "addr \<Rightarrow> 'a tcp_state_scheme \<Rightarrow> 'a tcp_state_scheme option" where
  "tcp_out_timer_tmo t s =
     (case t_ostate (tcps s t) of
        TCP_OSTATE_SENDING \<Rightarrow>
          do {
            (s, err) \<leftarrow> tcp_retransmit t s;
            if net_err_neg err then Some s
            else do {
              rto \<leftarrow> rto_double (t_rto (tcps s t));
              let s = upd_tcp t (\<lambda>c. c\<lparr>t_rexmit_cnt := 1, t_rto := rto, t_ostate := TCP_OSTATE_REXMIT\<rparr>) s;
              (s, _) \<leftarrow> net_timer_add (snd_timer t) (tcp_ostate_name (t_ostate (tcps s t))) TCP_OUT_TIMER_TMO t (t_rto (tcps s t)) 0 s;
              Some s
            }
          }
      | TCP_OSTATE_REXMIT \<Rightarrow>
          do {
            let s = upd_tcp t (\<lambda>c. c\<lparr>t_rexmit_cnt := t_rexmit_cnt c + 1\<rparr>) s;
            if t_rexmit_cnt (tcps s t) > t_rexmit_max (tcps s t)
            then do { (s, _) \<leftarrow> tcp_abort t NET_ERR_TIMEOUT s; Some s }
            else do {
              (s, err) \<leftarrow> tcp_retransmit t s;
              if net_err_neg err then Some s
              else do {
                rto \<leftarrow> rto_double (t_rto (tcps s t));
                let s = upd_tcp t (\<lambda>c. c\<lparr>t_rto := (if rto \<ge> TCP_RTO_MAX then TCP_RTO_MAX else rto)\<rparr>) s;
                (s, _) \<leftarrow> net_timer_add (snd_timer t) (tcp_ostate_name (t_ostate (tcps s t))) TCP_OUT_TIMER_TMO t (t_rto (tcps s t)) 0 s;
                Some s
              }
            }
          }
      | TCP_OSTATE_IDLE \<Rightarrow> Some s)"

definition tcp_set_ostate :: "addr \<Rightarrow> tcp_ostate_t \<Rightarrow> 'a tcp_state_scheme \<Rightarrow> 'a tcp_state_scheme option" where
  "tcp_set_ostate t st s =
     (if st = TCP_OSTATE_IDLE
      then Some (net_timer_remove (snd_timer t) (upd_tcp t (\<lambda>c. c\<lparr>t_rto := TCP_INIT_RTO, t_ostate := st\<rparr>) s))
      else do {
        let tmo = t_rto (tcps s t);
        let s = net_timer_remove (snd_timer t) (upd_tcp t (\<lambda>c. c\<lparr>t_ostate := st\<rparr>) s);
        (s, _) \<leftarrow> net_timer_add (snd_timer t) (tcp_ostate_name st) TCP_OUT_TIMER_TMO t tmo 0 s;
        Some s
      })"

datatype tcp_oevent_t = TCP_OEVENT_SEND | TCP_OEVENT_XMIT | TCP_OEVENT_TMO

definition tcp_ostate_idle_in :: "addr \<Rightarrow> tcp_oevent_t \<Rightarrow> 'a tcp_state_scheme \<Rightarrow> 'a tcp_state_scheme option" where
  "tcp_ostate_idle_in t event s =
     (if event = TCP_OEVENT_SEND
      then do { (s, _) \<leftarrow> tcp_transmit t s; tcp_set_ostate t TCP_OSTATE_SENDING s }
      else Some s)"

definition tcp_ostate_sending_in :: "addr \<Rightarrow> tcp_oevent_t \<Rightarrow> 'a tcp_state_scheme \<Rightarrow> 'a tcp_state_scheme option" where
  "tcp_ostate_sending_in t event s =
     (let c = tcps s t
      in if event \<noteq> TCP_OEVENT_SEND then Some s
         else if t_snd_una c = t_snd_nxt c \<or> t_fin_out c
         then if tcp_buf_cnt (t_snd_buf c) \<noteq> 0 \<or> t_fin_out c
              then do { (s, _) \<leftarrow> tcp_transmit t s; tcp_set_ostate t TCP_OSTATE_SENDING s }
              else tcp_set_ostate t TCP_OSTATE_IDLE s
         else Some s)"

definition tcp_ostate_rexmit_in :: "addr \<Rightarrow> tcp_oevent_t \<Rightarrow> 'a tcp_state_scheme \<Rightarrow> 'a tcp_state_scheme option" where
  "tcp_ostate_rexmit_in t event s =
     (let c = tcps s t
      in if event \<noteq> TCP_OEVENT_SEND then Some s
         else if t_snd_una c = t_snd_nxt c \<or> t_fin_out c
         then if tcp_buf_cnt (t_snd_buf c) \<noteq> 0 \<or> t_fin_out c
              then do { (s, _) \<leftarrow> tcp_transmit t s; tcp_set_ostate t TCP_OSTATE_SENDING s }
              else tcp_set_ostate t TCP_OSTATE_IDLE s
         else do {
           s \<leftarrow> tcp_set_ostate t TCP_OSTATE_REXMIT s;
           (s, _) \<leftarrow> tcp_retransmit t s;
           Some s
         })"

definition tcp_out_event :: "addr \<Rightarrow> tcp_oevent_t \<Rightarrow> 'a tcp_state_scheme \<Rightarrow> 'a tcp_state_scheme option" where
  "tcp_out_event t event s =
     (case t_ostate (tcps s t) of
        TCP_OSTATE_IDLE \<Rightarrow> tcp_ostate_idle_in t event s
      | TCP_OSTATE_SENDING \<Rightarrow> tcp_ostate_sending_in t event s
      | TCP_OSTATE_REXMIT \<Rightarrow> tcp_ostate_rexmit_in t event s)"

definition tcp_send_syn :: "addr \<Rightarrow> 'a tcp_state_scheme \<Rightarrow> ('a tcp_state_scheme \<times> net_err_t) option" where
  "tcp_send_syn t s =
     do { s \<leftarrow> tcp_out_event t TCP_OEVENT_SEND (upd_tcp t (\<lambda>c. c\<lparr>t_syn_out := True\<rparr>) s); Some (s, NET_OK) }"

definition tcp_send_fin :: "addr \<Rightarrow> 'a tcp_state_scheme \<Rightarrow> ('a tcp_state_scheme \<times> net_err_t) option" where
  "tcp_send_fin t s =
     do { s \<leftarrow> tcp_out_event t TCP_OEVENT_SEND (upd_tcp t (\<lambda>c. c\<lparr>t_fin_out := True\<rparr>) s); Some (s, NET_OK) }"

end
