(* ===== verification/Net_Tcp_In.thy ===== *)
theory Net_Tcp_In
  imports Net_Tcp_Out
begin

text \<open>
  \<^verbatim>\<open>src/stack/transport/tcp_in.c\<close> and \<^verbatim>\<open>tcp_state.c\<close>: a segment comes in and is handled in the
  state of its connection.  \<open>seg->hdr\<close> points into the packet, which none of the called
  functions changes, so each function reads the header once.
\<close>

section \<open>Keepalive\<close>

text \<open>The product of a time in seconds with 1000 on an \<^verbatim>\<open>int\<close>, not defined when the result does not fit.\<close>

definition secs_ms :: "int \<Rightarrow> int option" where
  "secs_ms k = (if fits_int (k * 1000) then Some (k * 1000) else None)"

definition keepalive_start_timer :: "addr \<Rightarrow> 'a tcp_state_scheme \<Rightarrow> 'a tcp_state_scheme option" where
  "keepalive_start_timer t s =
     do {
       let s = upd_tcp t (\<lambda>c. c\<lparr>t_keep_retry := 0\<rparr>) s;
       ms \<leftarrow> secs_ms (t_keep_idle (tcps s t));
       (s, _) \<leftarrow> net_timer_add (keep_timer t) ''keepalive'' TCP_KEEPALIVE_TMO t ms 0 s;
       Some s
     }"

text \<open>\<^verbatim>\<open>run\<close> is an \<^verbatim>\<open>int\<close>; the flag it is stored in has one bit.\<close>

definition tcp_keepalive_start :: "addr \<Rightarrow> int \<Rightarrow> 'a tcp_state_scheme \<Rightarrow> 'a tcp_state_scheme option" where
  "tcp_keepalive_start t run s =
     do {
       s \<leftarrow> (if t_keep_enable (tcps s t) \<and> run = 0 then Some (net_timer_remove (keep_timer t) s)
             else if \<not> t_keep_enable (tcps s t) \<and> run \<noteq> 0 then keepalive_start_timer t s
             else Some s);
       Some (upd_tcp t (\<lambda>c. c\<lparr>t_keep_enable := odd run\<rparr>) s)
     }"

definition tcp_keepalive_restart :: "addr \<Rightarrow> 'a tcp_state_scheme \<Rightarrow> 'a tcp_state_scheme option" where
  "tcp_keepalive_restart t s =
     (if t_keep_enable (tcps s t)
      then map_option (upd_tcp t (\<lambda>c. c\<lparr>t_keep_retry := 0\<rparr>)) (keepalive_start_timer t (net_timer_remove (keep_timer t) s))
      else Some s)"

definition tcp_keepalive_tmo :: "addr \<Rightarrow> 'a tcp_state_scheme \<Rightarrow> 'a tcp_state_scheme option" where
  "tcp_keepalive_tmo t s =
     do {
       let s = upd_tcp t (\<lambda>c. c\<lparr>t_keep_retry := t_keep_retry c + 1\<rparr>) s;
       if t_keep_retry (tcps s t) \<le> t_keep_cnt (tcps s t)
       then do {
         (s, _) \<leftarrow> tcp_send_keepalive t s;
         let s = net_timer_remove (keep_timer t) s;
         ms \<leftarrow> secs_ms (t_keep_intvl (tcps s t));
         (s, _) \<leftarrow> net_timer_add (keep_timer t) ''keepalive'' TCP_KEEPALIVE_TMO t ms 0 s;
         Some s
       }
       else do {
         (s, _) \<leftarrow> tcp_send_reset_for_tcp t s;
         (s, _) \<leftarrow> tcp_abort t NET_ERR_TIMEOUT s;
         Some s
       }
     }"

section \<open>Acceptance and data\<close>

definition tcp_seq_between :: "u32 \<Rightarrow> u32 \<Rightarrow> u32 \<Rightarrow> bool option" where
  "tcp_seq_between lo x hi = do { l \<leftarrow> tcp_seq_le lo x; if l then tcp_seq_le x hi else Some False }"

definition tcp_seq_acceptable :: "tcp_t \<Rightarrow> tcp_seg_t \<Rightarrow> bool option" where
  "tcp_seq_acceptable c seg =
     (let rcv_win = of_int (tcp_rcv_window c) :: u32; hi = t_rcv_nxt c + rcv_win - 1
      in if sg_seq_len seg = 0
         then if rcv_win = 0 then Some (sg_seq seg = t_rcv_nxt c)
              else tcp_seq_between (t_rcv_nxt c) (sg_seq seg) hi
         else if rcv_win = 0 then Some False
         else do {
           v \<leftarrow> tcp_seq_between (t_rcv_nxt c) (sg_seq seg) hi;
           w \<leftarrow> tcp_seq_between (t_rcv_nxt c) (sg_seq seg + sg_seq_len seg - 1) hi;
           Some (v \<or> w)
         })"

definition copy_data_to_rcvbuf :: "addr \<Rightarrow> tcp_seg_t \<Rightarrow> 'a tcp_state_scheme \<Rightarrow> ('a tcp_state_scheme \<times> int) option" where
  "copy_data_to_rcvbuf t seg s =
     (if sg_data_len seg \<noteq> 0 \<and> sg_seq seg = t_rcv_nxt (tcps s t)
      then do {
        (s, b, n) \<leftarrow> tcp_buf_write_rcv (t_rcv_buf (tcps s t)) 0 (sg_buf seg) (sint (sg_data_len seg)) s;
        Some (upd_tcp t (\<lambda>c. c\<lparr>t_rcv_buf := b\<rparr>) s, n)
      }
      else Some (s, 0))"

definition tcp_data_in :: "addr \<Rightarrow> tcp_seg_t \<Rightarrow> 'a tcp_state_scheme \<Rightarrow> ('a tcp_state_scheme \<times> net_err_t) option" where
  "tcp_data_in t seg s =
     do {
       (s, sz) \<leftarrow> copy_data_to_rcvbuf t seg s;
       if sz < 0 then Some (s, NET_ERR_SIZE)
       else do {
         h \<leftarrow> read_tcp_hdr (sg_hdr seg) s;
         let s = upd_tcp t (\<lambda>c. c\<lparr>t_rcv_nxt := t_rcv_nxt c + of_int sz\<rparr>) s;
         let fin = (f_fin h \<and> t_rcv_nxt (tcps s t) = sg_seq seg);
         let s = (if fin then upd_tcp t (\<lambda>c. c\<lparr>t_rcv_nxt := t_rcv_nxt c + 1, t_fin_in := True\<rparr>) s else s);
         if sz \<noteq> 0 \<or> fin
         then do {
           s \<leftarrow> (if t_fin_in (tcps s t) then sock_wakeup (Tcp_sock t) SOCK_WAIT_ALL NET_ERR_CLOSED s
                 else sock_wakeup (Tcp_sock t) {Rcv_wait} NET_OK s);
           (s, _) \<leftarrow> tcp_send_ack t seg s;
           Some (s, NET_OK)
         }
         else Some (s, NET_OK)
       }
     }"

lemma minus_one_less_uint: "- 1 < uint w"
  using uint_ge_0 [of w] by linarith

text \<open>
  The loop of \<^verbatim>\<open>tcp_read_options\<close>, at offset \<open>off\<close> from the header; it reads one byte behind
  the options.  Every round moves forward.
\<close>

function read_options_loop :: "dptr \<Rightarrow> int \<Rightarrow> int \<Rightarrow> 'a packet_state_scheme \<Rightarrow> int \<Rightarrow> int option" where
  "read_options_loop d off opt_end s mss =
     (if off > opt_end then Some mss
      else do {
        kind \<leftarrow> mem_read d off 1 s;
        if kind = [2]
        then do {
          len \<leftarrow> mem_read d (off + 1) 1 s;
          if len = [4]
          then do {
            mb \<leftarrow> mem_read d (off + 2) 2 s;
            let m = uint (swap_u16 (le16 (mb ! 0) (mb ! 1)));
            read_options_loop d (off + 4) opt_end s (if mss > m then m else mss)
          }
          else read_options_loop d (off + 1 + uint (len ! 0)) opt_end s mss
        }
        else if kind = [0] then Some mss
        else read_options_loop d (off + 1) opt_end s mss
      })"
  by pat_completeness auto
termination
  by (relation "measure (\<lambda>(d, off, opt_end, s, mss). nat (opt_end + 1 - off))") (auto simp: minus_one_less_uint)

declare read_options_loop.simps [simp del]

definition tcp_read_options :: "addr \<Rightarrow> dptr \<Rightarrow> 'a tcp_state_scheme \<Rightarrow> 'a tcp_state_scheme option" where
  "tcp_read_options t d s =
     do {
       h \<leftarrow> read_tcp_hdr d s;
       let opt_end = tcp_hdr_size h;
       if opt_end \<le> int TCP_HDR_SIZE then Some s
       else do {
         mss \<leftarrow> read_options_loop d (int TCP_HDR_SIZE) opt_end s (t_mss (tcps s t));
         Some (upd_tcp t (\<lambda>c. c\<lparr>t_mss := mss\<rparr>) s)
       }
     }"

definition tcp_create_child :: "addr \<Rightarrow> tcp_seg_t \<Rightarrow> 'a tcp_state_scheme \<Rightarrow> ('a tcp_state_scheme \<times> ptr) option" where
  "tcp_create_child parent seg s =
     do {
       let pk = socks s (Tcp_sock parent);
       (s, r) \<leftarrow> tcp_alloc (so_family pk) (so_protocol pk) s;
       case r of
         None \<Rightarrow> Some (s, None)
       | Some child \<Rightarrow>
           do {
             h \<leftarrow> read_tcp_hdr (sg_hdr seg) s;
             let s = upd_sock (Tcp_sock child) (\<lambda>k. k\<lparr>so_local_ip := sg_local_ip seg, so_remote_ip := sg_remote_ip seg,
                       so_local_port := th_dport h, so_remote_port := th_sport h\<rparr>) s;
             let s = upd_tcp child (\<lambda>c. c\<lparr>t_parent := Some parent, t_irs_valid := True, t_inactive := True, t_backlog := 0\<rparr>) s;
             let (s, _) = tcp_init_connect child s;
             let s = upd_tcp child (\<lambda>c. c\<lparr>t_rcv_iss := sg_seq seg, t_rcv_nxt := sg_seq seg + 1\<rparr>) s;
             s \<leftarrow> tcp_read_options child (sg_hdr seg) s;
             s \<leftarrow> tcp_insert child s;
             Some (s, Some child)
           }
     }"

section \<open>States\<close>

definition tcp_timewait_tmo :: "addr \<Rightarrow> 'a tcp_state_scheme \<Rightarrow> 'a tcp_state_scheme option" where
  "tcp_timewait_tmo t s = tcp_free t s"

definition tcp_time_wait :: "addr \<Rightarrow> 'a tcp_state_scheme \<Rightarrow> 'a tcp_state_scheme option" where
  "tcp_time_wait t s =
     do {
       let s = tcp_kill_all_timers t (tcp_set_state t TCP_STATE_TIME_WAIT s);
       (s, _) \<leftarrow> net_timer_add (keep_timer t) ''2msl timer'' TCP_TIMEWAIT_TMO t (2 * TCP_TMO_MSL) 0 s;
       sock_wakeup (Tcp_sock t) SOCK_WAIT_ALL NET_ERR_CLOSED s
     }"

text \<open>What the states of a synchronised connection have in common: RST and SYN end the connection, a bad ACK is refused.\<close>

definition tcp_synced_in ::
  "addr \<Rightarrow> tcp_seg_t \<Rightarrow> ('a tcp_state_scheme \<Rightarrow> ('a tcp_state_scheme \<times> net_err_t) option) \<Rightarrow>
   'a tcp_state_scheme \<Rightarrow> ('a tcp_state_scheme \<times> net_err_t) option" where
  "tcp_synced_in t seg rest s =
     do {
       h \<leftarrow> read_tcp_hdr (sg_hdr seg) s;
       if f_rst h then tcp_abort t NET_ERR_RESET s
       else if f_syn h then do { (s, _) \<leftarrow> tcp_send_reset seg s; tcp_abort t NET_ERR_RESET s }
       else do {
         (s, err) \<leftarrow> tcp_ack_process t seg s;
         if net_err_neg err then Some (s, NET_ERR_UNREACH) else rest s
       }
     }"

definition tcp_closed_in :: "addr \<Rightarrow> tcp_seg_t \<Rightarrow> 'a tcp_state_scheme \<Rightarrow> ('a tcp_state_scheme \<times> net_err_t) option" where
  "tcp_closed_in t seg s =
     do {
       h \<leftarrow> read_tcp_hdr (sg_hdr seg) s;
       s \<leftarrow> (if \<not> f_rst h then map_option fst (tcp_send_reset seg s) else Some s);
       Some (s, NET_OK)
     }"

definition tcp_syn_sent_in :: "addr \<Rightarrow> tcp_seg_t \<Rightarrow> 'a tcp_state_scheme \<Rightarrow> ('a tcp_state_scheme \<times> net_err_t) option" where
  "tcp_syn_sent_in t seg s =
     do {
       h \<leftarrow> read_tcp_hdr (sg_hdr seg) s;
       if f_ack h \<and> (th_ack h - t_snd_iss (tcps s t) \<le> 0 \<or> th_ack h - t_snd_nxt (tcps s t) > 0) then tcp_send_reset seg s
       else if f_rst h then if \<not> f_ack h then Some (s, NET_OK) else tcp_abort t NET_ERR_RESET s
       else if f_syn h
       then do {
         s \<leftarrow> tcp_read_options t (sg_hdr seg) s;
         let s = upd_tcp t (\<lambda>c. c\<lparr>t_rcv_iss := th_seq h, t_rcv_nxt := th_seq h + 1, t_irs_valid := True\<rparr>) s;
         s \<leftarrow> (if f_ack h then map_option fst (tcp_ack_process t seg s) else Some s);
         if t_snd_una (tcps s t) - t_snd_iss (tcps s t) > 0
         then do {
           (s, _) \<leftarrow> tcp_send_ack t seg s;
           s \<leftarrow> tcp_out_event t TCP_OEVENT_SEND s;
           s \<leftarrow> sock_wakeup (Tcp_sock t) {Conn_wait} NET_OK (tcp_set_state t TCP_STATE_ESTABLISHED s);
           Some (s, NET_OK)
         }
         else do { (s, _) \<leftarrow> tcp_send_syn t (tcp_set_state t TCP_STATE_SYN_RECVD s); Some (s, NET_OK) }
       }
       else Some (s, NET_OK)
     }"

definition tcp_established_in :: "addr \<Rightarrow> tcp_seg_t \<Rightarrow> 'a tcp_state_scheme \<Rightarrow> ('a tcp_state_scheme \<times> net_err_t) option" where
  "tcp_established_in t seg = tcp_synced_in t seg (\<lambda>s.
     do {
       (s, _) \<leftarrow> tcp_data_in t seg s;
       s \<leftarrow> tcp_out_event t TCP_OEVENT_SEND s;
       Some (if t_fin_in (tcps s t) then tcp_set_state t TCP_STATE_CLOSE_WAIT s else s, NET_OK)
     })"

definition tcp_close_wait_in :: "addr \<Rightarrow> tcp_seg_t \<Rightarrow> 'a tcp_state_scheme \<Rightarrow> ('a tcp_state_scheme \<times> net_err_t) option" where
  "tcp_close_wait_in t seg = tcp_synced_in t seg (\<lambda>s.
     do { s \<leftarrow> tcp_out_event t TCP_OEVENT_SEND s; Some (s, NET_OK) })"

definition tcp_last_ack_in :: "addr \<Rightarrow> tcp_seg_t \<Rightarrow> 'a tcp_state_scheme \<Rightarrow> ('a tcp_state_scheme \<times> net_err_t) option" where
  "tcp_last_ack_in t seg = tcp_synced_in t seg (\<lambda>s.
     if \<not> t_fin_out (tcps s t) then tcp_abort t NET_ERR_CLOSED s else Some (s, NET_OK))"

definition tcp_fin_wait_1_in :: "addr \<Rightarrow> tcp_seg_t \<Rightarrow> 'a tcp_state_scheme \<Rightarrow> ('a tcp_state_scheme \<times> net_err_t) option" where
  "tcp_fin_wait_1_in t seg = tcp_synced_in t seg (\<lambda>s.
     do {
       (s, _) \<leftarrow> tcp_data_in t seg s;
       s \<leftarrow> tcp_out_event t TCP_OEVENT_SEND s;
       s \<leftarrow> (if \<not> t_fin_out (tcps s t)
             then if t_fin_in (tcps s t) then tcp_time_wait t s else Some (tcp_set_state t TCP_STATE_FIN_WAIT_2 s)
             else if t_fin_in (tcps s t) then Some (tcp_set_state t TCP_STATE_CLOSING s) else Some s);
       Some (s, NET_OK)
     })"

definition tcp_fin_wait_2_in :: "addr \<Rightarrow> tcp_seg_t \<Rightarrow> 'a tcp_state_scheme \<Rightarrow> ('a tcp_state_scheme \<times> net_err_t) option" where
  "tcp_fin_wait_2_in t seg = tcp_synced_in t seg (\<lambda>s.
     do {
       (s, _) \<leftarrow> tcp_data_in t seg s;
       s \<leftarrow> tcp_out_event t TCP_OEVENT_SEND s;
       s \<leftarrow> (if t_fin_in (tcps s t) then tcp_time_wait t s else Some s);
       Some (s, NET_OK)
     })"

definition tcp_closing_in :: "addr \<Rightarrow> tcp_seg_t \<Rightarrow> 'a tcp_state_scheme \<Rightarrow> ('a tcp_state_scheme \<times> net_err_t) option" where
  "tcp_closing_in t seg = tcp_synced_in t seg (\<lambda>s.
     do {
       s \<leftarrow> tcp_out_event t TCP_OEVENT_SEND s;
       s \<leftarrow> (if \<not> t_fin_out (tcps s t) then tcp_time_wait t s else Some s);
       Some (s, NET_OK)
     })"

definition tcp_time_wait_in :: "addr \<Rightarrow> tcp_seg_t \<Rightarrow> 'a tcp_state_scheme \<Rightarrow> ('a tcp_state_scheme \<times> net_err_t) option" where
  "tcp_time_wait_in t seg = tcp_synced_in t seg (\<lambda>s.
     do {
       (s, _) \<leftarrow> tcp_data_in t seg s;
       s \<leftarrow> (if t_fin_in (tcps s t) then do { (s, _) \<leftarrow> tcp_send_ack t seg s; tcp_time_wait t s } else Some s);
       Some (s, NET_OK)
     })"

definition tcp_listen_in :: "addr \<Rightarrow> tcp_seg_t \<Rightarrow> 'a tcp_state_scheme \<Rightarrow> ('a tcp_state_scheme \<times> net_err_t) option" where
  "tcp_listen_in t seg s =
     do {
       h \<leftarrow> read_tcp_hdr (sg_hdr seg) s;
       if f_rst h then Some (s, NET_OK)
       else if f_ack h then do { (s, _) \<leftarrow> tcp_send_reset seg s; Some (s, NET_OK) }
       else if f_syn h
       then if tcp_backlog_count t s \<ge> t_backlog (tcps s t) then Some (s, NET_ERR_FULL)
            else do {
              (s, r) \<leftarrow> tcp_create_child t seg s;
              case r of
                None \<Rightarrow> Some (s, NET_ERR_MEM)
              | Some child \<Rightarrow> do { (s, _) \<leftarrow> tcp_send_syn child s; Some (tcp_set_state child TCP_STATE_SYN_RECVD s, NET_OK) }
            }
       else Some (s, NET_ERR_STATE)
     }"

definition wake_parent :: "ptr \<Rightarrow> net_err_t \<Rightarrow> 'a tcp_state_scheme \<Rightarrow> 'a tcp_state_scheme option" where
  "wake_parent r err s = (case r of None \<Rightarrow> Some s | Some t \<Rightarrow> sock_wakeup (Tcp_sock t) {Conn_wait} err s)"

definition tcp_syn_recvd_in :: "addr \<Rightarrow> tcp_seg_t \<Rightarrow> 'a tcp_state_scheme \<Rightarrow> ('a tcp_state_scheme \<times> net_err_t) option" where
  "tcp_syn_recvd_in t seg s =
     do {
       h \<leftarrow> read_tcp_hdr (sg_hdr seg) s;
       if f_rst h then tcp_abort t (if t_parent (tcps s t) \<noteq> None then NET_ERR_RESET else NET_ERR_REFUSED) s
       else if f_syn h then do { (s, _) \<leftarrow> tcp_send_reset seg s; tcp_abort t NET_ERR_RESET s }
       else do {
         (s, err) \<leftarrow> tcp_ack_process t seg s;
         if net_err_neg err then Some (s, NET_ERR_UNREACH)
         else do {
           s \<leftarrow> (if f_fin h
                 then wake_parent (t_parent (tcps s t)) NET_ERR_REFUSED (tcp_set_state t TCP_STATE_CLOSE_WAIT s)
                 else do {
                   let s = tcp_set_state t TCP_STATE_ESTABLISHED s;
                   s \<leftarrow> tcp_keepalive_start t (of_bool (t_keep_enable (tcps s t))) s;
                   wake_parent (t_parent (tcps s t)) NET_OK s
                 });
           s \<leftarrow> tcp_out_event t TCP_OEVENT_SEND s;
           Some (s, NET_OK)
         }
       }
     }"

definition tcp_state_proc :: "tcp_state_t \<Rightarrow> addr \<Rightarrow> tcp_seg_t \<Rightarrow> 'a tcp_state_scheme \<Rightarrow> ('a tcp_state_scheme \<times> net_err_t) option" where
  "tcp_state_proc st =
     (case st of
        TCP_STATE_FREE \<Rightarrow> (\<lambda>t seg s. None)
      | TCP_STATE_CLOSED \<Rightarrow> tcp_closed_in
      | TCP_STATE_LISTEN \<Rightarrow> tcp_listen_in
      | TCP_STATE_SYN_SENT \<Rightarrow> tcp_syn_sent_in
      | TCP_STATE_SYN_RECVD \<Rightarrow> tcp_syn_recvd_in
      | TCP_STATE_ESTABLISHED \<Rightarrow> tcp_established_in
      | TCP_STATE_FIN_WAIT_1 \<Rightarrow> tcp_fin_wait_1_in
      | TCP_STATE_FIN_WAIT_2 \<Rightarrow> tcp_fin_wait_2_in
      | TCP_STATE_CLOSING \<Rightarrow> tcp_closing_in
      | TCP_STATE_TIME_WAIT \<Rightarrow> tcp_time_wait_in
      | TCP_STATE_CLOSE_WAIT \<Rightarrow> tcp_close_wait_in
      | TCP_STATE_LAST_ACK \<Rightarrow> tcp_last_ack_in)"

section \<open>Input\<close>

text \<open>The second half of \<^verbatim>\<open>tcp_in\<close>, for the connection a valid segment belongs to.\<close>

definition tcp_seg_in :: "addr \<Rightarrow> tcp_seg_t \<Rightarrow> 'a tcp_state_scheme \<Rightarrow> ('a tcp_state_scheme \<times> net_err_t) option" where
  "tcp_seg_in t seg s =
     do {
       ok \<leftarrow> (if t_state (tcps s t) \<in> {TCP_STATE_CLOSED, TCP_STATE_SYN_SENT, TCP_STATE_LISTEN} then Some True
              else tcp_seq_acceptable (tcps s t) seg);
       s \<leftarrow> (if ok
             then do {
               s \<leftarrow> tcp_keepalive_restart t s;
               map_option fst (tcp_state_proc (t_state (tcps s t)) t seg s)
             }
             else Some s);
       Some (packet_free (sg_buf seg) s, NET_OK)
     }"

definition tcp_in :: "addr \<Rightarrow> ipaddr_t \<Rightarrow> ipaddr_t \<Rightarrow> 'a tcp_state_scheme \<Rightarrow> ('a tcp_state_scheme \<times> net_err_t) option" where
  "tcp_in p src_ip dest_ip s =
     do {
       _ \<leftarrow> packet_ptr p s;
       (s, err) \<leftarrow> packet_set_cont p (int TCP_HDR_SIZE) s;
       if net_err_neg err then Some (s, NET_ERR_SYS)
       else do {
         d \<leftarrow> packet_ptr p s;
         h \<leftarrow> read_tcp_hdr d s;
         (s, bad) \<leftarrow> (if th_checksum h \<noteq> 0
                      then map_option (\<lambda>(s, c). (s, c \<noteq> 0))
                             (checksum_peso (ipaddr_to_buf dest_ip) (ipaddr_to_buf src_ip) NET_PROTOCOL_TCP p (packet_reset_pos (Some p) s))
                      else Some (s, False));
         if bad then Some (s, NET_ERR_BROKEN)
         else if total_size (packets s p) < int TCP_HDR_SIZE \<or> total_size (packets s p) < tcp_hdr_size h then Some (s, NET_ERR_SIZE)
         else if th_sport h = 0 \<or> th_dport h = 0 then Some (s, NET_ERR_UNREACH)
         else if th_flags h = 0 then Some (s, NET_ERR_UNREACH)
         else do {
           let h = tcp_hdr_swap h;
           s \<leftarrow> mem_write d 0 (tcp_hdr_bytes h) s;
           seg \<leftarrow> tcp_seg_init p dest_ip src_ip s;
           case tcp_find dest_ip (th_dport h) src_ip (th_sport h) s of
             None \<Rightarrow> do { (s, _) \<leftarrow> tcp_send_reset seg s; Some (packet_free p s, NET_OK) }
           | Some t \<Rightarrow>
               do {
                 (s, err) \<leftarrow> packet_seek p (tcp_hdr_size h) s;
                 if net_err_neg err then Some (s, NET_ERR_SIZE) else tcp_seg_in t seg s
               }
         }
       }
     }"

end
