(* ===== verification/Net_Tcp_Api.thy ===== *)
theory Net_Tcp_Api
  imports Net_Tcp_In
begin

text \<open>
  The operations of a TCP socket in \<^verbatim>\<open>src/stack/transport/tcp.c\<close>: options, binding, opening
  and closing connections, sending, receiving and accepting.
\<close>

abbreviation (input) TCP_KEEPIDLE :: int where "TCP_KEEPIDLE \<equiv> 4"
abbreviation (input) TCP_KEEPINTVL :: int where "TCP_KEEPINTVL \<equiv> 5"
abbreviation (input) TCP_KEEPCNT :: int where "TCP_KEEPCNT \<equiv> 6"

text \<open>\<^verbatim>\<open>*(int *)optval\<close>.\<close>

definition opt_int :: "u8 list \<Rightarrow> int option" where
  "opt_int bs = (if length bs < 4 then None else Some (int_of_bytes bs))"

text \<open>\<^verbatim>\<open>tcp_setopt\<close>; after the keepalive option of the socket level it falls through to the error.\<close>

definition tcp_setopt ::
  "addr \<Rightarrow> int \<Rightarrow> int \<Rightarrow> u8 list \<Rightarrow> int \<Rightarrow> 'a tcp_state_scheme \<Rightarrow> ('a tcp_state_scheme \<times> net_err_t) option" where
  "tcp_setopt t level optname optval optlen s =
     do {
       (s, err) \<leftarrow> sock_setopt (Tcp_sock t) level optname optval optlen s;
       if err = NET_OK then Some (s, NET_OK)
       else if net_err_neg err \<and> err \<noteq> NET_ERR_NOT_SUPPORT then Some (s, err)
       else if level = SOL_SOCKET
       then if optlen \<noteq> 4 then Some (s, NET_ERR_PARAM)
            else do {
              v \<leftarrow> opt_int optval;
              s \<leftarrow> tcp_keepalive_start t v (upd_tcp t (\<lambda>c. c\<lparr>t_keep_enable := odd v\<rparr>) s);
              Some (s, NET_ERR_PARAM)
            }
       else if level = SOL_TCP \<and> optname \<in> {TCP_KEEPIDLE, TCP_KEEPINTVL, TCP_KEEPCNT}
       then if optlen \<noteq> 4 then Some (s, NET_ERR_PARAM)
            else do {
              v \<leftarrow> opt_int optval;
              s \<leftarrow> tcp_keepalive_restart t
                     (upd_tcp t (\<lambda>c. if optname = TCP_KEEPIDLE then c\<lparr>t_keep_idle := v\<rparr>
                                     else if optname = TCP_KEEPINTVL then c\<lparr>t_keep_intvl := v\<rparr> else c\<lparr>t_keep_cnt := v\<rparr>) s);
              Some (s, NET_OK)
            }
       else Some (s, NET_ERR_PARAM)
     }"

definition tcp_bind :: "addr \<Rightarrow> x_sockaddr_in \<Rightarrow> 'a tcp_state_scheme \<Rightarrow> ('a tcp_state_scheme \<times> net_err_t) option" where
  "tcp_bind t addr s =
     (let k = socks s (Tcp_sock t)
      in if t_state (tcps s t) \<noteq> TCP_STATE_CLOSED then Some (s, NET_ERR_STATE)
         else if so_local_port k \<noteq> NET_PORT_EMPTY then Some (s, NET_ERR_PARAM)
         else if sin_port addr = NET_PORT_EMPTY then Some (s, NET_ERR_PARAM)
         else do {
           local_ip \<leftarrow> ipaddr_from_buf (sin_addr addr);
           let port = swap_u16 (sin_port addr);
           let own = (ipaddr_is_any local_ip \<or>
             (case rt_find local_ip s of
                None \<Rightarrow> False
              | Some e \<Rightarrow> ipaddr_is_equal local_ip (ni_ipaddr (netifs s (re_netif (rt_table s e))))));
           if \<not> own then Some (s, NET_ERR_ADDR)
           else if \<exists>v\<in>set (tcp_list s). v \<noteq> t \<and> so_remote_port (socks s (Tcp_sock v)) = NET_PORT_EMPTY \<and>
                     ipaddr_is_equal (so_local_ip (socks s (Tcp_sock v))) local_ip \<and> so_local_port (socks s (Tcp_sock v)) = port
           then Some (s, NET_ERR_ADDR)
           else Some (upd_sock (Tcp_sock t) (\<lambda>k. k\<lparr>so_local_ip := local_ip, so_local_port := port\<rparr>) s, NET_OK)
         })"

text \<open>The search of \<^verbatim>\<open>tcp_alloc_port\<close>, with \<open>n\<close> rounds left.\<close>

fun tcp_alloc_port_loop :: "nat \<Rightarrow> int \<Rightarrow> 'a tcp_state_scheme \<Rightarrow> int" where
  "tcp_alloc_port_loop 0 idx s = - 1"
| "tcp_alloc_port_loop (Suc n) idx s =
     (if \<exists>v\<in>set (tcp_list s). uint (so_local_port (socks s (Tcp_sock v))) = idx
      then tcp_alloc_port_loop n (if idx + 1 \<ge> NET_PORT_DYN_END then NET_PORT_DYN_START else idx + 1) s
      else idx)"

definition tcp_alloc_port :: "'a tcp_state_scheme \<Rightarrow> int" where
  "tcp_alloc_port s =
     tcp_alloc_port_loop (nat (NET_PORT_DYN_END - NET_PORT_DYN_START)) (int (os_rand s) mod 1000 + NET_PORT_DYN_START) s"

definition tcp_connect :: "addr \<Rightarrow> x_sockaddr_in \<Rightarrow> 'a tcp_state_scheme \<Rightarrow> ('a tcp_state_scheme \<times> net_err_t) option" where
  "tcp_connect t addr s =
     (let a = Tcp_sock t
      in if t_state (tcps s t) \<noteq> TCP_STATE_CLOSED then Some (s, NET_ERR_STATE)
         else do {
           ip \<leftarrow> ipaddr_from_buf (sin_addr addr);
           let s = upd_sock a (\<lambda>k. k\<lparr>so_remote_ip := ip, so_remote_port := swap_u16 (sin_port addr)\<rparr>) s;
           let port = (if so_local_port (socks s a) = NET_PORT_EMPTY then tcp_alloc_port s else uint (so_local_port (socks s a)));
           if port = - 1 then Some (s, NET_ERR_NONE)
           else do {
             let s = upd_sock a (\<lambda>k. k\<lparr>so_local_port := of_int port\<rparr>) s;
             case (if ipaddr_is_any (so_local_ip (socks s a))
                   then map_option (\<lambda>e. ni_ipaddr (netifs s (re_netif (rt_table s e)))) (rt_find ip s)
                   else Some (so_local_ip (socks s a))) of
               None \<Rightarrow> Some (s, NET_ERR_UNREACH)
             | Some local_ip \<Rightarrow>
                 do {
                   let (s, err) = tcp_init_connect t (upd_sock a (\<lambda>k. k\<lparr>so_local_ip := local_ip\<rparr>) s);
                   if net_err_neg err then Some (s, err)
                   else do {
                     (s, err) \<leftarrow> tcp_send_syn t s;
                     if net_err_neg err then Some (s, err)
                     else Some (tcp_set_state t TCP_STATE_SYN_SENT s, NET_ERR_NEED_WAIT)
                   }
                 }
           }
         })"

definition tcp_close :: "addr \<Rightarrow> 'a tcp_state_scheme \<Rightarrow> ('a tcp_state_scheme \<times> net_err_t) option" where
  "tcp_close t s =
     (case t_state (tcps s t) of
        TCP_STATE_CLOSED \<Rightarrow> do { s \<leftarrow> tcp_free t s; Some (s, NET_OK) }
      | TCP_STATE_SYN_RECVD \<Rightarrow> do { (s, _) \<leftarrow> tcp_abort t NET_ERR_CLOSED s; s \<leftarrow> tcp_free t s; Some (s, NET_OK) }
      | TCP_STATE_SYN_SENT \<Rightarrow> do { (s, _) \<leftarrow> tcp_abort t NET_ERR_CLOSED s; s \<leftarrow> tcp_free t s; Some (s, NET_OK) }
      | TCP_STATE_CLOSE_WAIT \<Rightarrow>
          do { (s, _) \<leftarrow> tcp_send_fin t s; Some (tcp_set_state t TCP_STATE_LAST_ACK s, NET_ERR_NEED_WAIT) }
      | TCP_STATE_ESTABLISHED \<Rightarrow>
          do { (s, _) \<leftarrow> tcp_send_fin t s; Some (tcp_set_state t TCP_STATE_FIN_WAIT_1 s, NET_ERR_NEED_WAIT) }
      | _ \<Rightarrow> Some (s, NET_ERR_STATE))"

definition tcp_send :: "addr \<Rightarrow> u8 list \<Rightarrow> 'a tcp_state_scheme \<Rightarrow> ('a tcp_state_scheme \<times> net_err_t \<times> int option) option" where
  "tcp_send t buf s =
     (if t_state (tcps s t) \<in> {TCP_STATE_CLOSED, TCP_STATE_FIN_WAIT_1, TCP_STATE_FIN_WAIT_2, TCP_STATE_CLOSING,
                               TCP_STATE_TIME_WAIT, TCP_STATE_LAST_ACK}
      then Some (s, NET_ERR_CLOSED, None)
      else if t_state (tcps s t) \<in> {TCP_STATE_ESTABLISHED, TCP_STATE_CLOSE_WAIT}
      then do {
        (s, sz) \<leftarrow> tcp_write_sndbuf t buf (int (length buf)) s;
        if sz \<le> 0 then Some (s, NET_ERR_NEED_WAIT, Some 0)
        else do { s \<leftarrow> tcp_out_event t TCP_OEVENT_SEND s; Some (s, NET_OK, Some sz) }
      }
      else Some (s, NET_ERR_STATE, None))"

definition tcp_recv :: "addr \<Rightarrow> int \<Rightarrow> 'a tcp_state_scheme \<Rightarrow> ('a tcp_state_scheme \<times> net_err_t \<times> u8 list \<times> int option) option" where
  "tcp_recv t len s =
     (if t_state (tcps s t) \<in> {TCP_STATE_LAST_ACK, TCP_STATE_CLOSED} then Some (s, NET_ERR_CLOSED, [], None)
      else if t_state (tcps s t) \<in> {TCP_STATE_CLOSE_WAIT, TCP_STATE_CLOSING, TCP_STATE_FIN_WAIT_1, TCP_STATE_FIN_WAIT_2,
                                    TCP_STATE_ESTABLISHED}
      then do {
        let need_wait = (if t_state (tcps s t) \<in> {TCP_STATE_CLOSE_WAIT, TCP_STATE_CLOSING} then NET_OK else NET_ERR_NEED_WAIT);
        (b, bs, cnt) \<leftarrow> tcp_buf_read_rcv (t_rcv_buf (tcps s t)) len;
        let s = upd_tcp t (\<lambda>c. c\<lparr>t_rcv_buf := b\<rparr>) s;
        if cnt > 0 then Some (s, NET_OK, bs, Some cnt) else Some (s, need_wait, bs, Some 0)
      }
      else Some (s, NET_ERR_STATE, [], None))"

definition tcp_listen :: "addr \<Rightarrow> int \<Rightarrow> 'a tcp_state_scheme \<Rightarrow> 'a tcp_state_scheme \<times> net_err_t" where
  "tcp_listen t backlog s =
     (if backlog \<le> 0 then (s, NET_ERR_PARAM)
      else if t_state (tcps s t) \<noteq> TCP_STATE_CLOSED then (s, NET_ERR_STATE)
      else (upd_tcp t (\<lambda>c. c\<lparr>t_state := TCP_STATE_LISTEN, t_backlog := backlog\<rparr>) s, NET_OK))"

definition tcp_accept ::
  "addr \<Rightarrow> 'a tcp_state_scheme \<Rightarrow> 'a tcp_state_scheme \<times> net_err_t \<times> x_sockaddr_in option \<times> ptr" where
  "tcp_accept t s =
     (case find (\<lambda>c. c \<noteq> t \<and> t_parent (tcps s c) = Some t \<and> t_inactive (tcps s c)) (tcp_list s) of
        None \<Rightarrow> (s, NET_ERR_NEED_WAIT, None, None)
      | Some c \<Rightarrow>
          let k = socks s (Tcp_sock c)
          in (upd_tcp c (\<lambda>x. x\<lparr>t_inactive := False\<rparr>) s, NET_OK,
              Some \<lparr>sin_family = AF_INET, sin_port = swap_u16 (so_remote_port k), sin_addr = ipaddr_to_buf (so_remote_ip k)\<rparr>, Some c))"

definition tcp_destroy :: "addr \<Rightarrow> 'a tcp_state_scheme \<Rightarrow> 'a tcp_state_scheme option" where
  "tcp_destroy t s =
     (if t_state (tcps s t) \<noteq> TCP_STATE_TIME_WAIT then tcp_free t (tcp_kill_all_timers t s) else Some s)"

end
