(* ===== verification/Net_Socket.thy ===== *)
theory Net_Socket
  imports Net_Tcp_Api
begin

text \<open>
  The requests of \<^verbatim>\<open>src/api/sock.c\<close>, as the worker thread runs them: each finds the socket of
  a descriptor, calls the operation of its protocol and, when that says so, tells the
  requester what to wait for.  A missing operation is a null pointer; some requests test it,
  the others have no defined result.  The results a request leaves in \<^verbatim>\<open>sock_req_t\<close> are
  returned: the wait object with the timeout, and the number of bytes.
\<close>

section \<open>The operations of a socket\<close>

definition ops_close :: "sock_addr \<Rightarrow> 'a tcp_state_scheme \<Rightarrow> ('a tcp_state_scheme \<times> net_err_t) option" where
  "ops_close a s = (case a of Raw_sock r \<Rightarrow> raw_close r s | Udp_sock u \<Rightarrow> Some (udp_close u s) | Tcp_sock t \<Rightarrow> tcp_close t s)"

text \<open>The outer option is \<^term>\<open>None\<close> when the operation is missing.\<close>

definition ops_sendto ::
  "sock_addr \<Rightarrow> (u8 list \<Rightarrow> x_sockaddr_in \<Rightarrow> 'a tcp_state_scheme \<Rightarrow> ('a tcp_state_scheme \<times> net_err_t \<times> int option) option) option" where
  "ops_sendto a = (case a of Raw_sock r \<Rightarrow> Some (raw_sendto r) | Udp_sock u \<Rightarrow> Some (udp_sendto u) | Tcp_sock t \<Rightarrow> None)"

definition ops_recvfrom ::
  "sock_addr \<Rightarrow> (int \<Rightarrow> 'a tcp_state_scheme \<Rightarrow>
     ('a tcp_state_scheme \<times> net_err_t \<times> x_sockaddr_in option \<times> u8 list \<times> int option) option) option" where
  "ops_recvfrom a = (case a of Raw_sock r \<Rightarrow> Some (raw_recvfrom r) | Udp_sock u \<Rightarrow> Some (udp_recvfrom u) | Tcp_sock t \<Rightarrow> None)"

definition ops_setopt ::
  "sock_addr \<Rightarrow> int \<Rightarrow> int \<Rightarrow> u8 list \<Rightarrow> int \<Rightarrow> 'a tcp_state_scheme \<Rightarrow> ('a tcp_state_scheme \<times> net_err_t) option" where
  "ops_setopt a = (case a of Raw_sock r \<Rightarrow> sock_setopt a | Udp_sock u \<Rightarrow> sock_setopt a | Tcp_sock t \<Rightarrow> tcp_setopt t)"

definition ops_connect ::
  "sock_addr \<Rightarrow> x_sockaddr_in \<Rightarrow> 'a tcp_state_scheme \<Rightarrow> ('a tcp_state_scheme \<times> net_err_t) option" where
  "ops_connect a = (case a of Raw_sock r \<Rightarrow> (\<lambda>addr s. None) | Udp_sock u \<Rightarrow> udp_connect u | Tcp_sock t \<Rightarrow> tcp_connect t)"

definition ops_bind ::
  "sock_addr \<Rightarrow> x_sockaddr_in \<Rightarrow> 'a tcp_state_scheme \<Rightarrow> ('a tcp_state_scheme \<times> net_err_t) option" where
  "ops_bind a = (case a of Raw_sock r \<Rightarrow> (\<lambda>addr s. None) | Udp_sock u \<Rightarrow> udp_bind u | Tcp_sock t \<Rightarrow> tcp_bind t)"

definition sock_send ::
  "sock_addr \<Rightarrow> u8 list \<Rightarrow> 'a tcp_state_scheme \<Rightarrow> ('a tcp_state_scheme \<times> net_err_t \<times> int option) option" where
  "sock_send a buf s =
     (let k = socks s a
      in if ipaddr_is_any (so_remote_ip k) then Some (s, NET_ERR_UNREACH, None)
         else do {
           sendto \<leftarrow> ops_sendto a;
           sendto buf \<lparr>sin_family = of_int (so_family k), sin_port = swap_u16 (so_remote_port k),
                       sin_addr = ipaddr_to_buf (so_remote_ip k)\<rparr> s
         })"

definition sock_recv ::
  "sock_addr \<Rightarrow> int \<Rightarrow> 'a tcp_state_scheme \<Rightarrow> ('a tcp_state_scheme \<times> net_err_t \<times> u8 list \<times> int option) option" where
  "sock_recv a len s =
     (if ipaddr_is_any (so_remote_ip (socks s a)) then Some (s, NET_ERR_PARAM, [], None)
      else do {
        recvfrom \<leftarrow> ops_recvfrom a;
        (s, err, _, bs, n) \<leftarrow> recvfrom len s;
        Some (s, err, bs, n)
      })"

definition ops_send ::
  "sock_addr \<Rightarrow> u8 list \<Rightarrow> 'a tcp_state_scheme \<Rightarrow> ('a tcp_state_scheme \<times> net_err_t \<times> int option) option" where
  "ops_send a = (case a of Raw_sock r \<Rightarrow> (\<lambda>buf s. None) | Udp_sock u \<Rightarrow> sock_send a | Tcp_sock t \<Rightarrow> tcp_send t)"

definition ops_recv ::
  "sock_addr \<Rightarrow> int \<Rightarrow> 'a tcp_state_scheme \<Rightarrow> ('a tcp_state_scheme \<times> net_err_t \<times> u8 list \<times> int option) option" where
  "ops_recv a = (case a of Raw_sock r \<Rightarrow> (\<lambda>len s. None) | Udp_sock u \<Rightarrow> sock_recv a | Tcp_sock t \<Rightarrow> tcp_recv t)"

section \<open>Requests\<close>

type_synonym wait_req = "(wait_addr \<times> int) option"

definition wait_if :: "bool \<Rightarrow> wait_addr option \<Rightarrow> int \<Rightarrow> 'a sock_state_scheme \<Rightarrow> 'a sock_state_scheme \<times> wait_req" where
  "wait_if needed w tmo s = (case w of Some w \<Rightarrow> if needed then sock_wait_add w tmo s else (s, None) | None \<Rightarrow> (s, None))"

text \<open>The socket of a descriptor: the error of an index out of range, or the pointer in the table.\<close>

definition sock_of :: "int \<Rightarrow> 'a sock_state_scheme \<Rightarrow> net_err_t + sock_addr option" where
  "sock_of sockfd s = (case get_socket sockfd s of None \<Rightarrow> Inl NET_ERR_PARAM | Some i \<Rightarrow> Inr (sk_sock (socket_tbl s ! i)))"

text \<open>
  \<^verbatim>\<open>SOCK_STREAM\<close>, \<^verbatim>\<open>IPPROTO_UDP\<close> and \<^verbatim>\<open>IPPROTO_TCP\<close> come from the system's socket header, where
  \<^verbatim>\<open>SOCK_STREAM\<close> is 1.  \<^verbatim>\<open>SOCK_RAW\<close> is redefined as 1 too, so the table of constructors has two
  initializers for index 1, the later of which (TCP) counts, and none for index 0.
\<close>

definition create_sock ::
  "int \<Rightarrow> int \<Rightarrow> int \<Rightarrow> 'a tcp_state_scheme \<Rightarrow> ('a tcp_state_scheme \<times> sock_addr option) option" where
  "create_sock ty family protocol s =
     (if ty = 1 then tcp_create family (if protocol = 0 then 6 else protocol) s
      else if ty = 2 then udp_create family (if protocol = 0 then 17 else protocol) s
      else None)"

definition sock_create_req_in ::
  "int \<Rightarrow> int \<Rightarrow> int \<Rightarrow> 'a tcp_state_scheme \<Rightarrow> ('a tcp_state_scheme \<times> net_err_t \<times> int) option" where
  "sock_create_req_in family ty protocol s =
     (case socket_alloc s of
        (s, None) \<Rightarrow> Some (s, NET_ERR_MEM, - 1)
      | (s, Some i) \<Rightarrow>
          if ty < 0 \<or> ty \<ge> 3 then Some (socket_free i s, NET_ERR_PARAM, - 1)
          else do {
            (s, r) \<leftarrow> create_sock ty family protocol s;
            case r of
              None \<Rightarrow> Some (socket_free i s, NET_ERR_MEM, - 1)
            | Some a \<Rightarrow> Some (s\<lparr>socket_tbl := (socket_tbl s)[i := (socket_tbl s ! i)\<lparr>sk_sock := Some a\<rparr>]\<rparr>, NET_OK, int i)
          })"

definition sock_sendto_req_in ::
  "int \<Rightarrow> u8 list \<Rightarrow> x_sockaddr_in \<Rightarrow> 'a tcp_state_scheme \<Rightarrow> ('a tcp_state_scheme \<times> net_err_t \<times> wait_req \<times> int) option" where
  "sock_sendto_req_in sockfd buf addr s =
     (case sock_of sockfd s of
        Inl err \<Rightarrow> Some (s, err, None, 0)
      | Inr r \<Rightarrow>
          do {
            a \<leftarrow> r;
            case ops_sendto a of
              None \<Rightarrow> Some (s, NET_ERR_NOT_SUPPORT, None, 0)
            | Some sendto \<Rightarrow>
                do {
                  (s, err, n) \<leftarrow> sendto buf addr s;
                  let (s, w) = wait_if (err = NET_ERR_NEED_WAIT) (so_snd_wait (socks s a)) (so_snd_tmo (socks s a)) s;
                  Some (s, err, w, case n of None \<Rightarrow> 0 | Some n \<Rightarrow> n)
                }
          })"

definition sock_recvfrom_req_in ::
  "int \<Rightarrow> int \<Rightarrow> 'a tcp_state_scheme \<Rightarrow>
   ('a tcp_state_scheme \<times> net_err_t \<times> wait_req \<times> x_sockaddr_in option \<times> u8 list \<times> int) option" where
  "sock_recvfrom_req_in sockfd len s =
     (case sock_of sockfd s of
        Inl err \<Rightarrow> Some (s, err, None, None, [], 0)
      | Inr r \<Rightarrow>
          do {
            a \<leftarrow> r;
            case ops_recvfrom a of
              None \<Rightarrow> Some (s, NET_ERR_NOT_SUPPORT, None, None, [], 0)
            | Some recvfrom \<Rightarrow>
                do {
                  (s, err, src, bs, n) \<leftarrow> recvfrom len s;
                  let (s, w) = wait_if (err = NET_ERR_NEED_WAIT) (so_rcv_wait (socks s a)) (so_rcv_tmo (socks s a)) s;
                  Some (s, err, w, src, bs, case n of None \<Rightarrow> 0 | Some n \<Rightarrow> n)
                }
          })"

definition sock_setsockopt_req_in ::
  "int \<Rightarrow> int \<Rightarrow> int \<Rightarrow> u8 list \<Rightarrow> int \<Rightarrow> 'a tcp_state_scheme \<Rightarrow> ('a tcp_state_scheme \<times> net_err_t) option" where
  "sock_setsockopt_req_in sockfd level optname optval optlen s =
     (case sock_of sockfd s of
        Inl err \<Rightarrow> Some (s, err)
      | Inr r \<Rightarrow> do { a \<leftarrow> r; ops_setopt a level optname optval optlen s })"

text \<open>\<^verbatim>\<open>sock_close_req_in\<close> follows the pointer to the connection's wait object without a test.\<close>

definition sock_close_req_in :: "int \<Rightarrow> 'a tcp_state_scheme \<Rightarrow> ('a tcp_state_scheme \<times> net_err_t \<times> wait_req) option" where
  "sock_close_req_in sockfd s =
     (case sock_of sockfd s of
        Inl err \<Rightarrow> Some (s, err, None)
      | Inr r \<Rightarrow>
          do {
            a \<leftarrow> r;
            (s, err) \<leftarrow> ops_close a s;
            if err = NET_ERR_NEED_WAIT
            then do {
              w \<leftarrow> so_conn_wait (socks s a);
              let (s, w) = sock_wait_add w (so_rcv_tmo (socks s a)) s;
              Some (s, err, w)
            }
            else Some (s, err, None)
          })"

definition sock_connect_req_in ::
  "int \<Rightarrow> x_sockaddr_in \<Rightarrow> 'a tcp_state_scheme \<Rightarrow> ('a tcp_state_scheme \<times> net_err_t \<times> wait_req) option" where
  "sock_connect_req_in sockfd addr s =
     (case sock_of sockfd s of
        Inl err \<Rightarrow> Some (s, err, None)
      | Inr r \<Rightarrow>
          do {
            a \<leftarrow> r;
            (s, err) \<leftarrow> ops_connect a addr s;
            let (s, w) = wait_if (err = NET_ERR_NEED_WAIT) (so_conn_wait (socks s a)) (so_rcv_tmo (socks s a)) s;
            Some (s, err, w)
          })"

definition sock_send_req_in ::
  "int \<Rightarrow> u8 list \<Rightarrow> 'a tcp_state_scheme \<Rightarrow> ('a tcp_state_scheme \<times> net_err_t \<times> wait_req \<times> int) option" where
  "sock_send_req_in sockfd buf s =
     (case sock_of sockfd s of
        Inl err \<Rightarrow> Some (s, err, None, 0)
      | Inr r \<Rightarrow>
          do {
            a \<leftarrow> r;
            (s, err, n) \<leftarrow> ops_send a buf (upd_sock a (\<lambda>k. k\<lparr>so_err := NET_OK\<rparr>) s);
            let (s, w) = wait_if (err = NET_ERR_NEED_WAIT) (so_snd_wait (socks s a)) (so_snd_tmo (socks s a)) s;
            Some (s, err, w, case n of None \<Rightarrow> 0 | Some n \<Rightarrow> n)
          })"

definition sock_recv_req_in ::
  "int \<Rightarrow> int \<Rightarrow> 'a tcp_state_scheme \<Rightarrow> ('a tcp_state_scheme \<times> net_err_t \<times> wait_req \<times> u8 list \<times> int) option" where
  "sock_recv_req_in sockfd len s =
     (case sock_of sockfd s of
        Inl err \<Rightarrow> Some (s, err, None, [], 0)
      | Inr r \<Rightarrow>
          do {
            a \<leftarrow> r;
            (s, err, bs, n) \<leftarrow> ops_recv a len s;
            let (s, w) = wait_if (err = NET_ERR_NEED_WAIT) (so_rcv_wait (socks s a)) (so_rcv_tmo (socks s a)) s;
            Some (s, err, w, bs, case n of None \<Rightarrow> 0 | Some n \<Rightarrow> n)
          })"

definition sock_bind_req_in :: "int \<Rightarrow> x_sockaddr_in \<Rightarrow> 'a tcp_state_scheme \<Rightarrow> ('a tcp_state_scheme \<times> net_err_t) option" where
  "sock_bind_req_in sockfd addr s =
     (case sock_of sockfd s of Inl err \<Rightarrow> Some (s, err) | Inr r \<Rightarrow> do { a \<leftarrow> r; ops_bind a addr s })"

definition sock_listen_req_in :: "int \<Rightarrow> int \<Rightarrow> 'a tcp_state_scheme \<Rightarrow> ('a tcp_state_scheme \<times> net_err_t) option" where
  "sock_listen_req_in sockfd backlog s =
     (case sock_of sockfd s of
        Inl err \<Rightarrow> Some (s, err)
      | Inr r \<Rightarrow>
          do {
            a \<leftarrow> r;
            case a of Tcp_sock t \<Rightarrow> Some (tcp_listen t backlog s) | _ \<Rightarrow> Some (s, NET_ERR_NOT_SUPPORT)
          })"

text \<open>\<^verbatim>\<open>sock_accept_req_in\<close>; the last result is \<^verbatim>\<open>accept->client\<close>, minus one when it is not set.\<close>

definition sock_accept_req_in ::
  "int \<Rightarrow> 'a tcp_state_scheme \<Rightarrow> ('a tcp_state_scheme \<times> net_err_t \<times> wait_req \<times> x_sockaddr_in option \<times> int) option" where
  "sock_accept_req_in sockfd s =
     (case sock_of sockfd s of
        Inl err \<Rightarrow> Some (s, err, None, None, - 1)
      | Inr r \<Rightarrow>
          do {
            a \<leftarrow> r;
            case a of
              Tcp_sock t \<Rightarrow>
                (let (s, err, addr, client) = tcp_accept t s
                 in if net_err_neg err then Some (s, err, None, addr, - 1)
                    else if err = NET_ERR_NEED_WAIT
                    then let (s, w) = wait_if True (so_conn_wait (socks s a)) (so_rcv_tmo (socks s a)) s
                         in Some (s, NET_OK, w, addr, - 1)
                    else case socket_alloc s of
                           (s, None) \<Rightarrow> Some (s, NET_ERR_NONE, None, addr, - 1)
                         | (s, Some i) \<Rightarrow>
                             Some (s\<lparr>socket_tbl := (socket_tbl s)[i := (socket_tbl s ! i)\<lparr>sk_sock := map_option Tcp_sock client\<rparr>]\<rparr>,
                                   NET_OK, None, addr, int i))
            | _ \<Rightarrow> Some (s, NET_ERR_NOT_SUPPORT, None, None, - 1)
          })"

definition sock_destroy_req_in :: "int \<Rightarrow> 'a tcp_state_scheme \<Rightarrow> ('a tcp_state_scheme \<times> net_err_t) option" where
  "sock_destroy_req_in sockfd s =
     (case get_socket sockfd s of
        None \<Rightarrow> Some (s, NET_ERR_PARAM)
      | Some i \<Rightarrow>
          do {
            a \<leftarrow> sk_sock (socket_tbl s ! i);
            s \<leftarrow> (case a of Tcp_sock t \<Rightarrow> tcp_destroy t s | _ \<Rightarrow> None);
            Some (socket_free i s, NET_OK)
          })"

definition socket_init :: "'a raw_state_scheme \<Rightarrow> 'a raw_state_scheme \<times> net_err_t" where
  "socket_init s =
     (fst (raw_init (s\<lparr>socket_tbl := replicate SOCKET_MAX_NR \<lparr>sk_state = SOCKET_STATE_FREE, sk_sock = None\<rparr>\<rparr>)), NET_OK)"

end
