(* ===== verification/Net_Frag.thy ===== *)
theory Net_Frag
  imports Net_Ipv4 "HOL-Library.Multiset"
begin

text \<open>
  Reassembly is correct: fragments that arrive in any order end up in the order of their
  offsets, the datagram counts as complete exactly when the last missing fragment has
  arrived, and joining them gives the first fragment's header followed by the payload.
\<close>

section \<open>Packets that an operation on another packet leaves alone\<close>

definition pk_same :: "'a packet_state_scheme \<Rightarrow> 'a packet_state_scheme \<Rightarrow> addr \<Rightarrow> bool" where
  "pk_same s s' q \<longleftrightarrow> packets s' q = packets s q \<and> (\<forall>pg\<in>set (page_list (packets s q)). pages s' pg = pages s pg)"

lemma pk_same_trans: "pk_same s s1 q \<Longrightarrow> pk_same s1 s2 q \<Longrightarrow> pk_same s s2 q"
  by (simp add: pk_same_def)

lemma pk_same_bytes: "pk_same s s' q \<Longrightarrow> packet_bytes s' q = packet_bytes s q"
  by (auto simp: pk_same_def packet_bytes_def intro: chain_bytes_cong)

lemma pk_same_hdr: "pk_same s s' q \<Longrightarrow> packet_ipv4_hdr q s' = packet_ipv4_hdr q s"
  by (cases "page_list (packets s q)")
    (simp_all add: pk_same_def packet_ipv4_hdr_def packet_ptr_def packet_first_page_def read_ipv4_hdr_def mem_read_def)

lemma pk_same_frame:
  assumes ok: "buffer_ok s ps" and p: "p \<in> set ps" "q \<in> set ps" "q \<noteq> p" and f: "pkt_frame s p s'"
  shows "pk_same s s' q"
proof -
  from p obtain xs ys where ps: "ps = xs @ p # ys" by (meson split_list)
  have d: "distinct (page_pool s @ owned s xs @ page_list (packets s p) @ owned s ys)"
    using ok by (simp add: buffer_ok_def ps owned_split)
  have "q \<in> set xs \<or> q \<in> set ys" using p ps by auto
  then have "set (page_list (packets s q)) \<subseteq> set (owned s xs) \<union> set (owned s ys)"
    using owned_member [of q xs s] owned_member [of q ys s] by blast
  with d have "set (page_list (packets s q)) \<inter> (set (page_pool s) \<union> set (page_list (packets s p))) = {}" by auto
  with f p(3) show ?thesis by (auto simp: pk_same_def pkt_frame_def)
qed

lemma buffer_ok_perm:
  assumes "mset ps = mset qs" "buffer_ok s ps"
  shows "buffer_ok s qs"
proof -
  have m: "mset (owned s l) = sum_mset (image_mset (\<lambda>p. mset (page_list (packets s p))) (mset l))" for l
    by (induction l) (simp_all add: owned_def)
  have "mset (owned s ps) = mset (owned s qs)" by (simp only: m assms(1))
  then have o: "distinct (owned s ps) = distinct (owned s qs)" "set (owned s ps) = set (owned s qs)"
    by (rule mset_eq_imp_distinct_iff, rule mset_eq_setD)
  have "distinct ps = distinct qs" "set ps = set qs"
    using assms(1) by (rule mset_eq_imp_distinct_iff, rule mset_eq_setD)
  with assms(2) o show ?thesis by (simp add: buffer_ok_def)
qed

lemma upd_frag_same [simp]:
  "pages (upd_frag f g s) = pages s" "packets (upd_frag f g s) = packets s" "page_pool (upd_frag f g s) = page_pool s"
  "packet_pool (upd_frag f g s) = packet_pool s" "frag_list (upd_frag f g s) = frag_list s" "frag_pool (upd_frag f g s) = frag_pool s"
  "frag_array (upd_frag f g s) = (frag_array s)(f := g (frag_array s f))"
  by (simp_all add: upd_frag_def)

lemma upd_frag_bytes [simp]:
  "packet_bytes (upd_frag f g s) q = packet_bytes s q" "buffer_ok (upd_frag f g s) ps = buffer_ok s ps"
  "packet_ipv4_hdr q (upd_frag f g s) = packet_ipv4_hdr q s" "packet_ok (upd_frag f g s) q = packet_ok s q"
  by (simp_all add: packet_bytes_def buffer_ok_def packet_ok_def owned_def packet_ipv4_hdr_def packet_ptr_def read_ipv4_hdr_def mem_read_def)

lemma same_above_frag:
  assumes "same_above s s'"
  shows "frag_array s' = frag_array s" "frag_list s' = frag_list s" "frag_pool s' = frag_pool s" "packet_id s' = packet_id s"
  using assms by (cases s; cases s'; simp add: same_above_def)+

section \<open>Joining\<close>

lemma join_step:
  assumes ok: "buffer_ok s (target # c # ps)" and r: "ref (packets s c) = 1" and n: "0 \<le> n" "n \<le> int (length (packet_bytes s c))"
  shows "\<exists>s1 s2. packet_remove_header c n s = Some (s1, NET_OK) \<and> packet_join target c s1 = Some (s2, NET_OK) \<and>
    buffer_ok s2 (target # ps) \<and> packet_bytes s2 target = packet_bytes s target @ drop (nat n) (packet_bytes s c) \<and>
    (\<forall>q\<in>set ps. pk_same s s2 q) \<and> same_above s s2"
proof -
  have okc: "packet_ok s c" using ok by (simp add: buffer_ok_def)
  from packet_remove_header_ok [OF okc n] obtain s1 where
    1: "packet_remove_header c n s = Some (s1, NET_OK)" "pkt_becomes s c s1 (drop (nat n) (packet_bytes s c))" by blast
  from 1(2) have f1: "pkt_frame s c s1" "packet_bytes s1 c = drop (nat n) (packet_bytes s c)" by (simp_all add: pkt_becomes_def)
  have d: "target \<noteq> c" "c \<notin> set ps" "target \<notin> set ps" using ok by (auto simp: buffer_ok_def)
  note b1 = buffer_ok_becomes [OF ok _ 1(2)]
  have ok1: "buffer_ok s1 (c # target # ps)" 
    by (rule buffer_ok_perm [where ps = "target # c # ps"]) (use b1 in auto)
  have r1: "ref (packets s1 c) = 1" using f1(1) r by (simp add: pkt_frame_def)
  from buffer_ok_join [OF ok1 _ r1, of target] obtain s2 where
    2: "packet_join target c s1 = Some (s2, NET_OK)" "buffer_ok s2 (target # ps)"
      "packet_bytes s2 target = packet_bytes s1 target @ packet_bytes s1 c" by auto
  have oks: "packet_ok s1 target" "packet_ok s1 c" using ok1 by (simp_all add: buffer_ok_def)
  have dj: "set (page_list (packets s1 target)) \<inter> set (page_list (packets s1 c)) = {}"
    using ok1 by (auto simp: buffer_ok_def owned_def)
  from packet_join_ok [OF oks d(1) dj r1] 2(1) have
    j: "pages s2 = pages s1" "\<forall>q. q \<noteq> target \<and> q \<noteq> c \<longrightarrow> packets s2 q = packets s1 q" by auto
  have t: "packet_bytes s1 target = packet_bytes s target" using b1 d by simp
  have same: "pk_same s s2 q" if "q \<in> set ps" for q
  proof -
    have "pk_same s s1 q" by (rule pk_same_frame [OF ok _ _ _ f1(1)]) (use that d in auto)
    moreover have "pk_same s1 s2 q" using j that d by (auto simp: pk_same_def)
    ultimately show ?thesis by (rule pk_same_trans)
  qed
  have "same_above s s2"
    using same_rest_remove_header [OF 1(1), THEN same_above_rest] same_rest_join [OF 2(1), THEN same_above_rest] same_above_trans by blast
  with 1(1) 2 f1(2) t same show ?thesis by auto
qed

lemma frag_join_loop_ok:
  assumes "buffer_ok s (target # cs @ ps)" "\<forall>c\<in>set cs. ref (packets s c) = 1 \<and> packet_ipv4_hdr c s = Some (H c) \<and>
      ipv4_hdr_size (H c) \<le> int (length (packet_bytes s c))"
  shows "\<exists>s'. frag_join_loop f target cs s = Some (s', True) \<and> buffer_ok s' (target # ps) \<and>
    packet_bytes s' target = packet_bytes s target @ concat (map (\<lambda>c. drop (nat (ipv4_hdr_size (H c))) (packet_bytes s c)) cs) \<and>
    (\<forall>q\<in>set ps. pk_same s s' q) \<and> frag_list s' = frag_list s \<and> frag_pool s' = frag_pool s \<and>
    (\<forall>g. g \<noteq> f \<longrightarrow> frag_array s' g = frag_array s g) \<and>
    (fr_buf_list (frag_array s f) = cs \<longrightarrow> fr_buf_list (frag_array s' f) = [])"
  using assms
proof (induction cs arbitrary: s)
  case Nil
  then show ?case by (simp add: pk_same_def)
next
  case (Cons c cs)
  let ?s = "upd_frag f (\<lambda>fr. fr\<lparr>fr_buf_list := cs\<rparr>) s"
  have c: "ref (packets ?s c) = 1" "packet_ipv4_hdr c ?s = Some (H c)" "ipv4_hdr_size (H c) \<le> int (length (packet_bytes ?s c))"
    "0 \<le> ipv4_hdr_size (H c)"
    using Cons.prems(2) by (simp_all add: ipv4_hdr_size_def)
  have ok: "buffer_ok ?s (target # c # cs @ ps)" using Cons.prems(1) by simp
  from join_step [OF ok c(1) c(4,3)] obtain s1 s2 where
    j: "packet_remove_header c (ipv4_hdr_size (H c)) ?s = Some (s1, NET_OK)" "packet_join target c s1 = Some (s2, NET_OK)"
      "buffer_ok s2 (target # cs @ ps)" "packet_bytes s2 target = packet_bytes s target @ drop (nat (ipv4_hdr_size (H c))) (packet_bytes s c)"
      "\<forall>q\<in>set (cs @ ps). pk_same ?s s2 q" "same_above ?s s2" by auto
  have same: "pk_same s s2 q" if "q \<in> set (cs @ ps)" for q using j(5) that by (simp add: pk_same_def)
  note fr = same_above_frag [OF j(6)]
  have hyp: "\<forall>x\<in>set cs. ref (packets s2 x) = 1 \<and> packet_ipv4_hdr x s2 = Some (H x) \<and> ipv4_hdr_size (H x) \<le> int (length (packet_bytes s2 x))"
    using Cons.prems(2) same pk_same_hdr pk_same_bytes by (fastforce simp: pk_same_def)
  from Cons.IH [OF j(3) hyp] obtain s' where
    s': "frag_join_loop f target cs s2 = Some (s', True)" "buffer_ok s' (target # ps)"
      "packet_bytes s' target = packet_bytes s2 target @ concat (map (\<lambda>c. drop (nat (ipv4_hdr_size (H c))) (packet_bytes s2 c)) cs)"
      "\<forall>q\<in>set ps. pk_same s2 s' q" "frag_list s' = frag_list s2" "frag_pool s' = frag_pool s2"
      "\<forall>g. g \<noteq> f \<longrightarrow> frag_array s' g = frag_array s2 g"
      "fr_buf_list (frag_array s2 f) = cs \<longrightarrow> fr_buf_list (frag_array s' f) = []" by blast
  have m: "map (\<lambda>c. drop (nat (ipv4_hdr_size (H c))) (packet_bytes s2 c)) cs = map (\<lambda>c. drop (nat (ipv4_hdr_size (H c))) (packet_bytes s c)) cs"
    using same pk_same_bytes by fastforce
  have "packet_bytes s' target =
      packet_bytes s target @ concat (map (\<lambda>c. drop (nat (ipv4_hdr_size (H c))) (packet_bytes s c)) (c # cs))"
    by (simp only: s'(3) j(4) m list.map concat.simps append_assoc)
  moreover have "frag_join_loop f target (c # cs) s = Some (s', True)" using c(2) j(1,2) s'(1) by (simp add: Let_def)
  moreover have "\<forall>q\<in>set ps. pk_same s s' q" using s'(4) same pk_same_trans by fastforce
  ultimately show ?case using s' fr by (auto simp: fun_upd_def)
qed

section \<open>Order of arrival\<close>

text \<open>The fragments \<open>fs\<close>, with headers \<open>H\<close>, cut a payload into consecutive pieces from \<open>off\<close> on.\<close>

fun pieces :: "(addr \<Rightarrow> ipv4_hdr_t) \<Rightarrow> int \<Rightarrow> addr list \<Rightarrow> bool" where
  "pieces H off [] \<longleftrightarrow> True"
| "pieces H off (c # cs) \<longleftrightarrow>
     uint (get_frag_start (H c)) = off \<and> 0 < get_data_size (H c) \<and> off + get_data_size (H c) < 65536 \<and>
     ip_more (H c) = (cs \<noteq> []) \<and> pieces H (off + get_data_size (H c)) cs"

lemma pieces_start: "pieces H off fs \<Longrightarrow> c \<in> set fs \<Longrightarrow> off \<le> uint (get_frag_start (H c))"
  by (induction fs arbitrary: off) fastforce+

lemma pieces_suffix: "pieces H off (us @ cs) \<Longrightarrow> \<exists>off'. pieces H off' cs"
  by (induction us arbitrary: off) auto

lemma frag_end_piece:
  assumes "uint (get_frag_start h) + get_data_size h < 65536" "0 < get_data_size h"
  shows "uint (get_frag_end h) = uint (get_frag_start h) + get_data_size h"
proof -
  have "uint (get_frag_end h) = (uint (get_frag_start h) + get_data_size h) mod 65536"
    by (simp add: get_frag_end_def uint_word_ariths take_bit_eq_mod mod_add_right_eq uint_word_of_int)
  moreover have "0 \<le> uint (get_frag_start h)" by simp
  ultimately show ?thesis using assms by simp
qed

lemma frag_insert_loop_pieces:
  assumes "pieces H off fs" "distinct fs" "c \<in> set fs" "\<not> P c" "\<forall>x\<in>set fs. packet_ipv4_hdr x s = Some (H x)"
  shows "frag_insert_loop s (H c) c (filter P fs) = Some (filter (\<lambda>x. P x \<or> x = c) fs, NET_OK)"
  using assms
proof (induction fs arbitrary: off)
  case (Cons x xs)
  let ?e = "off + get_data_size (H x)"
  show ?case
  proof (cases "x = c")
    case True
    have nc: "c \<notin> set xs" using Cons.prems(2) True by simp
    then have r: "filter (\<lambda>x. P x \<or> x = c) (x # xs) = c # filter P xs" using True by (auto intro: filter_cong)
    show ?thesis
    proof (cases "filter P xs")
      case Nil
      with True Cons.prems(4) r show ?thesis by simp
    next
      case (Cons y ys)
      then have "y \<in> set (filter P xs)" by simp
      then have y: "y \<in> set xs" by simp
      have p: "uint (get_frag_start (H c)) = off" "0 < get_data_size (H c)" "?e < 65536"
        "pieces H ?e xs" using Cons.prems(1) True by auto
      have "?e \<le> uint (get_frag_start (H y))" by (rule pieces_start [OF p(4) y])
      moreover have "uint (get_frag_end (H c)) = ?e" using frag_end_piece [of "H c"] p True by simp
      ultimately have "get_frag_end (H c) \<le> get_frag_start (H y)" "get_frag_start (H c) \<noteq> get_frag_start (H y)"
        using p True by (auto simp: word_le_def)
      with Cons True Cons.prems(4,5) r y show ?thesis by (simp add: Let_def)
    qed
  next
    case False
    then have c: "c \<in> set xs" using Cons.prems(3) by simp
    have p: "uint (get_frag_start (H x)) = off" "0 < get_data_size (H x)" "pieces H ?e xs" using Cons.prems(1) by auto
    have IH: "frag_insert_loop s (H c) c (filter P xs) = Some (filter (\<lambda>x. P x \<or> x = c) xs, NET_OK)"
      by (rule Cons.IH [OF p(3)]) (use Cons.prems c in auto)
    have st: "?e \<le> uint (get_frag_start (H c))" by (rule pieces_start [OF p(3) c])
    have en: "uint (get_frag_start (H c)) \<le> uint (get_frag_end (H c))"
    proof -
      obtain us vs where l: "xs = us @ c # vs" using c by (meson split_list)
      obtain o' where "pieces H o' (c # vs)" using pieces_suffix p(3) unfolding l by blast
      then show ?thesis using frag_end_piece [of "H c"] by auto
    qed
    have ne: "get_frag_start (H c) \<noteq> get_frag_start (H x)" "\<not> get_frag_end (H c) \<le> get_frag_start (H x)"
      using st en p by (auto simp: word_le_def)
    show ?thesis
    proof (cases "P x")
      case True
      with IH ne Cons.prems(5) show ?thesis by (simp add: Let_def)
    next
      case nP: False
      with IH False show ?thesis by simp
    qed
  qed
qed simp

lemma frag_arrived_pieces:
  assumes "pieces H off fs" "fs \<noteq> []" "\<forall>x\<in>set fs. packet_ipv4_hdr x s = Some (H x)"
  shows "frag_arrived_loop s off False (filter P fs) = Some (\<forall>x\<in>set fs. P x)"
  using assms
proof (induction fs arbitrary: off)
  case (Cons x xs)
  have p: "uint (get_frag_start (H x)) = off" "0 < get_data_size (H x)" "ip_more (H x) = (xs \<noteq> [])"
    "pieces H (off + get_data_size (H x)) xs" using Cons.prems(1) by auto
  show ?case
  proof (cases "P x")
    case True
    show ?thesis
    proof (cases "xs = []")
      case nil: True
      with True Cons.prems(3) p show ?thesis by simp
    next
      case False
      have "frag_arrived_loop s (off + get_data_size (H x)) False (filter P xs) = Some (\<forall>x\<in>set xs. P x)"
        by (rule Cons.IH [OF p(4) False]) (use Cons.prems(3) in simp)
      with True False Cons.prems(3) p show ?thesis by simp
    qed
  next
    case False
    show ?thesis
    proof (cases "filter P xs")
      case Nil
      with False show ?thesis by simp
    next
      case (Cons y ys)
      then have "y \<in> set (filter P xs)" by simp
      then have y: "y \<in> set xs" by simp
      have "off + get_data_size (H x) \<le> uint (get_frag_start (H y))" by (rule pieces_start [OF p(4) y])
      with Cons False p Cons.prems(3) y show ?thesis by auto
    qed
  qed
qed simp

text \<open>Fragments that come in one after the other, with the two results \<^verbatim>\<open>ip_frag_in\<close> looks at.\<close>

fun arrive :: "addr \<Rightarrow> (addr \<Rightarrow> ipv4_hdr_t) \<Rightarrow> addr list \<Rightarrow> 'a ipv4_state_scheme \<Rightarrow>
  ('a ipv4_state_scheme \<times> (net_err_t \<times> bool) list) option" where
  "arrive f H [] s = Some (s, [])"
| "arrive f H (c # cs) s =
     do {
       (s, err) \<leftarrow> frag_insert f c (H c) s;
       complete \<leftarrow> frag_is_all_arrived f s;
       (s, rs) \<leftarrow> arrive f H cs s;
       Some (s, (err, complete) # rs)
     }"

lemma upd_frag_upd_frag: "upd_frag f g (upd_frag f h s) = upd_frag f (\<lambda>fr. g (h fr)) s"
  by (simp add: upd_frag_def)

lemma arrive_pieces:
  assumes "pieces H 0 fs" "fs \<noteq> []" "distinct fs" "length fs \<le> 16" "\<forall>x\<in>set fs. packet_ipv4_hdr x s = Some (H x)"
    and "distinct xs" "set xs \<subseteq> set fs" "\<forall>x\<in>set xs. \<not> P x" "fr_buf_list (frag_array s f) = filter P fs" "\<forall>x\<in>set fs. P x \<or> x \<in> set xs"
  shows "\<exists>rs. arrive f H xs s = Some (upd_frag f (\<lambda>fr. fr\<lparr>fr_buf_list := fs\<rparr>) s, rs) \<and>
    rs = map (\<lambda>i. (NET_OK, Suc i = length xs)) [0..<length xs]"
  using assms(5-)
proof (induction xs arbitrary: P s)
  case Nil
  then have fs: "fr_buf_list (frag_array s f) = fs" by simp
  have "(frag_array s f)\<lparr>fr_buf_list := fs\<rparr> = frag_array s f" unfolding fs [symmetric] by simp
  then have "upd_frag f (\<lambda>fr. fr\<lparr>fr_buf_list := fs\<rparr>) s = s" by (simp add: upd_frag_def)
  then show ?case by simp
next
  case (Cons c cs)
  let ?P = "\<lambda>x. P x \<or> x = c"
  let ?s = "upd_frag f (\<lambda>fr. fr\<lparr>fr_buf_list := filter ?P fs\<rparr>) s"
  have c: "c \<in> set fs" "\<not> P c" "c \<notin> set cs" using Cons.prems by auto
  have "length (filter P fs) < length fs" using c by (auto intro: length_filter_less)
  with assms(4) have "\<not> length (fr_buf_list (frag_array s f)) \<ge> 16" by (simp add: Cons.prems(5))
  moreover have "frag_insert_loop s (H c) c (filter P fs) = Some (filter ?P fs, NET_OK)"
    by (rule frag_insert_loop_pieces [where P = P, OF assms(1,3) c(1,2) Cons.prems(1)])
  ultimately have i: "frag_insert f c (H c) s = Some (?s, NET_OK)" by (simp add: frag_insert_def Cons.prems(5))
  have h: "\<forall>x\<in>set fs. packet_ipv4_hdr x ?s = Some (H x)" using Cons.prems(1) by simp
  have "frag_is_all_arrived f ?s = Some (\<forall>x\<in>set fs. ?P x)"
    unfolding frag_is_all_arrived_def using frag_arrived_pieces [OF assms(1,2) h, of ?P] by simp
  moreover have "(\<forall>x\<in>set fs. ?P x) = (cs = [])"
  proof (cases cs)
    case (Cons d ds)
    then have "d \<in> set fs" "\<not> ?P d" using Cons.prems(3,4) c(3) \<open>set (c # cs) \<subseteq> set fs\<close> \<open>\<forall>x\<in>set (c # cs). \<not> P x\<close> by auto
    with Cons show ?thesis by auto
  qed (use Cons.prems(6) in auto)
  ultimately have a: "frag_is_all_arrived f ?s = Some (cs = [])" by simp
  have "\<exists>rs. arrive f H cs ?s = Some (upd_frag f (\<lambda>fr. fr\<lparr>fr_buf_list := fs\<rparr>) ?s, rs) \<and>
      rs = map (\<lambda>i. (NET_OK, Suc i = length cs)) [0..<length cs]"
    by (rule Cons.IH [OF h]) (use Cons.prems c(3) in auto)
  then have "arrive f H cs ?s = Some (upd_frag f (\<lambda>fr. fr\<lparr>fr_buf_list := fs\<rparr>) s, map (\<lambda>i. (NET_OK, Suc i = length cs)) [0..<length cs])"
    by (simp add: upd_frag_upd_frag)
  moreover have "map (\<lambda>i. (NET_OK, Suc i = length (c # cs))) [0..<length (c # cs)] =
      (NET_OK, cs = []) # map (\<lambda>i. (NET_OK, Suc i = length cs)) [0..<length cs]"
    by (simp add: map_upt_Suc del: upt_Suc)
  ultimately show ?case using i a by simp
qed

section \<open>Reassembly\<close>

lemma frag_join_ok:
  assumes l: "fr_buf_list (frag_array s f) = target # cs" and ok: "buffer_ok s ((target # cs) @ ps)"
    and cs: "\<forall>c\<in>set cs. ref (packets s c) = 1 \<and> packet_ipv4_hdr c s = Some (H c) \<and> ipv4_hdr_size (H c) \<le> int (length (packet_bytes s c))"
  shows "\<exists>s'. frag_join f s = Some (s', Some target) \<and> buffer_ok s' (target # ps) \<and>
    packet_bytes s' target = packet_bytes s target @ concat (map (\<lambda>c. drop (nat (ipv4_hdr_size (H c))) (packet_bytes s c)) cs) \<and>
    (\<forall>q\<in>set ps. packet_bytes s' q = packet_bytes s q) \<and>
    frag_list s' = remove1 f (frag_list s) \<and> frag_pool s' = pool_free (frag_pool s) f"
proof -
  let ?s = "upd_frag f (\<lambda>fr. fr\<lparr>fr_buf_list := cs\<rparr>) s"
  have ok': "buffer_ok ?s (target # cs @ ps)" using ok by simp
  have cs': "\<forall>c\<in>set cs. ref (packets ?s c) = 1 \<and> packet_ipv4_hdr c ?s = Some (H c) \<and> ipv4_hdr_size (H c) \<le> int (length (packet_bytes ?s c))"
    using cs by simp
  from frag_join_loop_ok [OF ok' cs', of f] obtain s1 where
    1: "frag_join_loop f target cs ?s = Some (s1, True)" "buffer_ok s1 (target # ps)"
      "packet_bytes s1 target = packet_bytes s target @ concat (map (\<lambda>c. drop (nat (ipv4_hdr_size (H c))) (packet_bytes s c)) cs)"
      "\<forall>q\<in>set ps. pk_same ?s s1 q" "frag_list s1 = frag_list s" "frag_pool s1 = frag_pool s" "fr_buf_list (frag_array s1 f) = []"
    by auto
  have "frag_join f s = Some (frag_free f s1, Some target)" using 1(1) l by (simp add: frag_join_def)
  moreover have "packet_bytes s1 q = packet_bytes s q" if "q \<in> set ps" for q
    using 1(4) that pk_same_bytes by fastforce
  moreover have "packet_bytes (frag_free f s1) q = packet_bytes s1 q" "buffer_ok (frag_free f s1) qs = buffer_ok s1 qs" for q qs
    using 1(7) by (simp_all add: frag_free_def frag_free_buf_list_def Let_def packet_bytes_def buffer_ok_def packet_ok_def owned_def)
  ultimately show ?thesis using 1 by (simp add: frag_free_def frag_free_buf_list_def Let_def)
qed

text \<open>C12. Reassembly.  Let the fragments fs of one datagram (at most 16 packets, not shared,
  whose headers describe consecutive pieces of the payload, with the more bit on all but
  the last) come in in any order xs.  Then every frag_insert accepts its fragment,
  frag_is_all_arrived answers yes after the last one and at no earlier moment, and
  frag_join returns a packet that holds the first fragment's header followed by the
  payloads of all fragments in the order of their offsets.  The other packets keep their
  bytes, the packet buffers stay well formed, and the reassembly entry is free again.\<close>

theorem frag_reassembly:
  assumes "pieces H 0 fs" "fs \<noteq> []" "length fs \<le> 16" "mset xs = mset fs" "fr_buf_list (frag_array s f) = []"
    and "buffer_ok s (fs @ ps)"
    and "\<forall>c\<in>set fs. ref (packets s c) = 1 \<and> packet_ipv4_hdr c s = Some (H c) \<and> ipv4_hdr_size (H c) \<le> int (length (packet_bytes s c))"
  shows "\<exists>s1 s2. arrive f H xs s = Some (s1, map (\<lambda>i. (NET_OK, Suc i = length xs)) [0..<length xs]) \<and>
    frag_join f s1 = Some (s2, Some (hd fs)) \<and>
    packet_bytes s2 (hd fs) = take (nat (ipv4_hdr_size (H (hd fs)))) (packet_bytes s (hd fs)) @
      concat (map (\<lambda>c. drop (nat (ipv4_hdr_size (H c))) (packet_bytes s c)) fs) \<and>
    (\<forall>q\<in>set ps. packet_bytes s2 q = packet_bytes s q) \<and> buffer_ok s2 (hd fs # ps) \<and>
    frag_list s2 = remove1 f (frag_list s) \<and> frag_pool s2 = pool_free (frag_pool s) f"
proof -
  have d: "distinct fs" using assms(6) by (simp add: buffer_ok_def)
  have x: "distinct xs" "set xs = set fs" using assms(4) d mset_eq_imp_distinct_iff mset_eq_setD by blast+
  have h: "\<forall>x\<in>set fs. packet_ipv4_hdr x s = Some (H x)" using assms(7) by simp
  let ?s1 = "upd_frag f (\<lambda>fr. fr\<lparr>fr_buf_list := fs\<rparr>) s"
  have a: "arrive f H xs s = Some (?s1, map (\<lambda>i. (NET_OK, Suc i = length xs)) [0..<length xs])"
    using arrive_pieces [OF assms(1,2) d assms(3) h x(1), of "\<lambda>_. False"] x(2) assms(5) by simp
  obtain t cs where fs: "fs = t # cs" using assms(2) by (cases fs) auto
  have l: "fr_buf_list (frag_array ?s1 f) = t # cs" by (simp add: fs)
  have ok: "buffer_ok ?s1 ((t # cs) @ ps)" using assms(6) fs by simp
  have cs: "\<forall>c\<in>set cs. ref (packets ?s1 c) = 1 \<and> packet_ipv4_hdr c ?s1 = Some (H c) \<and> ipv4_hdr_size (H c) \<le> int (length (packet_bytes ?s1 c))"
    using assms(7) fs by simp
  from frag_join_ok [OF l ok cs] a show ?thesis by (auto simp: fs)
qed

text \<open>Two fragments, of eight and of four bytes, in two packets of one page each.\<close>

definition frag_sample_hdr :: "addr \<Rightarrow> ipv4_hdr_t" where
  "frag_sample_hdr c = \<lparr>ip_shdr_all = 0x45, ip_total_len = (if c = 0 then 28 else 24), ip_id = 7,
     ip_frag_all = (if c = 0 then 0x2000 else 1), ip_ttl = 64, ip_protocol = 17, ip_hdr_checksum = 0,
     ip_src_ip = [10, 0, 0, 1], ip_dest_ip = [10, 0, 0, 2]\<rparr>"

definition frag_sample :: packet_state where
  "frag_sample = zero_buffer
     \<lparr>page_pool := [2..<512], packet_pool := [2..<256],
      pages := (\<lambda>g. \<lparr>pg_size = (if g = 0 then 28 else 24), pg_data = 0,
        pg_payload = ipv4_hdr_bytes (frag_sample_hdr g) @ (if g = 0 then [1, 2, 3, 4, 5, 6, 7, 8] else [9, 10, 11, 12, 0, 0, 0, 0]) @ replicate 100 0\<rparr>),
      packets := (\<lambda>p. \<lparr>total_size = (if p = 0 then 28 else 24), page_list = [p], ref = 1, pos = 0, cur_page = Some p, page_offset = 0\<rparr>)\<rparr>"

lemma frag_sample_simps [simp]:
  "page_pool frag_sample = [2..<512]" "packet_pool frag_sample = [2..<256]"
  "packets frag_sample p = \<lparr>total_size = (if p = 0 then 28 else 24), page_list = [p], ref = 1, pos = 0, cur_page = Some p, page_offset = 0\<rparr>"
  "pages frag_sample g = \<lparr>pg_size = (if g = 0 then 28 else 24), pg_data = 0,
     pg_payload = ipv4_hdr_bytes (frag_sample_hdr g) @ (if g = 0 then [1, 2, 3, 4, 5, 6, 7, 8] else [9, 10, 11, 12, 0, 0, 0, 0]) @ replicate 100 0\<rparr>"
  by (simp_all add: frag_sample_def del: upt_rec_numeral)

lemma frag_sample_payload:
  "length (ipv4_hdr_bytes (frag_sample_hdr c)) = 20"
  "ipv4_hdr_of (ipv4_hdr_bytes (frag_sample_hdr c)) = frag_sample_hdr c"
  by (simp_all add: ipv4_hdr_bytes_def ipv4_hdr_of_def frag_sample_hdr_def le16_bytes_def le16_def)

lemma frag_sample_bytes: "packet_bytes frag_sample p = ipv4_hdr_bytes (frag_sample_hdr p) @ (if p = 0 then [1, 2, 3, 4, 5, 6, 7, 8] else [9, 10, 11, 12])"
  by (simp add: packet_bytes_def chain_bytes_def page_bytes_def frag_sample_payload)

lemma frag_sample_ok: "buffer_ok frag_sample [0, 1]"
proof -
  have "packet_ok frag_sample p" if "p < 2" for p
    using that by (auto simp: packet_ok_def frag_sample_bytes frag_sample_payload page_ok_def simp del: upt_rec_numeral)
  then show ?thesis by (auto simp: buffer_ok_def owned_def frag_sample_payload simp del: upt_rec_numeral)
qed

theorem frag_reassembly_witness:
  "\<exists>s1 s2. arrive 0 frag_sample_hdr [1, 0] (with_ipv4 (with_arp (with_netifs frag_sample))) = Some (s1, [(NET_OK, False), (NET_OK, True)]) \<and>
     frag_join 0 s1 = Some (s2, Some 0) \<and> packet_bytes s2 0 = ipv4_hdr_bytes (frag_sample_hdr 0) @ [1, 2, 3, 4, 5, 6, 7, 8, 9, 10, 11, 12]"
proof -
  let ?s = "with_ipv4 (with_arp (with_netifs frag_sample))"
  have sz: "ipv4_hdr_size (frag_sample_hdr c) = 20" for c
    by (simp add: ipv4_hdr_size_def ip_shdr_def frag_sample_hdr_def take_bit_eq_mod)
  have st: "get_frag_start (frag_sample_hdr c) = (if c = 0 then 0 else 8)" for c
    by (simp add: get_frag_start_def ip_offset_def frag_sample_hdr_def)
  have ds: "get_data_size (frag_sample_hdr c) = (if c = 0 then 8 else 4)" for c
    by (simp add: get_data_size_def sz) (simp add: frag_sample_hdr_def)
  have mo: "ip_more (frag_sample_hdr c) = (c = 0)" for c
    by (simp add: ip_more_def frag_sample_hdr_def)
  have p: "pieces frag_sample_hdr 0 [0, 1]" by (simp add: st ds mo)
  have h: "packet_ipv4_hdr c ?s = Some (frag_sample_hdr c)" for c
    by (simp add: packet_ipv4_hdr_def packet_ptr_def packet_first_page_def read_ipv4_hdr_def mem_read_def page_read_def frag_sample_payload)
  have r: "\<forall>c\<in>set [0, 1]. ref (packets ?s c) = 1 \<and> packet_ipv4_hdr c ?s = Some (frag_sample_hdr c) \<and>
      ipv4_hdr_size (frag_sample_hdr c) \<le> int (length (packet_bytes ?s c))"
    by (simp add: h sz frag_sample_bytes frag_sample_payload)
  from frag_reassembly [OF p _ _ _ _ _ r, of "[1, 0]" 0 "[]"]
  show ?thesis using frag_sample_ok by (auto simp add: sz frag_sample_bytes frag_sample_payload simp del: arrive.simps)
qed

end
