(* ===== verification/Net_Stack.thy ===== *)
theory Net_Stack
  imports Net_Socket Net_Frag
begin

text \<open>
  The stack as a whole: the input path from a link to the transport protocols
  (\<^verbatim>\<open>ip_normal_in\<close>, \<^verbatim>\<open>ip_frag_in\<close>, \<^verbatim>\<open>ipv4_in\<close>, \<^verbatim>\<open>ether_in\<close>), the timers' callbacks, and the
  worker thread of \<^verbatim>\<open>msg_handler.c\<close>, which takes one message after the other, an interface with
  input or a request of the socket API, and then looks at the timers.

  A request travels as a \<^verbatim>\<open>func_msg_t\<close> on its caller's stack, found here by its address; the
  function it names is one of the requests of \<^verbatim>\<open>sock.c\<close>, and the parts of \<^verbatim>\<open>sock_req_t\<close> the
  function fills in form the reply.  The clock of the platform is an input of each round.
\<close>

section \<open>Input from the network\<close>

text \<open>\<^verbatim>\<open>iphdr_htons(pkt)\<close> through a pointer that was taken before.\<close>

definition swap_hdr_at :: "dptr \<Rightarrow> 'a packet_state_scheme \<Rightarrow> 'a packet_state_scheme option" where
  "swap_hdr_at d s =
     do {
       h \<leftarrow> read_ipv4_hdr d s;
       let h = iphdr_htons h;
       mem_write d 2 (le16_bytes (ip_total_len h) @ le16_bytes (ip_id h) @ le16_bytes (ip_frag_all h)) s
     }"

definition ip_normal_in ::
  "addr \<Rightarrow> addr \<Rightarrow> ipaddr_t \<Rightarrow> ipaddr_t \<Rightarrow> 'a tcp_state_scheme \<Rightarrow> ('a tcp_state_scheme \<times> net_err_t) option" where
  "ip_normal_in n p src dest s =
     do {
       d \<leftarrow> packet_ptr p s;
       h \<leftarrow> read_ipv4_hdr d s;
       if ip_protocol h = NET_PROTOCOL_ICMPv4
       then do {
         (s, err) \<leftarrow> icmpv4_in src (ni_ipaddr (netifs s n)) p s;
         Some (s, if net_err_neg err then err else NET_OK)
       }
       else if ip_protocol h = NET_PROTOCOL_UDP
       then do {
         (s, err) \<leftarrow> udp_in p src dest s;
         if net_err_neg err
         then do {
           s \<leftarrow> (if err = NET_ERR_UNREACH
                 then do {
                   s \<leftarrow> swap_hdr_at d s;
                   map_option fst (icmpv4_out_unreach src (ni_ipaddr (netifs s n)) ICMPv4_UNREACH_PORT p s)
                 }
                 else Some s);
           Some (s, err)
         }
         else Some (s, NET_OK)
       }
       else if ip_protocol h = NET_PROTOCOL_TCP
       then do {
         (s, _) \<leftarrow> packet_remove_header p (ipv4_hdr_size h) s;
         (s, err) \<leftarrow> tcp_in p src dest s;
         Some (s, if net_err_neg err then err else NET_OK)
       }
       else do { (s, _) \<leftarrow> raw_in p s; Some (s, NET_OK) }
     }"

definition ip_frag_in ::
  "addr \<Rightarrow> addr \<Rightarrow> ipaddr_t \<Rightarrow> ipaddr_t \<Rightarrow> 'a tcp_state_scheme \<Rightarrow> ('a tcp_state_scheme \<times> net_err_t) option" where
  "ip_frag_in n p src dest s =
     do {
       h \<leftarrow> packet_ipv4_hdr p s;
       let (s, r) = frag_find src (ip_id h) s;
       (s, f) \<leftarrow> (case r of
                    Some f \<Rightarrow> Some (s, f)
                  | None \<Rightarrow>
                      (case frag_alloc s of
                         (s, None) \<Rightarrow> None
                       | (s, Some f) \<Rightarrow> Some (frag_add f src (ip_id h) s, f)));
       (s, err) \<leftarrow> frag_insert f p h s;
       if net_err_neg err then Some (s, err)
       else do {
         complete \<leftarrow> frag_is_all_arrived f s;
         if \<not> complete then Some (s, NET_OK)
         else do {
           (s, full) \<leftarrow> frag_join f s;
           case full of
             None \<Rightarrow> Some (s, NET_OK)
           | Some full_buf \<Rightarrow>
               do {
                 (s, err) \<leftarrow> ip_normal_in n full_buf src dest s;
                 Some (if net_err_neg err then packet_free full_buf s else s, NET_OK)
               }
         }
       }
     }"

text \<open>\<^verbatim>\<open>ipv4_in\<close>; for a broken packet it returns the result of \<^verbatim>\<open>packet_set_cont\<close>, which is no error.\<close>

definition ipv4_in :: "addr \<Rightarrow> addr \<Rightarrow> 'a tcp_state_scheme \<Rightarrow> ('a tcp_state_scheme \<times> net_err_t) option" where
  "ipv4_in n p s =
     do {
       (s, err) \<leftarrow> packet_set_cont p (int IP_HDR_SIZE) s;
       if net_err_neg err then Some (s, err)
       else do {
         d \<leftarrow> packet_ptr p s;
         v \<leftarrow> validate_ipv4_pkt d (total_size (packets s p)) s;
         if v \<noteq> NET_OK then Some (s, err)
         else do {
           s \<leftarrow> swap_hdr_at d s;
           h \<leftarrow> read_ipv4_hdr d s;
           (s, err) \<leftarrow> packet_resize p (uint (ip_total_len h)) s;
           if net_err_neg err then Some (s, err)
           else do {
             dest_ip \<leftarrow> ipaddr_from_buf (ip_dest_ip h);
             src_ip \<leftarrow> ipaddr_from_buf (ip_src_ip h);
             if \<not> ipaddr_is_match dest_ip (ni_ipaddr (netifs s n)) (ni_netmask (netifs s n)) then Some (s, NET_ERR_UNREACH)
             else if ip_offset h \<noteq> 0 \<or> ip_more h then ip_frag_in n p src_ip dest_ip s
             else ip_normal_in n p src_ip dest_ip s
           }
         }
       }
     }"

definition ether_in :: "addr \<Rightarrow> addr \<Rightarrow> 'a tcp_state_scheme \<Rightarrow> ('a tcp_state_scheme \<times> net_err_t) option" where
  "ether_in n p s =
     do {
       (s, _) \<leftarrow> packet_set_cont p ETHER_HDR_SIZE s;
       d \<leftarrow> packet_ptr p s;
       let err = validate_frame_format (total_size (packets s p));
       if err \<noteq> NET_OK then Some (s, err)
       else do {
         pb \<leftarrow> mem_read d 12 2 s;
         let protocol = swap_u16 (le16 (pb ! 0) (pb ! 1));
         if protocol = NET_PROTOCOL_ARP
         then do {
           (s, err) \<leftarrow> packet_remove_header p ETHER_HDR_SIZE s;
           if net_err_neg err then Some (s, NET_ERR_SIZE) else arp_in n p s
         }
         else if protocol = NET_PROTOCOL_IPv4
         then do {
           (s, err) \<leftarrow> packet_remove_header p ETHER_HDR_SIZE s;
           if net_err_neg err then Some (s, NET_ERR_SIZE)
           else do {
             (s, err) \<leftarrow> ipv4_in n p s;
             Some (s, if net_err_neg err then err else NET_OK)
           }
         }
         else Some (s, NET_ERR_NOT_SUPPORT)
       }
     }"

section \<open>Timers\<close>

text \<open>The callbacks, called with the argument the timer was added with.\<close>

definition timer_call :: "timer_proc \<Rightarrow> addr \<Rightarrow> addr \<Rightarrow> 'a tcp_state_scheme \<Rightarrow> 'a tcp_state_scheme option" where
  "timer_call pr timer arg s =
     (case pr of
        FRAG_TMO \<Rightarrow> Some (frag_tmo s)
      | ARP_CACHE_TMO \<Rightarrow> arp_cache_tmo s
      | TCP_OUT_TIMER_TMO \<Rightarrow> tcp_out_timer_tmo arg s
      | TCP_KEEPALIVE_TMO \<Rightarrow> tcp_keepalive_tmo arg s
      | TCP_TIMEWAIT_TMO \<Rightarrow> tcp_timewait_tmo arg s)"

section \<open>Requests of the socket API\<close>

datatype sock_func =
    Sock_create int int int
  | Sock_sendto int "u8 list" x_sockaddr_in
  | Sock_recvfrom int int
  | Sock_setsockopt int int int "u8 list" int
  | Sock_close int
  | Sock_connect int x_sockaddr_in
  | Sock_send int "u8 list"
  | Sock_recv int int
  | Sock_bind int x_sockaddr_in
  | Sock_listen int int
  | Sock_accept int
  | Sock_destroy int

record sock_reply =
  rp_wait :: wait_req
  rp_len :: int
  rp_bytes :: "u8 list"
  rp_addr :: "x_sockaddr_in option"
  rp_fd :: int

definition no_reply :: sock_reply where
  "no_reply = \<lparr>rp_wait = None, rp_len = 0, rp_bytes = [], rp_addr = None, rp_fd = - 1\<rparr>"

record func_msg_t =
  fm_func :: sock_func
  fm_err :: net_err_t
  fm_reply :: sock_reply
  fm_wait_sem :: int

record stack_state = tcp_state +
  func_msgs :: "addr \<Rightarrow> func_msg_t"

fun exec_func :: "sock_func \<Rightarrow> 'a tcp_state_scheme \<Rightarrow> ('a tcp_state_scheme \<times> net_err_t \<times> sock_reply) option" where
  "exec_func (Sock_create family ty protocol) s =
     map_option (\<lambda>(s, err, fd). (s, err, no_reply\<lparr>rp_fd := fd\<rparr>)) (sock_create_req_in family ty protocol s)"
| "exec_func (Sock_sendto fd buf addr) s =
     map_option (\<lambda>(s, err, w, n). (s, err, no_reply\<lparr>rp_wait := w, rp_len := n\<rparr>)) (sock_sendto_req_in fd buf addr s)"
| "exec_func (Sock_recvfrom fd len) s =
     map_option (\<lambda>(s, err, w, src, bs, n). (s, err, no_reply\<lparr>rp_wait := w, rp_len := n, rp_bytes := bs, rp_addr := src\<rparr>))
       (sock_recvfrom_req_in fd len s)"
| "exec_func (Sock_setsockopt fd level optname optval optlen) s =
     map_option (\<lambda>(s, err). (s, err, no_reply)) (sock_setsockopt_req_in fd level optname optval optlen s)"
| "exec_func (Sock_close fd) s = map_option (\<lambda>(s, err, w). (s, err, no_reply\<lparr>rp_wait := w\<rparr>)) (sock_close_req_in fd s)"
| "exec_func (Sock_connect fd addr) s =
     map_option (\<lambda>(s, err, w). (s, err, no_reply\<lparr>rp_wait := w\<rparr>)) (sock_connect_req_in fd addr s)"
| "exec_func (Sock_send fd buf) s =
     map_option (\<lambda>(s, err, w, n). (s, err, no_reply\<lparr>rp_wait := w, rp_len := n\<rparr>)) (sock_send_req_in fd buf s)"
| "exec_func (Sock_recv fd len) s =
     map_option (\<lambda>(s, err, w, bs, n). (s, err, no_reply\<lparr>rp_wait := w, rp_len := n, rp_bytes := bs\<rparr>)) (sock_recv_req_in fd len s)"
| "exec_func (Sock_bind fd addr) s = map_option (\<lambda>(s, err). (s, err, no_reply)) (sock_bind_req_in fd addr s)"
| "exec_func (Sock_listen fd backlog) s = map_option (\<lambda>(s, err). (s, err, no_reply)) (sock_listen_req_in fd backlog s)"
| "exec_func (Sock_accept fd) s =
     map_option (\<lambda>(s, err, w, addr, c). (s, err, no_reply\<lparr>rp_wait := w, rp_addr := addr, rp_fd := c\<rparr>)) (sock_accept_req_in fd s)"
| "exec_func (Sock_destroy fd) s = map_option (\<lambda>(s, err). (s, err, no_reply)) (sock_destroy_req_in fd s)"

definition do_func :: "addr \<Rightarrow> 'a stack_state_scheme \<Rightarrow> ('a stack_state_scheme \<times> net_err_t) option" where
  "do_func m s =
     do {
       (s, err, reply) \<leftarrow> exec_func (fm_func (func_msgs s m)) s;
       Some (s\<lparr>func_msgs := (func_msgs s)(m := (func_msgs s m)
         \<lparr>fm_err := err, fm_reply := reply, fm_wait_sem := sys_sem_notify (fm_wait_sem (func_msgs s m))\<rparr>)\<rparr>, NET_OK)
     }"

text \<open>
  \<^verbatim>\<open>exmsg_func_exec\<close> up to the point where the caller waits, and after it.  A pool without a
  free block makes the caller wait for one; a full queue too.
\<close>

definition exmsg_func_post :: "addr \<Rightarrow> sock_func \<Rightarrow> bool \<Rightarrow> 'a stack_state_scheme \<Rightarrow> ('a stack_state_scheme \<times> net_err_t) option" where
  "exmsg_func_post m f sem_ok s =
     (if \<not> sem_ok then Some (s, NET_ERR_MEM)
      else case pool_alloc (msg_mem_pool s) of
             (pool, None) \<Rightarrow> None
           | (pool, Some b) \<Rightarrow>
               do {
                 let s = s\<lparr>func_msgs := (func_msgs s)(m := \<lparr>fm_func = f, fm_err = NET_OK, fm_reply = no_reply, fm_wait_sem = 0\<rparr>)\<rparr>;
                 let s = s\<lparr>msg_mem_pool := pool, msgs := (msgs s)(b := EXMSG_FUN m)\<rparr>;
                 (q, err) \<leftarrow> queue_send (int HANDLER_BUFFER_SIZE) (msg_queue s) b 0;
                 if net_err_neg err then Some (s\<lparr>msg_mem_pool := pool_free (msg_mem_pool s) b\<rparr>, err)
                 else Some (s\<lparr>msg_queue := q\<rparr>, NET_OK)
               })"

definition exmsg_func_finish :: "addr \<Rightarrow> 'a stack_state_scheme \<Rightarrow> (net_err_t \<times> sock_reply) option" where
  "exmsg_func_finish m s =
     (if fm_wait_sem (func_msgs s m) > 0 then Some (fm_err (func_msgs s m), fm_reply (func_msgs s m)) else None)"

section \<open>The worker thread\<close>

definition init_msg_handler :: "net_err_t \<Rightarrow> 'a netif_state_scheme \<Rightarrow> 'a netif_state_scheme \<times> net_err_t" where
  "init_msg_handler queue_err s =
     (if net_err_neg queue_err then (s, queue_err)
      else (s\<lparr>msg_queue := [], msg_mem_pool := [0..<HANDLER_BUFFER_SIZE]\<rparr>, NET_OK))"

text \<open>\<^verbatim>\<open>do_netif_in\<close>; handling a packet may put new ones on the same queue, so the loop need not end.\<close>

definition netif_packet_in :: "addr \<Rightarrow> addr \<Rightarrow> 'a tcp_state_scheme \<Rightarrow> 'a tcp_state_scheme option" where
  "netif_packet_in n p s =
     do {
       (s, err) \<leftarrow> (case ni_link_layer (netifs s n) of Some Ether_layer \<Rightarrow> ether_in n p s | None \<Rightarrow> ipv4_in n p s);
       Some (if net_err_neg err then packet_free p s else s)
     }"

partial_function (option) do_netif_in :: "addr \<Rightarrow> 'a tcp_state_scheme \<Rightarrow> ('a tcp_state_scheme \<times> net_err_t) option" where
  "do_netif_in n s =
     Option.bind (netif_get_in n (- 1) s)
       (\<lambda>(s, r). case r of
          None \<Rightarrow> Some (s, NET_OK)
        | Some p \<Rightarrow> Option.bind (netif_packet_in n p s) (\<lambda>s. do_netif_in n s))"

definition handle_msg :: "addr \<Rightarrow> 'a stack_state_scheme \<Rightarrow> 'a stack_state_scheme option" where
  "handle_msg b s =
     do {
       (s, _) \<leftarrow> (case msgs s b of EXMSG_NETIF_IN n \<Rightarrow> do_netif_in n s | EXMSG_FUN m \<Rightarrow> do_func m s);
       Some (s\<lparr>msg_mem_pool := pool_free (msg_mem_pool s) b\<rparr>)
     }"

text \<open>
  One round of \<^verbatim>\<open>work_thread\<close>: \<open>diff_ms\<close> is what \<^verbatim>\<open>sys_time_goes\<close> returns, \<open>time_last\<close> the local
  variable.  Waiting on an empty queue without a timer is no result.
\<close>

definition work_round :: "int \<Rightarrow> int \<Rightarrow> 'a stack_state_scheme \<Rightarrow> ('a stack_state_scheme \<times> int) option" where
  "work_round diff_ms time_last s =
     do {
       (q, b) \<leftarrow> queue_recv (msg_queue s) (net_timer_first_tmo s);
       let s = s\<lparr>msg_queue := q\<rparr>;
       s \<leftarrow> (case b of None \<Rightarrow> Some s | Some b \<Rightarrow> handle_msg b s);
       let time_last = time_last - diff_ms;
       if time_last < 0
       then do { (s, _) \<leftarrow> net_timer_check_tmo timer_call diff_ms s; Some (s, 500) }
       else Some (s, time_last)
     }"

section \<open>Initialization\<close>

definition init_stack ::
  "u8 list \<Rightarrow> (string \<Rightarrow> u8 list \<Rightarrow> bool) \<Rightarrow> net_err_t \<Rightarrow> net_err_t \<Rightarrow> net_err_t \<Rightarrow> 'a tcp_state_scheme \<Rightarrow> ('a tcp_state_scheme \<times> net_err_t) option" where
  "init_stack host_bytes pcap_open in_err out_err queue_err s =
     do {
       let s = fst (net_timer_init s);
       let _ = utils_init host_bytes;
       let s = fst (packet_buffer_init s);
       let s = fst (netif_init s);
       let s = fst (ether_init s);
       (s, _) \<leftarrow> arp_init s;
       (s, _) \<leftarrow> ipv4_init s;
       let s = fst (init_msg_handler queue_err s);
       let s = fst (socket_init s);
       (s, _) \<leftarrow> loop_init pcap_open in_err out_err s;
       Some (fst (tcp_init (fst (udp_init s))), NET_OK)
     }"

end
