(* ===== verification/Net_Frame.thy ===== *)
theory Net_Frame
  imports Net_Ipv4
begin

text \<open>
  What sending a packet leaves alone.  Output of the network layer changes packets, the
  queues of the interfaces, the worker's queue, the address cache and the packet counter;
  the timers, the routes, the reassembly list and every component above stay as they are.
\<close>

section \<open>Below IP\<close>

definition arp_keep :: "'a arp_state_scheme \<Rightarrow> 'a arp_state_scheme \<Rightarrow> bool" where
  "arp_keep s s' \<longleftrightarrow> arp_state.more s' = arp_state.more s \<and> rt_list s' = rt_list s \<and> rt_table s' = rt_table s \<and>
     rt_mblock s' = rt_mblock s \<and> timers s' = timers s \<and> timer_list s' = timer_list s \<and> wait_list s' = wait_list s"

lemma arp_keep_refl [simp]: "arp_keep s s"
  by (simp add: arp_keep_def)

lemma arp_keep_trans: "arp_keep s s1 \<Longrightarrow> arp_keep s1 s2 \<Longrightarrow> arp_keep s s2"
  by (simp add: arp_keep_def)

lemma arp_keep_above: "same_above s s' \<Longrightarrow> arp_keep s s'"
  using same_above_arp [of s s'] by (simp add: arp_keep_def) (simp add: same_above_def)

lemma arp_keep_rest: "same_rest s s' \<Longrightarrow> arp_keep s s'"
  by (rule arp_keep_above [OF same_above_rest])

lemma arp_keep_upd [simp]:
  "arp_keep s (upd_entry e f s1) = arp_keep s s1" "arp_keep s (s1\<lparr>cache_list := l\<rparr>) = arp_keep s s1"
  "arp_keep s (s1\<lparr>arp_cache_pool := l\<rparr>) = arp_keep s s1" "arp_keep (upd_entry e f s) s1 = arp_keep s s1"
  "arp_keep (s\<lparr>cache_list := l\<rparr>) s1 = arp_keep s s1" "arp_keep (s\<lparr>arp_cache_pool := l\<rparr>) s1 = arp_keep s s1"
  "arp_keep s (cache_entry_set e a b n st s1) = arp_keep s s1" "arp_keep (cache_entry_set e a b n st s) s1 = arp_keep s s1"
  by (simp_all add: arp_keep_def upd_entry_def cache_entry_set_def)

lemma arp_keep_free [simp]:
  "arp_keep s (packet_free p s1) = arp_keep s s1" "arp_keep s (free_packets ps s1) = arp_keep s s1"
  "arp_keep s (packet_reset_pos q s1) = arp_keep s s1" "arp_keep (packet_reset_pos q s) s1 = arp_keep s s1"
  using arp_keep_above [of s1 "packet_free p s1"] arp_keep_above [of s1 "free_packets ps s1"]
    arp_keep_above [of s1 "packet_reset_pos q s1"] arp_keep_above [of s "packet_reset_pos q s"]
  by (auto simp: arp_keep_def)

lemma arp_keep_clear [simp]: "arp_keep s (cache_clear_all e s1) = arp_keep s s1"
  by (simp add: cache_clear_all_def)

lemma arp_keep_find: "cache_find ip s = (s', r) \<Longrightarrow> arp_keep s s'"
  by (auto simp: cache_find_def split: option.splits)

lemma arp_keep_alloc: "cache_alloc force s = (s', r) \<Longrightarrow> arp_keep s s'"
  by (auto simp: cache_alloc_def split: option.splits prod.splits if_splits)

lemma arp_keep_arp_find: "arp_find n ip s = (s', r) \<Longrightarrow> arp_keep s s'"
  by (auto simp: arp_find_def split: option.splits prod.splits if_splits dest: arp_keep_find)

lemma arp_keep_resolve:
  assumes "arp_resolve n ip p s = Some (s', e)"
  shows "arp_keep s s'"
proof -
  obtain s1 r where f: "cache_find (ipaddr_to_buf ip) s = (s1, r)" by fastforce
  note k1 = arp_keep_find [OF f]
  show ?thesis
  proof (cases r)
    case (Some en)
    with assms f k1 show ?thesis
      by (auto simp: arp_resolve_def Let_def bind_eq_Some_conv split: if_splits
          dest!: same_above_ether_raw_out [THEN arp_keep_above] intro: arp_keep_trans)
  next
    case None
    obtain s2 q where a: "cache_alloc True s1 = (s2, q)" by fastforce
    note k2 = arp_keep_trans [OF k1 arp_keep_alloc [OF a]]
    show ?thesis
    proof (cases q)
      case None
      with assms f \<open>r = None\<close> a k2 show ?thesis by (simp add: arp_resolve_def Let_def)
    next
      case (Some en)
      with assms f \<open>r = None\<close> a show ?thesis
        using k2 by (auto simp: arp_resolve_def Let_def dest!: same_above_arp_request [THEN arp_keep_above] intro: arp_keep_trans)
    qed
  qed
qed

lemma arp_keep_ether_out: "ether_out n ip p s = Some (s', e) \<Longrightarrow> arp_keep s s'"
  by (auto simp: ether_out_def split: if_splits prod.splits option.splits
      dest!: same_above_ether_raw_out [THEN arp_keep_above] arp_keep_arp_find arp_keep_resolve intro: arp_keep_trans)

lemma arp_keep_netif_out: "netif_out n ip p s = Some (s', e) \<Longrightarrow> arp_keep s s'"
  by (auto simp: netif_out_def bind_eq_Some_conv split: option.splits link_layer_t.splits if_splits
      dest!: arp_keep_ether_out same_above_put_out [THEN arp_keep_above] same_above_transmit [THEN arp_keep_above]
      intro: arp_keep_trans)

section \<open>IP\<close>

definition ip_keep :: "'a ipv4_state_scheme \<Rightarrow> 'a ipv4_state_scheme \<Rightarrow> bool" where
  "ip_keep s s' \<longleftrightarrow> ipv4_state.more s' = ipv4_state.more s \<and> frag_array s' = frag_array s \<and> frag_pool s' = frag_pool s \<and>
     frag_list s' = frag_list s \<and> rt_list s' = rt_list s \<and> rt_table s' = rt_table s \<and>
     timers s' = timers s \<and> timer_list s' = timer_list s \<and> wait_list s' = wait_list s"

lemma ip_keep_refl [simp]: "ip_keep s s"
  by (simp add: ip_keep_def)

lemma ip_keep_trans [trans]: "ip_keep s s1 \<Longrightarrow> ip_keep s1 s2 \<Longrightarrow> ip_keep s s2"
  by (simp add: ip_keep_def)

lemma ip_keep_arp: "arp_keep s s' \<Longrightarrow> ip_keep s s'"
  by (cases s; cases s') (simp add: arp_keep_def ip_keep_def)

lemma ip_keep_rest: "same_rest s s' \<Longrightarrow> ip_keep s s'"
  by (rule ip_keep_arp [OF arp_keep_rest])

lemma ip_keep_upd [simp]:
  "ip_keep s (packet_free p s1) = ip_keep s s1" "ip_keep s (packet_reset_pos q s1) = ip_keep s s1"
  "ip_keep (packet_reset_pos q s) s1 = ip_keep s s1" "ip_keep s (s1\<lparr>packet_id := i\<rparr>) = ip_keep s s1"
  "ip_keep (s\<lparr>packet_id := i\<rparr>) s1 = ip_keep s s1"
  using ip_keep_arp [of s1 "packet_free p s1"] ip_keep_arp [of s1 "packet_reset_pos q s1"] ip_keep_arp [of s "packet_reset_pos q s"]
  by (auto simp: ip_keep_def)

lemma same_rest_put_checksum: "put_hdr_checksum p d h s = Some s' \<Longrightarrow> same_rest s s'"
  by (auto simp: put_hdr_checksum_def bind_eq_Some_conv dest!: same_rest_checksum same_rest_mem_write intro: same_rest_trans)

lemmas ip_keep_packet = same_rest_alloc [THEN ip_keep_rest] same_rest_mem_write [THEN ip_keep_rest] same_rest_seek [THEN ip_keep_rest]
  same_rest_copy [THEN ip_keep_rest] same_rest_remove_header [THEN ip_keep_rest] same_rest_put_checksum [THEN ip_keep_rest]
  same_rest_add_header [THEN ip_keep_rest] arp_keep_netif_out [THEN ip_keep_arp] same_rest_peso [THEN ip_keep_rest]
  same_rest_set_cont [THEN ip_keep_rest] same_rest_write [THEN ip_keep_rest] same_rest_read [THEN ip_keep_rest]
  same_rest_resize [THEN ip_keep_rest] same_rest_checksum [THEN ip_keep_rest]

lemma ip_keep_frag_out_one:
  assumes run: "frag_out_one protocol dest src buf nxt n offset sz mf s = Some (s', e)"
  shows "ip_keep s s'"
proof -
  obtain s1 r where a: "packet_alloc (sz + 20) s = (s1, r)" by fastforce
  note k1 = ip_keep_packet(1) [OF a]
  show ?thesis
  proof (cases r)
    case None
    with run a k1 show ?thesis by (simp add: frag_out_one_def)
  next
    case (Some p)
    with run a obtain d h s2 s3 e3 s4 e4 where
      2: "mem_write d 0 (ipv4_hdr_bytes h) s1 = Some s2" and 3: "packet_seek p 20 s2 = Some (s3, e3)"
      and 4: "packet_copy p buf sz s3 = Some (s4, e4)"
      and rest: "(if net_err_neg e4 then Some (packet_free p s4, e4)
        else Option.bind (packet_remove_header buf sz s4) (\<lambda>(s, _).
          Option.bind (mem_write d 0 (ipv4_hdr_bytes (iphdr_htons h)) (packet_reset_pos (Some buf) s)) (\<lambda>s.
          Option.bind (packet_seek p 0 s) (\<lambda>(s, _).
          Option.bind (put_hdr_checksum p d h s) (\<lambda>s.
          Option.bind (netif_out n nxt p s) (\<lambda>(s, err).
            if net_err_neg err then Some (packet_free p s, err) else Some (s, NET_OK))))))) = Some (s', e)"
      by (auto simp: frag_out_one_def Let_def bind_eq_Some_conv)
    have k4: "ip_keep s s4"
      using k1 ip_keep_packet(2) [OF 2] ip_keep_packet(3) [OF 3] ip_keep_packet(4) [OF 4] ip_keep_trans by blast
    from rest have "ip_keep s4 s'"
      by (auto simp: bind_eq_Some_conv split: if_splits dest!: ip_keep_packet) (simp_all add: ip_keep_def)
    with k4 show ?thesis by (rule ip_keep_trans)
  qed
qed

lemma ip_keep_frag_out_loop:
  assumes "frag_out_loop protocol dest src buf nxt n offset tot s = Some r"
  shows "ip_keep s (fst r)"
  using assms
proof (rule frag_out_loop.raw_induct [of "\<lambda>protocol dest src buf nxt n offset tot s r. ip_keep s (fst r)", rotated], goal_cases)
  case (1 loop protocol dest src buf nxt n offset tot s r)
  show ?case
  proof (cases "tot = 0")
    case True
    with 1(2) show ?thesis by auto
  next
    case False
    with 1(2) obtain s1 e1 where one: "frag_out_one protocol dest src buf nxt n offset (frag_size (ni_mtu (netifs s n)) tot)
        (tot > frag_size (ni_mtu (netifs s n)) tot) s = Some (s1, e1)" and
      "(if net_err_neg e1 then Some (s1, e1) else loop protocol dest src buf nxt n
         (offset + frag_size (ni_mtu (netifs s n)) tot) (tot - frag_size (ni_mtu (netifs s n)) tot) s1) = Some r"
      by (auto simp: Let_def bind_eq_Some_conv)
    with 1(1) have "ip_keep s1 (fst r)" by (auto split: if_splits)
    with ip_keep_frag_out_one [OF one] show ?thesis by (rule ip_keep_trans)
  qed
qed

lemma ip_keep_frag_out: "ip_frag_out protocol dest src buf nxt n s = Some (s', e) \<Longrightarrow> ip_keep s s'"
  by (auto simp: ip_frag_out_def Let_def bind_eq_Some_conv split: if_splits dest!: ip_keep_frag_out_loop)

lemma ip_keep_out:
  assumes run: "ipv4_out protocol dest src p s = Some (s', e)"
  shows "ip_keep s s'"
proof (cases "rt_find dest s")
  case None
  with run show ?thesis by (simp add: ipv4_out_def)
next
  case (Some en)
  let ?n = "re_netif (rt_table s en)"
  show ?thesis
  proof (cases "ni_mtu (netifs s ?n) \<noteq> 0 \<and> total_size (packets s p) + 20 > ni_mtu (netifs s ?n)")
    case True
    with run Some show ?thesis
      by (auto simp: ipv4_out_def Let_def bind_eq_Some_conv split: if_splits dest!: ip_keep_frag_out)
  next
    case False
    with run Some obtain s1 e1 where 1: "packet_add_header p 20 True s = Some (s1, e1)"
      by (auto simp: ipv4_out_def Let_def bind_eq_Some_conv)
    note k1 = ip_keep_packet(7) [OF 1]
    show ?thesis
    proof (cases "net_err_neg e1")
      case True
      with run Some False 1 k1 show ?thesis by (auto simp: ipv4_out_def Let_def)
    next
      case ok: False
      with run Some False 1 obtain d h s2 s3 s4 e4 nh where
        2: "mem_write d 0 (ipv4_hdr_bytes (iphdr_htons h)) (s1\<lparr>packet_id := packet_id s1 + 1\<rparr>) = Some s2"
        and 3: "put_hdr_checksum p d h (packet_reset_pos (Some p) s2) = Some s3"
        and 4: "netif_out ?n nh p s3 = Some (s4, e4)" and "s' = s4"
        by (auto simp: ipv4_out_def Let_def bind_eq_Some_conv split: if_splits)
      with k1 ip_keep_packet(2) [OF 2] ip_keep_packet(6) [OF 3] ip_keep_packet(8) [OF 4] show ?thesis
        by (auto intro: ip_keep_trans)
    qed
  qed
qed

end
