(* ===== verification/Net_Tcp_Frame.thy ===== *)
theory Net_Tcp_Frame
  imports Net_Tcp_Api Net_Frame
begin

text \<open>
  What TCP's operations do to the connection records.  A segment that is sent changes no
  record; the operations on one connection change only its own, and of that only the fields
  their names suggest.  Waking a socket changes wait objects and the socket's error.
\<close>

section \<open>Sending\<close>

lemma same_rest_read_send_loop:
  assumes "read_send_loop b start dest cnt s = Some s'"
  shows "same_rest s s'"
  using assms
  by (rule read_send_loop.raw_induct [of "\<lambda>b start dest cnt s s'. same_rest s s'", rotated])
    (auto simp: Let_def bind_eq_Some_conv split: if_splits dest!: same_rest_write intro: same_rest_trans)

lemma same_rest_read_send: "tcp_buf_read_send b off dest cnt s = Some s' \<Longrightarrow> same_rest s s'"
  unfolding tcp_buf_read_send_def Let_def by (rule same_rest_read_send_loop)

lemma same_rest_write_rcv_loop:
  assumes "write_rcv_loop b start src sz s = Some r"
  shows "same_rest s (fst r)"
  using assms
  by (rule write_rcv_loop.raw_induct [of "\<lambda>b start src sz s r. same_rest s (fst r)", rotated])
    (auto simp: Let_def bind_eq_Some_conv split: if_splits dest!: same_rest_read intro: same_rest_trans)

lemma same_rest_write_rcv: "tcp_buf_write_rcv b off src tot s = Some (s', r) \<Longrightarrow> same_rest s s'"
  by (auto simp: tcp_buf_write_rcv_def Let_def dest!: same_rest_write_rcv_loop)

lemma ip_keep_send_out: "send_out d p dest src s = Some (s', e) \<Longrightarrow> ip_keep s s'"
  by (auto simp: send_out_def bind_eq_Some_conv split: if_splits dest!: ip_keep_packet ip_keep_out)
    (simp_all add: ip_keep_def)

lemma ip_keep_send_bare:
  assumes "send_bare sport dport sq ack fl win dest src s = Some (s', e)"
  shows "ip_keep s s'"
proof -
  obtain s1 r where a: "packet_alloc 20 s = (s1, r)" by fastforce
  note k1 = ip_keep_packet(1) [OF a]
  show ?thesis
  proof (cases r)
    case None
    with assms a k1 show ?thesis by (simp add: send_bare_def)
  next
    case (Some p)
    with assms a k1 show ?thesis
      by (auto simp: send_bare_def bind_eq_Some_conv dest!: ip_keep_packet(2) ip_keep_send_out) (simp add: ip_keep_def)
  qed
qed

lemma ip_keep_segments:
  "tcp_send_reset seg s = Some (s', e) \<Longrightarrow> ip_keep s s'"
  "tcp_send_ack t seg s = Some (s', e) \<Longrightarrow> ip_keep s s'"
  "tcp_send_reset_for_tcp t s = Some (s', e) \<Longrightarrow> ip_keep s s'"
  "tcp_send_keepalive t s = Some (s', e) \<Longrightarrow> ip_keep s s'"
  by (auto simp: tcp_send_reset_def tcp_send_ack_def tcp_send_reset_for_tcp_def tcp_send_keepalive_def Let_def bind_eq_Some_conv
      split: if_splits dest!: ip_keep_send_bare)

lemma ip_keep_sync_option: "write_sync_option t p s = Some s' \<Longrightarrow> ip_keep s s'"
  by (auto simp: write_sync_option_def bind_eq_Some_conv split: if_splits dest!: ip_keep_packet) (simp_all add: ip_keep_def)

lemma ip_keep_copy_send: "copy_send_data t p doff dlen s = Some (s', n) \<Longrightarrow> ip_keep s s'"
  by (auto simp: copy_send_data_def bind_eq_Some_conv split: if_splits dest!: ip_keep_packet same_rest_read_send [THEN ip_keep_rest])
    (simp_all add: ip_keep_def)

lemma ip_keep_fill: "fill_segment t p d sq fl syn doff dlen s = Some s' \<Longrightarrow> ip_keep s s'"
  by (auto simp: fill_segment_def Let_def bind_eq_Some_conv split: if_splits
      dest!: ip_keep_packet(2) ip_keep_sync_option ip_keep_copy_send) (simp_all add: ip_keep_def)

section \<open>Fields of the state above IP\<close>

lemma ip_keep_tcp:
  assumes "ip_keep s s'"
  shows "tcps s' = tcps s" "tcp_list s' = tcp_list s" "tcp_mblock s' = tcp_mblock s" "socks s' = socks s" "waits s' = waits s"
    "udp_list s' = udp_list s" "udp_recv_list s' = udp_recv_list s" "socket_tbl s' = socket_tbl s"
  using assms by (cases s; cases s'; simp add: ip_keep_def)+

lemma upd_tcp_simps [simp]:
  "tcps (upd_tcp t f s) = (tcps s)(t := f (tcps s t))" "tcp_list (upd_tcp t f s) = tcp_list s"
  "tcp_mblock (upd_tcp t f s) = tcp_mblock s" "socks (upd_tcp t f s) = socks s" "waits (upd_tcp t f s) = waits s"
  "timers (upd_tcp t f s) = timers s" "timer_list (upd_tcp t f s) = timer_list s" "wait_list (upd_tcp t f s) = wait_list s"
  by (simp_all add: upd_tcp_def)

lemma upd_sock_simps [simp]:
  "tcps (upd_sock a f s) = tcps s" "tcp_list (upd_sock a f s) = tcp_list s" "tcp_mblock (upd_sock a f s) = tcp_mblock s"
  "tcps (upd_wait w g s) = tcps s" "tcp_list (upd_wait w g s) = tcp_list s" "tcp_mblock (upd_wait w g s) = tcp_mblock s"
  by (simp_all add: upd_sock_def upd_wait_def)

lemma timer_tcp [simp]:
  "tcps (net_timer_remove tm s) = tcps s" "tcp_list (net_timer_remove tm s) = tcp_list s"
  "tcp_mblock (net_timer_remove tm s) = tcp_mblock s"
  by (simp_all add: net_timer_remove_def split: prod.splits)

lemma net_timer_add_tcp:
  assumes "net_timer_add tm name pr arg ms fl s = Some (s', e)"
  shows "tcps s' = tcps s" "tcp_list s' = tcp_list s" "tcp_mblock s' = tcp_mblock s"
  using assms by (auto simp: net_timer_add_def insert_timer_def split: if_splits prod.splits)

definition same_tcbs :: "'a tcp_state_scheme \<Rightarrow> 'a tcp_state_scheme \<Rightarrow> bool" where
  "same_tcbs s s' \<longleftrightarrow> tcps s' = tcps s \<and> tcp_list s' = tcp_list s \<and> tcp_mblock s' = tcp_mblock s"

lemma same_tcbs_refl [simp]: "same_tcbs s s"
  by (simp add: same_tcbs_def)

lemma same_tcbs_trans: "same_tcbs s s1 \<Longrightarrow> same_tcbs s1 s2 \<Longrightarrow> same_tcbs s s2"
  by (simp add: same_tcbs_def)

lemma same_tcbs_ip: "ip_keep s s' \<Longrightarrow> same_tcbs s s'"
  by (simp add: same_tcbs_def ip_keep_tcp)

lemma same_tcbs_wait: "sock_wait_leave w err s = Some s' \<Longrightarrow> same_tcbs s s'"
  by (auto simp: sock_wait_leave_def same_tcbs_def split: if_splits sys_sem_t.splits)

lemma same_tcbs_wake_one: "wake_one b w err s = Some s' \<Longrightarrow> same_tcbs s s'"
  by (auto simp: wake_one_def bind_eq_Some_conv split: if_splits dest!: same_tcbs_wait)

lemma same_tcbs_wakeup: "sock_wakeup a kinds err s = Some s' \<Longrightarrow> same_tcbs s s'"
  by (auto simp: sock_wakeup_def bind_eq_Some_conv dest!: same_tcbs_wake_one) (simp add: same_tcbs_def)

lemma same_tcbs_destroy: "sock_wait_destroy w s = Some s' \<Longrightarrow> same_tcbs s s'"
  by (auto simp: sock_wait_destroy_def same_tcbs_def split: sys_sem_t.splits)

lemma same_tcbs_timer: "net_timer_add tm name pr arg ms fl s = Some (s', e) \<Longrightarrow> same_tcbs s s'"
  by (simp add: same_tcbs_def net_timer_add_tcp)

end
