(* ===== verification/Net_Tcp_States.thy ===== *)
theory Net_Tcp_States
  imports Net_Tcp_Frame
begin

text \<open>
  The life of a connection.  A relation between the old and the new record of a connection
  that allows the updates TCP makes while it handles a segment, other than changes of the
  connection's state, holds across every operation on the connection; the locale proves
  this once, and it is used for two relations: that the state stays, and that the record
  stays well formed.
\<close>

section \<open>Relations between records\<close>

definition tcb_rel :: "(tcp_t \<Rightarrow> tcp_t \<Rightarrow> bool) \<Rightarrow> addr \<Rightarrow> 'a tcp_state_scheme \<Rightarrow> 'a tcp_state_scheme \<Rightarrow> bool" where
  "tcb_rel Q t s s' \<longleftrightarrow> Q (tcps s t) (tcps s' t) \<and> (\<forall>u. u \<noteq> t \<longrightarrow> tcps s' u = tcps s u) \<and>
     tcp_list s' = tcp_list s \<and> tcp_mblock s' = tcp_mblock s"

text \<open>
  A buffer of \<open>n\<close> bytes: a ring over its array, or still as \<^verbatim>\<open>memset\<close> left it, with room for
  nothing.  Every operation keeps this.
\<close>

definition buf_zero :: "tcp_buf_t \<Rightarrow> bool" where
  "buf_zero b \<longleftrightarrow> tb_count b = 0 \<and> tb_in b = 0 \<and> tb_out b = 0 \<and> tb_size b = 0"

definition buf_wf :: "int \<Rightarrow> tcp_buf_t \<Rightarrow> bool" where
  "buf_wf n b \<longleftrightarrow> int (length (tb_data b)) = n \<and> (tb_ok b \<or> buf_zero b)"

definition buf_keeps :: "tcp_buf_t \<Rightarrow> tcp_buf_t \<Rightarrow> bool" where
  "buf_keeps b b' \<longleftrightarrow> (\<forall>n. buf_wf n b \<longrightarrow> buf_wf n b')"

lemma tb_ok_length: "tb_ok b \<Longrightarrow> int (length (tb_data b)) = tb_size b"
  by (simp add: tb_ok_def ring_ok_def)

lemma buf_keeps_okI:
  assumes ok: "tb_ok b \<Longrightarrow> tb_ok b' \<and> tb_size b' = tb_size b" and z: "buf_zero b \<Longrightarrow> b' = b"
  shows "buf_keeps b b'"
  unfolding buf_keeps_def buf_wf_def using ok z tb_ok_length by metis

lemma buf_wf_counts:
  assumes "buf_wf n b"
  shows "0 \<le> tb_count b" "tb_count b \<le> tb_size b" "tb_size b \<le> n"
  using assms unfolding buf_wf_def tb_ok_def ring_ok_def buf_zero_def by auto

lemma buf_keeps_remove: "0 \<le> cnt \<Longrightarrow> buf_keeps b (fst (tcp_buf_remove b cnt))"
  by (rule buf_keeps_okI) (use tcp_buf_remove_ok in \<open>fastforce split: prod.splits\<close>,
      simp add: buf_zero_def tcp_buf_remove_def ring_wrap_def)

lemma buf_room_ok: "buf_wf n b \<Longrightarrow> 0 < tb_size b \<Longrightarrow> tb_ok b"
  by (auto simp: buf_wf_def buf_zero_def)

lemma page_read_length: "page_read g off n = Some bs \<Longrightarrow> int (length bs) = n"
  by (auto simp: page_read_def split: if_splits)

lemma read_loop_length:
  assumes "read_loop p acc sz s = Some r"
  shows "0 \<le> sz \<longrightarrow> int (length (snd r)) = int (length acc) + sz"
  using assms
  by (rule read_loop.raw_induct [of "\<lambda>p acc sz s r. 0 \<le> sz \<longrightarrow> int (length (snd r)) = int (length acc) + sz", rotated])
    (auto simp: Let_def bind_eq_Some_conv cur_load_def split: if_splits dest!: page_read_length)

lemma packet_read_length: "packet_read p d sz s = Some (s', e, bs) \<Longrightarrow> 0 \<le> sz \<Longrightarrow> bs = [] \<or> int (length bs) = sz"
  by (auto simp: packet_read_def bind_eq_Some_conv split: if_splits dest!: read_loop_length)

lemma ring_ok_resize:
  assumes "ring_ok buf sz i_in i_out cnt" "0 \<le> n" "i_in + n \<le> sz" "cnt + n \<le> sz" "length buf' = length buf"
  shows "ring_ok buf' sz (ring_wrap sz (i_in + n)) i_out (cnt + n)"
proof -
  have "i_in = (i_out + cnt) mod sz" "0 < sz" using assms(1) unfolding ring_ok_def by blast+
  then have "ring_wrap sz (i_in + n) = (i_out + (cnt + n)) mod sz" using assms(2,3) by (rule mod_next_block)
  then show ?thesis using assms by (auto simp: ring_ok_def)
qed

lemma write_rcv_loop_keeps:
  assumes "write_rcv_loop b start src sz s = Some r"
  shows "tb_ok (b\<lparr>tb_in := start\<rparr>) \<and> 0 \<le> sz \<and> tb_count b + sz \<le> tb_size b \<longrightarrow>
    (case r of (s', b', i) \<Rightarrow> tb_size b' = tb_size b \<and> tb_ok (b'\<lparr>tb_in := i\<rparr>))"
  using assms
proof (rule write_rcv_loop.raw_induct [of "\<lambda>b start src sz s r. tb_ok (b\<lparr>tb_in := start\<rparr>) \<and> 0 \<le> sz \<and> tb_count b + sz \<le> tb_size b \<longrightarrow>
    (case r of (s', b', i) \<Rightarrow> tb_size b' = tb_size b \<and> tb_ok (b'\<lparr>tb_in := i\<rparr>))", rotated], goal_cases)
  case (1 loop b start src sz s r)
  show ?case
  proof (cases "sz > 0")
    case False
    with 1(2) show ?thesis by auto
  next
    case True
    let ?n = "if sz > tb_size b - start then tb_size b - start else sz"
    from 1(2) True obtain s1 e bs where rd: "packet_read src True ?n s = Some (s1, e, bs)" and
      nx: "loop (b\<lparr>tb_data := patch (nat start) bs (tb_data b), tb_count := tb_count b + ?n\<rparr>) (ring_wrap (tb_size b) (start + ?n)) src (sz - ?n) s1 = Some r"
      and st: "\<not> start < 0" "\<not> start + ?n > int (length (tb_data b))"
      by (auto simp: Let_def bind_eq_Some_conv split: if_splits)
    show ?thesis
    proof
      assume a: "tb_ok (b\<lparr>tb_in := start\<rparr>) \<and> 0 \<le> sz \<and> tb_count b + sz \<le> tb_size b"
      then have r: "ring_ok (tb_data b) (tb_size b) start (tb_out b) (tb_count b)" by (simp add: tb_ok_def)
      then have "0 \<le> start" "start < tb_size b" unfolding ring_ok_def by blast+
      then have n: "0 \<le> ?n" "start + ?n \<le> tb_size b" "?n \<le> sz" using True by auto
      have "bs = [] \<or> int (length bs) = ?n" using packet_read_length [OF rd n(1)] .
      then have "length (patch (nat start) bs (tb_data b)) = length (tb_data b)"
        using st n by (auto simp: patch_def)
      from ring_ok_resize [OF r n(1,2) _ this] a n
      have "ring_ok (patch (nat start) bs (tb_data b)) (tb_size b) (ring_wrap (tb_size b) (start + ?n)) (tb_out b) (tb_count b + ?n)"
        by auto
      then show "case r of (s', b', i) \<Rightarrow> tb_size b' = tb_size b \<and> tb_ok (b'\<lparr>tb_in := i\<rparr>)"
        using 1(1) [OF nx] a n by (simp add: tb_ok_def)
    qed
  qed
qed

lemma write_rcv_keeps:
  assumes run: "tcp_buf_write_rcv b 0 src tot s = Some (s', b', n)"
  shows "buf_keeps b b'"
proof -
  let ?tot = "if tot > tcp_buf_free_cnt b then tcp_buf_free_cnt b else tot"
  let ?in = "ring_wrap (tb_size b) (tb_in b)"
  from run obtain c i where l: "write_rcv_loop b ?in src ?tot s = Some (s', c, i)" and b': "b' = c\<lparr>tb_in := i\<rparr>"
    by (auto simp: tcp_buf_write_rcv_def Let_def split: if_splits)
  have stop: "b' = b\<lparr>tb_in := ?in\<rparr>" if "?tot \<le> 0"
    using l b' that by (simp add: write_rcv_loop.simps split: if_splits)
  show ?thesis
  proof (rule buf_keeps_okI)
    assume ok: "tb_ok b"
    then have "tb_in b < tb_size b" unfolding tb_ok_def ring_ok_def by blast
    then have w: "?in = tb_in b" by (simp add: ring_wrap_def)
    show "tb_ok b' \<and> tb_size b' = tb_size b"
    proof (cases "0 \<le> ?tot")
      case True
      moreover have "tb_count b + ?tot \<le> tb_size b" by (simp add: tcp_buf_free_cnt_def)
      ultimately show ?thesis using write_rcv_loop_keeps [OF l] ok w b' by simp
    next
      case False
      with stop w ok show ?thesis by simp
    qed
  next
    assume "buf_zero b"
    then show "b' = b" using stop by (simp add: ring_wrap_def buf_zero_def tcp_buf_free_cnt_def)
  qed
qed

lemma write_send_keeps:
  assumes "tcp_buf_write_send b bs n = Some b'" "n \<le> tcp_buf_free_cnt b" "n \<le> int (length bs)" "0 < tcp_buf_free_cnt b"
  shows "buf_keeps b b'"
proof (rule buf_keeps_okI)
  assume ok: "tb_ok b"
  have "nat n \<le> length bs" using assms(3) by simp
  then have p: "push_all tcp_buf_push (take (nat n) bs) b = Some b'"
    using assms(1) by (simp add: tcp_buf_write_send_def write_send_loop_push_all)
  have "tb_count b + int (length (take (nat n) bs)) \<le> tb_size b" using assms(2,4) by (auto simp: tcp_buf_free_cnt_def min_def)
  with tb.push_all_seq [OF ok, of "take (nat n) bs"] tb_seq_length [OF ok] p show "tb_ok b' \<and> tb_size b' = tb_size b" by auto
next
  assume "buf_zero b"
  with assms(4) show "b' = b" by (simp add: buf_zero_def tcp_buf_free_cnt_def)
qed

lemma read_rcv_keeps:
  assumes "tcp_buf_read_rcv b len = Some (b', bs, n)"
  shows "buf_keeps b b'"
proof (rule buf_keeps_okI)
  assume ok: "tb_ok b"
  show "tb_ok b' \<and> tb_size b' = tb_size b"
  proof (cases "0 \<le> len")
    case True
    with tcp_buf_read_rcv_ok [OF ok True] assms show ?thesis by auto
  next
    case False
    moreover have "0 \<le> tb_count b" using tb_seq_length [OF ok] by simp
    ultimately show ?thesis using assms ok by (simp add: tcp_buf_read_rcv_def)
  qed
next
  assume "buf_zero b"
  with assms show "b' = b" by (auto simp: buf_zero_def tcp_buf_read_rcv_def Let_def split: if_splits)
qed

lemma read_options_mss:
  "read_options_loop d off e s mss = Some m \<Longrightarrow> m = mss \<or> 0 \<le> m \<and> m < mss"
proof (induction d off e s mss rule: read_options_loop.induct)
  case (1 d off e s mss)
  show ?case
  proof (cases "off > e")
    case False
    from 1(4) show ?thesis
      by (subst (asm) read_options_loop.simps)
        (use False 1(1-3) in \<open>fastforce simp: bind_eq_Some_conv Let_def split: if_splits\<close>)
  qed (use 1(4) in \<open>simp add: read_options_loop.simps\<close>)
qed

text \<open>The outcome of sending a segment of a connection: the next sequence number may move.\<close>

definition sent :: "addr \<Rightarrow> 'a tcp_state_scheme \<Rightarrow> 'a tcp_state_scheme \<Rightarrow> bool" where
  "sent t s s' \<longleftrightarrow> tcps s' t = (tcps s t)\<lparr>t_snd_nxt := t_snd_nxt (tcps s' t)\<rparr> \<and> (\<forall>u. u \<noteq> t \<longrightarrow> tcps s' u = tcps s u) \<and>
     tcp_list s' = tcp_list s \<and> tcp_mblock s' = tcp_mblock s"

lemma sent_same: "same_tcbs s s' \<Longrightarrow> sent t s s'"
  by (simp add: sent_def same_tcbs_def)

lemma sent_out:
  assumes "same_tcbs s s2" "send_out d p dest src (upd_tcp t (\<lambda>c. c\<lparr>t_snd_nxt := g c\<rparr>) s2) = Some (s', e)"
  shows "sent t s s'"
  using assms(1) ip_keep_send_out [OF assms(2), THEN same_tcbs_ip] by (auto simp: sent_def same_tcbs_def)

lemma sent_transmit:
  assumes run: "tcp_transmit t s = Some (s', e)"
  shows "sent t s s'"
proof -
  obtain doff dlen where g: "get_send_info (tcps s t) False = (doff, dlen)" by fastforce
  obtain s1 r where a: "packet_alloc 20 s = (s1, r)" by fastforce
  have k1: "same_tcbs s s1" using ip_keep_packet(1) [OF a] by (rule same_tcbs_ip)
  show ?thesis
  proof (cases "s' = s \<or> r = None")
    case True
    with run g a k1 show ?thesis by (auto simp: tcp_transmit_def Let_def split: if_splits intro: sent_same)
  next
    case False
    let ?fin = "t_fin_out (tcps s t) \<and> tcp_buf_cnt (t_snd_buf (tcps s t)) = 0"
    from False run g a obtain p d s2 where
      2: "fill_segment t p d (t_snd_nxt (tcps s t)) (mk_flags ?fin (t_syn_out (tcps s t)) False (t_irs_valid (tcps s t)))
            (t_syn_out (tcps s t)) doff dlen s1 = Some s2" and
      3: "send_out d p (so_remote_ip (socks s2 (Tcp_sock t))) (so_local_ip (socks s2 (Tcp_sock t)))
            (upd_tcp t (\<lambda>c. c\<lparr>t_snd_nxt := t_snd_nxt c + of_int dlen + of_bool (t_syn_out c) + of_bool ?fin\<rparr>) s2) = Some (s', e)"
      by (auto simp: tcp_transmit_def Let_def bind_eq_Some_conv split: if_splits)
    have "same_tcbs s s2" using k1 ip_keep_fill [OF 2, THEN same_tcbs_ip] same_tcbs_trans by blast
    with 3 show ?thesis by (intro sent_out)
  qed
qed

lemma sent_retransmit:
  assumes run: "tcp_retransmit t s = Some (s', e)"
  shows "sent t s s'"
proof -
  let ?una = "t_snd_una (tcps s t)" and ?nxt = "t_snd_nxt (tcps s t)"
  obtain doff dlen where g: "get_send_info (tcps s t) True = (doff, dlen)" by fastforce
  obtain s1 r where a: "packet_alloc 20 s = (s1, r)" by fastforce
  have k1: "same_tcbs s s1" using ip_keep_packet(1) [OF a] by (rule same_tcbs_ip)
  show ?thesis
  proof (cases "s' = s \<or> r = None")
    case True
    with run g a k1 show ?thesis by (auto simp: tcp_retransmit_def Let_def split: if_splits intro: sent_same)
  next
    case False
    let ?diff = "sint (?una + of_int dlen - ?nxt)"
    from False run g a obtain p d s2 bs s3 where
      2: "fill_segment t p d ?una (mk_flags False (t_syn_out (tcps s t)) False (t_irs_valid (tcps s t)))
            (t_syn_out (tcps s t)) doff dlen s1 = Some s2" and 3: "mem_write d 12 bs s2 = Some s3" and
      4: "send_out d p (so_remote_ip (socks s3 (Tcp_sock t))) (so_local_ip (socks s3 (Tcp_sock t)))
            (upd_tcp t (\<lambda>c. c\<lparr>t_snd_nxt := t_snd_nxt c + of_int (if ?diff > 0 then ?diff else 0)\<rparr>) s3) = Some (s', e)"
      by (auto simp: tcp_retransmit_def Let_def bind_eq_Some_conv split: if_splits)
    have "same_tcbs s s3"
      using k1 ip_keep_fill [OF 2, THEN same_tcbs_ip] ip_keep_packet(2) [OF 3, THEN same_tcbs_ip] same_tcbs_trans by blast
    with 4 show ?thesis by (intro sent_out)
  qed
qed

section \<open>Operations on one connection\<close>

locale tcb_relation =
  fixes Q :: "tcp_t \<Rightarrow> tcp_t \<Rightarrow> bool"
  assumes rel_refl: "Q c c"
    and rel_trans: "Q c1 c2 \<Longrightarrow> Q c2 c3 \<Longrightarrow> Q c1 c3"
    and rel_snd: "Q c (c\<lparr>t_snd_nxt := x\<rparr>)" "Q c (c\<lparr>t_syn_out := f\<rparr>)" "Q c (c\<lparr>t_fin_out := f\<rparr>)"
    and rel_ostate: "Q c (c\<lparr>t_ostate := os\<rparr>)" "Q c (c\<lparr>t_rto := 1000, t_ostate := os\<rparr>)"
    and rel_ack: "Q c (fst (ack_window ack c))"
    and rel_rcv: "Q c (c\<lparr>t_rcv_nxt := x\<rparr>)" "Q c (c\<lparr>t_rcv_nxt := x, t_fin_in := True\<rparr>)"
      "Q c (c\<lparr>t_rcv_iss := y, t_rcv_nxt := x, t_irs_valid := True\<rparr>)"
    and rel_rcv_buf: "buf_keeps (t_rcv_buf c) b \<Longrightarrow> Q c (c\<lparr>t_rcv_buf := b\<rparr>)"
    and rel_mss: "m = t_mss c \<or> 0 \<le> m \<and> m < t_mss c \<Longrightarrow> Q c (c\<lparr>t_mss := m\<rparr>)"
    and rel_keep: "Q c (c\<lparr>t_keep_retry := k\<rparr>)" "Q c (c\<lparr>t_keep_enable := f\<rparr>)"
    and rel_rexmit: "Q c (c\<lparr>t_rexmit_cnt := k\<rparr>)" "r = t_rto c * 2 \<or> r = 8000 \<Longrightarrow> Q c (c\<lparr>t_rto := r\<rparr>)"
begin

lemma tcb_refl [simp]: "tcb_rel Q t s s"
  by (simp add: tcb_rel_def rel_refl)

lemma tcb_trans: "tcb_rel Q t s s1 \<Longrightarrow> tcb_rel Q t s1 s2 \<Longrightarrow> tcb_rel Q t s s2"
  using rel_trans by (simp add: tcb_rel_def) blast

lemma tcb_same: "same_tcbs s s' \<Longrightarrow> tcb_rel Q t s s'"
  by (simp add: tcb_rel_def same_tcbs_def rel_refl)

lemma tcb_upd: "Q (tcps s t) (f (tcps s t)) \<Longrightarrow> tcb_rel Q t s (upd_tcp t f s)"
  by (simp add: tcb_rel_def)

lemma tcb_upd_same: "Q (tcps s t) (f (tcps s t)) \<Longrightarrow> same_tcbs (upd_tcp t f s) s' \<Longrightarrow> tcb_rel Q t s s'"
  by (rule tcb_trans [OF tcb_upd tcb_same])

lemma tcb_sent: "sent t s s' \<Longrightarrow> tcb_rel Q t s s'"
  unfolding sent_def tcb_rel_def using rel_snd(1) [of "tcps s t" "t_snd_nxt (tcps s' t)"] by metis

lemma tcb_set_ostate:
  assumes "tcp_set_ostate t st s = Some s'"
  shows "tcb_rel Q t s s'"
proof (cases "st = TCP_OSTATE_IDLE")
  case True
  with assms show ?thesis using rel_ostate(2) by (auto simp: tcp_set_ostate_def tcb_rel_def)
next
  case False
  with assms show ?thesis
    using rel_ostate(1) by (auto simp: tcp_set_ostate_def Let_def bind_eq_Some_conv tcb_rel_def dest!: same_tcbs_timer) (auto simp: same_tcbs_def)
qed

lemmas tcb_out_steps = sent_transmit [THEN tcb_sent] sent_retransmit [THEN tcb_sent] tcb_set_ostate

lemma tcb_out_event: "tcp_out_event t ev s = Some s' \<Longrightarrow> tcb_rel Q t s s'"
  by (auto simp: tcp_out_event_def tcp_ostate_idle_in_def tcp_ostate_sending_in_def tcp_ostate_rexmit_in_def Let_def bind_eq_Some_conv
      split: tcp_ostate_t.splits if_splits dest!: tcb_out_steps intro: tcb_trans)

lemma tcb_send_syn:
  assumes "tcp_send_syn t s = Some (s', e)"
  shows "tcb_rel Q t s s'"
proof -
  from assms have "tcp_out_event t TCP_OEVENT_SEND (upd_tcp t (\<lambda>c. c\<lparr>t_syn_out := True\<rparr>) s) = Some s'"
    by (auto simp: tcp_send_syn_def bind_eq_Some_conv)
  then have "tcb_rel Q t (upd_tcp t (\<lambda>c. c\<lparr>t_syn_out := True\<rparr>) s) s'" by (rule tcb_out_event)
  then show ?thesis by (rule tcb_trans [OF tcb_upd, rotated]) (rule rel_snd)
qed

lemma tcb_send_fin:
  assumes "tcp_send_fin t s = Some (s', e)"
  shows "tcb_rel Q t s s'"
proof -
  from assms have "tcp_out_event t TCP_OEVENT_SEND (upd_tcp t (\<lambda>c. c\<lparr>t_fin_out := True\<rparr>) s) = Some s'"
    by (auto simp: tcp_send_fin_def bind_eq_Some_conv)
  then have "tcb_rel Q t (upd_tcp t (\<lambda>c. c\<lparr>t_fin_out := True\<rparr>) s) s'" by (rule tcb_out_event)
  then show ?thesis by (rule tcb_trans [OF tcb_upd, rotated]) (rule rel_snd)
qed

lemma tcb_ack_process:
  assumes run: "tcp_ack_process t seg s = Some (s', e)"
  shows "tcb_rel Q t s s'"
proof (cases "s' = s")
  case False
  from run obtain h old where h: "read_tcp_hdr (sg_hdr seg) s = Some h" "tcp_seq_le (th_ack h) (t_snd_una (tcps s t)) = Some old"
    by (auto simp: tcp_ack_process_def bind_eq_Some_conv)
  obtain c wake where w: "ack_window (th_ack h) (tcps s t) = (c, wake)" by fastforce
  let ?s = "upd_tcp t (\<lambda>_. c) s"
  have "s' = ?s \<or> sock_wakeup (Tcp_sock t) {Snd_wait} NET_OK ?s = Some s'"
    using run h w False by (auto simp: tcp_ack_process_def Let_def bind_eq_Some_conv split: if_splits)
  then have "same_tcbs ?s s'" using same_tcbs_wakeup by auto
  moreover have "Q (tcps s t) c" using rel_ack [of "tcps s t" "th_ack h"] w by simp
  ultimately show ?thesis by (intro tcb_upd_same)
qed simp

lemma tcb_copy_data:
  assumes "copy_data_to_rcvbuf t seg s = Some (s', n)"
  shows "tcb_rel Q t s s'"
proof (cases "sg_data_len seg \<noteq> 0 \<and> sg_seq seg = t_rcv_nxt (tcps s t)")
  case True
  with assms obtain s1 b where 1: "tcp_buf_write_rcv (t_rcv_buf (tcps s t)) 0 (sg_buf seg) (sint (sg_data_len seg)) s = Some (s1, b, n)"
    and s': "s' = upd_tcp t (\<lambda>c. c\<lparr>t_rcv_buf := b\<rparr>) s1"
    by (auto simp: copy_data_to_rcvbuf_def bind_eq_Some_conv)
  have k: "same_tcbs s s1" using same_rest_write_rcv [OF 1, THEN ip_keep_rest] by (rule same_tcbs_ip)
  then have "buf_keeps (t_rcv_buf (tcps s1 t)) b" using write_rcv_keeps [OF 1] by (simp add: same_tcbs_def)
  with k show ?thesis unfolding s' by (intro tcb_trans [OF tcb_same tcb_upd] rel_rcv_buf)
next
  case False
  with assms show ?thesis by (auto simp: copy_data_to_rcvbuf_def)
qed

lemma tcb_data_in:
  assumes run: "tcp_data_in t seg s = Some (s', e)"
  shows "tcb_rel Q t s s'"
proof -
  from run obtain s1 sz where 1: "copy_data_to_rcvbuf t seg s = Some (s1, sz)" by (auto simp: tcp_data_in_def bind_eq_Some_conv)
  note k1 = tcb_copy_data [OF 1]
  show ?thesis
  proof (cases "sz < 0")
    case True
    with run 1 k1 show ?thesis by (simp add: tcp_data_in_def)
  next
    case False
    with run 1 obtain h where h: "read_tcp_hdr (sg_hdr seg) s1 = Some h" by (auto simp: tcp_data_in_def bind_eq_Some_conv)
    let ?s2 = "upd_tcp t (\<lambda>c. c\<lparr>t_rcv_nxt := t_rcv_nxt c + of_int sz\<rparr>) s1"
    let ?fin = "f_fin h \<and> t_rcv_nxt (tcps ?s2 t) = sg_seq seg"
    let ?s3 = "if ?fin then upd_tcp t (\<lambda>c. c\<lparr>t_rcv_nxt := t_rcv_nxt c + 1, t_fin_in := True\<rparr>) ?s2 else ?s2"
    have k2: "tcb_rel Q t s ?s2" by (rule tcb_trans [OF k1 tcb_upd]) (rule rel_rcv)
    have "tcb_rel Q t ?s2 (upd_tcp t (\<lambda>c. c\<lparr>t_rcv_nxt := t_rcv_nxt c + 1, t_fin_in := True\<rparr>) ?s2)"
      by (rule tcb_upd) (rule rel_rcv)
    then have k3: "tcb_rel Q t s ?s3" using k2 tcb_trans by auto
    have "same_tcbs ?s3 s'"
      using run 1 False h
      by (auto simp: tcp_data_in_def Let_def bind_eq_Some_conv split: if_splits
          dest!: same_tcbs_wakeup ip_keep_segments(2) [THEN same_tcbs_ip] intro: same_tcbs_trans)
    with k3 show ?thesis by (blast intro: tcb_trans tcb_same)
  qed
qed

lemma tcb_keepalive_timer:
  assumes "keepalive_start_timer t s = Some s'"
  shows "tcb_rel Q t s s'"
proof -
  from assms have "same_tcbs (upd_tcp t (\<lambda>c. c\<lparr>t_keep_retry := 0\<rparr>) s) s'"
    by (auto simp: keepalive_start_timer_def Let_def bind_eq_Some_conv dest!: same_tcbs_timer)
  then show ?thesis by (rule tcb_upd_same [rotated]) (rule rel_keep)
qed

lemma tcb_timer_remove: "tcb_rel Q t s (net_timer_remove tm s)"
  by (rule tcb_same) (simp add: same_tcbs_def)

lemma tcb_keepalive_restart:
  assumes "tcp_keepalive_restart t s = Some s'"
  shows "tcb_rel Q t s s'"
proof (cases "t_keep_enable (tcps s t)")
  case True
  with assms obtain s1 where 1: "keepalive_start_timer t (net_timer_remove (keep_timer t) s) = Some s1"
    and s': "s' = upd_tcp t (\<lambda>c. c\<lparr>t_keep_retry := 0\<rparr>) s1" by (auto simp: tcp_keepalive_restart_def)
  have "tcb_rel Q t s1 s'" unfolding s' by (rule tcb_upd) (rule rel_keep)
  with tcb_timer_remove tcb_keepalive_timer [OF 1] show ?thesis using tcb_trans by blast
next
  case False
  with assms show ?thesis by (simp add: tcp_keepalive_restart_def)
qed

lemma tcb_keepalive_start:
  assumes "tcp_keepalive_start t run s = Some s'"
  shows "tcb_rel Q t s s'"
proof -
  from assms obtain s1 where 1: "s1 = s \<or> s1 = net_timer_remove (keep_timer t) s \<or> keepalive_start_timer t s = Some s1"
    and s': "s' = upd_tcp t (\<lambda>c. c\<lparr>t_keep_enable := odd run\<rparr>) s1"
    by (auto simp: tcp_keepalive_start_def bind_eq_Some_conv split: if_splits)
  have "tcb_rel Q t s s1" using 1 tcb_timer_remove tcb_keepalive_timer by auto
  moreover have "tcb_rel Q t s1 s'" unfolding s' by (rule tcb_upd) (rule rel_keep)
  ultimately show ?thesis by (rule tcb_trans)
qed

lemma tcb_read_options:
  assumes "tcp_read_options t d s = Some s'"
  shows "tcb_rel Q t s s'"
proof -
  from assms consider "s' = s" | m i e where "s' = upd_tcp t (\<lambda>c. c\<lparr>t_mss := m\<rparr>) s" "read_options_loop d i e s (t_mss (tcps s t)) = Some m"
    by (auto simp: tcp_read_options_def Let_def bind_eq_Some_conv split: if_splits)
  then show ?thesis
  proof cases
    case 2
    show ?thesis unfolding 2(1) by (rule tcb_upd, rule rel_mss) (rule read_options_mss [OF 2(2)])
  qed simp
qed

lemma tcb_rto:
  assumes "rto_double (t_rto (tcps s t)) = Some r"
  shows "tcb_rel Q t s (upd_tcp t (\<lambda>c. c\<lparr>t_rexmit_cnt := 1, t_rto := r, t_ostate := os\<rparr>) s)"
    and "tcb_rel Q t s (upd_tcp t (\<lambda>c. c\<lparr>t_rto := (if r \<ge> 8000 then 8000 else r)\<rparr>) s)"
proof -
  let ?c = "tcps s t" and ?c1 = "(tcps s t)\<lparr>t_rexmit_cnt := 1\<rparr>"
  have r: "r = t_rto ?c * 2" using assms by (simp add: rto_double_def split: if_splits)
  have "Q ?c ?c1" by (rule rel_rexmit)
  moreover have "Q ?c1 (?c1\<lparr>t_rto := r\<rparr>)" by (rule rel_rexmit) (simp add: r)
  ultimately have "Q ?c (?c1\<lparr>t_rto := r\<rparr>)" by (rule rel_trans)
  then have "Q ?c (?c1\<lparr>t_rto := r, t_ostate := os\<rparr>)" using rel_ostate(1) [of "?c1\<lparr>t_rto := r\<rparr>" os] rel_trans by simp
  then show "tcb_rel Q t s (upd_tcp t (\<lambda>c. c\<lparr>t_rexmit_cnt := 1, t_rto := r, t_ostate := os\<rparr>) s)" by (intro tcb_upd)
  show "tcb_rel Q t s (upd_tcp t (\<lambda>c. c\<lparr>t_rto := (if r \<ge> 8000 then 8000 else r)\<rparr>) s)"
    by (intro tcb_upd rel_rexmit) (simp add: r)
qed

end

end
