(* ===== verification/Net_Tcp_Steps.thy ===== *)
theory Net_Tcp_Steps
  imports Net_Tcp_States
begin

text \<open>
  What one event does to a connection.  A relation between records that also allows a change
  of the state is kept by every handler of a segment, by the timers and by the calls of the
  user.  For two relations this gives the well-formedness of every connection and the
  transitions of the connection's state.
\<close>

section \<open>Events that may change the state\<close>

locale tcb_state_relation = tcb_relation +
  assumes rel_state: "st \<noteq> TCP_STATE_FREE \<Longrightarrow> Q c (c\<lparr>t_state := st\<rparr>)"
    and rel_listen: "Q c (c\<lparr>t_state := TCP_STATE_LISTEN, t_backlog := k\<rparr>)"
    and rel_inactive: "Q c (c\<lparr>t_inactive := f\<rparr>)"
    and rel_keep_opts: "Q c (c\<lparr>t_keep_idle := k\<rparr>)" "Q c (c\<lparr>t_keep_intvl := k\<rparr>)" "Q c (c\<lparr>t_keep_cnt := k\<rparr>)"
    and rel_snd_buf: "buf_keeps (t_snd_buf c) b \<Longrightarrow> Q c (c\<lparr>t_snd_buf := b\<rparr>)"
    and rel_connect: "Q c (c\<lparr>t_snd_buf := tcp_buf_init (tb_data (t_snd_buf c)) 100000, t_snd_iss := x, t_snd_nxt := x, t_snd_una := x,
          t_rcv_buf := tcp_buf_init (tb_data (t_rcv_buf c)) 2048, t_rcv_nxt := 0, t_mss := 1460\<rparr>)"
begin

lemma tcb_set_state: "st \<noteq> TCP_STATE_FREE \<Longrightarrow> tcb_rel Q t s (tcp_set_state t st s)"
  unfolding tcp_set_state_def by (rule tcb_upd) (rule rel_state)

lemma tcb_set_stateD: "tcb_rel Q t (tcp_set_state t st s) s' \<Longrightarrow> st \<noteq> TCP_STATE_FREE \<Longrightarrow> tcb_rel Q t s s'"
  by (rule tcb_trans [OF tcb_set_state])

lemma tcb_set_stateI: "tcb_rel Q t s s' \<Longrightarrow> st \<noteq> TCP_STATE_FREE \<Longrightarrow> tcb_rel Q t s (tcp_set_state t st s')"
  by (rule tcb_trans [OF _ tcb_set_state])

lemma tcb_kill: "tcb_rel Q t s (tcp_kill_all_timers u s)"
  by (rule tcb_same) (simp add: tcp_kill_all_timers_def same_tcbs_def)

lemma tcb_wakeup: "sock_wakeup a kinds err s = Some s' \<Longrightarrow> tcb_rel Q t s s'"
  by (rule tcb_same, rule same_tcbs_wakeup)

lemma tcb_abort:
  assumes "tcp_abort t err s = Some (s', e)"
  shows "tcb_rel Q t s s'"
proof -
  from assms have "sock_wakeup (Tcp_sock t) SOCK_WAIT_ALL err (tcp_set_state t TCP_STATE_CLOSED (tcp_kill_all_timers t s)) = Some s'"
    by (auto simp: tcp_abort_def bind_eq_Some_conv)
  from tcb_wakeup [OF this] show ?thesis by (rule tcb_trans [OF tcb_kill tcb_set_stateD]) simp
qed

lemma tcb_timer_add: "net_timer_add tm name pr arg ms fl s = Some (s', e) \<Longrightarrow> tcb_rel Q t s s'"
  by (rule tcb_same, rule same_tcbs_timer)

lemma tcb_time_wait:
  assumes "tcp_time_wait t s = Some s'"
  shows "tcb_rel Q t s s'"
proof -
  from assms obtain s1 e where
    1: "net_timer_add (keep_timer t) ''2msl timer'' TCP_TIMEWAIT_TMO t (2 * TCP_TMO_MSL) 0
          (tcp_kill_all_timers t (tcp_set_state t TCP_STATE_TIME_WAIT s)) = Some (s1, e)"
    and 2: "sock_wakeup (Tcp_sock t) SOCK_WAIT_ALL NET_ERR_CLOSED s1 = Some s'"
    by (auto simp: tcp_time_wait_def Let_def bind_eq_Some_conv)
  show ?thesis
    by (rule tcb_set_stateD [OF tcb_trans [OF tcb_kill tcb_trans [OF tcb_timer_add [OF 1] tcb_wakeup [OF 2]]]]) simp
qed

lemma tcb_segments:
  "tcp_send_reset seg s = Some (s', e) \<Longrightarrow> tcb_rel Q t s s'" "tcp_send_ack u seg s = Some (s', e) \<Longrightarrow> tcb_rel Q t s s'"
  "tcp_send_reset_for_tcp u s = Some (s', e) \<Longrightarrow> tcb_rel Q t s s'" "tcp_send_keepalive u s = Some (s', e) \<Longrightarrow> tcb_rel Q t s s'"
  by (auto dest!: ip_keep_segments [THEN same_tcbs_ip] intro: tcb_same)

lemma tcb_synced:
  assumes "tcp_synced_in t seg rest s = Some (s', e)" and "\<And>s s' e. rest s = Some (s', e) \<Longrightarrow> tcb_rel Q t s s'"
  shows "tcb_rel Q t s s'"
  using assms
  by (auto simp: tcp_synced_in_def bind_eq_Some_conv split: if_splits
      dest!: tcb_abort tcb_segments tcb_ack_process intro: tcb_trans)

lemmas tcb_steps = tcb_abort tcb_ack_process tcb_data_in tcb_out_event tcb_time_wait tcb_segments tcb_send_syn tcb_keepalive_start
  tcb_wakeup tcb_read_options

lemma tcb_synced_handlers:
  "tcp_established_in t seg s = Some (s', e) \<Longrightarrow> tcb_rel Q t s s'" "tcp_close_wait_in t seg s = Some (s', e) \<Longrightarrow> tcb_rel Q t s s'"
  "tcp_last_ack_in t seg s = Some (s', e) \<Longrightarrow> tcb_rel Q t s s'" "tcp_fin_wait_1_in t seg s = Some (s', e) \<Longrightarrow> tcb_rel Q t s s'"
  "tcp_fin_wait_2_in t seg s = Some (s', e) \<Longrightarrow> tcb_rel Q t s s'" "tcp_closing_in t seg s = Some (s', e) \<Longrightarrow> tcb_rel Q t s s'"
  "tcp_time_wait_in t seg s = Some (s', e) \<Longrightarrow> tcb_rel Q t s s'"
  unfolding tcp_established_in_def tcp_close_wait_in_def tcp_last_ack_in_def tcp_fin_wait_1_in_def tcp_fin_wait_2_in_def
    tcp_closing_in_def tcp_time_wait_in_def
  by (erule tcb_synced, auto simp: bind_eq_Some_conv split: if_splits dest!: tcb_steps intro: tcb_trans tcb_set_stateI)+

lemma tcb_closed_in: "tcp_closed_in t seg s = Some (s', e) \<Longrightarrow> tcb_rel Q t s s'"
  by (auto simp: tcp_closed_in_def bind_eq_Some_conv split: if_splits dest!: tcb_segments(1))

lemma tcb_established: "tcb_rel Q t s (upd_tcp t (\<lambda>c. c\<lparr>t_rcv_iss := x, t_rcv_nxt := y, t_irs_valid := True\<rparr>) s)"
  by (rule tcb_upd) (rule rel_rcv)

lemma tcb_syn_sent_in:
  assumes "tcp_syn_sent_in t seg s = Some (s', e)"
  shows "tcb_rel Q t s s'"
  using assms
  by (auto simp: tcp_syn_sent_in_def bind_eq_Some_conv Let_def split: if_splits dest!: tcb_steps [where t = t]
      tcb_set_stateD tcb_trans [OF tcb_established]) (blast intro: tcb_trans)+

lemma tcb_wake_parent: "wake_parent r err s = Some s' \<Longrightarrow> tcb_rel Q t s s'"
  by (auto simp: wake_parent_def split: option.splits dest!: tcb_wakeup)

lemma tcb_syn_recvd_in:
  assumes "tcp_syn_recvd_in t seg s = Some (s', e)"
  shows "tcb_rel Q t s s'"
  using assms
  by (auto simp: tcp_syn_recvd_in_def bind_eq_Some_conv Let_def split: if_splits dest!: tcb_steps [where t = t] tcb_wake_parent [where t = t]
      tcb_set_stateD) (blast intro: tcb_trans)+

lemma tcb_state_proc:
  assumes "tcp_state_proc st t seg s = Some (s', e)" "st \<noteq> TCP_STATE_LISTEN"
  shows "tcb_rel Q t s s'"
  using assms
  by (auto simp: tcp_state_proc_def split: tcp_state_t.splits
      intro: tcb_synced_handlers tcb_closed_in tcb_syn_sent_in tcb_syn_recvd_in)

section \<open>Timers and calls\<close>

lemma tcb_rexmit:
  assumes "tcb_rel Q t s s1" and "rto_double (t_rto (tcps s1 t)) = Some r"
  shows "net_timer_add tm name pr arg ms fl (upd_tcp t (\<lambda>c. c\<lparr>t_rexmit_cnt := 1, t_rto := r, t_ostate := os\<rparr>) s1) = Some (s', e) \<Longrightarrow>
           tcb_rel Q t s s'"
    and "net_timer_add tm name pr arg ms fl (upd_tcp t (\<lambda>c. c\<lparr>t_rto := (if r \<ge> 8000 then 8000 else r)\<rparr>) s1) = Some (s', e) \<Longrightarrow>
           tcb_rel Q t s s'"
  by (rule tcb_trans [OF assms(1) tcb_trans [OF tcb_rto(1) [OF assms(2)] tcb_timer_add]], assumption)
    (rule tcb_trans [OF assms(1) tcb_trans [OF tcb_rto(2) [OF assms(2)] tcb_timer_add]], assumption)

lemma tcb_out_timer:
  assumes "tcp_out_timer_tmo t s = Some s'"
  shows "tcb_rel Q t s s'"
proof (cases "t_ostate (tcps s t)")
  case TCP_OSTATE_IDLE
  with assms show ?thesis by (simp add: tcp_out_timer_tmo_def)
next
  case TCP_OSTATE_SENDING
  with assms obtain s1 e where 1: "tcp_retransmit t s = Some (s1, e)" by (auto simp: tcp_out_timer_tmo_def bind_eq_Some_conv)
  note k1 = tcb_out_steps(2) [OF 1]
  show ?thesis
  proof (cases "net_err_neg e")
    case False
    with assms TCP_OSTATE_SENDING 1 obtain r name ms e' where 2: "rto_double (t_rto (tcps s1 t)) = Some r"
      "net_timer_add (snd_timer t) name TCP_OUT_TIMER_TMO t ms 0
         (upd_tcp t (\<lambda>c. c\<lparr>t_rexmit_cnt := 1, t_rto := r, t_ostate := TCP_OSTATE_REXMIT\<rparr>) s1) = Some (s', e')"
      by (auto simp: tcp_out_timer_tmo_def Let_def bind_eq_Some_conv simp del: upd_tcp_simps)
    show ?thesis by (rule tcb_rexmit(1) [OF k1 2])
  qed (use assms TCP_OSTATE_SENDING 1 k1 in \<open>simp add: tcp_out_timer_tmo_def\<close>)
next
  case TCP_OSTATE_REXMIT
  let ?s = "upd_tcp t (\<lambda>c. c\<lparr>t_rexmit_cnt := t_rexmit_cnt c + 1\<rparr>) s"
  have k: "tcb_rel Q t s ?s" by (rule tcb_upd) (rule rel_rexmit)
  show ?thesis
  proof (cases "t_rexmit_cnt (tcps ?s t) > t_rexmit_max (tcps ?s t)")
    case True
    with assms TCP_OSTATE_REXMIT k show ?thesis
      by (auto simp: tcp_out_timer_tmo_def Let_def bind_eq_Some_conv simp del: upd_tcp_simps dest!: tcb_abort intro: tcb_trans)
  next
    case False
    with assms TCP_OSTATE_REXMIT obtain s1 e where 1: "tcp_retransmit t ?s = Some (s1, e)"
      by (auto simp: tcp_out_timer_tmo_def Let_def bind_eq_Some_conv simp del: upd_tcp_simps)
    note k1 = tcb_trans [OF k tcb_out_steps(2) [OF 1]]
    show ?thesis
    proof (cases "net_err_neg e")
      case err: False
      with assms TCP_OSTATE_REXMIT False 1 obtain r name ms e' where 2: "rto_double (t_rto (tcps s1 t)) = Some r"
        "net_timer_add (snd_timer t) name TCP_OUT_TIMER_TMO t ms 0
           (upd_tcp t (\<lambda>c. c\<lparr>t_rto := (if r \<ge> TCP_RTO_MAX then TCP_RTO_MAX else r)\<rparr>) s1) = Some (s', e')"
        by (auto simp: tcp_out_timer_tmo_def Let_def bind_eq_Some_conv simp del: upd_tcp_simps)
      show ?thesis by (rule tcb_rexmit(2) [OF k1 2])
    qed (use assms TCP_OSTATE_REXMIT False 1 k1 in \<open>simp add: tcp_out_timer_tmo_def Let_def del: upd_tcp_simps\<close>)
  qed
qed

lemma tcb_keepalive_tmo:
  assumes "tcp_keepalive_tmo t s = Some s'"
  shows "tcb_rel Q t s s'"
proof -
  have rex: "tcb_rel Q t s (upd_tcp t (\<lambda>c. c\<lparr>t_keep_retry := t_keep_retry c + 1\<rparr>) s)" for s
    by (rule tcb_upd) (rule rel_keep)
  show ?thesis
    using assms
    by (auto simp: tcp_keepalive_tmo_def bind_eq_Some_conv Let_def simp del: upd_tcp_simps split: if_splits
        dest!: tcb_abort tcb_segments [where t = t] tcb_timer_add [where t = t] tcb_trans [OF tcb_timer_remove] tcb_trans [OF rex])
      (blast intro: tcb_trans)+
qed

lemma tcb_init_connect: "tcp_init_connect t s = (s', e) \<Longrightarrow> tcb_rel Q t s s'"
  by (auto simp: tcp_init_connect_def tcp_get_iss_def Let_def tcb_rel_def rel_connect)

lemma tcb_upd_sock: "tcb_rel Q t s (upd_sock a f s)"
  by (rule tcb_same) (simp add: same_tcbs_def)

lemma tcb_setopt:
  assumes "tcp_setopt t level optname optval optlen s = Some (s', e)"
  shows "tcb_rel Q t s s'"
proof -
  have e: "tcb_rel Q t s (upd_tcp t (\<lambda>c. c\<lparr>t_keep_enable := f\<rparr>) s)" for f s by (rule tcb_upd) (rule rel_keep)
  have o: "tcb_rel Q t s (upd_tcp t (\<lambda>c. if b1 then c\<lparr>t_keep_idle := v\<rparr> else if b2 then c\<lparr>t_keep_intvl := v\<rparr> else c\<lparr>t_keep_cnt := v\<rparr>) s)"
    for b1 b2 v s by (rule tcb_upd) (simp add: rel_keep_opts)
  from assms obtain s1 e1 where 1: "sock_setopt (Tcp_sock t) level optname optval optlen s = Some (s1, e1)"
    by (auto simp: tcp_setopt_def bind_eq_Some_conv)
  have k1: "tcb_rel Q t s s1" using 1 by (auto simp: sock_setopt_def bind_eq_Some_conv tcb_upd_sock split: if_splits)
  let ?idle = "optname = 4" and ?intvl = "optname = 5"
  from assms 1 consider "s' = s1" | v where "tcp_keepalive_start t v (upd_tcp t (\<lambda>c. c\<lparr>t_keep_enable := odd v\<rparr>) s1) = Some s'"
    | v where "tcp_keepalive_restart t (upd_tcp t (\<lambda>c. if ?idle then c\<lparr>t_keep_idle := v\<rparr> else if ?intvl then c\<lparr>t_keep_intvl := v\<rparr> else c\<lparr>t_keep_cnt := v\<rparr>) s1) = Some s'"
    unfolding tcp_setopt_def bind_eq_Some_conv 1 by (simp del: upd_tcp_simps split: if_split_asm) (auto simp: bind_eq_Some_conv simp del: upd_tcp_simps)
  then show ?thesis
    by cases (use k1 in simp, use tcb_trans [OF k1 tcb_trans [OF e tcb_keepalive_start]] in blast,
      use tcb_trans [OF k1 tcb_trans [OF o tcb_keepalive_restart]] in blast)
qed

lemma tcb_connect:
  assumes "tcp_connect t addr s = Some (s', e)"
  shows "tcb_rel Q t s s'"
  using assms
  by (auto simp: tcp_connect_def bind_eq_Some_conv Let_def simp del: upd_sock_simps split: if_splits option.splits prod.splits
      dest!: tcb_send_syn tcb_init_connect tcb_trans [OF tcb_upd_sock] intro: tcb_upd_sock tcb_trans [OF tcb_upd_sock tcb_upd_sock])
    (blast intro: tcb_trans tcb_set_stateI)+

lemma tcb_send:
  assumes "tcp_send t buf s = Some (s', r)"
  shows "tcb_rel Q t s s'"
proof -
  have "tcb_rel Q t s s1" if run: "tcp_write_sndbuf t buf (int (length buf)) s = Some (s1, n)" for s1 n
  proof (cases "s1 = s")
    case False
    with run obtain b m where b: "tcp_buf_write_send (t_snd_buf (tcps s t)) buf m = Some b" "m \<le> tcp_buf_free_cnt (t_snd_buf (tcps s t))"
      "m \<le> int (length buf)" "0 < tcp_buf_free_cnt (t_snd_buf (tcps s t))" and s1: "s1 = upd_tcp t (\<lambda>c. c\<lparr>t_snd_buf := b\<rparr>) s"
      by (auto simp: tcp_write_sndbuf_def Let_def bind_eq_Some_conv split: if_splits)
    show ?thesis unfolding s1 by (rule tcb_upd, rule rel_snd_buf, rule write_send_keeps [OF b])
  qed simp
  with assms show ?thesis
    by (auto simp: tcp_send_def bind_eq_Some_conv split: if_splits dest!: tcb_out_event intro: tcb_trans)
qed

lemma tcb_recv:
  assumes "tcp_recv t len s = Some (s', r)"
  shows "tcb_rel Q t s s'"
proof (cases "s' = s")
  case False
  with assms obtain b bs n where b: "tcp_buf_read_rcv (t_rcv_buf (tcps s t)) len = Some (b, bs, n)"
    and s': "s' = upd_tcp t (\<lambda>c. c\<lparr>t_rcv_buf := b\<rparr>) s"
    by (auto simp: tcp_recv_def Let_def bind_eq_Some_conv split: if_splits)
  show ?thesis unfolding s' by (rule tcb_upd, rule rel_rcv_buf, rule read_rcv_keeps [OF b])
qed simp

lemma tcb_listen: "tcp_listen t k s = (s', e) \<Longrightarrow> tcb_rel Q t s s'"
  by (auto simp: tcp_listen_def tcb_rel_def rel_listen rel_refl split: if_splits)

lemma tcb_accept: "tcp_accept t s = (s', e, a, Some c) \<Longrightarrow> tcb_rel Q c s s'"
  by (auto simp: tcp_accept_def Let_def tcb_rel_def rel_inactive split: option.splits)

end

section \<open>The state stays\<close>

definition tcb_stays :: "tcp_t \<Rightarrow> tcp_t \<Rightarrow> bool" where
  "tcb_stays c c' \<longleftrightarrow> t_state c' = t_state c \<and> t_snd_iss c' = t_snd_iss c \<and> t_parent c' = t_parent c \<and>
     t_inactive c' = t_inactive c \<and> t_backlog c' = t_backlog c"

lemma ack_window_stays: "tcb_stays c (fst (ack_window ack c))"
  by (simp add: ack_window_def tcb_stays_def Let_def split: prod.splits)

interpretation stays: tcb_relation tcb_stays
  by unfold_locales (simp_all add: tcb_stays_def ack_window_stays [unfolded tcb_stays_def])

section \<open>Well-formed records\<close>

definition tcb_wf :: "tcp_t \<Rightarrow> bool" where
  "tcb_wf c \<longleftrightarrow> buf_wf (int TCP_SBUF_SIZE) (t_snd_buf c) \<and> buf_wf (int TCP_RBUF_SIZE) (t_rcv_buf c) \<and>
     0 \<le> t_mss c \<and> t_mss c \<le> TCP_MSS \<and> TCP_INIT_RTO \<le> t_rto c \<and> t_state c \<noteq> TCP_STATE_FREE"

definition keeps_wf :: "tcp_t \<Rightarrow> tcp_t \<Rightarrow> bool" where
  "keeps_wf c c' \<longleftrightarrow> (tcb_wf c \<longrightarrow> tcb_wf c')"

lemma ack_window_wf: "keeps_wf c (fst (ack_window ack c))"
  using buf_keeps_remove [of _ "t_snd_buf c"]
  by (auto simp: keeps_wf_def tcb_wf_def ack_window_def Let_def buf_keeps_def split: prod.splits) (metis fst_conv less_imp_le)+

lemma buf_wf_init: "buf_wf n b \<Longrightarrow> 0 < n \<Longrightarrow> buf_wf n (tcp_buf_init (tb_data b) n)"
  by (auto simp: buf_wf_def tcp_buf_init_def tb_ok_def ring_ok_def)

interpretation wf: tcb_state_relation keeps_wf
  by (unfold_locales, (rule ack_window_wf | force simp: keeps_wf_def tcb_wf_def buf_keeps_def buf_wf_init)+)

end
