(* ===== verification/Net_Tcp_Inv.thy ===== *)
theory Net_Tcp_Inv
  imports Net_Tcp_Steps
begin

text \<open>
  The invariant of TCP: the connections in the list and the free records are different blocks
  of the table, and every connection in the list is well formed.  Every event, a segment, a
  timer or a call of the user, keeps it.
\<close>

section \<open>The invariant\<close>

definition tcp_inv :: "'a tcp_state_scheme \<Rightarrow> bool" where
  "tcp_inv s \<longleftrightarrow> distinct (tcp_list s @ tcp_mblock s) \<and> (\<forall>t\<in>set (tcp_list s @ tcp_mblock s). t < TCP_MAX_NR) \<and>
     (\<forall>t\<in>set (tcp_list s). tcb_wf (tcps s t))"

lemma tcp_inv_rel: "tcp_inv s \<Longrightarrow> tcb_rel keeps_wf t s s' \<Longrightarrow> tcp_inv s'"
  by (auto simp: tcp_inv_def tcb_rel_def keeps_wf_def)

lemma tcp_inv_same: "tcp_inv s \<Longrightarrow> same_tcbs s s' \<Longrightarrow> tcp_inv s'"
  by (simp add: tcp_inv_def same_tcbs_def)

text \<open>A record taken from the pool and not yet in the list.\<close>

definition detached :: "addr \<Rightarrow> 'a tcp_state_scheme \<Rightarrow> bool" where
  "detached t s \<longleftrightarrow> t < TCP_MAX_NR \<and> t \<notin> set (tcp_list s) \<and> t \<notin> set (tcp_mblock s)"

lemma tcp_inv_detached: "tcp_inv s \<Longrightarrow> detached t s \<Longrightarrow> tcp_inv (upd_tcp t f s) \<and> detached t (upd_tcp t f s)"
  by (auto simp: tcp_inv_def detached_def)

lemma detached_rel: "tcb_rel Q u s s' \<Longrightarrow> detached t s \<Longrightarrow> detached t s'"
  by (simp add: tcb_rel_def detached_def)

lemma detached_same: "same_tcbs s s' \<Longrightarrow> detached t s \<Longrightarrow> detached t s'"
  by (simp add: same_tcbs_def detached_def)

lemma tcp_inv_give_back: "tcp_inv s \<Longrightarrow> detached t s \<Longrightarrow> tcp_inv (s\<lparr>tcp_mblock := pool_free (tcp_mblock s) t\<rparr>)"
  by (auto simp: tcp_inv_def detached_def pool_free_def)

text \<open>The list has room for every record that is not in it.\<close>

lemma tcp_list_length: "tcp_inv s \<Longrightarrow> length (tcp_list s) \<le> TCP_MAX_NR"
  using card_mono [of "{..<TCP_MAX_NR}" "set (tcp_list s)"] distinct_card [of "tcp_list s"] by (force simp: tcp_inv_def)

lemma tcp_insert_room:
  assumes "tcp_inv s" "detached t s"
  shows "tcp_insert t s = Some (s\<lparr>tcp_list := tcp_list s @ [t]\<rparr>)"
proof -
  let ?l = "tcp_list s @ [t]"
  have "set ?l \<subseteq> {..<TCP_MAX_NR}" "distinct ?l" using assms by (auto simp: tcp_inv_def detached_def)
  then have "length ?l \<le> TCP_MAX_NR" using card_mono [of "{..<TCP_MAX_NR}" "set ?l"] distinct_card [of ?l] by simp
  then show ?thesis by (simp add: tcp_insert_def)
qed

lemma tcp_insert_inv: "tcp_inv s \<Longrightarrow> detached t s \<Longrightarrow> tcb_wf (tcps s t) \<Longrightarrow> tcp_insert t s = Some s' \<Longrightarrow> tcp_inv s'"
  by (auto simp: tcp_insert_room) (simp add: tcp_inv_def detached_def)

section \<open>Allocation\<close>

lemma tcp_free_inv:
  assumes run: "tcp_free t s = Some s'" and t: "t \<in> set (tcp_list s)" and inv: "tcp_inv s"
  shows "tcp_inv s'" "tcp_list s' = remove1 t (tcp_list s)" "tcp_mblock s' = tcp_mblock s @ [t]"
    "\<And>u. u \<noteq> t \<Longrightarrow> tcps s' u = tcps s u"
proof -
  from run obtain s1 where k: "same_tcbs s s1" and
    s': "s' = (tcp_set_state t TCP_STATE_FREE s1)\<lparr>tcp_list := remove1 t (tcp_list s1), tcp_mblock := pool_free (tcp_mblock s1) t\<rparr>"
    by (auto simp: tcp_free_def Let_def bind_eq_Some_conv tcp_set_state_def split: if_splits dest!: same_tcbs_destroy)
      (auto intro: same_tcbs_trans)
  from k show l: "tcp_list s' = remove1 t (tcp_list s)" and m: "tcp_mblock s' = tcp_mblock s @ [t]"
    by (simp_all add: s' same_tcbs_def pool_free_def)
  show u: "tcps s' u = tcps s u" if "u \<noteq> t" for u using k that by (simp add: s' tcp_set_state_def same_tcbs_def)
  have d: "distinct (tcp_list s)" using inv by (simp add: tcp_inv_def)
  have "tcb_wf (tcps s' u)" if "u \<in> set (tcp_list s')" for u
    using that l d inv u [of u] by (auto simp: tcp_inv_def)
  with inv t d show "tcp_inv s'" by (auto simp: tcp_inv_def l m)
qed

lemma tcp_get_free_inv:
  assumes run: "tcp_get_free s = Some (s', r)" and inv: "tcp_inv s"
  shows "tcp_inv s' \<and> (\<forall>t. r = Some t \<longrightarrow> detached t s')"
proof (cases "tcp_mblock s")
  case (Cons x xs)
  with run inv show ?thesis by (auto simp: tcp_get_free_def tcp_inv_def detached_def)
next
  case Nil
  show ?thesis
  proof (cases "find (\<lambda>t. t_state (tcps s t) = TCP_STATE_TIME_WAIT) (tcp_list s)")
    case None
    with run inv Nil show ?thesis by (auto simp: tcp_get_free_def tcp_inv_def)
  next
    case (Some t)
    then have t: "t \<in> set (tcp_list s)" by (auto simp: find_Some_iff)
    let ?s = "s\<lparr>tcp_mblock := []\<rparr>"
    have "tcp_inv ?s" using inv Nil by (simp add: tcp_inv_def)
    moreover from run Nil Some obtain s1 where 1: "tcp_free t ?s = Some s1"
      and s': "s' = s1\<lparr>tcp_mblock := fst (pool_alloc (tcp_mblock s1))\<rparr>" "r = snd (pool_alloc (tcp_mblock s1))"
      by (auto simp: tcp_get_free_def bind_eq_Some_conv case_prod_unfold Let_def)
    ultimately have "tcp_inv s1" "tcp_mblock s1 = [t]" "tcp_list s1 = remove1 t (tcp_list s)"
      using tcp_free_inv [OF 1] t by simp_all
    then show ?thesis using t inv by (auto simp: s' tcp_inv_def detached_def)
  qed
qed

lemma same_tcbs_init_waits: "tcp_init_waits t s = (s', e) \<Longrightarrow> same_tcbs s s'"
  by (auto simp: tcp_init_waits_def sock_wait_init_def same_tcbs_def Let_def split: if_splits)

lemma tcp_alloc_inv:
  assumes run: "tcp_alloc family protocol s = Some (s', r)" and inv: "tcp_inv s"
  shows "tcp_inv s' \<and> (\<forall>t. r = Some t \<longrightarrow> detached t s' \<and> tcb_wf (tcps s' t) \<and> t_state (tcps s' t) = TCP_STATE_CLOSED)"
proof -
  from run obtain s1 r1 where 1: "tcp_get_free s = Some (s1, r1)" by (auto simp: tcp_alloc_def bind_eq_Some_conv)
  note i1 = tcp_get_free_inv [OF 1 inv]
  show ?thesis
  proof (cases r1)
    case None
    with run 1 i1 show ?thesis by (simp add: tcp_alloc_def)
  next
    case (Some t)
    let ?init = "\<lambda>c. c\<lparr>t_keep_enable := False, t_keep_idle := TCP_KEEPALIVE_TIME, t_keep_intvl := TCP_KEEPALIVE_INTVL,
      t_keep_cnt := TCP_KEEPALIVE_PROBES, t_state := TCP_STATE_CLOSED, t_ostate := TCP_OSTATE_IDLE, t_rto := TCP_INIT_RTO,
      t_rexmit_max := TCP_INT_RETRIES, t_snd_una := 0, t_snd_nxt := 0, t_snd_iss := 0, t_rcv_nxt := 0, t_rcv_iss := 0\<rparr>"
    let ?s2 = "fst (sock_init (Tcp_sock t) family protocol Tcp_ops (upd_tcp t (\<lambda>_. zero_tcp) s1))"
    let ?s3 = "upd_tcp t ?init ?s2"
    obtain s4 e where 4: "tcp_init_waits t ?s3 = (s4, e)" by fastforce
    have k: "same_tcbs ?s3 s4" by (rule same_tcbs_init_waits [OF 4])
    have "same_tcbs (upd_tcp t (\<lambda>_. zero_tcp) s1) ?s2" by (simp add: sock_init_def same_tcbs_def)
    moreover have "tcp_inv s1" "detached t s1" using i1 Some by auto
    ultimately have "tcp_inv ?s2" "detached t ?s2" using tcp_inv_detached tcp_inv_same detached_same by blast+
    then have 5: "tcp_inv s4" "detached t s4" using k tcp_inv_detached tcp_inv_same detached_same by blast+
    have "tcps s4 t = ?init zero_tcp" using k by (simp add: same_tcbs_def sock_init_def)
    then have "tcb_wf (tcps s4 t)" "t_state (tcps s4 t) = TCP_STATE_CLOSED"
      by (simp_all add: tcb_wf_def zero_tcp_def buf_wf_def buf_zero_def tcp_buf_init_def)
    moreover have "tcp_inv (s5\<lparr>tcp_mblock := pool_free (tcp_mblock s5) t\<rparr>)" if "destroy_if w s4 = Some s5" for s5 w
      using that 5 by (intro tcp_inv_give_back)
        (auto simp: destroy_if_def split: option.splits dest!: same_tcbs_destroy intro: tcp_inv_same detached_same)
    ultimately show ?thesis
      using run 1 Some 4 5 by (auto simp: tcp_alloc_def sock_init_def Let_def bind_eq_Some_conv split: if_splits)
  qed
qed

section \<open>Events\<close>

lemma tcp_create_inv: "tcp_create family protocol s = Some (s', r) \<Longrightarrow> tcp_inv s \<Longrightarrow> tcp_inv s'"
  by (auto simp: tcp_create_def bind_eq_Some_conv split: option.splits dest!: tcp_alloc_inv) (meson tcp_insert_inv)

lemma tcp_create_child_inv:
  assumes run: "tcp_create_child p seg s = Some (s', r)" and inv: "tcp_inv s"
  shows "tcp_inv s'"
proof -
  let ?k = "socks s (Tcp_sock p)"
  from run obtain s1 r1 where 1: "tcp_alloc (so_family ?k) (so_protocol ?k) s = Some (s1, r1)"
    by (auto simp: tcp_create_child_def Let_def bind_eq_Some_conv)
  note i1 = tcp_alloc_inv [OF 1 inv]
  show ?thesis
  proof (cases r1)
    case None
    with run 1 i1 show ?thesis by (simp add: tcp_create_child_def)
  next
    case (Some t)
    let ?f = "\<lambda>c. c\<lparr>t_parent := Some p, t_irs_valid := True, t_inactive := True, t_backlog := 0\<rparr>"
    let ?g = "\<lambda>c. c\<lparr>t_rcv_iss := sg_seq seg, t_rcv_nxt := sg_seq seg + 1\<rparr>"
    from run 1 Some obtain h s2 s4 where
      2: "s2 = upd_tcp t ?f (upd_sock (Tcp_sock t) h s1)" and
      4: "tcp_read_options t (sg_hdr seg) (upd_tcp t ?g (fst (tcp_init_connect t s2))) = Some s4" and
      5: "tcp_insert t s4 = Some s'"
      by (auto simp: tcp_create_child_def Let_def bind_eq_Some_conv case_prod_unfold simp del: upd_tcp_simps)
    have w2: "tcp_inv s2 \<and> detached t s2 \<and> tcb_wf (tcps s2 t)"
      using i1 Some unfolding 2 by (auto simp: tcp_inv_def detached_def tcb_wf_def)
    obtain s3 e where 3: "tcp_init_connect t s2 = (s3, e)" by fastforce
    note k3 = wf.tcb_init_connect [OF 3]
    have w3: "tcp_inv s3 \<and> detached t s3 \<and> tcb_wf (tcps s3 t)"
      using w2 k3 tcp_inv_rel [OF _ k3] detached_rel [OF k3] by (auto simp: tcb_rel_def keeps_wf_def)
    then have "tcp_inv (upd_tcp t ?g s3) \<and> detached t (upd_tcp t ?g s3) \<and> tcb_wf (tcps (upd_tcp t ?g s3) t)"
      by (auto simp: tcp_inv_def detached_def tcb_wf_def)
    moreover have k4: "tcb_rel keeps_wf t (upd_tcp t ?g s3) s4" using wf.tcb_read_options 4 3 by simp
    ultimately have "tcp_inv s4 \<and> detached t s4 \<and> tcb_wf (tcps s4 t)"
      using tcp_inv_rel [OF _ k4] detached_rel [OF k4] by (auto simp: tcb_rel_def keeps_wf_def)
    with tcp_insert_inv 5 show ?thesis by blast
  qed
qed

lemma tcp_listen_in_inv:
  assumes "tcp_listen_in t seg s = Some (s', e)" "tcp_inv s"
  shows "tcp_inv s'"
  using assms
  by (auto simp: tcp_listen_in_def bind_eq_Some_conv split: if_splits option.splits
      dest!: tcp_create_child_inv wf.tcb_segments(1) wf.tcb_send_syn intro!: tcp_inv_rel [OF _ wf.tcb_set_state] intro: tcp_inv_rel)

lemma tcp_state_proc_inv:
  assumes "tcp_state_proc st t seg s = Some (s', e)" "tcp_inv s"
  shows "tcp_inv s'"
proof (cases "st = TCP_STATE_LISTEN")
  case True
  with assms show ?thesis by (auto simp: tcp_state_proc_def intro: tcp_listen_in_inv)
qed (use assms tcp_inv_rel wf.tcb_state_proc in blast)

lemma tcp_seg_in_inv:
  assumes run: "tcp_seg_in t seg s = Some (s', e)" and inv: "tcp_inv s"
  shows "tcp_inv s'"
proof -
  have f: "tcp_inv (packet_free p s1) = tcp_inv s1" for p and s1 :: "'a tcp_state_scheme"
    using same_tcbs_ip [of s1 "packet_free p s1"] by (simp add: tcp_inv_def same_tcbs_def)
  from run obtain s2 where s': "s' = packet_free (sg_buf seg) s2" and
    2: "s2 = s \<or> (\<exists>s1 st e. tcp_keepalive_restart t s = Some s1 \<and> tcp_state_proc st t seg s1 = Some (s2, e))"
    by (auto simp: tcp_seg_in_def bind_eq_Some_conv split: if_splits)
  from 2 have "tcp_inv s2" using inv tcp_state_proc_inv tcp_inv_rel [OF inv wf.tcb_keepalive_restart] by blast
  then show ?thesis by (simp add: s' f)
qed

lemma tcp_abort_free_inv:
  assumes "tcp_abort t err s = Some (s1, e)" "tcp_free t s1 = Some s'" "t \<in> set (tcp_list s)" "tcp_inv s"
  shows "tcp_inv s'"
proof -
  note k = wf.tcb_abort [OF assms(1)]
  have "t \<in> set (tcp_list s1)" using assms(3) k by (simp add: tcb_rel_def)
  with assms(2) tcp_inv_rel [OF assms(4) k] show ?thesis by (simp add: tcp_free_inv(1))
qed

lemma tcp_close_inv:
  assumes "tcp_close t s = Some (s', e)" "t \<in> set (tcp_list s)" "tcp_inv s"
  shows "tcp_inv s'"
proof -
  have fin: "tcp_send_fin t s = Some (s1, e1) \<Longrightarrow> st \<noteq> TCP_STATE_FREE \<Longrightarrow> tcp_inv (tcp_set_state t st s1)" for s1 e1 st
    using assms(3) tcp_inv_rel wf.tcb_send_fin wf.tcb_set_stateI by blast
  show ?thesis
    using assms
    by (auto simp: tcp_close_def bind_eq_Some_conv split: tcp_state_t.splits intro: tcp_free_inv tcp_abort_free_inv fin)
qed

lemma tcp_destroy_inv:
  assumes "tcp_destroy t s = Some s'" "t \<in> set (tcp_list s)" "tcp_inv s"
  shows "tcp_inv s'"
proof -
  have k: "same_tcbs s (tcp_kill_all_timers t s)" by (simp add: tcp_kill_all_timers_def same_tcbs_def)
  then have "tcp_inv (tcp_kill_all_timers t s)" "t \<in> set (tcp_list (tcp_kill_all_timers t s))"
    using assms tcp_inv_same by (auto simp: same_tcbs_def)
  with assms show ?thesis by (auto simp: tcp_destroy_def split: if_splits intro: tcp_free_inv)
qed

text \<open>
  The events of TCP on a connection of the list: a segment that belongs to it, its three
  timers, and the calls of the user.  A step of another component leaves TCP's data alone.
\<close>

inductive tcp_event :: "'a tcp_state_scheme \<Rightarrow> 'a tcp_state_scheme \<Rightarrow> bool" where
  segment: "t \<in> set (tcp_list s) \<Longrightarrow> tcp_seg_in t seg s = Some (s', e) \<Longrightarrow> tcp_event s s'"
| rexmit: "t \<in> set (tcp_list s) \<Longrightarrow> tcp_out_timer_tmo t s = Some s' \<Longrightarrow> tcp_event s s'"
| keepalive: "t \<in> set (tcp_list s) \<Longrightarrow> tcp_keepalive_tmo t s = Some s' \<Longrightarrow> tcp_event s s'"
| timewait: "t \<in> set (tcp_list s) \<Longrightarrow> tcp_timewait_tmo t s = Some s' \<Longrightarrow> tcp_event s s'"
| create: "tcp_create family protocol s = Some (s', r) \<Longrightarrow> tcp_event s s'"
| setopt: "t \<in> set (tcp_list s) \<Longrightarrow> tcp_setopt t level optname optval optlen s = Some (s', e) \<Longrightarrow> tcp_event s s'"
| bind_call: "t \<in> set (tcp_list s) \<Longrightarrow> tcp_bind t a s = Some (s', e) \<Longrightarrow> tcp_event s s'"
| connect: "t \<in> set (tcp_list s) \<Longrightarrow> tcp_connect t a s = Some (s', e) \<Longrightarrow> tcp_event s s'"
| close: "t \<in> set (tcp_list s) \<Longrightarrow> tcp_close t s = Some (s', e) \<Longrightarrow> tcp_event s s'"
| send: "t \<in> set (tcp_list s) \<Longrightarrow> tcp_send t buf s = Some (s', r) \<Longrightarrow> tcp_event s s'"
| recv: "t \<in> set (tcp_list s) \<Longrightarrow> tcp_recv t len s = Some (s', r) \<Longrightarrow> tcp_event s s'"
| listen: "t \<in> set (tcp_list s) \<Longrightarrow> tcp_listen t backlog s = (s', e) \<Longrightarrow> tcp_event s s'"
| accept: "t \<in> set (tcp_list s) \<Longrightarrow> tcp_accept t s = (s', r) \<Longrightarrow> tcp_event s s'"
| destroy: "t \<in> set (tcp_list s) \<Longrightarrow> tcp_destroy t s = Some s' \<Longrightarrow> tcp_event s s'"
| other: "same_tcbs s s' \<Longrightarrow> tcp_event s s'"

lemma tcp_accept_cases: "tcp_accept t s = (s', r) \<Longrightarrow> s' = s \<or> (\<exists>c. tcb_rel keeps_wf c s s')"
  by (auto simp: tcp_accept_def Let_def split: option.splits) (blast intro: wf.tcb_upd wf.rel_inactive)

lemma tcp_event_inv:
  assumes "tcp_event s s'" "tcp_inv s"
  shows "tcp_inv s'"
  using assms
proof cases
  case segment
  with assms show ?thesis by (blast intro: tcp_seg_in_inv)
next
  case timewait
  with assms show ?thesis by (auto simp: tcp_timewait_tmo_def intro: tcp_free_inv)
next
  case (bind_call t a e)
  then have "same_tcbs s s'" by (auto simp: tcp_bind_def Let_def bind_eq_Some_conv same_tcbs_def split: if_splits)
  with assms show ?thesis by (blast intro: tcp_inv_same)
next
  case accept
  with assms tcp_accept_cases tcp_inv_rel show ?thesis by blast
qed (use assms in \<open>blast intro: tcp_create_inv tcp_close_inv tcp_destroy_inv tcp_inv_same
      tcp_inv_rel [OF _ wf.tcb_out_timer] tcp_inv_rel [OF _ wf.tcb_keepalive_tmo] tcp_inv_rel [OF _ wf.tcb_setopt]
      tcp_inv_rel [OF _ wf.tcb_connect] tcp_inv_rel [OF _ wf.tcb_send] tcp_inv_rel [OF _ wf.tcb_recv] tcp_inv_rel [OF _ wf.tcb_listen]\<close>)+

lemma tcp_reachable_inv:
  assumes "tcp_event\<^sup>*\<^sup>* (fst (tcp_init s0)) s"
  shows "tcp_inv s"
  using assms
proof (induction rule: rtranclp_induct)
  case base
  show ?case by (simp add: tcp_init_def tcp_inv_def del: upt_rec_numeral)
qed (blast intro: tcp_event_inv)

section \<open>A state for the concrete instances\<close>

definition sample_sock :: "sock_addr \<Rightarrow> sock_t" where
  "sample_sock a = \<lparr>so_local_ip = 0x026EA8C0, so_remote_ip = 0x036EA8C0, so_local_port = 80, so_remote_port = 5000, so_ops = Tcp_ops,
     so_family = 0, so_protocol = 0, so_err = NET_OK, so_rcv_tmo = 0, so_snd_tmo = 0,
     so_snd_wait = Some (a, Snd_wait), so_rcv_wait = Some (a, Rcv_wait), so_conn_wait = Some (a, Conn_wait)\<rparr>"

definition with_tcp :: "(addr \<Rightarrow> tcp_t) \<Rightarrow> addr list \<Rightarrow> ipv4_state \<Rightarrow> tcp_state" where
  "with_tcp cs ts s = udp_state.extend (raw_state.extend (sock_state.extend
     (ipv4_state.extend s (sock_state.fields sample_sock (\<lambda>_. \<lparr>w_err = NET_OK, w_waiting = 0, w_sem = Sem 0\<rparr>) [] (\<lambda>_. True)))
     (raw_state.fields [] [] (\<lambda>_. []))) (udp_state.fields [] [] (\<lambda>_. []) 1024)) (tcp_state.fields cs [1..<50] ts 0 7)"

lemmas with_tcp_defs = with_tcp_def udp_state.extend_def raw_state.extend_def sock_state.extend_def ipv4_state.extend_def
  sock_state.fields_def raw_state.fields_def udp_state.fields_def tcp_state.fields_def

lemma with_tcp_simps [simp]:
  "pages (with_tcp cs ts s) = pages s" "packets (with_tcp cs ts s) = packets s" "tcps (with_tcp cs ts s) = cs"
  "tcp_list (with_tcp cs ts s) = ts" "tcp_mblock (with_tcp cs ts s) = [1..<50]" "socks (with_tcp cs ts s) = sample_sock"
  "waits (with_tcp cs ts s) w = \<lparr>w_err = NET_OK, w_waiting = 0, w_sem = Sem 0\<rparr>" "os_sem_ok (with_tcp cs ts s) w"
  "timer_list (with_tcp cs ts s) = timer_list s" "wait_list (with_tcp cs ts s) = wait_list s"
  by (simp_all add: with_tcp_defs del: upt_rec_numeral)

definition tcp_sample :: tcp_state where
  "tcp_sample = with_tcp (\<lambda>_. zero_tcp) [] (with_ipv4 (with_arp (with_netifs zero_buffer)))"

lemma tcp_sample_create: "\<exists>s'. tcp_create 0 0 (fst (tcp_init tcp_sample)) = Some (s', Some (Tcp_sock 0)) \<and> tcp_list s' = [0]"
proof -
  have "timer_list tcp_sample = []" "wait_list tcp_sample = []"
    by (simp_all add: tcp_sample_def with_ipv4_def with_arp_def with_netifs_def zero_buffer_def packet_buffer_init_def arp_state.extend_def
        rt_state.extend_def netif_state.extend_def packet_state.extend_def ipv4_state.fields_def arp_state.fields_def rt_state.fields_def
        netif_state.fields_def del: upt_rec_numeral)
  moreover have "[0..<TCP_MAX_NR] = 0 # [1..<TCP_MAX_NR]" by (subst upt_conv_Cons) (simp_all del: upt_rec_numeral)
  moreover have "os_sem_ok tcp_sample w" for w by (simp add: tcp_sample_def)
  ultimately show ?thesis
    by (simp add: tcp_create_def tcp_alloc_def tcp_get_free_def tcp_init_def timers_linked_def sock_init_def tcp_init_waits_def
        sock_wait_init_def Let_def tcp_insert_def upd_tcp_def upd_sock_def upd_wait_def net_err_neg_def del: upt_rec_numeral)
qed

section \<open>The property\<close>

text \<open>C1. Every TCP connection is well formed in every state that segments, timers and calls on listed connections
  can reach from start-up: the list and the free records are distinct blocks of the table, so that a new connection always finds
  room in the list; the rings of both buffers are consistent over their whole arrays, the advertised window is between
  0 and the size of the receive buffer and so never wraps in its 16-bit field, the segment size is at most 1460, the
  retransmission time is at least one second, and no listed connection is marked free.\<close>

theorem tcp_reachable_wf:
  assumes "tcp_event\<^sup>*\<^sup>* (fst (tcp_init s0)) s"
  shows "distinct (tcp_list s @ tcp_mblock s) \<and> length (tcp_list s) \<le> TCP_MAX_NR \<and> (\<forall>u. detached u s \<longrightarrow> tcp_insert u s \<noteq> None) \<and>
    (\<forall>t\<in>set (tcp_list s). tcb_wf (tcps s t) \<and> 0 \<le> tcp_rcv_window (tcps s t) \<and> tcp_rcv_window (tcps s t) \<le> int TCP_RBUF_SIZE)"
proof -
  note inv = tcp_reachable_inv [OF assms]
  have "0 \<le> tcp_rcv_window (tcps s t) \<and> tcp_rcv_window (tcps s t) \<le> int TCP_RBUF_SIZE" if "t \<in> set (tcp_list s)" for t
    using inv that buf_wf_counts [of "int TCP_RBUF_SIZE" "t_rcv_buf (tcps s t)"]
    by (force simp: tcp_inv_def tcb_wf_def tcp_rcv_window_def tcp_buf_free_cnt_def)
  then show ?thesis using inv tcp_list_length [OF inv] by (auto simp: tcp_inv_def tcp_insert_room [OF inv])
qed

theorem tcp_reachable_wf_witness:
  "\<exists>s :: tcp_state. tcp_event\<^sup>*\<^sup>* (fst (tcp_init tcp_sample)) s \<and> tcp_list s = [0] \<and> tcb_wf (tcps s 0)"
proof -
  obtain s r where s: "tcp_create 0 0 (fst (tcp_init tcp_sample)) = Some (s, r)" "tcp_list s = [0]" using tcp_sample_create by blast
  have "tcp_event\<^sup>*\<^sup>* (fst (tcp_init tcp_sample)) s" using tcp_event.create [OF s(1)] by (rule r_into_rtranclp)
  then show ?thesis using tcp_reachable_wf [of tcp_sample s] s(2) by auto
qed

end
