(* ===== verification/Net_Tcp_Machine.thy ===== *)
theory Net_Tcp_Machine
  imports Net_Tcp_Inv
begin

text \<open>
  The connection's automaton.  \<open>seg_next\<close> is the state a connection is in after a segment, as a
  function of the state before, the header, and the records before and after; the handlers of
  \<^verbatim>\<open>tcp_state.c\<close> are shown to go exactly there, whatever their output and their wake-ups do.
\<close>

section \<open>The transitions of a segment\<close>

text \<open>An acknowledgement of something that was never sent; only this makes \<^verbatim>\<open>tcp_ack_process\<close> fail.\<close>

definition ack_beyond :: "tcp_hdr_t \<Rightarrow> tcp_t \<Rightarrow> bool" where
  "ack_beyond h c \<longleftrightarrow> sint (t_snd_una c) < sint (th_ack h) \<and> sint (t_snd_nxt c) < sint (th_ack h)"

text \<open>What every state with a known peer does first; \<open>st'\<close> is where the rest of the handler leads.\<close>

definition synced_next :: "tcp_state_t \<Rightarrow> tcp_hdr_t \<Rightarrow> tcp_t \<Rightarrow> tcp_state_t \<Rightarrow> tcp_state_t" where
  "synced_next st h c st' = (if f_rst h \<or> f_syn h then TCP_STATE_CLOSED else if ack_beyond h c then st else st')"

fun seg_next :: "tcp_state_t \<Rightarrow> tcp_hdr_t \<Rightarrow> tcp_t \<Rightarrow> tcp_t \<Rightarrow> tcp_state_t" where
  "seg_next TCP_STATE_SYN_SENT h c c' =
     (if f_ack h \<and> (th_ack h = t_snd_iss c \<or> th_ack h \<noteq> t_snd_nxt c) then TCP_STATE_SYN_SENT
      else if f_rst h then if f_ack h then TCP_STATE_CLOSED else TCP_STATE_SYN_SENT
      else if f_syn h then if t_snd_una c' = t_snd_iss c' then TCP_STATE_SYN_RECVD else TCP_STATE_ESTABLISHED
      else TCP_STATE_SYN_SENT)"
| "seg_next TCP_STATE_SYN_RECVD h c c' =
     synced_next TCP_STATE_SYN_RECVD h c (if f_fin h then TCP_STATE_CLOSE_WAIT else TCP_STATE_ESTABLISHED)"
| "seg_next TCP_STATE_ESTABLISHED h c c' =
     synced_next TCP_STATE_ESTABLISHED h c (if t_fin_in c' then TCP_STATE_CLOSE_WAIT else TCP_STATE_ESTABLISHED)"
| "seg_next TCP_STATE_FIN_WAIT_1 h c c' =
     synced_next TCP_STATE_FIN_WAIT_1 h c
       (if t_fin_out c' then if t_fin_in c' then TCP_STATE_CLOSING else TCP_STATE_FIN_WAIT_1
        else if t_fin_in c' then TCP_STATE_TIME_WAIT else TCP_STATE_FIN_WAIT_2)"
| "seg_next TCP_STATE_FIN_WAIT_2 h c c' =
     synced_next TCP_STATE_FIN_WAIT_2 h c (if t_fin_in c' then TCP_STATE_TIME_WAIT else TCP_STATE_FIN_WAIT_2)"
| "seg_next TCP_STATE_CLOSING h c c' =
     synced_next TCP_STATE_CLOSING h c (if t_fin_out c' then TCP_STATE_CLOSING else TCP_STATE_TIME_WAIT)"
| "seg_next TCP_STATE_CLOSE_WAIT h c c' = synced_next TCP_STATE_CLOSE_WAIT h c TCP_STATE_CLOSE_WAIT"
| "seg_next TCP_STATE_LAST_ACK h c c' =
     synced_next TCP_STATE_LAST_ACK h c (if t_fin_out c' then TCP_STATE_LAST_ACK else TCP_STATE_CLOSED)"
| "seg_next TCP_STATE_TIME_WAIT h c c' = synced_next TCP_STATE_TIME_WAIT h c TCP_STATE_TIME_WAIT"
| "seg_next st h c c' = st"

lemma rel_stays: "tcb_rel tcb_stays t s s' \<Longrightarrow> t_state (tcps s' t) = t_state (tcps s t)"
  by (simp add: tcb_rel_def tcb_stays_def)

lemma abort_record:
  assumes "tcp_abort t err s = Some (s', e)"
  shows "tcps s' t = (tcps s t)\<lparr>t_state := TCP_STATE_CLOSED\<rparr>"
  using assms by (auto simp: tcp_abort_def bind_eq_Some_conv dest!: same_tcbs_wakeup)
    (simp add: same_tcbs_def tcp_set_state_def tcp_kill_all_timers_def)

lemma time_wait_record:
  assumes "tcp_time_wait t s = Some s'"
  shows "tcps s' t = (tcps s t)\<lparr>t_state := TCP_STATE_TIME_WAIT\<rparr>"
  using assms by (auto simp: tcp_time_wait_def Let_def bind_eq_Some_conv dest!: same_tcbs_wakeup same_tcbs_timer)
    (simp add: same_tcbs_def tcp_set_state_def tcp_kill_all_timers_def)

lemma set_state_record [simp]: "tcps (tcp_set_state t st s) t = (tcps s t)\<lparr>t_state := st\<rparr>"
  by (simp add: tcp_set_state_def)

lemma segments_record:
  "tcp_send_reset seg s = Some (s', e) \<Longrightarrow> tcps s' = tcps s" "tcp_send_ack u seg s = Some (s', e) \<Longrightarrow> tcps s' = tcps s"
  by (auto dest!: ip_keep_segments [THEN same_tcbs_ip] simp: same_tcbs_def)

lemma ack_process_err:
  assumes "tcp_ack_process t seg s = Some (s', e)" "read_tcp_hdr (sg_hdr seg) s = Some h"
  shows "net_err_neg e \<longleftrightarrow> ack_beyond h (tcps s t)"
  using assms by (auto simp: tcp_ack_process_def tcp_seq_le_def tcp_seq_lt_def ack_beyond_def bind_eq_Some_conv Let_def
      split: if_splits prod.splits)

lemma synced_in_next:
  assumes run: "tcp_synced_in t seg rest s = Some (s', e)" and h: "read_tcp_hdr (sg_hdr seg) s = Some h"
    and st: "t_state (tcps s t) = st"
    and rest: "\<And>s s' e. rest s = Some (s', e) \<Longrightarrow> t_state (tcps s t) = st \<Longrightarrow> t_state (tcps s' t) = nx (tcps s' t)"
  shows "t_state (tcps s' t) = synced_next st h (tcps s t) (nx (tcps s' t))"
proof (cases "f_rst h \<or> f_syn h")
  case True
  with run h have "t_state (tcps s' t) = TCP_STATE_CLOSED"
    by (auto simp: tcp_synced_in_def bind_eq_Some_conv split: if_splits dest!: abort_record)
  with True show ?thesis by (simp add: synced_next_def)
next
  case False
  with run h obtain s1 e1 where 1: "tcp_ack_process t seg s = Some (s1, e1)" and
    2: "if net_err_neg e1 then s' = s1 else rest s1 = Some (s', e)"
    by (auto simp: tcp_synced_in_def bind_eq_Some_conv split: if_splits)
  have "t_state (tcps s1 t) = st" using rel_stays [OF stays.tcb_ack_process [OF 1]] st by simp
  with 2 rest ack_process_err [OF 1 h] False show ?thesis by (auto simp: synced_next_def split: if_splits)
qed

lemmas stays_steps = stays.tcb_data_in [THEN rel_stays] stays.tcb_out_event [THEN rel_stays] segments_record

text \<open>Data and output, then a last step that may change the state.\<close>

lemma data_out_then:
  assumes "do { (s, _) \<leftarrow> tcp_data_in t seg s; s \<leftarrow> tcp_out_event t ev s; s \<leftarrow> fin s; Some (s, NET_OK) } = Some (s', e)"
  shows "\<exists>s1. t_state (tcps s1 t) = t_state (tcps s t) \<and> fin s1 = Some s'"
  using assms by (auto simp: bind_eq_Some_conv dest!: stays_steps)

lemma set_state_fix: "tcp_set_state t st s = s \<Longrightarrow> t_state (tcps s t) = st"
  by (drule arg_cong [where f = "\<lambda>s. t_state (tcps s t)"]) simp

lemma out_then:
  assumes "do { s \<leftarrow> tcp_out_event t ev s; s \<leftarrow> fin s; Some (s, NET_OK) } = Some (s', e)"
  shows "\<exists>s1. t_state (tcps s1 t) = t_state (tcps s t) \<and> fin s1 = Some s'"
  using assms by (auto simp: bind_eq_Some_conv dest!: stays_steps)

lemma data_then:
  assumes "do { (s, _) \<leftarrow> tcp_data_in t seg s; s \<leftarrow> fin s; Some (s, NET_OK) } = Some (s', e)"
  shows "\<exists>s1. t_state (tcps s1 t) = t_state (tcps s t) \<and> fin s1 = Some s'"
  using assms by (auto simp: bind_eq_Some_conv dest!: stays_steps)

text \<open>The last step of each handler, and the handler.\<close>

definition last_to :: "addr \<Rightarrow> ('a tcp_state_scheme \<Rightarrow> 'a tcp_state_scheme option) \<Rightarrow> tcp_state_t \<Rightarrow> (tcp_t \<Rightarrow> tcp_state_t) \<Rightarrow> bool" where
  "last_to t fin st nx \<longleftrightarrow> (\<forall>s s'. fin s = Some s' \<longrightarrow> t_state (tcps s t) = st \<longrightarrow> t_state (tcps s' t) = nx (tcps s' t))"

lemma last_toD: "last_to t fin st nx \<Longrightarrow> \<exists>s1. t_state (tcps s1 t) = st \<and> fin s1 = Some s' \<Longrightarrow> t_state (tcps s' t) = nx (tcps s' t)"
  unfolding last_to_def by blast

lemma fin_wait_1_last:
  "last_to t (\<lambda>s. if \<not> t_fin_out (tcps s t)
             then if t_fin_in (tcps s t) then tcp_time_wait t s else Some (tcp_set_state t TCP_STATE_FIN_WAIT_2 s)
             else if t_fin_in (tcps s t) then Some (tcp_set_state t TCP_STATE_CLOSING s) else Some s) TCP_STATE_FIN_WAIT_1
     (\<lambda>c. if t_fin_out c then if t_fin_in c then TCP_STATE_CLOSING else TCP_STATE_FIN_WAIT_1
        else if t_fin_in c then TCP_STATE_TIME_WAIT else TCP_STATE_FIN_WAIT_2)"
proof (unfold last_to_def, intro allI impI)
  fix s s' :: "'a tcp_state_scheme"
  assume "(if \<not> t_fin_out (tcps s t)
             then if t_fin_in (tcps s t) then tcp_time_wait t s else Some (tcp_set_state t TCP_STATE_FIN_WAIT_2 s)
             else if t_fin_in (tcps s t) then Some (tcp_set_state t TCP_STATE_CLOSING s) else Some s) = Some s'"
    "t_state (tcps s t) = TCP_STATE_FIN_WAIT_1"
  then show "t_state (tcps s' t) = (if t_fin_out (tcps s' t) then if t_fin_in (tcps s' t) then TCP_STATE_CLOSING else TCP_STATE_FIN_WAIT_1
        else if t_fin_in (tcps s' t) then TCP_STATE_TIME_WAIT else TCP_STATE_FIN_WAIT_2)"
    by (cases "t_fin_out (tcps s t)"; cases "t_fin_in (tcps s t)") (auto dest!: time_wait_record)
qed

lemma time_wait_last:
  "last_to t (\<lambda>s. if P (tcps s t) then tcp_time_wait t s else Some s) st (\<lambda>c. if P c then TCP_STATE_TIME_WAIT else st)"
  if "\<And>c. P (c\<lparr>t_state := TCP_STATE_TIME_WAIT\<rparr>) = P c"
proof (unfold last_to_def, intro allI impI)
  fix s s' :: "'a tcp_state_scheme"
  assume "(if P (tcps s t) then tcp_time_wait t s else Some s) = Some s'" "t_state (tcps s t) = st"
  then show "t_state (tcps s' t) = (if P (tcps s' t) then TCP_STATE_TIME_WAIT else st)"
    by (cases "P (tcps s t)") (auto simp: that dest!: time_wait_record)
qed

lemma closing_last:
  "last_to t (\<lambda>s. if \<not> t_fin_out (tcps s t) then tcp_time_wait t s else Some s) TCP_STATE_CLOSING
     (\<lambda>c. if t_fin_out c then TCP_STATE_CLOSING else TCP_STATE_TIME_WAIT)"
proof -
  have "(\<lambda>c. if t_fin_out c then TCP_STATE_CLOSING else TCP_STATE_TIME_WAIT) =
    (\<lambda>c. if \<not> t_fin_out c then TCP_STATE_TIME_WAIT else TCP_STATE_CLOSING)" by auto
  then show ?thesis by (rule ssubst) (rule time_wait_last [of "\<lambda>c. \<not> t_fin_out c"], simp)
qed

lemma time_wait_again:
  "last_to t (\<lambda>s. if t_fin_in (tcps s t) then do { (s, _) \<leftarrow> tcp_send_ack t seg s; tcp_time_wait t s } else Some s)
     TCP_STATE_TIME_WAIT (\<lambda>c. TCP_STATE_TIME_WAIT)"
  by (auto simp: last_to_def bind_eq_Some_conv split: if_split_asm dest!: time_wait_record)

lemma synced_handlers_next:
  assumes h: "read_tcp_hdr (sg_hdr seg) s = Some h"
  shows "tcp_established_in t seg s = Some (s', e) \<Longrightarrow> t_state (tcps s t) = TCP_STATE_ESTABLISHED \<Longrightarrow>
         t_state (tcps s' t) = seg_next TCP_STATE_ESTABLISHED h (tcps s t) (tcps s' t)"
    and "tcp_close_wait_in t seg s = Some (s', e) \<Longrightarrow> t_state (tcps s t) = TCP_STATE_CLOSE_WAIT \<Longrightarrow>
         t_state (tcps s' t) = seg_next TCP_STATE_CLOSE_WAIT h (tcps s t) (tcps s' t)"
    and "tcp_last_ack_in t seg s = Some (s', e) \<Longrightarrow> t_state (tcps s t) = TCP_STATE_LAST_ACK \<Longrightarrow>
         t_state (tcps s' t) = seg_next TCP_STATE_LAST_ACK h (tcps s t) (tcps s' t)"
proof -
  note nx = synced_in_next [OF _ h]
  note [simp] = bind_eq_Some_conv
  note [dest!] = stays_steps abort_record
  show "t_state (tcps s' t) = seg_next TCP_STATE_ESTABLISHED h (tcps s t) (tcps s' t)"
    if "tcp_established_in t seg s = Some (s', e)" "t_state (tcps s t) = TCP_STATE_ESTABLISHED"
    using that unfolding tcp_established_in_def seg_next.simps by (elim nx) (auto split: if_splits dest: set_state_fix)
  show "t_state (tcps s' t) = seg_next TCP_STATE_CLOSE_WAIT h (tcps s t) (tcps s' t)"
    if "tcp_close_wait_in t seg s = Some (s', e)" "t_state (tcps s t) = TCP_STATE_CLOSE_WAIT"
    using that unfolding tcp_close_wait_in_def seg_next.simps by (elim nx) (auto split: if_splits)
  show "t_state (tcps s' t) = seg_next TCP_STATE_LAST_ACK h (tcps s t) (tcps s' t)"
    if "tcp_last_ack_in t seg s = Some (s', e)" "t_state (tcps s t) = TCP_STATE_LAST_ACK"
    using that unfolding tcp_last_ack_in_def seg_next.simps by (elim nx) (auto split: if_splits)
qed

lemma closing_handlers_next:
  assumes h: "read_tcp_hdr (sg_hdr seg) s = Some h"
  shows "tcp_fin_wait_1_in t seg s = Some (s', e) \<Longrightarrow> t_state (tcps s t) = TCP_STATE_FIN_WAIT_1 \<Longrightarrow>
         t_state (tcps s' t) = seg_next TCP_STATE_FIN_WAIT_1 h (tcps s t) (tcps s' t)"
    and "tcp_fin_wait_2_in t seg s = Some (s', e) \<Longrightarrow> t_state (tcps s t) = TCP_STATE_FIN_WAIT_2 \<Longrightarrow>
         t_state (tcps s' t) = seg_next TCP_STATE_FIN_WAIT_2 h (tcps s t) (tcps s' t)"
    and "tcp_closing_in t seg s = Some (s', e) \<Longrightarrow> t_state (tcps s t) = TCP_STATE_CLOSING \<Longrightarrow>
         t_state (tcps s' t) = seg_next TCP_STATE_CLOSING h (tcps s t) (tcps s' t)"
    and "tcp_time_wait_in t seg s = Some (s', e) \<Longrightarrow> t_state (tcps s t) = TCP_STATE_TIME_WAIT \<Longrightarrow>
         t_state (tcps s' t) = seg_next TCP_STATE_TIME_WAIT h (tcps s t) (tcps s' t)"
proof -
  note nx = synced_in_next [OF _ h]
  show "t_state (tcps s' t) = seg_next TCP_STATE_FIN_WAIT_1 h (tcps s t) (tcps s' t)"
    if "tcp_fin_wait_1_in t seg s = Some (s', e)" and st: "t_state (tcps s t) = TCP_STATE_FIN_WAIT_1"
    unfolding seg_next.simps by (rule nx [OF that(1) [unfolded tcp_fin_wait_1_in_def] st])
      (drule data_out_then, drule (1) subst, erule last_toD [OF fin_wait_1_last])
  show "t_state (tcps s' t) = seg_next TCP_STATE_FIN_WAIT_2 h (tcps s t) (tcps s' t)"
    if "tcp_fin_wait_2_in t seg s = Some (s', e)" and st: "t_state (tcps s t) = TCP_STATE_FIN_WAIT_2"
    unfolding seg_next.simps by (rule nx [OF that(1) [unfolded tcp_fin_wait_2_in_def] st])
      (rule last_toD [OF time_wait_last], simp, drule data_out_then, simp)
  show "t_state (tcps s' t) = seg_next TCP_STATE_CLOSING h (tcps s t) (tcps s' t)"
    if "tcp_closing_in t seg s = Some (s', e)" and st: "t_state (tcps s t) = TCP_STATE_CLOSING"
    unfolding seg_next.simps by (rule nx [OF that(1) [unfolded tcp_closing_in_def] st])
      (drule out_then, drule (1) subst, erule last_toD [OF closing_last])
  show "t_state (tcps s' t) = seg_next TCP_STATE_TIME_WAIT h (tcps s t) (tcps s' t)"
    if "tcp_time_wait_in t seg s = Some (s', e)" and st: "t_state (tcps s t) = TCP_STATE_TIME_WAIT"
    unfolding seg_next.simps by (rule nx [OF that(1) [unfolded tcp_time_wait_in_def] st])
      (drule data_then, drule (1) subst, erule last_toD [OF time_wait_again])
qed

lemma syn_recvd_next:
  assumes h: "read_tcp_hdr (sg_hdr seg) s = Some h" and run: "tcp_syn_recvd_in t seg s = Some (s', e)"
    and st: "t_state (tcps s t) = TCP_STATE_SYN_RECVD"
  shows "t_state (tcps s' t) = seg_next TCP_STATE_SYN_RECVD h (tcps s t) (tcps s' t)"
proof (cases "f_rst h \<or> f_syn h")
  case True
  with h run have "t_state (tcps s' t) = TCP_STATE_CLOSED"
    by (auto simp: tcp_syn_recvd_in_def bind_eq_Some_conv split: if_splits dest!: abort_record)
  with True show ?thesis by (simp add: synced_next_def)
next
  case False
  with h run obtain s1 e1 where 1: "tcp_ack_process t seg s = Some (s1, e1)" and
    2: "net_err_neg e1 \<longrightarrow> s' = s1" "\<not> net_err_neg e1 \<longrightarrow> t_state (tcps s' t) = (if f_fin h then TCP_STATE_CLOSE_WAIT else TCP_STATE_ESTABLISHED)"
    by (auto simp: tcp_syn_recvd_in_def bind_eq_Some_conv Let_def wake_parent_def split: if_splits option.splits
        dest!: stays.tcb_out_event [THEN rel_stays] stays.tcb_keepalive_start [THEN rel_stays] same_tcbs_wakeup) (simp_all add: same_tcbs_def)
  have "t_state (tcps s1 t) = TCP_STATE_SYN_RECVD" using rel_stays [OF stays.tcb_ack_process [OF 1]] st by simp
  with 2 False ack_process_err [OF 1 h] show ?thesis by (auto simp: synced_next_def)
qed

lemma set_ostate_una: "tcp_set_ostate t st s = Some s' \<Longrightarrow> t_snd_una (tcps s' t) = t_snd_una (tcps s t) \<and> t_snd_iss (tcps s' t) = t_snd_iss (tcps s t)"
  by (auto simp: tcp_set_ostate_def Let_def bind_eq_Some_conv split: if_splits dest!: net_timer_add_tcp(1))

lemma sent_una: "sent t s s' \<Longrightarrow> t_snd_una (tcps s' t) = t_snd_una (tcps s t) \<and> t_snd_iss (tcps s' t) = t_snd_iss (tcps s t)"
  unfolding sent_def by (elim conjE) (erule ssubst, simp)

lemma out_event_una: "tcp_out_event t ev s = Some s' \<Longrightarrow> t_snd_una (tcps s' t) = t_snd_una (tcps s t) \<and> t_snd_iss (tcps s' t) = t_snd_iss (tcps s t)"
  by (auto simp: tcp_out_event_def tcp_ostate_idle_in_def tcp_ostate_sending_in_def tcp_ostate_rexmit_in_def Let_def bind_eq_Some_conv
      split: tcp_ostate_t.splits if_splits dest!: set_ostate_una sent_transmit [THEN sent_una] sent_retransmit [THEN sent_una])

lemma send_syn_una:
  assumes "tcp_send_syn t s = Some (s', e)"
  shows "t_snd_una (tcps s' t) = t_snd_una (tcps s t) \<and> t_snd_iss (tcps s' t) = t_snd_iss (tcps s t) \<and> t_state (tcps s' t) = t_state (tcps s t)"
  using assms rel_stays [OF stays.tcb_send_syn [OF assms]] by (auto simp: tcp_send_syn_def bind_eq_Some_conv dest!: out_event_una)

lemma u32_diff_signs: "(a :: u32) - b \<le> 0 \<longleftrightarrow> a = b" "(a :: u32) - b > 0 \<longleftrightarrow> a \<noteq> b"
  by (auto simp: word_gt_0)

lemma syn_sent_next:
  assumes h: "read_tcp_hdr (sg_hdr seg) s = Some h" and run: "tcp_syn_sent_in t seg s = Some (s', e)"
    and st: "t_state (tcps s t) = TCP_STATE_SYN_SENT"
  shows "t_state (tcps s' t) = seg_next TCP_STATE_SYN_SENT h (tcps s t) (tcps s' t)"
proof -
  let ?odd = "f_ack h \<and> (th_ack h = t_snd_iss (tcps s t) \<or> th_ack h \<noteq> t_snd_nxt (tcps s t))"
  consider "?odd" | "\<not> ?odd" "f_rst h" | "\<not> ?odd" "\<not> f_rst h" "\<not> f_syn h" | "\<not> ?odd" "\<not> f_rst h" "f_syn h" by blast
  then show ?thesis
  proof cases
    case 1
    with h run st show ?thesis by (auto simp: tcp_syn_sent_in_def u32_diff_signs dest!: segments_record)
  next
    case 2
    with h run st show ?thesis
      by (auto simp: tcp_syn_sent_in_def u32_diff_signs split: if_splits dest!: abort_record)
  next
    case 3
    with h run st show ?thesis by (auto simp: tcp_syn_sent_in_def u32_diff_signs)
  next
    case 4
    from 4 h run obtain s3 where
      a: "t_snd_una (tcps s3 t) \<noteq> t_snd_iss (tcps s3 t) \<longrightarrow> (\<exists>s4 e4 s5. tcp_send_ack t seg s3 = Some (s4, e4) \<and>
         tcp_out_event t TCP_OEVENT_SEND s4 = Some s5 \<and>
         sock_wakeup (Tcp_sock t) {Conn_wait} NET_OK (tcp_set_state t TCP_STATE_ESTABLISHED s5) = Some s')" and
      b: "t_snd_una (tcps s3 t) = t_snd_iss (tcps s3 t) \<longrightarrow> (\<exists>e4. tcp_send_syn t (tcp_set_state t TCP_STATE_SYN_RECVD s3) = Some (s', e4))"
      by (auto simp: tcp_syn_sent_in_def u32_diff_signs bind_eq_Some_conv Let_def simp del: upd_tcp_simps split: if_splits)
    show ?thesis
    proof (cases "t_snd_una (tcps s3 t) = t_snd_iss (tcps s3 t)")
      case True
      with b 4 show ?thesis by (auto dest!: send_syn_una)
    next
      case False
      with a 4 show ?thesis by (auto simp: same_tcbs_def dest!: segments_record out_event_una same_tcbs_wakeup)
    qed
  qed
qed

section \<open>Passive opening\<close>

text \<open>A record that can be taken for a new connection: a free one or, when there is none, one in TIME-WAIT.\<close>

definition takes :: "'a tcp_state_scheme \<Rightarrow> addr \<Rightarrow> bool" where
  "takes s v \<longleftrightarrow> v \<in> set (tcp_mblock s) \<or> t_state (tcps s v) = TCP_STATE_TIME_WAIT"

definition only_at :: "addr \<Rightarrow> 'a tcp_state_scheme \<Rightarrow> 'a tcp_state_scheme \<Rightarrow> bool" where
  "only_at v s s' \<longleftrightarrow> (\<forall>u. u \<noteq> v \<longrightarrow> tcps s' u = tcps s u)"

lemma only_at_trans: "only_at v s s1 \<Longrightarrow> only_at v s1 s2 \<Longrightarrow> only_at v s s2"
  by (simp add: only_at_def)

lemma only_at_rel: "tcb_rel Q v s s' \<Longrightarrow> only_at v s s'" "same_tcbs s s' \<Longrightarrow> only_at v s s'"
  by (simp_all add: tcb_rel_def only_at_def same_tcbs_def)

lemma only_at_upd [simp]:
  "only_at v s (upd_tcp v f s1) = only_at v s s1" "only_at v (upd_tcp v f s) s1 = only_at v s s1"
  "only_at v s (tcp_set_state v st s1) = only_at v s s1" "only_at v s (s1\<lparr>tcp_mblock := l\<rparr>) = only_at v s s1"
  "only_at v s (s1\<lparr>tcp_list := l\<rparr>) = only_at v s s1" "only_at v s (upd_sock a g s1) = only_at v s s1" "only_at v s s"
  "only_at v (s\<lparr>tcp_mblock := l\<rparr>) s1 = only_at v s s1" "only_at v (upd_sock a g s) s1 = only_at v s s1"
  by (auto simp: only_at_def tcp_set_state_def)

lemma free_takes: "tcp_free t s = Some s' \<Longrightarrow> only_at t s s'"
  by (auto simp: tcp_free_def Let_def bind_eq_Some_conv split: if_splits dest!: same_tcbs_destroy only_at_rel(2)) (auto intro: only_at_trans)

lemma free_mblock: "tcp_free t s = Some s' \<Longrightarrow> tcp_mblock s' = tcp_mblock s @ [t]"
  by (auto simp: tcp_free_def Let_def bind_eq_Some_conv pool_free_def tcp_set_state_def split: if_splits dest!: same_tcbs_destroy)
    (simp add: same_tcbs_def)

lemma get_free_takes:
  assumes "tcp_get_free s = Some (s', Some v)"
  shows "takes s v \<and> only_at v s s'"
proof (cases "tcp_mblock s")
  case Nil
  with assms obtain t s1 where t: "find (\<lambda>t. t_state (tcps s t) = TCP_STATE_TIME_WAIT) (tcp_list s) = Some t"
    and 1: "tcp_free t (s\<lparr>tcp_mblock := []\<rparr>) = Some s1" and 2: "pool_alloc (tcp_mblock s1) = (tcp_mblock s', Some v)"
    and s': "s' = s1\<lparr>tcp_mblock := tcp_mblock s'\<rparr>"
    by (auto simp: tcp_get_free_def bind_eq_Some_conv Let_def case_prod_unfold prod_eq_iff split: option.splits)
  have "tcp_mblock s1 = [t]" using free_mblock [OF 1] by simp
  with 2 have "v = t" by simp
  have "only_at t s s1" using free_takes [OF 1] by simp
  then have "only_at v s s'" by (subst s') (simp add: \<open>v = t\<close>)
  moreover have "takes s t" using t by (auto simp: takes_def find_Some_iff)
  ultimately show ?thesis using \<open>v = t\<close> by simp
next
  case Cons
  with assms show ?thesis by (auto simp: tcp_get_free_def takes_def)
qed

lemma get_free_none:
  assumes "tcp_get_free s = Some (s', None)"
  shows "tcps s' = tcps s"
  using assms free_mblock
  by (cases "tcp_mblock s") (fastforce simp: tcp_get_free_def bind_eq_Some_conv Let_def case_prod_unfold split: option.splits)+

lemma alloc_takes:
  assumes run: "tcp_alloc family protocol s = Some (s', r)"
  shows "tcps s' = tcps s \<and> r = None \<or> (\<exists>v. takes s v \<and> only_at v s s' \<and> (r = None \<or> r = Some v))"
proof -
  from run obtain s1 r1 where 1: "tcp_get_free s = Some (s1, r1)" by (auto simp: tcp_alloc_def bind_eq_Some_conv)
  show ?thesis
  proof (cases r1)
    case None
    with run 1 show ?thesis by (auto simp: tcp_alloc_def dest!: get_free_none)
  next
    case (Some v)
    note k = get_free_takes [OF 1 [unfolded Some]]
    have "only_at v s1 s' \<and> (r = None \<or> r = Some v)"
      using run 1 Some by (auto simp: tcp_alloc_def sock_init_def Let_def bind_eq_Some_conv destroy_if_def split: if_splits prod.splits option.splits
          dest!: same_tcbs_init_waits only_at_rel(2) [where v = v] same_tcbs_destroy) (auto intro: only_at_trans)
    with k show ?thesis by (blast intro: only_at_trans)
  qed
qed

lemma create_child_takes:
  assumes run: "tcp_create_child p seg s = Some (s', r)"
  shows "tcps s' = tcps s \<and> r = None \<or> (\<exists>v. takes s v \<and> only_at v s s' \<and>
    (r = None \<or> r = Some v \<and> t_parent (tcps s' v) = Some p \<and> t_inactive (tcps s' v)))"
proof -
  let ?k = "socks s (Tcp_sock p)"
  from run obtain s1 r1 where 1: "tcp_alloc (so_family ?k) (so_protocol ?k) s = Some (s1, r1)"
    by (auto simp: tcp_create_child_def Let_def bind_eq_Some_conv)
  note k1 = alloc_takes [OF 1]
  show ?thesis
  proof (cases r1)
    case None
    with run 1 k1 show ?thesis by (auto simp: tcp_create_child_def)
  next
    case (Some v)
    let ?f = "\<lambda>c. c\<lparr>t_parent := Some p, t_irs_valid := True, t_inactive := True, t_backlog := 0\<rparr>"
    let ?g = "\<lambda>c. c\<lparr>t_rcv_iss := sg_seq seg, t_rcv_nxt := sg_seq seg + 1\<rparr>"
    from run 1 Some obtain h s3 s4 where
      3: "s3 = fst (tcp_init_connect v (upd_tcp v ?f (upd_sock (Tcp_sock v) h s1)))" and
      4: "tcp_read_options v (sg_hdr seg) (upd_tcp v ?g s3) = Some s4" and 5: "tcp_insert v s4 = Some s'" and r: "r = Some v"
      by (auto simp: tcp_create_child_def Let_def bind_eq_Some_conv case_prod_unfold simp del: upd_tcp_simps)
    have i: "only_at v s1 s3" "t_parent (tcps s3 v) = Some p" "t_inactive (tcps s3 v)"
      by (simp_all add: 3 tcp_init_connect_def tcp_get_iss_def only_at_def Let_def)
    note k4 = stays.tcb_read_options [OF 4]
    have "only_at v s3 s4" "t_parent (tcps s4 v) = Some p \<and> t_inactive (tcps s4 v)"
      using only_at_rel(1) [OF k4] k4 i by (simp_all add: tcb_rel_def tcb_stays_def)
    moreover have "tcps s' = tcps s4" using 5 by (auto simp: tcp_insert_def Let_def split: if_splits)
    ultimately have "only_at v s s'" "t_parent (tcps s' v) = Some p \<and> t_inactive (tcps s' v)"
      using i(1) k1 Some by (auto simp: only_at_def)
    with k1 Some r show ?thesis by auto
  qed
qed

definition opens_child :: "addr \<Rightarrow> 'a tcp_state_scheme \<Rightarrow> 'a tcp_state_scheme \<Rightarrow> net_err_t \<Rightarrow> bool" where
  "opens_child t s s' e \<longleftrightarrow> tcps s' = tcps s \<or> (\<exists>v. takes s v \<and> only_at v s s' \<and>
     (e = NET_ERR_MEM \<or> t_state (tcps s' v) = TCP_STATE_SYN_RECVD \<and> t_parent (tcps s' v) = Some t \<and> t_inactive (tcps s' v)))"

lemma listen_opens:
  assumes run: "tcp_listen_in t seg s = Some (s', e)"
  shows "opens_child t s s' e"
proof (cases "tcps s' = tcps s")
  case False
  with run obtain s1 r where 1: "tcp_create_child t seg s = Some (s1, r)" and
    2: "r = None \<longrightarrow> s' = s1 \<and> e = NET_ERR_MEM"
      "\<forall>v. r = Some v \<longrightarrow> (\<exists>s2 e2. tcp_send_syn v s1 = Some (s2, e2) \<and> s' = tcp_set_state v TCP_STATE_SYN_RECVD s2)"
    by (auto simp: tcp_listen_in_def bind_eq_Some_conv split: if_splits option.splits dest!: segments_record)
  note k1 = create_child_takes [OF 1]
  show ?thesis
  proof (cases r)
    case None
    with 2 k1 show ?thesis by (auto simp: opens_child_def)
  next
    case (Some v)
    with 2 obtain s2 e2 where 3: "tcp_send_syn v s1 = Some (s2, e2)" and s': "s' = tcp_set_state v TCP_STATE_SYN_RECVD s2" by blast
    note k = stays.tcb_send_syn [OF 3]
    from k1 Some have t: "takes s v" "only_at v s s1" "t_parent (tcps s1 v) = Some t" "t_inactive (tcps s1 v)" by auto
    then have "only_at v s s'" using only_at_rel(1) [OF k] by (auto simp: s' intro: only_at_trans)
    moreover have "t_state (tcps s' v) = TCP_STATE_SYN_RECVD" "t_parent (tcps s' v) = Some t" "t_inactive (tcps s' v)"
      using k t by (simp_all add: s' tcb_rel_def tcb_stays_def)
    ultimately show ?thesis using t(1) by (auto simp: opens_child_def)
  qed
qed (simp add: opens_child_def)

section \<open>The properties\<close>

lemma sg_in_listen_same: "opens_child t s s' e \<Longrightarrow> \<not> takes s t \<Longrightarrow> tcps s' t = tcps s t"
  unfolding opens_child_def only_at_def by metis

text \<open>C2. The state of a connection after a segment is exactly the one given by seg_next. A reset or a SYN closes every
  connection whose peer is known; an acknowledgement of something never sent leaves the state alone; otherwise the acknowledgement
  of our FIN (the flag fin_out cleared by the acknowledgement) and the FIN of the peer (the flag fin_in set by the data) lead from
  ESTABLISHED to CLOSE-WAIT, from FIN-WAIT-1 to FIN-WAIT-2, CLOSING or TIME-WAIT, from FIN-WAIT-2 and CLOSING to TIME-WAIT and from
  LAST-ACK to CLOSED, and without them the connection stays. In SYN-SENT an acknowledgement that is
  not of everything sent is ignored; otherwise an acknowledging reset closes, and a SYN leads to ESTABLISHED when the unacknowledged
  number has left the initial one and to SYN-RECEIVED when it has not. From SYN-RECEIVED every other segment, with or without an acknowledgement of our SYN, leads to ESTABLISHED, or
  with a FIN to CLOSE-WAIT. No other connection changes, except that a listening socket may take one free record (or one in
  TIME-WAIT) for a child that is left in SYN-RECEIVED, waiting to be accepted, with the listening socket as its parent.\<close>

theorem tcp_segment_transitions:
  assumes "tcp_state_proc (t_state (tcps s t)) t seg s = Some (s', e)" "read_tcp_hdr (sg_hdr seg) s = Some h"
    "t \<notin> set (tcp_mblock s)"
  shows "t_state (tcps s' t) = seg_next (t_state (tcps s t)) h (tcps s t) (tcps s' t) \<and>
    (if t_state (tcps s t) = TCP_STATE_LISTEN then opens_child t s s' e else \<forall>u. u \<noteq> t \<longrightarrow> tcps s' u = tcps s u)"
proof (cases "t_state (tcps s t) = TCP_STATE_LISTEN")
  case True
  with assms(1) have "opens_child t s s' e" by (auto simp: tcp_state_proc_def intro: listen_opens)
  moreover have "\<not> takes s t" using assms(3) True by (simp add: takes_def)
  ultimately show ?thesis using True sg_in_listen_same [of t s s' e] by auto
next
  case False
  then have "\<forall>u. u \<noteq> t \<longrightarrow> tcps s' u = tcps s u" using wf.tcb_state_proc [OF assms(1)] by (simp add: tcb_rel_def)
  moreover have "t_state (tcps s' t) = seg_next (t_state (tcps s t)) h (tcps s t) (tcps s' t)"
  proof (cases "t_state (tcps s t) = TCP_STATE_CLOSED \<or> t_state (tcps s t) = TCP_STATE_FREE")
    case True
    with assms(1) show ?thesis
      by (auto simp: tcp_state_proc_def tcp_closed_in_def bind_eq_Some_conv split: if_splits dest!: segments_record)
  next
    case _: False
    note n = synced_handlers_next [OF assms(2)] closing_handlers_next [OF assms(2)] syn_recvd_next [OF assms(2)] syn_sent_next [OF assms(2)]
    show ?thesis
      using assms(1) False \<open>\<not> (t_state (tcps s t) = TCP_STATE_CLOSED \<or> t_state (tcps s t) = TCP_STATE_FREE)\<close>
      by (cases "t_state (tcps s t)") (simp_all add: tcp_state_proc_def n del: seg_next.simps)
  qed
  ultimately show ?thesis using False by simp
qed

text \<open>A state in which every connection has the record \<open>c\<close> and every page starts with the bytes \<open>bs\<close>.\<close>

definition hdr_sample :: "u8 list \<Rightarrow> tcp_t \<Rightarrow> tcp_state" where
  "hdr_sample bs c = (with_tcp (\<lambda>_. c) [0] (with_ipv4 (with_arp (with_netifs zero_buffer))))
     \<lparr>pages := \<lambda>_. \<lparr>pg_size = int (length bs), pg_data = 0, pg_payload = bs\<rparr>, timer_list := [], wait_list := []\<rparr>"

definition sample_seg :: tcp_seg_t where
  "sample_seg = \<lparr>sg_local_ip = 0x026EA8C0, sg_remote_ip = 0x036EA8C0, sg_hdr = (0, 0), sg_buf = 0, sg_data_len = 0, sg_seq = 0, sg_seq_len = 0\<rparr>"

lemma hdr_sample_simps [simp]:
  "tcps (hdr_sample bs c) u = c" "tcp_mblock (hdr_sample bs c) = [1..<50]"
  "waits (hdr_sample bs c) w = \<lparr>w_err = NET_OK, w_waiting = 0, w_sem = Sem 0\<rparr>" "socks (hdr_sample bs c) = sample_sock"
  "timer_list (hdr_sample bs c) = []" "wait_list (hdr_sample bs c) = []" "pages (hdr_sample bs c) g = \<lparr>pg_size = int (length bs), pg_data = 0, pg_payload = bs\<rparr>"
  by (simp_all add: hdr_sample_def del: upt_rec_numeral)

lemma hdr_sample_hdr: "20 \<le> length bs \<Longrightarrow> read_tcp_hdr (0, 0) (hdr_sample bs c) = Some (tcp_hdr_of (take 20 bs))"
  by (simp add: read_tcp_hdr_def mem_read_def page_read_def)

lemma sample_wakeup [simp]:
  "\<exists>s'. sock_wakeup a kinds err (hdr_sample bs c) = Some s'"
  by (auto simp: sock_wakeup_def wake_one_def sock_wait_leave_def sample_sock_def)

abbreviation rst_sample :: tcp_state where
  "rst_sample \<equiv> hdr_sample [0, 0, 0, 0, 0, 0, 0, 0, 0, 0, 0, 0, 0x50, 4, 0, 0, 0, 0, 0, 0] (zero_tcp\<lparr>t_state := TCP_STATE_ESTABLISHED\<rparr>)"

lemma rst_hdr: "\<exists>h. read_tcp_hdr (0, 0) rst_sample = Some h \<and> f_rst h"
proof -
  have "bit (le16 0x50 4) 10" by (simp add: le16_def bit_simps)
  then show ?thesis by (simp add: hdr_sample_hdr tcp_hdr_of_def f_rst_def)
qed

theorem tcp_segment_transitions_witness:
  "\<exists>s' h. tcp_state_proc TCP_STATE_ESTABLISHED 0 sample_seg rst_sample = Some (s', NET_OK) \<and>
     read_tcp_hdr (sg_hdr sample_seg) rst_sample = Some h \<and> f_rst h \<and>
     t_state (tcps s' 0) = TCP_STATE_CLOSED \<and> (\<forall>u. u \<noteq> 0 \<longrightarrow> tcps s' u = tcps rst_sample u)"
proof -
  obtain h where h: "read_tcp_hdr (sg_hdr sample_seg) rst_sample = Some h" "f_rst h"
    using rst_hdr by (auto simp: sample_seg_def)
  obtain s' where run: "tcp_state_proc TCP_STATE_ESTABLISHED 0 sample_seg rst_sample = Some (s', NET_OK)"
    using h
    by (auto simp: tcp_state_proc_def tcp_established_in_def tcp_synced_in_def tcp_abort_def sock_wakeup_def wake_one_def sock_wait_leave_def
        tcp_set_state_def tcp_kill_all_timers_def net_timer_remove_def sample_sock_def upd_tcp_def upd_sock_def)
  show ?thesis using tcp_segment_transitions [of rst_sample 0 sample_seg s' NET_OK h] run h
    by (auto simp: synced_next_def simp del: upt_rec_numeral)
qed

end
