(* ===== verification/Net_Tcp_Data.thy ===== *)
theory Net_Tcp_Data
  imports Net_Tcp_Machine
begin

text \<open>
  The streams of a connection: which bytes an acknowledgement removes from the send buffer,
  which bytes a segment adds to the receive buffer, how the retransmission timer backs
  off and gives up, and which timers the callbacks touch.
\<close>

section \<open>Sequence numbers\<close>

lemma sint_fits: "fits_int k \<Longrightarrow> sint (word_of_int k :: u32) = k"
  by (simp add: fits_int_def sint_sbintrunc' signed_take_bit_int_eq_self)

lemma sint_diff:
  fixes a b :: u32
  assumes "fits_int (sint a - sint b)"
  shows "sint (a - b) = sint a - sint b"
proof -
  have "a - b = word_of_int (sint a - sint b)" by (simp add: of_int_diff)
  then show ?thesis by (simp only: sint_fits [OF assms])
qed

lemma uint_of_sint: "uint (w :: u32) = (if 0 \<le> sint w then sint w else sint w + 2 ^ 32)"
proof -
  have b: "- (2 ^ 31) \<le> sint w" "sint w < 2 ^ 31" using sint_ge [of w] sint_lt [of w] by simp_all
  have m: "uint w = sint w mod 2 ^ 32" by (simp add: uint_sint take_bit_eq_mod)
  show ?thesis
  proof (cases "0 \<le> sint w")
    case False
    have "sint w mod 2 ^ 32 = (sint w + 2 ^ 32) mod 2 ^ 32" by simp
    also have "\<dots> = sint w + 2 ^ 32" using b False by (intro mod_pos_pos_trivial) simp_all
    finally show ?thesis using m False by simp
  qed (use m b in simp)
qed

lemma u32_of_int_eq_0: "0 \<le> n \<Longrightarrow> n < 2 ^ 32 \<Longrightarrow> (word_of_int n :: u32) = 0 \<longleftrightarrow> n = 0"
  using word_of_int_eq_iff [where 'a = 32, of n 0] by (simp add: take_bit_int_eq_self)

lemma seq_between_window:
  assumes run: "tcp_seq_between lo x (lo + w - 1) = Some v" and w: "0 < uint w" "uint w < 2 ^ 16"
  shows "v \<longleftrightarrow> uint (x - lo) < uint w"
proof -
  let ?d = "sint (x - lo)"
  from run have f: "fits_int (sint lo - sint x)" by (auto simp: tcp_seq_between_def tcp_seq_le_def split: if_splits)
  have d: "sint (lo - x) = sint lo - sint x" by (rule sint_diff [OF f])
  consider "sint x < sint lo" | "sint lo \<le> sint x" "sint x - sint lo < 2 ^ 31" | "sint x - sint lo = 2 ^ 31"
    using f by (force simp: fits_int_def)
  then show ?thesis
  proof cases
    case 2
    note True = 2(1)
    have "fits_int (sint x - sint lo)" using 2 by (simp add: fits_int_def)
    then have d: "?d = sint x - sint lo" by (rule sint_diff)
    from run True f have r: "fits_int (sint x - sint (lo + w - 1))" "v \<longleftrightarrow> sint x \<le> sint (lo + w - 1)"
      by (auto simp: tcp_seq_between_def tcp_seq_le_def split: if_splits)
    have "x - (lo + w - 1) = word_of_int (?d + 1 - uint w)" by (simp add: of_int_diff)
    moreover have "fits_int (?d + 1 - uint w)" using True d w sint_lt [of "x - lo"] by (simp add: fits_int_def)
    ultimately have "sint (x - (lo + w - 1)) = ?d + 1 - uint w" by (simp only: sint_fits)
    then have "sint x - sint (lo + w - 1) = ?d + 1 - uint w" using sint_diff [OF r(1)] by simp
    with r(2) True d show ?thesis by (auto simp: uint_of_sint [of "x - lo"])
  next
    case 3
    have lt: "sint x < 2 ^ 31" using sint_lt [of x] by simp
    have "lo + w - 1 = word_of_int (sint lo + uint w - 1)" by (simp add: of_int_diff)
    moreover have "fits_int (sint lo + uint w - 1)" using 3 lt w sint_ge [of lo] by (simp add: fits_int_def)
    ultimately have "sint (lo + w - 1) = sint lo + uint w - 1" by (simp only: sint_fits)
    then have "\<not> v" using run 3 w by (auto simp: tcp_seq_between_def tcp_seq_le_def split: if_splits)
    moreover have "x - lo = word_of_int (sint x - sint lo)" by (simp add: of_int_diff)
    then have "uint (x - lo) = 2 ^ 31" unfolding 3 by simp
    ultimately show ?thesis using w by simp
  next
    case 1
    with run have "\<not> v" by (auto simp: tcp_seq_between_def tcp_seq_le_def split: if_splits)
    have "0 < sint (lo - x)" using d 1 by simp
    moreover have "x - lo = word_of_int (- sint (lo - x))" by simp
    moreover have "fits_int (- sint (lo - x))" using \<open>0 < sint (lo - x)\<close> sint_lt [of "lo - x"] by (simp add: fits_int_def)
    ultimately have "sint (x - lo) = - sint (lo - x)" by (simp only: sint_fits)
    then have "uint (x - lo) = 2 ^ 32 - sint (lo - x)" using \<open>0 < sint (lo - x)\<close> uint_of_sint [of "x - lo"] by simp
    with \<open>\<not> v\<close> show ?thesis using w sint_lt [of "lo - x"] by simp
  qed
qed

text \<open>C9. The acceptance test is the window test of RFC 793 on sequence numbers modulo two to the 32, whenever its signed
  comparisons are defined: with an empty segment the sequence number, otherwise the first or the last number of the
  segment must lie in the window that starts at the expected number; with a closed window only an empty segment with
  exactly the expected number is accepted.\<close>

theorem tcp_seq_acceptable_rfc793:
  assumes "tcp_seq_acceptable c seg = Some r" "0 \<le> tcp_rcv_window c" "tcp_rcv_window c \<le> int TCP_RBUF_SIZE"
  shows "r \<longleftrightarrow> (let within = (\<lambda>x. uint (x - t_rcv_nxt c) < tcp_rcv_window c)
    in if tcp_rcv_window c = 0 then sg_seq_len seg = 0 \<and> sg_seq seg = t_rcv_nxt c
       else within (sg_seq seg) \<or> sg_seq_len seg \<noteq> 0 \<and> within (sg_seq seg + sg_seq_len seg - 1))"
proof -
  let ?w = "of_int (tcp_rcv_window c) :: u32"
  have w: "uint ?w = tcp_rcv_window c" using assms(2,3) by (simp add: unsigned_of_int take_bit_int_eq_self)
  have z: "?w = 0 \<longleftrightarrow> tcp_rcv_window c = 0" using assms(2,3) by (intro u32_of_int_eq_0) simp_all
  show ?thesis
  proof (cases "tcp_rcv_window c = 0")
    case True
    with assms(1) show ?thesis by (auto simp: tcp_seq_acceptable_def Let_def split: if_splits)
  next
    case False
    then have b: "0 < uint ?w" "uint ?w < 2 ^ 16" using w assms(2,3) by simp_all
    note win = seq_between_window [OF _ b, of "t_rcv_nxt c", unfolded w]
    from assms(1) z False obtain v where v: "tcp_seq_between (t_rcv_nxt c) (sg_seq seg) (t_rcv_nxt c + ?w - 1) = Some v"
      and r: "if sg_seq_len seg = 0 then r = v
        else (\<exists>u. tcp_seq_between (t_rcv_nxt c) (sg_seq seg + sg_seq_len seg - 1) (t_rcv_nxt c + ?w - 1) = Some u \<and> r = (v \<or> u))"
      by (auto simp: tcp_seq_acceptable_def Let_def bind_eq_Some_conv split: if_splits)
    from r win [OF v] win False show ?thesis by (auto simp: Let_def split: if_splits)
  qed
qed

theorem tcp_seq_acceptable_rfc793_witness:
  "tcp_seq_acceptable (zero_tcp\<lparr>t_rcv_buf := tcp_buf_init [0, 0, 0, 0] 4, t_rcv_nxt := 0xFFFFFFFE\<rparr>)
     \<lparr>sg_local_ip = 0, sg_remote_ip = 0, sg_hdr = (0, 0), sg_buf = 0, sg_data_len = 2, sg_seq = 1, sg_seq_len = 2\<rparr> = Some True \<and>
   (let c = zero_tcp\<lparr>t_rcv_buf := tcp_buf_init [0, 0, 0, 0] 4, t_rcv_nxt := 0xFFFFFFFE\<rparr> in uint (1 - t_rcv_nxt c) < tcp_rcv_window c)"
proof -
  let ?c = "zero_tcp\<lparr>t_rcv_buf := tcp_buf_init [0, 0, 0, 0] 4, t_rcv_nxt := 0xFFFFFFFE\<rparr>"
  let ?seg = "\<lparr>sg_local_ip = 0, sg_remote_ip = 0, sg_hdr = (0, 0), sg_buf = 0, sg_data_len = 2, sg_seq = 1, sg_seq_len = 2\<rparr> :: tcp_seg_t"
  have "tcp_seq_acceptable ?c ?seg = Some True"
    by (simp add: tcp_seq_acceptable_def tcp_rcv_window_def tcp_buf_free_cnt_def tcp_buf_init_def tcp_seq_between_def tcp_seq_le_def fits_int_def)
  with tcp_seq_acceptable_rfc793 [of ?c ?seg True] show ?thesis
    by (auto simp: tcp_rcv_window_def tcp_buf_free_cnt_def tcp_buf_init_def)
qed

section \<open>Acknowledgements\<close>

lemma ack_window_stream:
  assumes ok: "tb_ok (t_snd_buf c)" and k: "0 < k" "k = sint (ack - t_snd_una c)" "k \<le> sint (t_snd_nxt c - t_snd_una c)"
  shows "t_snd_una (fst (ack_window ack c)) = ack \<and> \<not> t_syn_out (fst (ack_window ack c)) \<and>
    tb_seq (t_snd_buf (fst (ack_window ack c))) = drop (nat (k - of_bool (t_syn_out c))) (tb_seq (t_snd_buf c)) \<and>
    (t_fin_out (fst (ack_window ack c)) \<longleftrightarrow> t_fin_out c \<and> nat (k - of_bool (t_syn_out c)) \<le> length (tb_seq (t_snd_buf c)))"
proof -
  let ?u = "t_snd_una c + of_bool (t_syn_out c)" and ?n = "k - of_bool (t_syn_out c)"
  let ?m = "sint (t_snd_nxt c - t_snd_una c) - of_bool (t_syn_out c)"
  have e: "ack - ?u = word_of_int ?n" "t_snd_nxt c - ?u = word_of_int ?m" by (simp_all add: k(2) of_int_diff)
  have "fits_int ?n" "fits_int ?m"
    using k sint_lt [of "t_snd_nxt c - t_snd_una c"] by (auto simp: fits_int_def of_bool_def)
  then have n: "sint (ack - ?u) = ?n" "sint (t_snd_nxt c - ?u) = ?m" by (simp_all only: e sint_fits)
  have u: "?u + word_of_int ?n = ack" by (simp add: k(2) of_int_diff)
  obtain b m where r: "tcp_buf_remove (t_snd_buf c) ?n = (b, m)" by fastforce
  have "0 \<le> ?n" using k by simp
  then have m: "m = min ?n (tb_count (t_snd_buf c))" "tb_seq b = drop (nat ?n) (tb_seq (t_snd_buf c))"
    using tcp_buf_remove_ok [OF ok, of ?n] r by simp_all
  have z: "?n - m \<noteq> 0 \<longleftrightarrow> \<not> nat ?n \<le> length (tb_seq (t_snd_buf c))"
    using m(1) tb_seq_length [OF ok] \<open>0 \<le> ?n\<close> by (auto simp: min_def)
  show ?thesis
  proof (cases "0 < ?n")
    case True
    with n k r u m z show ?thesis by (auto simp: ack_window_def Let_def split: if_splits)
  next
    case False
    with \<open>0 \<le> ?n\<close> have z0: "?n = 0" by simp
    have "?u = ack" using u unfolding z0 by simp
    with False n k m z r show ?thesis by (auto simp: ack_window_def Let_def)
  qed
qed

lemma ack_process_record:
  assumes run: "tcp_ack_process t seg s = Some (s', e)" and h: "read_tcp_hdr (sg_hdr seg) s = Some h"
  shows "fits_int (sint (th_ack h) - sint (t_snd_una (tcps s t)))"
    and "sint (th_ack h) \<le> sint (t_snd_una (tcps s t)) \<Longrightarrow> tcps s' t = tcps s t \<and> e = NET_OK"
    and "sint (t_snd_una (tcps s t)) < sint (th_ack h) \<Longrightarrow> sint (t_snd_nxt (tcps s t)) < sint (th_ack h) \<Longrightarrow>
      tcps s' t = tcps s t \<and> e = NET_ERR_UNREACH"
    and "sint (t_snd_una (tcps s t)) < sint (th_ack h) \<Longrightarrow> sint (th_ack h) \<le> sint (t_snd_nxt (tcps s t)) \<Longrightarrow>
      tcps s' t = fst (ack_window (th_ack h) (tcps s t)) \<and> e = NET_OK"
proof -
  obtain c w where c: "ack_window (th_ack h) (tcps s t) = (c, w)" by fastforce
  note d = tcp_ack_process_def tcp_seq_le_def tcp_seq_lt_def bind_eq_Some_conv
  show "fits_int (sint (th_ack h) - sint (t_snd_una (tcps s t)))" using run h by (auto simp: d split: if_splits)
  show "sint (th_ack h) \<le> sint (t_snd_una (tcps s t)) \<Longrightarrow> tcps s' t = tcps s t \<and> e = NET_OK"
    using run h by (auto simp: d split: if_splits)
  show "sint (t_snd_una (tcps s t)) < sint (th_ack h) \<Longrightarrow> sint (t_snd_nxt (tcps s t)) < sint (th_ack h) \<Longrightarrow>
      tcps s' t = tcps s t \<and> e = NET_ERR_UNREACH"
    using run h by (auto simp: d split: if_splits)
  show "sint (t_snd_una (tcps s t)) < sint (th_ack h) \<Longrightarrow> sint (th_ack h) \<le> sint (t_snd_nxt (tcps s t)) \<Longrightarrow>
      tcps s' t = fst (ack_window (th_ack h) (tcps s t)) \<and> e = NET_OK"
    using run h c by (auto simp: d Let_def split: if_splits dest!: same_tcbs_wakeup) (simp add: same_tcbs_def)
qed

text \<open>C5. An acknowledgement removes exactly the acknowledged bytes.  When the number lies behind the first unacknowledged
  byte and not behind the last byte sent, that many bytes leave the front of the send stream (one less when it also
  acknowledges the SYN), the first unacknowledged byte becomes the acknowledged one, and our FIN counts as acknowledged
  exactly when the number goes beyond the data.  An old number changes nothing and a number that was never sent is
  refused with an error.\<close>

theorem tcp_ack_process_stream:
  assumes "tcp_ack_process t seg s = Some (s', e)" "read_tcp_hdr (sg_hdr seg) s = Some h" "tb_ok (t_snd_buf (tcps s t))"
    "fits_int (sint (t_snd_nxt (tcps s t)) - sint (t_snd_una (tcps s t)))"
  shows "let c = tcps s t; c' = tcps s' t; una = sint (t_snd_una c); nxt = sint (t_snd_nxt c); ack = sint (th_ack h);
             n = nat (ack - una - of_bool (t_syn_out c))
         in if ack \<le> una then c' = c \<and> e = NET_OK
            else if nxt < ack then c' = c \<and> e = NET_ERR_UNREACH
            else t_snd_una c' = th_ack h \<and> \<not> t_syn_out c' \<and> tb_seq (t_snd_buf c') = drop n (tb_seq (t_snd_buf c)) \<and>
                 (t_fin_out c' \<longleftrightarrow> t_fin_out c \<and> n \<le> length (tb_seq (t_snd_buf c))) \<and> e = NET_OK"
proof -
  note r = ack_process_record [OF assms(1,2)]
  let ?c = "tcps s t"
  let ?ack = "sint (th_ack h)" and ?una = "sint (t_snd_una ?c)" and ?nxt = "sint (t_snd_nxt ?c)"
  consider "?ack \<le> ?una" | "?una < ?ack" "?nxt < ?ack" | "?una < ?ack" "?ack \<le> ?nxt" by linarith
  then show ?thesis
  proof cases
    case 3
    have "0 < ?ack - ?una" "?ack - ?una = sint (th_ack h - t_snd_una ?c)" "?ack - ?una \<le> sint (t_snd_nxt ?c - t_snd_una ?c)"
      using 3 sint_diff [OF r(1)] sint_diff [OF assms(4)] by simp_all
    note ack_window_stream [OF assms(3) this]
    with r(4) [OF 3] 3 show ?thesis by (simp add: Let_def)
  qed (use r(2,3) in \<open>simp_all add: Let_def\<close>)
qed

definition ack_sample :: tcp_t where
  "ack_sample = zero_tcp\<lparr>t_snd_buf := \<lparr>tb_count = 3, tb_in = 3, tb_out = 0, tb_size = 4, tb_data = [1, 2, 3, 0]\<rparr>,
     t_snd_una := 10, t_snd_nxt := 13, t_syn_out := False, t_fin_out := True, t_state := TCP_STATE_FIN_WAIT_1\<rparr>"

theorem tcp_ack_process_stream_witness:
  "\<exists>s'. tcp_ack_process 0 sample_seg (hdr_sample [0, 0, 0, 0, 0, 0, 0, 0, 12, 0, 0, 0, 0x50, 16, 0, 0, 0, 0, 0, 0] ack_sample) = Some (s', NET_OK) \<and>
     t_snd_una (tcps s' 0) = 12 \<and> tb_seq (t_snd_buf (tcps s' 0)) = [3] \<and> t_fin_out (tcps s' 0)"
proof -
  let ?s = "hdr_sample [0, 0, 0, 0, 0, 0, 0, 0, 12, 0, 0, 0, 0x50, 16, 0, 0, 0, 0, 0, 0] ack_sample"
  obtain h where h: "read_tcp_hdr (sg_hdr sample_seg) ?s = Some h" "th_ack h = 12"
    by (simp add: sample_seg_def hdr_sample_hdr tcp_hdr_of_def le32_def)
  have "[0..<3] = [0, 1, 2 :: nat]" by (simp add: numeral_3_eq_3)
  then have b: "tb_ok (t_snd_buf ack_sample)" "tb_seq (t_snd_buf ack_sample) = [1, 2, 3]"
    by (simp_all add: ack_sample_def tb_ok_def ring_ok_def tb_seq_def ring_seq_def ring_at_def)
  have "\<exists>s' e. tcp_ack_process 0 sample_seg ?s = Some (s', e)"
    using h by (auto simp: tcp_ack_process_def tcp_seq_le_def tcp_seq_lt_def fits_int_def ack_sample_def Let_def sock_wakeup_def wake_one_def
        sock_wait_leave_def sample_sock_def split: prod.splits)
  then obtain s' e where run: "tcp_ack_process 0 sample_seg ?s = Some (s', e)" by blast
  from tcp_ack_process_stream [OF run h(1)] b h(2) run show ?thesis
    by (auto simp: Let_def ack_sample_def fits_int_def)
qed

section \<open>Data\<close>

lemma copy_data_stream:
  assumes "tb_ok (t_rcv_buf (tcps s t))" "cursor_ok s (sg_buf seg)" "0 \<le> sint (sg_data_len seg)"
    "pos (packets s (sg_buf seg)) + sint (sg_data_len seg) \<le> total_size (packets s (sg_buf seg))"
  defines "n \<equiv> if sg_seq seg = t_rcv_nxt (tcps s t) then min (sint (sg_data_len seg)) (tcp_rcv_window (tcps s t)) else 0"
  shows "\<exists>s' b'. copy_data_to_rcvbuf t seg s = Some (s', n) \<and> pages s' = pages s \<and>
    tcps s' t = (tcps s t)\<lparr>t_rcv_buf := b'\<rparr> \<and> tb_ok b' \<and>
    tb_seq b' = tb_seq (t_rcv_buf (tcps s t)) @ take (nat n) (drop (nat (pos (packets s (sg_buf seg)))) (packet_bytes s (sg_buf seg)))"
proof (cases "sg_data_len seg \<noteq> 0 \<and> sg_seq seg = t_rcv_nxt (tcps s t)")
  case True
  from tcp_buf_write_rcv_ok [OF assms(1,3,2,4)] obtain s1 b where
    1: "tcp_buf_write_rcv (t_rcv_buf (tcps s t)) 0 (sg_buf seg) (sint (sg_data_len seg)) s = Some (s1, b, n)"
      "moved s (sg_buf seg) s1" "tb_ok b"
      "tb_seq b = tb_seq (t_rcv_buf (tcps s t)) @ take (nat n) (drop (nat (pos (packets s (sg_buf seg)))) (packet_bytes s (sg_buf seg)))"
    using True by (auto simp: n_def tcp_rcv_window_def)
  have "same_tcbs s s1" using same_rest_write_rcv [OF 1(1), THEN ip_keep_rest] by (rule same_tcbs_ip)
  moreover have "pages s1 = pages s" by (rule moved_same(1) [OF 1(2)])
  ultimately show ?thesis using 1 True by (auto simp: copy_data_to_rcvbuf_def same_tcbs_def upd_tcp_def)
next
  case False
  have "0 \<le> tcp_buf_free_cnt (t_rcv_buf (tcps s t))" using assms(1) by (simp add: tb_ok_def ring_ok_def tcp_buf_free_cnt_def)
  with False have "n = 0" by (auto simp: n_def tcp_rcv_window_def)
  with False have "copy_data_to_rcvbuf t seg s = Some (s, n)" by (auto simp: copy_data_to_rcvbuf_def)
  with assms(1) \<open>n = 0\<close> show ?thesis by (intro exI [of _ s] exI [of _ "t_rcv_buf (tcps s t)"]) simp
qed

lemma data_in_record:
  assumes run: "tcp_data_in t seg s = Some (s', e)" and 1: "copy_data_to_rcvbuf t seg s = Some (s1, n)" "0 \<le> n"
    and h: "read_tcp_hdr (sg_hdr seg) s1 = Some h" and fin: "fin \<longleftrightarrow> f_fin h \<and> t_rcv_nxt (tcps s1 t) + word_of_int n = sg_seq seg"
  shows "tcps s' t = (tcps s1 t)\<lparr>t_rcv_nxt := t_rcv_nxt (tcps s1 t) + of_int n + of_bool fin, t_fin_in := (t_fin_in (tcps s1 t) \<or> fin)\<rparr> \<and> e = NET_OK"
proof -
  let ?s2 = "upd_tcp t (\<lambda>c. c\<lparr>t_rcv_nxt := t_rcv_nxt c + of_int n\<rparr>) s1"
  let ?fin = "f_fin h \<and> t_rcv_nxt (tcps ?s2 t) = sg_seq seg"
  let ?s3 = "if ?fin then upd_tcp t (\<lambda>c. c\<lparr>t_rcv_nxt := t_rcv_nxt c + 1, t_fin_in := True\<rparr>) ?s2 else ?s2"
  have "same_tcbs ?s3 s' \<and> e = NET_OK"
    using run 1 h
    by (auto simp: tcp_data_in_def Let_def bind_eq_Some_conv split: if_splits
        dest!: same_tcbs_wakeup ip_keep_segments(2) [THEN same_tcbs_ip] intro: same_tcbs_trans)
  moreover have "tcps ?s3 t = (tcps s1 t)\<lparr>t_rcv_nxt := t_rcv_nxt (tcps s1 t) + of_int n + of_bool fin, t_fin_in := (t_fin_in (tcps s1 t) \<or> fin)\<rparr>"
    using fin by (cases fin) auto
  ultimately show ?thesis by (simp add: same_tcbs_def)
qed

text \<open>C6. A segment adds exactly its next bytes to the receive stream.  When its sequence number is the one expected, the bytes
  behind the header, as many as the window has room for, are appended to the receive stream and the expected number
  advances by as many; a segment that is out of order changes neither.  A FIN is recorded, and counted in the expected
  number, only when no byte was taken with it: the FIN of a segment that carries data is not seen.\<close>

theorem tcp_data_in_stream:
  assumes "tcp_data_in t seg s = Some (s', e)" "read_tcp_hdr (sg_hdr seg) s = Some h"
    "tb_ok (t_rcv_buf (tcps s t))" "cursor_ok s (sg_buf seg)" "0 \<le> sint (sg_data_len seg)"
    "pos (packets s (sg_buf seg)) + sint (sg_data_len seg) \<le> total_size (packets s (sg_buf seg))"
  shows "let c = tcps s t; c' = tcps s' t; p = sg_buf seg; expected = (sg_seq seg = t_rcv_nxt c);
             n = (if expected then min (sint (sg_data_len seg)) (tcp_rcv_window c) else 0);
             fin = (f_fin h \<and> expected \<and> n = 0)
         in tb_seq (t_rcv_buf c') = tb_seq (t_rcv_buf c) @ take (nat n) (drop (nat (pos (packets s p))) (packet_bytes s p)) \<and>
            t_rcv_nxt c' = t_rcv_nxt c + of_int n + of_bool fin \<and> (t_fin_in c' \<longleftrightarrow> t_fin_in c \<or> fin) \<and> e = NET_OK"
proof -
  let ?c = "tcps s t" and ?p = "sg_buf seg"
  define n where "n = (if sg_seq seg = t_rcv_nxt ?c then min (sint (sg_data_len seg)) (tcp_rcv_window ?c) else 0)"
  define fin where "fin = (f_fin h \<and> sg_seq seg = t_rcv_nxt ?c \<and> n = 0)"
  from copy_data_stream [OF assms(3-6), folded n_def] obtain s1 b where
    1: "copy_data_to_rcvbuf t seg s = Some (s1, n)" "pages s1 = pages s" "tcps s1 t = ?c\<lparr>t_rcv_buf := b\<rparr>"
      "tb_seq b = tb_seq (t_rcv_buf ?c) @ take (nat n) (drop (nat (pos (packets s ?p))) (packet_bytes s ?p))" by blast
  have "0 \<le> tcp_rcv_window ?c" using assms(3) by (simp add: tb_ok_def ring_ok_def tcp_buf_free_cnt_def tcp_rcv_window_def)
  then have n0: "0 \<le> n" "n < 2 ^ 32" using assms(5) sint_lt [of "sg_data_len seg"] by (auto simp: n_def)
  have h1: "read_tcp_hdr (sg_hdr seg) s1 = Some h" using assms(2) 1(2) by (simp add: read_tcp_hdr_def mem_read_def)
  have "fin \<longleftrightarrow> f_fin h \<and> t_rcv_nxt (tcps s1 t) + word_of_int n = sg_seq seg"
  proof (cases "sg_seq seg = t_rcv_nxt ?c")
    case True
    with u32_of_int_eq_0 [OF n0] show ?thesis by (simp add: fin_def 1(3))
  next
    case False
    then have "n = 0" by (simp add: n_def)
    with False show ?thesis by (simp add: fin_def 1(3))
  qed
  from data_in_record [OF assms(1) 1(1) n0(1) h1 this] 1(3,4) show ?thesis
    unfolding Let_def n_def [symmetric] fin_def by simp
qed

lemma copy_data_socks: "copy_data_to_rcvbuf t seg s = Some (s', n) \<Longrightarrow> socks s' = socks s \<and> waits s' = waits s"
  by (auto simp: copy_data_to_rcvbuf_def bind_eq_Some_conv split: if_splits dest!: same_rest_write_rcv [THEN ip_keep_rest] simp: ip_keep_tcp)

definition data_sample :: tcp_state where
  "data_sample = (hdr_sample ([0, 0, 0, 0, 0, 0, 0, 0, 0, 0, 0, 0, 0x50, 4, 0, 0, 0, 0, 0, 0] @ [7, 8, 9] @ replicate 105 0)
      (zero_tcp\<lparr>t_rcv_buf := tcp_buf_init [0, 0] 2, t_rcv_nxt := 5, t_fin_in := False\<rparr>))
     \<lparr>packets := \<lambda>_. \<lparr>total_size = 128, page_list = [0], ref = 1, pos = 20, cur_page = Some 0, page_offset = 20\<rparr>, page_pool := []\<rparr>"

lemma data_sample_simps [simp]:
  "packets data_sample p = \<lparr>total_size = 128, page_list = [0], ref = 1, pos = 20, cur_page = Some 0, page_offset = 20\<rparr>"
  "pages data_sample g = \<lparr>pg_size = 128, pg_data = 0,
     pg_payload = [0, 0, 0, 0, 0, 0, 0, 0, 0, 0, 0, 0, 0x50, 4, 0, 0, 0, 0, 0, 0] @ [7, 8, 9] @ replicate 105 0\<rparr>"
  "tcps data_sample t = zero_tcp\<lparr>t_rcv_buf := tcp_buf_init [0, 0] 2, t_rcv_nxt := 5, t_fin_in := False\<rparr>"
  "waits data_sample w = \<lparr>w_err = NET_OK, w_waiting = 0, w_sem = Sem 0\<rparr>" "socks data_sample = sample_sock" "page_pool data_sample = []"
  by (simp_all add: data_sample_def)

lemma data_sample_bytes: "packet_bytes data_sample p = [0, 0, 0, 0, 0, 0, 0, 0, 0, 0, 0, 0, 0x50, 4, 0, 0, 0, 0, 0, 0] @ [7, 8, 9] @ replicate 105 0"
  by (simp add: packet_bytes_def page_bytes_def)

lemma data_sample_cursor: "cursor_ok data_sample 0"
proof -
  have "packet_ok data_sample 0" by (simp add: packet_ok_def page_ok_def data_sample_bytes)
  then show ?thesis by (simp add: cursor_ok_def Cons_eq_append_conv)
qed

theorem tcp_data_in_stream_witness:
  "\<exists>s'. tcp_data_in 0 (sample_seg\<lparr>sg_seq := 5, sg_data_len := 3\<rparr>) data_sample = Some (s', NET_OK) \<and>
     tb_seq (t_rcv_buf (tcps s' 0)) = [7, 8] \<and> t_rcv_nxt (tcps s' 0) = 7"
proof -
  let ?seg = "sample_seg\<lparr>sg_seq := 5, sg_data_len := 3\<rparr>" and ?s = data_sample
  obtain h where h: "read_tcp_hdr (sg_hdr ?seg) ?s = Some h" "f_rst h"
    by (simp add: sample_seg_def read_tcp_hdr_def mem_read_def page_read_def tcp_hdr_of_def f_rst_def le16_def bit_simps)
  have b: "tb_ok (t_rcv_buf (tcps ?s 0))" "tb_seq (t_rcv_buf (tcps ?s 0)) = []"
    using tb_init_ok [of "[0, 0]"] by (simp_all add: tb_init_seq)
  have l: "sint (sg_data_len ?seg) = 3" "sg_buf ?seg = 0" by (simp_all add: sample_seg_def)
  have cur: "cursor_ok ?s (sg_buf ?seg)" using data_sample_cursor l by simp
  from copy_data_stream [OF b(1) cur] l obtain s1 where
    1: "copy_data_to_rcvbuf 0 ?seg ?s = Some (s1, 2)" "pages s1 = pages ?s"
    by (auto simp: tcp_rcv_window_def tcp_buf_free_cnt_def tcp_buf_init_def)
  have hd: "read_tcp_hdr (sg_hdr sample_seg) s = Some h" if "pages s = pages ?s" for s :: tcp_state
    using h that by (simp add: read_tcp_hdr_def mem_read_def)
  have p: "pages (upd_tcp t f s) = pages s" "pages (upd_sock a g s) = pages s" for t f a g and s :: tcp_state
    by (simp_all add: upd_tcp_def upd_sock_def)
  have w: "sock_wakeup (Tcp_sock 0) kinds err s = Some (upd_sock (Tcp_sock 0) (\<lambda>k. k\<lparr>so_err := err\<rparr>) s)"
    if "socks s = sample_sock" "waits s = waits ?s" for kinds err and s :: tcp_state
    using that by (simp add: sock_wakeup_def wake_one_def sock_wait_leave_def sample_sock_def)
  have "\<exists>s' e. tcp_data_in 0 ?seg ?s = Some (s', e)"
    using 1 copy_data_socks [OF 1(1)] h(2) by (simp add: tcp_data_in_def w hd p tcp_send_ack_def Let_def)
  then obtain s' e where run: "tcp_data_in 0 ?seg ?s = Some (s', e)" by blast
  from tcp_data_in_stream [OF run h(1) b(1) cur] l b(2) run show ?thesis
    by (auto simp: Let_def tcp_rcv_window_def tcp_buf_free_cnt_def tcp_buf_init_def sample_seg_def data_sample_bytes tb_seq_def)
qed

section \<open>Retransmission\<close>

lemma sent_record: "sent t s s' \<Longrightarrow> tcps s' t = (tcps s t)\<lparr>t_snd_nxt := t_snd_nxt (tcps s' t)\<rparr>"
  by (simp add: sent_def)

text \<open>Sending and waking touch no timer.\<close>

definition timers_kept :: "'a tcp_state_scheme \<Rightarrow> 'a tcp_state_scheme \<Rightarrow> bool" where
  "timers_kept s s' \<longleftrightarrow> timers s' = timers s \<and> timer_list s' = timer_list s \<and> wait_list s' = wait_list s"

lemma timers_kept_trans: "timers_kept s s1 \<Longrightarrow> timers_kept s1 s2 \<Longrightarrow> timers_kept s s2"
  by (simp add: timers_kept_def)

lemma timers_kept_ip: "ip_keep s s' \<Longrightarrow> timers_kept s s'"
  by (simp add: timers_kept_def ip_keep_def)

lemma timers_kept_upd [simp]: "timers_kept s (upd_tcp t f s') = timers_kept s s'" "timers_kept (upd_tcp t f s) s' = timers_kept s s'"
  by (simp_all add: timers_kept_def upd_tcp_def)

lemma timers_keptD: "timers_kept s s' \<Longrightarrow> timers_ok s' = timers_ok s \<and> expiries s' = expiries s \<and> timer_list s' = timer_list s \<and> wait_list s' = wait_list s"
  by (simp add: timers_kept_def timers_ok_def expiries_def)

lemma timers_kept_retransmit:
  assumes run: "tcp_retransmit t s = Some (s', e)"
  shows "timers_kept s s'"
proof -
  obtain doff dlen where g: "get_send_info (tcps s t) True = (doff, dlen)" by fastforce
  obtain s1 r where a: "packet_alloc 20 s = (s1, r)" by fastforce
  note k = timers_kept_ip [OF ip_keep_packet(1) [OF a]]
  show ?thesis
  proof (cases "s' = s \<or> r = None")
    case True
    with run g a k show ?thesis by (auto simp: tcp_retransmit_def Let_def timers_kept_def split: if_splits)
  next
    case False
    from False run g a obtain p d sq fl sy s2 bs s3 f dest src where
      2: "fill_segment t p d sq fl sy doff dlen s1 = Some s2" and 3: "mem_write d 12 bs s2 = Some s3" and
      4: "send_out d p dest src (upd_tcp t f s3) = Some (s', e)"
      by (auto simp: tcp_retransmit_def Let_def bind_eq_Some_conv split: if_splits)
    show ?thesis using k timers_kept_ip [OF ip_keep_fill [OF 2]] timers_kept_ip [OF ip_keep_packet(2) [OF 3]]
      timers_kept_ip [OF ip_keep_send_out [OF 4]] by (simp add: timers_kept_def upd_tcp_def)
  qed
qed

lemma timers_kept_wake_one: "wake_one wanted w err s = Some s' \<Longrightarrow> timers_kept s s'"
  by (auto simp: wake_one_def sock_wait_leave_def bind_eq_Some_conv upd_wait_def timers_kept_def split: if_splits sys_sem_t.splits)

lemma timers_kept_wakeup: "sock_wakeup a kinds err s = Some s' \<Longrightarrow> timers_kept s s'"
  unfolding sock_wakeup_def by (clarsimp simp: bind_eq_Some_conv upd_sock_def dest!: timers_kept_wake_one) (simp add: timers_kept_def)

lemma abort_disarms:
  assumes "timers_ok s" "tcp_abort t err s = Some (s', e)"
  shows "snd_timer t \<notin> set (timer_list s')"
proof -
  note 1 = net_timer_remove_spec [OF assms(1), of "keep_timer t"]
  note 2 = net_timer_remove_spec [of "net_timer_remove (keep_timer t) s" "snd_timer t"]
  have "snd_timer t \<notin> set (timer_list (tcp_kill_all_timers t s))"
    using 1 2 assms(1) by (auto simp: tcp_kill_all_timers_def timers_ok_def)
  with assms(2) show ?thesis
    by (auto simp: tcp_abort_def bind_eq_Some_conv tcp_set_state_def timers_kept_def dest!: timers_kept_wakeup)
qed

text \<open>A retransmission of the connection, already counted, that reported an error and left the state \<open>s\<close>.\<close>

definition rexmit_failed :: "addr \<Rightarrow> 'a tcp_state_scheme \<Rightarrow> bool" where
  "rexmit_failed t s \<longleftrightarrow> (\<exists>s0 e. tcp_retransmit t s0 = Some (s, e) \<and> net_err_neg e \<and> t_rexmit_cnt (tcps s0 t) = t_rexmit_cnt (tcps s t))"

text \<open>One call of the callback: the last, or a retransmission that starts the timer again unless it fails.\<close>

lemma rexmit_last:
  assumes "tcp_out_timer_tmo t s = Some s'" "t_ostate (tcps s t) = TCP_OSTATE_REXMIT" "t_rexmit_max (tcps s t) \<le> t_rexmit_cnt (tcps s t)" "timers_ok s"
  shows "t_state (tcps s' t) = TCP_STATE_CLOSED \<and> snd_timer t \<notin> set (timer_list s')"
proof -
  let ?s = "upd_tcp t (\<lambda>c. c\<lparr>t_rexmit_cnt := t_rexmit_cnt c + 1\<rparr>) s"
  from assms obtain e where "tcp_abort t NET_ERR_TIMEOUT ?s = Some (s', e)"
    by (auto simp: tcp_out_timer_tmo_def Let_def bind_eq_Some_conv)
  moreover have "timers_ok ?s" using assms(4) by (simp add: timers_ok_def)
  ultimately show ?thesis by (auto dest: abort_record abort_disarms)
qed

lemma rexmit_step:
  assumes run: "tcp_out_timer_tmo t s = Some s'" and os: "t_ostate (tcps s t) = TCP_OSTATE_REXMIT"
    and more: "t_rexmit_cnt (tcps s t) < t_rexmit_max (tcps s t)" and ok: "timers_ok s" "snd_timer t \<notin> set (timer_list s)" "0 \<le> t_rto (tcps s t)"
  shows "timers_ok s'" "wait_list s' = wait_list s" "t_ostate (tcps s' t) = TCP_OSTATE_REXMIT"
    "t_rexmit_cnt (tcps s' t) = t_rexmit_cnt (tcps s t) + 1" "t_rexmit_max (tcps s' t) = t_rexmit_max (tcps s t)"
    "t_state (tcps s' t) = t_state (tcps s t)"
    "if snd_timer t \<in> set (timer_list s')
     then (snd_timer t, t_rto (tcps s' t)) \<in> set (expiries s') \<and> t_rto (tcps s' t) = min TCP_RTO_MAX (t_rto (tcps s t) * 2)
     else rexmit_failed t s' \<and> t_rto (tcps s' t) = t_rto (tcps s t)"
proof -
  let ?s = "upd_tcp t (\<lambda>c. c\<lparr>t_rexmit_cnt := t_rexmit_cnt c + 1\<rparr>) s"
  let ?rto = "min TCP_RTO_MAX (t_rto (tcps s t) * 2)"
  from run os more obtain s1 e where 1: "tcp_retransmit t ?s = Some (s1, e)"
    by (auto simp: tcp_out_timer_tmo_def Let_def bind_eq_Some_conv split: if_splits)
  have r1: "tcps s1 t = (tcps ?s t)\<lparr>t_snd_nxt := t_snd_nxt (tcps s1 t)\<rparr>" by (rule sent_record [OF sent_retransmit [OF 1]])
  have f: "t_ostate (tcps s1 t) = TCP_OSTATE_REXMIT" "t_rexmit_cnt (tcps s1 t) = t_rexmit_cnt (tcps s t) + 1"
    "t_rexmit_max (tcps s1 t) = t_rexmit_max (tcps s t)" "t_state (tcps s1 t) = t_state (tcps s t)" "t_rto (tcps s1 t) = t_rto (tcps s t)"
    using os by (subst r1, simp)+
  note k = timers_kept_retransmit [OF 1, unfolded timers_kept_upd, THEN timers_keptD]
  have "timers_ok s' \<and> wait_list s' = wait_list s \<and> t_ostate (tcps s' t) = TCP_OSTATE_REXMIT \<and>
    t_rexmit_cnt (tcps s' t) = t_rexmit_cnt (tcps s t) + 1 \<and> t_rexmit_max (tcps s' t) = t_rexmit_max (tcps s t) \<and>
    t_state (tcps s' t) = t_state (tcps s t) \<and>
    (if snd_timer t \<in> set (timer_list s') then (snd_timer t, t_rto (tcps s' t)) \<in> set (expiries s') \<and> t_rto (tcps s' t) = ?rto
     else rexmit_failed t s' \<and> t_rto (tcps s' t) = t_rto (tcps s t))"
  proof (cases "net_err_neg e")
    case True
    with run os more 1 have "s' = s1" by (simp add: tcp_out_timer_tmo_def Let_def)
    moreover have "rexmit_failed t s1" unfolding rexmit_failed_def using 1 True f by force
    ultimately show ?thesis using k f ok by simp
  next
    case False
    let ?s2 = "upd_tcp t (\<lambda>c. c\<lparr>t_rto := ?rto\<rparr>) s1"
    from False run os more 1 obtain name e2 where a: "net_timer_add (snd_timer t) name TCP_OUT_TIMER_TMO t ?rto 0 ?s2 = Some (s', e2)"
      by (auto simp: tcp_out_timer_tmo_def Let_def bind_eq_Some_conv rto_double_def f min_def split: if_splits)
    have "timers_ok ?s2" "0 \<le> ?rto" using k ok by (auto simp: timers_ok_def)
    note n = net_timer_add_spec [OF this a]
    moreover have "tcps s' = tcps ?s2" using net_timer_add_tcp(1) [OF a] by simp
    ultimately show ?thesis using k f by auto
  qed
  then show "timers_ok s'" "wait_list s' = wait_list s" "t_ostate (tcps s' t) = TCP_OSTATE_REXMIT"
    "t_rexmit_cnt (tcps s' t) = t_rexmit_cnt (tcps s t) + 1" "t_rexmit_max (tcps s' t) = t_rexmit_max (tcps s t)"
    "t_state (tcps s' t) = t_state (tcps s t)"
    "if snd_timer t \<in> set (timer_list s') then (snd_timer t, t_rto (tcps s' t)) \<in> set (expiries s') \<and> t_rto (tcps s' t) = ?rto
     else rexmit_failed t s' \<and> t_rto (tcps s' t) = t_rto (tcps s t)"
    by blast+
qed

text \<open>
  The timeouts of the retransmission timer one after the other, at most \<open>n\<close> of them and without an
  acknowledgement between them: a timer that is on the list is taken off it and its callback runs; a timer
  that is not on the list never fires.  The result counts the timeouts that happened.
\<close>

fun timeouts :: "nat \<Rightarrow> addr \<Rightarrow> 'a tcp_state_scheme \<Rightarrow> (nat \<times> 'a tcp_state_scheme) option" where
  "timeouts 0 t s = Some (0, s)"
| "timeouts (Suc n) t s =
     (if snd_timer t \<in> set (timer_list s)
      then do {
        s \<leftarrow> tcp_out_timer_tmo t (net_timer_remove (snd_timer t) s);
        (k, s) \<leftarrow> timeouts n t s;
        Some (Suc k, s)
      }
      else Some (0, s))"

lemma expiry_listed: "timers_ok s \<Longrightarrow> (u, d) \<in> set (expiries s) \<Longrightarrow> u \<in> set (timer_list s)"
  by (force simp: timers_ok_set [symmetric])

lemma timeouts_unarmed: "snd_timer t \<notin> set (timer_list s) \<Longrightarrow> timeouts n t s = Some (0, s)"
  by (cases n) simp_all

definition rexmit_left :: "addr \<Rightarrow> 'a tcp_state_scheme \<Rightarrow> int" where
  "rexmit_left t s = t_rexmit_max (tcps s t) - t_rexmit_cnt (tcps s t)"

lemma timeouts_count:
  assumes "timeouts n t s = Some (k, s')" "timers_ok s" "t_ostate (tcps s t) = TCP_OSTATE_REXMIT"
    "t_rexmit_cnt (tcps s t) \<le> t_rexmit_max (tcps s t)" "0 \<le> t_rto (tcps s t)" "t_rto (tcps s t) \<le> TCP_RTO_MAX"
    "(snd_timer t, d) \<in> set (expiries s)"
  shows "k \<le> n \<and> int k \<le> rexmit_left t s + 1 \<and>
    (if int k = rexmit_left t s + 1 then t_state (tcps s' t) = TCP_STATE_CLOSED \<and> snd_timer t \<notin> set (timer_list s')
     else t_state (tcps s' t) = t_state (tcps s t) \<and> t_ostate (tcps s' t) = TCP_OSTATE_REXMIT \<and>
       t_rexmit_cnt (tcps s' t) = t_rexmit_cnt (tcps s t) + int k \<and> t_rto (tcps s' t) \<le> TCP_RTO_MAX \<and>
       (if snd_timer t \<in> set (timer_list s')
        then k = n \<and> (snd_timer t, if k = 0 then d else t_rto (tcps s' t)) \<in> set (expiries s')
        else 0 < k \<and> rexmit_failed t s'))"
  using assms
proof (induction n arbitrary: k s d)
  case 0
  then have "snd_timer t \<in> set (timer_list s')" using expiry_listed by fastforce
  with 0 show ?case by (simp add: rexmit_left_def)
next
  case (Suc n)
  let ?s0 = "net_timer_remove (snd_timer t) s"
  have armed: "snd_timer t \<in> set (timer_list s)" using Suc.prems(2,7) by (rule expiry_listed)
  with Suc.prems(1) obtain s1 k1 where 1: "tcp_out_timer_tmo t ?s0 = Some s1" "timeouts n t s1 = Some (k1, s')" and k: "k = Suc k1"
    by (auto simp: bind_eq_Some_conv)
  note r = net_timer_remove_spec [OF Suc.prems(2), of "snd_timer t"]
  have off: "snd_timer t \<notin> set (timer_list ?s0)" using r Suc.prems(2) by (simp add: timers_ok_def)
  have same: "tcps ?s0 = tcps s" by (simp add: net_timer_remove_def case_prod_unfold Let_def)
  show ?case
  proof (cases "t_rexmit_cnt (tcps s t) < t_rexmit_max (tcps s t)")
    case False
    with rexmit_last [OF 1(1)] r same Suc.prems have c: "t_state (tcps s1 t) = TCP_STATE_CLOSED \<and> snd_timer t \<notin> set (timer_list s1)" by simp
    with 1(2) have "k1 = 0 \<and> s' = s1" by (simp add: timeouts_unarmed)
    with c k False Suc.prems(4) show ?thesis by (simp add: rexmit_left_def)
  next
    case True
    note st = rexmit_step [OF 1(1), unfolded same, OF Suc.prems(3) True _ off Suc.prems(5)]
    have l: "rexmit_left t s1 = rexmit_left t s - 1" "0 < rexmit_left t s" using st r True by (simp_all add: rexmit_left_def)
    show ?thesis
    proof (cases "snd_timer t \<in> set (timer_list s1)")
      case False
      with 1(2) have "k1 = 0 \<and> s' = s1" by (simp add: timeouts_unarmed)
      with False st r k l Suc.prems(6) show ?thesis by simp
    next
      case t: True
      have "k1 = 0 \<longrightarrow> s' = s1" using 1(2) t by (cases n) (auto simp: bind_eq_Some_conv)
      with Suc.IH [OF 1(2), of "t_rto (tcps s1 t)"] st r t True Suc.prems(5,6) l k show ?thesis by (auto split: if_splits)
    qed
  qed
qed

text \<open>C21. Retransmission gives up after the allowed number of tries and not before. Once the sender retransmits with its timer
  running, the connection survives exactly as many further timeouts as there are tries left: each of them counts one try, leaves the
  state as it is, keeps the timeout time within its limit and starts the timer again with it, unless the retransmission reports an
  error, after which the timer is not running and no timeout follows. The timeout after the last try closes the connection and stops
  the timer. So after more timeouts than tries the connection is closed or stuck behind a failed retransmission. The time
  is assumed to be within its limit at the start, the list of timers to be well formed, and nothing else to happen in between.\<close>

theorem tcp_rexmit_gives_up:
  assumes "timeouts n t s = Some (k, s')" "timers_ok s" "t_ostate (tcps s t) = TCP_OSTATE_REXMIT"
    "t_rexmit_cnt (tcps s t) \<le> t_rexmit_max (tcps s t)" "0 \<le> t_rto (tcps s t)" "t_rto (tcps s t) \<le> TCP_RTO_MAX"
    "(snd_timer t, d) \<in> set (expiries s)" "left = t_rexmit_max (tcps s t) - t_rexmit_cnt (tcps s t)"
  shows "k \<le> n \<and> int k \<le> left + 1 \<and>
    (if int k = left + 1 then t_state (tcps s' t) = TCP_STATE_CLOSED \<and> snd_timer t \<notin> set (timer_list s')
     else t_state (tcps s' t) = t_state (tcps s t) \<and> t_ostate (tcps s' t) = TCP_OSTATE_REXMIT \<and>
       t_rexmit_cnt (tcps s' t) = t_rexmit_cnt (tcps s t) + int k \<and> t_rto (tcps s' t) \<le> TCP_RTO_MAX \<and>
       (if snd_timer t \<in> set (timer_list s')
        then k = n \<and> (snd_timer t, if k = 0 then d else t_rto (tcps s' t)) \<in> set (expiries s')
        else 0 < k \<and> rexmit_failed t s')) \<and>
    (left < int n \<longrightarrow> t_state (tcps s' t) = TCP_STATE_CLOSED \<or> rexmit_failed t s')"
  using timeouts_count [OF assms(1-7)] assms(8) by (auto simp: rexmit_left_def split: if_splits)

definition rexmit_sample :: tcp_t where
  "rexmit_sample = zero_tcp\<lparr>t_state := TCP_STATE_ESTABLISHED, t_ostate := TCP_OSTATE_REXMIT, t_rexmit_cnt := 4, t_rexmit_max := 5, t_rto := 8000,
     t_snd_buf := tcp_buf_init [0] 1, t_mss := 1460, t_syn_out := False, t_fin_out := False\<rparr>"

definition rexmit_start :: tcp_state where
  "rexmit_start = (let s = hdr_sample [] rexmit_sample in s\<lparr>timers := (timers s)(3 := (timers s 3)\<lparr>tm_curr := 5\<rparr>), timer_list := [3]\<rparr>)"

theorem tcp_rexmit_gives_up_witness:
  "(\<exists>s1. timeouts 1 0 rexmit_start = Some (1, s1) \<and> t_state (tcps s1 0) = TCP_STATE_ESTABLISHED \<and> (3, 8000) \<in> set (expiries s1)) \<and>
   (\<exists>s2. timeouts 2 0 rexmit_start = Some (2, s2) \<and> t_state (tcps s2 0) = TCP_STATE_CLOSED \<and> timer_list s2 = [])"
proof -
  have s: "timers_ok rexmit_start" "(3, 5) \<in> set (expiries rexmit_start)" "tcps rexmit_start u = rexmit_sample" for u
    by (simp_all add: rexmit_start_def timers_ok_def expiries_def Let_def)
  note run = tcp_out_timer_tmo_def tcp_retransmit_def get_send_info_def tcp_buf_init_def tcp_buf_cnt_def rto_double_def fits_int_def
        rexmit_sample_def Let_def net_timer_add_def insert_timer_def tcp_abort_def tcp_kill_all_timers_def net_timer_remove_def
        sock_wakeup_def wake_one_def sock_wait_leave_def sample_sock_def tcp_set_state_def upd_tcp_def upd_sock_def rexmit_start_def
  have "\<exists>s1. timeouts 1 0 rexmit_start = Some (1, s1) \<and> timer_list s1 = [3] \<and> t_rto (tcps s1 0) = 8000" by (simp add: run)
  then obtain s1 where 1: "timeouts 1 0 rexmit_start = Some (1, s1)" "timer_list s1 = [3]" "t_rto (tcps s1 0) = 8000" by blast
  have "\<exists>s2. timeouts 2 0 rexmit_start = Some (2, s2) \<and> timer_list s2 = []" by (simp add: run numeral_2_eq_2)
  then obtain s2 where 2: "timeouts 2 0 rexmit_start = Some (2, s2)" "timer_list s2 = []" by blast
  from tcp_rexmit_gives_up [OF 1(1) s(1) _ _ _ _ _ refl] tcp_rexmit_gives_up [OF 2(1) s(1) _ _ _ _ _ refl] s 1 2
  show ?thesis by (simp add: rexmit_sample_def)
qed

section \<open>The timers that the callbacks touch\<close>

text \<open>
  The callbacks of TCP stay within what a scan of the timers allows: they add and remove only the two timers of their own
  connection, with delays that are not negative.
\<close>

lemma timer_ops_kept: "timer_ops T s s1 \<Longrightarrow> timers_kept s1 s2 \<Longrightarrow> timer_ops T s s2"
  unfolding timers_kept_def by (elim conjE) (erule (3) timer_ops.ops_other)

lemma timer_ops_abort:
  assumes "tcp_abort t err s1 = Some (s2, e)" "timer_ops T s s1" "{keep_timer t, snd_timer t} \<subseteq> T"
  shows "timer_ops T s s2"
proof -
  have "timer_ops T s (tcp_kill_all_timers t s1)"
    using assms(2,3) by (auto simp: tcp_kill_all_timers_def intro!: timer_ops.ops_remove)
  moreover have "timers_kept (tcp_kill_all_timers t s1) s2"
    using assms(1) by (auto simp: tcp_abort_def bind_eq_Some_conv tcp_set_state_def dest!: timers_kept_wakeup)
  ultimately show ?thesis by (rule timer_ops_kept)
qed

lemma timer_ops_rto:
  assumes run: "tcp_retransmit t s1 = Some (s2, e)" and s1: "timer_ops T s s1" "snd_timer t \<in> T" and ms: "0 \<le> ms"
    and add: "s3 = s2 \<or> (\<exists>f name e3. net_timer_add (snd_timer t) name TCP_OUT_TIMER_TMO t ms 0 (upd_tcp t f s2) = Some (s3, e3))"
  shows "timer_ops T s s3"
  using add
proof (elim disjE exE)
  assume "s3 = s2"
  with timer_ops_kept [OF s1(1) timers_kept_retransmit [OF run]] show ?thesis by simp
next
  fix f name e3
  assume add: "net_timer_add (snd_timer t) name TCP_OUT_TIMER_TMO t ms 0 (upd_tcp t f s2) = Some (s3, e3)"
  have "timers_kept s1 (upd_tcp t f s2)" using timers_kept_retransmit [OF run] by simp
  from timer_ops.ops_add [OF timer_ops_kept [OF s1(1) this] s1(2) ms add] show ?thesis .
qed

lemma out_timer_ops:
  assumes run: "tcp_out_timer_tmo t s = Some s'" and rto: "0 \<le> t_rto (tcps s t)"
  shows "timer_ops {keep_timer t, snd_timer t} s s'"
proof -
  let ?T = "{keep_timer t, snd_timer t}" and ?s = "upd_tcp t (\<lambda>c. c\<lparr>t_rexmit_cnt := t_rexmit_cnt c + 1\<rparr>) s"
  have s: "timer_ops ?T s s" "timer_ops ?T s ?s" by (rule timer_ops.ops_done, rule timer_ops_kept [OF timer_ops.ops_done], simp add: timers_kept_def)
  have r: "t_rto (tcps s1 t) = t_rto (tcps s0 t)" if "tcp_retransmit t s0 = Some (s1, e)" for s0 s1 :: "'a tcp_state_scheme" and e
    by (subst sent_record [OF sent_retransmit [OF that]]) simp
  show ?thesis
  proof (cases "t_ostate (tcps s t)")
    case TCP_OSTATE_SENDING
    with run obtain s1 e where 1: "tcp_retransmit t s = Some (s1, e)" and
      2: "s' = s1 \<or> (\<exists>f name e3. net_timer_add (snd_timer t) name TCP_OUT_TIMER_TMO t (t_rto (tcps s1 t) * 2) 0 (upd_tcp t f s1) = Some (s', e3))"
      by (fastforce simp: tcp_out_timer_tmo_def Let_def bind_eq_Some_conv rto_double_def split: if_splits)
    show ?thesis by (rule timer_ops_rto [OF 1 s(1) _ _ 2]) (use rto r [OF 1] in simp_all)
  next
    case TCP_OSTATE_REXMIT
    show ?thesis
    proof (cases "t_rexmit_cnt (tcps s t) < t_rexmit_max (tcps s t)")
      case False
      with TCP_OSTATE_REXMIT run obtain e where "tcp_abort t NET_ERR_TIMEOUT ?s = Some (s', e)"
        by (auto simp: tcp_out_timer_tmo_def Let_def bind_eq_Some_conv)
      then show ?thesis by (rule timer_ops_abort [OF _ s(2)]) simp
    next
      case True
      let ?ms = "\<lambda>s1. if TCP_RTO_MAX \<le> t_rto (tcps s1 t) * 2 then TCP_RTO_MAX else t_rto (tcps s1 t) * 2"
      from True TCP_OSTATE_REXMIT run obtain s1 e where 1: "tcp_retransmit t ?s = Some (s1, e)" and
        2: "s' = s1 \<or> (\<exists>f name e3. net_timer_add (snd_timer t) name TCP_OUT_TIMER_TMO t (?ms s1) 0 (upd_tcp t f s1) = Some (s', e3))"
        by (fastforce simp: tcp_out_timer_tmo_def Let_def bind_eq_Some_conv rto_double_def split: if_splits)
      show ?thesis by (rule timer_ops_rto [OF 1 s(2) _ _ 2]) (use rto r [OF 1] in simp_all)
    qed
  qed (use run in \<open>auto simp: tcp_out_timer_tmo_def intro: timer_ops.ops_done\<close>)
qed

lemma keepalive_ops:
  assumes run: "tcp_keepalive_tmo t s = Some s'" and intvl: "0 \<le> t_keep_intvl (tcps s t)"
  shows "timer_ops {keep_timer t, snd_timer t} s s'"
proof -
  let ?T = "{keep_timer t, snd_timer t}" and ?s = "upd_tcp t (\<lambda>c. c\<lparr>t_keep_retry := t_keep_retry c + 1\<rparr>) s"
  have s: "timer_ops ?T s ?s" by (rule timer_ops_kept [OF timer_ops.ops_done], simp add: timers_kept_def)
  show ?thesis
  proof (cases "t_keep_retry (tcps s t) + 1 \<le> t_keep_cnt (tcps s t)")
    case True
    let ?r = "net_timer_remove (keep_timer t)"
    from True run obtain s1 e e3 where 1: "tcp_send_keepalive t ?s = Some (s1, e)" and
      2: "net_timer_add (keep_timer t) ''keepalive'' TCP_KEEPALIVE_TMO t (t_keep_intvl (tcps (?r s1) t) * 1000) 0 (?r s1) = Some (s', e3)"
      by (auto simp: tcp_keepalive_tmo_def Let_def bind_eq_Some_conv secs_ms_def split: if_splits)
    note k = ip_keep_segments(4) [OF 1]
    have "tcps (?r s1) = tcps ?s" using same_tcbs_ip [OF k] by (simp add: same_tcbs_def net_timer_remove_def case_prod_unfold Let_def)
    then have "0 \<le> t_keep_intvl (tcps (?r s1) t) * 1000" using intvl by simp
    moreover have "timer_ops ?T s (?r s1)" by (rule timer_ops.ops_remove [OF timer_ops_kept [OF s timers_kept_ip [OF k]]]) simp
    ultimately show ?thesis using timer_ops.ops_add [OF _ _ _ 2] by blast
  next
    case False
    with run obtain s1 e e2 where 1: "tcp_send_reset_for_tcp t ?s = Some (s1, e)" and 2: "tcp_abort t NET_ERR_TIMEOUT s1 = Some (s', e2)"
      by (auto simp: tcp_keepalive_tmo_def Let_def bind_eq_Some_conv)
    show ?thesis by (rule timer_ops_abort [OF 2 timer_ops_kept [OF s timers_kept_ip [OF ip_keep_segments(3) [OF 1]]]]) simp
  qed
qed

lemma timewait_ops:
  assumes "tcp_timewait_tmo t s = Some s'"
  shows "timer_ops {} s s'"
proof -
  have w: "timers_kept s1 s2" if "sock_wait_destroy w s1 = Some s2" for w and s1 s2 :: "'a tcp_state_scheme"
    using that by (auto simp: sock_wait_destroy_def timers_kept_def upd_wait_def split: if_splits sys_sem_t.splits)
  have "timers_kept s s'" using assms
    by (auto simp: tcp_timewait_tmo_def tcp_free_def Let_def bind_eq_Some_conv tcp_set_state_def dest!: w split: if_splits) (simp add: timers_kept_def)
  then show ?thesis by (rule timer_ops_kept [OF timer_ops.ops_done])
qed

text \<open>The callbacks with their arguments, all three.\<close>

lemmas tcp_callback_ops = out_timer_ops keepalive_ops timewait_ops

end
