(* ===== verification/Net_Api.thy ===== *)
theory Net_Api
  imports Net_Stack Net_Tcp_Data
begin

text \<open>
  \<^verbatim>\<open>src/api/socket.c\<close>: the functions an application thread calls.  Each hands requests to the
  worker thread with \<^verbatim>\<open>exmsg_func_exec\<close> and waits where the request says so.

  While the calling thread is blocked, until its request is served or until it is woken, the
  worker thread goes on with packets, timers and other requests: that is the parameter
  \<open>ev_run\<close>, an arbitrary transformation of the state for every point at which the thread
  blocks; no result means that the thread stays blocked.  The parameter \<open>ev_post\<close> is the result
  of creating the semaphore and queueing the message.  Null pointers are the value \<^term>\<open>None\<close> of
  an optional argument; following one is no result.
\<close>

section \<open>The calling thread\<close>

record 's api_env =
  ev_run :: "nat \<Rightarrow> 's \<Rightarrow> 's option"
  ev_post :: "nat \<Rightarrow> net_err_t"

text \<open>\<^verbatim>\<open>exmsg_func_exec\<close> as the caller sees it, at the \<open>i\<close>-th point where it blocks.\<close>

definition exmsg_func_exec ::
  "'a tcp_state_scheme api_env \<Rightarrow> nat \<Rightarrow> sock_func \<Rightarrow> 'a tcp_state_scheme \<Rightarrow>
   ('a tcp_state_scheme \<times> net_err_t \<times> sock_reply) option" where
  "exmsg_func_exec env i f s =
     (if net_err_neg (ev_post env i) then Some (s, ev_post env i, no_reply)
      else Option.bind (ev_run env i s) (exec_func f))"

text \<open>\<^verbatim>\<open>sock_wait_enter(req.wait, tmo)\<close>; a request that set no wait object left a null pointer.\<close>

definition wait_enter ::
  "'a tcp_state_scheme api_env \<Rightarrow> nat \<Rightarrow> wait_addr option \<Rightarrow> int \<Rightarrow> 'a tcp_state_scheme \<Rightarrow> ('a tcp_state_scheme \<times> net_err_t) option" where
  "wait_enter env i w tmo s = do { w \<leftarrow> w; s \<leftarrow> ev_run env i s; sock_wait_enter w tmo s }"

text \<open>\<^verbatim>\<open>if (req.wait && (err = sock_wait_enter(req.wait, req.wait_tmo)) < NET_OK)\<close>.\<close>

definition wait_if_told ::
  "'a tcp_state_scheme api_env \<Rightarrow> nat \<Rightarrow> wait_req \<Rightarrow> 'a tcp_state_scheme \<Rightarrow> ('a tcp_state_scheme \<times> net_err_t) option" where
  "wait_if_told env i r s = (case r of None \<Rightarrow> Some (s, NET_OK) | Some (w, tmo) \<Rightarrow> wait_enter env i (Some w) tmo s)"

abbreviation (input) SOCKADDR_SIZE :: int where "SOCKADDR_SIZE \<equiv> 16"
abbreviation (input) TCP_CLOSE_MAX_TMO :: int where "TCP_CLOSE_MAX_TMO \<equiv> 5000"

section \<open>Calls without a loop\<close>

text \<open>A request that is only executed: minus one for an error.\<close>

definition simple_call ::
  "'a tcp_state_scheme api_env \<Rightarrow> sock_func \<Rightarrow> 'a tcp_state_scheme \<Rightarrow> ('a tcp_state_scheme \<times> int) option" where
  "simple_call env f s = do { (s, err, _) \<leftarrow> exmsg_func_exec env 0 f s; Some (s, if net_err_neg err then - 1 else 0) }"

definition x_socket ::
  "'a tcp_state_scheme api_env \<Rightarrow> int \<Rightarrow> int \<Rightarrow> int \<Rightarrow> 'a tcp_state_scheme \<Rightarrow> ('a tcp_state_scheme \<times> int) option" where
  "x_socket env family ty protocol s =
     do {
       (s, err, r) \<leftarrow> exmsg_func_exec env 0 (Sock_create family ty protocol) s;
       Some (s, if net_err_neg err then - 1 else rp_fd r)
     }"

definition x_setsockopt ::
  "'a tcp_state_scheme api_env \<Rightarrow> int \<Rightarrow> int \<Rightarrow> int \<Rightarrow> u8 list option \<Rightarrow> int \<Rightarrow> 'a tcp_state_scheme \<Rightarrow> ('a tcp_state_scheme \<times> int) option" where
  "x_setsockopt env sockfd level optname optval optlen s =
     (case optval of
        None \<Rightarrow> Some (s, - 1)
      | Some v \<Rightarrow> if optlen = 0 then Some (s, - 1) else simple_call env (Sock_setsockopt sockfd level optname v optlen) s)"

definition x_bind ::
  "'a tcp_state_scheme api_env \<Rightarrow> int \<Rightarrow> x_sockaddr_in option \<Rightarrow> int \<Rightarrow> 'a tcp_state_scheme \<Rightarrow> ('a tcp_state_scheme \<times> int) option" where
  "x_bind env sockfd addr len s =
     (case addr of
        None \<Rightarrow> Some (s, - 1)
      | Some a \<Rightarrow>
          if len \<noteq> SOCKADDR_SIZE \<or> sin_family a \<noteq> AF_INET then Some (s, - 1) else simple_call env (Sock_bind sockfd a) s)"

definition x_listen :: "'a tcp_state_scheme api_env \<Rightarrow> int \<Rightarrow> int \<Rightarrow> 'a tcp_state_scheme \<Rightarrow> ('a tcp_state_scheme \<times> int) option" where
  "x_listen env sockfd backlog s = simple_call env (Sock_listen sockfd backlog) s"

definition x_close :: "'a tcp_state_scheme api_env \<Rightarrow> int \<Rightarrow> 'a tcp_state_scheme \<Rightarrow> ('a tcp_state_scheme \<times> int) option" where
  "x_close env sockfd s =
     do {
       (s, err, r) \<leftarrow> exmsg_func_exec env 0 (Sock_close sockfd) s;
       if net_err_neg err
       then do { (s, _) \<leftarrow> exmsg_func_exec env 1 (Sock_destroy sockfd) s; Some (s, - 1) }
       else case rp_wait r of
              None \<Rightarrow> Some (s, 0)
            | Some (w, _) \<Rightarrow>
                do {
                  (s, _) \<leftarrow> wait_enter env 1 (Some w) TCP_CLOSE_MAX_TMO s;
                  (s, _) \<leftarrow> exmsg_func_exec env 2 (Sock_destroy sockfd) s;
                  Some (s, 0)
                }
     }"

definition x_connect ::
  "'a tcp_state_scheme api_env \<Rightarrow> int \<Rightarrow> x_sockaddr_in option \<Rightarrow> int \<Rightarrow> 'a tcp_state_scheme \<Rightarrow> ('a tcp_state_scheme \<times> int) option" where
  "x_connect env sockfd addr len s =
     (case addr of
        None \<Rightarrow> Some (s, - 1)
      | Some a \<Rightarrow>
          if len \<noteq> SOCKADDR_SIZE \<or> sin_family a \<noteq> AF_INET \<or> sin_addr a = [0, 0, 0, 0] \<or> sin_port a = 0 then Some (s, - 1)
          else do {
            (s, err, r) \<leftarrow> exmsg_func_exec env 0 (Sock_connect sockfd a) s;
            if net_err_neg err then Some (s, - 1)
            else do {
              (s, err) \<leftarrow> wait_if_told env 1 (rp_wait r) s;
              Some (s, if net_err_neg err then - 1 else 0)
            }
          })"

section \<open>Calls with a loop\<close>

text \<open>
  The loops of \<^verbatim>\<open>x_sendto\<close> and \<^verbatim>\<open>x_send\<close>, with the bytes that are left and the number sent so
  far, and those of \<^verbatim>\<open>x_recvfrom\<close>, \<^verbatim>\<open>x_recv\<close> and \<^verbatim>\<open>x_accept\<close>.  They need not end.
\<close>

partial_function (option) send_loop ::
  "'a tcp_state_scheme api_env \<Rightarrow> (u8 list \<Rightarrow> sock_func) \<Rightarrow> nat \<Rightarrow> u8 list \<Rightarrow> int \<Rightarrow> 'a tcp_state_scheme \<Rightarrow> ('a tcp_state_scheme \<times> int) option" where
  "send_loop env req i buf send_size s =
     (if buf = [] then Some (s, send_size)
      else Option.bind (exmsg_func_exec env i (req buf) s) (\<lambda>(s, err, r).
        if net_err_neg err then Some (s, - 1)
        else Option.bind (wait_if_told env (i + 1) (rp_wait r) s) (\<lambda>(s, err).
          if net_err_neg err then Some (s, - 1)
          else send_loop env req (i + 2) (drop (nat (rp_len r)) buf) (send_size + rp_len r) s)))"

definition x_sendto ::
  "'a tcp_state_scheme api_env \<Rightarrow> int \<Rightarrow> u8 list \<Rightarrow> x_sockaddr_in \<Rightarrow> int \<Rightarrow> 'a tcp_state_scheme \<Rightarrow> ('a tcp_state_scheme \<times> int) option" where
  "x_sendto env sockfd buf dest addr_len s =
     (if addr_len \<noteq> SOCKADDR_SIZE \<or> buf = [] \<or> sin_family dest \<noteq> AF_INET then Some (s, - 1)
      else send_loop env (\<lambda>b. Sock_sendto sockfd b dest) 0 buf 0 s)"

definition x_send ::
  "'a tcp_state_scheme api_env \<Rightarrow> int \<Rightarrow> u8 list \<Rightarrow> 'a tcp_state_scheme \<Rightarrow> ('a tcp_state_scheme \<times> int) option" where
  "x_send env sockfd buf s = send_loop env (Sock_send sockfd) 0 buf 0 s"

partial_function (option) recv_loop ::
  "'a tcp_state_scheme api_env \<Rightarrow> sock_func \<Rightarrow> bool \<Rightarrow> nat \<Rightarrow> 'a tcp_state_scheme \<Rightarrow>
   ('a tcp_state_scheme \<times> int \<times> u8 list \<times> x_sockaddr_in option) option" where
  "recv_loop env req stream i s =
     Option.bind (exmsg_func_exec env i req s) (\<lambda>(s, err, r).
       if net_err_neg err then Some (s, - 1, [], None)
       else if rp_len r \<noteq> 0 then Some (s, rp_len r, rp_bytes r, rp_addr r)
       else Option.bind (wait_enter env (i + 1) (map_option fst (rp_wait r)) (case rp_wait r of Some (_, tmo) \<Rightarrow> tmo | None \<Rightarrow> 0) s)
         (\<lambda>(s, err).
            if stream \<and> err = NET_ERR_CLOSED then Some (s, 0, [], None)
            else if net_err_neg err then Some (s, - 1, [], None)
            else recv_loop env req stream (i + 2) s))"

definition x_recvfrom ::
  "'a tcp_state_scheme api_env \<Rightarrow> int \<Rightarrow> int \<Rightarrow> bool \<Rightarrow> 'a tcp_state_scheme \<Rightarrow>
   ('a tcp_state_scheme \<times> int \<times> u8 list \<times> x_sockaddr_in option) option" where
  "x_recvfrom env sockfd len has_addr s =
     (if len = 0 \<or> \<not> has_addr then Some (s, - 1, [], None) else recv_loop env (Sock_recvfrom sockfd len) False 0 s)"

definition x_recv ::
  "'a tcp_state_scheme api_env \<Rightarrow> int \<Rightarrow> int \<Rightarrow> 'a tcp_state_scheme \<Rightarrow> ('a tcp_state_scheme \<times> int \<times> u8 list) option" where
  "x_recv env sockfd len s = map_option (\<lambda>(s, n, bs, _). (s, n, bs)) (recv_loop env (Sock_recv sockfd len) True 0 s)"

partial_function (option) accept_loop ::
  "'a tcp_state_scheme api_env \<Rightarrow> int \<Rightarrow> nat \<Rightarrow> 'a tcp_state_scheme \<Rightarrow> ('a tcp_state_scheme \<times> int \<times> x_sockaddr_in option) option" where
  "accept_loop env sockfd i s =
     Option.bind (exmsg_func_exec env i (Sock_accept sockfd) s) (\<lambda>(s, err, r).
       if net_err_neg err then Some (s, - 1, None)
       else if rp_fd r \<ge> 0 then Some (s, rp_fd r, rp_addr r)
       else Option.bind (wait_if_told env (i + 1) (rp_wait r) s) (\<lambda>(s, err).
         if net_err_neg err then Some (s, - 1, None) else accept_loop env sockfd (i + 2) s))"

definition x_accept ::
  "'a tcp_state_scheme api_env \<Rightarrow> int \<Rightarrow> bool \<Rightarrow> 'a tcp_state_scheme \<Rightarrow> ('a tcp_state_scheme \<times> int \<times> x_sockaddr_in option) option" where
  "x_accept env sockfd has_addr s = (if \<not> has_addr then Some (s, - 1, None) else accept_loop env sockfd 0 s)"

section \<open>What is sent\<close>

lemma tcp_send_len: "tcp_send t buf s = Some (s', err, n) \<Longrightarrow> \<not> net_err_neg err \<Longrightarrow> \<exists>k. n = Some k \<and> 0 \<le> k \<and> k \<le> int (length buf)"
  by (auto simp: tcp_send_def tcp_write_sndbuf_def Let_def bind_eq_Some_conv split: if_splits)

lemma udp_sendto_len: "udp_sendto u buf a s = Some (s', err, n) \<Longrightarrow> \<not> net_err_neg err \<Longrightarrow> n = Some (int (length buf))"
  by (auto simp: udp_sendto_def Let_def bind_eq_Some_conv split: if_splits prod.splits option.splits)

lemma raw_sendto_len: "raw_sendto u buf a s = Some (s', err, n) \<Longrightarrow> n = None \<or> n = Some (int (length buf))"
  by (auto simp: raw_sendto_def Let_def bind_eq_Some_conv split: if_splits prod.splits option.splits)

lemma send_req_len:
  assumes run: "exec_func (Sock_send fd buf) s = Some (s', err, r)" and err: "\<not> net_err_neg err"
  shows "0 \<le> rp_len r \<and> rp_len r \<le> int (length buf)"
proof (cases "sock_of fd s")
  case (Inr x)
  with run obtain y where y: "sock_of fd s = Inr (Some y)" by (auto simp: sock_send_req_in_def bind_eq_Some_conv)
  note d = sock_send_req_in_def ops_send_def ops_sendto_def sock_send_def no_reply_def bind_eq_Some_conv Let_def case_prod_unfold
  show ?thesis
  proof (cases y)
    case (Raw_sock u)
    with y run show ?thesis by (auto simp: d)
  next
    case (Udp_sock u)
    with y run err show ?thesis by (auto simp: d split: if_splits dest!: udp_sendto_len)
  next
    case (Tcp_sock t)
    with y run err show ?thesis by (auto simp: d dest!: tcp_send_len)
  qed
qed (use run in \<open>auto simp: sock_send_req_in_def no_reply_def\<close>)

lemma sendto_req_len:
  assumes run: "exec_func (Sock_sendto fd buf a) s = Some (s', err, r)" and err: "\<not> net_err_neg err"
  shows "0 \<le> rp_len r \<and> rp_len r \<le> int (length buf)"
proof (cases "sock_of fd s")
  case (Inr x)
  with run obtain y where y: "sock_of fd s = Inr (Some y)" by (auto simp: sock_sendto_req_in_def bind_eq_Some_conv)
  note d = sock_sendto_req_in_def ops_sendto_def no_reply_def bind_eq_Some_conv Let_def case_prod_unfold
  show ?thesis
  proof (cases y)
    case (Raw_sock u)
    with y run show ?thesis by (auto simp: d dest!: raw_sendto_len)
  next
    case (Udp_sock u)
    with y run err show ?thesis by (auto simp: d dest!: udp_sendto_len)
  next
    case (Tcp_sock t)
    with y run err show ?thesis by (auto simp: d)
  qed
qed (use run in \<open>auto simp: sock_sendto_req_in_def no_reply_def\<close>)

lemma exec_len:
  fixes s :: "'a tcp_state_scheme"
  assumes "exmsg_func_exec env i f s = Some (s', err, r)" "\<not> net_err_neg err"
    and "\<And>(s :: 'a tcp_state_scheme) s' err r. exec_func f s = Some (s', err, r) \<Longrightarrow> \<not> net_err_neg err \<Longrightarrow> 0 \<le> rp_len r \<and> rp_len r \<le> n"
  shows "0 \<le> rp_len r \<and> rp_len r \<le> n"
proof -
  from assms(1,2) obtain s1 where "exec_func f s1 = Some (s', err, r)" by (auto simp: exmsg_func_exec_def bind_eq_Some_conv split: if_splits)
  with assms(2,3) show ?thesis by blast
qed

lemma send_loop_all:
  fixes s :: "'a tcp_state_scheme"
  assumes run: "send_loop env req i buf k s = Some r"
    and len: "\<And>b (s :: 'a tcp_state_scheme) s' err r. exec_func (req b) s = Some (s', err, r) \<Longrightarrow> \<not> net_err_neg err \<Longrightarrow> 0 \<le> rp_len r \<and> rp_len r \<le> int (length b)"
  shows "snd r = - 1 \<or> snd r = k + int (length buf)"
  using run
proof (rule send_loop.raw_induct [of "\<lambda>env' req' i buf k s r. req' = req \<longrightarrow> snd r = - 1 \<or> snd r = k + int (length buf)", rotated, THEN mp [OF _ refl]], goal_cases)
  case (1 loop env req' i buf k s r)
  show ?case
  proof
    assume rq: "req' = req"
    show "snd r = - 1 \<or> snd r = k + int (length buf)"
    proof (cases "buf = [] \<or> snd r = - 1")
      case True
      with 1(2) show ?thesis by auto
    next
      case False
      with 1(2) obtain s1 err rp s2 where e: "exmsg_func_exec env i (req buf) s = Some (s1, err, rp)" "\<not> net_err_neg err"
        and l: "loop env req' (i + 2) (drop (nat (rp_len rp)) buf) (k + rp_len rp) s2 = Some r"
        by (auto simp: rq bind_eq_Some_conv split: if_splits)
      have "0 \<le> rp_len rp \<and> rp_len rp \<le> int (length buf)" using exec_len [OF e] len by blast
      then show ?thesis using 1(1) [OF l] rq by auto
    qed
  qed
qed

lemma send_loop_requests:
  "send_loop env (Sock_send fd) i buf k s = Some (s', n) \<Longrightarrow> n = - 1 \<or> n = k + int (length buf)"
  "send_loop env (\<lambda>b. Sock_sendto fd b dest) i buf k s = Some (s', n) \<Longrightarrow> n = - 1 \<or> n = k + int (length buf)"
  by (drule send_loop_all, erule (1) send_req_len, simp) (drule send_loop_all, erule (1) sendto_req_len, simp)

text \<open>C7. A send call is all or nothing to its caller: whatever the worker thread does while the caller is blocked, x_send and
  x_sendto return either minus one or the full number of bytes, never a part of it.\<close>

theorem x_send_all_or_error:
  "(x_send env fd buf s = Some (s', n) \<longrightarrow> n = - 1 \<or> n = int (length buf)) \<and>
   (x_sendto env fd buf dest alen s = Some (s', n) \<longrightarrow> n = - 1 \<or> n = int (length buf))"
  by (auto simp: x_send_def x_sendto_def split: if_splits dest!: send_loop_requests)

text \<open>A worker thread that does nothing else.\<close>

definition idle_env :: "'s api_env" where
  "idle_env = \<lparr>ev_run = (\<lambda>_. Some), ev_post = (\<lambda>_. NET_OK)\<rparr>"

lemma exec_idle [simp]: "exmsg_func_exec idle_env i f s = exec_func f s"
  by (simp add: exmsg_func_exec_def idle_env_def)

definition api_sample :: "tcp_t \<Rightarrow> tcp_state" where
  "api_sample c = (hdr_sample [] c)\<lparr>socket_tbl := [\<lparr>sk_state = SOCKET_STATE_USED, sk_sock = Some (Tcp_sock 0)\<rparr>]\<rparr>"

lemma api_sample_simps [simp]:
  "tcps (api_sample c) t = c" "sock_of 0 (api_sample c) = Inr (Some (Tcp_sock 0))" "socks (api_sample c) = sample_sock"
  by (simp_all add: api_sample_def sock_of_def get_socket_def)

definition sending_sample :: tcp_t where
  "sending_sample = zero_tcp\<lparr>t_state := TCP_STATE_ESTABLISHED, t_ostate := TCP_OSTATE_SENDING, t_snd_una := 1, t_snd_nxt := 2,
     t_fin_out := False, t_snd_buf := tcp_buf_init [0, 0, 0, 0] 4\<rparr>"

lemma wait_if_False [simp]: "wait_if False w tmo s = (s, None)"
  by (simp add: wait_if_def split: option.split)

theorem x_send_all_or_error_witness:
  "\<exists>s'. x_send idle_env 0 [7, 8, 9] (api_sample sending_sample) = Some (s', 3) \<and> ((3 :: int) = - 1 \<or> (3 :: int) = int (length [7, 8, 9 :: u8]))"
proof -
  obtain s1 where e: "exec_func (Sock_send 0 [7, 8, 9]) (api_sample sending_sample) = Some (s1, NET_OK, no_reply\<lparr>rp_len := 3\<rparr>)"
    by (simp add: sock_send_req_in_def ops_send_def tcp_send_def tcp_write_sndbuf_def sending_sample_def tcp_buf_free_cnt_def
        tcp_buf_write_send_def tcp_buf_push_def tcp_buf_init_def tcp_out_event_def tcp_ostate_sending_in_def sample_sock_def
        eval_nat_numeral no_reply_def)
  then have r: "x_send idle_env 0 [7, 8, 9] (api_sample sending_sample) = Some (s1, 3)"
    unfolding x_send_def by (subst send_loop.simps, subst send_loop.simps) (simp add: no_reply_def wait_if_told_def)
  then have "(3 :: int) = - 1 \<or> (3 :: int) = int (length [7, 8, 9 :: u8])"
    using x_send_all_or_error [of idle_env 0 "[7, 8, 9]" "api_sample sending_sample" s1 3 undefined 0] by blast
  with r show ?thesis by blast
qed

section \<open>Reading at the end of the stream\<close>

text \<open>The answer to the request when the peer has closed: the states in which bytes may be left, and the others.\<close>

lemma recv_closed_req:
  assumes fd: "sock_of fd s = Inr (Some (Tcp_sock t))" and ok: "tb_ok (t_rcv_buf (tcps s t))" "0 \<le> len"
    and st: "t_state (tcps s t) \<in> {TCP_STATE_CLOSE_WAIT, TCP_STATE_CLOSING}"
    and bs: "bs = take (nat len) (tb_seq (t_rcv_buf (tcps s t)))"
  obtains b where "tb_seq b = drop (nat len) (tb_seq (t_rcv_buf (tcps s t)))"
    "exec_func (Sock_recv fd len) s = Some (upd_tcp t (\<lambda>c. c\<lparr>t_rcv_buf := b\<rparr>) s, NET_OK, no_reply\<lparr>rp_len := int (length bs), rp_bytes := bs\<rparr>)"
proof -
  from tcp_buf_read_rcv_ok [OF ok] obtain b where
    rd: "tcp_buf_read_rcv (t_rcv_buf (tcps s t)) len = Some (b, bs, min len (tb_count (t_rcv_buf (tcps s t))))" and
    b: "tb_seq b = drop (nat len) (tb_seq (t_rcv_buf (tcps s t)))" unfolding bs by blast
  have n: "min len (tb_count (t_rcv_buf (tcps s t))) = int (length bs)" using tb_seq_length [OF ok(1)] ok(2) by (auto simp: bs min_def)
  have "tcp_recv t len s = Some (upd_tcp t (\<lambda>c. c\<lparr>t_rcv_buf := b\<rparr>) s, NET_OK, bs, Some (int (length bs)))"
    using st rd by (auto simp: tcp_recv_def Let_def n)
  then have "exec_func (Sock_recv fd len) s = Some (upd_tcp t (\<lambda>c. c\<lparr>t_rcv_buf := b\<rparr>) s, NET_OK, no_reply\<lparr>rp_len := int (length bs), rp_bytes := bs\<rparr>)"
    using fd by (simp add: sock_recv_req_in_def ops_recv_def no_reply_def)
  with b show ?thesis by (rule that)
qed

lemma recv_error_req:
  assumes "sock_of fd s = Inr (Some (Tcp_sock t))" "t_state (tcps s t) \<in> {TCP_STATE_LAST_ACK, TCP_STATE_CLOSED, TCP_STATE_TIME_WAIT}"
  shows "\<exists>err r. exec_func (Sock_recv fd len) s = Some (s, err, r) \<and> net_err_neg err"
  using assms by (auto simp: sock_recv_req_in_def ops_recv_def tcp_recv_def no_reply_def)

text \<open>C30. The end of the stream is not reported as such to a reader. In the states CLOSE-WAIT and CLOSING, in which the peer has closed and
  the reader may still read, the request of x_recv takes the stored bytes, as many as asked for, and is answered without error, with their
  number and without a wait object. When there are any, x_recv returns them; when there is none, no worker thread can make it
  return: it goes on to wait on the null pointer of that answer instead of returning 0. In LAST-ACK, CLOSED and TIME-WAIT x_recv returns minus one,
  whether bytes are stored or not. The worker thread may do anything before it serves the request; s is the state in which it does.\<close>

theorem x_recv_at_end:
  assumes "\<not> net_err_neg (ev_post env 0)" "ev_run env 0 s0 = Some s" and fd: "sock_of fd s = Inr (Some (Tcp_sock t))"
    and buf: "tb_ok (t_rcv_buf (tcps s t))" "0 \<le> len" and bs: "bs = take (nat len) (tb_seq (t_rcv_buf (tcps s t)))"
  shows "(t_state (tcps s t) \<in> {TCP_STATE_CLOSE_WAIT, TCP_STATE_CLOSING} \<longrightarrow>
      (\<exists>b r. tb_seq b = drop (nat len) (tb_seq (t_rcv_buf (tcps s t))) \<and>
         exec_func (Sock_recv fd len) s = Some (upd_tcp t (\<lambda>c. c\<lparr>t_rcv_buf := b\<rparr>) s, NET_OK, r) \<and>
         rp_wait r = None \<and> rp_len r = int (length bs) \<and> rp_bytes r = bs \<and>
         x_recv env fd len s0 = (if bs = [] then None else Some (upd_tcp t (\<lambda>c. c\<lparr>t_rcv_buf := b\<rparr>) s, int (length bs), bs)))) \<and>
    (t_state (tcps s t) \<in> {TCP_STATE_LAST_ACK, TCP_STATE_CLOSED, TCP_STATE_TIME_WAIT} \<longrightarrow> x_recv env fd len s0 = Some (s, - 1, []))"
proof (intro conjI impI)
  have x: "exmsg_func_exec env 0 f s0 = exec_func f s" for f using assms(1,2) by (simp add: exmsg_func_exec_def)
  {
    assume "t_state (tcps s t) \<in> {TCP_STATE_CLOSE_WAIT, TCP_STATE_CLOSING}"
    from recv_closed_req [OF fd buf this bs] obtain b where b: "tb_seq b = drop (nat len) (tb_seq (t_rcv_buf (tcps s t)))" and
      e: "exec_func (Sock_recv fd len) s = Some (upd_tcp t (\<lambda>c. c\<lparr>t_rcv_buf := b\<rparr>) s, NET_OK, no_reply\<lparr>rp_len := int (length bs), rp_bytes := bs\<rparr>)" .
    have "x_recv env fd len s0 = (if bs = [] then None else Some (upd_tcp t (\<lambda>c. c\<lparr>t_rcv_buf := b\<rparr>) s, int (length bs), bs))"
      unfolding x_recv_def by (subst recv_loop.simps) (simp add: x e wait_enter_def no_reply_def del: exec_func.simps)
    with b e show "\<exists>b r. tb_seq b = drop (nat len) (tb_seq (t_rcv_buf (tcps s t))) \<and>
         exec_func (Sock_recv fd len) s = Some (upd_tcp t (\<lambda>c. c\<lparr>t_rcv_buf := b\<rparr>) s, NET_OK, r) \<and>
         rp_wait r = None \<and> rp_len r = int (length bs) \<and> rp_bytes r = bs \<and>
         x_recv env fd len s0 = (if bs = [] then None else Some (upd_tcp t (\<lambda>c. c\<lparr>t_rcv_buf := b\<rparr>) s, int (length bs), bs))"
      by (intro exI [of _ b] exI [of _ "no_reply\<lparr>rp_len := int (length bs), rp_bytes := bs\<rparr>"]) (simp add: no_reply_def del: exec_func.simps)
  next
    assume "t_state (tcps s t) \<in> {TCP_STATE_LAST_ACK, TCP_STATE_CLOSED, TCP_STATE_TIME_WAIT}"
    from recv_error_req [OF fd this, of len] obtain err r where "exec_func (Sock_recv fd len) s = Some (s, err, r)" "net_err_neg err" by blast
    then show "x_recv env fd len s0 = Some (s, - 1, [])" unfolding x_recv_def by (subst recv_loop.simps) (simp add: x del: exec_func.simps)
  }
qed

definition end_sample :: "tcp_state_t \<Rightarrow> int \<Rightarrow> tcp_t" where
  "end_sample st n = zero_tcp\<lparr>t_state := st, t_rcv_buf := \<lparr>tb_count = n, tb_in = n, tb_out = 0, tb_size = 4, tb_data = [7, 8, 0, 0]\<rparr>\<rparr>"

theorem x_recv_at_end_witness:
  "(\<exists>r. map_option snd (exec_func (Sock_recv 0 4) (api_sample (end_sample TCP_STATE_CLOSE_WAIT 0))) = Some (NET_OK, r) \<and> rp_wait r = None \<and> rp_len r = 0) \<and>
   x_recv idle_env 0 4 (api_sample (end_sample TCP_STATE_CLOSE_WAIT 0)) = None \<and>
   (\<exists>s'. x_recv idle_env 0 4 (api_sample (end_sample TCP_STATE_CLOSE_WAIT 2)) = Some (s', 2, [7, 8])) \<and>
   x_recv idle_env 0 4 (api_sample (end_sample TCP_STATE_TIME_WAIT 2)) = Some (api_sample (end_sample TCP_STATE_TIME_WAIT 2), - 1, [])"
proof -
  have ok: "tb_ok (t_rcv_buf (end_sample st n))" if "n \<in> {0, 2}" for st n
    using that by (auto simp: end_sample_def tb_ok_def ring_ok_def)
  have sq: "tb_seq (t_rcv_buf (end_sample st 0)) = []" "tb_seq (t_rcv_buf (end_sample st 2)) = [7, 8]" for st
    by (simp_all add: end_sample_def tb_seq_def ring_seq_def ring_at_def numeral_2_eq_2)
  have st: "t_state (end_sample st n) = st" for st n by (simp add: end_sample_def)
  note w = x_recv_at_end [of idle_env "api_sample (end_sample st n)" "api_sample (end_sample st n)" 0 0 4 for st n, OF _ _ _ _ _ refl,
      unfolded api_sample_simps, OF _ _ refl ok]
  from w [of TCP_STATE_CLOSE_WAIT 0] w [of TCP_STATE_CLOSE_WAIT 2] w [of TCP_STATE_TIME_WAIT 2]
  show ?thesis by (auto simp: idle_env_def st sq simp del: exec_func.simps)
qed

lemma free_packets_udp [simp]:
  "socket_tbl (free_packets ps s) = socket_tbl (s :: 'a udp_state_scheme)" "udp_mblock (free_packets ps s) = udp_mblock s"
  "udp_list (free_packets ps s) = udp_list s"
  using ip_keep_arp [OF arp_keep_free(2) [THEN iffD2, OF arp_keep_refl], of s ps]
  by (cases s; cases "free_packets ps s"; simp add: ip_keep_def)+

text \<open>C31. Closing the descriptor of a UDP socket reports success and gives the socket's block back to its pool, but the entry of the
  descriptor table stays as it was: it remains in use and keeps pointing to the freed socket.\<close>

theorem x_close_keeps_descriptor:
  assumes "sock_of fd s = Inr (Some (Udp_sock u))"
  shows "\<exists>s'. x_close idle_env fd s = Some (s', 0) \<and> socket_tbl s' = socket_tbl s \<and> sock_of fd s' = Inr (Some (Udp_sock u)) \<and>
     udp_mblock s' = pool_free (udp_mblock s) u \<and> udp_list s' = remove1 u (udp_list s)"
proof -
  obtain s1 where s1: "udp_close u s = (s1, NET_OK)" "socket_tbl s1 = socket_tbl s" "udp_mblock s1 = pool_free (udp_mblock s) u"
      "udp_list s1 = remove1 u (udp_list s)"
    by (simp add: udp_close_def Let_def upd_udp_recv_def)
  then have "exec_func (Sock_close fd) s = Some (s1, NET_OK, no_reply)"
    using assms by (simp add: sock_close_req_in_def ops_close_def no_reply_def)
  with s1 assms show ?thesis by (auto simp: x_close_def no_reply_def sock_of_def get_socket_def split: if_splits)
qed

definition udp_sample :: tcp_state where
  "udp_sample = (hdr_sample [] zero_tcp)\<lparr>socket_tbl := [\<lparr>sk_state = SOCKET_STATE_USED, sk_sock = Some (Udp_sock 3)\<rparr>], udp_list := [3]\<rparr>"

theorem x_close_keeps_descriptor_witness:
  "\<exists>s'. x_close idle_env 0 udp_sample = Some (s', 0) \<and> socket_tbl s' = socket_tbl udp_sample \<and> udp_list s' = []"
  using x_close_keeps_descriptor [of 0 udp_sample 3] by (auto simp: udp_sample_def sock_of_def get_socket_def)

end
