(* ===== verification/Net_Plat.thy ===== *)
theory Net_Plat
  imports Net_Queue "HOL-Library.Signed_Division"
begin

text \<open>
  The parts of \<^verbatim>\<open>src/platform/sys_plat.c\<close> that are more than a call of the operating system: the
  differences of times, the semaphores of the Linux build, which are made of a counter, a mutex
  and a condition variable, and the search for and opening of a capture device; and
  \<^verbatim>\<open>src/common/locker.c\<close>.  The mutex and the condition variable behave as POSIX says: waiting
  gives the mutex up and takes it again before it returns, a signal wakes at least one of
  the threads that wait, and a thread may also be woken without a signal.  The capture library
  is a parameter.
\<close>

section \<open>Time\<close>

record timeval =
  tv_sec :: int
  tv_usec :: int

text \<open>\<^verbatim>\<open>sys_time_goes\<close> of the Linux build, with the time read as an argument; the difference is stored in an \<^verbatim>\<open>int\<close>.\<close>

definition sys_time_goes :: "timeval \<Rightarrow> timeval \<Rightarrow> timeval \<times> int" where
  "sys_time_goes now pre =
     (now, signed_take_bit 31 ((tv_sec now - tv_sec pre) * 1000 + (tv_usec now - tv_usec pre) sdiv 1000))"

text \<open>Of the Windows build: the difference of two tick counts, which wrap around.\<close>

definition sys_time_goes_ticks :: "u32 \<Rightarrow> u32 \<Rightarrow> u32 \<times> int" where
  "sys_time_goes_ticks now pre = (now, sint (now - pre))"

definition tv_ok :: "timeval \<Rightarrow> bool" where
  "tv_ok t \<longleftrightarrow> 0 \<le> tv_usec t \<and> tv_usec t < 1000000"

definition tv_us :: "timeval \<Rightarrow> int" where
  "tv_us t = tv_sec t * 1000000 + tv_usec t"

text \<open>The absolute time until which \<^verbatim>\<open>sys_sem_wait\<close> waits, in nanoseconds; \<open>sec\<close> is \<^verbatim>\<open>time(NULL)\<close>.\<close>

definition sem_deadline :: "int \<Rightarrow> u32 \<Rightarrow> int" where
  "sem_deadline sec tmo_ms = (sec + uint (tmo_ms div 1000)) * 1000000000 + uint (tmo_ms mod 1000) * 1000000"

section \<open>Semaphores from a mutex and a condition variable\<close>

text \<open>
  Where a thread stands: outside, in \<^verbatim>\<open>sys_sem_wait\<close> before the lock, at the test of the counter,
  waiting for the condition, woken (with the result of the wait: timed out or not), before
  the decrement, before the unlock that returns; in \<^verbatim>\<open>sys_sem_notify\<close> before the lock, the
  increment, the signal and the unlock.
\<close>

datatype sem_pc =
    Outside
  | Wait_lock u32
  | Wait_test u32
  | Wait_cond u32
  | Wait_woken bool
  | Wait_take
  | Wait_unlock int
  | Notify_lock
  | Notify_inc
  | Notify_signal
  | Notify_unlock

text \<open>The semaphore, the threads, and how often a unit was given and taken.\<close>

record sem_sys =
  sem_count :: int
  sem_locker :: "nat option"
  sem_cond :: "nat list"
  sem_pcs :: "nat \<Rightarrow> sem_pc"
  sem_given :: int
  sem_taken :: int

definition sem_goto :: "nat \<Rightarrow> sem_pc \<Rightarrow> sem_sys \<Rightarrow> sem_sys" where
  "sem_goto t pc s = s\<lparr>sem_pcs := (sem_pcs s)(t := pc)\<rparr>"

text \<open>Woken threads leave the condition's queue.\<close>

definition sem_wake :: "nat list \<Rightarrow> bool \<Rightarrow> sem_sys \<Rightarrow> sem_sys" where
  "sem_wake ts timed_out s =
     s\<lparr>sem_cond := filter (\<lambda>t. t \<notin> set ts) (sem_cond s),
       sem_pcs := (\<lambda>t. if t \<in> set ts then Wait_woken timed_out else sem_pcs s t)\<rparr>"

text \<open>
  What happens next: a call, the next line of a thread (with the threads that a signal wakes),
  the end of a timed wait, or a wake-up without a signal.
\<close>

datatype sem_event = Call_wait nat u32 | Call_notify nat | Run nat "nat list" | Timeout nat | Spurious nat

fun sem_run :: "nat \<Rightarrow> nat list \<Rightarrow> sem_pc \<Rightarrow> sem_sys \<Rightarrow> sem_sys option" where
  "sem_run t woken (Wait_lock tmo) s =
     (if sem_locker s = None then Some (sem_goto t (Wait_test tmo) (s\<lparr>sem_locker := Some t\<rparr>)) else None)"
| "sem_run t woken (Wait_test tmo) s =
     (if sem_count s \<le> 0 then Some (sem_goto t (Wait_cond tmo) (s\<lparr>sem_locker := None, sem_cond := sem_cond s @ [t]\<rparr>))
      else Some (sem_goto t Wait_take s))"
| "sem_run t woken (Wait_woken timed_out) s =
     (if sem_locker s = None
      then Some (sem_goto t (if timed_out then Wait_unlock (- 1) else Wait_take) (s\<lparr>sem_locker := Some t\<rparr>)) else None)"
| "sem_run t woken Wait_take s =
     Some (sem_goto t (Wait_unlock 0) (s\<lparr>sem_count := sem_count s - 1, sem_taken := sem_taken s + 1\<rparr>))"
| "sem_run t woken (Wait_unlock ret) s = Some (sem_goto t Outside (s\<lparr>sem_locker := None\<rparr>))"
| "sem_run t woken Notify_lock s =
     (if sem_locker s = None then Some (sem_goto t Notify_inc (s\<lparr>sem_locker := Some t\<rparr>)) else None)"
| "sem_run t woken Notify_inc s =
     Some (sem_goto t Notify_signal (s\<lparr>sem_count := sem_count s + 1, sem_given := sem_given s + 1\<rparr>))"
| "sem_run t woken Notify_signal s =
     (if set woken \<subseteq> set (sem_cond s) \<and> (woken = [] \<longrightarrow> sem_cond s = [])
      then Some (sem_goto t Notify_unlock (sem_wake woken False s)) else None)"
| "sem_run t woken Notify_unlock s = Some (sem_goto t Outside (s\<lparr>sem_locker := None\<rparr>))"
| "sem_run t woken _ s = None"

fun sem_step :: "sem_event \<Rightarrow> sem_sys \<Rightarrow> sem_sys option" where
  "sem_step (Call_wait t tmo) s = (if sem_pcs s t = Outside then Some (sem_goto t (Wait_lock tmo) s) else None)"
| "sem_step (Call_notify t) s = (if sem_pcs s t = Outside then Some (sem_goto t Notify_lock s) else None)"
| "sem_step (Run t woken) s = sem_run t woken (sem_pcs s t) s"
| "sem_step (Timeout t) s =
     (case sem_pcs s t of Wait_cond tmo \<Rightarrow> if tmo > 0 then Some (sem_wake [t] True s) else None | _ \<Rightarrow> None)"
| "sem_step (Spurious t) s = (case sem_pcs s t of Wait_cond tmo \<Rightarrow> Some (sem_wake [t] False s) | _ \<Rightarrow> None)"

fun sem_steps :: "sem_event list \<Rightarrow> sem_sys \<Rightarrow> sem_sys option" where
  "sem_steps [] s = Some s"
| "sem_steps (e # es) s = Option.bind (sem_step e s) (sem_steps es)"

definition sem_start :: "int \<Rightarrow> sem_sys" where
  "sem_start n = \<lparr>sem_count = n, sem_locker = None, sem_cond = [], sem_pcs = (\<lambda>_. Outside), sem_given = 0, sem_taken = 0\<rparr>"

text \<open>The lines between the lock and the unlock.\<close>

fun in_section :: "sem_pc \<Rightarrow> bool" where
  "in_section (Wait_test _) = True" | "in_section Wait_take = True" | "in_section (Wait_unlock _) = True"
| "in_section Notify_inc = True" | "in_section Notify_signal = True" | "in_section Notify_unlock = True"
| "in_section _ = False"

text \<open>What every schedule keeps.\<close>

definition sem_inv :: "int \<Rightarrow> sem_sys \<Rightarrow> bool" where
  "sem_inv n s \<longleftrightarrow> sem_count s = n + sem_given s - sem_taken s \<and>
     (\<forall>t. in_section (sem_pcs s t) \<longleftrightarrow> sem_locker s = Some t) \<and>
     (\<forall>t. t \<in> set (sem_cond s) \<longleftrightarrow> (\<exists>tmo. sem_pcs s t = Wait_cond tmo))"

text \<open>A run in which only the threads of \<open>W\<close> wait and nobody is woken without a signal.\<close>

fun orderly :: "nat set \<Rightarrow> sem_event \<Rightarrow> bool" where
  "orderly W (Call_wait t tmo) \<longleftrightarrow> t \<in> W" | "orderly W (Spurious t) \<longleftrightarrow> False" | "orderly W _ \<longleftrightarrow> True"

definition single_inv :: "nat \<Rightarrow> sem_sys \<Rightarrow> bool" where
  "single_inv w s \<longleftrightarrow> 0 \<le> sem_count s \<and>
     (\<forall>t. sem_pcs s t \<in> {Wait_take, Wait_woken False, Notify_signal} \<longrightarrow> 0 < sem_count s) \<and>
     (\<forall>t. t \<noteq> w \<longrightarrow> sem_pcs s t \<in> {Outside, Notify_lock, Notify_inc, Notify_signal, Notify_unlock})"

text \<open>\<^verbatim>\<open>sys_sem_create\<close>; each of the three parts may fail to be created.\<close>

definition sys_sem_create :: "bool \<Rightarrow> bool \<Rightarrow> bool \<Rightarrow> int \<Rightarrow> sem_sys option" where
  "sys_sem_create malloc_ok cond_ok mutex_ok init_count =
     (if \<not> malloc_ok then None else if \<not> cond_ok then None else if \<not> mutex_ok then None else Some (sem_start init_count))"

section \<open>Lockers\<close>

text \<open>A locker with the thread that holds its mutex; only lockers between threads have one.\<close>

record locker_t =
  lk_type :: locker_type_t
  lk_mutex :: "nat option"

definition locker_init :: "bool \<Rightarrow> locker_type_t \<Rightarrow> locker_t option \<times> net_err_t" where
  "locker_init mutex_ok type =
     (if type = LOCKER_THREAD \<and> \<not> mutex_ok then (None, NET_ERR_SYS) else (Some \<lparr>lk_type = type, lk_mutex = None\<rparr>, NET_OK))"

text \<open>No result: the thread waits for the mutex.\<close>

definition locker_lock :: "nat \<Rightarrow> locker_t \<Rightarrow> locker_t option" where
  "locker_lock t l =
     (if lk_type l = LOCKER_THREAD then if lk_mutex l = None then Some (l\<lparr>lk_mutex := Some t\<rparr>) else None else Some l)"

definition locker_unlock :: "nat \<Rightarrow> locker_t \<Rightarrow> locker_t" where
  "locker_unlock t l = (if lk_type l = LOCKER_THREAD then l\<lparr>lk_mutex := None\<rparr> else l)"

lemma locker_excludes:
  "lk_type l = LOCKER_THREAD \<Longrightarrow> locker_lock t l = Some l' \<Longrightarrow> locker_lock u l' = None \<and> locker_lock u (locker_unlock t l') \<noteq> None"
  by (auto simp: locker_lock_def locker_unlock_def split: if_splits)

section \<open>Facts about semaphores\<close>

lemma sem_goto_simps [simp]:
  "sem_count (sem_goto t pc s) = sem_count s" "sem_locker (sem_goto t pc s) = sem_locker s" "sem_cond (sem_goto t pc s) = sem_cond s"
  "sem_pcs (sem_goto t pc s) = (sem_pcs s)(t := pc)" "sem_given (sem_goto t pc s) = sem_given s" "sem_taken (sem_goto t pc s) = sem_taken s"
  by (simp_all add: sem_goto_def)

lemma sem_wake_simps [simp]:
  "sem_count (sem_wake ts b s) = sem_count s" "sem_locker (sem_wake ts b s) = sem_locker s"
  "sem_cond (sem_wake ts b s) = filter (\<lambda>t. t \<notin> set ts) (sem_cond s)"
  "sem_pcs (sem_wake ts b s) t = (if t \<in> set ts then Wait_woken b else sem_pcs s t)"
  "sem_given (sem_wake ts b s) = sem_given s" "sem_taken (sem_wake ts b s) = sem_taken s"
  by (simp_all add: sem_wake_def)

lemma sem_run_inv: "sem_run t woken (sem_pcs s t) s = Some s' \<Longrightarrow> sem_inv n s \<Longrightarrow> sem_inv n s'"
  by (cases "sem_pcs s t") (auto simp: sem_inv_def split: if_splits, (metis in_section.simps)+)

lemma sem_step_inv: "sem_step e s = Some s' \<Longrightarrow> sem_inv n s \<Longrightarrow> sem_inv n s'"
  by (cases e) (auto simp: sem_inv_def split: if_splits sem_pc.splits dest: sem_run_inv [unfolded sem_inv_def], (metis in_section.simps)+)

lemma sem_steps_inv: "sem_steps es s = Some s' \<Longrightarrow> sem_inv n s \<Longrightarrow> sem_inv n s'"
  by (induction es s rule: sem_steps.induct) (auto simp: bind_eq_Some_conv dest: sem_step_inv)

lemma single_run:
  assumes "sem_run t woken (sem_pcs s t) s = Some s'" "sem_inv n s" "single_inv w s"
  shows "single_inv w s'"
proof -
  have sec: "in_section (sem_pcs s u) \<longleftrightarrow> sem_locker s = Some u" for u using assms(2) by (simp add: sem_inv_def)
  have cond: "u \<in> set (sem_cond s) \<longleftrightarrow> (\<exists>tmo. sem_pcs s u = Wait_cond tmo)" for u using assms(2) by (simp add: sem_inv_def)
  have pos: "sem_pcs s u \<in> {Wait_take, Wait_woken False, Notify_signal} \<Longrightarrow> 0 < sem_count s"
    and oth: "u \<noteq> w \<Longrightarrow> sem_pcs s u \<in> {Outside, Notify_lock, Notify_inc, Notify_signal, Notify_unlock}" for u
    using assms(3) by (auto simp: single_inv_def)
  show ?thesis
  proof (cases "sem_pcs s t")
    case Wait_take
    then have w: "t = w" and sc: "0 < sem_count s" using oth [of t] pos [of t] by auto
    have "sem_pcs s u \<noteq> Wait_take \<and> sem_pcs s u \<noteq> Wait_woken False \<and> sem_pcs s u \<noteq> Notify_signal" if "u \<noteq> t" for u
      using that w oth [of u] sec [of u] sec [of t] Wait_take by auto
    with assms(1,3) Wait_take sc w show ?thesis by (auto simp: single_inv_def split: if_splits)
  next
    case Notify_signal
    with pos [of t] have sc: "0 < sem_count s" by simp
    have c: "set (sem_cond s) \<subseteq> {w}" using cond oth by fastforce
    from assms(1) Notify_signal have s': "s' = sem_goto t Notify_unlock (sem_wake woken False s)" and "set woken \<subseteq> {w}"
      using c by (auto split: if_splits)
    then have "u \<noteq> w \<Longrightarrow> u \<noteq> t \<Longrightarrow> sem_pcs s' u = sem_pcs s u" for u by auto
    with assms(3) sc show ?thesis by (simp add: single_inv_def s')
  qed (use assms(1,3) in \<open>auto simp: single_inv_def split: if_splits\<close>)
qed

lemma single_step:
  assumes "sem_step e s = Some s'" "orderly {w} e" "sem_inv n s" "single_inv w s"
  shows "single_inv w s'"
  using assms by (cases e) (auto simp: single_run, auto simp: single_inv_def split: if_splits sem_pc.splits)

lemma single_steps:
  "sem_steps es s = Some s' \<Longrightarrow> \<forall>e\<in>set es. orderly {w} e \<Longrightarrow> sem_inv n s \<Longrightarrow> single_inv w s \<Longrightarrow> single_inv w s'"
  by (induction es s rule: sem_steps.induct) (auto simp: bind_eq_Some_conv dest: sem_step_inv single_step)

lemma sem_start_inv: "sem_inv n (sem_start n)" "0 \<le> n \<Longrightarrow> single_inv w (sem_start n)"
  by (simp_all add: sem_inv_def single_inv_def sem_start_def)

text \<open>C17. Linux semaphores count correctly under every schedule of any number of threads: the counter is the initial value plus
  the units given by notifications minus those taken by waits that returned without an error, at most one thread is between
  lock and unlock, and the holder of the mutex is that thread. When only one thread ever waits and no thread is woken without
  a signal, a wait takes a unit only when there is one.\<close>

theorem linux_sem_accounting:
  assumes "sem_steps es (sem_start n) = Some s"
  shows "sem_count s = n + sem_given s - sem_taken s \<and>
    (in_section (sem_pcs s t) \<and> in_section (sem_pcs s u) \<longrightarrow> t = u) \<and>
    (in_section (sem_pcs s t) \<longleftrightarrow> sem_locker s = Some t) \<and>
    (0 \<le> n \<and> (\<forall>e\<in>set es. orderly {w} e) \<longrightarrow> 0 \<le> sem_count s \<and> sem_taken s \<le> n + sem_given s)"
proof -
  have i: "sem_inv n s" by (rule sem_steps_inv [OF assms sem_start_inv(1)])
  then have "in_section (sem_pcs s v) \<longleftrightarrow> sem_locker s = Some v" for v by (simp add: sem_inv_def)
  moreover have "0 \<le> sem_count s" if "0 \<le> n" "\<forall>e\<in>set es. orderly {w} e"
    using single_steps [OF assms that(2) sem_start_inv(1) sem_start_inv(2) [OF that(1)]] by (simp add: single_inv_def)
  ultimately show ?thesis using i by (auto simp: sem_inv_def)
qed

text \<open>One thread waits, another notifies, the first is woken and takes the unit.\<close>

definition one_waiter :: "sem_event list" where
  "one_waiter = [Call_wait 0 0, Run 0 [], Run 0 [], Call_notify 1, Run 1 [], Run 1 [], Run 1 [0], Run 1 [], Run 0 [], Run 0 []]"

theorem linux_sem_accounting_witness:
  "\<exists>s. sem_steps one_waiter (sem_start 0) = Some s \<and> sem_given s = 1 \<and> sem_taken s = 1 \<and> 0 \<le> sem_count s \<and> sem_count s = 0"
proof -
  obtain s where s: "sem_steps one_waiter (sem_start 0) = Some s" "sem_given s = 1" "sem_taken s = 1"
    by (simp add: one_waiter_def sem_start_def sem_goto_def sem_wake_def)
  moreover have "\<forall>e\<in>set one_waiter. orderly {0} e" by (simp add: one_waiter_def)
  ultimately show ?thesis using linux_sem_accounting [OF s(1), of 0 0 0] by auto
qed

text \<open>
  With two waiting threads the counter can go below zero: a second thread takes the unit
  between the signal and the return of the first, which does not test the counter again.
  Two waits return for one notification.
\<close>

definition overtaken :: "sem_event list" where
  "overtaken = [Call_wait 0 0, Run 0 [], Run 0 [], Call_notify 1, Run 1 [], Run 1 [], Run 1 [0], Run 1 [],
     Call_wait 2 0, Run 2 [], Run 2 [], Run 2 [], Run 2 [], Run 0 [], Run 0 [], Run 0 []]"

theorem linux_sem_overtaken:
  "\<exists>s. sem_steps overtaken (sem_start 0) = Some s \<and> (\<forall>e\<in>set overtaken. orderly {0, 2} e) \<and>
     sem_given s = 1 \<and> sem_taken s = 2 \<and> sem_count s = - 1"
  by (simp add: overtaken_def sem_start_def sem_goto_def sem_wake_def)

text \<open>
  A thread that runs alone, with nobody else in a call, sees the semaphore of
  \<open>sys_sem_wait\<close>: it takes a unit when there is one; otherwise it ends up waiting for the
  condition, where with a timeout only the timeout brings it out again, without a unit, and
  without one nothing that is not a wake-up without a signal.  The timeout -1, which is for
  ever on Windows, is 2 to the 32 less one milliseconds here.
\<close>

theorem linux_sem_alone:
  assumes "sint tmo \<noteq> - 1"
  shows "case sys_sem_wait n (sint tmo) of
      SemTaken c \<Rightarrow> \<exists>s. sem_steps [Call_wait t tmo, Run t [], Run t [], Run t [], Run t []] (sem_start n) = Some s \<and>
        sem_count s = c \<and> sem_pcs s = (\<lambda>_. Outside) \<and> sem_locker s = None
    | SemTimeout \<Rightarrow> \<exists>s. sem_steps [Call_wait t tmo, Run t [], Run t [], Timeout t, Run t [], Run t []] (sem_start n) = Some s \<and>
        sem_count s = n \<and> sem_pcs s = (\<lambda>_. Outside) \<and> sem_locker s = None
    | SemBlocked \<Rightarrow> \<exists>s. sem_steps [Call_wait t tmo, Run t [], Run t []] (sem_start n) = Some s \<and>
        sem_count s = n \<and> (\<forall>w. sem_step (Run t w) s = None) \<and> sem_step (Timeout t) s = None"
proof -
  have z: "sint tmo = 0 \<longleftrightarrow> \<not> tmo > 0" by (simp add: word_gt_0) (metis signed_0 signed_word_eqI)
  show ?thesis
    using z assms by (auto simp: sys_sem_wait_def sem_start_def sem_goto_def sem_wake_def fun_eq_iff)
qed

section \<open>Facts about times\<close>

lemma smod_1000: "\<bar>u smod 1000\<bar> < (1000 :: int)"
proof -
  have "0 \<le> v mod 1000 \<and> v mod 1000 < 1000" for v :: int by simp
  then show ?thesis by (cases "0 \<le> u") (auto simp: signed_modulo_int_def signed_divide_int_def sgn_if minus_div_mult_eq_mod abs_less_iff)
qed

lemma int_ms_bounds:
  fixes v d :: int
  assumes "\<bar>v * 1000 - d\<bar> < 1000" "\<bar>d\<bar> \<le> 2147483647 * 1000"
  shows "- 2147483648 \<le> v \<and> v < 2147483648"
  using assms by (auto simp: abs_le_iff abs_less_iff)

text \<open>C33. The absolute deadline that a timed wait on a Linux semaphore hands to the operating system lies after the moment of the call
  by the timeout asked for less the part of a second that the clock has run into, because it is computed from whole seconds:
  it is never later than asked for, it can be early by almost a second, and a timeout below a second can give a deadline that
  is already past. For two clock values with normalised microseconds whose difference, forwards or backwards, is at most
  2147483647 milliseconds, sys_time_goes stores the new value and returns the difference in milliseconds with an error of less
  than one.\<close>

theorem platform_time_bounds:
  assumes "0 \<le> ns" "ns < 1000000000" "tv_ok now" "tv_ok pre" "\<bar>tv_us now - tv_us pre\<bar> \<le> 2147483647 * 1000"
  shows "sem_deadline sec tmo - (sec * 1000000000 + ns) = uint tmo * 1000000 - ns \<and>
    \<bar>snd (sys_time_goes now pre) * 1000 - (tv_us now - tv_us pre)\<bar> < 1000 \<and> fst (sys_time_goes now pre) = now"
proof -
  have "uint tmo = uint (tmo div 1000) * 1000 + uint (tmo mod 1000)"
    by (simp add: uint_div_distrib uint_mod_distrib)
  then have d: "sem_deadline sec tmo - (sec * 1000000000 + ns) = uint tmo * 1000000 - ns" by (simp add: sem_deadline_def algebra_simps)
  let ?u = "tv_usec now - tv_usec pre" and ?m = "(tv_sec now - tv_sec pre) * 1000"
  have e: "tv_us now - tv_us pre = ?m * 1000 + ?u" by (simp add: tv_us_def algebra_simps)
  have q: "?u = ?u sdiv 1000 * 1000 + ?u smod 1000" by (simp add: sdiv_mult_smod_eq)
  have r: "\<bar>?u smod 1000\<bar> < 1000" by (rule smod_1000)
  let ?v = "?m + ?u sdiv 1000"
  have v: "\<bar>?v * 1000 - (tv_us now - tv_us pre)\<bar> < 1000" using e q r by (simp add: algebra_simps)
  have "- (2 ^ 31) \<le> ?v" "?v < 2 ^ 31" using int_ms_bounds [OF v assms(5)] by simp_all
  then have "signed_take_bit 31 ?v = ?v" by (simp add: signed_take_bit_int_eq_self)
  with v d show ?thesis by (simp add: sys_time_goes_def)
qed

text \<open>A deadline that is past, and a clock that was set back across the end of a second.\<close>

theorem platform_time_bounds_witness:
  "sem_deadline 7 10 - (7 * 1000000000 + 999000000) = - 989000000 \<and>
   \<bar>snd (sys_time_goes \<lparr>tv_sec = 7, tv_usec = 999900\<rparr> \<lparr>tv_sec = 8, tv_usec = 100\<rparr>) * 1000 + 200\<bar> < 1000"
  using platform_time_bounds [of 999000000 "\<lparr>tv_sec = 7, tv_usec = 999900\<rparr>" "\<lparr>tv_sec = 8, tv_usec = 100\<rparr>" 7 10]
  by (simp add: tv_ok_def tv_us_def)

end
