(* ===== verification/Net_Capture.thy ===== *)
theory Net_Capture
  imports Net_Netif
begin

text \<open>
  The capture devices of \<^verbatim>\<open>src/platform/sys_plat.c\<close>: finding the device with a given address,
  counting the devices, and opening one with the filter that accepts its own and broadcast
  frames.  The capture library is a parameter: the list of devices, and for each call its
  result.  \<^term>\<open>None\<close> stands for following a null pointer or writing outside an array.
\<close>

section \<open>Devices\<close>

record pcap_if_t =
  pi_name :: string
  pi_addresses :: "(int \<times> u32) option list"

text \<open>\<^verbatim>\<open>AF_INET\<close> of the operating system.\<close>

abbreviation (input) SYS_AF_INET :: int where "SYS_AF_INET \<equiv> 2"

text \<open>The inner loop over the addresses of a device; an entry may carry a null pointer.\<close>

fun find_addr :: "u32 \<Rightarrow> (int \<times> u32) option list \<Rightarrow> bool option" where
  "find_addr dest [] = Some False"
| "find_addr dest (None # rest) = None"
| "find_addr dest (Some (family, a) # rest) =
     (if family \<noteq> SYS_AF_INET then find_addr dest rest else if a = dest then Some True else find_addr dest rest)"

fun find_item :: "u32 \<Rightarrow> pcap_if_t list \<Rightarrow> string option option" where
  "find_item dest [] = Some None"
| "find_item dest (item # rest) =
     do { found \<leftarrow> find_addr dest (pi_addresses item); if found then Some (Some (pi_name item)) else find_item dest rest }"

text \<open>
  \<^verbatim>\<open>pcap_find_device\<close> with the devices the library reports, if it does, and the address to look
  for; the name is copied to an array of 256 bytes.
\<close>

definition pcap_find_device :: "pcap_if_t list option \<Rightarrow> u32 \<Rightarrow> string option option" where
  "pcap_find_device devs dest =
     (case devs of
        None \<Rightarrow> Some None
      | Some devs \<Rightarrow>
          do {
            r \<leftarrow> find_item dest devs;
            case r of None \<Rightarrow> Some None | Some name \<Rightarrow> if length name < 256 then Some (Some name) else None
          })"

text \<open>The devices \<^verbatim>\<open>pcap_show_list\<close> prints: those with an address of the family.\<close>

fun has_inet :: "(int \<times> u32) option list \<Rightarrow> bool option" where
  "has_inet [] = Some False"
| "has_inet (None # rest) = None"
| "has_inet (Some (family, a) # rest) = (if family \<noteq> SYS_AF_INET then has_inet rest else Some True)"

fun show_count :: "pcap_if_t list \<Rightarrow> int option" where
  "show_count [] = Some 0"
| "show_count (item # rest) = do { b \<leftarrow> has_inet (pi_addresses item); n \<leftarrow> show_count rest; Some (n + of_bool b) }"

definition pcap_show_list :: "pcap_if_t list option \<Rightarrow> int option" where
  "pcap_show_list devs =
     (case devs of
        None \<Rightarrow> Some (- 1)
      | Some devs \<Rightarrow> do { count \<leftarrow> show_count devs; Some (if devs = [] \<or> count = 0 then - 1 else 0) })"

section \<open>Opening a device\<close>

text \<open>
  \<^verbatim>\<open>load_pcap_lib\<close> of the Windows build: \<open>len\<close> is the length of the system directory and \<open>set_ok\<close> whether
  the directory of the library could be set; the static variable is state.  The Linux build returns zero.
\<close>

definition load_pcap_lib :: "nat \<Rightarrow> bool \<Rightarrow> bool \<Rightarrow> bool \<times> int" where
  "load_pcap_lib len set_ok dll_loaded =
     (if dll_loaded then (dll_loaded, 0)
      else if len = 0 then (dll_loaded, - 1)
      else if \<not> set_ok then (dll_loaded, - 1)
      else (True, 0))"

text \<open>What the library answers; \<open>pl_load\<close> is the result of loading it.\<close>

record 'f pcap_lib =
  pl_load :: int
  pl_devs :: "pcap_if_t list option"
  pl_pton :: "string \<Rightarrow> u32"
  pl_lookupnet :: "string \<Rightarrow> u32 option"
  pl_create :: "string \<Rightarrow> addr option"
  pl_set_snaplen :: "addr \<Rightarrow> int \<Rightarrow> int"
  pl_set_promisc :: "addr \<Rightarrow> int \<Rightarrow> int"
  pl_set_timeout :: "addr \<Rightarrow> int \<Rightarrow> int"
  pl_set_immediate_mode :: "addr \<Rightarrow> int \<Rightarrow> int"
  pl_activate :: "addr \<Rightarrow> int"
  pl_setnonblock :: "addr \<Rightarrow> int \<Rightarrow> int"
  pl_compile :: "addr \<Rightarrow> string \<Rightarrow> u32 \<Rightarrow> 'f option"
  pl_setfilter :: "addr \<Rightarrow> 'f \<Rightarrow> int"

text \<open>\<^verbatim>\<open>%02x\<close>, six of them with colons, and the filter.\<close>

definition hex2 :: "u8 \<Rightarrow> string" where
  "hex2 b = [''0123456789abcdef'' ! unat (drop_bit 4 b), ''0123456789abcdef'' ! unat (take_bit 4 b)]"

definition mac_str :: "u8 list \<Rightarrow> string" where
  "mac_str mac = concat (map hex2 (take 1 mac)) @ concat (map (\<lambda>b. '':'' @ hex2 b) (drop 1 mac))"

definition filter_exp :: "u8 list \<Rightarrow> string" where
  "filter_exp mac = ''(ether dst '' @ mac_str (take 6 mac) @ '' or ether broadcast) and (not ether src '' @ mac_str (take 6 mac) @ '')''"

text \<open>The settings, in the order of the code; each has to return zero, and a later call is not made after a failure.\<close>

definition pcap_settings :: "'f pcap_lib \<Rightarrow> addr \<Rightarrow> bool" where
  "pcap_settings lib p \<longleftrightarrow>
     pl_set_snaplen lib p 65536 = 0 \<and> pl_set_promisc lib p 1 = 0 \<and> pl_set_timeout lib p 0 = 0 \<and>
     pl_set_immediate_mode lib p 1 = 0 \<and> pl_activate lib p = 0 \<and> pl_setnonblock lib p 0 = 0"

text \<open>
  \<^verbatim>\<open>pcap_device_open\<close>: the handle, or null, and the handles that the library has given out and
  that nobody has closed.
\<close>

definition pcap_device_open :: "'f pcap_lib \<Rightarrow> string \<Rightarrow> u8 list \<Rightarrow> (ptr \<times> addr list) option" where
  "pcap_device_open lib ip mac =
     (if pl_load lib < 0 then Some (None, []) else do {
       r \<leftarrow> pcap_find_device (pl_devs lib) (pl_pton lib ip);
       case r of
         None \<Rightarrow> do { _ \<leftarrow> pcap_show_list (pl_devs lib); Some (None, []) }
       | Some name \<Rightarrow>
           (let net = (case pl_lookupnet lib name of None \<Rightarrow> 0 | Some net \<Rightarrow> net)
            in case pl_create lib name of
                 None \<Rightarrow> do { _ \<leftarrow> pcap_show_list (pl_devs lib); Some (None, []) }
               | Some p \<Rightarrow>
                   if \<not> pcap_settings lib p then Some (None, [p])
                   else if length mac < 6 then None
                   else case pl_compile lib p (filter_exp mac) net of
                          None \<Rightarrow> Some (None, [p])
                        | Some fp \<Rightarrow> if pl_setfilter lib p fp = - 1 then Some (None, [p]) else Some (Some p, [p]))
     })"

section \<open>The device found\<close>

text \<open>A device that carries the address.\<close>

definition carries :: "u32 \<Rightarrow> pcap_if_t \<Rightarrow> bool" where
  "carries dest item \<longleftrightarrow> Some (SYS_AF_INET, dest) \<in> set (pi_addresses item)"

lemma find_addr_iff: "find_addr dest as = Some b \<Longrightarrow> b \<longleftrightarrow> Some (SYS_AF_INET, dest) \<in> set as"
  by (induction dest as rule: find_addr.induct) (auto split: if_splits)

lemma find_item_first: "find_item dest devs = Some r \<Longrightarrow> r = map_option pi_name (find (carries dest) devs)"
  by (induction devs) (auto simp: bind_eq_Some_conv carries_def dest!: find_addr_iff split: if_splits)

lemma pcap_find_device_first:
  assumes "pcap_find_device (Some devs) dest = Some r"
  shows "r = map_option pi_name (find (carries dest) devs)"
proof -
  from assms obtain q where q: "find_item dest devs = Some q" by (auto simp: pcap_find_device_def bind_eq_Some_conv)
  with assms have "r = q" by (cases q) (auto simp: pcap_find_device_def split: if_split_asm)
  with find_item_first [OF q] show ?thesis by simp
qed

text \<open>The filter, written out.\<close>

definition byte_text :: "u8 \<Rightarrow> string" where
  "byte_text b = [''0123456789abcdef'' ! (unat b div 16), ''0123456789abcdef'' ! (unat b mod 16)]"

lemma hex2_text: "hex2 b = byte_text b"
  by (simp add: hex2_def byte_text_def drop_bit_eq_div take_bit_eq_mod unat_div unat_mod)

lemma filter_exp_text:
  assumes "6 \<le> length mac"
  shows "filter_exp mac =
    (let m = byte_text (mac ! 0) @ '':'' @ byte_text (mac ! 1) @ '':'' @ byte_text (mac ! 2) @ '':'' @
             byte_text (mac ! 3) @ '':'' @ byte_text (mac ! 4) @ '':'' @ byte_text (mac ! 5)
     in ''(ether dst '' @ m @ '' or ether broadcast) and (not ether src '' @ m @ '')'')"
proof -
  obtain a b c d e f r where "mac = a # b # c # d # e # f # r"
    using assms by (auto simp: numeral_eq_Suc Suc_le_length_iff)
  then show ?thesis by (simp add: filter_exp_def mac_str_def hex2_text Let_def)
qed

text \<open>C39. Once the capture library is loaded and lists its devices, opening the device of an address gives the handle that was created
  for the first device carrying the address exactly when snapshot length 65536, promiscuous mode, timeout 0 and immediate mode
  could be set, the handle was activated and put into blocking mode, and the filter that admits frames to the interface's own
  hardware address or to everybody, unless sent by the interface itself, was compiled and installed; a network that cannot be looked
  up is taken as 0 and is no failure. Whenever a handle was created it stays open, also when null is returned because
  a later step failed.\<close>

theorem pcap_device_open_handle:
  assumes "0 \<le> pl_load lib" "pl_devs lib = Some devs" "pcap_device_open lib ip mac = Some (r, held)"
  shows "let item = find (\<lambda>i. Some (2, pl_pton lib ip) \<in> set (pi_addresses i)) devs;
      text = (\<lambda>b. [''0123456789abcdef'' ! (unat b div 16), ''0123456789abcdef'' ! (unat b mod 16)]);
      m = text (mac ! 0) @ '':'' @ text (mac ! 1) @ '':'' @ text (mac ! 2) @ '':'' @ text (mac ! 3) @ '':'' @ text (mac ! 4) @ '':'' @ text (mac ! 5);
      filter_text = ''(ether dst '' @ m @ '' or ether broadcast) and (not ether src '' @ m @ '')''
    in (r = Some p \<longleftrightarrow>
         (\<exists>i fp. item = Some i \<and> pl_create lib (pi_name i) = Some p \<and>
            pl_set_snaplen lib p 65536 = 0 \<and> pl_set_promisc lib p 1 = 0 \<and> pl_set_timeout lib p 0 = 0 \<and>
            pl_set_immediate_mode lib p 1 = 0 \<and> pl_activate lib p = 0 \<and> pl_setnonblock lib p 0 = 0 \<and>
            pl_compile lib p filter_text (case pl_lookupnet lib (pi_name i) of None \<Rightarrow> 0 | Some net \<Rightarrow> net) = Some fp \<and>
            pl_setfilter lib p fp \<noteq> - 1)) \<and>
       held = (case Option.bind item (\<lambda>i. pl_create lib (pi_name i)) of None \<Rightarrow> [] | Some q \<Rightarrow> [q])"
proof -
  obtain n where n: "pcap_find_device (Some devs) (pl_pton lib ip) = Some n" using assms by (auto simp: pcap_device_open_def bind_eq_Some_conv)
  have c: "carries (pl_pton lib ip) = (\<lambda>i. Some (2, pl_pton lib ip) \<in> set (pi_addresses i))" by (simp add: carries_def fun_eq_iff)
  note f = pcap_find_device_first [OF n, unfolded c]
  show ?thesis
  proof (cases "6 \<le> length mac")
    case True
    note t = filter_exp_text [OF True, unfolded Let_def byte_text_def]
    from True assms n f show ?thesis unfolding Let_def t [symmetric]
      by (cases "find (\<lambda>i. Some (2, pl_pton lib ip) \<in> set (pi_addresses i)) devs")
        (auto simp: pcap_device_open_def pcap_settings_def bind_eq_Some_conv Let_def split: option.splits if_splits)
  next
    case False
    with assms n f show ?thesis unfolding Let_def
      by (cases "find (\<lambda>i. Some (2, pl_pton lib ip) \<in> set (pi_addresses i)) devs")
        (auto simp: pcap_device_open_def pcap_settings_def bind_eq_Some_conv Let_def split: option.splits if_splits)
  qed
qed

text \<open>A library that compiles one filter only, and a device whose filter cannot be installed.\<close>

definition lib_sample :: "int \<Rightarrow> unit pcap_lib" where
  "lib_sample res = \<lparr>pl_load = 0, pl_devs = Some [\<lparr>pi_name = ''lo'', pi_addresses = [Some (2, 1)]\<rparr>, \<lparr>pi_name = ''eth0'', pi_addresses = [Some (10, 5), Some (2, 5)]\<rparr>],
     pl_pton = (\<lambda>_. 5), pl_lookupnet = (\<lambda>_. None), pl_create = (\<lambda>n. if n = ''eth0'' then Some 9 else None),
     pl_set_snaplen = (\<lambda>_ _. 0), pl_set_promisc = (\<lambda>_ _. 0), pl_set_timeout = (\<lambda>_ _. 0), pl_set_immediate_mode = (\<lambda>_ _. 0),
     pl_activate = (\<lambda>_. 0), pl_setnonblock = (\<lambda>_ _. 0),
     pl_compile = (\<lambda>_ f _. if f = ''(ether dst 01:02:03:04:05:a6 or ether broadcast) and (not ether src 01:02:03:04:05:a6)'' then Some () else None),
     pl_setfilter = (\<lambda>_ _. res)\<rparr>"

theorem pcap_device_open_handle_witness:
  "(\<exists>held. pcap_device_open (lib_sample 0) ''x'' [1, 2, 3, 4, 5, 0xA6] = Some (Some 9, held)) \<and>
   (\<exists>r. pcap_device_open (lib_sample (- 1)) ''x'' [1, 2, 3, 4, 5, 0xA6] = Some (r, [9]))"
proof -
  have "\<exists>r held. pcap_device_open (lib_sample res) ''x'' [1, 2, 3, 4, 5, 0xA6] = Some (r, held)" for res
    by (simp add: pcap_device_open_def lib_sample_def pcap_find_device_def pcap_settings_def filter_exp_def mac_str_def hex2_text byte_text_def)
  then obtain r held r' held' where run: "pcap_device_open (lib_sample 0) ''x'' [1, 2, 3, 4, 5, 0xA6] = Some (r, held)"
    "pcap_device_open (lib_sample (- 1)) ''x'' [1, 2, 3, 4, 5, 0xA6] = Some (r', held')" by blast
  have l: "0 \<le> pl_load (lib_sample res)" "pl_devs (lib_sample res) = Some (the (pl_devs (lib_sample res)))" for res by (simp_all add: lib_sample_def)
  have "r = Some 9" using pcap_device_open_handle [OF l run(1), of 9] by (simp add: lib_sample_def Let_def)
  moreover have "held' = [9]" using pcap_device_open_handle [OF l run(2), of 9] by (simp add: lib_sample_def Let_def)
  ultimately show ?thesis using run by blast
qed

end
