(* ===== verification/Net_Ip_Flow.thy ===== *)
theory Net_Ip_Flow
  imports Net_Frame
begin

text \<open>
  An IP packet from output to input: the header \<^verbatim>\<open>ipv4_out\<close> builds is the one
  \<^verbatim>\<open>validate_ipv4_pkt\<close> accepts, and its fields are read back.
\<close>

section \<open>Headers as bytes\<close>

lemma length_ipaddr_to_buf [simp]: "length (ipaddr_to_buf ip) = 4"
  by (simp add: ipaddr_to_buf_def)

lemma length_le16_bytes [simp]: "length (le16_bytes v) = 2"
  by (simp add: le16_bytes_def)

definition hdr_ok :: "ipv4_hdr_t \<Rightarrow> bool" where
  "hdr_ok h \<longleftrightarrow> length (ip_src_ip h) = 4 \<and> length (ip_dest_ip h) = 4"

lemma length_ipv4_hdr_bytes [simp]: "hdr_ok h \<Longrightarrow> length (ipv4_hdr_bytes h) = 20"
  by (simp add: ipv4_hdr_bytes_def hdr_ok_def)

lemma hdr_ok_upd [simp]:
  "hdr_ok (iphdr_htons h) = hdr_ok h" "hdr_ok (iphdr_ntohs h) = hdr_ok h" "hdr_ok (h\<lparr>ip_hdr_checksum := c\<rparr>) = hdr_ok h"
  "hdr_ok (ipv4_out_hdr protocol dest src nip tot i)"
  by (simp_all add: hdr_ok_def iphdr_htons_def iphdr_ntohs_def ipv4_out_hdr_def set_header_size_def set_version_def)

lemma ipv4_hdr_roundtrip: "hdr_ok h \<Longrightarrow> ipv4_hdr_of (ipv4_hdr_bytes h @ rest) = h"
  by (simp add: ipv4_hdr_of_def ipv4_hdr_bytes_def hdr_ok_def nth_append le16_bytes_def)

lemma patch_checksum:
  "hdr_ok h \<Longrightarrow> patch 10 (le16_bytes c) (ipv4_hdr_bytes h @ rest) = ipv4_hdr_bytes (h\<lparr>ip_hdr_checksum := c\<rparr>) @ rest"
  by (simp add: patch_def ipv4_hdr_bytes_def hdr_ok_def le16_bytes_def)

lemma hdr_sum:
  "hdr_ok h \<Longrightarrow> bsum False (ipv4_hdr_bytes (h\<lparr>ip_hdr_checksum := c\<rparr>)) = bsum False (ipv4_hdr_bytes (h\<lparr>ip_hdr_checksum := 0\<rparr>)) + unat c"
  by (simp add: ipv4_hdr_bytes_def hdr_ok_def bsum_append le16_bytes_sum)

text \<open>The header with its checksum, and that the checksum of the result is zero.\<close>

definition with_checksum :: "ipv4_hdr_t \<Rightarrow> ipv4_hdr_t" where
  "with_checksum h = h\<lparr>ip_hdr_checksum := csum_result True (bsum False (ipv4_hdr_bytes (h\<lparr>ip_hdr_checksum := 0\<rparr>)))\<rparr>"

lemma with_checksum_sum: "hdr_ok h \<Longrightarrow> csum_result True (bsum False (ipv4_hdr_bytes (with_checksum h))) = 0"
  unfolding with_checksum_def by (subst hdr_sum, assumption) (rule csum_result_verify)

lemma out_hdr_fields:
  "ip_version (ipv4_out_hdr protocol dest src nip tot i) = 4" "ipv4_hdr_size (ipv4_out_hdr protocol dest src nip tot i) = 20"
  "ip_total_len (ipv4_out_hdr protocol dest src nip tot i) = of_int tot" "ip_id (ipv4_out_hdr protocol dest src nip tot i) = i"
  "ip_frag_all (ipv4_out_hdr protocol dest src nip tot i) = 0" "ip_protocol (ipv4_out_hdr protocol dest src nip tot i) = protocol"
  "ip_dest_ip (ipv4_out_hdr protocol dest src nip tot i) = ipaddr_to_buf dest"
  "ip_hdr_checksum (ipv4_out_hdr protocol dest src nip tot i) = 0"
  "ip_src_ip (ipv4_out_hdr protocol dest (Some a) nip tot i) = ipaddr_to_buf (if ipaddr_is_any a then nip else a)"
  by (simp_all add: ipv4_out_hdr_def set_header_size_def set_version_def ip_version_def ipv4_hdr_size_def ip_shdr_def)

section \<open>Room for a header\<close>

text \<open>A header fits in front of the packet: behind the start of its first page, or in a page of its own.\<close>

definition hdr_room :: "'a packet_state_scheme \<Rightarrow> addr \<Rightarrow> nat \<Rightarrow> bool" where
  "hdr_room s p n \<longleftrightarrow> 0 < length (page_pool s) \<or> (\<exists>pg chain. page_list (packets s p) = pg # chain \<and> int n \<le> pg_data (pages s pg))"

lemma add_header_head:
  assumes ok: "packet_ok s p" and l: "page_list (packets s p) = pg # chain" and n: "int n \<le> pg_data (pages s pg)"
  shows "\<exists>s' h. packet_add_header p (int n) True s = Some (s', NET_OK) \<and> length h = n \<and> pkt_becomes s p s' (h @ packet_bytes s p) \<and>
    hdr_fits s' p n"
proof -
  let ?s = "upd_packet p (\<lambda>pk. pk\<lparr>total_size := total_size pk + int n\<rparr>)
       (upd_page pg (\<lambda>g. g\<lparr>pg_size := pg_size g + int n, pg_data := pg_data g - int n\<rparr>) s)"
  from grow_front [OF ok l _ n] obtain h where "length h = n" "pkt_becomes s p ?s (h @ packet_bytes s p)" by auto
  moreover have "packet_add_header p (int n) True s = Some (?s, NET_OK)"
    using n l by (simp add: packet_add_header_def packet_ok_live [OF ok] packet_first_page_def)
  moreover have "hdr_fits ?s p n" using l packet_ok_Cons(1) [OF ok l] by (simp add: hdr_fits_def page_ok_def)
  ultimately show ?thesis by blast
qed

lemma add_header_room:
  assumes "packet_ok s p" "packet_bytes s p \<noteq> []" "n \<le> 128" "hdr_room s p n"
  shows "\<exists>s' h. packet_add_header p (int n) True s = Some (s', NET_OK) \<and> length h = n \<and> pkt_becomes s p s' (h @ packet_bytes s p) \<and>
    hdr_fits s' p n"
  using assms add_header_fits [OF assms(1-3)] add_header_head [OF assms(1)] unfolding hdr_room_def by blast

lemma add_header_pool:
  assumes "packet_add_header p (int n) True s = Some (s', NET_OK)" "0 < n" "n \<le> 128"
  shows "length (page_pool s) \<le> length (page_pool s') + 1"
proof -
  have i: "page_pool (packet_insert_page_list p [pg] False t) = page_pool t" for pg and t :: "'a packet_state_scheme"
    by (simp add: packet_insert_page_list_def)
  show ?thesis
  proof (cases "page_pool s")
    case (Cons pg r)
    have a: "page_alloc_list (int n) True s =
        (s\<lparr>page_pool := r, pages := (pages s)(pg := (pages s pg)\<lparr>pg_size := int n, pg_data := 128 - int n\<rparr>)\<rparr>, [pg])"
      by (rule page_alloc_list_one [OF Cons]) (use assms(2,3) in simp_all)
    from assms(1) Cons show ?thesis
      by (auto simp: packet_add_header_def bind_eq_Some_conv Let_def a i split: if_splits)
  qed simp
qed

section \<open>Output\<close>

text \<open>A packet that starts with a header.\<close>

definition ip_packet :: "'a packet_state_scheme \<Rightarrow> addr \<Rightarrow> ipv4_hdr_t \<Rightarrow> u8 list \<Rightarrow> bool" where
  "ip_packet s p h bs \<longleftrightarrow> packet_ok s p \<and> hdr_ok h \<and> hdr_fits s p IP_HDR_SIZE \<and> packet_bytes s p = ipv4_hdr_bytes h @ bs"

lemma put_checksum_ok:
  fixes s :: "'a packet_state_scheme"
  assumes pk: "ip_packet s p h bs" and z: "ip_hdr_checksum h = 0" and sz: "ipv4_hdr_size h' = 20" and d: "packet_ptr p s = Some d"
  shows "\<exists>s'. put_hdr_checksum p d h' (packet_reset_pos (Some p) s) = Some s' \<and> ip_packet s' p (with_checksum h) bs \<and>
    same_rest s s' \<and> packet_ptr p s' = Some d \<and> pkt_becomes s p s' (ipv4_hdr_bytes (with_checksum h) @ bs)"
proof -
  let ?s = "packet_reset_pos (Some p) s"
  have ok: "packet_ok s p" and h: "hdr_ok h" and f: "hdr_fits s p 20" and b: "packet_bytes s p = ipv4_hdr_bytes h @ bs"
    using pk by (simp_all add: ip_packet_def)
  note rp = packet_reset_pos_becomes [OF ok] and mv = moved_same [OF moved_reset [of s p]]
  have ok': "packet_ok ?s p" using rp(1) by (simp add: pkt_becomes_def)
  have cur: "cursor_ok ?s p" by (rule cursor_at_start [OF ok' rp(2)])
  have pos: "pos (packets ?s p) = 0" "total_size (packets ?s p) = int (20 + length bs)"
    using rp(2) packet_ok_total [OF ok'] mv(9) b h by (simp_all add: at_start_def)
  from packet_checksum16_ok [OF cur, of 20 0 True] pos mv(9) b h obtain s1 where
    1: "packet_checksum16 p 20 0 True ?s = Some (s1, csum_result True (bsum False (ipv4_hdr_bytes h)))" "moved ?s p s1" by auto
  have m: "moved s p s1" by (rule moved_trans [OF moved_reset 1(2)])
  have k: "packet_ok s1 p" "packet_ptr p s1 = Some d" "hdr_fits s1 p 20" "packet_bytes s1 p = ipv4_hdr_bytes h @ bs"
    using moved_packet_ok [OF m ok] moved_facts [OF m] d f moved_same(9) [OF m] b by simp_all
  have e: "h\<lparr>ip_hdr_checksum := 0\<rparr> = h" using z by simp
  from mem_write_hdr [OF k(1,2), of 10 "le16_bytes (csum_result True (bsum False (ipv4_hdr_bytes h)))"] hdr_fits_mono [OF k(3), of 12]
  obtain s2 where 2: "mem_write d 10 (le16_bytes (csum_result True (bsum False (ipv4_hdr_bytes h)))) s1 = Some s2"
      "pkt_becomes s1 p s2 (ipv4_hdr_bytes (with_checksum h) @ bs)" "packet_ptr p s2 = Some d" "\<forall>n. hdr_fits s2 p n = hdr_fits s1 p n"
    by (auto simp: k(4) patch_checksum [OF h] with_checksum_def e)
  have "pkt_becomes s p s2 (ipv4_hdr_bytes (with_checksum h) @ bs)"
    using 2(2) moved_becomes [OF m ok] pkt_frame_trans by (auto simp: pkt_becomes_def)
  moreover have "ip_packet s2 p (with_checksum h) bs"
    using 2 k(3) h by (simp add: ip_packet_def pkt_becomes_def with_checksum_def)
  moreover have "same_rest s s2" using same_rest_moved [OF m] same_rest_mem_write [OF 2(1)] same_rest_trans by blast
  ultimately show ?thesis using 1(1) 2(1,3) sz by (auto simp: put_hdr_checksum_def)
qed

lemma validate_ok:
  assumes pk: "ip_packet s p h bs" and d: "packet_ptr p s = Some d" and v: "ip_version h = 4" "ipv4_hdr_size h = 20"
    and len: "20 \<le> uint (swap_u16 (ip_total_len h))" "uint (swap_u16 (ip_total_len h)) \<le> sz"
    and sum: "csum_result True (bsum False (ipv4_hdr_bytes h)) = 0"
  shows "validate_ipv4_pkt d sz s = Some NET_OK"
proof -
  have r: "mem_read d 0 20 s = Some (ipv4_hdr_bytes h)"
    using mem_read_hdr [of s p d 0 20] pk d by (simp add: ip_packet_def)
  then have "read_ipv4_hdr d s = Some h" using ipv4_hdr_roundtrip [of h "[]"] pk by (simp add: read_ipv4_hdr_def ip_packet_def)
  moreover have "checksum16 0 (ipv4_hdr_bytes h) 20 0 True = Some 0"
    using sum pk by (simp add: checksum16_spec ip_packet_def)
  ultimately show ?thesis using v len r by (simp add: validate_ipv4_pkt_def)
qed

lemma hdr_order_fields [simp]:
  "ip_version (iphdr_htons h) = ip_version h" "ipv4_hdr_size (iphdr_htons h) = ipv4_hdr_size h" "ip_hdr_checksum (iphdr_htons h) = ip_hdr_checksum h"
  "ip_total_len (iphdr_htons h) = swap_u16 (ip_total_len h)" "ip_protocol (iphdr_htons h) = ip_protocol h" "ip_id (iphdr_htons h) = swap_u16 (ip_id h)"
  "ip_src_ip (iphdr_htons h) = ip_src_ip h" "ip_dest_ip (iphdr_htons h) = ip_dest_ip h" "ip_frag_all (iphdr_htons h) = swap_u16 (ip_frag_all h)"
  "ip_version (with_checksum h) = ip_version h" "ipv4_hdr_size (with_checksum h) = ipv4_hdr_size h"
  "ip_total_len (with_checksum h) = ip_total_len h" "ip_protocol (with_checksum h) = ip_protocol h" "ip_id (with_checksum h) = ip_id h"
  "ip_src_ip (with_checksum h) = ip_src_ip h" "ip_dest_ip (with_checksum h) = ip_dest_ip h" "ip_frag_all (with_checksum h) = ip_frag_all h"
  by (simp_all add: iphdr_htons_def with_checksum_def ip_version_def ipv4_hdr_size_def ip_shdr_def)

text \<open>What is handed to the interface.\<close>

definition out_hdr :: "u8 \<Rightarrow> ipaddr_t \<Rightarrow> ipaddr_t option \<Rightarrow> addr \<Rightarrow> nat \<Rightarrow> 'a ipv4_state_scheme \<Rightarrow> ipv4_hdr_t" where
  "out_hdr protocol dest src n len s =
     with_checksum (iphdr_htons (ipv4_out_hdr protocol dest src (ni_ipaddr (netifs s n)) (int (20 + len)) (packet_id s)))"

lemma uint_of_nat_u16: "n \<le> 65535 \<Longrightarrow> uint (of_nat n :: u16) = int n"
  by (simp add: unsigned_of_nat take_bit_nat_eq_self)

lemma frame_packet_id:
  "pkt_frame s p s1 \<Longrightarrow> pkt_frame (s\<lparr>packet_id := i\<rparr>) p (s1\<lparr>packet_id := i\<rparr>)"
  by (cases s; cases s1) (simp add: pkt_frame_def)

lemma ipv4_out_ok:
  fixes s :: "'a ipv4_state_scheme"
  assumes ok: "packet_ok s p" and b: "packet_bytes s p = bs" "bs \<noteq> []" and room: "hdr_room s p 20"
    and rt: "rt_find dest s = Some e" "re_netif (rt_table s e) = n"
    and mtu: "ni_mtu (netifs s n) = 0 \<or> int (length bs) + 20 \<le> ni_mtu (netifs s n)"
  shows "\<exists>s1. ipv4_out protocol dest src p s =
      Option.bind (netif_out n (if ipaddr_is_any (re_next_hop (rt_table s e)) then dest else re_next_hop (rt_table s e)) p s1)
        (\<lambda>(s, err). Some (s, if net_err_neg err then err else NET_OK)) \<and>
    ip_packet s1 p (out_hdr protocol dest src n (length bs) s) bs \<and>
    pkt_becomes (s\<lparr>packet_id := packet_id s + 1\<rparr>) p s1 (ipv4_hdr_bytes (out_hdr protocol dest src n (length bs) s) @ bs)"
proof -
  let ?h = "ipv4_out_hdr protocol dest src (ni_ipaddr (netifs s n)) (int (20 + length bs)) (packet_id s)"
  have t: "total_size (packets s p) = int (length bs)" using packet_ok_total [OF ok] b by simp
  have nf: "\<not> (ni_mtu (netifs s n) \<noteq> 0 \<and> total_size (packets s p) + 20 > ni_mtu (netifs s n))" using mtu t by auto
  from add_header_room [OF ok _ _ room] b obtain s1 x where
    1: "packet_add_header p 20 True s = Some (s1, NET_OK)" "length x = 20" "pkt_becomes s p s1 (x @ bs)" "hdr_fits s1 p 20" by auto
  have r1: "same_rest s s1" by (rule same_rest_add_header [OF 1(1)])
  have k1: "netifs s1 = netifs s" "packet_id s1 = packet_id s" using r1 by (cases s; cases s1; simp add: same_rest_def)+
  have ok1: "packet_ok s1 p" "packet_bytes s1 p = x @ bs" using 1(3) by (simp_all add: pkt_becomes_def)
  have t1: "total_size (packets s1 p) = int (20 + length bs)" using packet_ok_total [OF ok1(1)] ok1(2) 1(2) by simp
  let ?s = "s1\<lparr>packet_id := packet_id s + 1\<rparr>"
  have c: "packets ?s = packets s1" "pages ?s = pages s1" "page_pool ?s = page_pool s1" by simp_all
  note cg = packet_cong [OF c]
  obtain d where d: "packet_ptr p s1 = Some d" using hdr_fits_ptr [OF 1(4)] by blast
  have f: "hdr_fits ?s p 20" "packet_ok ?s p" "packet_ptr p ?s = Some d" "packet_bytes ?s p = x @ bs" using cg 1(4) ok1 d by simp_all
  have "hdr_ok (iphdr_htons ?h)" by simp
  note l = length_ipv4_hdr_bytes [OF this]
  from mem_write_hdr [OF f(2,3), of 0 "ipv4_hdr_bytes (iphdr_htons ?h)"] f(1,4) l 1(2) obtain s2 where
    2: "mem_write d 0 (ipv4_hdr_bytes (iphdr_htons ?h)) ?s = Some s2" "pkt_becomes ?s p s2 (ipv4_hdr_bytes (iphdr_htons ?h) @ bs)"
      "packet_ptr p s2 = Some d" "\<forall>n. hdr_fits s2 p n = hdr_fits ?s p n" by (auto simp: patch_def)
  have pk: "ip_packet s2 p (iphdr_htons ?h) bs" using 2 f(1) by (simp add: ip_packet_def pkt_becomes_def)
  from put_checksum_ok [OF pk _ _ 2(3), of ?h] obtain s3 where
    3: "put_hdr_checksum p d ?h (packet_reset_pos (Some p) s2) = Some s3" "ip_packet s3 p (with_checksum (iphdr_htons ?h)) bs"
      "pkt_becomes s2 p s3 (ipv4_hdr_bytes (with_checksum (iphdr_htons ?h)) @ bs)" by (auto simp: out_hdr_fields)
  have "pkt_becomes (s\<lparr>packet_id := packet_id s + 1\<rparr>) p s3 (ipv4_hdr_bytes (with_checksum (iphdr_htons ?h)) @ bs)"
    using frame_packet_id [of s p s1 "packet_id s + 1"] 1(3) 2(2) 3(3) pkt_frame_trans by (simp add: pkt_becomes_def) blast
  moreover have "ipv4_out protocol dest src p s =
      Option.bind (netif_out n (if ipaddr_is_any (re_next_hop (rt_table s e)) then dest else re_next_hop (rt_table s e)) p s3)
        (\<lambda>(s, err). Some (s, if net_err_neg err then err else NET_OK))"
    using rt nf 1(1) d t1 k1 2(1) 3(1) by (auto simp: ipv4_out_def Let_def if_distrib [of Some] if_distrib [of "Pair _"])
  ultimately show ?thesis using 3(2) unfolding out_hdr_def by blast
qed

lemma ipv4_out_accepted:
  fixes s :: "'a ipv4_state_scheme"
  assumes "packet_ok s p" "packet_bytes s p = bs" "bs \<noteq> []" "length bs + 20 \<le> 65535" "hdr_room s p 20"
    and "rt_find dest s = Some e" "ni_mtu (netifs s (re_netif (rt_table s e))) = 0 \<or>
       int (length bs) + 20 \<le> ni_mtu (netifs s (re_netif (rt_table s e)))" "\<not> ipaddr_is_any src"
  shows "\<exists>s1 d h. ipv4_out protocol dest (Some src) p s =
      Option.bind (netif_out (re_netif (rt_table s e)) (if ipaddr_is_any (re_next_hop (rt_table s e)) then dest else re_next_hop (rt_table s e)) p s1)
        (\<lambda>(s, err). Some (s, if net_err_neg err then err else NET_OK)) \<and>
    packet_ptr p s1 = Some d \<and> validate_ipv4_pkt d (total_size (packets s1 p)) s1 = Some NET_OK \<and> read_ipv4_hdr d s1 = Some h \<and>
    drop 20 (packet_bytes s1 p) = bs \<and> unat (swap_u16 (ip_total_len h)) = 20 + length bs \<and> ip_protocol h = protocol \<and>
    ipaddr_from_buf (ip_src_ip h) = Some src \<and> ipaddr_from_buf (ip_dest_ip h) = Some dest \<and>
    ip_offset (iphdr_ntohs h) = 0 \<and> \<not> ip_more (iphdr_ntohs h) \<and> swap_u16 (ip_id h) = packet_id s \<and> packet_id s1 = packet_id s + 1"
proof -
  let ?n = "re_netif (rt_table s e)"
  let ?h = "out_hdr protocol dest (Some src) ?n (length bs) s"
  from ipv4_out_ok [OF assms(1-3,5,6) refl assms(7), of protocol "Some src"] obtain s1 where
    1: "ipv4_out protocol dest (Some src) p s =
      Option.bind (netif_out ?n (if ipaddr_is_any (re_next_hop (rt_table s e)) then dest else re_next_hop (rt_table s e)) p s1)
        (\<lambda>(s, err). Some (s, if net_err_neg err then err else NET_OK))" "ip_packet s1 p ?h bs"
      "pkt_becomes (s\<lparr>packet_id := packet_id s + 1\<rparr>) p s1 (ipv4_hdr_bytes ?h @ bs)" by blast
  obtain d where d: "packet_ptr p s1 = Some d" using 1(2) hdr_fits_ptr unfolding ip_packet_def by blast
  have ok: "hdr_ok ?h" "packet_ok s1 p" "hdr_fits s1 p 20" "packet_bytes s1 p = ipv4_hdr_bytes ?h @ bs" using 1(2) by (simp_all add: ip_packet_def)
  have u: "uint (of_nat (20 + length bs) :: u16) = int (20 + length bs)" by (rule uint_of_nat_u16) (use assms(4) in simp)
  have len: "swap_u16 (ip_total_len ?h) = of_nat (20 + length bs)" by (simp add: out_hdr_def out_hdr_fields)
  have v: "validate_ipv4_pkt d (total_size (packets s1 p)) s1 = Some NET_OK"
    using len u packet_ok_total [OF ok(2)] ok(1,4)
    by (intro validate_ok [OF 1(2) d]) (simp_all add: out_hdr_def out_hdr_fields with_checksum_sum)
  have rd: "read_ipv4_hdr d s1 = Some ?h"
    using mem_read_hdr [OF ok(2) d, of 0 20] ok ipv4_hdr_roundtrip [OF ok(1), of "[]"] by (simp add: read_ipv4_hdr_def)
  have "packet_id s1 = packet_id s + 1"
    using 1(3) by (cases s; cases s1) (simp add: pkt_becomes_def pkt_frame_def)
  moreover have "ip_offset (iphdr_ntohs ?h) = 0" "\<not> ip_more (iphdr_ntohs ?h)"
    by (simp_all add: ip_offset_def ip_more_def iphdr_ntohs_def out_hdr_def out_hdr_fields)
  moreover have "unat (swap_u16 (ip_total_len ?h)) = 20 + length bs" unfolding len unat_eq_nat_uint u by (rule nat_int)
  ultimately show ?thesis
    using 1(1) d v rd ok(1,4) assms(8) ipaddr_buf_roundtrip [of _ "[]"]
    by (intro exI [of _ s1] exI [of _ d] exI [of _ ?h]) (simp add: out_hdr_def out_hdr_fields)
qed

text \<open>C16. What the IP layer sends, the IP layer accepts: a packet that fits the interface is handed over with a header in front of
  its unchanged bytes that passes the validation of received packets, checksum included, and from which the length, the protocol,
  both addresses and the absence of fragmentation are read back; the identification is the packet counter, which advances.\<close>

theorem ipv4_out_valid:
  fixes s :: "'a ipv4_state_scheme"
  assumes "packet_ok s p" "packet_bytes s p = bs" "bs \<noteq> []" "length bs + 20 \<le> 65535" "0 < length (page_pool s)"
    and "rt_find dest s = Some e" "ni_mtu (netifs s (re_netif (rt_table s e))) = 0 \<or>
       int (length bs) + 20 \<le> ni_mtu (netifs s (re_netif (rt_table s e)))" "\<not> ipaddr_is_any src"
  shows "\<exists>s1 d h. ipv4_out protocol dest (Some src) p s =
      Option.bind (netif_out (re_netif (rt_table s e)) (if ipaddr_is_any (re_next_hop (rt_table s e)) then dest else re_next_hop (rt_table s e)) p s1)
        (\<lambda>(s, err). Some (s, if net_err_neg err then err else NET_OK)) \<and>
    packet_ptr p s1 = Some d \<and> validate_ipv4_pkt d (total_size (packets s1 p)) s1 = Some NET_OK \<and> read_ipv4_hdr d s1 = Some h \<and>
    drop 20 (packet_bytes s1 p) = bs \<and> unat (swap_u16 (ip_total_len h)) = 20 + length bs \<and> ip_protocol h = protocol \<and>
    ipaddr_from_buf (ip_src_ip h) = Some src \<and> ipaddr_from_buf (ip_dest_ip h) = Some dest \<and>
    ip_offset (iphdr_ntohs h) = 0 \<and> \<not> ip_more (iphdr_ntohs h) \<and> swap_u16 (ip_id h) = packet_id s \<and> packet_id s1 = packet_id s + 1"
  by (rule ipv4_out_accepted [OF assms(1-4) _ assms(6-8)]) (use assms(5) in \<open>simp add: hdr_room_def\<close>)

theorem ipv4_out_valid_witness:
  "\<exists>(s :: ipv4_state) (s1 :: ipv4_state) d h. validate_ipv4_pkt d (total_size (packets s1 0)) s1 = Some NET_OK \<and> read_ipv4_hdr d s1 = Some h \<and>
     ip_protocol h = 17 \<and> drop 20 (packet_bytes s1 0) = packet_bytes s 0 \<and> length (packet_bytes s 0) = 300"
proof -
  obtain s :: packet_state where s: "buffer_ok s [0]" "length (packet_bytes s 0) = 300" "length (page_pool s) \<ge> 200"
    using sample_packet by blast
  let ?s = "with_ipv4 (with_arp (with_netifs s))"
  have ok: "packet_ok ?s 0" "packet_bytes ?s 0 = packet_bytes s 0" using s(1) by (simp_all add: buffer_ok_def packet_ok_def packet_bytes_def)
  have ne: "packet_bytes ?s 0 \<noteq> []" "length (packet_bytes ?s 0) + 20 \<le> 65535" "0 < length (page_pool ?s)" using s(2,3) ok(2) by auto
  have rt: "rt_find 0x036EA8C0 ?s = Some 0" by (simp add: rt_find_def ipaddr_get_net_def ipaddr_is_equal_def)
  have mtu: "int (length (packet_bytes ?s 0)) + 20 \<le> ni_mtu (netifs ?s (re_netif (rt_table ?s 0)))" using s(2) ok(2) by (simp add: eth0_def)
  have any: "\<not> ipaddr_is_any 0x026EA8C0" by (simp add: ipaddr_is_any_def)
  from ipv4_out_valid [OF ok(1) refl ne rt disjI2 [OF mtu] any, of 17] obtain s1 :: ipv4_state and d h where
    "validate_ipv4_pkt d (total_size (packets s1 0)) s1 = Some NET_OK" "read_ipv4_hdr d s1 = Some h" "ip_protocol h = 17"
    "drop 20 (packet_bytes s1 0) = packet_bytes ?s 0" by blast
  moreover have "length (packet_bytes ?s 0) = 300" using s(2) ok(2) by simp
  ultimately show ?thesis by blast
qed

end
