(* ===== verification/Net_Udp_Flow.thy ===== *)
theory Net_Udp_Flow
  imports Net_Tcp_Machine Net_Ip_Flow
begin

text \<open>
  A datagram on its way to the application: what \<^verbatim>\<open>udp_in\<close> puts on the socket's list and what
  \<^verbatim>\<open>udp_recvfrom\<close> makes of it.
\<close>

section \<open>Waking the reader\<close>

text \<open>The wait object of a socket's readers can be notified.\<close>

definition reader_ok :: "sock_addr \<Rightarrow> wait_addr \<Rightarrow> 'a sock_state_scheme \<Rightarrow> bool" where
  "reader_ok a w s \<longleftrightarrow> so_rcv_wait (socks s a) = Some w \<and> (\<exists>c. w_sem (waits s w) = Sem c)"

lemma upd_sock_packets [simp]:
  "packets (upd_sock a f s) = packets s" "pages (upd_sock a f s) = pages s" "page_pool (upd_sock a f s) = page_pool s"
  "waits (upd_sock a f s) = waits s"
  by (simp_all add: upd_sock_def)

lemma wakeup_reader:
  assumes "reader_ok a w s"
  shows "\<exists>s'. sock_wakeup a {Rcv_wait} err s = Some s' \<and> packets s' = packets s \<and> pages s' = pages s \<and> page_pool s' = page_pool s \<and>
    w_waiting (waits s' w) = (if w_waiting (waits s w) > 0 then w_waiting (waits s w) - 1 else w_waiting (waits s w))"
proof -
  from assms obtain c where w: "so_rcv_wait (socks s a) = Some w" "w_sem (waits s w) = Sem c" by (auto simp: reader_ok_def)
  obtain s1 where s1: "sock_wait_leave w err s = Some s1" "packets s1 = packets s" "pages s1 = pages s" "page_pool s1 = page_pool s"
    "w_waiting (waits s1 w) = (if w_waiting (waits s w) > 0 then w_waiting (waits s w) - 1 else w_waiting (waits s w))"
    using w by (cases "w_waiting (waits s w) > 0") (auto simp: sock_wait_leave_def upd_wait_def)
  have "sock_wakeup a {Rcv_wait} err s = Some (upd_sock a (\<lambda>k. k\<lparr>so_err := err\<rparr>) s1)"
    using w s1(1) by (simp add: sock_wakeup_def wake_one_def)
  with s1(2-5) show ?thesis by simp
qed

lemma upd_sock_udp [simp]:
  "udp_recv_list (upd_sock a f s) = udp_recv_list s" "udp_recv_list (upd_wait w g s) = udp_recv_list s"
  "netifs (upd_sock a f t) = netifs t" "netifs (upd_wait w g t) = netifs t"
  by (simp_all add: upd_sock_def upd_wait_def)

lemma wait_leave_udp: "sock_wait_leave w err s = Some s' \<Longrightarrow> udp_recv_list s' = udp_recv_list s \<and> netifs s' = netifs s"
  by (auto simp: sock_wait_leave_def split: if_splits sys_sem_t.splits)

lemma wakeup_udp: "sock_wakeup a {Rcv_wait} err s = Some s' \<Longrightarrow> udp_recv_list s' = udp_recv_list s \<and> netifs s' = netifs s"
  by (auto simp: sock_wakeup_def wake_one_def bind_eq_Some_conv dest!: wait_leave_udp)

section \<open>A queued datagram\<close>

definition queued :: "'a packet_state_scheme \<Rightarrow> addr \<Rightarrow> ipaddr_t \<Rightarrow> u16 \<Rightarrow> u8 list \<Rightarrow> bool" where
  "queued s p src port payload \<longleftrightarrow> packet_ok s p \<and> hdr_fits s p UDP_FROM_SIZE \<and>
     (\<exists>pre. length pre = 4 \<and> packet_bytes s p = pre @ ipaddr_to_buf src @ le16_bytes port @ payload)"

lemma udp_deliver_ok:
  fixes s :: "'a udp_state_scheme"
  assumes ok: "packet_ok s p" and l: "page_list (packets s p) = pg # chain" and room: "2 \<le> pg_data (pages s pg)" "8 \<le> pg_size (pages s pg)"
    and b: "packet_bytes s p = ub @ payload" "length ub = 8" and full: "length (udp_recv_list s u) < UDP_MAX_RECV"
    and rd: "reader_ok (Udp_sock u) w s"
  shows "\<exists>s'. udp_deliver u p src port s = Some (s', NET_OK) \<and> queued s' p src port payload \<and>
    udp_recv_list s' = (udp_recv_list s)(u := udp_recv_list s u @ [p]) \<and> netifs s' = netifs s \<and>
    w_waiting (waits s' w) = (if w_waiting (waits s w) > 0 then w_waiting (waits s w) - 1 else w_waiting (waits s w))"
proof -
  from remove_header_back [OF ok l _ room(1)] obtain s1 h where 1: "packet_remove_header p (- 2) s = Some (s1, NET_OK)"
      "int (length h) = 2" "pkt_becomes s p s1 (h @ packet_bytes s p)" "page_list (packets s1 p) = pg # chain"
      "pg_size (pages s1 pg) = pg_size (pages s pg) + 2" by auto
  have ok1: "packet_ok s1 p" "packet_bytes s1 p = h @ ub @ payload" using 1(3) b by (simp_all add: pkt_becomes_def)
  have f1: "hdr_fits s1 p 10" using 1(4,5) room(2) by (auto simp: hdr_fits_def)
  then obtain d where d: "packet_ptr p s1 = Some d" using hdr_fits_ptr by blast
  from mem_write_hdr [OF ok1(1) d, of 8 "le16_bytes port"] f1 obtain s2 where
    2: "mem_write d 8 (le16_bytes port) s1 = Some s2" "pkt_becomes s1 p s2 (patch 8 (le16_bytes port) (packet_bytes s1 p))"
      "packet_ptr p s2 = Some d" "\<forall>n. hdr_fits s2 p n = hdr_fits s1 p n" by auto
  have ok2: "packet_ok s2 p" using 2(2) by (simp add: pkt_becomes_def)
  from mem_write_hdr [OF ok2 2(3), of 4 "ipaddr_to_buf src"] 2(4) hdr_fits_mono [OF f1, of 8] obtain s3 where
    3: "mem_write d 4 (ipaddr_to_buf src) s2 = Some s3" "pkt_becomes s2 p s3 (patch 4 (ipaddr_to_buf src) (packet_bytes s2 p))"
      "\<forall>n. hdr_fits s3 p n = hdr_fits s2 p n" by auto
  have r: "same_rest s s3"
    using same_rest_remove_header [OF 1(1)] same_rest_mem_write [OF 2(1)] same_rest_mem_write [OF 3(1)] same_rest_trans by blast
  have k: "udp_recv_list s3 = udp_recv_list s" "socks s3 = socks s" "waits s3 = waits s" "netifs s3 = netifs s"
    using r by (cases s; cases s3; simp add: same_rest_def)+
  have "packet_bytes s3 p = take 4 (h @ ub) @ ipaddr_to_buf src @ le16_bytes port @ payload"
    using 1(2) 2(2) 3(2) b(2) by (simp add: pkt_becomes_def ok1(2) patch_def)
  moreover have "length (take 4 (h @ ub)) = 4" using b(2) by simp
  moreover have "packet_ok s3 p" "hdr_fits s3 p 10" using 2(4) 3 f1 by (simp_all add: pkt_becomes_def)
  ultimately have q: "queued s3 p src port payload" unfolding queued_def by blast
  let ?s = "upd_udp_recv u (\<lambda>l. l @ [p]) s3"
  have "reader_ok (Udp_sock u) w ?s" using rd k by (simp add: reader_ok_def upd_udp_recv_def)
  from wakeup_reader [OF this] obtain s4 where 4: "sock_wakeup (Udp_sock u) {Rcv_wait} NET_OK ?s = Some s4" "packets s4 = packets ?s"
      "pages s4 = pages ?s" "page_pool s4 = page_pool ?s"
      "w_waiting (waits s4 w) = (if w_waiting (waits ?s w) > 0 then w_waiting (waits ?s w) - 1 else w_waiting (waits ?s w))" by blast
  have "udp_deliver u p src port s = Some (s4, NET_OK)"
    using 1(1) 2(1) 3(1) 4(1) full k(1) d by (simp add: udp_deliver_def)
  moreover have "queued s4 p src port payload"
    using q packet_cong [of s4 s3] 4(2-4) by (simp add: queued_def upd_udp_recv_def)
  moreover have "udp_recv_list s4 = (udp_recv_list s)(u := udp_recv_list s u @ [p])" "netifs s4 = netifs s"
    using wakeup_udp [OF 4(1)] k(1,4) by (simp_all add: upd_udp_recv_def)
  ultimately show ?thesis using 4(5) k(3) by (auto simp: upd_udp_recv_def)
qed

section \<open>Input\<close>

text \<open>The checksum field is not used, or the sum over pseudo-header and datagram is right.\<close>

definition udp_sum_ok :: "ipaddr_t \<Rightarrow> ipaddr_t \<Rightarrow> u8 list \<Rightarrow> bool" where
  "udp_sum_ok src dest dg \<longleftrightarrow> uh_checksum (udp_hdr_of (take 8 dg)) = 0 \<or>
     csum_result True (bsum False (ipaddr_to_buf dest @ ipaddr_to_buf src @ [0, NET_PROTOCOL_UDP] @
       [ucast (drop_bit 8 (of_nat (length dg) :: u16)), ucast (of_nat (length dg) :: u16)] @ dg)) = 0"

lemma udp_check_ok:
  assumes ok: "packet_ok s p" and len: "length (packet_bytes s p) \<le> 65535" and sum: "udp_sum_ok src dest (packet_bytes s p)"
  shows "\<exists>s'. (if uh_checksum (udp_hdr_of (take 8 (packet_bytes s p))) \<noteq> 0
      then map_option (\<lambda>(s, c). (s, c \<noteq> 0))
        (checksum_peso (ipaddr_to_buf dest) (ipaddr_to_buf src) NET_PROTOCOL_UDP p (packet_reset_pos (Some p) s))
      else Some (s, False)) = Some (s', False) \<and> moved s p s'"
proof (cases "uh_checksum (udp_hdr_of (take 8 (packet_bytes s p))) = 0")
  case False
  let ?s = "packet_reset_pos (Some p) s"
  have b: "packet_bytes ?s p = packet_bytes s p" by (rule moved_same(9) [OF moved_reset])
  have ok': "packet_ok ?s p" by (rule moved_packet_ok [OF moved_reset ok])
  from checksum_peso_ok [OF ok', where src_ip = "ipaddr_to_buf dest" and dest_ip = "ipaddr_to_buf src" and protocol = 17] b len False sum
  obtain s' where s': "checksum_peso (ipaddr_to_buf dest) (ipaddr_to_buf src) NET_PROTOCOL_UDP p ?s = Some (s', 0)"
      "moved (packet_reset_pos (Some p) ?s) p s'" by (auto simp: udp_sum_ok_def)
  have "moved s p s'" by (rule moved_trans [OF moved_trans [OF moved_reset moved_reset] s'(2)])
  with False s'(1) show ?thesis by simp
qed (use moved_refl in auto)

lemma same_rest_udp:
  assumes "same_rest s s'"
  shows "udp_recv_list s' = udp_recv_list s" "socks s' = socks s" "waits s' = waits s" "udp_list s' = udp_list s" "netifs s' = netifs s"
  using assms by (cases s; cases s'; simp add: same_rest_def)+

lemma udp_in_ok:
  fixes s :: "'a udp_state_scheme"
  assumes ok: "packet_ok s p" and b: "packet_bytes s p = ih @ ub @ payload" "length ub = 8" "length (ub @ payload) \<le> 65535"
    and h: "packet_ipv4_hdr p s = Some h" "ipv4_hdr_size h = int (length ih)" "20 \<le> length ih" "length ih \<le> 60"
    and sum: "udp_sum_ok src dest (ub @ payload)"
    and len: "uint (swap_u16 (uh_total_len (udp_hdr_of ub))) \<le> int (length (ub @ payload))"
    and find: "udp_find src (swap_u16 (uh_src_port (udp_hdr_of ub))) dest (swap_u16 (uh_dest_port (udp_hdr_of ub))) s = Some u"
    and full: "length (udp_recv_list s u) < UDP_MAX_RECV" and rd: "reader_ok (Udp_sock u) w s"
  shows "\<exists>s'. udp_in p src dest s = Some (s', NET_OK) \<and> queued s' p src (swap_u16 (uh_src_port (udp_hdr_of ub))) payload \<and>
    udp_recv_list s' = (udp_recv_list s)(u := udp_recv_list s u @ [p]) \<and> netifs s' = netifs s \<and>
    w_waiting (waits s' w) = (if w_waiting (waits s w) > 0 then w_waiting (waits s w) - 1 else w_waiting (waits s w))"
proof -
  let ?n = "length ih" and ?uh = "udp_hdr_of ub"
  from set_cont_fits [OF ok, of "8 + ?n"] b(1,2) h(3,4) obtain s1 where
    1: "packet_set_cont p (8 + int ?n) s = Some (s1, NET_OK)" "pkt_becomes s p s1 (packet_bytes s p)" "hdr_fits s1 p (8 + ?n)" by auto
  have ok1: "packet_ok s1 p" "packet_bytes s1 p = ih @ ub @ payload" using 1(2) b by (simp_all add: pkt_becomes_def)
  from 1(3) obtain pg chain where l1: "page_list (packets s1 p) = pg # chain" "int (8 + ?n) \<le> pg_size (pages s1 pg)"
    by (auto simp: hdr_fits_def)
  obtain d1 where d1: "packet_ptr p s1 = Some d1" using hdr_fits_ptr [OF 1(3)] by blast
  have rd1: "mem_read d1 (int ?n) 8 s1 = Some ub" using mem_read_hdr [OF ok1(1) d1, of ?n 8] 1(3) b(2) ok1(2) by (simp add: add.commute)
  have "ih \<noteq> []" using h(3) by auto
  with remove_header_first [OF ok1(1) l1(1), of "int ?n"] l1(2) h(3) obtain s2 where
    2: "packet_remove_header p (int ?n) s1 = Some (s2, NET_OK)" "pkt_becomes s1 p s2 (ub @ payload)"
      "page_list (packets s2 p) = pg # chain" "int ?n \<le> pg_data (pages s2 pg)" "8 \<le> pg_size (pages s2 pg)"
    using packet_ok_Cons(1) [OF ok1(1) l1(1)] ok1(2) by (auto simp: page_ok_def)
  have ok2: "packet_ok s2 p" "packet_bytes s2 p = ub @ payload" "hdr_fits s2 p 8" using 2 by (auto simp: pkt_becomes_def hdr_fits_def)
  obtain d where d: "packet_ptr p s2 = Some d" using hdr_fits_ptr [OF ok2(3)] by blast
  have rd2: "mem_read d 0 8 s2 = Some ub" using mem_read_hdr [OF ok2(1) d, of 0 8] ok2(2,3) b(2) by simp
  from udp_check_ok [OF ok2(1), of src dest] b sum ok2(2) obtain s3 where
    3: "(if uh_checksum ?uh \<noteq> 0 then map_option (\<lambda>(s, c). (s, c \<noteq> 0))
        (checksum_peso (ipaddr_to_buf dest) (ipaddr_to_buf src) NET_PROTOCOL_UDP p (packet_reset_pos (Some p) s2))
      else Some (s2, False)) = Some (s3, False)" and m: "moved s2 p s3" by auto
  note ms = moved_same [OF m]
  have ok3: "packet_ok s3 p" "packet_ptr p s3 = Some d" "hdr_fits s3 p 8" "packet_bytes s3 p = ub @ payload"
    using moved_packet_ok [OF m ok2(1)] moved_facts [OF m] d ok2 ms(9) by simp_all
  let ?uh' = "?uh\<lparr>uh_src_port := swap_u16 (uh_src_port ?uh), uh_dest_port := swap_u16 (uh_dest_port ?uh),
    uh_total_len := swap_u16 (uh_total_len ?uh)\<rparr>"
  have ub': "length (udp_hdr_bytes ?uh') = 8" by (simp add: udp_hdr_bytes_def)
  from mem_write_hdr [OF ok3(1,2), of 0 "udp_hdr_bytes ?uh'"] ub' ok3(3,4) b(2) obtain s4 where
    4: "mem_write d 0 (udp_hdr_bytes ?uh') s3 = Some s4" "pkt_becomes s3 p s4 (udp_hdr_bytes ?uh' @ payload)"
      "packets s4 = packets s3" by (auto simp: patch_def)
  have ok4: "packet_ok s4 p" "packet_bytes s4 p = udp_hdr_bytes ?uh' @ payload" using 4(2) by (simp_all add: pkt_becomes_def)
  have pg4: "pg_data (pages s4 pg) = pg_data (pages s2 pg)" "pg_size (pages s4 pg) = pg_size (pages s2 pg)"
    using mem_write_shape [OF 4(1)] ms(1) by simp_all
  have r: "same_rest s s4"
    using same_rest_set_cont [OF 1(1)] same_rest_remove_header [OF 2(1)] same_rest_moved [OF m] same_rest_mem_write [OF 4(1)]
      same_rest_trans by blast
  note k = same_rest_udp [OF r]
  from udp_deliver_ok [OF ok4(1) _ _ _ ok4(2) ub', of pg chain u w src "swap_u16 (uh_src_port ?uh)"] 2(3-5) 4(3) ms(4) pg4 h(3) full rd k
  obtain s5 where 5: "udp_deliver u p src (swap_u16 (uh_src_port ?uh)) s4 = Some (s5, NET_OK)"
    "queued s5 p src (swap_u16 (uh_src_port ?uh)) payload" "udp_recv_list s5 = (udp_recv_list s)(u := udp_recv_list s u @ [p])" "netifs s5 = netifs s"
    "w_waiting (waits s5 w) = (if w_waiting (waits s w) > 0 then w_waiting (waits s w) - 1 else w_waiting (waits s w))"
    by (auto simp: reader_ok_def)
  have f1: "udp_find src (swap_u16 (uh_src_port ?uh)) dest (swap_u16 (uh_dest_port ?uh)) s1 = Some u"
    using find same_rest_udp [OF same_rest_set_cont [OF 1(1)]] by (simp add: udp_find_def)
  have sz: "is_pkt_ok ?uh' (total_size (packets s4 p)) = NET_OK"
    using packet_ok_total [OF ok4(1)] ok4(2) ub' len b(2) by (simp add: is_pkt_ok_def)
  have "udp_in p src dest s = Some (s5, NET_OK)"
    using h(1,2) 1(1) d1 rd1 f1 2(1) d rd2 3 4(1) sz 5(1) by (simp add: udp_in_def)
  with 5 show ?thesis by blast
qed

section \<open>Reading\<close>

lemma udp_from_of_queued:
  assumes "length pre = 4"
  shows "udp_from_of (pre @ ipaddr_to_buf src @ le16_bytes port) = Some \<lparr>uf_from = src, uf_port = port\<rparr>"
  using assms ipaddr_buf_roundtrip [of src "[]"]
  by (simp add: udp_from_of_def nth_append le16_bytes_def)

lemma udp_recvfrom_ok:
  fixes s :: "'a udp_state_scheme"
  assumes q: "queued s p src port payload" and l: "udp_recv_list s u = p # ps" and pl: "payload \<noteq> []" and len: "0 < len"
  shows "\<exists>s'. udp_recvfrom u len s =
      Some (s', NET_OK, Some \<lparr>sin_family = AF_INET, sin_port = swap_u16 port, sin_addr = ipaddr_to_buf src\<rparr>,
        take (nat len) payload, Some (min len (int (length payload)))) \<and>
    udp_recv_list s' = (udp_recv_list s)(u := ps)"
proof -
  let ?s = "upd_udp_recv u (\<lambda>_. ps) s"
  have c: "packets ?s = packets s" "pages ?s = pages s" "page_pool ?s = page_pool s" by (simp_all add: upd_udp_recv_def)
  from q obtain pre where pre: "length pre = 4" "packet_bytes s p = pre @ ipaddr_to_buf src @ le16_bytes port @ payload"
    and ok: "packet_ok ?s p" "hdr_fits ?s p 10" using packet_cong [OF c] by (auto simp: queued_def)
  have b: "packet_bytes ?s p = pre @ ipaddr_to_buf src @ le16_bytes port @ payload" using pre(2) packet_cong [OF c] by simp
  obtain d where d: "packet_ptr p ?s = Some d" using hdr_fits_ptr [OF ok(2)] by blast
  have rd: "mem_read d 0 10 ?s = Some (pre @ ipaddr_to_buf src @ le16_bytes port)"
    using mem_read_hdr [OF ok(1) d, of 0 10] ok(2) b pre(1) by simp
  from packet_remove_header_ok [OF ok(1), of 10] b pre(1) obtain s1 where
    1: "packet_remove_header p 10 ?s = Some (s1, NET_OK)" "pkt_becomes ?s p s1 payload" by auto
  have ok1: "packet_ok s1 p" "packet_bytes s1 p = payload" using 1(2) by (simp_all add: pkt_becomes_def)
  let ?r = "packet_reset_pos (Some p) s1" and ?sz = "min len (int (length payload))"
  have t: "total_size (packets s1 p) = int (length payload)" using packet_ok_total [OF ok1(1)] ok1(2) by simp
  note rp = packet_reset_pos_becomes [OF ok1(1)] and mv = moved_same [OF moved_reset [of s1 p]]
  have cur: "cursor_ok ?r p" using cursor_at_start [OF _ rp(2)] rp(1) by (simp add: pkt_becomes_def)
  have z: "pos (packets ?r p) = 0" using rp(2) by (simp add: at_start_def)
  have "0 < ?sz" using len pl by auto
  from packet_read_ok [OF cur this] z t mv(5,9) ok1(2) obtain s2 where
    2: "packet_read p True ?sz ?r = Some (s2, NET_OK, take (nat ?sz) payload)" by auto
  have tk: "take (nat ?sz) payload = take (nat len) payload" using len by (auto simp: min_def)
  have "udp_recvfrom u len s =
      Some (packet_free p s2, NET_OK, Some \<lparr>sin_family = AF_INET, sin_port = swap_u16 port, sin_addr = ipaddr_to_buf src\<rparr>,
        take (nat len) payload, Some ?sz)"
    using l d rd 1(1) 2 t tk udp_from_of_queued [OF pre(1), of src port]
    by (cases "int (length payload) > len") (simp_all add: udp_recvfrom_def Let_def)
  moreover have "same_rest ?s (packet_free p s2)"
    using same_rest_remove_header [OF 1(1)] same_rest_read [OF 2] same_rest_trans by (fastforce simp: same_rest_upd_left)
  ultimately show ?thesis using same_rest_udp(1) [of ?s "packet_free p s2"] by (auto simp: upd_udp_recv_def)
qed

text \<open>The UDP header of a datagram of a hundred bytes, from port 5000 to port 80.\<close>

definition dgram_ub :: "u8 list" where
  "dgram_ub = [0x13, 0x88, 0, 80, 0, 108, 0, 0]"

lemma dgram_hdr:
  "uh_src_port (udp_hdr_of dgram_ub) = 0x8813" "uh_dest_port (udp_hdr_of dgram_ub) = 0x5000" "uh_total_len (udp_hdr_of dgram_ub) = 0x6C00"
  "uh_checksum (udp_hdr_of dgram_ub) = 0"
  "swap_u16 0x8813 = 5000" "swap_u16 0x5000 = 80" "swap_u16 0x6C00 = 108"
  by (simp_all add: dgram_ub_def udp_hdr_of_def le16_def swap_u16_def)

section \<open>Output\<close>

lemma le16_bytes_le16: "le16_bytes (le16 a b) = [a, b]"
proof -
  have "\<not> bit a (8 + n)" for n using bit_imp_le_length [of a "8 + n"] by auto
  then show ?thesis unfolding le16_bytes_def le16_def by (auto intro!: bit_word_eqI simp: bit_simps)
qed

lemma csum_stale:
  assumes "0 < n" "g \<le> 65535"
  shows "csum_result True (n + unat (csum_result True (n + g))) = 0 \<longleftrightarrow> g = 0 \<or> g = 65535"
proof -
  let ?m = "oc16 (n + g)"
  have m: "0 < ?m" "?m \<le> 65535" using assms(1) oc16_zero [of "n + g"] by (simp_all add: neq0_conv [symmetric] del: neq0_conv)
  have le: "?m \<le> n + 65535" using m(2) by (rule trans_le_add2)
  have full: "oc16 k = 65535 \<longleftrightarrow> k mod 65535 = 0" if "0 < k" for k
    using that oc16_unique [of 65535 k] oc16_mod [of k] by auto
  have "csum_result True (n + unat (csum_result True (n + g))) = 0 \<longleftrightarrow> oc16 (n + (65535 - ?m)) = 65535"
    by (simp add: word_unat_eq_iff) (metis oc16_le le_antisym)
  also have "\<dots> \<longleftrightarrow> (n + (65535 - ?m)) mod 65535 = 0" by (rule full) (use assms(1) m(2) in linarith)
  also have "\<dots> \<longleftrightarrow> (n + 65535) mod 65535 = ?m mod 65535"
    using mod_eq_dvd_iff_nat [OF le, of 65535] m(2) by (simp add: mod_eq_0_iff_dvd del: mod_add_self2)
  also have "\<dots> \<longleftrightarrow> (n + g) mod 65535 = n mod 65535" unfolding oc16_mod by (simp add: eq_commute)
  also have "\<dots> \<longleftrightarrow> 65535 dvd g" using mod_eq_dvd_iff_nat [of n "n + g" 65535] by simp
  also have "\<dots> \<longleftrightarrow> g = 0 \<or> g = 65535" using assms(2) by (auto elim!: dvdE)
  finally show ?thesis .
qed

text \<open>The datagram \<^verbatim>\<open>udp_out\<close> builds, and the sum over it without the checksum field.\<close>

definition udp_ub :: "u16 \<Rightarrow> u16 \<Rightarrow> nat \<Rightarrow> u16 \<Rightarrow> u8 list" where
  "udp_ub sport dport len c = le16_bytes (swap_u16 sport) @ le16_bytes (swap_u16 dport) @ le16_bytes (swap_u16 (of_nat (8 + len))) @ le16_bytes c"

definition udp_sum :: "ipaddr_t \<Rightarrow> ipaddr_t \<Rightarrow> u16 \<Rightarrow> u16 \<Rightarrow> u8 list \<Rightarrow> nat" where
  "udp_sum src dest sport dport bs =
     bsum False (ipaddr_to_buf src) + bsum False (ipaddr_to_buf dest) + bsum False [0, NET_PROTOCOL_UDP] +
     bsum False [ucast (drop_bit 8 (of_nat (8 + length bs) :: u16)), ucast (of_nat (8 + length bs) :: u16)] +
     bsum False (udp_ub sport dport (length bs) 0) + bsum False bs"

lemma length_udp_ub [simp]: "length (udp_ub sport dport len c) = 8"
  by (simp add: udp_ub_def)

lemma udp_ub_sum: "bsum False (udp_ub sport dport len c) = bsum False (udp_ub sport dport len 0) + unat c"
  by (simp add: udp_ub_def bsum_append le16_bytes_sum)

lemma udp_sum_pos: "0 < udp_sum src dest sport dport bs"
  by (simp add: udp_sum_def)

lemma udp_whole_sum:
  "bsum False (ipaddr_to_buf src @ ipaddr_to_buf dest @ [0, NET_PROTOCOL_UDP] @
     [ucast (drop_bit 8 (of_nat (length (udp_ub sport dport (length bs) c @ bs)) :: u16)), ucast (of_nat (length (udp_ub sport dport (length bs) c @ bs)) :: u16)] @
     udp_ub sport dport (length bs) c @ bs) = udp_sum src dest sport dport bs + unat c"
  "bsum False (ipaddr_to_buf dest @ ipaddr_to_buf src @ [0, NET_PROTOCOL_UDP] @
     [ucast (drop_bit 8 (of_nat (length (udp_ub sport dport (length bs) c @ bs)) :: u16)), ucast (of_nat (length (udp_ub sport dport (length bs) c @ bs)) :: u16)] @
     udp_ub sport dport (length bs) c @ bs) = udp_sum src dest sport dport bs + unat c"
  unfolding bsum_append udp_sum_def by (simp_all add: udp_ub_sum [of sport dport "length bs" c] del: bsum.simps)

lemma udp_hdr_of_ub: "udp_hdr_of (udp_ub sport dport len c) =
    \<lparr>uh_src_port = swap_u16 sport, uh_dest_port = swap_u16 dport, uh_total_len = swap_u16 (of_nat (8 + len)), uh_checksum = c\<rparr>"
  by (simp add: udp_hdr_of_def udp_ub_def le16_bytes_def)

text \<open>The two bytes found at the place of the checksum when the header is added.\<close>

definition stale :: "addr \<Rightarrow> 'a packet_state_scheme \<Rightarrow> u16 option" where
  "stale p s = map_option (\<lambda>(s, _). le16 (packet_bytes s p ! 6) (packet_bytes s p ! 7)) (packet_add_header p (int UDP_HDR_SIZE) True s)"

lemma udp_out_ok:
  fixes s :: "'a ipv4_state_scheme"
  assumes ok: "packet_ok s p" and b: "packet_bytes s p = bs" "bs \<noteq> []" "8 + length bs \<le> 65535" and room: "0 < length (page_pool s)"
    and src: "\<not> ipaddr_is_any src"
  shows "\<exists>s1 g. stale p s = Some g \<and> udp_out dest dport (Some src) sport p s = ipv4_out NET_PROTOCOL_UDP dest (Some src) p s1 \<and>
    pkt_becomes s p s1 (udp_ub sport dport (length bs) (csum_result True (udp_sum src dest sport dport bs + unat g)) @ bs) \<and>
    length (page_pool s) \<le> length (page_pool s1) + 1"
proof -
  let ?n = "length bs" and ?N = "udp_sum src dest sport dport bs"
  from add_header_fits [OF ok _ _ room, of 8] b obtain s1 x where
    1: "packet_add_header p 8 True s = Some (s1, NET_OK)" "length x = 8" "pkt_becomes s p s1 (x @ bs)" "hdr_fits s1 p 8" by auto
  have ok1: "packet_ok s1 p" "packet_bytes s1 p = x @ bs" using 1(3) by (simp_all add: pkt_becomes_def)
  have t1: "total_size (packets s1 p) = int (8 + ?n)" using packet_ok_total [OF ok1(1)] ok1(2) 1(2) by simp
  obtain d where d: "packet_ptr p s1 = Some d" using hdr_fits_ptr [OF 1(4)] by blast
  define g where "g = le16 (x ! 6) (x ! 7)"
  have st: "stale p s = Some g" using 1(1,2) ok1(2) by (simp add: stale_def g_def nth_append)
  let ?w = "le16_bytes (swap_u16 sport) @ le16_bytes (swap_u16 dport) @ le16_bytes (swap_u16 (of_int (total_size (packets s1 p))))"
  have "drop 6 x = le16_bytes g" using 1(2) le16_bytes_le16 [of "x ! 6" "x ! 7"] unfolding g_def
    by (simp add: list_eq_iff_nth_eq less_Suc_eq numeral_2_eq_2)
  then have pw: "patch 0 ?w (x @ bs) = udp_ub sport dport ?n g @ bs" using 1(2) t1 by (simp add: patch_def udp_ub_def)
  from mem_write_hdr [OF ok1(1) d, of 0 ?w] hdr_fits_mono [OF 1(4), of 6] ok1(2) pw obtain s2 where
    2: "mem_write d 0 ?w s1 = Some s2" "pkt_becomes s1 p s2 (udp_ub sport dport ?n g @ bs)" "packet_ptr p s2 = Some d"
      "\<forall>n. hdr_fits s2 p n = hdr_fits s1 p n" "page_pool s2 = page_pool s1" by auto
  have ok2: "packet_ok s2 p" "packet_bytes s2 p = udp_ub sport dport ?n g @ bs" using 2(2) by (simp_all add: pkt_becomes_def)
  from checksum_peso_ok [OF ok2(1), where src_ip = "ipaddr_to_buf src" and dest_ip = "ipaddr_to_buf dest" and protocol = 17] b(3)
  obtain s3 where 3: "checksum_peso (ipaddr_to_buf src) (ipaddr_to_buf dest) NET_PROTOCOL_UDP p s2 = Some (s3, csum_result True (?N + unat g))"
      "moved (packet_reset_pos (Some p) s2) p s3" unfolding ok2(2) udp_whole_sum(1) by auto
  have m: "moved s2 p s3" by (rule moved_trans [OF moved_reset 3(2)])
  have ok3: "packet_ok s3 p" "packet_ptr p s3 = Some d" "hdr_fits s3 p 8" "packet_bytes s3 p = udp_ub sport dport ?n g @ bs"
    using moved_packet_ok [OF m ok2(1)] moved_facts [OF m] 2(3,4) 1(4) moved_same(9) [OF m] ok2(2) by simp_all
  let ?c = "csum_result True (?N + unat g)"
  have pc: "patch 6 (le16_bytes ?c) (udp_ub sport dport ?n g @ bs) = udp_ub sport dport ?n ?c @ bs" by (simp add: patch_def udp_ub_def)
  from mem_write_hdr [OF ok3(1,2), of 6 "le16_bytes ?c"] ok3(3,4) pc obtain s4 where
    4: "mem_write d 6 (le16_bytes ?c) s3 = Some s4" "pkt_becomes s3 p s4 (udp_ub sport dport ?n ?c @ bs)"
      "page_pool s4 = page_pool s3" by auto
  have pool: "length (page_pool s) \<le> length (page_pool s4) + 1"
    using add_header_pool [of p 8 s s1] 1(1) 2(5) 4(3) moved_same(2) [OF m] by simp
  have "pkt_becomes s p s4 (udp_ub sport dport ?n ?c @ bs)"
    using 1(3) 2(2) moved_becomes [OF m ok2(1)] 4(2) pkt_frame_trans by (simp add: pkt_becomes_def) blast
  moreover have "udp_out dest dport (Some src) sport p s = ipv4_out NET_PROTOCOL_UDP dest (Some src) p s4"
    using src 1(1) d 2(1) 3(1) 4(1) by (simp add: udp_out_def)
  ultimately show ?thesis using st pool by blast
qed

lemma udp_sum_ok_ub:
  "udp_sum_ok src dest (udp_ub sport dport (length bs) c @ bs) \<longleftrightarrow> c = 0 \<or> csum_result True (udp_sum src dest sport dport bs + unat c) = 0"
  unfolding udp_sum_ok_def udp_whole_sum(2) by (simp add: udp_hdr_of_ub)

lemma unat_u16_le: "unat (g :: u16) \<le> 65535"
proof -
  have "unat g < 65536" by simp
  then show ?thesis by linarith
qed

lemma udp_sum_ok_stale:
  fixes g :: u16
  assumes "c = csum_result True (udp_sum src dest sport dport bs + unat g)"
  shows "udp_sum_ok src dest (udp_ub sport dport (length bs) c @ bs) \<longleftrightarrow> c = 0 \<or> g = 0 \<or> g = 0xFFFF"
proof -
  have g: "unat g \<le> 65535" by (rule unat_u16_le)
  have "unat g = 65535 \<longleftrightarrow> g = 0xFFFF" by (simp add: word_unat_eq_iff)
  then show ?thesis
    unfolding udp_sum_ok_ub assms csum_stale [OF udp_sum_pos g] by (simp add: unat_eq_zero)
qed

text \<open>C32. The checksum of a sent datagram is computed with the two bytes that happen to lie in the checksum field, because udp_out
  does not clear the field first: a receiver accepts the datagram exactly when these stale bytes are zero or all ones, or
  when the computed value is by chance zero, which means that there is no checksum. The ports, the length and the payload of
  the datagram are as asked for.\<close>

theorem udp_out_checksum:
  fixes s :: "'a ipv4_state_scheme"
  assumes "packet_ok s p" "packet_bytes s p = bs" "bs \<noteq> []" "8 + length bs \<le> 65535" "0 < length (page_pool s)" "\<not> ipaddr_is_any src"
  shows "\<exists>s1 g c. stale p s = Some g \<and> udp_out dest dport (Some src) sport p s = ipv4_out NET_PROTOCOL_UDP dest (Some src) p s1 \<and>
    packet_ok s1 p \<and> packet_bytes s1 p = udp_ub sport dport (length bs) c @ bs \<and>
    (udp_sum_ok src dest (packet_bytes s1 p) \<longleftrightarrow> c = 0 \<or> g = 0 \<or> g = 0xFFFF)"
proof -
  from udp_out_ok [OF assms, of dest dport sport] obtain s1 g where
    "stale p s = Some g" "udp_out dest dport (Some src) sport p s = ipv4_out NET_PROTOCOL_UDP dest (Some src) p s1"
    "pkt_becomes s p s1 (udp_ub sport dport (length bs) (csum_result True (udp_sum src dest sport dport bs + unat g)) @ bs)" by blast
  moreover from this have "packet_ok s1 p" "packet_bytes s1 p =
      udp_ub sport dport (length bs) (csum_result True (udp_sum src dest sport dport bs + unat g)) @ bs" by (simp_all add: pkt_becomes_def)
  ultimately show ?thesis using udp_sum_ok_stale [OF refl, of src dest sport dport bs g] by metis
qed

text \<open>Two bytes to send, in a page that still holds something else.\<close>

definition stale_sample :: tcp_state where
  "stale_sample = (hdr_sample (replicate 128 7) zero_tcp)\<lparr>page_pool := [1],
     pages := (\<lambda>_. \<lparr>pg_size = 2, pg_data = 100, pg_payload = replicate 128 7\<rparr>),
     packets := \<lambda>_. \<lparr>total_size = 2, page_list = [0], ref = 1, pos = 0, cur_page = None, page_offset = 0\<rparr>\<rparr>"

lemma stale_simps [simp]:
  "pages stale_sample g = \<lparr>pg_size = 2, pg_data = 100, pg_payload = replicate 128 7\<rparr>"
  "packets stale_sample p = \<lparr>total_size = 2, page_list = [0], ref = 1, pos = 0, cur_page = None, page_offset = 0\<rparr>"
  "page_pool stale_sample = [1]"
  by (simp_all add: stale_sample_def del: upt_rec_numeral)

theorem udp_out_checksum_witness:
  "\<exists>(s1 :: tcp_state) c. udp_out 0x036EA8C0 80 (Some 0x026EA8C0) 5000 0 stale_sample = ipv4_out NET_PROTOCOL_UDP 0x036EA8C0 (Some 0x026EA8C0) 0 s1 \<and>
     packet_bytes s1 0 = udp_ub 5000 80 2 c @ [7, 7] \<and> (udp_sum_ok 0x026EA8C0 0x036EA8C0 (packet_bytes s1 0) \<longleftrightarrow> c = 0)"
proof -
  have b: "packet_bytes stale_sample 0 = [7, 7]" by (simp add: packet_bytes_def page_bytes_def eval_nat_numeral)
  have ok: "packet_ok stale_sample 0" using b by (simp add: packet_ok_def page_ok_def)
  have st: "stale 0 stale_sample = Some 0x0707"
    by (simp add: stale_def packet_add_header_def packet_first_page_def packet_bytes_def page_bytes_def upd_page_def upd_packet_def
        assert_live_def le16_def nth_append Let_def)
  have a: "[7, 7 :: u8] \<noteq> []" "8 + length [7, 7 :: u8] \<le> 65535" "0 < length (page_pool stale_sample)" "\<not> ipaddr_is_any 0x026EA8C0"
    by (simp_all add: ipaddr_is_any_def)
  from udp_out_checksum [OF ok b a, of "0x036EA8C0" 80 5000] st obtain s1 :: tcp_state and c where
    "udp_out 0x036EA8C0 80 (Some 0x026EA8C0) 5000 0 stale_sample = ipv4_out NET_PROTOCOL_UDP 0x036EA8C0 (Some 0x026EA8C0) 0 s1"
    "packet_bytes s1 0 = udp_ub 5000 80 (length [7, 7 :: u8]) c @ [7, 7]"
    "udp_sum_ok 0x026EA8C0 0x036EA8C0 (packet_bytes s1 0) \<longleftrightarrow> c = 0 \<or> 0x0707 = (0 :: u16) \<or> 0x0707 = (0xFFFF :: u16)" by auto
  moreover have "length [7, 7 :: u8] = 2" "\<not> (0x0707 = (0 :: u16) \<or> 0x0707 = (0xFFFF :: u16))" by simp_all
  ultimately show ?thesis by (metis (no_types, lifting))
qed

end
