(* ===== verification/Net_In_Flow.thy ===== *)
theory Net_In_Flow
  imports Net_Stack Net_Udp_Flow
begin

text \<open>
  A datagram through the whole input path: \<^verbatim>\<open>ipv4_in\<close> validates the header, cuts off what the
  link added behind the packet, and hands the datagram to \<^verbatim>\<open>udp_in\<close>.
\<close>

section \<open>Cutting a packet\<close>

lemma resize_fits:
  assumes ok: "packet_ok s p" and f: "hdr_fits s p k" and n: "0 < n" "n \<le> int (length (packet_bytes s p))" "int k \<le> n"
    and run: "packet_resize p n s = Some (s', e)"
  shows "hdr_fits s' p k"
proof (cases "n = int (length (packet_bytes s p))")
  case True
  with run f packet_ok_total [OF ok] packet_ok_live [OF ok] show ?thesis by (simp add: packet_resize_def)
next
  case False
  let ?size = "\<lambda>pg. pg_size (pages s pg)"
  have lt: "0 < n" "n < int (length (packet_bytes s p))" "packet_bytes s p \<noteq> []" using n False by auto
  have tot: "total_size (packets s p) = int (length (packet_bytes s p))" by (rule packet_ok_total [OF ok])
  have pok: "\<forall>pg\<in>set (page_list (packets s p)). page_ok (pages s pg)" and dist: "distinct (page_list (packets s p))"
    using ok by (simp_all add: packet_ok_def)
  have sum: "int (length (packet_bytes s p)) = sum_list (map ?size (page_list (packets s p)))"
    using length_chain_bytes [OF pok] by (simp add: packet_bytes_def)
  from find_tail_spec [OF pok, of 0 n] n sum obtain xs pg ys where
    t: "page_list (packets s p) = xs @ pg # ys" "find_tail (pages s) n 0 (page_list (packets s p)) = Some (pg, ys)"
      "sum_list (map ?size xs) < n" "n \<le> sum_list (map ?size xs) + ?size pg" by auto
  have d: "drop_pages_loop p ys 0 s =
      (upd_packet p (\<lambda>pk. pk\<lparr>page_list := xs @ [pg]\<rparr>) (s\<lparr>page_pool := page_pool s @ ys\<rparr>), sum_list (map ?size ys))"
    using drop_pages_loop_eq [of s p "xs @ [pg]" ys 0] t(1) dist by simp
  have s': "page_list (packets s' p) = xs @ [pg]" "pg \<notin> set xs"
    "pages s' = (pages s)(pg := (pages s pg)\<lparr>pg_size := ?size pg - (total_size (packets s p) - sum_list (map ?size ys) - n)\<rparr>)"
    using run t(1,2) d lt tot dist packet_ok_live [OF ok] by (auto simp: packet_resize_def upd_packet_def upd_page_def Let_def)
  from f t(1) have hd: "int k \<le> ?size (hd (xs @ [pg]))" by (auto simp: hdr_fits_def neq_Nil_conv hd_append)
  show ?thesis
  proof (cases xs)
    case Nil
    then have "pg_size (pages s' pg) = n" using s'(3) tot sum t(1) by simp
    with n(3) Nil s'(1) show ?thesis by (simp add: hdr_fits_def)
  next
    case (Cons x xs')
    with hd s' show ?thesis by (auto simp: hdr_fits_def)
  qed
qed

section \<open>The network layer\<close>

text \<open>A received header, in network order, that the validation accepts: a plain header without options, not of a fragment.\<close>

definition hdr_plain :: "ipv4_hdr_t \<Rightarrow> nat \<Rightarrow> bool" where
  "hdr_plain h len \<longleftrightarrow> hdr_ok h \<and> ip_version h = 4 \<and> ipv4_hdr_size h = 20 \<and> unat (swap_u16 (ip_total_len h)) = 20 + len \<and>
     csum_result True (bsum False (ipv4_hdr_bytes h)) = 0 \<and> ip_offset (iphdr_ntohs h) = 0 \<and> \<not> ip_more (iphdr_ntohs h)"

lemma patch_swap:
  "hdr_ok h \<Longrightarrow> patch 2 (le16_bytes (ip_total_len (iphdr_htons h)) @ le16_bytes (ip_id (iphdr_htons h)) @ le16_bytes (ip_frag_all (iphdr_htons h)))
     (ipv4_hdr_bytes h @ rest) = ipv4_hdr_bytes (iphdr_htons h) @ rest"
  by (simp add: patch_def ipv4_hdr_bytes_def hdr_ok_def le16_bytes_def iphdr_htons_def)

lemma swap_hdr_ok:
  fixes s :: "'a packet_state_scheme"
  assumes pk: "ip_packet s p h bs" and d: "packet_ptr p s = Some d"
  shows "\<exists>s'. swap_hdr_at d s = Some s' \<and> ip_packet s' p (iphdr_htons h) bs \<and> packet_ptr p s' = Some d \<and> same_rest s s' \<and>
    page_pool s' = page_pool s \<and> pkt_becomes s p s' (ipv4_hdr_bytes (iphdr_htons h) @ bs)"
proof -
  have ok: "packet_ok s p" and h: "hdr_ok h" and f: "hdr_fits s p 20" and b: "packet_bytes s p = ipv4_hdr_bytes h @ bs"
    using pk by (simp_all add: ip_packet_def)
  have r: "read_ipv4_hdr d s = Some h"
    using mem_read_hdr [OF ok d, of 0 20] f b h ipv4_hdr_roundtrip [OF h, of "[]"] by (simp add: read_ipv4_hdr_def)
  from mem_write_hdr [OF ok d, of 2 "le16_bytes (ip_total_len (iphdr_htons h)) @ le16_bytes (ip_id (iphdr_htons h)) @ le16_bytes (ip_frag_all (iphdr_htons h))"]
    hdr_fits_mono [OF f, of 8] b patch_swap [OF h, of bs] obtain s' where
    w: "mem_write d 2 (le16_bytes (ip_total_len (iphdr_htons h)) @ le16_bytes (ip_id (iphdr_htons h)) @ le16_bytes (ip_frag_all (iphdr_htons h))) s = Some s'"
      "pkt_becomes s p s' (ipv4_hdr_bytes (iphdr_htons h) @ bs)" "packet_ptr p s' = Some d" "\<forall>n. hdr_fits s' p n = hdr_fits s p n"
      "page_pool s' = page_pool s" by auto
  then show ?thesis using r f h same_rest_mem_write [OF w(1)] by (auto simp: swap_hdr_at_def ip_packet_def pkt_becomes_def)
qed

lemma ipv4_in_normal:
  fixes s :: "'a tcp_state_scheme"
  assumes ok: "packet_ok s p" and b: "packet_bytes s p = ipv4_hdr_bytes h @ bs @ pad" and h: "hdr_plain h (length bs)"
    and ip: "ipaddr_from_buf (ip_src_ip h) = Some src" "ipaddr_from_buf (ip_dest_ip h) = Some dest"
    and m: "ipaddr_is_match dest (ni_ipaddr (netifs s n)) (ni_netmask (netifs s n))"
  shows "\<exists>s1. ipv4_in n p s = ip_normal_in n p src dest s1 \<and> ip_packet s1 p (iphdr_htons h) bs \<and> same_rest s s1 \<and>
    pkt_becomes s p s1 (ipv4_hdr_bytes (iphdr_htons h) @ bs)"
proof -
  have hp: "hdr_ok h" "ip_version h = 4" "ipv4_hdr_size h = 20" "unat (swap_u16 (ip_total_len h)) = 20 + length bs"
    "csum_result True (bsum False (ipv4_hdr_bytes h)) = 0" "ip_offset (iphdr_htons h) = 0" "\<not> ip_more (iphdr_htons h)"
    using h by (simp_all add: hdr_plain_def iphdr_htons_def iphdr_ntohs_def)
  have u: "uint (swap_u16 (ip_total_len h)) = int (20 + length bs)" using hp(4) by (metis uint_nat)
  from set_cont_fits [OF ok, of 20] b hp(1) obtain s1 where
    1: "packet_set_cont p 20 s = Some (s1, NET_OK)" "pkt_becomes s p s1 (packet_bytes s p)" "hdr_fits s1 p 20" by auto
  have pk1: "ip_packet s1 p h (bs @ pad)" using 1(2,3) b hp(1) by (simp add: ip_packet_def pkt_becomes_def)
  obtain d where d: "packet_ptr p s1 = Some d" using hdr_fits_ptr [OF 1(3)] by blast
  have t1: "total_size (packets s1 p) = int (20 + length bs + length pad)"
    using pk1 packet_ok_total [of s1 p] hp(1) by (simp add: ip_packet_def)
  have v: "validate_ipv4_pkt d (total_size (packets s1 p)) s1 = Some NET_OK"
    by (rule validate_ok [OF pk1 d hp(2,3) _ _ hp(5)]) (simp_all add: u t1)
  from swap_hdr_ok [OF pk1 d] obtain s2 where 2: "swap_hdr_at d s1 = Some s2" "ip_packet s2 p (iphdr_htons h) (bs @ pad)"
      "packet_ptr p s2 = Some d" "same_rest s1 s2" "page_pool s2 = page_pool s1" "pkt_becomes s1 p s2 (ipv4_hdr_bytes (iphdr_htons h) @ bs @ pad)" by blast
  have ok2: "packet_ok s2 p" "hdr_ok (iphdr_htons h)" "hdr_fits s2 p 20" "packet_bytes s2 p = ipv4_hdr_bytes (iphdr_htons h) @ bs @ pad"
    using 2(2) by (simp_all add: ip_packet_def)
  have r: "read_ipv4_hdr d s2 = Some (iphdr_htons h)"
    using mem_read_hdr [OF ok2(1) 2(3), of 0 20] ok2 ipv4_hdr_roundtrip [OF ok2(2), of "[]"] by (simp add: read_ipv4_hdr_def)
  from packet_resize_ok [OF ok2(1), of "int (20 + length bs)"] ok2(2,4) obtain s3 where
    3: "packet_resize p (int (20 + length bs)) s2 = Some (s3, NET_OK)" "pkt_becomes s2 p s3 (ipv4_hdr_bytes (iphdr_htons h) @ bs)" by auto
  have f3: "hdr_fits s3 p 20" by (rule resize_fits [OF ok2(1,3) _ _ _ 3(1)]) (simp_all add: ok2(4) hp(1))
  have sr: "same_rest s s3"
    using same_rest_set_cont [OF 1(1)] 2(4) same_rest_resize [OF 3(1)] same_rest_trans by blast
  have k: "netifs s3 = netifs s" using sr by (cases s; cases s3; simp add: same_rest_def)
  have "ipv4_in n p s = ip_normal_in n p src dest s3"
    using 1(1) d v 2(1) r 3(1) u ip m k hp(6,7) by (simp add: ipv4_in_def)
  moreover have "ip_packet s3 p (iphdr_htons h) bs" using 3(2) f3 ok2(2) by (simp add: ip_packet_def pkt_becomes_def)
  moreover have "pkt_becomes s p s3 (ipv4_hdr_bytes (iphdr_htons h) @ bs)"
    using 1(2) 2(6) 3(2) pkt_frame_trans by (simp add: pkt_becomes_def) blast
  ultimately show ?thesis using sr by blast
qed

lemma hdr_plain_htons: "hdr_plain h len \<Longrightarrow> hdr_ok (iphdr_htons h) \<and> ipv4_hdr_size (iphdr_htons h) = 20"
  by (simp add: hdr_plain_def)

text \<open>From the network layer to the list of the socket.\<close>

lemma ipv4_in_udp:
  fixes s :: "'a tcp_state_scheme"
  assumes ok: "packet_ok s p" and b: "packet_bytes s p = ipv4_hdr_bytes h @ (ub @ payload) @ pad" and h: "hdr_plain h (length (ub @ payload))"
    and pr: "ip_protocol h = NET_PROTOCOL_UDP" and ub: "length ub = 8"
    and ip: "ipaddr_from_buf (ip_src_ip h) = Some src" "ipaddr_from_buf (ip_dest_ip h) = Some dest"
    and m: "ipaddr_is_match dest (ni_ipaddr (netifs s n)) (ni_netmask (netifs s n))"
    and sum: "udp_sum_ok src dest (ub @ payload)"
    and len: "uint (swap_u16 (uh_total_len (udp_hdr_of ub))) \<le> int (length (ub @ payload))"
    and find: "udp_find src (swap_u16 (uh_src_port (udp_hdr_of ub))) dest (swap_u16 (uh_dest_port (udp_hdr_of ub))) s = Some u"
    and full: "length (udp_recv_list s u) < UDP_MAX_RECV" and rd: "reader_ok (Udp_sock u) w s"
  shows "\<exists>s'. ipv4_in n p s = Some (s', NET_OK) \<and> queued s' p src (swap_u16 (uh_src_port (udp_hdr_of ub))) payload \<and>
    udp_recv_list s' = (udp_recv_list s)(u := udp_recv_list s u @ [p]) \<and> netifs s' = netifs s \<and>
    w_waiting (waits s' w) = (if w_waiting (waits s w) > 0 then w_waiting (waits s w) - 1 else w_waiting (waits s w))"
proof -
  from ipv4_in_normal [OF ok b h ip m] obtain s1 where 1: "ipv4_in n p s = ip_normal_in n p src dest s1"
      "ip_packet s1 p (iphdr_htons h) (ub @ payload)" "same_rest s s1" by blast
  have hh: "hdr_ok (iphdr_htons h)" "ipv4_hdr_size (iphdr_htons h) = 20" using hdr_plain_htons [OF h] by simp_all
  have ok1: "packet_ok s1 p" "hdr_fits s1 p 20" "packet_bytes s1 p = ipv4_hdr_bytes (iphdr_htons h) @ ub @ payload"
    using 1(2) by (simp_all add: ip_packet_def)
  obtain d where d: "packet_ptr p s1 = Some d" using hdr_fits_ptr [OF ok1(2)] by blast
  have r: "read_ipv4_hdr d s1 = Some (iphdr_htons h)"
    using mem_read_hdr [OF ok1(1) d, of 0 20] ok1 hh(1) ipv4_hdr_roundtrip [OF hh(1), of "[]"] by (simp add: read_ipv4_hdr_def)
  have "length (ub @ payload) \<le> 65535" using h unat_u16_le [of "swap_u16 (ip_total_len h)"] by (simp add: hdr_plain_def)
  note k = same_rest_udp [OF 1(3)]
  have f: "udp_find src (swap_u16 (uh_src_port (udp_hdr_of ub))) dest (swap_u16 (uh_dest_port (udp_hdr_of ub))) s1 = Some u"
    using find k by (simp add: udp_find_def)
  have p1: "packet_ipv4_hdr p s1 = Some (iphdr_htons h)" using d r by (simp add: packet_ipv4_hdr_def)
  have l: "length (ipv4_hdr_bytes (iphdr_htons h)) = 20" using hh(1) by simp
  have rd1: "reader_ok (Udp_sock u) w s1" using rd k by (simp add: reader_ok_def)
  from udp_in_ok [OF ok1(1,3) ub \<open>length (ub @ payload) \<le> 65535\<close> p1 _ _ _ sum len f _ rd1] hh(2) l full k obtain s2 where
    2: "udp_in p src dest s1 = Some (s2, NET_OK)" "queued s2 p src (swap_u16 (uh_src_port (udp_hdr_of ub))) payload"
      "udp_recv_list s2 = (udp_recv_list s)(u := udp_recv_list s u @ [p])" "netifs s2 = netifs s"
      "w_waiting (waits s2 w) = (if w_waiting (waits s w) > 0 then w_waiting (waits s w) - 1 else w_waiting (waits s w))" by auto
  have "ip_normal_in n p src dest s1 = Some (s2, NET_OK)" using d r pr 2(1) by (simp add: ip_normal_in_def)
  with 1(1) 2 show ?thesis by auto
qed

text \<open>C15. A UDP datagram that arrives in an IP packet reaches the application unchanged: ipv4_in accepts the packet, cuts off what
  the link appended, finds the socket for the addresses and ports, puts the packet at the end of that socket's list and wakes
  one waiting reader; when it is the first of the list, udp_recvfrom returns the sender's address and port, as many bytes of the
  payload as asked for, and their number.\<close>

theorem ipv4_udp_delivery:
  fixes s :: "'a tcp_state_scheme"
  assumes "packet_ok s p" "packet_bytes s p = ipv4_hdr_bytes h @ (ub @ payload) @ pad" "hdr_plain h (length (ub @ payload))"
    and "ip_protocol h = NET_PROTOCOL_UDP" "length ub = 8" "payload \<noteq> []"
    and "ipaddr_from_buf (ip_src_ip h) = Some src" "ipaddr_from_buf (ip_dest_ip h) = Some dest"
    and "ipaddr_is_match dest (ni_ipaddr (netifs s n)) (ni_netmask (netifs s n))" "udp_sum_ok src dest (ub @ payload)"
    and "uint (swap_u16 (uh_total_len (udp_hdr_of ub))) \<le> int (length (ub @ payload))"
    and "udp_find src (swap_u16 (uh_src_port (udp_hdr_of ub))) dest (swap_u16 (uh_dest_port (udp_hdr_of ub))) s = Some u"
    and "length (udp_recv_list s u) < UDP_MAX_RECV" "reader_ok (Udp_sock u) w s"
  shows "\<exists>s'. ipv4_in n p s = Some (s', NET_OK) \<and> udp_recv_list s' = (udp_recv_list s)(u := udp_recv_list s u @ [p]) \<and>
    w_waiting (waits s' w) = (if w_waiting (waits s w) > 0 then w_waiting (waits s w) - 1 else w_waiting (waits s w)) \<and>
    (udp_recv_list s u = [] \<longrightarrow> 0 < len \<longrightarrow>
      (\<exists>s2. udp_recvfrom u len s' =
          Some (s2, NET_OK, Some \<lparr>sin_family = AF_INET, sin_port = uh_src_port (udp_hdr_of ub), sin_addr = ipaddr_to_buf src\<rparr>,
            take (nat len) payload, Some (min len (int (length payload)))) \<and> udp_recv_list s2 u = []))"
proof -
  from ipv4_in_udp [OF assms(1-5,7-14)] obtain s' where s': "ipv4_in n p s = Some (s', NET_OK)"
    "queued s' p src (swap_u16 (uh_src_port (udp_hdr_of ub))) payload"
    "udp_recv_list s' = (udp_recv_list s)(u := udp_recv_list s u @ [p])"
    "w_waiting (waits s' w) = (if w_waiting (waits s w) > 0 then w_waiting (waits s w) - 1 else w_waiting (waits s w))" by blast
  then show ?thesis using udp_recvfrom_ok [OF s'(2) _ assms(6), of u "[]" len] by auto
qed

section \<open>Through the loop interface\<close>

lemma loop_out:
  fixes s :: "'a arp_state_scheme"
  assumes lo: "ni_link_layer (netifs s n) = None" "ni_ops (netifs s n) = Loop_driver" "ni_in_q (netifs s n) = []" "ni_out_q (netifs s n) = []"
    and q: "msg_mem_pool s = m # ms" "length (msg_queue s) < HANDLER_BUFFER_SIZE"
  shows "netif_out n ip p s = Some ((packet_reset_pos (Some p) s)\<lparr>netifs := (netifs s)(n := (netifs s n)\<lparr>ni_in_q := [p]\<rparr>),
      msg_mem_pool := ms, msgs := (msgs s)(m := EXMSG_NETIF_IN n), msg_queue := msg_queue s @ [m]\<rparr>, NET_OK)"
proof -
  have q': "(netifs s n)\<lparr>ni_out_q := [], ni_in_q := [p]\<rparr> = (netifs s n)\<lparr>ni_in_q := [p]\<rparr>" using lo(4) by simp
  show ?thesis
    using assms
    by (simp add: q' netif_out_def netif_put_out_def queue_send_def ops_transmit_def loop_transmit_def netif_get_out_def queue_recv_def
        netif_put_in_def handler_netif_in_def pool_alloc_def upd_netif_def packet_reset_pos_def upd_packet_def Let_def
        cong: option.case_cong)
qed

lemma loop_in:
  fixes s :: "'a tcp_state_scheme"
  assumes "ni_in_q (netifs s n) = [p]" "ni_link_layer (netifs s n) = None"
    and "ipv4_in n p (packet_reset_pos (Some p) (upd_netif n (\<lambda>ni. ni\<lparr>ni_in_q := []\<rparr>) s)) = Some (s', NET_OK)"
    and "ni_in_q (netifs s' n) = []"
  shows "do_netif_in n s = Some (upd_netif n (\<lambda>ni. ni\<lparr>ni_in_q := []\<rparr>) s', NET_OK)"
  using assms
  by (simp add: do_netif_in.simps [of n s] do_netif_in.simps [of n s'] netif_get_in_def queue_recv_def netif_packet_in_def
      upd_netif_def packet_reset_pos_def upd_packet_def Let_def)

lemma hdr_ok_with_checksum [simp]: "hdr_ok (with_checksum h) = hdr_ok h"
  by (simp add: with_checksum_def)

lemma out_hdr_plain:
  assumes "20 + len \<le> 65535"
  shows "hdr_plain (out_hdr protocol dest src n len s) len"
proof -
  have "uint (of_nat (20 + len) :: u16) = int (20 + len)" by (rule uint_of_nat_u16 [OF assms])
  then have "unat (of_nat (20 + len) :: u16) = 20 + len" unfolding unat_eq_nat_uint by (metis nat_int)
  then show ?thesis
    by (simp add: hdr_plain_def out_hdr_def out_hdr_fields with_checksum_sum ip_offset_def ip_more_def iphdr_ntohs_def)
qed

text \<open>What the frame of a packet keeps of the layers above it.\<close>

lemma frame_rest: "pkt_frame s p s' \<Longrightarrow> same_rest s s'"
  by (simp add: pkt_frame_def same_rest_def)

lemma same_rest_lower:
  fixes s s' :: "'a arp_state_scheme"
  assumes "same_rest s s'"
  shows "rt_list s' = rt_list s" "rt_table s' = rt_table s" "netifs s' = netifs s" "msg_mem_pool s' = msg_mem_pool s"
    "msg_queue s' = msg_queue s" "msgs s' = msgs s"
  using assms by (cases s; cases s'; simp add: same_rest_def)+

text \<open>One packet through the interface and the input side.\<close>

lemma reset_moved: "moved s p (packet_reset_pos (Some p) (packet_reset_pos (Some p) s))"
  by (rule moved_trans [OF moved_reset moved_reset])

lemma loop_udp:
  fixes s :: "'a tcp_state_scheme"
  assumes pk: "ip_packet s p h (ub @ bs)" and h: "hdr_plain h (length (ub @ bs))" "ip_protocol h = NET_PROTOCOL_UDP"
    and ip: "ipaddr_from_buf (ip_src_ip h) = Some src" "ipaddr_from_buf (ip_dest_ip h) = Some dest"
    and m: "ipaddr_is_match dest (ni_ipaddr (netifs s n)) (ni_netmask (netifs s n))"
    and ub: "udp_hdr_of ub = \<lparr>uh_src_port = swap_u16 sport, uh_dest_port = swap_u16 dport, uh_total_len = swap_u16 (of_nat (8 + length bs)), uh_checksum = c\<rparr>"
      "length ub = 8" "udp_sum_ok src dest (ub @ bs)"
    and lo: "ni_link_layer (netifs s n) = None" "ni_ops (netifs s n) = Loop_driver" "ni_in_q (netifs s n) = []" "ni_out_q (netifs s n) = []"
    and q: "msg_mem_pool s = m # ms" "length (msg_queue s) < HANDLER_BUFFER_SIZE"
    and u: "udp_find src sport dest dport s = Some u" "udp_recv_list s u = []" "reader_ok (Udp_sock u) w s"
  shows "\<exists>s1 s2. netif_out n hop p s = Some (s1, NET_OK) \<and> ni_in_q (netifs s1 n) = [p] \<and> msg_queue s1 = msg_queue s @ [m] \<and>
    msgs s1 m = EXMSG_NETIF_IN n \<and> do_netif_in n s1 = Some (s2, NET_OK) \<and> ni_in_q (netifs s2 n) = [] \<and>
    udp_recv_list s2 = (udp_recv_list s)(u := [p]) \<and> queued s2 p src sport bs"
proof -
  define x where "x = (packet_reset_pos (Some p) s)\<lparr>netifs := (netifs s)(n := (netifs s n)\<lparr>ni_in_q := [p]\<rparr>),
      msg_mem_pool := ms, msgs := (msgs s)(m := EXMSG_NETIF_IN n), msg_queue := msg_queue s @ [m]\<rparr>"
  define y where "y = packet_reset_pos (Some p) (upd_netif n (\<lambda>ni. ni\<lparr>ni_in_q := []\<rparr>) x)"
  have out: "netif_out n hop p s = Some (x, NET_OK)" unfolding x_def by (rule loop_out [OF lo q])
  have kx: "netifs x n = (netifs s n)\<lparr>ni_in_q := [p]\<rparr>" "msg_queue x = msg_queue s @ [m]" "msgs x m = EXMSG_NETIF_IN n"
    by (simp_all add: x_def)
  have ky: "netifs y n = netifs s n" "udp_list y = udp_list s" "socks y = socks s" "waits y = waits s" "udp_recv_list y = udp_recv_list s"
    using lo(3) by (simp_all add: y_def x_def upd_netif_def packet_reset_pos_def upd_packet_def)
  have cy: "packets y = packets (packet_reset_pos (Some p) (packet_reset_pos (Some p) s))"
    "pages y = pages (packet_reset_pos (Some p) (packet_reset_pos (Some p) s))"
    "page_pool y = page_pool (packet_reset_pos (Some p) (packet_reset_pos (Some p) s))"
    by (simp_all add: y_def x_def upd_netif_def packet_reset_pos_def upd_packet_def cong: option.case_cong)
  have ok: "packet_ok s p" "packet_bytes s p = ipv4_hdr_bytes h @ (ub @ bs) @ []" using pk by (simp_all add: ip_packet_def)
  have py: "packet_ok y p" "packet_bytes y p = ipv4_hdr_bytes h @ (ub @ bs) @ []"
    using packet_cong [OF cy] moved_packet_ok [OF reset_moved ok(1)] moved_same(9) [OF reset_moved [of s p]] ok(2) by simp_all
  have "length (ub @ bs) \<le> 65535" using h(1) unat_u16_le [of "swap_u16 (ip_total_len h)"] by (simp add: hdr_plain_def)
  then have len: "uint (swap_u16 (uh_total_len (udp_hdr_of ub))) \<le> int (length (ub @ bs))"
    using ub(1,2) uint_of_nat_u16 [of "8 + length bs"] by simp
  have f: "udp_find src (swap_u16 (uh_src_port (udp_hdr_of ub))) dest (swap_u16 (uh_dest_port (udp_hdr_of ub))) y = Some u"
    using u(1) ub(1) ky by (simp add: udp_find_def)
  from ipv4_in_udp [OF py h ub(2) ip _ ub(3) len f, of n w] m u(2,3) ky obtain s' where
    s': "ipv4_in n p y = Some (s', NET_OK)" "queued s' p src sport bs" "udp_recv_list s' = (udp_recv_list s)(u := [p])" "netifs s' = netifs y"
    by (auto simp: reader_ok_def ub(1))
  let ?z = "upd_netif n (\<lambda>ni. ni\<lparr>ni_in_q := []\<rparr>) s'"
  have "do_netif_in n x = Some (?z, NET_OK)"
    by (rule loop_in) (use kx(1) lo s'(1,4) ky(1) in \<open>simp_all add: y_def\<close>)
  moreover have "queued ?z p src sport bs" using s'(2) packet_cong [of ?z s' p] by (simp add: queued_def upd_netif_def)
  ultimately show ?thesis using out kx s'(3) by (auto simp: upd_netif_def)
qed

text \<open>C13. A datagram sent to an address of the loop interface reaches the receiving socket: udp_out puts one packet on the input
  queue of the interface and one message into the queue of the worker thread, and when the worker handles that message, it
  delivers the datagram to the socket found for its addresses and ports, empties the interface's queue and returns; reading the
  socket gives the bytes that were sent and the address and port of the sender.  The checksum field found in front of the
  payload must hold zero or all ones.\<close>

theorem udp_loopback:
  fixes s :: "'a tcp_state_scheme"
  assumes "packet_ok s p" "packet_bytes s p = bs" "bs \<noteq> []" "28 + length bs \<le> 65535" "2 \<le> length (page_pool s)"
    and "\<not> ipaddr_is_any src" "stale p s \<in> {Some 0, Some 0xFFFF}"
    and "rt_find dest s = Some e" "re_netif (rt_table s e) = n" "ipaddr_is_match dest (ni_ipaddr (netifs s n)) (ni_netmask (netifs s n))"
    and "ni_link_layer (netifs s n) = None" "ni_ops (netifs s n) = Loop_driver" "ni_mtu (netifs s n) = 0"
    and "ni_in_q (netifs s n) = []" "ni_out_q (netifs s n) = []"
    and "msg_mem_pool s = m # ms" "length (msg_queue s) < HANDLER_BUFFER_SIZE"
    and "udp_find src sport dest dport s = Some u" "udp_recv_list s u = []" "reader_ok (Udp_sock u) w s" "0 < len"
  shows "\<exists>s1 s2 s3. udp_out dest dport (Some src) sport p s = Some (s1, NET_OK) \<and> ni_in_q (netifs s1 n) = [p] \<and>
    msg_queue s1 = msg_queue s @ [m] \<and> msgs s1 m = EXMSG_NETIF_IN n \<and>
    do_netif_in n s1 = Some (s2, NET_OK) \<and> ni_in_q (netifs s2 n) = [] \<and> udp_recv_list s2 = (udp_recv_list s)(u := [p]) \<and>
    udp_recvfrom u len s2 = Some (s3, NET_OK, Some \<lparr>sin_family = AF_INET, sin_port = swap_u16 sport, sin_addr = ipaddr_to_buf src\<rparr>,
      take (nat len) bs, Some (min len (int (length bs))))"
proof -
  have room0: "8 + length bs \<le> 65535" "0 < length (page_pool s)" using assms(4,5) by linarith+
  from udp_out_ok [OF assms(1-3) room0 assms(6), of dest dport sport] obtain s1 g where
    1: "stale p s = Some g" "udp_out dest dport (Some src) sport p s = ipv4_out NET_PROTOCOL_UDP dest (Some src) p s1"
      "pkt_becomes s p s1 (udp_ub sport dport (length bs) (csum_result True (udp_sum src dest sport dport bs + unat g)) @ bs)"
      "length (page_pool s) \<le> length (page_pool s1) + 1" by auto
  define ub where "ub = udp_ub sport dport (length bs) (csum_result True (udp_sum src dest sport dport bs + unat g))"
  have b1: "packet_ok s1 p" "packet_bytes s1 p = ub @ bs" "same_rest s s1" "pkt_becomes s p s1 (ub @ bs)" "length ub = 8"
    using 1(3) frame_rest unfolding ub_def by (auto simp: pkt_becomes_def)
  note k1 = same_rest_lower [OF b1(3)] same_rest_udp [OF b1(3)]
  have sum: "udp_sum_ok src dest (ub @ bs)" using assms(7) 1(1) udp_sum_ok_stale [OF refl, of src dest sport dport bs g] by (auto simp: ub_def)
  have room: "hdr_room s1 p 20" using 1(4) assms(5) by (cases "page_pool s1") (simp_all add: hdr_room_def)
  have rt: "rt_find dest s1 = Some e" "re_netif (rt_table s1 e) = n" using assms(8,9) k1 by (simp_all add: rt_find_def)
  let ?h = "out_hdr NET_PROTOCOL_UDP dest (Some src) n (length (ub @ bs)) s1"
  have fit: "ub @ bs \<noteq> []" "ni_mtu (netifs s1 n) = 0" using assms(3,13) k1 by simp_all
  from ipv4_out_ok [OF b1(1,2) fit(1) room rt disjI1 [OF fit(2)], of NET_PROTOCOL_UDP "Some src"] obtain s2 ip where
    2: "ipv4_out NET_PROTOCOL_UDP dest (Some src) p s1 =
        Option.bind (netif_out n ip p s2) (\<lambda>(s, err). Some (s, if net_err_neg err then err else NET_OK))" "ip_packet s2 p ?h (ub @ bs)"
      "pkt_becomes (s1\<lparr>packet_id := packet_id s1 + 1\<rparr>) p s2 (ipv4_hdr_bytes ?h @ ub @ bs)" by blast
  have r2: "same_rest (s1\<lparr>packet_id := packet_id s1 + 1\<rparr>) s2" using 2(3) frame_rest unfolding pkt_becomes_def by blast
  note k2 = same_rest_lower [OF r2] same_rest_udp [OF r2]
  have hf: "ip_protocol ?h = NET_PROTOCOL_UDP" "ipaddr_from_buf (ip_src_ip ?h) = Some src" "ipaddr_from_buf (ip_dest_ip ?h) = Some dest"
    using ipaddr_buf_roundtrip [of _ "[]"] assms(6) by (simp_all add: out_hdr_def out_hdr_fields)
  have hp: "hdr_plain ?h (length (ub @ bs))" by (rule out_hdr_plain) (use assms(4) b1(5) in simp)
  have k: "netifs s2 = netifs s" "msg_mem_pool s2 = m # ms" "msg_queue s2 = msg_queue s" "udp_recv_list s2 = udp_recv_list s"
    "udp_find src sport dest dport s2 = Some u" "reader_ok (Udp_sock u) w s2"
    using k1 k2 assms(16,18,20) by (simp_all add: udp_find_def reader_ok_def)
  have uh: "udp_hdr_of ub = \<lparr>uh_src_port = swap_u16 sport, uh_dest_port = swap_u16 dport, uh_total_len = swap_u16 (of_nat (8 + length bs)),
      uh_checksum = csum_result True (udp_sum src dest sport dport bs + unat g)\<rparr>" unfolding ub_def by (rule udp_hdr_of_ub)
  have lo: "ipaddr_is_match dest (ni_ipaddr (netifs s2 n)) (ni_netmask (netifs s2 n))" "ni_link_layer (netifs s2 n) = None"
    "ni_ops (netifs s2 n) = Loop_driver" "ni_in_q (netifs s2 n) = []" "ni_out_q (netifs s2 n) = []"
    "length (msg_queue s2) < HANDLER_BUFFER_SIZE" "udp_recv_list s2 u = []" using k assms(10-12,14,15,17,19) by simp_all
  from loop_udp [OF 2(2) hp hf lo(1) uh b1(5) sum lo(2-5) k(2) lo(6) k(5) lo(7) k(6), of ip] k
  obtain x y where xy: "netif_out n ip p s2 = Some (x, NET_OK)" "ni_in_q (netifs x n) = [p]" "msg_queue x = msg_queue s @ [m]"
    "msgs x m = EXMSG_NETIF_IN n" "do_netif_in n x = Some (y, NET_OK)" "ni_in_q (netifs y n) = []"
    "udp_recv_list y = (udp_recv_list s)(u := [p])" "queued y p src sport bs" by auto
  moreover obtain z where "udp_recvfrom u len y =
      Some (z, NET_OK, Some \<lparr>sin_family = AF_INET, sin_port = swap_u16 sport, sin_addr = ipaddr_to_buf src\<rparr>,
        take (nat len) bs, Some (min len (int (length bs))))"
    using udp_recvfrom_ok [OF xy(8) _ assms(3,21), of u "[]"] xy(7) by auto
  ultimately show ?thesis using 1(2) 2(1) by auto
qed

text \<open>A datagram of a hundred bytes from port 5000 to port 80, in a packet of one page.\<close>

definition flow_hdr :: ipv4_hdr_t where
  "flow_hdr = with_checksum (iphdr_htons (ipv4_out_hdr NET_PROTOCOL_UDP 0x026EA8C0 (Some 0x036EA8C0) 0 128 0))"

definition flow_sample :: tcp_state where
  "flow_sample = (hdr_sample (ipv4_hdr_bytes flow_hdr @ dgram_ub @ replicate 100 7) zero_tcp)
     \<lparr>page_pool := [], udp_list := [0], udp_recv_list := (\<lambda>_. []),
      packets := \<lambda>_. \<lparr>total_size = 128, page_list = [0], ref = 1, pos = 0, cur_page = None, page_offset = 0\<rparr>\<rparr>"

lemma flow_hdr_plain: "hdr_plain flow_hdr 108"
  using out_hdr_plain [of 108] by (simp add: flow_hdr_def hdr_plain_def out_hdr_fields with_checksum_sum ip_offset_def ip_more_def
      iphdr_ntohs_def unsigned_of_int)

lemma flow_hdr_ok [simp]: "hdr_ok flow_hdr"
  by (simp add: flow_hdr_def)

lemma with_tcp_lower [simp]:
  "netifs (with_tcp cs ts s) = netifs s" "rt_list (with_tcp cs ts s) = rt_list s" "rt_table (with_tcp cs ts s) = rt_table s"
  "msg_mem_pool (with_tcp cs ts s) = msg_mem_pool s" "msg_queue (with_tcp cs ts s) = msg_queue s"
  by (simp_all add: with_tcp_def udp_state.extend_def raw_state.extend_def sock_state.extend_def ipv4_state.extend_def
      sock_state.fields_def raw_state.fields_def udp_state.fields_def tcp_state.fields_def)

lemma flow_simps [simp]:
  "pages flow_sample g = \<lparr>pg_size = 128, pg_data = 0, pg_payload = ipv4_hdr_bytes flow_hdr @ dgram_ub @ replicate 100 7\<rparr>"
  "packets flow_sample p = \<lparr>total_size = 128, page_list = [0], ref = 1, pos = 0, cur_page = None, page_offset = 0\<rparr>"
  "page_pool flow_sample = []" "udp_list flow_sample = [0]" "udp_recv_list flow_sample u = []" "socks flow_sample = sample_sock"
  "waits flow_sample w = \<lparr>w_err = NET_OK, w_waiting = 0, w_sem = Sem 0\<rparr>" "netifs flow_sample n = eth0"
  by (simp_all add: flow_sample_def dgram_ub_def hdr_sample_def del: upt_rec_numeral)

theorem ipv4_udp_delivery_witness:
  "\<exists>s' s2. ipv4_in 0 0 flow_sample = Some (s', NET_OK) \<and>
     udp_recvfrom 0 40 s' = Some (s2, NET_OK, Some \<lparr>sin_family = AF_INET, sin_port = 0x8813, sin_addr = ipaddr_to_buf 0x036EA8C0\<rparr>,
       replicate 40 7, Some 40)"
proof -
  have b: "packet_bytes flow_sample 0 = ipv4_hdr_bytes flow_hdr @ (dgram_ub @ replicate 100 7) @ []"
    by (simp add: packet_bytes_def page_bytes_def dgram_ub_def)
  have ok: "packet_ok flow_sample 0" using b by (simp add: packet_ok_def page_ok_def dgram_ub_def)
  have n: "length (dgram_ub @ replicate 100 (7 :: u8)) = 108" "length dgram_ub = 8" by (simp_all add: dgram_ub_def)
  have h: "hdr_plain flow_hdr (length (dgram_ub @ replicate 100 (7 :: u8)))" using flow_hdr_plain n by simp
  have hf: "ip_protocol flow_hdr = NET_PROTOCOL_UDP" "ipaddr_from_buf (ip_src_ip flow_hdr) = Some 0x036EA8C0"
    "ipaddr_from_buf (ip_dest_ip flow_hdr) = Some 0x026EA8C0"
    using ipaddr_buf_roundtrip [of _ "[]"] by (simp_all add: flow_hdr_def out_hdr_fields ipaddr_is_any_def)
  have m: "ipaddr_is_match 0x026EA8C0 (ni_ipaddr (netifs flow_sample 0)) (ni_netmask (netifs flow_sample 0))"
    by (simp add: ipaddr_is_match_def eth0_def ipaddr_is_equal_def Let_def)
  have f: "udp_find 0x036EA8C0 5000 0x026EA8C0 80 flow_sample = Some 0"
    by (simp add: udp_find_def udp_match_def sample_sock_def ipaddr_is_any_def ipaddr_is_equal_def)
  have "udp_sum_ok 0x036EA8C0 0x026EA8C0 (dgram_ub @ replicate 100 7)" using dgram_hdr by (simp add: udp_sum_ok_def dgram_ub_def)
  moreover have "reader_ok (Udp_sock 0) (Udp_sock 0, Rcv_wait) flow_sample" by (simp add: reader_ok_def sample_sock_def)
  ultimately show ?thesis
    using ipv4_udp_delivery [OF ok b h hf(1) n(2) _ hf(2,3) m, where u = 0 and w = "(Udp_sock 0, Rcv_wait)" and len = 40] f dgram_hdr n by auto
qed

text \<open>Two bytes sent to the own address through a loop interface.\<close>

definition lo0 :: netif_t where
  "lo0 = eth0\<lparr>ni_mtu := 0, ni_ops := Loop_driver, ni_link_layer := None\<rparr>"

definition loop_sample :: tcp_state where
  "loop_sample = stale_sample\<lparr>page_pool := [1..<20], netifs := \<lambda>_. lo0, msg_mem_pool := [0], msg_queue := [], udp_list := [0],
     udp_recv_list := (\<lambda>_. []), pages := (\<lambda>_. \<lparr>pg_size = 2, pg_data = 100, pg_payload = replicate 128 0\<rparr>)\<rparr>"

lemma loop_simps [simp]:
  "pages loop_sample g = \<lparr>pg_size = 2, pg_data = 100, pg_payload = replicate 128 0\<rparr>"
  "packets loop_sample p = \<lparr>total_size = 2, page_list = [0], ref = 1, pos = 0, cur_page = None, page_offset = 0\<rparr>"
  "page_pool loop_sample = [1..<20]" "netifs loop_sample n = lo0" "msg_mem_pool loop_sample = [0]" "msg_queue loop_sample = []"
  "udp_list loop_sample = [0]" "udp_recv_list loop_sample u = []" "socks loop_sample = sample_sock"
  "waits loop_sample w = \<lparr>w_err = NET_OK, w_waiting = 0, w_sem = Sem 0\<rparr>"
  "rt_list loop_sample = rt_list (with_arp (with_netifs zero_buffer))" "rt_table loop_sample = rt_table (with_arp (with_netifs zero_buffer))"
  by (simp_all add: loop_sample_def stale_sample_def hdr_sample_def del: upt_rec_numeral)

theorem udp_loopback_witness:
  "\<exists>(s1 :: tcp_state) s2 s3. udp_out 0x026EA8C0 80 (Some 0x036EA8C0) 5000 0 loop_sample = Some (s1, NET_OK) \<and>
     do_netif_in 0 s1 = Some (s2, NET_OK) \<and> udp_recv_list s2 0 = [0] \<and>
     udp_recvfrom 0 2 s2 = Some (s3, NET_OK, Some \<lparr>sin_family = AF_INET, sin_port = swap_u16 5000, sin_addr = ipaddr_to_buf 0x036EA8C0\<rparr>,
       [0, 0], Some 2)"
proof -
  have b: "packet_bytes loop_sample 0 = [0, 0]" by (simp add: packet_bytes_def page_bytes_def eval_nat_numeral)
  have ok: "packet_ok loop_sample 0" using b by (simp add: packet_ok_def page_ok_def)
  have st: "stale 0 loop_sample \<in> {Some 0, Some 0xFFFF}"
    by (simp add: stale_def packet_add_header_def packet_first_page_def packet_bytes_def page_bytes_def upd_page_def upd_packet_def
        assert_live_def le16_def nth_append Let_def del: upt_rec_numeral)
  have sz: "[0, 0 :: u8] \<noteq> []" "28 + length [0, 0 :: u8] \<le> 65535" "2 \<le> length (page_pool loop_sample)" by simp_all
  have any: "\<not> ipaddr_is_any 0x036EA8C0" by (simp add: ipaddr_is_any_def)
  have rt: "rt_find 0x026EA8C0 loop_sample = Some 0" "re_netif (rt_table loop_sample 0) = 0"
    by (simp_all add: rt_find_def ipaddr_get_net_def ipaddr_is_equal_def)
  have m: "ipaddr_is_match 0x026EA8C0 (ni_ipaddr (netifs loop_sample 0)) (ni_netmask (netifs loop_sample 0))"
    by (simp add: ipaddr_is_match_def lo0_def eth0_def ipaddr_is_equal_def)
  have f: "udp_find 0x036EA8C0 5000 0x026EA8C0 80 loop_sample = Some 0"
    by (simp add: udp_find_def udp_match_def sample_sock_def ipaddr_is_any_def ipaddr_is_equal_def)
  have r: "reader_ok (Udp_sock 0) (Udp_sock 0, Rcv_wait) loop_sample" by (simp add: reader_ok_def sample_sock_def)
  have l: "ni_link_layer (netifs loop_sample 0) = None" "ni_ops (netifs loop_sample 0) = Loop_driver" "ni_mtu (netifs loop_sample 0) = 0"
    "ni_in_q (netifs loop_sample 0) = []" "ni_out_q (netifs loop_sample 0) = []" "msg_mem_pool loop_sample = 0 # []"
    "length (msg_queue loop_sample) < HANDLER_BUFFER_SIZE" "udp_recv_list loop_sample 0 = []" "0 < (2 :: int)"
    by (simp_all add: lo0_def eth0_def)
  from udp_loopback [OF ok b sz any st rt m l(1-7) f l(8) r l(9)] show ?thesis by auto
qed

end
