(* ===== verification/Net_Icmp_Flow.thy ===== *)
theory Net_Icmp_Flow
  imports Net_In_Flow
begin

text \<open>
  An echo request through the stack: \<^verbatim>\<open>ipv4_in\<close> hands it to \<^verbatim>\<open>icmpv4_in\<close>, which turns it into the
  reply in place, with a new checksum, and sends it back.
\<close>

section \<open>Back to the start of a packet\<close>

lemma seek_zero:
  assumes ok: "packet_ok s p" and ne: "packet_bytes s p \<noteq> []" and pos: "0 < pos (packets s p)"
  shows "packet_seek p 0 s = Some (packet_reset_pos (Some p) s, NET_OK)"
proof -
  obtain pg chain where l: "page_list (packets s p) = pg # chain"
    using ne by (cases "page_list (packets s p)") (auto simp: packet_bytes_def)
  have "0 < total_size (packets s p)" using packet_ok_total [OF ok] ne by simp
  then show ?thesis
    using l pos by (cases "packets s p")
      (simp add: packet_seek_def packet_ok_live [OF ok] packet_reset_pos_def packet_first_page_def upd_packet_def Let_def seek_loop.simps)
qed

lemma remove_header_pos:
  assumes "packet_remove_header p n s = Some (s', e)" "page_list (packets s p) = pg # chain" "0 < n" "n < pg_size (pages s pg)"
  shows "pos (packets s' p) = pos (packets s p)"
  using assms by (auto simp: packet_remove_header_def bind_eq_Some_conv)

lemma hdr_room_cong:
  assumes "page_pool s' = page_pool s" "page_list (packets s' p) = page_list (packets s p)" "\<forall>g. pg_data (pages s' g) = pg_data (pages s g)"
  shows "hdr_room s' p n = hdr_room s p n"
  using assms by (simp add: hdr_room_def)

section \<open>The reply\<close>

definition echo_reply :: "u8 \<Rightarrow> u8 list \<Rightarrow> u8 list" where
  "echo_reply code rest = [ICMPv4_ECHO_REPLY, code] @ le16_bytes (csum_result True (bsum False ([ICMPv4_ECHO_REPLY, code, 0, 0] @ rest))) @ rest"

lemma echo_reply_sum: "csum_result True (bsum False (echo_reply code rest)) = 0"
proof -
  let ?n = "bsum False ([ICMPv4_ECHO_REPLY, code, 0, 0] @ rest)"
  have "bsum False ([ICMPv4_ECHO_REPLY, code] @ le16_bytes c @ rest) = ?n + unat c" for c
    by (simp add: bsum_append le16_bytes_sum)
  then show ?thesis unfolding echo_reply_def by (simp only: csum_result_verify)
qed

lemma length_echo_reply [simp]: "length (echo_reply code rest) = 4 + length rest"
  by (simp add: echo_reply_def)

lemma echo_reply_ok:
  fixes s :: "'a ipv4_state_scheme"
  assumes ok: "packet_ok s p" and b: "packet_bytes s p = ty # code # c0 # c1 # rest" "length rest \<le> 65000"
    and f: "hdr_fits s p 4" and r: "hdr_room s p 20" and pos: "0 < pos (packets s p)"
  shows "\<exists>s1. icmpv4_echo_reply dest src p s = ipv4_out NET_PROTOCOL_ICMPv4 dest (Some src) p s1 \<and>
    pkt_becomes s p s1 (echo_reply code rest) \<and> hdr_room s1 p 20"
proof -
  obtain d where d: "packet_ptr p s = Some d" using hdr_fits_ptr [OF f] by blast
  from mem_write_hdr [OF ok d, of 0 "[0]"] hdr_fits_mono [OF f, of 1] b obtain s1 where
    1: "mem_write d 0 [0] s = Some s1" "pkt_becomes s p s1 (0 # code # c0 # c1 # rest)" "packets s1 = packets s" "packet_ptr p s1 = Some d"
      "\<forall>n. hdr_fits s1 p n = hdr_fits s p n" "page_pool s1 = page_pool s" by (auto simp: patch_def)
  have ok1: "packet_ok s1 p" "packet_bytes s1 p = 0 # code # c0 # c1 # rest" using 1(2) by (simp_all add: pkt_becomes_def)
  from mem_write_hdr [OF ok1(1) 1(4), of 2 "[0, 0]"] f 1(5) ok1(2) obtain s2 where
    2: "mem_write d 2 [0, 0] s1 = Some s2" "pkt_becomes s1 p s2 ([0, code, 0, 0] @ rest)" "packets s2 = packets s1" "packet_ptr p s2 = Some d"
      "\<forall>n. hdr_fits s2 p n = hdr_fits s1 p n" "page_pool s2 = page_pool s1" by (auto simp: patch_def eval_nat_numeral)
  have ok2: "packet_ok s2 p" "packet_bytes s2 p = [0, code, 0, 0] @ rest" using 2(2) by (simp_all add: pkt_becomes_def)
  let ?r = "packet_reset_pos (Some p) s2"
  have sk: "packet_seek p 0 s2 = Some (?r, NET_OK)" by (rule seek_zero [OF ok2(1)]) (use ok2(2) 1(3) 2(3) pos in simp_all)
  note rp = packet_reset_pos_becomes [OF ok2(1)] and mv = moved_same [OF moved_reset [of s2 p]]
  have cur: "cursor_ok ?r p" using cursor_at_start [OF _ rp(2)] rp(1) by (simp add: pkt_becomes_def)
  have z: "pos (packets ?r p) = 0" "total_size (packets ?r p) = int (4 + length rest)"
    using rp(2) packet_ok_total [OF ok2(1)] ok2(2) mv(5) by (simp_all add: at_start_def)
  from packet_checksum16_ok [OF cur, of "total_size (packets ?r p)" 0 True] z mv(9) ok2(2) b(2) obtain s3 where
    3: "packet_checksum16 p (total_size (packets ?r p)) 0 True ?r = Some (s3, csum_result True (bsum False ([0, code, 0, 0] @ rest)))"
      "moved ?r p s3" by auto
  have m: "moved s2 p s3" by (rule moved_trans [OF moved_reset 3(2)])
  have k3: "packet_ok s3 p" "packet_ptr p s3 = Some d" "hdr_fits s3 p 4" "packet_bytes s3 p = [0, code, 0, 0] @ rest"
    using moved_packet_ok [OF m ok2(1)] moved_facts [OF m] 2(4,5) 1(5) f moved_same(9) [OF m] ok2(2) by simp_all
  let ?c = "csum_result True (bsum False ([0, code, 0, 0] @ rest))"
  have pc: "patch 2 (le16_bytes ?c) ([0, code, 0, 0] @ rest) = echo_reply code rest"
    by (simp add: patch_def echo_reply_def eval_nat_numeral)
  from mem_write_hdr [OF k3(1,2), of 2 "le16_bytes ?c"] k3(3,4) pc obtain s4 where
    4: "mem_write d 2 (le16_bytes ?c) s3 = Some s4" "pkt_becomes s3 p s4 (echo_reply code rest)" "packets s4 = packets s3"
      "page_pool s4 = page_pool s3" by auto
  have "pkt_becomes s p s4 (echo_reply code rest)"
    using 1(2) 2(2) moved_becomes [OF m ok2(1)] 4(2) pkt_frame_trans by (simp add: pkt_becomes_def) blast
  moreover have "hdr_room s4 p 20 = hdr_room s p 20"
    using 1(3,6) 2(3,6) 4(3,4) moved_same(1,2,4) [OF m] mem_write_shape [OF 1(1)] mem_write_shape [OF 2(1)] mem_write_shape [OF 4(1)]
    by (intro hdr_room_cong) simp_all
  moreover have "icmpv4_echo_reply dest src p s = ipv4_out NET_PROTOCOL_ICMPv4 dest (Some src) p s4"
    using d 1(1) 2(1,4) sk 3(1) 4(1) by (simp add: icmpv4_echo_reply_def icmpv4_out_def)
  ultimately show ?thesis using r by blast
qed

section \<open>The request\<close>

lemma icmpv4_in_echo:
  fixes s :: "'a raw_state_scheme"
  assumes ok: "packet_ok s p" and b: "packet_bytes s p = ih @ icmp" "icmp = ICMPv4_ECHO_REQUEST # code # c0 # c1 # rest"
    and len: "length ih = 20" "rest \<noteq> []" "length rest \<le> 65000" and h: "packet_ipv4_hdr p s = Some h" "ipv4_hdr_size h = 20"
    and sum: "csum_result True (bsum False icmp) = 0"
  shows "\<exists>s1. icmpv4_in src nip p s = ipv4_out NET_PROTOCOL_ICMPv4 src (Some nip) p s1 \<and>
    pkt_becomes s p s1 (echo_reply code rest) \<and> hdr_room s1 p 20"
proof -
  from set_cont_fits [OF ok, of 24] b len obtain s1 where
    1: "packet_set_cont p 24 s = Some (s1, NET_OK)" "pkt_becomes s p s1 (packet_bytes s p)" "hdr_fits s1 p 24" by auto
  have ok1: "packet_ok s1 p" "packet_bytes s1 p = ih @ icmp" using 1(2) b by (simp_all add: pkt_becomes_def)
  let ?r = "packet_reset_pos (Some p) s1"
  note rp = packet_reset_pos_becomes [OF ok1(1)] and mv = moved_same [OF moved_reset [of s1 p]]
  have cur: "cursor_ok ?r p" using cursor_at_start [OF _ rp(2)] rp(1) by (simp add: pkt_becomes_def)
  have t: "total_size (packets ?r p) = int (24 + length rest)" using packet_ok_total [OF ok1(1)] ok1(2) mv(5) b(2) len(1) by simp
  from packet_seek_ok [OF cur, of 20] t obtain s2 where
    2: "packet_seek p 20 ?r = Some (s2, NET_OK)" "moved ?r p s2" "cursor_ok s2 p" "pos (packets s2 p) = 20" by auto
  have m2: "moved s1 p s2" by (rule moved_trans [OF moved_reset 2(2)])
  note k2 = moved_same [OF m2]
  have t2: "total_size (packets s2 p) = int (24 + length rest)" using t moved_same(5) [OF 2(2)] by simp
  from packet_checksum16_ok [OF 2(3), of "4 + int (length rest)" 0 True] 2(4) t2 k2(9) ok1(2) b(2) len sum obtain s3 where
    3: "packet_checksum16 p (4 + int (length rest)) 0 True s2 = Some (s3, 0)" "moved s2 p s3" "pos (packets s3 p) = 24 + int (length rest)" by auto
  have m: "moved s1 p s3" by (rule moved_trans [OF m2 3(2)])
  have k3: "packet_ok s3 p" "hdr_fits s3 p 24" "packet_bytes s3 p = ih @ icmp"
    using moved_packet_ok [OF m ok1(1)] moved_facts [OF m] 1(3) moved_same(9) [OF m] ok1(2) by simp_all
  obtain d where d: "packet_ptr p s3 = Some d" using hdr_fits_ptr [OF k3(2)] by blast
  then have d2: "packet_ptr p s2 = Some d" using moved_facts [OF 3(2)] by simp
  have ty: "mem_read d 20 1 s3 = Some [8]"
    using mem_read_hdr [OF k3(1) d, of 20 1] hdr_fits_mono [OF k3(2), of 21] k3(3) b(2) len(1) by simp
  obtain pg chain where l: "page_list (packets s3 p) = pg # chain" "24 \<le> pg_size (pages s3 pg)" using k3(2) by (auto simp: hdr_fits_def)
  from remove_header_first [OF k3(1) l(1), of 20] l(2) k3(3) len(1) obtain s4 where
    4: "packet_remove_header p 20 s3 = Some (s4, NET_OK)" "pkt_becomes s3 p s4 icmp" "page_list (packets s4 p) = pg # chain"
      "pg_data (pages s4 pg) = pg_data (pages s3 pg) + 20" "pg_size (pages s4 pg) = pg_size (pages s3 pg) - 20" by auto
  have k4: "packet_ok s4 p" "packet_bytes s4 p = 8 # code # c0 # c1 # rest" "hdr_fits s4 p 4" "hdr_room s4 p 20" "0 < pos (packets s4 p)"
    using 4 l packet_ok_Cons(1) [OF k3(1) l(1)] b(2) remove_header_pos [OF 4(1) l(1)] 3(3)
    by (auto simp: pkt_becomes_def hdr_fits_def hdr_room_def page_ok_def)
  from echo_reply_ok [OF k4(1,2) len(3) k4(3-5), of src nip] obtain s5 where
    5: "icmpv4_echo_reply src nip p s4 = ipv4_out NET_PROTOCOL_ICMPv4 src (Some nip) p s5" "pkt_becomes s4 p s5 (echo_reply code rest)"
      "hdr_room s5 p 20" by blast
  have "pkt_becomes s p s5 (echo_reply code rest)"
    using 1(2) moved_becomes [OF m ok1(1)] 4(2) 5(2) pkt_frame_trans by (simp add: pkt_becomes_def) blast
  moreover have "icmpv4_in src nip p s = ipv4_out NET_PROTOCOL_ICMPv4 src (Some nip) p s5"
    using h 1(1) 2(1) d2 t2 3(1) ty 4(1) 5(1) len(2) by (simp add: icmpv4_in_def validate_icmp_def)
  ultimately show ?thesis using 5(3) by blast
qed

section \<open>From the request to the reply\<close>

lemma ipv4_in_echo:
  fixes s :: "'a tcp_state_scheme"
  assumes ok: "packet_ok s p" and b: "packet_bytes s p = ipv4_hdr_bytes h @ icmp @ pad" "icmp = ICMPv4_ECHO_REQUEST # code # c0 # c1 # rest"
    and h: "hdr_plain h (length icmp)" "ip_protocol h = NET_PROTOCOL_ICMPv4" and len: "rest \<noteq> []" "length rest \<le> 65000"
    and ip: "ipaddr_from_buf (ip_src_ip h) = Some src" "ipaddr_from_buf (ip_dest_ip h) = Some dest"
    and m: "ipaddr_is_match dest (ni_ipaddr (netifs s n)) (ni_netmask (netifs s n))" and sum: "csum_result True (bsum False icmp) = 0"
  shows "\<exists>s1. ipv4_in n p s = Option.bind (ipv4_out NET_PROTOCOL_ICMPv4 src (Some (ni_ipaddr (netifs s n))) p s1)
      (\<lambda>(s, err). Some (s, if net_err_neg err then err else NET_OK)) \<and>
    pkt_becomes s p s1 (echo_reply code rest) \<and> hdr_room s1 p 20"
proof -
  from ipv4_in_normal [OF ok b(1) h(1) ip m] obtain s1 where 1: "ipv4_in n p s = ip_normal_in n p src dest s1"
      "ip_packet s1 p (iphdr_htons h) icmp" "same_rest s s1" "pkt_becomes s p s1 (ipv4_hdr_bytes (iphdr_htons h) @ icmp)" by blast
  have hh: "hdr_ok (iphdr_htons h)" "ipv4_hdr_size (iphdr_htons h) = 20" using hdr_plain_htons [OF h(1)] by simp_all
  have ok1: "packet_ok s1 p" "hdr_fits s1 p 20" "packet_bytes s1 p = ipv4_hdr_bytes (iphdr_htons h) @ icmp"
    using 1(2) by (simp_all add: ip_packet_def)
  obtain d where d: "packet_ptr p s1 = Some d" using hdr_fits_ptr [OF ok1(2)] by blast
  have r: "read_ipv4_hdr d s1 = Some (iphdr_htons h)"
    using mem_read_hdr [OF ok1(1) d, of 0 20] ok1 hh(1) ipv4_hdr_roundtrip [OF hh(1), of "[]"] by (simp add: read_ipv4_hdr_def)
  have p1: "packet_ipv4_hdr p s1 = Some (iphdr_htons h)" using d r by (simp add: packet_ipv4_hdr_def)
  from icmpv4_in_echo [OF ok1(1,3) b(2) length_ipv4_hdr_bytes [OF hh(1)] len p1 hh(2) sum, of src "ni_ipaddr (netifs s1 n)"] obtain s2 where
    2: "icmpv4_in src (ni_ipaddr (netifs s1 n)) p s1 = ipv4_out NET_PROTOCOL_ICMPv4 src (Some (ni_ipaddr (netifs s1 n))) p s2"
      "pkt_becomes s1 p s2 (echo_reply code rest)" "hdr_room s2 p 20" by blast
  have "ipv4_in n p s = Option.bind (ipv4_out NET_PROTOCOL_ICMPv4 src (Some (ni_ipaddr (netifs s n))) p s2)
      (\<lambda>(s, err). Some (s, if net_err_neg err then err else NET_OK))"
    using 1(1) d r h(2) 2(1) same_rest_udp(5) [OF 1(3)] by (simp add: ip_normal_in_def)
  moreover have "pkt_becomes s p s2 (echo_reply code rest)" using 1(4) 2(2) pkt_frame_trans by (simp add: pkt_becomes_def) blast
  ultimately show ?thesis using 2(3) by blast
qed

lemma bind_err_idem:
  "Option.bind (Option.bind r (\<lambda>(s, err). Some (s, if net_err_neg err then err else NET_OK))) (\<lambda>(s, err). Some (s, if net_err_neg err then err else NET_OK)) =
   Option.bind r (\<lambda>(s, err). Some (s, if net_err_neg err then err else NET_OK))"
  by (cases r) auto

text \<open>C14. The stack answers a ping: an echo request with a correct checksum that arrives for one of its addresses leaves, without
  any new memory, as an echo reply to the sender, from the address of the interface, with the identifier, the sequence number
  and the data unchanged, in a packet whose IP header the validation accepts and whose ICMP checksum is correct; the packet
  goes to the interface of the route back to the sender.\<close>

theorem icmp_echo_answered:
  fixes s :: "'a tcp_state_scheme"
  assumes "packet_ok s p" "packet_bytes s p = ipv4_hdr_bytes h @ (ICMPv4_ECHO_REQUEST # code # c0 # c1 # rest) @ pad"
    and "hdr_plain h (length (ICMPv4_ECHO_REQUEST # code # c0 # c1 # rest))" "ip_protocol h = NET_PROTOCOL_ICMPv4"
    and "rest \<noteq> []" "length rest \<le> 65000"
    and "ipaddr_from_buf (ip_src_ip h) = Some src" "ipaddr_from_buf (ip_dest_ip h) = Some dest"
    and "ipaddr_is_match dest (ni_ipaddr (netifs s n)) (ni_netmask (netifs s n))" "\<not> ipaddr_is_any (ni_ipaddr (netifs s n))"
    and "csum_result True (bsum False (ICMPv4_ECHO_REQUEST # code # c0 # c1 # rest)) = 0"
    and "rt_find src s = Some e" "ni_mtu (netifs s (re_netif (rt_table s e))) = 0 \<or>
       int (length rest) + 24 \<le> ni_mtu (netifs s (re_netif (rt_table s e)))"
  shows "\<exists>s1 d h' c. ipv4_in n p s =
      Option.bind (netif_out (re_netif (rt_table s e)) (if ipaddr_is_any (re_next_hop (rt_table s e)) then src else re_next_hop (rt_table s e)) p s1)
        (\<lambda>(s, err). Some (s, if net_err_neg err then err else NET_OK)) \<and>
    packet_ptr p s1 = Some d \<and> validate_ipv4_pkt d (total_size (packets s1 p)) s1 = Some NET_OK \<and> read_ipv4_hdr d s1 = Some h' \<and>
    drop 20 (packet_bytes s1 p) = [ICMPv4_ECHO_REPLY, code] @ le16_bytes c @ rest \<and>
    csum_result True (bsum False ([ICMPv4_ECHO_REPLY, code] @ le16_bytes c @ rest)) = 0 \<and> ip_protocol h' = NET_PROTOCOL_ICMPv4 \<and>
    ipaddr_from_buf (ip_src_ip h') = Some (ni_ipaddr (netifs s n)) \<and> ipaddr_from_buf (ip_dest_ip h') = Some src"
proof -
  from ipv4_in_echo [OF assms(1,2) refl assms(3-9,11)] obtain s1 where
    1: "ipv4_in n p s = Option.bind (ipv4_out NET_PROTOCOL_ICMPv4 src (Some (ni_ipaddr (netifs s n))) p s1)
        (\<lambda>(s, err). Some (s, if net_err_neg err then err else NET_OK))" "pkt_becomes s p s1 (echo_reply code rest)" "hdr_room s1 p 20" by blast
  have b: "packet_ok s1 p" "packet_bytes s1 p = echo_reply code rest" "same_rest s s1"
    using 1(2) frame_rest by (auto simp: pkt_becomes_def)
  note k = same_rest_lower [OF b(3)]
  have rt: "rt_find src s1 = Some e" using assms(12) k by (simp add: rt_find_def)
  have sz: "echo_reply code rest \<noteq> []" "length (echo_reply code rest) + 20 \<le> 65535"
    "ni_mtu (netifs s1 (re_netif (rt_table s1 e))) = 0 \<or> int (length (echo_reply code rest)) + 20 \<le> ni_mtu (netifs s1 (re_netif (rt_table s1 e)))"
    using assms(6,13) k by (auto simp: echo_reply_def)
  from ipv4_out_accepted [OF b(1,2) sz(1,2) 1(3) rt sz(3) assms(10), of NET_PROTOCOL_ICMPv4] obtain s2 d h' where
    2: "ipv4_out NET_PROTOCOL_ICMPv4 src (Some (ni_ipaddr (netifs s n))) p s1 =
        Option.bind (netif_out (re_netif (rt_table s1 e)) (if ipaddr_is_any (re_next_hop (rt_table s1 e)) then src else re_next_hop (rt_table s1 e)) p s2)
          (\<lambda>(s, err). Some (s, if net_err_neg err then err else NET_OK))"
      "packet_ptr p s2 = Some d" "validate_ipv4_pkt d (total_size (packets s2 p)) s2 = Some NET_OK" "read_ipv4_hdr d s2 = Some h'"
      "drop 20 (packet_bytes s2 p) = echo_reply code rest" "ip_protocol h' = NET_PROTOCOL_ICMPv4"
      "ipaddr_from_buf (ip_src_ip h') = Some (ni_ipaddr (netifs s n))" "ipaddr_from_buf (ip_dest_ip h') = Some src" by blast
  have "ipv4_in n p s = Option.bind (netif_out (re_netif (rt_table s e)) (if ipaddr_is_any (re_next_hop (rt_table s e)) then src else re_next_hop (rt_table s e)) p s2)
          (\<lambda>(s, err). Some (s, if net_err_neg err then err else NET_OK))"
    unfolding 1(1) 2(1) bind_err_idem k ..
  with 2(2-8) echo_reply_sum [of code rest] show ?thesis unfolding echo_reply_def by blast
qed

text \<open>A ping with sequence number one and data \<open>[0xF7, 0xFC]\<close>.\<close>

definition ping_hdr :: ipv4_hdr_t where
  "ping_hdr = with_checksum (iphdr_htons (ipv4_out_hdr NET_PROTOCOL_ICMPv4 0x026EA8C0 (Some 0x036EA8C0) 0 30 0))"

definition ping_sample :: tcp_state where
  "ping_sample = (hdr_sample (ipv4_hdr_bytes ping_hdr @ [8, 0, 0, 0, 2, 0, 0, 1, 0xF5, 0xFE] @ replicate 98 0) zero_tcp)
     \<lparr>page_pool := [], packets := \<lambda>_. \<lparr>total_size = 128, page_list = [0], ref = 1, pos = 0, cur_page = None, page_offset = 0\<rparr>\<rparr>"

lemma ping_hdr_ok [simp]: "hdr_ok ping_hdr"
  by (simp add: ping_hdr_def)

lemma ping_simps [simp]:
  "pages ping_sample g = \<lparr>pg_size = 128, pg_data = 0, pg_payload = ipv4_hdr_bytes ping_hdr @ [8, 0, 0, 0, 2, 0, 0, 1, 0xF5, 0xFE] @ replicate 98 0\<rparr>"
  "packets ping_sample p = \<lparr>total_size = 128, page_list = [0], ref = 1, pos = 0, cur_page = None, page_offset = 0\<rparr>"
  "page_pool ping_sample = []" "netifs ping_sample n = eth0"
  "rt_list ping_sample = rt_list (with_arp (with_netifs zero_buffer))" "rt_table ping_sample = rt_table (with_arp (with_netifs zero_buffer))"
  by (simp_all add: ping_sample_def hdr_sample_def del: upt_rec_numeral)

theorem icmp_echo_answered_witness:
  "\<exists>(s1 :: tcp_state) d h' c. packet_ptr 0 s1 = Some d \<and> read_ipv4_hdr d s1 = Some h' \<and> ipaddr_from_buf (ip_dest_ip h') = Some 0x036EA8C0 \<and>
     drop 20 (packet_bytes s1 0) = [0, 0] @ le16_bytes c @ [2, 0, 0, 1, 0xF5, 0xFE] \<and>
     csum_result True (bsum False ([0, 0] @ le16_bytes c @ [2, 0, 0, 1, 0xF5, 0xFE])) = 0"
proof -
  let ?rest = "[2, 0, 0, 1, 0xF5, 0xFE] :: u8 list"
  have b: "packet_bytes ping_sample 0 = ipv4_hdr_bytes ping_hdr @ (ICMPv4_ECHO_REQUEST # 0 # 0 # 0 # ?rest) @ replicate 98 0"
    by (simp add: packet_bytes_def page_bytes_def)
  have ok: "packet_ok ping_sample 0" using b by (simp add: packet_ok_def page_ok_def)
  have h: "hdr_plain ping_hdr (length (ICMPv4_ECHO_REQUEST # 0 # 0 # 0 # ?rest))" "ip_protocol ping_hdr = NET_PROTOCOL_ICMPv4"
    by (simp_all add: ping_hdr_def hdr_plain_def out_hdr_fields with_checksum_sum ip_offset_def ip_more_def iphdr_ntohs_def)
  have ip: "ipaddr_from_buf (ip_src_ip ping_hdr) = Some 0x036EA8C0" "ipaddr_from_buf (ip_dest_ip ping_hdr) = Some 0x026EA8C0"
    using ipaddr_buf_roundtrip [of _ "[]"] by (simp_all add: ping_hdr_def out_hdr_fields ipaddr_is_any_def)
  have n: "?rest \<noteq> []" "length ?rest \<le> 65000" by simp_all
  have m: "ipaddr_is_match 0x026EA8C0 (ni_ipaddr (netifs ping_sample 0)) (ni_netmask (netifs ping_sample 0))"
    "\<not> ipaddr_is_any (ni_ipaddr (netifs ping_sample 0))"
    by (simp_all add: ipaddr_is_match_def eth0_def ipaddr_is_equal_def ipaddr_is_any_def)
  have sum: "csum_result True (bsum False (ICMPv4_ECHO_REQUEST # 0 # 0 # 0 # ?rest)) = 0" by (simp add: csum_result_def oc16_def)
  have rt: "rt_find 0x036EA8C0 ping_sample = Some 0" by (simp add: rt_find_def ipaddr_get_net_def ipaddr_is_equal_def)
  have mtu: "ni_mtu (netifs ping_sample (re_netif (rt_table ping_sample 0))) = 0 \<or>
      int (length ?rest) + 24 \<le> ni_mtu (netifs ping_sample (re_netif (rt_table ping_sample 0)))" by (simp add: eth0_def)
  from icmp_echo_answered [OF ok b h n ip m sum rt mtu] show ?thesis by blast
qed

end
