(* ===== verification/Net_Apps.thy ===== *)
theory Net_Apps
  imports Net_Api
begin

text \<open>
  The programs of \<^verbatim>\<open>src/stack/app\<close>: the echo servers and clients.  They call the socket
  functions by the names that \<^verbatim>\<open>net_api.h\<close> maps to \<^verbatim>\<open>x_socket\<close>, \<^verbatim>\<open>x_send\<close> and so on; these
  calls are a record of functions here, given by \<open>stack_calls\<close> for the stack itself.  The
  bytes of an array that is not initialised are a parameter, as are the lines read from the
  terminal.  What is printed is not modelled, except for the clients, which return it.
\<close>

section \<open>The calls\<close>

record 's sock_calls =
  sc_socket :: "int \<Rightarrow> int \<Rightarrow> int \<Rightarrow> 's \<Rightarrow> ('s \<times> int) option"
  sc_bind :: "int \<Rightarrow> x_sockaddr_in \<Rightarrow> 's \<Rightarrow> ('s \<times> int) option"
  sc_listen :: "int \<Rightarrow> int \<Rightarrow> 's \<Rightarrow> ('s \<times> int) option"
  sc_accept :: "int \<Rightarrow> 's \<Rightarrow> ('s \<times> int \<times> x_sockaddr_in option) option"
  sc_connect :: "int \<Rightarrow> x_sockaddr_in \<Rightarrow> 's \<Rightarrow> ('s \<times> int) option"
  sc_setsockopt :: "int \<Rightarrow> int \<Rightarrow> int \<Rightarrow> u8 list \<Rightarrow> 's \<Rightarrow> ('s \<times> int) option"
  sc_send :: "int \<Rightarrow> u8 list \<Rightarrow> 's \<Rightarrow> ('s \<times> int) option"
  sc_sendto :: "int \<Rightarrow> u8 list \<Rightarrow> x_sockaddr_in \<Rightarrow> 's \<Rightarrow> ('s \<times> int) option"
  sc_recv :: "int \<Rightarrow> int \<Rightarrow> 's \<Rightarrow> ('s \<times> int \<times> u8 list) option"
  sc_recvfrom :: "int \<Rightarrow> int \<Rightarrow> 's \<Rightarrow> ('s \<times> int \<times> u8 list \<times> x_sockaddr_in option) option"
  sc_close :: "int \<Rightarrow> 's \<Rightarrow> ('s \<times> int) option"

text \<open>The calls of the stack; the environment may be another one for every call.\<close>

definition on_stack :: "(nat \<Rightarrow> 's api_env) \<Rightarrow> ('s api_env \<Rightarrow> 's \<Rightarrow> ('s \<times> 'r) option) \<Rightarrow> nat \<times> 's \<Rightarrow> ((nat \<times> 's) \<times> 'r) option" where
  "on_stack env f ks = map_option (\<lambda>(s, r). ((fst ks + 1, s), r)) (f (env (fst ks)) (snd ks))"

definition stack_calls :: "(nat \<Rightarrow> 'a tcp_state_scheme api_env) \<Rightarrow> (nat \<times> 'a tcp_state_scheme) sock_calls" where
  "stack_calls env =
     \<lparr>sc_socket = (\<lambda>family ty protocol. on_stack env (\<lambda>e. x_socket e family ty protocol)),
      sc_bind = (\<lambda>fd a. on_stack env (\<lambda>e. x_bind e fd (Some a) SOCKADDR_SIZE)),
      sc_listen = (\<lambda>fd backlog. on_stack env (\<lambda>e. x_listen e fd backlog)),
      sc_accept = (\<lambda>fd. on_stack env (\<lambda>e. x_accept e fd True)),
      sc_connect = (\<lambda>fd a. on_stack env (\<lambda>e. x_connect e fd (Some a) SOCKADDR_SIZE)),
      sc_setsockopt = (\<lambda>fd level name v. on_stack env (\<lambda>e. x_setsockopt e fd level name (Some v) (int (length v)))),
      sc_send = (\<lambda>fd bs. on_stack env (\<lambda>e. x_send e fd bs)),
      sc_sendto = (\<lambda>fd bs a. on_stack env (\<lambda>e. x_sendto e fd bs a SOCKADDR_SIZE)),
      sc_recv = (\<lambda>fd len. on_stack env (\<lambda>e. x_recv e fd len)),
      sc_recvfrom = (\<lambda>fd len. on_stack env (\<lambda>e. x_recvfrom e fd len True)),
      sc_close = (\<lambda>fd. on_stack env (\<lambda>e. x_close e fd))\<rparr>"

text \<open>\<^verbatim>\<open>SOCK_STREAM\<close> and \<^verbatim>\<open>IPPROTO_UDP\<close> are those of the system.\<close>

abbreviation (input) SOCK_STREAM :: int where "SOCK_STREAM \<equiv> 1"
abbreviation (input) SOCK_DGRAM :: int where "SOCK_DGRAM \<equiv> 2"
abbreviation (input) IPPROTO_UDP :: int where "IPPROTO_UDP \<equiv> 17"

definition inet_any :: "int \<Rightarrow> x_sockaddr_in" where
  "inet_any port = \<lparr>sin_family = AF_INET, sin_port = swap_u16 (of_int port), sin_addr = [0, 0, 0, 0]\<rparr>"

definition inet_of :: "ipaddr_t \<Rightarrow> int \<Rightarrow> x_sockaddr_in" where
  "inet_of ip port = \<lparr>sin_family = AF_INET, sin_port = swap_u16 (of_int port), sin_addr = ipaddr_to_buf ip\<rparr>"

section \<open>Echo servers\<close>

text \<open>
  What a server received and sent is collected in a list of pairs.  The loop for one client
  ends when nothing more is received.
\<close>

partial_function (option) tcp_echo_loop ::
  "'s sock_calls \<Rightarrow> int \<Rightarrow> u8 list \<Rightarrow> (u8 list \<times> u8 list) list \<Rightarrow> 's \<Rightarrow> ('s \<times> (u8 list \<times> u8 list) list) option" where
  "tcp_echo_loop c client buf echoed s =
     Option.bind (sc_recv c client 128 s) (\<lambda>(s, n, bs).
       let buf = patch 0 bs buf
       in if n > 0
          then Option.bind (sc_send c client (take (nat n) buf) s) (\<lambda>(s, _).
                 tcp_echo_loop c client buf (echoed @ [(bs, take (nat n) buf)]) s)
          else Some (s, echoed))"

partial_function (option) tcp_accept_loop ::
  "'s sock_calls \<Rightarrow> int \<Rightarrow> u8 list \<Rightarrow> (u8 list \<times> u8 list) list \<Rightarrow> 's \<Rightarrow> ('s \<times> (u8 list \<times> u8 list) list) option" where
  "tcp_accept_loop c fd junk echoed s =
     Option.bind (sc_accept c fd s) (\<lambda>(s, client, _).
       if client < 0 then Some (s, echoed)
       else Option.bind (tcp_echo_loop c client junk echoed s) (\<lambda>(s, echoed).
         Option.bind (sc_close c client s) (\<lambda>(s, _). tcp_accept_loop c fd junk echoed s)))"

definition tcp_echo_server_start :: "'s sock_calls \<Rightarrow> int \<Rightarrow> u8 list \<Rightarrow> 's \<Rightarrow> ('s \<times> (u8 list \<times> u8 list) list) option" where
  "tcp_echo_server_start c port junk s =
     do {
       (s, fd) \<leftarrow> sc_socket c (uint AF_INET) SOCK_STREAM 0 s;
       if fd < 0 then Some (s, [])
       else do {
         (s, r) \<leftarrow> sc_bind c fd (inet_any port) s;
         if r < 0 then do { (s, _) \<leftarrow> sc_close c fd s; Some (s, []) }
         else do {
           (s, _) \<leftarrow> sc_listen c fd 5 s;
           (s, echoed) \<leftarrow> tcp_accept_loop c fd junk [] s;
           (s, _) \<leftarrow> sc_close c fd s;
           Some (s, echoed)
         }
       }
     }"

text \<open>
  The UDP server; \<open>client_addr\<close> keeps its bytes when no address is given back.  At the end it
  calls \<^verbatim>\<open>closesocket\<close>, a function of the operating system that \<^verbatim>\<open>net_api.h\<close> does not map: the
  socket of the stack stays open.
\<close>

partial_function (option) udp_echo_loop ::
  "'s sock_calls \<Rightarrow> int \<Rightarrow> u8 list \<Rightarrow> x_sockaddr_in \<Rightarrow> (u8 list \<times> u8 list) list \<Rightarrow> 's \<Rightarrow> ('s \<times> (u8 list \<times> u8 list) list) option" where
  "udp_echo_loop c fd junk junk_addr echoed s =
     Option.bind (sc_recvfrom c fd 256 s) (\<lambda>(s, n, bs, src).
       if n < 0 then Some (s, echoed)
       else let client_addr = (case src of None \<Rightarrow> junk_addr | Some a \<Rightarrow> a);
                out = take (nat n) (patch 0 bs junk)
            in Option.bind (sc_sendto c fd out client_addr s) (\<lambda>(s, r).
                 if r < 0 then Some (s, echoed) else udp_echo_loop c fd junk junk_addr (echoed @ [(bs, out)]) s))"

definition udp_echo_server ::
  "'s sock_calls \<Rightarrow> u16 \<Rightarrow> u8 list \<Rightarrow> x_sockaddr_in \<Rightarrow> 's \<Rightarrow> ('s \<times> (u8 list \<times> u8 list) list) option" where
  "udp_echo_server c server_port junk junk_addr s =
     do {
       (s, fd) \<leftarrow> sc_socket c (uint AF_INET) SOCK_DGRAM 0 s;
       if fd < 0 then Some (s, [])
       else do {
         (s, r) \<leftarrow> sc_bind c fd \<lparr>sin_family = AF_INET, sin_port = swap_u16 server_port, sin_addr = [0, 0, 0, 0]\<rparr> s;
         if r < 0 then Some (s, []) else udp_echo_loop c fd junk junk_addr [] s
       }
     }"

text \<open>The port and whether the thread of the server could be started.\<close>

definition udp_echo_server_start :: "bool \<Rightarrow> int \<Rightarrow> u16 \<times> net_err_t" where
  "udp_echo_server_start thread_ok port = (of_int port, if thread_ok then NET_OK else NET_ERR_SYS)"

section \<open>Echo clients\<close>

text \<open>
  The UDP client with the lines from the terminal, at most 127 characters each and none of
  them zero; it returns the answers that it prints.  It returns minus one in every case.
\<close>

fun udp_client_loop :: "'s sock_calls \<Rightarrow> int \<Rightarrow> u8 list list \<Rightarrow> u8 list list \<Rightarrow> 's \<Rightarrow> ('s \<times> u8 list list) option" where
  "udp_client_loop c fd [] shown s = Some (s, shown)"
| "udp_client_loop c fd (line # rest) shown s =
     (if take 4 line = map (\<lambda>ch. of_char ch) ''quit'' then Some (s, shown)
      else do {
        (s, n) \<leftarrow> sc_send c fd line s;
        if n < 0 then Some (s, shown)
        else do {
          (s, n, bs) \<leftarrow> sc_recv c fd 128 s;
          if n < 0 then Some (s, shown)
          else let buf = (patch 0 bs (replicate 128 0))[127 := 0]
               in udp_client_loop c fd rest (shown @ [takeWhile (\<lambda>b. b \<noteq> 0) buf]) s
        }
      })"

definition udp_echo_client_start ::
  "'s sock_calls \<Rightarrow> string \<Rightarrow> int \<Rightarrow> u8 list list \<Rightarrow> 's \<Rightarrow> ('s \<times> u8 list list \<times> int) option" where
  "udp_echo_client_start c ip port lines s =
     do {
       (s, fd) \<leftarrow> sc_socket c (uint AF_INET) SOCK_DGRAM IPPROTO_UDP s;
       if fd < 0 then Some (s, [], - 1)
       else do {
         a \<leftarrow> x_inet_addr (Some ip);
         (s, _) \<leftarrow> sc_connect c fd (inet_of a port) s;
         (s, shown) \<leftarrow> udp_client_loop c fd lines [] s;
         (s, _) \<leftarrow> sc_close c fd s;
         Some (s, shown, - 1)
       }
     }"

text \<open>The TCP client sends the buffer ten times, after a line was read into its front.\<close>

fun tcp_client_loop :: "'s sock_calls \<Rightarrow> int \<Rightarrow> nat \<Rightarrow> u8 list \<Rightarrow> 's \<Rightarrow> 's option" where
  "tcp_client_loop c fd 0 sbuf s = Some s"
| "tcp_client_loop c fd (Suc i) sbuf s =
     do { (s, n) \<leftarrow> sc_send c fd sbuf s; if n < 0 then Some s else tcp_client_loop c fd i sbuf s }"

definition sbuf_pattern :: "u8 list" where
  "sbuf_pattern = map (\<lambda>i. of_nat (97 + i mod 26)) [0..<4096]"

definition tcp_echo_client_start :: "'s sock_calls \<Rightarrow> string \<Rightarrow> int \<Rightarrow> u8 list option \<Rightarrow> 's \<Rightarrow> ('s \<times> int) option" where
  "tcp_echo_client_start c ip port line s =
     do {
       (s, fd) \<leftarrow> sc_socket c (uint AF_INET) SOCK_STREAM 0 s;
       if fd < 0 then Some (s, - 1)
       else do {
         a \<leftarrow> x_inet_addr (Some ip);
         (s, r) \<leftarrow> sc_connect c fd (inet_of a port) s;
         if r < 0 then do { (s, _) \<leftarrow> sc_close c fd s; Some (s, - 1) }
         else do {
           s \<leftarrow> tcp_client_loop c fd 10 (case line of None \<Rightarrow> sbuf_pattern | Some l \<Rightarrow> patch 0 (l @ [0]) sbuf_pattern) s;
           (s, _) \<leftarrow> sc_close c fd s;
           Some (s, 0)
         }
       }
     }"

section \<open>What the calls promise\<close>

text \<open>A send is all or nothing, and as many bytes are stored as a receive reports, at most those asked for.\<close>

locale sock_service =
  fixes calls :: "'s sock_calls"
  assumes send_all: "sc_send calls fd out s = Some (s', n) \<Longrightarrow> n = - 1 \<or> n = int (length out)"
    and sendto_all: "sc_sendto calls fd out a s = Some (s', n) \<Longrightarrow> n = - 1 \<or> n = int (length out)"
    and recv_len: "sc_recv calls fd len s = Some (s', n, bs) \<Longrightarrow> 0 < n \<Longrightarrow> int (length bs) = n \<and> n \<le> len"
    and recvfrom_len: "sc_recvfrom calls fd len s = Some (s', n, bs, src) \<Longrightarrow> 0 < n \<Longrightarrow> int (length bs) = n \<and> n \<le> len"
begin

lemma tcp_echo_step:
  assumes "sc_recv calls fd 128 s = Some (s1, n, bs)" "0 < n"
  shows "tcp_echo_loop calls fd buf echoed s =
    Option.bind (sc_send calls fd bs s1) (\<lambda>(s2, _). tcp_echo_loop calls fd (patch 0 bs buf) (echoed @ [(bs, bs)]) s2)"
proof -
  have n: "nat n = length bs" using recv_len [OF assms] by auto
  show ?thesis using assms by (subst tcp_echo_loop.simps) (simp add: n patch_def)
qed

lemma udp_echo_step:
  assumes "sc_recvfrom calls fd 256 s = Some (s1, n, bs, Some a)" "0 < n" "sc_sendto calls fd bs a s1 = Some (s2, r)"
  shows "udp_echo_loop calls fd junk junk_addr echoed s =
    (if r = - 1 then Some (s2, echoed) else udp_echo_loop calls fd junk junk_addr (echoed @ [(bs, bs)]) s2)"
proof -
  have l: "int (length bs) = n" using recvfrom_len [OF assms(1,2)] by simp
  then have "take (nat n) (patch 0 bs junk) = bs" by (simp add: patch_def flip: nat_int)
  with assms l sendto_all [OF assms(3)] show ?thesis by (subst udp_echo_loop.simps) (auto simp: Let_def)
qed

lemma tcp_client_step:
  assumes "sc_send calls fd sbuf s = Some (s1, n)"
  shows "tcp_client_loop calls fd (Suc i) sbuf s = (if n = int (length sbuf) then tcp_client_loop calls fd i sbuf s1 else Some s1)"
  using assms send_all [OF assms] by auto

end

section \<open>The stack keeps these promises\<close>

lemma packet_read_full: "packet_read p True n s = Some (s', err, bs) \<Longrightarrow> \<not> net_err_neg err \<Longrightarrow> 0 < n \<Longrightarrow> int (length bs) = n"
  by (auto simp: packet_read_def bind_eq_Some_conv split: if_splits dest!: read_loop_length)

lemma read_rcv_length: "read_rcv_loop n b = Some (b', bs) \<Longrightarrow> length bs = n"
  by (induction n arbitrary: b b' bs) (auto simp: bind_eq_Some_conv)

lemma tcp_recv_len: "tcp_recv t len s = Some (s', err, bs, Some n) \<Longrightarrow> 0 < n \<Longrightarrow> int (length bs) = n \<and> n \<le> len"
  by (auto simp: tcp_recv_def tcp_buf_read_rcv_def Let_def bind_eq_Some_conv split: if_splits dest!: read_rcv_length)

lemma udp_recvfrom_len: "udp_recvfrom u len s = Some (s', err, src, bs, Some n) \<Longrightarrow> 0 < n \<Longrightarrow> int (length bs) = n \<and> n \<le> len"
  by (auto simp: udp_recvfrom_def Let_def bind_eq_Some_conv split: if_splits list.splits dest: packet_read_full)

lemma raw_recvfrom_len: "raw_recvfrom u len s = Some (s', err, src, bs, Some n) \<Longrightarrow> 0 < n \<Longrightarrow> int (length bs) = n \<and> n \<le> len"
  by (auto simp: raw_recvfrom_def Let_def bind_eq_Some_conv split: if_splits list.splits dest: packet_read_full)

text \<open>The number a request reports, when it reports one.\<close>

abbreviation (input) reported :: "int option \<Rightarrow> int" where
  "reported n \<equiv> (case n of None \<Rightarrow> 0 | Some n \<Rightarrow> n)"

lemma ops_recvfrom_len:
  "ops_recvfrom a = Some f \<Longrightarrow> f len s = Some (s', err, src, bs, n) \<Longrightarrow> 0 < reported n \<Longrightarrow> int (length bs) = reported n \<and> reported n \<le> len"
  by (cases a; cases n) (auto simp: ops_recvfrom_def dest: udp_recvfrom_len raw_recvfrom_len)

lemma ops_recv_len:
  "ops_recv a len s = Some (s', err, bs, n) \<Longrightarrow> 0 < reported n \<Longrightarrow> int (length bs) = reported n \<and> reported n \<le> len"
  by (cases a; cases n) (auto simp: ops_recv_def sock_recv_def ops_recvfrom_def bind_eq_Some_conv split: if_splits dest: tcp_recv_len udp_recvfrom_len)

lemma recv_req_len:
  assumes "exec_func (Sock_recv fd len) s = Some (s', err, r)" "0 < rp_len r"
  shows "int (length (rp_bytes r)) = rp_len r \<and> rp_len r \<le> len"
proof -
  from assms obtain a s1 bs n where "ops_recv a len s = Some (s1, err, bs, n)" "rp_bytes r = bs" "rp_len r = reported n"
    by (cases "sock_of fd s") (auto simp: sock_recv_req_in_def no_reply_def bind_eq_Some_conv Let_def case_prod_unfold)
  with assms(2) ops_recv_len show ?thesis by metis
qed

lemma recvfrom_req_len:
  fixes s :: "'a tcp_state_scheme"
  assumes "exec_func (Sock_recvfrom fd len) s = Some (s', err, r)" "0 < rp_len r"
  shows "int (length (rp_bytes r)) = rp_len r \<and> rp_len r \<le> len"
proof (cases "sock_of fd s")
  case (Inr x)
  with assms obtain a where x: "x = Some a" by (auto simp: sock_recvfrom_req_in_def bind_eq_Some_conv)
  show ?thesis
  proof (cases "ops_recvfrom a :: (int \<Rightarrow> 'a tcp_state_scheme \<Rightarrow> _) option")
    case (Some f)
    with assms Inr x obtain s1 src bs n where "f len s = Some (s1, err, src, bs, n)" "rp_bytes r = bs" "rp_len r = reported n"
      by (auto simp: sock_recvfrom_req_in_def no_reply_def bind_eq_Some_conv Let_def case_prod_unfold)
    with assms(2) ops_recvfrom_len [OF Some] show ?thesis by metis
  qed (use assms Inr x in \<open>auto simp: sock_recvfrom_req_in_def no_reply_def\<close>)
qed (use assms in \<open>auto simp: sock_recvfrom_req_in_def no_reply_def\<close>)

lemma exec_recv_len:
  fixes s :: "'a tcp_state_scheme"
  assumes "exmsg_func_exec env i f s = Some (s', err, r)" "0 < rp_len r"
    and "\<And>(s :: 'a tcp_state_scheme) s' err r. exec_func f s = Some (s', err, r) \<Longrightarrow> 0 < rp_len r \<Longrightarrow> int (length (rp_bytes r)) = rp_len r \<and> rp_len r \<le> len"
  shows "int (length (rp_bytes r)) = rp_len r \<and> rp_len r \<le> len"
proof (cases "net_err_neg (ev_post env i)")
  case False
  with assms(1) obtain s1 where "exec_func f s1 = Some (s', err, r)" by (auto simp: exmsg_func_exec_def bind_eq_Some_conv)
  with assms(2,3) show ?thesis by blast
qed (use assms(1,2) in \<open>auto simp: exmsg_func_exec_def no_reply_def\<close>)

lemma recv_loop_len:
  fixes s :: "'a tcp_state_scheme"
  assumes run: "recv_loop env req stream i s = Some r" and pos: "0 < fst (snd r)"
    and len: "\<And>(s :: 'a tcp_state_scheme) s' err r. exec_func req s = Some (s', err, r) \<Longrightarrow> 0 < rp_len r \<Longrightarrow> int (length (rp_bytes r)) = rp_len r \<and> rp_len r \<le> len"
  shows "int (length (fst (snd (snd r)))) = fst (snd r) \<and> fst (snd r) \<le> len"
  using run
proof (rule recv_loop.raw_induct [of "\<lambda>env' req' stream i s r. req' = req \<longrightarrow> 0 < fst (snd r) \<longrightarrow>
    int (length (fst (snd (snd r)))) = fst (snd r) \<and> fst (snd r) \<le> len", rotated, THEN mp [OF mp [OF _ refl] pos]], goal_cases)
  case (1 loop env req' stream i s r)
  show ?case
  proof (intro impI)
    assume rq: "req' = req" and p: "0 < fst (snd r)"
    from 1(2) obtain s1 err rp where e: "exmsg_func_exec env i req s = Some (s1, err, rp)" by (auto simp: rq bind_eq_Some_conv)
    show "int (length (fst (snd (snd r)))) = fst (snd r) \<and> fst (snd r) \<le> len"
    proof (cases "net_err_neg err \<or> rp_len rp \<noteq> 0")
      case True
      with 1(2) e p have "fst (snd r) = rp_len rp" "fst (snd (snd r)) = rp_bytes rp" by (auto simp: rq split: if_splits)
      with p exec_recv_len [OF e, of len] len show ?thesis by auto
    next
      case False
      with 1(2) e p obtain i' s2 where "loop env req' stream i' s2 = Some r" by (auto simp: rq bind_eq_Some_conv split: if_splits)
      with 1(1) rq p show ?thesis by blast
    qed
  qed
qed

interpretation stk: sock_service "stack_calls env" for env
proof unfold_locales
  fix fd out s s' n
  assume "sc_send (stack_calls env) fd out s = Some (s', n)"
  then show "n = - 1 \<or> n = int (length out)"
    by (auto simp: stack_calls_def on_stack_def x_send_def dest: send_loop_requests)
next
  fix fd out a s s' n
  assume "sc_sendto (stack_calls env) fd out a s = Some (s', n)"
  then show "n = - 1 \<or> n = int (length out)"
    by (auto simp: stack_calls_def on_stack_def x_sendto_def split: if_splits dest: send_loop_requests)
next
  fix fd len s s' n bs
  assume "sc_recv (stack_calls env) fd len s = Some (s', n, bs)" "0 < n"
  then show "int (length bs) = n \<and> n \<le> len"
    by (auto simp: stack_calls_def on_stack_def x_recv_def dest!: recv_loop_len [OF _ _ recv_req_len])
next
  fix fd len s s' n bs src
  assume "sc_recvfrom (stack_calls env) fd len s = Some (s', n, bs, src)" "0 < n"
  then show "int (length bs) = n \<and> n \<le> len"
    by (auto simp: stack_calls_def on_stack_def x_recvfrom_def split: if_splits dest!: recv_loop_len [OF _ _ recvfrom_req_len])
qed

text \<open>C18. The echo servers return what they receive: whenever a call of the stack gives a server a number of bytes, the bytes it hands
  back to the stack, to the same connection or to the address and port of the sender, are exactly these bytes, never more than
  its buffer holds and none of what the buffer held before; a failed answer ends the UDP server and not the TCP server.\<close>

theorem echo_servers_return_input:
  fixes s :: "'a tcp_state_scheme"
  shows "(x_recv (env k) fd 128 s = Some (s1, n, bs) \<and> 0 < n \<longrightarrow> length bs \<le> 128 \<and>
      tcp_echo_loop (stack_calls env) fd buf echoed (k, s) =
        Option.bind (x_send (env (k + 1)) fd bs s1)
          (\<lambda>(s2, _). tcp_echo_loop (stack_calls env) fd (patch 0 bs buf) (echoed @ [(bs, bs)]) (k + 2, s2))) \<and>
    (x_recvfrom (env k) fd 256 True s = Some (s1, n, bs, Some a) \<and> 0 < n \<and> x_sendto (env (k + 1)) fd bs a SOCKADDR_SIZE s1 = Some (s2, r) \<longrightarrow>
      length bs \<le> 256 \<and>
      udp_echo_loop (stack_calls env) fd buf junk_addr echoed (k, s) =
        (if r = - 1 then Some ((k + 2, s2), echoed) else udp_echo_loop (stack_calls env) fd buf junk_addr (echoed @ [(bs, bs)]) (k + 2, s2)))"
proof (intro conjI impI)
  assume "x_recv (env k) fd 128 s = Some (s1, n, bs) \<and> 0 < n"
  then have c: "sc_recv (stack_calls env) fd 128 (k, s) = Some ((k + 1, s1), n, bs)" "0 < n" by (simp_all add: stack_calls_def on_stack_def)
  show "length bs \<le> 128" using stk.recv_len [OF c] by simp
  show "tcp_echo_loop (stack_calls env) fd buf echoed (k, s) =
      Option.bind (x_send (env (k + 1)) fd bs s1)
        (\<lambda>(s2, _). tcp_echo_loop (stack_calls env) fd (patch 0 bs buf) (echoed @ [(bs, bs)]) (k + 2, s2))"
    using stk.tcp_echo_step [OF c, of buf echoed]
    by (cases "x_send (env (Suc k)) fd bs s1") (auto simp: stack_calls_def on_stack_def)
next
  assume u: "x_recvfrom (env k) fd 256 True s = Some (s1, n, bs, Some a) \<and> 0 < n \<and> x_sendto (env (k + 1)) fd bs a SOCKADDR_SIZE s1 = Some (s2, r)"
  then have c: "sc_recvfrom (stack_calls env) fd 256 (k, s) = Some ((k + 1, s1), n, bs, Some a)" "0 < n"
    "sc_sendto (stack_calls env) fd bs a (k + 1, s1) = Some ((k + 2, s2), r)" by (simp_all add: stack_calls_def on_stack_def)
  show "length bs \<le> 256" using stk.recvfrom_len [OF c(1,2)] by simp
  show "udp_echo_loop (stack_calls env) fd buf junk_addr echoed (k, s) =
      (if r = - 1 then Some ((k + 2, s2), echoed) else udp_echo_loop (stack_calls env) fd buf junk_addr (echoed @ [(bs, bs)]) (k + 2, s2))"
    by (rule stk.udp_echo_step [OF c])
qed

definition recv_sample :: tcp_t where
  "recv_sample = zero_tcp\<lparr>t_state := TCP_STATE_ESTABLISHED, t_rcv_buf := \<lparr>tb_count = 2, tb_in = 2, tb_out = 0, tb_size = 4, tb_data = [7, 8, 0, 0]\<rparr>\<rparr>"

theorem echo_servers_return_input_witness:
  "\<exists>s1 :: tcp_state. x_recv idle_env 0 128 (api_sample recv_sample) = Some (s1, 2, [7, 8]) \<and>
     tcp_echo_loop (stack_calls (\<lambda>_. idle_env)) 0 (replicate 128 9) [] (0, api_sample recv_sample) =
       Option.bind (x_send idle_env 0 [7, 8] s1)
         (\<lambda>(s2, _). tcp_echo_loop (stack_calls (\<lambda>_. idle_env)) 0 (patch 0 [7, 8] (replicate 128 9)) [([7, 8], [7, 8])] (2, s2))"
proof -
  have "tcp_recv 0 128 (api_sample recv_sample) = Some (upd_tcp 0 (\<lambda>c. c\<lparr>t_rcv_buf := \<lparr>tb_count = 0, tb_in = 2, tb_out = 2, tb_size = 4, tb_data = [7, 8, 0, 0]\<rparr>\<rparr>)
      (api_sample recv_sample), NET_OK, [7, 8], Some 2)"
    by (simp add: tcp_recv_def recv_sample_def tcp_buf_read_rcv_def tcp_buf_pop_def eval_nat_numeral ring_next_def)
  then obtain s1 where "exec_func (Sock_recv 0 128) (api_sample recv_sample) = Some (s1, NET_OK, no_reply\<lparr>rp_len := 2, rp_bytes := [7, 8]\<rparr>)"
    by (simp add: sock_recv_req_in_def ops_recv_def no_reply_def)
  then have "x_recv idle_env 0 128 (api_sample recv_sample) = Some (s1, 2, [7, 8])"
    unfolding x_recv_def by (subst recv_loop.simps) (simp add: no_reply_def)
  moreover from this have "tcp_echo_loop (stack_calls (\<lambda>_. idle_env)) 0 (replicate 128 9) [] (0, api_sample recv_sample) =
       Option.bind (x_send idle_env 0 [7, 8] s1)
         (\<lambda>(s2, _). tcp_echo_loop (stack_calls (\<lambda>_. idle_env)) 0 (patch 0 [7, 8] (replicate 128 9)) ([] @ [([7, 8], [7, 8])]) (0 + 2, s2))"
    using echo_servers_return_input [of "\<lambda>_. idle_env" 0 0 "api_sample recv_sample" s1 2 "[7, 8]" "replicate 128 9" "[]", THEN conjunct1]
    by simp
  ultimately show ?thesis by (auto simp: numeral_2_eq_2)
qed

end
