(* ===== verification/Net_Ping.thy ===== *)
theory Net_Ping
  imports Net_Apps
begin

text \<open>
  \<^verbatim>\<open>src/stack/app/ping/ping.c\<close>: echo requests over a raw socket.  The size of \<^verbatim>\<open>clock_t\<close> and the
  values of \<^verbatim>\<open>clock()\<close> are parameters.  The bytes of the structures are in the order of their
  packed fields.
\<close>

section \<open>The checksum\<close>

function ping_words :: "u16 \<Rightarrow> u8 list \<Rightarrow> u32 \<Rightarrow> u32 option" where
  "ping_words len buf csum =
     (if len > 1
      then (case buf of a # b # r \<Rightarrow> ping_words (len - 2) r (csum + ucast (le16 a b)) | _ \<Rightarrow> None)
      else if len > 0 then (case buf of a # _ \<Rightarrow> Some (csum + ucast a) | [] \<Rightarrow> None)
      else Some csum)"
  by pat_completeness auto
termination ping_words
  by (relation "measure (\<lambda>(len, buf, csum). length buf)") auto

function ping_fold :: "u32 \<Rightarrow> u32" where
  "ping_fold csum =
     (let high = ucast (drop_bit 16 csum) :: u16
      in if high \<noteq> 0 then ping_fold (ucast high + (csum AND 0xffff)) else csum)"
  by pat_completeness auto

definition ping_checksum :: "u8 list \<Rightarrow> u16 \<Rightarrow> u16 option" where
  "ping_checksum buf len = map_option (\<lambda>csum. ucast (NOT (ping_fold csum))) (ping_words len buf 0)"

section \<open>Requests and replies\<close>

abbreviation (input) PING_BUFFER_SIZE :: nat where "PING_BUFFER_SIZE \<equiv> 4096"
abbreviation (input) PING_DEFAULT_ID :: u16 where "PING_DEFAULT_ID \<equiv> 0x200"
abbreviation (input) PING_HDR_SIZE :: nat where "PING_HDR_SIZE \<equiv> 8"
abbreviation (input) SOCK_RAW :: int where "SOCK_RAW \<equiv> 1"
abbreviation (input) IPPROTO_ICMP :: int where "IPPROTO_ICMP \<equiv> 1"

record echo_req_t =
  er_type :: u8
  er_code :: u8
  er_checksum :: u16
  er_id :: u16
  er_seq :: u16
  er_time :: "u8 list"
  er_buf :: "u8 list"

definition echo_req_bytes :: "echo_req_t \<Rightarrow> u8 list" where
  "echo_req_bytes r = [er_type r, er_code r] @ le16_bytes (er_checksum r) @ le16_bytes (er_id r) @ le16_bytes (er_seq r) @ er_time r @ er_buf r"

text \<open>The fields that are read of a reply: identifier, sequence number and data.\<close>

definition reply_id :: "u8 list \<Rightarrow> u16" where
  "reply_id reply = le16 (reply ! 24) (reply ! 25)"

definition reply_seq :: "u8 list \<Rightarrow> u16" where
  "reply_seq reply = le16 (reply ! 26) (reply ! 27)"

definition reply_data :: "nat \<Rightarrow> u8 list \<Rightarrow> u8 list" where
  "reply_data clk reply = drop (28 + clk) reply"

text \<open>The bytes of data, and the size of a request, for the size asked for.\<close>

definition fill_size :: "nat \<Rightarrow> int \<Rightarrow> int" where
  "fill_size clk sz = (let sz = sz - int clk in if sz > int PING_BUFFER_SIZE then int PING_BUFFER_SIZE else sz)"

definition ping_fill :: "nat \<Rightarrow> int \<Rightarrow> u8 list \<Rightarrow> u8 list" where
  "ping_fill clk sz buf = patch 0 (map of_nat [0..<nat (fill_size clk sz)]) buf"

definition ping_total :: "nat \<Rightarrow> int \<Rightarrow> int" where
  "ping_total clk sz = int PING_HDR_SIZE + int clk + fill_size clk sz"

definition ping_request :: "int \<Rightarrow> int \<Rightarrow> u8 list \<Rightarrow> echo_req_t \<Rightarrow> echo_req_t option" where
  "ping_request tot seq time r =
     (let r = r\<lparr>er_id := PING_DEFAULT_ID, er_seq := of_int seq, er_type := 8, er_code := 0, er_time := time, er_checksum := 0\<rparr>
      in map_option (\<lambda>c. r\<lparr>er_checksum := c\<rparr>) (ping_checksum (echo_req_bytes r) (of_int tot)))"

section \<open>The program\<close>

text \<open>
  The loop that waits for the reply; \<open>addr\<close> is overwritten with the address of every sender.
  The result has the number of bytes, the reply and the address.
\<close>

partial_function (option) ping_recv_loop ::
  "'s sock_calls \<Rightarrow> nat \<Rightarrow> int \<Rightarrow> echo_req_t \<Rightarrow> x_sockaddr_in \<Rightarrow> 's \<Rightarrow> ('s \<times> int \<times> u8 list \<times> x_sockaddr_in) option" where
  "ping_recv_loop c clk sk req addr s =
     Option.bind (sc_recvfrom c sk (int (28 + clk + PING_BUFFER_SIZE)) s) (\<lambda>(s, n, bs, src).
       let addr = (case src of None \<Rightarrow> addr | Some a \<Rightarrow> a);
           reply = patch 0 bs (replicate (28 + clk + PING_BUFFER_SIZE) 0)
       in if n < 0 then Some (s, n, reply, addr)
          else if er_id req = reply_id reply \<and> er_seq req = reply_seq reply then Some (s, n, reply, addr)
          else ping_recv_loop c clk sk req addr s)"

datatype ping_result = Ping_send_failed | Ping_timeout | Ping_nothing | Ping_data_error | Ping_reply x_sockaddr_in int int "u8 list"

text \<open>
  What is printed for an answer of \<open>n\<close> bytes: the comparison takes \<open>recv_size - sizeof(clock_t)\<close> as an unsigned number, so
  that a shorter reply makes it read outside the structures.
\<close>

definition ping_result_of :: "nat \<Rightarrow> int \<Rightarrow> echo_req_t \<Rightarrow> int \<Rightarrow> u8 list \<Rightarrow> x_sockaddr_in \<Rightarrow> ping_result option" where
  "ping_result_of clk sz req n reply addr =
     (if n < 0 then Some Ping_timeout
      else if n = 0 then Some Ping_nothing
      else let recv_size = n - 20 - int PING_HDR_SIZE
           in if recv_size < int clk then None
              else if take (nat (recv_size - int clk)) (er_buf req) \<noteq> take (nat (recv_size - int clk)) (reply_data clk reply)
              then Some Ping_data_error
              else Some (Ping_reply addr recv_size (fill_size clk sz + int clk) reply))"

text \<open>The requests that are left, with the clock's value for each; a negative size is a huge unsigned one.\<close>

fun ping_loop ::
  "'s sock_calls \<Rightarrow> nat \<Rightarrow> int \<Rightarrow> int \<Rightarrow> u8 list list \<Rightarrow> int \<Rightarrow> echo_req_t \<Rightarrow> x_sockaddr_in \<Rightarrow> ping_result list \<Rightarrow> 's \<Rightarrow> ('s \<times> ping_result list) option" where
  "ping_loop c clk sz sk [] seq req addr res s = Some (s, res)"
| "ping_loop c clk sz sk (time # clocks) seq req addr res s =
     do {
       req \<leftarrow> ping_request (ping_total clk sz) seq time req;
       (s, n) \<leftarrow> (if ping_total clk sz < 0 then None
                  else sc_sendto c sk (take (nat (ping_total clk sz)) (echo_req_bytes req)) addr s);
       if n < 0 then Some (s, res @ [Ping_send_failed])
       else do {
         (s, n, reply, addr) \<leftarrow> ping_recv_loop c clk sk req addr s;
         r \<leftarrow> ping_result_of clk sz req n reply addr;
         ping_loop c clk sz sk clocks (seq + 1) req addr (res @ [r]) s
       }
     }"

text \<open>The receive timeout of five seconds, as the bytes of a \<^verbatim>\<open>struct x_timeval\<close>.\<close>

definition ping_tmo :: "u8 list" where
  "ping_tmo = [5, 0, 0, 0, 0, 0, 0, 0]"

text \<open>\<open>clocks\<close> has one element for each of the \<^verbatim>\<open>count\<close> requests.\<close>

definition ping_run ::
  "'s sock_calls \<Rightarrow> nat \<Rightarrow> echo_req_t \<Rightarrow> string \<Rightarrow> u8 list list \<Rightarrow> int \<Rightarrow> 's \<Rightarrow> ('s \<times> ping_result list) option" where
  "ping_run c clk req dest clocks sz s =
     do {
       (s, sk) \<leftarrow> sc_socket c (uint AF_INET) SOCK_RAW IPPROTO_ICMP s;
       if sk < 0 then Some (s, [])
       else do {
         a \<leftarrow> x_inet_addr (Some dest);
         (s, _) \<leftarrow> sc_setsockopt c sk 0 1 ping_tmo s;
         let req = req\<lparr>er_buf := ping_fill clk sz (er_buf req)\<rparr>;
         (s, res) \<leftarrow> ping_loop c clk sz sk clocks 0 req \<lparr>sin_family = AF_INET, sin_port = 0, sin_addr = ipaddr_to_buf a\<rparr> [] s;
         (s, _) \<leftarrow> sc_close c sk s;
         Some (s, res)
       }
     }"

section \<open>The checksum is the stack's\<close>

lemma ucast_high: "ucast (ucast (drop_bit 16 (csum :: u32)) :: u16) = drop_bit 16 csum"
  by (rule bit_word_eqI) (auto simp: bit_simps dest: bit_imp_le_length)

lemma ucast_high_0: "(ucast (drop_bit 16 (csum :: u32)) :: u16) = 0 \<longleftrightarrow> drop_bit 16 csum = 0"
  using ucast_high [of csum] by (metis unsigned_0)

lemma fold_step_less: "drop_bit 16 (csum :: u32) \<noteq> 0 \<Longrightarrow> unat (drop_bit 16 csum + (csum AND 0xffff)) < unat csum"
  using unat_high [of csum] by (auto simp: unat_fold_step intro!: div_mod_less simp flip: unat_eq_zero)

termination ping_fold
  by (relation "measure unat") (auto simp: ucast_high ucast_high_0 fold_step_less)

declare ping_fold.simps [simp del] ping_words.simps [simp del]

lemma ping_fold_eq: "ping_fold csum = checksum_fold csum"
proof (induction csum rule: ping_fold.induct)
  case (1 csum)
  then show ?case by (subst ping_fold.simps, subst checksum_fold.simps) (auto simp: ucast_high ucast_high_0 Let_def)
qed

lemma ping_words_eq: "ping_words len buf csum = checksum_words (unat len) buf csum"
proof (induction len buf csum rule: ping_words.induct)
  case (1 len buf csum)
  show ?case
  proof (cases "len > 1")
    case True
    then have "unat len = Suc (Suc (unat (len - 2)))" using unat_sub [of 2 len] by (auto simp: word_less_nat_alt word_le_nat_alt)
    with True 1 show ?thesis by (subst ping_words.simps) (auto split: list.splits)
  next
    case False
    then have "unat len \<le> 1" by (simp add: word_less_nat_alt)
    then have "len = 0 \<or> len = 1" by (auto simp: word_unat_eq_iff le_Suc_eq)
    then show ?thesis by (subst ping_words.simps) (auto split: list.splits)
  qed
qed

lemma ucast_not: "ucast (NOT (w :: u32)) = NOT (ucast w :: u16)"
  by (rule bit_word_eqI) (auto simp: bit_simps)

lemma ping_checksum_eq: "ping_checksum buf len = checksum16 0 buf len 0 True"
  by (simp add: ping_checksum_def checksum16_def ping_words_eq ping_fold_eq ucast_not Let_def)

section \<open>Requests and what counts as their reply\<close>

lemma le16_len: "length (le16_bytes v) = 2"
  by (simp add: le16_bytes_def)

lemma req_bytes_take:
  "4 \<le> n \<Longrightarrow> take n (echo_req_bytes r) =
    [er_type r, er_code r] @ le16_bytes (er_checksum r) @ take (n - 4) (le16_bytes (er_id r) @ le16_bytes (er_seq r) @ er_time r @ er_buf r)"
  by (simp add: echo_req_bytes_def le16_bytes_def numeral_eq_Suc take_Cons split: nat.splits)

lemma req_checksum_sum:
  "4 \<le> n \<Longrightarrow> bsum False (take n (echo_req_bytes (r\<lparr>er_checksum := c\<rparr>))) = bsum False (take n (echo_req_bytes (r\<lparr>er_checksum := 0\<rparr>))) + unat c"
  by (simp add: req_bytes_take bsum_append le16_bytes_sum le16_len)

lemma ping_total_bounds:
  assumes "int clk \<le> sz" "clk \<le> 8"
  shows "8 \<le> nat (ping_total clk sz)" "nat (ping_total clk sz) \<le> 8 + clk + 4096" "int (nat (ping_total clk sz)) = ping_total clk sz"
  using assms by (auto simp: ping_total_def fill_size_def Let_def)

lemma ping_request_ok:
  assumes sz: "int clk \<le> sz" "clk \<le> 8" and l: "length time = clk" "length (er_buf r) = 4096"
  shows "\<exists>c. ping_request (ping_total clk sz) seq time r =
      Some (r\<lparr>er_id := PING_DEFAULT_ID, er_seq := of_int seq, er_type := 8, er_code := 0, er_time := time, er_checksum := c\<rparr>) \<and>
    csum_result True (bsum False (take (nat (ping_total clk sz)) (echo_req_bytes
      (r\<lparr>er_id := PING_DEFAULT_ID, er_seq := of_int seq, er_type := 8, er_code := 0, er_time := time, er_checksum := c\<rparr>)))) = 0"
proof -
  let ?n = "nat (ping_total clk sz)"
  let ?r = "r\<lparr>er_id := PING_DEFAULT_ID, er_seq := of_int seq, er_type := 8, er_code := 0, er_time := time, er_checksum := 0\<rparr>"
  note b = ping_total_bounds [OF sz]
  have u: "unat (of_int (ping_total clk sz) :: u16) = ?n"
  proof -
    have "of_int (ping_total clk sz) = (of_nat ?n :: u16)" by (metis b(3) of_int_of_nat_eq)
    with b(2) sz(2) show ?thesis by (simp add: unsigned_of_nat take_bit_nat_eq_self)
  qed
  have len: "?n \<le> length (echo_req_bytes ?r)" using b(2) l by (simp add: echo_req_bytes_def le16_bytes_def)
  let ?c = "csum_result True (bsum False (take ?n (echo_req_bytes ?r)))"
  have c: "ping_checksum (echo_req_bytes ?r) (of_int (ping_total clk sz)) = Some ?c"
    unfolding ping_checksum_eq using len by (subst checksum16_spec) (simp_all add: u)
  have z: "?r\<lparr>er_checksum := 0\<rparr> = ?r" by simp
  have "csum_result True (bsum False (take ?n (echo_req_bytes (?r\<lparr>er_checksum := ?c\<rparr>)))) = 0"
    using b(1) by (subst req_checksum_sum) (simp, simp only: z csum_result_verify)
  with c show ?thesis by (intro exI [of _ ?c]) (simp add: ping_request_def Let_def)
qed

lemma ping_recv_match:
  assumes "ping_recv_loop c clk sk req addr s = Some r" "0 < fst (snd r)"
  shows "reply_id (fst (snd (snd r))) = er_id req \<and> reply_seq (fst (snd (snd r))) = er_seq req"
  using assms(1)
proof (rule ping_recv_loop.raw_induct [of "\<lambda>c clk sk req' addr s r. req' = req \<longrightarrow> 0 < fst (snd r) \<longrightarrow>
    reply_id (fst (snd (snd r))) = er_id req \<and> reply_seq (fst (snd (snd r))) = er_seq req", rotated, THEN mp [OF mp [OF _ refl] assms(2)]], goal_cases)
  case (1 loop c clk sk req' addr s r)
  show ?case
  proof (intro impI)
    assume rq: "req' = req" and p: "0 < fst (snd r)"
    from 1(2) obtain s1 n bs src where e: "sc_recvfrom c sk (int (28 + clk + PING_BUFFER_SIZE)) s = Some (s1, n, bs, src)"
      by (auto simp: bind_eq_Some_conv)
    let ?reply = "patch 0 bs (replicate (28 + clk + PING_BUFFER_SIZE) 0)"
    show "reply_id (fst (snd (snd r))) = er_id req \<and> reply_seq (fst (snd (snd r))) = er_seq req"
    proof (cases "n < 0 \<or> er_id req = reply_id ?reply \<and> er_seq req = reply_seq ?reply")
      case True
      with 1(2) e p show ?thesis by (auto simp: rq Let_def split: if_splits)
    next
      case False
      with 1(2) e have "loop c clk sk req' (case src of None \<Rightarrow> addr | Some a \<Rightarrow> a) s1 = Some r" by (simp add: rq Let_def split: if_splits)
      with 1(1) rq p show ?thesis by blast
    qed
  qed
qed

lemma ping_reply_iff:
  "ping_result_of clk sz req n reply addr = Some (Ping_reply a rn sn reply') \<longleftrightarrow>
     0 < n \<and> a = addr \<and> reply' = reply \<and> rn = n - 28 \<and> sn = fill_size clk sz + int clk \<and> int clk \<le> rn \<and>
     take (nat (rn - int clk)) (er_buf req) = take (nat (rn - int clk)) (reply_data clk reply)"
  by (auto simp: ping_result_of_def Let_def)

text \<open>C19. Ping sends valid requests and believes only their answers. Its own checksum routine agrees with the stack's on every
  buffer. Every request it builds is an echo request with its identifier, the sequence number asked for, the time and the data buffer,
  of the size asked for (at most the data buffer), and its checksum is one that the receiving side finds correct. When the loop
  that waits returns something, identifier and sequence number are those of the request; it is then reported as a reply exactly when
  it is long enough to hold the time and as many data bytes as came back agree with those sent, with its own size and the size sent beside it,
  so that an answer with fewer or more bytes is reported too. The type of the message is not looked at. The
  size is assumed to be at least that of the time, which has at most eight bytes, and the buffer to have its 4096 bytes.\<close>

theorem ping_requests_and_replies:
  assumes "int clk \<le> sz" "clk \<le> 8" "length time = clk" "length (er_buf r) = PING_BUFFER_SIZE"
  shows "(\<forall>buf len. ping_checksum buf len = checksum16 0 buf len 0 True) \<and>
    ping_total clk sz = 8 + min sz (int clk + 4096) \<and>
    (\<exists>req. ping_request (ping_total clk sz) seq time r = Some req \<and>
       er_type req = 8 \<and> er_code req = 0 \<and> er_id req = 0x200 \<and> er_seq req = of_int seq \<and> er_time req = time \<and> er_buf req = er_buf r \<and>
       csum_result True (bsum False (take (nat (ping_total clk sz)) (echo_req_bytes req))) = 0 \<and>
       (\<forall>s s' n reply addr addr'. ping_recv_loop c clk sk req addr s = Some (s', n, reply, addr') \<longrightarrow>
          (0 < n \<longrightarrow> reply_id reply = 0x200 \<and> reply_seq reply = of_int seq) \<and>
          (\<forall>a rn sn reply'. ping_result_of clk sz req n reply addr' = Some (Ping_reply a rn sn reply') \<longleftrightarrow>
            0 < n \<and> a = addr' \<and> reply' = reply \<and> rn = n - 28 \<and> sn = min sz (int clk + 4096) \<and> int clk \<le> rn \<and>
            take (nat (rn - int clk)) (er_buf r) = take (nat (rn - int clk)) (drop (28 + clk) reply))))"
proof -
  from ping_request_ok [OF assms, of seq] obtain k where
    k: "ping_request (ping_total clk sz) seq time r =
        Some (r\<lparr>er_id := PING_DEFAULT_ID, er_seq := of_int seq, er_type := 8, er_code := 0, er_time := time, er_checksum := k\<rparr>)"
      "csum_result True (bsum False (take (nat (ping_total clk sz)) (echo_req_bytes
        (r\<lparr>er_id := PING_DEFAULT_ID, er_seq := of_int seq, er_type := 8, er_code := 0, er_time := time, er_checksum := k\<rparr>)))) = 0" by blast
  let ?req = "r\<lparr>er_id := PING_DEFAULT_ID, er_seq := of_int seq, er_type := 8, er_code := 0, er_time := time, er_checksum := k\<rparr>"
  have f: "fill_size clk sz + int clk = min sz (int clk + 4096)" by (simp add: fill_size_def Let_def)
  then have "ping_total clk sz = 8 + min sz (int clk + 4096)" by (simp add: ping_total_def)
  moreover have "reply_id reply = 0x200 \<and> reply_seq reply = of_int seq"
    if "ping_recv_loop c clk sk ?req addr s = Some (s', n, reply, addr')" "0 < n" for s s' n reply addr addr'
    using ping_recv_match [OF that(1)] that(2) by simp
  moreover note ping_reply_iff [of clk sz ?req, unfolded f reply_data_def]
  ultimately show ?thesis using k ping_checksum_eq by (intro conjI exI [of _ ?req]) auto
qed

text \<open>A socket that answers: first a stray message, then the reply.\<close>

definition sample_req :: echo_req_t where
  "sample_req = \<lparr>er_type = 0, er_code = 0, er_checksum = 0, er_id = 0, er_seq = 0, er_time = [], er_buf = replicate 4096 7\<rparr>"

definition sample_reply :: "u8 list" where
  "sample_reply = replicate 20 0 @ [0, 0, 0, 0, 0, 2, 3, 0] @ replicate 8 0 @ [7, 7]"

definition sample_host :: x_sockaddr_in where
  "sample_host = \<lparr>sin_family = AF_INET, sin_port = 0, sin_addr = [192, 168, 110, 2]\<rparr>"

definition sample_calls :: "nat sock_calls" where
  "sample_calls =
     \<lparr>sc_socket = (\<lambda>_ _ _ s. Some (s, 0)), sc_bind = (\<lambda>_ _ s. Some (s, 0)), sc_listen = (\<lambda>_ _ s. Some (s, 0)),
      sc_accept = (\<lambda>_ s. Some (s, 0, None)), sc_connect = (\<lambda>_ _ s. Some (s, 0)), sc_setsockopt = (\<lambda>_ _ _ _ s. Some (s, 0)),
      sc_send = (\<lambda>_ bs s. Some (s, int (length bs))), sc_sendto = (\<lambda>_ bs _ s. Some (s, int (length bs))), sc_recv = (\<lambda>_ _ s. Some (s, 0, [])),
      sc_recvfrom = (\<lambda>_ _ s. Some (s + 1, 38, if s = 0 then replicate 38 1 else sample_reply, Some sample_host)), sc_close = (\<lambda>_ s. Some (s, 0))\<rparr>"

lemma sample_recv:
  assumes "er_id req = 0x200" "er_seq req = 3"
  shows "\<exists>z. ping_recv_loop sample_calls 8 0 req addr 0 = Some (2, 38, sample_reply @ z, sample_host)"
proof -
  let ?b = "\<lambda>bs. patch 0 bs (replicate 4132 (0 :: u8))"
  have 1: "reply_id (?b (replicate 38 1)) = 0x101" by (simp add: reply_id_def patch_def nth_append le16_def)
  have 2: "reply_id (?b sample_reply) = 0x200" "reply_seq (?b sample_reply) = 3"
    by (simp_all add: reply_id_def reply_seq_def patch_def nth_append sample_reply_def le16_def)
  show ?thesis
    by (subst ping_recv_loop.simps, subst ping_recv_loop.simps) (simp add: sample_calls_def Let_def assms 1 2, simp add: patch_def)
qed

theorem ping_requests_and_replies_witness:
  "\<exists>req reply. ping_request (ping_total 8 10) 3 (replicate 8 0) sample_req = Some req \<and>
     csum_result True (bsum False (take (nat (ping_total 8 10)) (echo_req_bytes req))) = 0 \<and>
     ping_recv_loop sample_calls 8 0 req sample_host 0 = Some (2, 38, reply, sample_host) \<and>
     ping_result_of 8 10 req 38 reply sample_host = Some (Ping_reply sample_host 10 10 reply)"
proof -
  have l: "length (er_buf sample_req) = 4096" by (simp add: sample_req_def)
  note t = ping_requests_and_replies [of 8 10 "replicate 8 0" sample_req 3 sample_calls 0, OF _ _ _ l]
  then obtain req where req: "ping_request (ping_total 8 10) 3 (replicate 8 0) sample_req = Some req" "er_id req = 0x200" "er_seq req = 3"
      "csum_result True (bsum False (take (nat (ping_total 8 10)) (echo_req_bytes req))) = 0" and
    rep: "\<And>s s' n reply addr addr' a rn sn reply'. ping_recv_loop sample_calls 8 0 req addr s = Some (s', n, reply, addr') \<Longrightarrow>
      0 < n \<and> a = addr' \<and> reply' = reply \<and> rn = n - 28 \<and> sn = 10 \<and> 8 \<le> rn \<and>
            take (nat (rn - 8)) (er_buf sample_req) = take (nat (rn - 8)) (drop 36 reply) \<Longrightarrow>
      ping_result_of 8 10 req n reply addr' = Some (Ping_reply a rn sn reply')" by auto
  obtain z where z: "ping_recv_loop sample_calls 8 0 req sample_host 0 = Some (2, 38, sample_reply @ z, sample_host)"
    using sample_recv [OF req(2,3)] by blast
  have "ping_result_of 8 10 req 38 (sample_reply @ z) sample_host = Some (Ping_reply sample_host 10 10 (sample_reply @ z))"
    by (rule rep [OF z]) (simp add: sample_req_def sample_reply_def numeral_2_eq_2)
  with req z show ?thesis by blast
qed

end
