(* ===== verification/Spec2Isabelle.thy ===== *)
theory Spec2Isabelle
  imports Net_Queue Net_Ipaddr Net_Timer Net_Api Net_Plat Net_Capture Net_Icmp_Flow Net_Ping
begin

text \<open>
  A verification library for \<^bold>\<open>easy-net\<close>, a TCP/IP stack in C that runs in user space on
  captured Ethernet frames.

  \<^bold>\<open>The program.\<close>  Driver threads (\<^verbatim>\<open>src/platform/netif_pcap.c\<close>) move frames between the capture
  library and the queues of an interface.  One worker thread (\<^verbatim>\<open>src/stack/msg_handler.c\<close>) takes
  messages from a bounded queue: an interface has input, or an application asks for a function
  to be run.  Between messages it runs the soft timers.  Everything above the drivers, the
  packets, the interfaces, ARP, IPv4, ICMP, UDP, TCP and the sockets, is state of this one
  thread; an application thread (\<^verbatim>\<open>src/api/socket.c\<close>) posts a request and waits for a semaphore.

  \<^bold>\<open>The state.\<close>  One record, extended layer by layer in the order of the includes:
  \<open>timer_state\<close>, \<open>packet_state\<close>, \<open>netif_state\<close>, \<open>rt_state\<close>, \<open>arp_state\<close>, \<open>ipv4_state\<close>,
  \<open>sock_state\<close>, \<open>raw_state\<close>, \<open>udp_state\<close>, \<open>tcp_state\<close>.  Each adds the static variables of its file; a static
  array of structures is a function from addresses to records, a pool is the sequence of its
  free blocks and a list the sequence of its nodes.  An operation of a layer is polymorphic in
  what lies above, so the operation is the same definition for every caller.  Fixed-width
  integers are words where the code's arithmetic wraps, \<^verbatim>\<open>int\<close> where it is used in its range.
  An operation returns the new state with the error code of the code; the result \<^term>\<open>None\<close> stands
  for a fault: an access outside an array or through a null pointer, or an assertion that fails.

  \<^bold>\<open>Theories and sources.\<close>
  \<^item> \<open>Net_Prelude\<close>: types, error codes (\<^verbatim>\<open>net_errors.h\<close>), generic lemmas.
  \<^item> \<open>Net_List\<close>: \<^verbatim>\<open>list.c\<close> on a heap of nodes.  Every operation is shown to act on the sequence
    the heap represents; the locale \<open>seq_list\<close> is the contract and \<open>dll\<close> its interpretation.
  \<^item> \<open>Net_Pool\<close>: \<^verbatim>\<open>memory_pool.c\<close> on the same heap.  The locale \<open>block_pool\<close> states that blocks are
    conserved and that a call blocks only on an empty shared pool when told to wait; it is interpreted on the heap version and on the sequences that the layers
    above use, which is why these may use \<open>pool_alloc\<close> and \<open>pool_free\<close>.
  \<^item> \<open>Net_Ring\<close>, \<open>Net_Queue\<close>: ring arithmetic with the locale \<open>bounded_fifo\<close>, and \<^verbatim>\<open>fixed_queue.c\<close> both
    as whole calls and as steps of interleaved threads (\<open>fq_step\<close>), for the semaphores of both builds: first in first out and
    no lost wake-up for every schedule on Windows, and on Linux with one sender and one receiver; a run
    with two senders on Linux overwrites a message (\<open>fixed_queue_overfills\<close>).
  \<^item> \<open>Net_Timer\<close>: \<^verbatim>\<open>timer.c\<close>.  The delta list refines a map from timers to absolute times.  A scan is described for
    callbacks that add and remove timers themselves (\<open>timer_ops\<close>); \<open>Net_Tcp_Data\<close> shows that TCP's callbacks are
    such callbacks.
  \<^item> \<open>Net_Utils\<close>, \<open>Net_Ipaddr\<close>: \<^verbatim>\<open>utils.c\<close>, \<^verbatim>\<open>ipaddr.c\<close>, \<^verbatim>\<open>net_api.c\<close>: byte order, the Internet checksum and
    its algebra, addresses and their text form.
  \<^item> \<open>Net_Packet\<close>, \<open>Net_Packet_IO\<close>: \<^verbatim>\<open>packet_buffer.c\<close>.  A packet is a chain of pages; its abstraction is
    the sequence of its bytes.  Pages are neither lost nor shared; headers, resizing, joining,
    reading, writing, copying and checksums are described on the sequence.
  \<^item> \<open>Net_Netif\<close>, \<open>Net_Link\<close>: \<^verbatim>\<open>netif.c\<close>, \<^verbatim>\<open>loop.c\<close>, and the link-layer calls of \<^verbatim>\<open>ether.c\<close>.
  \<^item> \<open>Net_Header\<close>, \<open>Net_Ether\<close>, \<open>Net_Arp\<close>: packed headers in packets, \<^verbatim>\<open>ether.c\<close>, \<^verbatim>\<open>arp.c\<close>: the frame that is sent, the cache
    invariant, delivery of packets that waited for a resolution.
  \<^item> \<open>Net_Route\<close>, \<open>Net_Ipv4\<close>, \<open>Net_Frag\<close>: \<^verbatim>\<open>ipv4.c\<close>: longest prefix match, output with fragmentation,
    reassembly of fragments in any order of arrival.
  \<^item> \<open>Net_Sock\<close>, \<open>Net_Raw\<close>, \<open>Net_Icmp\<close>, \<open>Net_Udp\<close>: \<^verbatim>\<open>sock.c\<close> (the base), \<^verbatim>\<open>raw.c\<close>, \<^verbatim>\<open>icmpv4.c\<close>, \<^verbatim>\<open>udp.c\<close>.
  \<^item> \<open>Net_TcpBuf\<close>: \<^verbatim>\<open>tcp_buf.c\<close>, an interpretation of \<open>bounded_fifo\<close>.
  \<^item> \<open>Net_Tcp\<close>, \<open>Net_Tcp_Out\<close>, \<open>Net_Tcp_In\<close>, \<open>Net_Tcp_Api\<close>: \<^verbatim>\<open>tcp.h\<close>, \<^verbatim>\<open>tcp_out.c\<close>, \<^verbatim>\<open>tcp_in.c\<close> with
    \<^verbatim>\<open>tcp_state.c\<close>, and the calls of \<^verbatim>\<open>tcp.c\<close>.
  \<^item> \<open>Net_Frame\<close>, \<open>Net_Tcp_Frame\<close>: what sending a packet and what TCP's helpers leave unchanged.
  \<^item> \<open>Net_Tcp_States\<close>, \<open>Net_Tcp_Steps\<close>: the locales \<open>tcb_relation\<close> and \<open>tcb_state_relation\<close>: a relation between
    the old and the new connection record that allows the elementary updates holds across every
    handler, timer and call.  Interpreted for \<open>tcb_stays\<close> (the state does not change) and
    \<open>keeps_wf\<close> (the record stays well formed).
  \<^item> \<open>Net_Tcp_Inv\<close>: the events of a running TCP as a step relation and the invariant of every
    reachable state.
  \<^item> \<open>Net_Tcp_Machine\<close>: the automaton of the connection as a function (\<open>seg_next\<close>) of the state, the header and the
    records before and after, and that the handlers go exactly where it says.
  \<^item> \<open>Net_Tcp_Data\<close>: the acceptance test, acknowledgements and the send stream, incoming data and
    the receive stream; the timeouts of the retransmission timer (\<open>timeouts\<close>), which is started again by every
    retransmission that does not fail, up to giving up after the last.
  \<^item> \<open>Net_Socket\<close>, \<open>Net_Stack\<close>: the requests of \<^verbatim>\<open>sock.c\<close>; the input path, the timers' callbacks, the
    messages and one round of the worker thread, the drivers, \<^verbatim>\<open>init_stack\<close>.
  \<^item> \<open>Net_Api\<close>: \<^verbatim>\<open>socket.c\<close>, with what the worker does in the meantime as a parameter.
  \<^item> \<open>Net_Ip_Flow\<close>, \<open>Net_Udp_Flow\<close>, \<open>Net_In_Flow\<close>, \<open>Net_Icmp_Flow\<close>: packets and datagrams from end to end.  The header that
    \<^verbatim>\<open>ipv4_out\<close> builds is one that \<^verbatim>\<open>ipv4_in\<close> accepts; a datagram that arrives is read unchanged by the
    application; a datagram sent through the loop interface and the worker's queue arrives; an echo request is answered.
  \<^item> \<open>Net_Apps\<close>, \<open>Net_Ping\<close>: the echo programs and ping of \<^verbatim>\<open>src/stack/app\<close>.  The locale \<open>sock_service\<close> is what they
    rely on (a send is all or nothing, a receive reports what it stored); it is interpreted on the calls of
    the stack (\<open>stack_calls\<close>).
  \<^item> \<open>Net_Plat\<close>: the differences of times, the Linux semaphores of \<^verbatim>\<open>sys_plat.c\<close> as steps of interleaved
    threads on a mutex and a condition variable, \<^verbatim>\<open>locker.c\<close>.  For one thread they are the semaphore
    \<open>sys_sem_wait\<close> that the models of whole calls use (\<open>linux_sem_alone\<close>).
  \<^item> \<open>Net_Capture\<close>: finding and opening a capture device, with the capture library as a parameter.

  \<^bold>\<open>Loops.\<close>  Loops over lists are structural recursions.  The loops over pages, option bytes and fragments are recursive functions with a
  measure.  \<open>list_for_each\<close> takes the number of nodes as its bound and is
  shown to visit all nodes within it.  The loops of the socket calls (\<open>send_loop\<close>, \<open>recv_loop\<close>,
  \<open>accept_loop\<close>) and of the servers need not end and are partial functions; blocking for ever is the result \<^term>\<open>None\<close>.

  \<^bold>\<open>Parameters.\<close>  The capture library and its devices, success of creating a semaphore or a
  thread, and the schedule of the worker as an application thread observes it are arguments.

  \<^bold>\<open>Not modelled.\<close>  Printing and logging (\<^verbatim>\<open>log.c\<close> and the display functions), which change no state;
  the tests; the headers
  of the capture library; threads, mutexes, sleeping and reading the clock in \<^verbatim>\<open>sys_plat.c\<close>, which
  are single calls of the operating system.  The lock around a queue or a pool is
  the atomicity of the step that it protects.
\<close>

end
